(* ===== verification/Prelude.thy ===== *)
theory Prelude
  imports Main "HOL-Library.Word"
begin

unbundle bit_operations_syntax

text \<open>
  Shared vocabulary of the development. Machine integers of the C sources are words of
  their width; a byte buffer is a list of 8-bit words; an array of machine words seen
  through a byte pointer (the cast \<^verbatim>\<open>(uint8_t* )buffer\<close> on the little-endian K210) is
  \<open>bytes_of_words\<close>, and the inverse view is \<open>words_of_bytes\<close>. The lemmas here are the
  facts on lists, blocks and byte order that the component theories use.
\<close>

type_synonym u8 = "8 word"
type_synonym u16 = "16 word"
type_synonym u32 = "32 word"
type_synonym u64 = "64 word"
type_synonym bytes = "8 word list"

named_theorems byte_view \<open>facts on the byte view of word arrays\<close>
named_theorems block_simps \<open>facts on splitting a message into blocks\<close>

section \<open>Copying into arrays\<close>

text \<open>\<open>memcpy_at dst off src\<close> is the C call that copies the bytes \<open>src\<close> over \<open>dst\<close> from
  byte offset \<open>off\<close> on (in range: every use has \<open>off + length src \<le> length dst\<close>).\<close>

definition memcpy_at :: "'a list \<Rightarrow> nat \<Rightarrow> 'a list \<Rightarrow> 'a list" where
  "memcpy_at dst off src = take off dst @ src @ drop (off + length src) dst"

lemma length_memcpy_at [simp]:
  "off + length src \<le> length dst \<Longrightarrow> length (memcpy_at dst off src) = length dst"
  by (simp add: memcpy_at_def)

lemma memcpy_at_0 [simp]: "memcpy_at dst 0 src = src @ drop (length src) dst"
  by (simp add: memcpy_at_def)

lemma memcpy_at_Nil [simp]: "memcpy_at dst off [] = dst"
  by (simp add: memcpy_at_def)

lemma take_memcpy_at:
  "off + length src \<le> length dst \<Longrightarrow>
   take (off + length src) (memcpy_at dst off src) = take off dst @ src"
  by (simp add: memcpy_at_def)

lemma memcpy_at_full:
  "off + length src = length dst \<Longrightarrow> memcpy_at dst off src = take off dst @ src"
  by (simp add: memcpy_at_def)

lemma take_prefix: "length xs = n \<Longrightarrow> take n (xs @ ys) = xs"
  by simp

section \<open>Chunks of a list\<close>

function chunks :: "nat \<Rightarrow> 'a list \<Rightarrow> 'a list list" where
  "chunks n xs = (if n = 0 \<or> xs = [] then [] else take n xs # chunks n (drop n xs))"
  by pat_completeness auto
termination
  by (relation "measure (length \<circ> snd)") auto

declare chunks.simps [simp del]

lemma chunks_Nil [simp]: "chunks n [] = []"
  by (simp add: chunks.simps)

lemma chunks_0 [simp]: "chunks 0 xs = []"
  by (simp add: chunks.simps)

lemma chunks_append_block [block_simps]:
  "0 < n \<Longrightarrow> length xs = n \<Longrightarrow> chunks n (xs @ ys) = xs # chunks n ys"
  by (subst chunks.simps) auto

lemma chunks_block [block_simps]: "0 < n \<Longrightarrow> length xs = n \<Longrightarrow> chunks n xs = [xs]"
  using chunks_append_block [of n xs "[]"] by simp

lemma length_dvd_drop: "n dvd length xs \<Longrightarrow> n dvd length (drop n xs)"
  by (simp add: dvd_diff_nat)

lemma length_dvd_le: "n dvd length xs \<Longrightarrow> xs \<noteq> [] \<Longrightarrow> n \<le> length xs"
  by (auto intro: dvd_imp_le)

lemma chunks_append [block_simps]:
  "n dvd length xs \<Longrightarrow> chunks n (xs @ ys) = chunks n xs @ chunks n ys"
proof (induction n xs rule: chunks.induct)
  case (1 n xs)
  show ?case
  proof (cases "n = 0 \<or> xs = []")
    case True
    then show ?thesis by auto
  next
    case False
    then have "n \<le> length xs" using "1.prems" by (auto intro: length_dvd_le)
    with False "1.IH" "1.prems" show ?thesis
      by (subst (1 2) chunks.simps) (auto simp: length_dvd_drop)
  qed
qed

lemma concat_chunks [simp]: "0 < n \<Longrightarrow> concat (chunks n xs) = xs"
proof (induction n xs rule: chunks.induct)
  case (1 n xs)
  then show ?case by (subst chunks.simps) auto
qed

lemma length_chunks [block_simps]:
  "0 < n \<Longrightarrow> n dvd length xs \<Longrightarrow> length (chunks n xs) = length xs div n"
proof (induction n xs rule: chunks.induct)
  case (1 n xs)
  show ?case
  proof (cases "xs = []")
    case False
    with "1.prems" have "n \<le> length xs" by (auto intro: length_dvd_le)
    with False "1.IH" "1.prems" show ?thesis
      by (subst chunks.simps) (auto simp: length_dvd_drop le_div_geq)
  qed simp
qed

lemma chunks_all_length:
  "0 < n \<Longrightarrow> n dvd length xs \<Longrightarrow> b \<in> set (chunks n xs) \<Longrightarrow> length b = n"
proof (induction n xs rule: chunks.induct)
  case (1 n xs)
  show ?case
  proof (cases "xs = []")
    case False
    with "1.prems" have "n \<le> length xs" by (auto intro: length_dvd_le)
    have "b \<in> set (take n xs # chunks n (drop n xs))"
      using "1.prems" False by (simp add: chunks.simps [of n xs])
    with False "1.IH" "1.prems" \<open>n \<le> length xs\<close> show ?thesis
      by (auto simp: length_dvd_drop)
  qed (use "1.prems" in simp)
qed

lemma chunks_nth:
  "0 < n \<Longrightarrow> n dvd length xs \<Longrightarrow> i < length xs div n \<Longrightarrow> chunks n xs ! i = take n (drop (i * n) xs)"
proof (induction n xs arbitrary: i rule: chunks.induct)
  case (1 n xs)
  have ne: "xs \<noteq> []" using "1.prems" by auto
  then have le: "n \<le> length xs" using "1.prems"(2) by (rule length_dvd_le [rotated])
  show ?case
  proof (cases i)
    case 0
    then show ?thesis using "1.prems" ne by (simp add: chunks.simps [of n xs])
  next
    case (Suc j)
    have "chunks n (drop n xs) ! j = take n (drop (j * n) (drop n xs))"
      using "1.prems" ne le Suc by (intro "1.IH") (auto simp: length_dvd_drop le_div_geq)
    then show ?thesis using "1.prems" ne Suc by (simp add: chunks.simps [of n xs] add.commute)
  qed
qed

lemma chunks_concat_map:
  "0 < n \<Longrightarrow> (\<And>x. x \<in> set xs \<Longrightarrow> length (f x) = n) \<Longrightarrow> chunks n (concat (map f xs)) = map f xs"
  by (induction xs) (auto simp: chunks_append_block)

section \<open>The whole blocks and the tail of a message\<close>

definition full_part :: "nat \<Rightarrow> 'a list \<Rightarrow> 'a list" where
  "full_part n m = take (length m div n * n) m"

definition tail_part :: "nat \<Rightarrow> 'a list \<Rightarrow> 'a list" where
  "tail_part n m = drop (length m div n * n) m"

lemma full_tail [simp]: "full_part n m @ tail_part n m = m"
  by (simp add: full_part_def tail_part_def)

lemma length_full_part [block_simps]: "length (full_part n m) = length m div n * n"
  by (simp add: full_part_def)

lemma length_tail_part [block_simps]: "length (tail_part n m) = length m mod n"
  by (simp add: tail_part_def modulo_nat_def)

lemma full_part_dvd [block_simps]: "n dvd length (full_part n m)"
  by (simp add: length_full_part)

lemma full_tail_unique:
  assumes "m = a @ b" and "n dvd length a" and "length b < n"
  shows "full_part n m = a" and "tail_part n m = b"
proof -
  obtain k where k: "length a = k * n" using assms(2) by (auto simp: dvd_def mult.commute)
  have "length m div n = k" using assms k by (simp add: div_eq_dividend_iff)
  then show "full_part n m = a" and "tail_part n m = b"
    using assms(1) k by (simp_all add: full_part_def tail_part_def)
qed

lemma complete_block_mod: "0 < n \<Longrightarrow> (k + (n - k mod n)) mod n = (0::nat)"
proof -
  assume "0 < n"
  then have "k mod n \<le> n" by (simp add: less_imp_le)
  then have "k + (n - k mod n) = k div n * n + n"
    using div_mult_mod_eq [of k n] by linarith
  then show ?thesis by simp
qed

lemma parts_complete:
  assumes "length d = n - length m mod n" and "0 < n"
  shows "full_part n (m @ d) = full_part n m @ tail_part n m @ d" and "tail_part n (m @ d) = []"
    and "length (tail_part n m @ d) = n" and "length (m @ d) mod n = 0"
proof -
  have md: "m @ d = (full_part n m @ tail_part n m @ d) @ []"
    by (metis append.right_neutral append_assoc full_tail)
  show len: "length (tail_part n m @ d) = n"
    using assms by (simp add: length_tail_part less_imp_le)
  then have dv: "n dvd length (full_part n m @ tail_part n m @ d)"
    by (metis dvd_add_triv_right_iff full_part_dvd length_append)
  show "full_part n (m @ d) = full_part n m @ tail_part n m @ d" and t: "tail_part n (m @ d) = []"
    using full_tail_unique [OF md dv] assms(2) by simp_all
  show "length (m @ d) mod n = 0"
    using t length_tail_part [of n "m @ d"] by simp
qed

lemma parts_buffer:
  assumes "length d < n - length m mod n"
  shows "full_part n (m @ d) = full_part n m" and "tail_part n (m @ d) = tail_part n m @ d"
    and "length (m @ d) mod n = length m mod n + length d"
proof -
  have md: "m @ d = full_part n m @ tail_part n m @ d" by (metis append_assoc full_tail)
  have "length (tail_part n m @ d) < n" using assms by (simp add: length_tail_part)
  from full_tail_unique [OF md full_part_dvd this]
  show "full_part n (m @ d) = full_part n m" and t: "tail_part n (m @ d) = tail_part n m @ d" .
  show "length (m @ d) mod n = length m mod n + length d"
    using length_tail_part [of n "m @ d"] unfolding t by (simp add: length_tail_part)
qed

section \<open>Word arithmetic\<close>

lemma unat_of_nat_small: "n < 2 ^ LENGTH('a) \<Longrightarrow> unat (of_nat n :: 'a::len word) = n"
  by (simp add: unat_of_nat)

lemma unat_minus_of_nat:
  "u \<le> unat c \<Longrightarrow> unat (c - of_nat u :: 'a::len word) = unat c - u"
proof -
  assume u: "u \<le> unat c"
  then have "unat (of_nat u :: 'a word) = u"
    by (intro unat_of_nat_small le_less_trans [OF _ unsigned_less])
  then show ?thesis using u by (simp add: unat_sub word_le_nat_alt)
qed

section \<open>Byte order\<close>

definition bytes_le :: "nat \<Rightarrow> 'a::len word \<Rightarrow> bytes" where
  "bytes_le n w = map (\<lambda>i. ucast (drop_bit (8 * i) w)) [0..<n]"

primrec word_le :: "bytes \<Rightarrow> 'a::len word" where
  "word_le [] = 0"
| "word_le (b # bs) = ucast b OR push_bit 8 (word_le bs)"

definition word_be :: "bytes \<Rightarrow> 'a::len word" where
  "word_be bs = word_le (rev bs)"

definition bytes_be :: "nat \<Rightarrow> 'a::len word \<Rightarrow> bytes" where
  "bytes_be n w = rev (bytes_le n w)"

lemma length_bytes_le [simp]: "length (bytes_le n w) = n"
  by (simp add: bytes_le_def)

lemma length_bytes_be [simp]: "length (bytes_be n w) = n"
  by (simp add: bytes_be_def)

lemma bit_word_le:
  "bit (word_le bs :: 'a::len word) k \<longleftrightarrow>
     k < LENGTH('a) \<and> k div 8 < length bs \<and> bit (bs ! (k div 8)) (k mod 8)"
proof (induction bs arbitrary: k)
  case Nil
  then show ?case by simp
next
  case (Cons b bs)
  show ?case
  proof (cases "k < 8")
    case True
    then show ?thesis by (auto simp: bit_simps)
  next
    case False
    then obtain j where k: "k = j + 8" by (metis add.commute le_Suc_ex not_less)
    have "k div 8 = Suc (j div 8)" "k mod 8 = j mod 8" by (simp_all add: k)
    with False show ?thesis
      by (auto simp: bit_simps Cons.IH k dest: bit_imp_le_length)
  qed
qed

lemma word_le_bytes_le [byte_view]:
  "8 * n = LENGTH('a) \<Longrightarrow> word_le (bytes_le n w) = (w :: 'a::len word)"
  by (rule bit_word_eqI) (auto simp: bit_word_le bytes_le_def bit_simps algebra_simps)

lemma bytes_le_word_le [byte_view]:
  assumes "length bs = n" and "8 * n \<le> LENGTH('a)"
  shows "bytes_le n (word_le bs :: 'a::len word) = bs"
proof (rule nth_equalityI)
  show "length (bytes_le n (word_le bs :: 'a word)) = length bs" using assms by simp
next
  fix i assume "i < length (bytes_le n (word_le bs :: 'a word))"
  then have i: "i < n" by simp
  show "bytes_le n (word_le bs :: 'a word) ! i = bs ! i"
    by (rule bit_word_eqI) (use i assms in \<open>auto simp: bytes_le_def bit_simps bit_word_le\<close>)
qed

lemma word_be_bytes_be [byte_view]:
  "8 * n = LENGTH('a) \<Longrightarrow> word_be (bytes_be n w) = (w :: 'a::len word)"
  by (simp add: word_be_def bytes_be_def word_le_bytes_le)

lemma bytes_be_word_be [byte_view]:
  "length bs = n \<Longrightarrow> 8 * n \<le> LENGTH('a) \<Longrightarrow> bytes_be n (word_be bs :: 'a::len word) = bs"
  by (simp add: word_be_def bytes_be_def bytes_le_word_le)

definition bytes_of_words :: "nat \<Rightarrow> 'a::len word list \<Rightarrow> bytes" where
  "bytes_of_words n ws = concat (map (bytes_le n) ws)"

definition words_of_bytes :: "nat \<Rightarrow> bytes \<Rightarrow> 'a::len word list" where
  "words_of_bytes n bs = map word_le (chunks n bs)"

lemma length_bytes_of_words [simp]: "length (bytes_of_words n ws) = n * length ws"
  by (induction ws) (auto simp: bytes_of_words_def)

lemma length_words_of_bytes [block_simps]:
  "0 < n \<Longrightarrow> n dvd length bs \<Longrightarrow> length (words_of_bytes n bs) = length bs div n"
  by (simp add: words_of_bytes_def length_chunks)

lemma words_of_bytes_of_words [byte_view]:
  assumes "8 * n = LENGTH('a)"
  shows "words_of_bytes n (bytes_of_words n ws) = (ws :: 'a::len word list)"
proof -
  have "0 < n" using assms by (cases n) auto
  then show ?thesis using assms
    by (simp add: words_of_bytes_def bytes_of_words_def chunks_concat_map comp_def
        word_le_bytes_le)
qed

lemma bytes_of_words_of_bytes [byte_view]:
  assumes "8 * n = LENGTH('a)" and "n dvd length bs"
  shows "bytes_of_words n (words_of_bytes n bs :: 'a::len word list) = bs"
proof -
  have n: "0 < n" using assms by (cases n) auto
  have "map (\<lambda>b. bytes_le n (word_le b :: 'a word)) (chunks n bs) = map id (chunks n bs)"
    by (rule map_cong) (use n assms in \<open>auto simp: chunks_all_length bytes_le_word_le\<close>)
  then show ?thesis using n
    by (simp add: bytes_of_words_def words_of_bytes_def comp_def)
qed

end
