(* ===== verification/Mp_Obj.thy ===== *)
theory Mp_Obj
  imports Prelude
begin

text \<open>
  What the C modules of the port use of MicroPython: objects, raised errors, the allocator.
  An object the modules distinguish is one with a buffer (\<open>Mp_buffer\<close>: a str or bytes object,
  whose buffer is followed by a zero byte), an integer (True and False count as 1 and 0) or
  None. A call that raises is an \<open>Inl\<close>; \<open>Heap_overrun\<close> is not an error of Python but a write
  outside an array, which the code must never do, and \<open>Assert_failed\<close> a failed assertion.

  The allocator is a parameter (\<open>mp_env\<close>): the longest block it gives, and the contents of
  fresh memory and of the stack. Sizes are natural numbers where the code's \<^verbatim>\<open>size_t\<close>
  arithmetic stays far from its 64 bits (every length is that of an object in 8 MiB of memory).
\<close>

section \<open>Objects, errors, allocator\<close>

datatype mp_obj = Mp_buffer bytes | Mp_int int | Mp_none

datatype mp_error = TypeError | OverflowError | ValueError string | OSError int | MemoryError | Heap_overrun | Bad_self | Assert_failed

record mp_env =
  heap_limit :: nat
  fresh_bytes :: "nat \<Rightarrow> bytes"
  stack32 :: "u32 list"
  stack64 :: "u64 list"

definition mp_get_buffer_raise :: "mp_obj \<Rightarrow> mp_error + bytes" where
  "mp_get_buffer_raise arg = (case arg of Mp_buffer b \<Rightarrow> Inr b | _ \<Rightarrow> Inl TypeError)"

definition mp_obj_get_int :: "mp_obj \<Rightarrow> mp_error + int" where
  "mp_obj_get_int arg = (case arg of Mp_int i \<Rightarrow> if - (2 ^ 63) \<le> i \<and> i < 2 ^ 63 then Inr i else Inl OverflowError | _ \<Rightarrow> Inl TypeError)"

definition mp_obj_str_get_data :: "mp_obj \<Rightarrow> mp_error + bytes" where
  "mp_obj_str_get_data self = (case self of Mp_buffer b \<Rightarrow> Inr b | _ \<Rightarrow> Inl TypeError)"

definition mp_obj_is_true :: "mp_obj \<Rightarrow> bool" where
  "mp_obj_is_true arg = (case arg of Mp_none \<Rightarrow> False | Mp_int i \<Rightarrow> i \<noteq> 0 | Mp_buffer b \<Rightarrow> length b \<noteq> 0)"

text \<open>The buffer of a string under construction; the length argument is unsigned.\<close>

definition vstr_init_len :: "mp_env \<Rightarrow> u64 \<Rightarrow> mp_error + bytes" where
  "vstr_init_len env len =
     (let alloc = len + 1;
          alloc = (if alloc < 1 then 1 else alloc)
      in if unat alloc \<le> heap_limit env then Inr (fresh_bytes env (unat alloc)) else Inl MemoryError)"

text \<open>The allocator of the garbage collector returns a null pointer (\<open>None\<close>) for a block of no
  bytes, and \<^verbatim>\<open>m_malloc\<close> raises only when bytes were asked for.\<close>

definition m_malloc :: "mp_env \<Rightarrow> nat \<Rightarrow> mp_error + bytes option" where
  "m_malloc env num_bytes =
     (if num_bytes = 0 then Inr None
      else if num_bytes \<le> heap_limit env then Inr (Some (fresh_bytes env num_bytes))
      else Inl MemoryError)"

definition m_malloc0 :: "mp_env \<Rightarrow> nat \<Rightarrow> mp_error + bytes option" where
  "m_malloc0 env num_bytes =
     (case m_malloc env num_bytes of
        Inl e \<Rightarrow> Inl e
      | Inr None \<Rightarrow> Inr None
      | Inr (Some p) \<Rightarrow> Inr (Some (replicate num_bytes 0)))"

text \<open>A block grown to \<open>new_num_bytes\<close> keeps its bytes; what follows them is fresh.\<close>

definition m_realloc :: "mp_env \<Rightarrow> bytes \<Rightarrow> nat \<Rightarrow> mp_error + bytes option" where
  "m_realloc env ptr new_num_bytes =
     (case m_malloc env new_num_bytes of
        Inl e \<Rightarrow> Inl e
      | Inr None \<Rightarrow> Inr None
      | Inr (Some p) \<Rightarrow> Inr (Some (take new_num_bytes ptr @ drop (length ptr) p)))"

text \<open>A store \<^verbatim>\<open>buf[i] = v\<close> into an allocated block.\<close>

definition buf_store :: "'a list \<Rightarrow> nat \<Rightarrow> 'a \<Rightarrow> mp_error + 'a list" where
  "buf_store buf i v = (if i < length buf then Inr (buf[i := v]) else Inl Heap_overrun)"

section \<open>Storing at the end of what is written\<close>

text \<open>The first \<open>length w\<close> bytes of \<open>buf\<close> are \<open>w\<close>: what a loop that appends at an index has
  written so far. \<open>fresh_ok\<close> says that the allocator gives blocks of the size it was asked for.\<close>

definition written :: "'a list \<Rightarrow> 'a list \<Rightarrow> bool" where
  "written w buf = (length w \<le> length buf \<and> take (length w) buf = w)"

definition fresh_ok :: "mp_env \<Rightarrow> bool" where
  "fresh_ok env = (\<forall>n. length (fresh_bytes env n) = n)"

lemma written_Nil [simp]: "written [] buf"
  by (simp add: written_def)

lemma written_take: "written w buf \<Longrightarrow> take (length w) buf = w"
  by (simp add: written_def)

lemma written_length: "written w buf \<Longrightarrow> length w \<le> length buf"
  by (simp add: written_def)

lemma buf_store_written:
  assumes "written w buf" and "length w < length buf"
  shows "\<exists>buf'. buf_store buf (length w) v = Inr buf' \<and> written (w @ [v]) buf' \<and> length buf' = length buf"
proof -
  have "take (Suc (length w)) (buf[length w := v]) = w @ [v]"
    using assms by (simp add: written_def take_Suc_conv_app_nth take_update_cancel)
  then show ?thesis using assms by (simp add: buf_store_def written_def)
qed

lemma vstr_ok: "fresh_ok env \<Longrightarrow> n < heap_limit env \<Longrightarrow> n < 2 ^ 63 \<Longrightarrow> vstr_init_len env (word_of_int (int n)) = Inr (fresh_bytes env (Suc n))"
proof -
  assume "n < heap_limit env" and n: "n < 2 ^ 63"
  have "word_of_int (int n) + 1 = (of_nat (Suc n) :: u64)" by simp
  moreover have "unat (of_nat (Suc n) :: u64) = Suc n" using n by (simp add: unsigned_of_nat take_bit_nat_eq_self del: of_nat_Suc)
  moreover from this have "\<not> (of_nat (Suc n) :: u64) < 1" by (simp add: word_less_nat_alt)
  ultimately show ?thesis using \<open>n < heap_limit env\<close> by (simp add: vstr_init_len_def Let_def del: of_nat_Suc)
qed

text \<open>An allocator with room, for examples.\<close>

definition ample_env :: mp_env where
  "ample_env = \<lparr>heap_limit = 2 ^ 20, fresh_bytes = (\<lambda>n. replicate n 0xA5), stack32 = [], stack64 = []\<rparr>"

lemma ample_env_ok: "fresh_ok ample_env" "heap_limit ample_env = 2 ^ 20"
  by (simp_all add: ample_env_def fresh_ok_def)

end
