(* ===== verification/Hash_Stream.thy ===== *)
theory Hash_Stream
  imports Prelude
begin

unbundle bit_operations_syntax

text \<open>
  What a buffered (Merkle-Damgard) hash of \<^verbatim>\<open>uhashlib/crypto\<close> promises, stated once.
  The reference side: the padding of a message (\<open>md_pad\<close>), the big-endian words of a
  block (\<open>be_words\<close>), the message schedule (\<open>msg_sched\<close>) and the chaining over blocks
  (\<open>md_fold\<close>), in the form of FIPS 180-4. The code side: the context structure shared by
  SHA-1, SHA-256 and SHA-512 (\<open>sha_ctx\<close>) and what it means that a context stands for
  the bytes absorbed so far (\<open>md_repr\<close>). The locale \<open>md_context\<close> takes the three
  functions of one hash with the equations of their C bodies and proves that \<open>Update\<close>
  appends to the represented message and that \<open>Final\<close> yields the reference digest; the
  locale \<open>streaming_hash\<close> is the contract the clients (HMAC, PBKDF2, the MicroPython
  \<^verbatim>\<open>hashlib\<close> objects, the boot loader's driver) rely on.
\<close>

section \<open>Reference notions\<close>

definition be_words :: "nat \<Rightarrow> bytes \<Rightarrow> 'a::len word list" where
  "be_words n bs = map word_be (chunks n bs)"

definition md_pad :: "nat \<Rightarrow> bytes \<Rightarrow> bytes \<Rightarrow> bytes" where
  "md_pad B lf m =
     m @ [0x80] @ replicate ((B - (length m + 1 + length lf) mod B) mod B) 0 @ lf"

definition md_fold :: "nat \<Rightarrow> ('s \<Rightarrow> bytes \<Rightarrow> 's) \<Rightarrow> 's \<Rightarrow> bytes \<Rightarrow> 's" where
  "md_fold B f s m = foldl f s (chunks B m)"

text \<open>The message schedule: 16 block words, then one word per round computed from the
  words 16, 15, 14, 8, 7, 3 and 2 positions back.\<close>

primrec msg_sched :: "('w \<Rightarrow> 'w \<Rightarrow> 'w \<Rightarrow> 'w \<Rightarrow> 'w \<Rightarrow> 'w \<Rightarrow> 'w \<Rightarrow> 'w) \<Rightarrow> 'w list \<Rightarrow> nat \<Rightarrow> 'w list" where
  "msg_sched g M 0 = M"
| "msg_sched g M (Suc n) =
     (let S = msg_sched g M n in
      S @ [g (S ! n) (S ! (n + 1)) (S ! (n + 2)) (S ! (n + 8)) (S ! (n + 9)) (S ! (n + 13)) (S ! (n + 14))])"

text \<open>The context structures \<^verbatim>\<open>SHA1_CTX\<close>, \<^verbatim>\<open>SHA256_CTX\<close> and \<^verbatim>\<open>SHA512_CTX\<close> of sha2.h: the
  chaining value, the message length in bits and the block buffer (16 words).\<close>

record ('w, 'c) sha_ctx =
  state :: "'w list"
  bitcount :: 'c
  buffer :: "'w list"

definition md_repr :: "nat \<Rightarrow> ('w::len word list \<Rightarrow> 'w word list \<Rightarrow> 'w word list) \<Rightarrow>
    'w word list \<Rightarrow> (nat \<Rightarrow> 'c) \<Rightarrow> ('w word, 'c) sha_ctx \<Rightarrow> bytes \<Rightarrow> bool" where
  "md_repr wb tr iv cnt ctx m \<longleftrightarrow>
     state ctx = md_fold (16 * wb) (\<lambda>s b. tr s (be_words wb b)) iv (full_part (16 * wb) m) \<and>
     bitcount ctx = cnt (length m) \<and>
     length (buffer ctx) = 16 \<and>
     take (length m mod (16 * wb)) (bytes_of_words wb (buffer ctx)) = tail_part (16 * wb) m"

definition md_digest :: "nat \<Rightarrow> ('w::len word list \<Rightarrow> 'w word list \<Rightarrow> 'w word list) \<Rightarrow>
    'w word list \<Rightarrow> (nat \<Rightarrow> bytes) \<Rightarrow> bytes \<Rightarrow> bytes" where
  "md_digest wb tr iv lenf m =
     concat (map (bytes_be wb) (md_fold (16 * wb) (\<lambda>s b. tr s (be_words wb b)) iv
       (md_pad (16 * wb) (lenf (length m)) m)))"

section \<open>Facts on the reference notions\<close>

lemma md_pad_dvd: "0 < B \<Longrightarrow> B dvd length (md_pad B lf m)"
proof -
  assume B: "0 < B"
  let ?k = "length m + 1 + length lf"
  have "(?k + (B - ?k mod B) mod B) mod B = 0"
    unfolding mod_add_right_eq by (rule complete_block_mod [OF B])
  moreover have "length (md_pad B lf m) = ?k + (B - ?k mod B) mod B" by (simp add: md_pad_def)
  ultimately show ?thesis by (simp only: dvd_eq_mod_eq_0)
qed

lemma sha_ctx_order:
  "c\<lparr>bitcount := x, buffer := y\<rparr> = c\<lparr>buffer := y, bitcount := x\<rparr>"
  "c\<lparr>bitcount := x, state := z\<rparr> = c\<lparr>state := z, bitcount := x\<rparr>"
  by (cases c; simp)+

lemma md_fold_Nil [simp]: "md_fold B f s [] = s"
  by (simp add: md_fold_def)

lemma md_fold_append [block_simps]:
  "B dvd length a \<Longrightarrow> md_fold B f s (a @ b) = md_fold B f (md_fold B f s a) b"
  by (simp add: md_fold_def chunks_append)

lemma md_fold_block [block_simps]:
  "0 < B \<Longrightarrow> length a = B \<Longrightarrow> md_fold B f s a = f s a"
  by (simp add: md_fold_def chunks_block)

lemma be_words_append [block_simps]:
  "n dvd length a \<Longrightarrow> be_words n (a @ b) = be_words n a @ be_words n b"
  by (simp add: be_words_def chunks_append)

lemma length_be_words [block_simps]:
  "0 < n \<Longrightarrow> n dvd length bs \<Longrightarrow> length (be_words n bs) = length bs div n"
  by (simp add: be_words_def length_chunks)

lemma be_words_bytes_be [byte_view]:
  "8 * n = LENGTH('a) \<Longrightarrow> be_words n (bytes_be n w) = [w :: 'a::len word]"
  by (cases n) (simp_all add: be_words_def chunks_block word_be_bytes_be)

lemma be_words_concat [byte_view]:
  assumes "8 * n = LENGTH('a)"
  shows "be_words n (concat (map (bytes_be n) ws)) = (ws :: 'a::len word list)"
proof -
  have "0 < n" using assms by (cases n) auto
  then show ?thesis using assms
    by (simp add: be_words_def chunks_concat_map comp_def word_be_bytes_be)
qed

lemma length_concat_bytes_be [simp]: "length (concat (map (bytes_be n) ws)) = n * length ws"
  by (induction ws) auto

text \<open>Swapping the byte order of each little-endian word gives the big-endian words.\<close>

lemma map_swap_words [byte_view]:
  fixes rv :: "'a::len word \<Rightarrow> 'a word"
  assumes "8 * n = LENGTH('a)" and "n dvd length bs"
    and rv: "\<And>w. rv w = word_be (bytes_le n w)"
  shows "map rv (words_of_bytes n bs) = be_words n bs"
proof -
  have n: "0 < n" using assms by (cases n) auto
  have "rv (word_le b) = word_be b" if "b \<in> set (chunks n bs)" for b
    using chunks_all_length [OF n assms(2) that] assms(1)
      bytes_le_word_le [of b n, where 'a = 'a] by (simp add: rv)
  then have "map (\<lambda>b. rv (word_le b)) (chunks n bs) = map word_be (chunks n bs)"
    by simp
  then show ?thesis by (simp add: words_of_bytes_def be_words_def comp_def)
qed

lemma bytes_of_swapped_words [byte_view]:
  fixes rv :: "'a::len word \<Rightarrow> 'a word"
  assumes "8 * n = LENGTH('a)" and rv: "\<And>w. rv w = word_be (bytes_le n w)"
  shows "bytes_of_words n (map rv ws) = concat (map (bytes_be n) ws)"
proof -
  have "bytes_le n (rv w) = bytes_be n w" for w :: "'a word"
    using assms by (simp add: word_be_def bytes_be_def bytes_le_word_le)
  then show ?thesis by (simp add: bytes_of_words_def comp_def)
qed

lemma length_msg_sched [simp]: "length (msg_sched g M n) = length M + n"
  by (induction n) (auto simp: Let_def)

lemma msg_sched_stable:
  "m \<le> n \<Longrightarrow> t < length M + m \<Longrightarrow> msg_sched g M n ! t = msg_sched g M m ! t"
proof (induction n)
  case (Suc n)
  then show ?case by (cases "m = Suc n") (auto simp: Let_def nth_append)
qed simp

text \<open>The 16-word ring the C code keeps: after \<open>j\<close> words it holds the last 16 of them.\<close>

definition ring_ok :: "('w \<Rightarrow> 'w \<Rightarrow> 'w \<Rightarrow> 'w \<Rightarrow> 'w \<Rightarrow> 'w \<Rightarrow> 'w \<Rightarrow> 'w) \<Rightarrow> 'w list \<Rightarrow> nat \<Rightarrow> nat \<Rightarrow> 'w list \<Rightarrow> bool" where
  "ring_ok g M N j W \<longleftrightarrow> length W = 16 \<and>
     (\<forall>t. t < j \<and> j \<le> t + 16 \<longrightarrow> W ! (t mod 16) = msg_sched g M N ! t)"

lemma msg_sched_rec:
  assumes "length M = 16" and "16 \<le> j" and "j < 16 + N"
  shows "msg_sched g M N ! j =
    (let S = msg_sched g M N in
     g (S ! (j - 16)) (S ! (j - 15)) (S ! (j - 14)) (S ! (j - 8)) (S ! (j - 7)) (S ! (j - 3)) (S ! (j - 2)))"
proof -
  define n where "n = j - 16"
  have j: "j = n + 16" and n: "Suc n \<le> N" using assms by (auto simp: n_def)
  have st: "msg_sched g M N ! t = msg_sched g M n ! t" if "t < 16 + n" for t
    using that n assms(1) by (intro msg_sched_stable) auto
  have "msg_sched g M N ! j = msg_sched g M (Suc n) ! j"
    using assms(1) n by (intro msg_sched_stable) (auto simp: j)
  also have "\<dots> = (let S = msg_sched g M n in
     g (S ! n) (S ! (n + 1)) (S ! (n + 2)) (S ! (n + 8)) (S ! (n + 9)) (S ! (n + 13)) (S ! (n + 14)))"
    using assms(1) by (simp add: j Let_def nth_append)
  finally show ?thesis by (simp add: Let_def j st add.commute)
qed

lemma ring_start:
  assumes "length M = 16"
  shows "ring_ok g M N 16 M"
  using assms msg_sched_stable [of 0 N _ M g] by (auto simp: ring_ok_def)

lemma ring_nth:
  "ring_ok g M N j W \<Longrightarrow> t < j \<Longrightarrow> j \<le> t + 16 \<Longrightarrow> k mod 16 = t mod 16 \<Longrightarrow>
   W ! (k mod 16) = msg_sched g M N ! t"
  by (auto simp: ring_ok_def)

lemma mod_window_inj:
  "(t::nat) mod k = j mod k \<Longrightarrow> t \<le> j \<Longrightarrow> j < t + k \<Longrightarrow> t = j"
  by (metis add_diff_inverse_nat add_left_cancel mod_eq_dvd_iff_nat nat_dvd_not_less
      nat_add_left_cancel_less neq0_conv not_less zero_less_diff)

lemma ring_step:
  assumes ok: "ring_ok g M N j W" and M: "length M = 16" and j: "16 \<le> j" "j < 16 + N"
    and v: "v = g (W ! (j mod 16)) (W ! ((j + 1) mod 16)) (W ! ((j + 2) mod 16)) (W ! ((j + 8) mod 16))
              (W ! ((j + 9) mod 16)) (W ! ((j + 13) mod 16)) (W ! ((j + 14) mod 16))"
  shows "v = msg_sched g M N ! j" and "ring_ok g M N (Suc j) (W[j mod 16 := v])"
proof -
  have r: "W ! ((j + d) mod 16) = msg_sched g M N ! (j + d - 16)" if "d < 16" for d
    by (rule ring_nth [OF ok]) (use that j in \<open>auto simp: le_mod_geq\<close>)
  show v': "v = msg_sched g M N ! j"
    unfolding v using msg_sched_rec [OF M j] r [of 0] r [of 1] r [of 2] r [of 8] r [of 9] r [of 13] r [of 14] j
    by (simp add: Let_def)
  show "ring_ok g M N (Suc j) (W[j mod 16 := v])"
    unfolding ring_ok_def
  proof (intro conjI allI impI)
    show "length (W[j mod 16 := v]) = 16" using ok by (simp add: ring_ok_def)
  next
    fix t assume t: "t < Suc j \<and> Suc j \<le> t + 16"
    show "W[j mod 16 := v] ! (t mod 16) = msg_sched g M N ! t"
    proof (cases "t = j")
      case True
      then show ?thesis using ok v' by (simp add: ring_ok_def)
    next
      case False
      then have "t mod 16 \<noteq> j mod 16" using t mod_window_inj [of t 16 j] by auto
      then show ?thesis using ok t False by (auto simp: ring_ok_def)
    qed
  qed
qed

text \<open>
  The two loops of a \<open>Transform\<close>: the first sixteen rounds copy the block words into the
  ring, the others replace the oldest word by the next schedule word. \<open>rnd\<close> is the round
  on the registers, \<open>g\<close> the schedule recurrence.
\<close>

locale ring_rounds =
  fixes rnd :: "nat \<Rightarrow> 'w \<Rightarrow> 'r \<Rightarrow> 'r"
    and g :: "'w \<Rightarrow> 'w \<Rightarrow> 'w \<Rightarrow> 'w \<Rightarrow> 'w \<Rightarrow> 'w \<Rightarrow> 'w \<Rightarrow> 'w"
    and copy :: "'w list \<Rightarrow> nat \<Rightarrow> 'r \<times> 'w list \<Rightarrow> 'r \<times> 'w list"
    and expand :: "nat \<Rightarrow> 'r \<times> 'w list \<Rightarrow> 'r \<times> 'w list"
  assumes copy_eq: "length W = 16 \<Longrightarrow> j < 16 \<Longrightarrow> copy M j (r, W) = (rnd j (M ! j) r, W[j := M ! j])"
    and expand_eq: "length W = 16 \<Longrightarrow> expand j (r, W) =
      (let w = g (W ! (j mod 16)) (W ! ((j + 1) mod 16)) (W ! ((j + 2) mod 16)) (W ! ((j + 8) mod 16))
                 (W ! ((j + 9) mod 16)) (W ! ((j + 13) mod 16)) (W ! ((j + 14) mod 16))
       in (rnd j w r, W[j mod 16 := w]))"
begin

lemma copy_loop:
  assumes "length M = 16" and "length W = 16"
  shows "k \<le> 16 \<Longrightarrow> fold (copy M) [0..<k] (r, W) =
           (fold (\<lambda>j. rnd j (M ! j)) [0..<k] r, take k M @ drop k W)"
proof (induction k)
  case (Suc k)
  then have "drop k W = W ! k # drop (Suc k) W" using assms by (simp add: Cons_nth_drop_Suc)
  with Suc show ?case using assms
    by (simp add: copy_eq list_update_append take_Suc_conv_app_nth)
qed simp

lemma expand_loop:
  assumes M: "length M = 16" and "16 \<le> j" and "j \<le> 16 + N" and "ring_ok g M N 16 W"
  shows "\<exists>W'. ring_ok g M N j W' \<and>
           fold expand [16..<j] (r, W) = (fold (\<lambda>j. rnd j (msg_sched g M N ! j)) [16..<j] r, W')"
  using assms(2,3)
proof (induction j rule: dec_induct)
  case base
  then show ?case using assms by auto
next
  case (step j)
  then obtain W' where ok: "ring_ok g M N j W'"
    and eq: "fold expand [16..<j] (r, W) = (fold (\<lambda>j. rnd j (msg_sched g M N ! j)) [16..<j] r, W')"
    by auto
  have "length W' = 16" using ok by (simp add: ring_ok_def)
  then show ?case
    using ring_step [OF ok M step.hyps(1) _ refl] step eq by (auto simp: expand_eq Let_def)
qed

lemma rounds:
  assumes M: "length M = 16" and W: "length W = 16" and N: "16 \<le> N"
  shows "fst (fold expand [16..<N] (fold (copy M) [0..<16] (r, W))) =
         fold (\<lambda>j. rnd j (msg_sched g M (N - 16) ! j)) [0..<N] r"
proof -
  let ?S = "msg_sched g M (N - 16)"
  have first: "fold (\<lambda>j. rnd j (M ! j)) [0..<16] r = fold (\<lambda>j. rnd j (?S ! j)) [0..<16] r"
    by (rule fold_cong) (use M msg_sched_stable [of 0 "N - 16" _ M g] in auto)
  obtain W' where "fold expand [16..<N] (fold (\<lambda>j. rnd j (M ! j)) [0..<16] r, M) =
      (fold (\<lambda>j. rnd j (?S ! j)) [16..<N] (fold (\<lambda>j. rnd j (M ! j)) [0..<16] r), W')"
    using expand_loop [OF M N _ ring_start [OF M], of "N - 16" "fold (\<lambda>j. rnd j (M ! j)) [0..<16] r"] N
    by auto
  moreover have "[0..<N] = [0..<16] @ [16..<N]" using upt_add_eq_append [of 0 16 "N - 16"] N by simp
  ultimately show ?thesis
    using copy_loop [OF M W, of 16] M W by (simp add: first)
qed

end

section \<open>The contract of a streaming hash\<close>

locale streaming_hash =
  fixes repr :: "'ctx \<Rightarrow> bytes \<Rightarrow> bool"
    and init :: 'ctx
    and update :: "'ctx \<Rightarrow> bytes \<Rightarrow> 'ctx"
    and digest :: "'ctx \<Rightarrow> bytes"
    and H :: "bytes \<Rightarrow> bytes"
  assumes repr_init: "repr init []"
    and repr_update: "repr c m \<Longrightarrow> repr (update c d) (m @ d)"
    and digest_repr: "repr c m \<Longrightarrow> digest c = H m"
begin

lemma repr_updates: "repr c m \<Longrightarrow> repr (foldl update c ds) (m @ concat ds)"
proof (induction ds arbitrary: c m)
  case (Cons d ds)
  then show ?case using Cons.IH [OF repr_update [OF Cons.prems]] by simp
qed simp

text \<open>However the message is cut into calls of \<open>update\<close>, the digest is that of the whole.\<close>

lemma digest_updates: "digest (foldl update init ds) = H (concat ds)"
  using repr_updates [OF repr_init, of ds] by (simp add: digest_repr)

lemma digest_once: "digest (update init m) = H m"
  using digest_updates [of "[m]"] by simp

lemma digest_twice: "digest (update (update init a) b) = H (a @ b)"
  using digest_updates [of "[a, b]"] by simp

end

section \<open>The buffered implementation\<close>

locale md_context =
  fixes wb :: nat
    and rv :: "'w::len word \<Rightarrow> 'w word"
    and tr :: "'w word list \<Rightarrow> 'w word list \<Rightarrow> 'w word list"
    and iv :: "'w word list"
    and cnt :: "nat \<Rightarrow> 'c"
    and used :: "'c \<Rightarrow> nat"
    and addb :: "'c \<Rightarrow> nat \<Rightarrow> 'c"
    and lenf :: "nat \<Rightarrow> bytes"
    and hi :: "'c \<Rightarrow> 'w word"
    and lo :: "'c \<Rightarrow> 'w word"
    and blocks :: "('w word, 'c) sha_ctx \<Rightarrow> bytes \<Rightarrow> ('w word, 'c) sha_ctx"
    and update :: "('w word, 'c) sha_ctx \<Rightarrow> bytes \<Rightarrow> ('w word, 'c) sha_ctx"
    and lastst :: "('w word, 'c) sha_ctx \<Rightarrow> 'w word list"
    and final :: "('w word, 'c) sha_ctx \<Rightarrow> bytes"
  assumes width: "8 * wb = LENGTH('w)"
    and rv: "rv w = word_be (bytes_le wb w)"
    and used_cnt: "used (cnt n) = n mod (16 * wb)"
    and addb_cnt: "k \<le> 16 * wb \<Longrightarrow> addb (cnt n) k = cnt (n + k)"
    and length_field: "bytes_be wb (hi (cnt n)) @ bytes_be wb (lo (cnt n)) = lenf n"
    and blocks_eq: "blocks c d =
      (if 16 * wb \<le> length d then
         let buf = map rv (words_of_bytes wb (memcpy_at (bytes_of_words wb (buffer c)) 0 (take (16 * wb) d)))
         in blocks (c\<lparr>buffer := buf, state := tr (state c) buf, bitcount := addb (bitcount c) (16 * wb)\<rparr>)
              (drop (16 * wb) d)
       else if 0 < length d then
         c\<lparr>buffer := words_of_bytes wb (memcpy_at (bytes_of_words wb (buffer c)) 0 d),
           bitcount := addb (bitcount c) (length d)\<rparr>
       else c)"
    and update_eq: "update c d =
      (if length d = 0 then c
       else let u = used (bitcount c); free = 16 * wb - u in
         if 0 < u then
           if free \<le> length d then
             let buf = map rv (words_of_bytes wb (memcpy_at (bytes_of_words wb (buffer c)) u (take free d)))
             in blocks (c\<lparr>buffer := buf, state := tr (state c) buf, bitcount := addb (bitcount c) free\<rparr>)
                  (drop free d)
           else c\<lparr>buffer := words_of_bytes wb (memcpy_at (bytes_of_words wb (buffer c)) u d),
                  bitcount := addb (bitcount c) (length d)\<rparr>
         else blocks c d)"
    and lastst_eq: "lastst c =
      (let u = used (bitcount c);
           buf = memcpy_at (bytes_of_words wb (buffer c)) u [0x80];
           u = u + 1;
           (st, buf, u) =
             (if 14 * wb < u then
                let w = map rv (words_of_bytes wb (memcpy_at buf u (replicate (16 * wb - u) 0)))
                in (tr (state c) w, bytes_of_words wb w, 0)
              else (state c, buf, u));
           w = words_of_bytes wb (memcpy_at buf u (replicate (14 * wb - u) 0));
           w = map rv (take 14 w) @ drop 14 w;
           w = w[14 := hi (bitcount c), 15 := lo (bitcount c)]
       in tr st w)"
    and final_eq: "final c = bytes_of_words wb (map rv (lastst c))"
begin

lemma wb_pos [simp]: "0 < wb"
  using width by (cases wb) auto

lemma absorb_buffer:
  "length bs = 16 * wb \<Longrightarrow> map rv (words_of_bytes wb bs) = be_words wb bs"
  by (rule map_swap_words) (auto simp: width rv)

lemma repr_bytes_length:
  "md_repr wb tr iv cnt c m \<Longrightarrow> length (bytes_of_words wb (buffer c)) = 16 * wb"
  by (simp add: md_repr_def)

text \<open>The represented message ends at a block boundary when nothing is buffered.\<close>

lemma repr_aligned:
  assumes "length m mod (16 * wb) = 0"
  shows "full_part (16 * wb) m = m" and "tail_part (16 * wb) m = []"
proof -
  have "length (tail_part (16 * wb) m) = 0" using assms by (simp add: length_tail_part)
  then show t: "tail_part (16 * wb) m = []" by simp
  show "full_part (16 * wb) m = m" using full_tail [of "16 * wb" m] unfolding t by simp
qed

text \<open>Completing a block: the buffered tail and the first bytes of the data.\<close>

lemma repr_complete:
  assumes r: "md_repr wb tr iv cnt c m" and u: "u = length m mod (16 * wb)"
    and d: "length d = 16 * wb - u"
    and buf: "buf = map rv (words_of_bytes wb (memcpy_at (bytes_of_words wb (buffer c)) u d))"
  shows "md_repr wb tr iv cnt (c\<lparr>buffer := buf, state := tr (state c) buf,
           bitcount := addb (bitcount c) (length d)\<rparr>) (m @ d)"
proof -
  let ?B = "16 * wb" and ?f = "\<lambda>s b. tr s (be_words wb b)"
  have uB: "u < ?B" by (simp add: u)
  have blk: "memcpy_at (bytes_of_words wb (buffer c)) u d = tail_part ?B m @ d"
    using r u d uB by (simp add: md_repr_def memcpy_at_full)
  have len: "length (tail_part ?B m @ d) = ?B"
    using u d uB by (simp add: length_tail_part)
  have buf': "buf = be_words wb (tail_part ?B m @ d)"
    unfolding buf blk using len by (rule absorb_buffer)
  have parts: "full_part ?B (m @ d) = full_part ?B m @ (tail_part ?B m @ d)" "tail_part ?B (m @ d) = []"
    and lm: "length (m @ d) mod ?B = 0"
    using parts_complete [of d ?B m] d u by simp_all
  note lm
  moreover have "length buf = 16" using len by (simp add: buf' length_be_words)
  moreover have "tr (state c) buf = md_fold ?B ?f iv (full_part ?B (m @ d))"
    using r len by (simp add: parts md_repr_def md_fold_append full_part_dvd md_fold_block buf')
  moreover have "addb (bitcount c) (length d) = cnt (length (m @ d))"
    using r d by (simp add: md_repr_def addb_cnt)
  ultimately show ?thesis using parts by (simp add: md_repr_def)
qed

text \<open>Buffering bytes that do not complete a block.\<close>

lemma repr_buffer:
  assumes r: "md_repr wb tr iv cnt c m" and u: "u = length m mod (16 * wb)"
    and d: "length d < 16 * wb - u"
  shows "md_repr wb tr iv cnt (c\<lparr>buffer := words_of_bytes wb (memcpy_at (bytes_of_words wb (buffer c)) u d),
           bitcount := addb (bitcount c) (length d)\<rparr>) (m @ d)"
proof -
  let ?B = "16 * wb" and ?bs = "memcpy_at (bytes_of_words wb (buffer c)) u d"
  have len: "length ?bs = ?B" using r u d by (simp add: md_repr_def)
  have parts: "full_part ?B (m @ d) = full_part ?B m" "tail_part ?B (m @ d) = tail_part ?B m @ d"
    and lm: "length (m @ d) mod ?B = u + length d"
    using parts_buffer [of d ?B m] d u by simp_all
  note lm
  moreover have "take (u + length d) ?bs = tail_part ?B m @ d"
    using r u d by (simp add: md_repr_def take_memcpy_at)
  moreover have "bytes_of_words wb (words_of_bytes wb ?bs :: 'w word list) = ?bs"
    using len width by (simp add: bytes_of_words_of_bytes)
  moreover have "addb (bitcount c) (length d) = cnt (length (m @ d))"
    using r d by (simp add: md_repr_def addb_cnt)
  moreover have "length (words_of_bytes wb ?bs :: 'w word list) = 16"
    using len by (simp add: length_words_of_bytes)
  ultimately show ?thesis using r parts by (simp add: md_repr_def)
qed

lemma repr_blocks:
  "md_repr wb tr iv cnt c m \<Longrightarrow> length m mod (16 * wb) = 0 \<Longrightarrow> md_repr wb tr iv cnt (blocks c d) (m @ d)"
proof (induction "length d" arbitrary: c m d rule: less_induct)
  case less
  let ?B = "16 * wb"
  show ?case
  proof (cases "?B \<le> length d")
    case True
    let ?buf = "map rv (words_of_bytes wb (memcpy_at (bytes_of_words wb (buffer c)) 0 (take ?B d)))"
    let ?c = "c\<lparr>buffer := ?buf, state := tr (state c) ?buf, bitcount := addb (bitcount c) ?B\<rparr>"
    have l: "length (take ?B d) = ?B" using True by simp
    have "md_repr wb tr iv cnt ?c (m @ take ?B d)"
      using repr_complete [OF less.prems(1), of 0 "take ?B d", OF _ _ refl] less.prems(2)
      unfolding l by simp
    moreover have "length (m @ take ?B d) mod ?B = 0"
      unfolding length_append l using less.prems(2) by simp
    moreover have "length (drop ?B d) < length d" using True wb_pos by (simp del: wb_pos)
    ultimately have "md_repr wb tr iv cnt (blocks ?c (drop ?B d)) ((m @ take ?B d) @ drop ?B d)"
      by (intro less.hyps)
    then show ?thesis using True by (subst blocks_eq) (simp add: Let_def)
  next
    case False
    then show ?thesis using repr_buffer [OF less.prems(1), of 0 d] less.prems
      by (subst blocks_eq) auto
  qed
qed

lemma repr_update: "md_repr wb tr iv cnt c m \<Longrightarrow> md_repr wb tr iv cnt (update c d) (m @ d)"
proof -
  assume r: "md_repr wb tr iv cnt c m"
  let ?B = "16 * wb" and ?u = "length m mod (16 * wb)"
  have u: "used (bitcount c) = ?u" using r by (simp add: md_repr_def used_cnt)
  consider "d = []" | "d \<noteq> []" "?u = 0" | "d \<noteq> []" "0 < ?u" "?B - ?u \<le> length d"
    | "d \<noteq> []" "0 < ?u" "length d < ?B - ?u" by linarith
  then show ?thesis
  proof cases
    case 1
    then show ?thesis using r by (subst update_eq) simp
  next
    case 2
    then show ?thesis using repr_blocks [OF r] u by (subst update_eq) simp
  next
    case 3
    let ?buf = "map rv (words_of_bytes wb (memcpy_at (bytes_of_words wb (buffer c)) ?u (take (?B - ?u) d)))"
    let ?c = "c\<lparr>buffer := ?buf, state := tr (state c) ?buf, bitcount := addb (bitcount c) (?B - ?u)\<rparr>"
    have l: "length (take (?B - ?u) d) = ?B - ?u" using 3 by simp
    have "md_repr wb tr iv cnt ?c (m @ take (?B - ?u) d)"
      using repr_complete [OF r refl l refl] unfolding l .
    moreover have "length (m @ take (?B - ?u) d) mod ?B = 0"
      unfolding length_append l by (rule complete_block_mod) simp
    ultimately have "md_repr wb tr iv cnt (blocks ?c (drop (?B - ?u) d)) ((m @ take (?B - ?u) d) @ drop (?B - ?u) d)"
      by (rule repr_blocks)
    then show ?thesis using 3 u by (subst update_eq) (simp add: Let_def)
  next
    case 4
    then show ?thesis using repr_buffer [OF r refl] u by (subst update_eq) (simp add: Let_def)
  qed
qed

text \<open>The bytes of the last block or blocks are those of the padded message.\<close>

lemma last_block:
  assumes bs: "length bs = 16 * wb"
  shows "(map rv (take 14 (words_of_bytes wb bs)) @ drop 14 (words_of_bytes wb bs))[14 := h, 15 := l] =
         be_words wb (take (14 * wb) bs @ bytes_be wb h @ bytes_be wb l)" (is "?L = ?R")
proof -
  let ?a = "take (14 * wb) bs" and ?b = "drop (14 * wb) bs"
  have la: "length ?a = 14 * wb" and lb: "length ?b = 2 * wb" using bs by auto
  have w: "words_of_bytes wb bs = (words_of_bytes wb ?a :: 'w word list) @ words_of_bytes wb ?b"
    using la chunks_append [of wb ?a ?b] by (simp add: words_of_bytes_def)
  have wa: "length (words_of_bytes wb ?a :: 'w word list) = 14"
    and lwb: "length (words_of_bytes wb ?b :: 'w word list) = 2"
    using la lb by (simp_all add: length_words_of_bytes)
  obtain x y where xy: "(words_of_bytes wb ?b :: 'w word list) = [x, y]"
    using lwb by (auto simp: numeral_2_eq_2 length_Suc_conv)
  have "map rv (words_of_bytes wb ?a) = be_words wb ?a"
    using la by (intro map_swap_words) (auto simp: width rv)
  moreover have "length (be_words wb ?a :: 'w word list) = 14" using la by (simp add: length_be_words)
  ultimately have "?L = be_words wb ?a @ [h, l]"
    using wa by (simp add: w xy list_update_append)
  also have "\<dots> = ?R" using la width by (simp add: be_words_append be_words_bytes_be)
  finally show ?thesis .
qed

lemma lastst_repr:
  assumes r: "md_repr wb tr iv cnt c m"
  shows "lastst c = md_fold (16 * wb) (\<lambda>s b. tr s (be_words wb b)) iv
           (md_pad (16 * wb) (lenf (length m)) m)"
proof -
  let ?B = "16 * wb" and ?f = "\<lambda>s b. tr s (be_words wb b)"
  let ?t = "tail_part ?B m" and ?h = "hi (bitcount c)" and ?l = "lo (bitcount c)"
  define u where "u = length m mod ?B"
  define st where "st = md_fold ?B ?f iv (full_part ?B m)"
  have uB: "u < ?B" by (simp add: u_def)
  have u: "used (bitcount c) = u" using r by (simp add: md_repr_def used_cnt u_def)
  have stc: "state c = st" using r by (simp add: md_repr_def st_def)
  have lt: "length ?t = u" by (simp add: length_tail_part u_def)
  have lf: "bytes_be wb ?h @ bytes_be wb ?l = lenf (length m)"
    using r by (simp add: md_repr_def length_field)
  have llf: "length (lenf (length m)) = 2 * wb" using lf [symmetric] by simp
  define rest where "rest = drop (u + 1) (bytes_of_words wb (buffer c))"
  have lr: "length rest = ?B - (u + 1)" using r by (simp add: rest_def md_repr_def)
  have buf: "memcpy_at (bytes_of_words wb (buffer c)) u [0x80] = ?t @ [0x80] @ rest"
    using r by (simp add: md_repr_def memcpy_at_def u_def rest_def)
  have msg: "md_pad ?B (lenf (length m)) m = full_part ?B m @ ?t @ [0x80] @
      replicate ((?B - (u + 1 + 2 * wb) mod ?B) mod ?B) 0 @ lenf (length m)"
  proof -
    have "(length m + (1 + 2 * wb)) mod ?B = (u + (1 + 2 * wb)) mod ?B"
      unfolding u_def by (rule mod_add_left_eq [symmetric])
    then have "(length m + 1 + 2 * wb) mod ?B = (u + 1 + 2 * wb) mod ?B" by (simp add: add.assoc)
    moreover have "m @ xs = full_part ?B m @ ?t @ xs" for xs
      by (metis append_assoc full_tail)
    ultimately show ?thesis unfolding md_pad_def llf by metis
  qed
  show ?thesis
  proof (cases "14 * wb < u + 1")
    case False
    have z: "(?B - (u + 1 + 2 * wb) mod ?B) mod ?B = 14 * wb - (u + 1)"
    proof (cases "u + 1 + 2 * wb = ?B")
      case True
      then show ?thesis by simp
    next
      case F: False
      with False have "u + 1 + 2 * wb < ?B" by linarith
      then show ?thesis by (simp add: mod_less)
    qed
    let ?blk = "?t @ [0x80] @ replicate (14 * wb - (u + 1)) 0"
    have lblk: "length ?blk = 14 * wb" using lt False by simp
    let ?b = "?blk @ drop (14 * wb - (u + 1)) rest"
    have m1: "memcpy_at (?t @ [0x80] @ rest) (u + 1) (replicate (14 * wb - (u + 1)) 0) = ?b"
      using lt False by (simp add: memcpy_at_def drop_Cons')
    have lb: "length ?b = ?B" using lblk lr False by simp
    have tb: "take (14 * wb) ?b = ?blk" using lblk by (rule take_prefix)
    have "lastst c = tr st (be_words wb (?blk @ bytes_be wb ?h @ bytes_be wb ?l))"
      unfolding lastst_eq [of c] Let_def u buf stc using False
      by (simp only: m1 last_block [OF lb] tb if_False prod.case)
    also have "\<dots> = md_fold ?B ?f st (?blk @ lenf (length m))"
      using lblk llf lf by (simp add: md_fold_block)
    also have "\<dots> = md_fold ?B ?f iv (md_pad ?B (lenf (length m)) m)"
      unfolding msg z st_def by (simp add: md_fold_append full_part_dvd)
    finally show ?thesis .
  next
    case True
    have z: "(?B - (u + 1 + 2 * wb) mod ?B) mod ?B = (?B - (u + 1)) + 14 * wb"
    proof -
      have "(u + 1 + 2 * wb) mod ?B = u + 1 + 2 * wb - ?B"
        using True uB by (simp add: le_mod_geq)
      then show ?thesis using True uB by simp
    qed
    let ?b1 = "?t @ [0x80] @ replicate (?B - (u + 1)) 0"
    have l1: "length ?b1 = ?B" using lt uB by simp
    have m1: "memcpy_at (?t @ [0x80] @ rest) (u + 1) (replicate (?B - (u + 1)) 0) = ?b1"
      using lt lr by (simp add: memcpy_at_def)
    let ?w1 = "be_words wb ?b1 :: 'w word list"
    have lw1: "length (bytes_of_words wb ?w1) = ?B"
      unfolding length_bytes_of_words using length_be_words [of wb ?b1, where 'a = 'w] l1 by simp
    let ?b2 = "replicate (14 * wb) 0 @ drop (14 * wb) (bytes_of_words wb ?w1)"
    have m2: "memcpy_at (bytes_of_words wb ?w1) 0 (replicate (14 * wb) 0) = ?b2" by simp
    have l2: "length ?b2 = ?B" unfolding length_append length_drop lw1 by simp
    have tb2: "take (14 * wb) ?b2 = replicate (14 * wb) 0" by simp
    have "lastst c = tr (tr st ?w1) (be_words wb (replicate (14 * wb) 0 @ bytes_be wb ?h @ bytes_be wb ?l))"
      unfolding lastst_eq [of c] Let_def u buf stc m1 absorb_buffer [OF l1] using True
      by (simp only: if_True prod.case m2 last_block [OF l2] tb2 diff_zero)
    also have "\<dots> = md_fold ?B ?f st (?b1 @ replicate (14 * wb) 0 @ lenf (length m))"
      using l1 llf lf by (simp add: md_fold_block md_fold_append del: append_assoc)
    also have "\<dots> = md_fold ?B ?f iv (md_pad ?B (lenf (length m)) m)"
      unfolding msg z st_def by (simp add: md_fold_append full_part_dvd replicate_add)
    finally show ?thesis .
  qed
qed

lemma final_repr:
  "md_repr wb tr iv cnt c m \<Longrightarrow> final c = md_digest wb tr iv lenf m"
  by (simp add: final_eq lastst_repr md_digest_def bytes_of_swapped_words [OF width rv])

end

end
