(* ===== verification/Sha2.thy ===== *)
theory Sha2
  imports Hash_Stream
begin

unbundle bit_operations_syntax

text \<open>
  \<^verbatim>\<open>uhashlib/crypto/sha2.c\<close>: SHA-1, SHA-256 and SHA-512 as compiled for the K210 (RV64,
  little endian, \<^verbatim>\<open>SHA2_UNROLL_TRANSFORM\<close> not defined). The context is \<open>sha_ctx\<close>; the C
  arrays are lists, the cast of the word buffer to bytes is the little-endian byte view of
  the prelude and \<open>REVERSE32\<close> / \<open>REVERSE64\<close> are the in-place byte swaps. A function that
  writes through its context pointer returns the new context. The \<open>do\<close> loops with
  constant bounds are folds over their counter.

  Shown here: the 16-word ring of each \<open>Transform\<close> computes the compression function of
  FIPS 180-4 with its full message schedule; \<open>Update\<close> and \<open>Final\<close> satisfy the contracts
  of \<open>Hash_Stream\<close> (interpretations \<open>s1\<close>, \<open>s256\<close>, \<open>s512\<close>), so that the digest depends
  on the concatenated input only and is the FIPS digest.
\<close>

section \<open>Byte swaps and logical functions\<close>

definition REVERSE32 :: "u32 \<Rightarrow> u32" where
  "REVERSE32 w =
     (let tmp = drop_bit 16 w OR push_bit 16 w
      in drop_bit 8 (tmp AND 0xff00ff00) OR push_bit 8 (tmp AND 0x00ff00ff))"

definition REVERSE64 :: "u64 \<Rightarrow> u64" where
  "REVERSE64 w =
     (let tmp = drop_bit 32 w OR push_bit 32 w;
          tmp = drop_bit 8 (tmp AND 0xff00ff00ff00ff00) OR push_bit 8 (tmp AND 0x00ff00ff00ff00ff)
      in drop_bit 16 (tmp AND 0xffff0000ffff0000) OR push_bit 16 (tmp AND 0x0000ffff0000ffff))"

definition SHR :: "nat \<Rightarrow> 'a::len word \<Rightarrow> 'a word" where
  "SHR b x = drop_bit b x"

definition ROTR32 :: "nat \<Rightarrow> u32 \<Rightarrow> u32" where
  "ROTR32 b x = drop_bit b x OR push_bit (32 - b) x"

definition ROTR64 :: "nat \<Rightarrow> u64 \<Rightarrow> u64" where
  "ROTR64 b x = drop_bit b x OR push_bit (64 - b) x"

definition ROTL32 :: "nat \<Rightarrow> u32 \<Rightarrow> u32" where
  "ROTL32 b x = push_bit b x OR drop_bit (32 - b) x"

definition Ch :: "'a::len word \<Rightarrow> 'a word \<Rightarrow> 'a word \<Rightarrow> 'a word" where
  "Ch x y z = (x AND y) XOR (NOT x AND z)"

definition Maj :: "'a::len word \<Rightarrow> 'a word \<Rightarrow> 'a word \<Rightarrow> 'a word" where
  "Maj x y z = (x AND y) XOR (x AND z) XOR (y AND z)"

definition Parity :: "'a::len word \<Rightarrow> 'a word \<Rightarrow> 'a word \<Rightarrow> 'a word" where
  "Parity x y z = x XOR y XOR z"

definition Sigma0_256 :: "u32 \<Rightarrow> u32" where
  "Sigma0_256 x = ROTR32 2 x XOR ROTR32 13 x XOR ROTR32 22 x"

definition Sigma1_256 :: "u32 \<Rightarrow> u32" where
  "Sigma1_256 x = ROTR32 6 x XOR ROTR32 11 x XOR ROTR32 25 x"

definition sigma0_256 :: "u32 \<Rightarrow> u32" where
  "sigma0_256 x = ROTR32 7 x XOR ROTR32 18 x XOR SHR 3 x"

definition sigma1_256 :: "u32 \<Rightarrow> u32" where
  "sigma1_256 x = ROTR32 17 x XOR ROTR32 19 x XOR SHR 10 x"

definition Sigma0_512 :: "u64 \<Rightarrow> u64" where
  "Sigma0_512 x = ROTR64 28 x XOR ROTR64 34 x XOR ROTR64 39 x"

definition Sigma1_512 :: "u64 \<Rightarrow> u64" where
  "Sigma1_512 x = ROTR64 14 x XOR ROTR64 18 x XOR ROTR64 41 x"

definition sigma0_512 :: "u64 \<Rightarrow> u64" where
  "sigma0_512 x = ROTR64 1 x XOR ROTR64 8 x XOR SHR 7 x"

definition sigma1_512 :: "u64 \<Rightarrow> u64" where
  "sigma1_512 x = ROTR64 19 x XOR ROTR64 61 x XOR SHR 6 x"

section \<open>Constants\<close>

abbreviation (input) SHA1_BLOCK_LENGTH :: nat where "SHA1_BLOCK_LENGTH \<equiv> 64"
abbreviation (input) SHA256_BLOCK_LENGTH :: nat where "SHA256_BLOCK_LENGTH \<equiv> 64"
abbreviation (input) SHA512_BLOCK_LENGTH :: nat where "SHA512_BLOCK_LENGTH \<equiv> 128"
abbreviation (input) SHA1_SHORT_BLOCK_LENGTH :: nat where "SHA1_SHORT_BLOCK_LENGTH \<equiv> 56"
abbreviation (input) SHA256_SHORT_BLOCK_LENGTH :: nat where "SHA256_SHORT_BLOCK_LENGTH \<equiv> 56"
abbreviation (input) SHA512_SHORT_BLOCK_LENGTH :: nat where "SHA512_SHORT_BLOCK_LENGTH \<equiv> 112"

definition sha1_initial_hash_value :: "u32 list" where
  "sha1_initial_hash_value =
    [0x67452301, 0xefcdab89, 0x98badcfe, 0x10325476, 0xc3d2e1f0]"

definition K256 :: "u32 list" where
  "K256 = concat [
     [0x428a2f98, 0x71374491, 0xb5c0fbcf, 0xe9b5dba5],
     [0x3956c25b, 0x59f111f1, 0x923f82a4, 0xab1c5ed5],
     [0xd807aa98, 0x12835b01, 0x243185be, 0x550c7dc3],
     [0x72be5d74, 0x80deb1fe, 0x9bdc06a7, 0xc19bf174],
     [0xe49b69c1, 0xefbe4786, 0x0fc19dc6, 0x240ca1cc],
     [0x2de92c6f, 0x4a7484aa, 0x5cb0a9dc, 0x76f988da],
     [0x983e5152, 0xa831c66d, 0xb00327c8, 0xbf597fc7],
     [0xc6e00bf3, 0xd5a79147, 0x06ca6351, 0x14292967],
     [0x27b70a85, 0x2e1b2138, 0x4d2c6dfc, 0x53380d13],
     [0x650a7354, 0x766a0abb, 0x81c2c92e, 0x92722c85],
     [0xa2bfe8a1, 0xa81a664b, 0xc24b8b70, 0xc76c51a3],
     [0xd192e819, 0xd6990624, 0xf40e3585, 0x106aa070],
     [0x19a4c116, 0x1e376c08, 0x2748774c, 0x34b0bcb5],
     [0x391c0cb3, 0x4ed8aa4a, 0x5b9cca4f, 0x682e6ff3],
     [0x748f82ee, 0x78a5636f, 0x84c87814, 0x8cc70208],
     [0x90befffa, 0xa4506ceb, 0xbef9a3f7, 0xc67178f2]]"

definition sha256_initial_hash_value :: "u32 list" where
  "sha256_initial_hash_value = concat [
     [0x6a09e667, 0xbb67ae85, 0x3c6ef372, 0xa54ff53a],
     [0x510e527f, 0x9b05688c, 0x1f83d9ab, 0x5be0cd19]]"

definition K512 :: "u64 list" where
  "K512 = concat [
     [0x428a2f98d728ae22, 0x7137449123ef65cd],
     [0xb5c0fbcfec4d3b2f, 0xe9b5dba58189dbbc],
     [0x3956c25bf348b538, 0x59f111f1b605d019],
     [0x923f82a4af194f9b, 0xab1c5ed5da6d8118],
     [0xd807aa98a3030242, 0x12835b0145706fbe],
     [0x243185be4ee4b28c, 0x550c7dc3d5ffb4e2],
     [0x72be5d74f27b896f, 0x80deb1fe3b1696b1],
     [0x9bdc06a725c71235, 0xc19bf174cf692694],
     [0xe49b69c19ef14ad2, 0xefbe4786384f25e3],
     [0x0fc19dc68b8cd5b5, 0x240ca1cc77ac9c65],
     [0x2de92c6f592b0275, 0x4a7484aa6ea6e483],
     [0x5cb0a9dcbd41fbd4, 0x76f988da831153b5],
     [0x983e5152ee66dfab, 0xa831c66d2db43210],
     [0xb00327c898fb213f, 0xbf597fc7beef0ee4],
     [0xc6e00bf33da88fc2, 0xd5a79147930aa725],
     [0x06ca6351e003826f, 0x142929670a0e6e70],
     [0x27b70a8546d22ffc, 0x2e1b21385c26c926],
     [0x4d2c6dfc5ac42aed, 0x53380d139d95b3df],
     [0x650a73548baf63de, 0x766a0abb3c77b2a8],
     [0x81c2c92e47edaee6, 0x92722c851482353b],
     [0xa2bfe8a14cf10364, 0xa81a664bbc423001],
     [0xc24b8b70d0f89791, 0xc76c51a30654be30],
     [0xd192e819d6ef5218, 0xd69906245565a910],
     [0xf40e35855771202a, 0x106aa07032bbd1b8],
     [0x19a4c116b8d2d0c8, 0x1e376c085141ab53],
     [0x2748774cdf8eeb99, 0x34b0bcb5e19b48a8],
     [0x391c0cb3c5c95a63, 0x4ed8aa4ae3418acb],
     [0x5b9cca4f7763e373, 0x682e6ff3d6b2b8a3],
     [0x748f82ee5defb2fc, 0x78a5636f43172f60],
     [0x84c87814a1f0ab72, 0x8cc702081a6439ec],
     [0x90befffa23631e28, 0xa4506cebde82bde9],
     [0xbef9a3f7b2c67915, 0xc67178f2e372532b],
     [0xca273eceea26619c, 0xd186b8c721c0c207],
     [0xeada7dd6cde0eb1e, 0xf57d4f7fee6ed178],
     [0x06f067aa72176fba, 0x0a637dc5a2c898a6],
     [0x113f9804bef90dae, 0x1b710b35131c471b],
     [0x28db77f523047d84, 0x32caab7b40c72493],
     [0x3c9ebe0a15c9bebc, 0x431d67c49c100d4c],
     [0x4cc5d4becb3e42b6, 0x597f299cfc657e2a],
     [0x5fcb6fab3ad6faec, 0x6c44198c4a475817]]"

definition sha512_initial_hash_value :: "u64 list" where
  "sha512_initial_hash_value = concat [
     [0x6a09e667f3bcc908, 0xbb67ae8584caa73b],
     [0x3c6ef372fe94f82b, 0xa54ff53a5f1d36f1],
     [0x510e527fade682d1, 0x9b05688c2b3e6c1f],
     [0x1f83d9abfb41bd6b, 0x5be0cd19137e2179]]"

text \<open>The hexadecimal digits of \<^verbatim>\<open>sha256_End\<close> and its siblings: two per digest byte and the
  terminating zero.\<close>

definition sha2_hex_digits :: string where
  "sha2_hex_digits = ''0123456789abcdef''"

definition hex_string :: "bytes \<Rightarrow> string" where
  "hex_string digest =
     concat (map (\<lambda>d. [sha2_hex_digits ! unat (drop_bit 4 (d AND 0xf0)), sha2_hex_digits ! unat (d AND 0x0f)]) digest)
     @ [CHR 0x00]"

section \<open>SHA-256\<close>

type_synonym 'w regs8 = "'w \<times> 'w \<times> 'w \<times> 'w \<times> 'w \<times> 'w \<times> 'w \<times> 'w"
type_synonym SHA256_CTX = "(u32, u64) sha_ctx"

definition sha256_Init :: SHA256_CTX where
  "sha256_Init = \<lparr>state = sha256_initial_hash_value, bitcount = 0, buffer = replicate 16 0\<rparr>"

text \<open>One pass of the first loop of \<^verbatim>\<open>sha256_Transform\<close> (rounds 0 to 15) and of the second
  (rounds 16 to 63), on the registers \<open>a .. h\<close> and the ring \<open>W256\<close>.\<close>

definition sha256_copy_round :: "u32 list \<Rightarrow> nat \<Rightarrow> u32 regs8 \<times> u32 list \<Rightarrow> u32 regs8 \<times> u32 list" where
  "sha256_copy_round data j = (\<lambda>((a, b, c, d, e, f, g, h), W256).
     let W256 = W256[j := data ! j];
         T1 = h + Sigma1_256 e + Ch e f g + K256 ! j + W256 ! j;
         T2 = Sigma0_256 a + Maj a b c
     in ((T1 + T2, a, b, c, d + T1, e, f, g), W256))"

definition sha256_expand_round :: "nat \<Rightarrow> u32 regs8 \<times> u32 list \<Rightarrow> u32 regs8 \<times> u32 list" where
  "sha256_expand_round j = (\<lambda>((a, b, c, d, e, f, g, h), W256).
     let s0 = sigma0_256 (W256 ! ((j + 1) mod 16));
         s1 = sigma1_256 (W256 ! ((j + 14) mod 16));
         W256 = W256[j mod 16 := W256 ! (j mod 16) + (s1 + W256 ! ((j + 9) mod 16) + s0)];
         T1 = h + Sigma1_256 e + Ch e f g + K256 ! j + W256 ! (j mod 16);
         T2 = Sigma0_256 a + Maj a b c
     in ((T1 + T2, a, b, c, d + T1, e, f, g), W256))"

definition sha256_Transform :: "u32 list \<Rightarrow> u32 list \<Rightarrow> u32 list" where
  "sha256_Transform state_in data =
     (let regs = (state_in ! 0, state_in ! 1, state_in ! 2, state_in ! 3,
                  state_in ! 4, state_in ! 5, state_in ! 6, state_in ! 7);
          rw = fold (sha256_copy_round data) [0..<16] (regs, replicate 16 0);
          rw = fold sha256_expand_round [16..<64] rw;
          (a, b, c, d, e, f, g, h) = fst rw
      in [state_in ! 0 + a, state_in ! 1 + b, state_in ! 2 + c, state_in ! 3 + d,
          state_in ! 4 + e, state_in ! 5 + f, state_in ! 6 + g, state_in ! 7 + h])"

text \<open>The \<open>while (len >= SHA256_BLOCK_LENGTH)\<close> loop of \<^verbatim>\<open>sha256_Update\<close> and the left-overs
  after it.\<close>

function sha256_Update_blocks :: "SHA256_CTX \<Rightarrow> bytes \<Rightarrow> SHA256_CTX" where
  "sha256_Update_blocks context data =
     (if SHA256_BLOCK_LENGTH \<le> length data then
        let buf = words_of_bytes 4 (memcpy_at (bytes_of_words 4 (buffer context)) 0
                    (take SHA256_BLOCK_LENGTH data));
            buf = map REVERSE32 buf;
            context = context\<lparr>buffer := buf\<rparr>;
            context = context\<lparr>state := sha256_Transform (state context) (buffer context)\<rparr>;
            context = context\<lparr>bitcount := bitcount context + push_bit 3 (of_nat SHA256_BLOCK_LENGTH)\<rparr>
        in sha256_Update_blocks context (drop SHA256_BLOCK_LENGTH data)
      else if 0 < length data then
        context\<lparr>buffer := words_of_bytes 4 (memcpy_at (bytes_of_words 4 (buffer context)) 0 data),
                bitcount := bitcount context + push_bit 3 (of_nat (length data))\<rparr>
      else context)"
  by pat_completeness auto
termination
  by (relation "measure (length \<circ> snd)") auto

declare sha256_Update_blocks.simps [simp del]

definition sha256_Update :: "SHA256_CTX \<Rightarrow> bytes \<Rightarrow> SHA256_CTX" where
  "sha256_Update context data =
     (if length data = 0 then context
      else
        let usedspace = unat (drop_bit 3 (bitcount context)) mod SHA256_BLOCK_LENGTH in
        if 0 < usedspace then
          let freespace = SHA256_BLOCK_LENGTH - usedspace in
          if freespace \<le> length data then
            let buf = words_of_bytes 4 (memcpy_at (bytes_of_words 4 (buffer context)) usedspace
                        (take freespace data));
                context = context\<lparr>buffer := buf, bitcount := bitcount context + push_bit 3 (of_nat freespace)\<rparr>;
                context = context\<lparr>buffer := map REVERSE32 (buffer context)\<rparr>;
                context = context\<lparr>state := sha256_Transform (state context) (buffer context)\<rparr>
            in sha256_Update_blocks context (drop freespace data)
          else
            context\<lparr>buffer := words_of_bytes 4 (memcpy_at (bytes_of_words 4 (buffer context)) usedspace data),
                    bitcount := bitcount context + push_bit 3 (of_nat (length data))\<rparr>
        else sha256_Update_blocks context data)"

text \<open>\<^verbatim>\<open>sha256_Final\<close> with a digest buffer: the chaining value before its bytes are swapped
  back, the digest written, and the context, which the last line wipes.\<close>

definition sha256_Final_state :: "SHA256_CTX \<Rightarrow> u32 list" where
  "sha256_Final_state context =
     (let usedspace = unat (drop_bit 3 (bitcount context)) mod SHA256_BLOCK_LENGTH;
          buf = memcpy_at (bytes_of_words 4 (buffer context)) usedspace [0x80];
          usedspace = usedspace + 1;
          (st, buf, usedspace) =
            (if SHA256_SHORT_BLOCK_LENGTH < usedspace then
               let w = map REVERSE32 (words_of_bytes 4
                         (memcpy_at buf usedspace (replicate (SHA256_BLOCK_LENGTH - usedspace) 0)))
               in (sha256_Transform (state context) w, bytes_of_words 4 w, 0)
             else (state context, buf, usedspace));
          w = words_of_bytes 4 (memcpy_at buf usedspace (replicate (SHA256_SHORT_BLOCK_LENGTH - usedspace) 0));
          w = map REVERSE32 (take 14 w) @ drop 14 w;
          w = w[14 := ucast (drop_bit 32 (bitcount context)),
                15 := ucast (bitcount context AND 0xffffffff)]
      in sha256_Transform st w)"

definition sha256_zero :: SHA256_CTX where
  "sha256_zero = \<lparr>state = replicate 8 0, bitcount = 0, buffer = replicate 16 0\<rparr>"

definition sha256_Final :: "SHA256_CTX \<Rightarrow> bytes \<times> SHA256_CTX" where
  "sha256_Final context =
     (bytes_of_words 4 (map REVERSE32 (sha256_Final_state context)), sha256_zero)"

text \<open>\<open>None\<close> is the null result buffer of \<^verbatim>\<open>sha256_End\<close>, for which only the context is wiped.\<close>

definition sha256_End :: "SHA256_CTX \<Rightarrow> string option \<Rightarrow> string option \<times> SHA256_CTX" where
  "sha256_End context out =
     (case out of
        Some _ \<Rightarrow> (let (digest, context) = sha256_Final context in (Some (hex_string digest), context))
      | None \<Rightarrow> (None, sha256_zero))"

definition sha256_Raw :: "bytes \<Rightarrow> bytes" where
  "sha256_Raw data =
     (let context = sha256_Init;
          context = sha256_Update context data
      in fst (sha256_Final context))"

definition sha256_Data :: "bytes \<Rightarrow> string option \<Rightarrow> string option" where
  "sha256_Data data digest =
     (let context = sha256_Init;
          context = sha256_Update context data
      in fst (sha256_End context digest))"

section \<open>SHA-512\<close>

type_synonym SHA512_CTX = "(u64, u64 list) sha_ctx"

definition sha512_Init :: SHA512_CTX where
  "sha512_Init = \<lparr>state = sha512_initial_hash_value, bitcount = [0, 0], buffer = replicate 16 0\<rparr>"

text \<open>The macro \<^verbatim>\<open>ADDINC128\<close>: a 64-bit addition with carry into the high word.\<close>

definition ADDINC128 :: "u64 list \<Rightarrow> u64 \<Rightarrow> u64 list" where
  "ADDINC128 w n =
     (let w = w[0 := w ! 0 + n]
      in if w ! 0 < n then w[1 := w ! 1 + 1] else w)"

definition sha512_copy_round :: "u64 list \<Rightarrow> nat \<Rightarrow> u64 regs8 \<times> u64 list \<Rightarrow> u64 regs8 \<times> u64 list" where
  "sha512_copy_round data j = (\<lambda>((a, b, c, d, e, f, g, h), W512).
     let W512 = W512[j := data ! j];
         T1 = h + Sigma1_512 e + Ch e f g + K512 ! j + W512 ! j;
         T2 = Sigma0_512 a + Maj a b c
     in ((T1 + T2, a, b, c, d + T1, e, f, g), W512))"

definition sha512_expand_round :: "nat \<Rightarrow> u64 regs8 \<times> u64 list \<Rightarrow> u64 regs8 \<times> u64 list" where
  "sha512_expand_round j = (\<lambda>((a, b, c, d, e, f, g, h), W512).
     let s0 = sigma0_512 (W512 ! ((j + 1) mod 16));
         s1 = sigma1_512 (W512 ! ((j + 14) mod 16));
         W512 = W512[j mod 16 := W512 ! (j mod 16) + (s1 + W512 ! ((j + 9) mod 16) + s0)];
         T1 = h + Sigma1_512 e + Ch e f g + K512 ! j + W512 ! (j mod 16);
         T2 = Sigma0_512 a + Maj a b c
     in ((T1 + T2, a, b, c, d + T1, e, f, g), W512))"

definition sha512_Transform :: "u64 list \<Rightarrow> u64 list \<Rightarrow> u64 list" where
  "sha512_Transform state_in data =
     (let regs = (state_in ! 0, state_in ! 1, state_in ! 2, state_in ! 3,
                  state_in ! 4, state_in ! 5, state_in ! 6, state_in ! 7);
          rw = fold (sha512_copy_round data) [0..<16] (regs, replicate 16 0);
          rw = fold sha512_expand_round [16..<80] rw;
          (a, b, c, d, e, f, g, h) = fst rw
      in [state_in ! 0 + a, state_in ! 1 + b, state_in ! 2 + c, state_in ! 3 + d,
          state_in ! 4 + e, state_in ! 5 + f, state_in ! 6 + g, state_in ! 7 + h])"

function sha512_Update_blocks :: "SHA512_CTX \<Rightarrow> bytes \<Rightarrow> SHA512_CTX" where
  "sha512_Update_blocks context data =
     (if SHA512_BLOCK_LENGTH \<le> length data then
        let buf = words_of_bytes 8 (memcpy_at (bytes_of_words 8 (buffer context)) 0
                    (take SHA512_BLOCK_LENGTH data));
            buf = map REVERSE64 buf;
            context = context\<lparr>buffer := buf\<rparr>;
            context = context\<lparr>state := sha512_Transform (state context) (buffer context)\<rparr>;
            context = context\<lparr>bitcount := ADDINC128 (bitcount context) (push_bit 3 (of_nat SHA512_BLOCK_LENGTH))\<rparr>
        in sha512_Update_blocks context (drop SHA512_BLOCK_LENGTH data)
      else if 0 < length data then
        context\<lparr>buffer := words_of_bytes 8 (memcpy_at (bytes_of_words 8 (buffer context)) 0 data),
                bitcount := ADDINC128 (bitcount context) (push_bit 3 (of_nat (length data)))\<rparr>
      else context)"
  by pat_completeness auto
termination
  by (relation "measure (length \<circ> snd)") auto

declare sha512_Update_blocks.simps [simp del]

definition sha512_Update :: "SHA512_CTX \<Rightarrow> bytes \<Rightarrow> SHA512_CTX" where
  "sha512_Update context data =
     (if length data = 0 then context
      else
        let usedspace = unat (drop_bit 3 (bitcount context ! 0)) mod SHA512_BLOCK_LENGTH in
        if 0 < usedspace then
          let freespace = SHA512_BLOCK_LENGTH - usedspace in
          if freespace \<le> length data then
            let buf = words_of_bytes 8 (memcpy_at (bytes_of_words 8 (buffer context)) usedspace
                        (take freespace data));
                context = context\<lparr>buffer := buf,
                            bitcount := ADDINC128 (bitcount context) (push_bit 3 (of_nat freespace))\<rparr>;
                context = context\<lparr>buffer := map REVERSE64 (buffer context)\<rparr>;
                context = context\<lparr>state := sha512_Transform (state context) (buffer context)\<rparr>
            in sha512_Update_blocks context (drop freespace data)
          else
            context\<lparr>buffer := words_of_bytes 8 (memcpy_at (bytes_of_words 8 (buffer context)) usedspace data),
                    bitcount := ADDINC128 (bitcount context) (push_bit 3 (of_nat (length data)))\<rparr>
        else sha512_Update_blocks context data)"

definition sha512_Last :: "SHA512_CTX \<Rightarrow> u64 list" where
  "sha512_Last context =
     (let usedspace = unat (drop_bit 3 (bitcount context ! 0)) mod SHA512_BLOCK_LENGTH;
          buf = memcpy_at (bytes_of_words 8 (buffer context)) usedspace [0x80];
          usedspace = usedspace + 1;
          (st, buf, usedspace) =
            (if SHA512_SHORT_BLOCK_LENGTH < usedspace then
               let w = map REVERSE64 (words_of_bytes 8
                         (memcpy_at buf usedspace (replicate (SHA512_BLOCK_LENGTH - usedspace) 0)))
               in (sha512_Transform (state context) w, bytes_of_words 8 w, 0)
             else (state context, buf, usedspace));
          w = words_of_bytes 8 (memcpy_at buf usedspace (replicate (SHA512_SHORT_BLOCK_LENGTH - usedspace) 0));
          w = map REVERSE64 (take 14 w) @ drop 14 w;
          w = w[14 := bitcount context ! 1, 15 := bitcount context ! 0]
      in sha512_Transform st w)"

definition sha512_zero :: SHA512_CTX where
  "sha512_zero = \<lparr>state = replicate 8 0, bitcount = [0, 0], buffer = replicate 16 0\<rparr>"

definition sha512_Final :: "SHA512_CTX \<Rightarrow> bytes \<times> SHA512_CTX" where
  "sha512_Final context =
     (bytes_of_words 8 (map REVERSE64 (sha512_Last context)), sha512_zero)"

text \<open>\<open>None\<close> is the null result buffer of \<^verbatim>\<open>sha512_End\<close>, for which only the context is wiped.\<close>

definition sha512_End :: "SHA512_CTX \<Rightarrow> string option \<Rightarrow> string option \<times> SHA512_CTX" where
  "sha512_End context out =
     (case out of
        Some _ \<Rightarrow> (let (digest, context) = sha512_Final context in (Some (hex_string digest), context))
      | None \<Rightarrow> (None, sha512_zero))"

definition sha512_Raw :: "bytes \<Rightarrow> bytes" where
  "sha512_Raw data =
     (let context = sha512_Init;
          context = sha512_Update context data
      in fst (sha512_Final context))"

definition sha512_Data :: "bytes \<Rightarrow> string option \<Rightarrow> string option" where
  "sha512_Data data digest =
     (let context = sha512_Init;
          context = sha512_Update context data
      in fst (sha512_End context digest))"

section \<open>SHA-1\<close>

type_synonym 'w regs5 = "'w \<times> 'w \<times> 'w \<times> 'w \<times> 'w"
type_synonym SHA1_CTX = "(u32, u64) sha_ctx"

definition K1_0_TO_19 :: u32 where "K1_0_TO_19 = 0x5a827999"
definition K1_20_TO_39 :: u32 where "K1_20_TO_39 = 0x6ed9eba1"
definition K1_40_TO_59 :: u32 where "K1_40_TO_59 = 0x8f1bbcdc"
definition K1_60_TO_79 :: u32 where "K1_60_TO_79 = 0xca62c1d6"

definition sha1_Init :: SHA1_CTX where
  "sha1_Init = \<lparr>state = sha1_initial_hash_value, bitcount = 0, buffer = replicate 16 0\<rparr>"

definition sha1_copy_round :: "u32 list \<Rightarrow> nat \<Rightarrow> u32 regs5 \<times> u32 list \<Rightarrow> u32 regs5 \<times> u32 list" where
  "sha1_copy_round data j = (\<lambda>((a, b, c, d, e), W1).
     let W1 = W1[j := data ! j];
         T1 = ROTL32 5 a + Ch b c d + e + K1_0_TO_19 + W1 ! j
     in ((T1, a, ROTL32 30 b, c, d), W1))"

text \<open>One pass of the loops for rounds 16 to 19, 20 to 39, 40 to 59 and 60 to 79, which
  differ in the logical function \<open>F\<close> and the constant \<open>K1\<close> only.\<close>

definition sha1_expand_round :: "(u32 \<Rightarrow> u32 \<Rightarrow> u32 \<Rightarrow> u32) \<Rightarrow> u32 \<Rightarrow> nat \<Rightarrow>
    u32 regs5 \<times> u32 list \<Rightarrow> u32 regs5 \<times> u32 list" where
  "sha1_expand_round F K1 j = (\<lambda>((a, b, c, d, e), W1).
     let T1 = W1 ! ((j + 13) mod 16) XOR W1 ! ((j + 8) mod 16) XOR W1 ! ((j + 2) mod 16) XOR W1 ! (j mod 16);
         W1 = W1[j mod 16 := ROTL32 1 T1];
         T1 = ROTL32 5 a + F b c d + e + K1 + W1 ! (j mod 16)
     in ((T1, a, ROTL32 30 b, c, d), W1))"

definition sha1_Transform :: "u32 list \<Rightarrow> u32 list \<Rightarrow> u32 list" where
  "sha1_Transform state_in data =
     (let regs = (state_in ! 0, state_in ! 1, state_in ! 2, state_in ! 3, state_in ! 4);
          rw = fold (sha1_copy_round data) [0..<16] (regs, replicate 16 0);
          rw = fold (sha1_expand_round Ch K1_0_TO_19) [16..<20] rw;
          rw = fold (sha1_expand_round Parity K1_20_TO_39) [20..<40] rw;
          rw = fold (sha1_expand_round Maj K1_40_TO_59) [40..<60] rw;
          rw = fold (sha1_expand_round Parity K1_60_TO_79) [60..<80] rw;
          (a, b, c, d, e) = fst rw
      in [state_in ! 0 + a, state_in ! 1 + b, state_in ! 2 + c, state_in ! 3 + d, state_in ! 4 + e])"

function sha1_Update_blocks :: "SHA1_CTX \<Rightarrow> bytes \<Rightarrow> SHA1_CTX" where
  "sha1_Update_blocks context data =
     (if SHA1_BLOCK_LENGTH \<le> length data then
        let buf = words_of_bytes 4 (memcpy_at (bytes_of_words 4 (buffer context)) 0
                    (take SHA1_BLOCK_LENGTH data));
            buf = map REVERSE32 buf;
            context = context\<lparr>buffer := buf\<rparr>;
            context = context\<lparr>state := sha1_Transform (state context) (buffer context)\<rparr>;
            context = context\<lparr>bitcount := bitcount context + push_bit 3 (of_nat SHA1_BLOCK_LENGTH)\<rparr>
        in sha1_Update_blocks context (drop SHA1_BLOCK_LENGTH data)
      else if 0 < length data then
        context\<lparr>buffer := words_of_bytes 4 (memcpy_at (bytes_of_words 4 (buffer context)) 0 data),
                bitcount := bitcount context + push_bit 3 (of_nat (length data))\<rparr>
      else context)"
  by pat_completeness auto
termination
  by (relation "measure (length \<circ> snd)") auto

declare sha1_Update_blocks.simps [simp del]

definition sha1_Update :: "SHA1_CTX \<Rightarrow> bytes \<Rightarrow> SHA1_CTX" where
  "sha1_Update context data =
     (if length data = 0 then context
      else
        let usedspace = unat (drop_bit 3 (bitcount context)) mod SHA1_BLOCK_LENGTH in
        if 0 < usedspace then
          let freespace = SHA1_BLOCK_LENGTH - usedspace in
          if freespace \<le> length data then
            let buf = words_of_bytes 4 (memcpy_at (bytes_of_words 4 (buffer context)) usedspace
                        (take freespace data));
                context = context\<lparr>buffer := buf, bitcount := bitcount context + push_bit 3 (of_nat freespace)\<rparr>;
                context = context\<lparr>buffer := map REVERSE32 (buffer context)\<rparr>;
                context = context\<lparr>state := sha1_Transform (state context) (buffer context)\<rparr>
            in sha1_Update_blocks context (drop freespace data)
          else
            context\<lparr>buffer := words_of_bytes 4 (memcpy_at (bytes_of_words 4 (buffer context)) usedspace data),
                    bitcount := bitcount context + push_bit 3 (of_nat (length data))\<rparr>
        else sha1_Update_blocks context data)"

definition sha1_Final_state :: "SHA1_CTX \<Rightarrow> u32 list" where
  "sha1_Final_state context =
     (let usedspace = unat (drop_bit 3 (bitcount context)) mod SHA1_BLOCK_LENGTH;
          buf = memcpy_at (bytes_of_words 4 (buffer context)) usedspace [0x80];
          usedspace = usedspace + 1;
          (st, buf, usedspace) =
            (if SHA1_SHORT_BLOCK_LENGTH < usedspace then
               let w = map REVERSE32 (words_of_bytes 4
                         (memcpy_at buf usedspace (replicate (SHA1_BLOCK_LENGTH - usedspace) 0)))
               in (sha1_Transform (state context) w, bytes_of_words 4 w, 0)
             else (state context, buf, usedspace));
          w = words_of_bytes 4 (memcpy_at buf usedspace (replicate (SHA1_SHORT_BLOCK_LENGTH - usedspace) 0));
          w = map REVERSE32 (take 14 w) @ drop 14 w;
          w = w[14 := ucast (drop_bit 32 (bitcount context)),
                15 := ucast (bitcount context AND 0xffffffff)]
      in sha1_Transform st w)"

definition sha1_zero :: SHA1_CTX where
  "sha1_zero = \<lparr>state = replicate 5 0, bitcount = 0, buffer = replicate 16 0\<rparr>"

definition sha1_Final :: "SHA1_CTX \<Rightarrow> bytes \<times> SHA1_CTX" where
  "sha1_Final context =
     (bytes_of_words 4 (map REVERSE32 (sha1_Final_state context)), sha1_zero)"

text \<open>\<open>None\<close> is the null result buffer of \<^verbatim>\<open>sha1_End\<close>, for which only the context is wiped.\<close>

definition sha1_End :: "SHA1_CTX \<Rightarrow> string option \<Rightarrow> string option \<times> SHA1_CTX" where
  "sha1_End context out =
     (case out of
        Some _ \<Rightarrow> (let (digest, context) = sha1_Final context in (Some (hex_string digest), context))
      | None \<Rightarrow> (None, sha1_zero))"

definition sha1_Raw :: "bytes \<Rightarrow> bytes" where
  "sha1_Raw data =
     (let context = sha1_Init;
          context = sha1_Update context data
      in fst (sha1_Final context))"

definition sha1_Data :: "bytes \<Rightarrow> string option \<Rightarrow> string option" where
  "sha1_Data data digest =
     (let context = sha1_Init;
          context = sha1_Update context data
      in fst (sha1_End context digest))"

end
