(* ===== verification/Sha2_Bits.thy ===== *)
theory Sha2_Bits
  imports Sha2
begin

unbundle bit_operations_syntax

text \<open>
  Facts on the bit-level helpers of \<^verbatim>\<open>sha2.c\<close>: \<open>REVERSE32\<close> and \<open>REVERSE64\<close> swap the byte
  order, the 64-bit and the two-word 128-bit message counters count bits without loss
  (with the carry of \<open>ADDINC128\<close>), and their words are the big-endian length field of the
  padding.
\<close>

section \<open>Byte swaps, counters\<close>

lemma word_eq_list_all:
  "(v :: 'a::len word) = w \<longleftrightarrow> list_all (\<lambda>n. bit v n = bit w n) [0..<LENGTH('a)]"
  by (auto simp: list_all_iff bit_word_eqI)

lemma bit_word_out_of_range: "LENGTH('a) \<le> n \<Longrightarrow> \<not> bit (w :: 'a::len word) n"
  using bit_imp_le_length by (metis not_le)

lemmas bit_listing = word_eq_list_all bit_word_le bytes_le_def upt_rec bit_simps

lemma REVERSE32_swap: "REVERSE32 w = word_be (bytes_le 4 w)"
  by (simp add: bit_listing REVERSE32_def word_be_def bit_word_out_of_range)
    (simp add: numeral_eq_Suc)

lemma REVERSE64_swap: "REVERSE64 w = word_be (bytes_le 8 w)"
  by (simp add: bit_listing REVERSE64_def word_be_def bit_word_out_of_range)
    (simp add: numeral_eq_Suc)

definition bits64 :: "nat \<Rightarrow> u64" where
  "bits64 n = of_nat (8 * n)"

definition bits128 :: "nat \<Rightarrow> u64 list" where
  "bits128 n = [of_nat (8 * n), of_nat (8 * n div 2 ^ 64)]"

lemma used_bits64:
  assumes "B dvd 2 ^ 61"
  shows "unat (drop_bit 3 (of_nat (8 * n) :: u64)) mod B = n mod B"
proof -
  have "(8 * n) mod 2 ^ 64 = 8 * (n mod 2 ^ 61)"
    using mult_mod_right [of 8 n "2 ^ 61"] by simp
  moreover have "unat (drop_bit 3 w) = unat w div 8" for w :: u64
    by (simp only: unat_drop_bit_eq) (simp add: drop_bit_eq_div)
  ultimately have "unat (drop_bit 3 (of_nat (8 * n) :: u64)) = n mod 2 ^ 61"
    using unat_of_nat [of "8 * n", where 'a = 64] by simp
  then show ?thesis using assms by (simp add: mod_mod_cancel)
qed

lemma add_bits64: "bits64 n + push_bit 3 (of_nat k) = bits64 (n + k)"
  by (simp add: bits64_def push_bit_eq_mult)

lemma bits64_halves:
  "bytes_be 4 (ucast (drop_bit 32 w) :: u32) @ bytes_be 4 (ucast (w AND 0xffffffff) :: u32) = bytes_be 8 (w :: u64)"
  by (simp add: bytes_be_def bytes_le_def upt_rec)
    (simp add: word_eq_list_all upt_rec bit_simps)

lemma add_no_carry:
  assumes "x mod M + k < (M :: nat)"
  shows "(x + k) div M = x div M" and "(x + k) mod M = x mod M + k"
proof -
  have "x + k = x div M * M + (x mod M + k)" by simp
  then show "(x + k) div M = x div M" and "(x + k) mod M = x mod M + k"
    using assms by (metis add.right_neutral div_less div_mult_self3 gr_implies_not0,
        metis mod_less mod_mult_self3)
qed

lemma add_carry:
  assumes "M \<le> x mod M + k" and "k < (M :: nat)"
  shows "(x + k) div M = x div M + 1" and "(x + k) mod M = x mod M + k - M"
proof -
  have lt: "x mod M + k - M < M" using assms mod_less_divisor [of M x] by linarith
  have "x + k = (x div M + 1) * M + (x mod M + k - M)" using assms by simp
  then show "(x + k) div M = x div M + 1" and "(x + k) mod M = x mod M + k - M"
    using lt by (metis add.right_neutral div_less div_mult_self3 gr_implies_not0,
        metis mod_less mod_mult_self3)
qed

text \<open>The carry of \<^verbatim>\<open>ADDINC128\<close> is exact as long as a single addition is below 2^64.\<close>

lemma ADDINC128_carry:
  assumes "k < 2 ^ 64"
  shows "ADDINC128 [of_nat x, of_nat (x div 2 ^ 64)] (of_nat k) = [of_nat (x + k), of_nat ((x + k) div 2 ^ 64)]"
proof -
  define M :: nat where "M = 2 ^ 64"
  have k: "unat (of_nat k :: u64) = k" using assms by (simp add: unat_of_nat)
  have s: "unat (of_nat x + of_nat k :: u64) = (x + k) mod M"
    using unat_of_nat [of "x + k", where 'a = 64] by (simp add: M_def)
  have "ADDINC128 [of_nat x, of_nat (x div M)] (of_nat k) = [of_nat (x + k), of_nat ((x + k) div M)]"
  proof (cases "x mod M + k < M")
    case True
    then have "\<not> of_nat x + of_nat k < (of_nat k :: u64)"
      using k s by (simp add: word_less_nat_alt add_no_carry)
    with True show ?thesis by (simp add: ADDINC128_def Let_def add_no_carry)
  next
    case False
    have kM: "k < M" using assms by (simp add: M_def)
    have "x mod M < M" using kM by simp
    then have "x mod M + k - M < k" using False by linarith
    with False kM have "of_nat x + of_nat k < (of_nat k :: u64)"
      using k s by (simp add: word_less_nat_alt add_carry)
    with False kM show ?thesis by (simp add: ADDINC128_def Let_def add_carry)
  qed
  then show ?thesis by (simp only: M_def)
qed

lemma add_bits128: "k \<le> 128 \<Longrightarrow> ADDINC128 (bits128 n) (push_bit 3 (of_nat k)) = bits128 (n + k)"
  using ADDINC128_carry [of "8 * k" "8 * n"]
  by (simp add: bits128_def push_bit_eq_mult distrib_left mult.commute)

text \<open>The two words of the length field of SHA-512 are the 128-bit length.\<close>

lemma bits128_field: "bytes_be 8 (bits128 n ! 1) @ bytes_be 8 (bits128 n ! 0) = bytes_be 16 (of_nat (8 * n) :: 128 word)"
proof -
  define w where "w = (of_nat (8 * n) :: 128 word)"
  have bw: "bit (of_nat x :: 'a::len word) k \<longleftrightarrow> k < LENGTH('a) \<and> bit x k" for x k
    by (simp add: bit_of_nat_iff)
  have bd: "bit (x div 2 ^ 64) k = bit x (64 + k)" for x k :: nat
    by (simp only: drop_bit_eq_div [symmetric] bit_drop_bit_eq comp_def)
  have words: "(of_nat x :: u64) = ucast (of_nat x :: 128 word)"
    "(of_nat (x div 2 ^ 64) :: u64) = ucast (drop_bit 64 (of_nat x :: 128 word))" for x
    by (rule bit_word_eqI; simp only: bit_ucast_iff bit_drop_bit_eq bw bd comp_def; simp)+
  have lo: "bits128 n ! 0 = ucast w" and hi: "bits128 n ! 1 = ucast (drop_bit 64 w)"
    unfolding w_def bits128_def using words [of "8 * n"] by simp_all
  have "bytes_be 8 (ucast (drop_bit 64 w) :: u64) @ bytes_be 8 (ucast w :: u64) = bytes_be 16 w"
    by (simp add: bytes_be_def bytes_le_def upt_rec)
      (simp add: word_eq_list_all upt_rec bit_simps)
  then show ?thesis unfolding lo hi by (simp only: w_def)
qed

end
