(* ===== verification/Sha2_Correct.thy ===== *)
theory Sha2_Correct
  imports Sha2_Bits
begin

unbundle bit_operations_syntax

text \<open>
  Correctness of \<^verbatim>\<open>sha2.c\<close> against FIPS 180-4. The reference compression functions run the
  rounds over the whole message schedule; the reference digests chain them over the padded
  message. The interpretations \<open>w256\<close>, \<open>w512\<close> discharge the ring buffer of each
  \<open>Transform\<close>, \<open>c256\<close>, \<open>c512\<close>, \<open>c1\<close> the buffering of \<open>Update\<close> and \<open>Final\<close>, and
  \<open>s256\<close>, \<open>s512\<close>, \<open>s1\<close> provide the streaming contract to the clients.
\<close>

section \<open>Reference compression functions\<close>

definition round256 :: "nat \<Rightarrow> u32 \<Rightarrow> u32 regs8 \<Rightarrow> u32 regs8" where
  "round256 t w = (\<lambda>(a, b, c, d, e, f, g, h).
     let T1 = h + Sigma1_256 e + Ch e f g + K256 ! t + w;
         T2 = Sigma0_256 a + Maj a b c
     in (T1 + T2, a, b, c, d + T1, e, f, g))"

definition sched256 :: "u32 \<Rightarrow> u32 \<Rightarrow> u32 \<Rightarrow> u32 \<Rightarrow> u32 \<Rightarrow> u32 \<Rightarrow> u32 \<Rightarrow> u32" where
  "sched256 w16 w15 w14 w8 w7 w3 w2 = sigma1_256 w2 + w7 + sigma0_256 w15 + w16"

definition compress256 :: "u32 list \<Rightarrow> u32 list \<Rightarrow> u32 list" where
  "compress256 H M =
     (let W = msg_sched sched256 M 48;
          (a, b, c, d, e, f, g, h) = fold (\<lambda>t. round256 t (W ! t)) [0..<64]
             (H ! 0, H ! 1, H ! 2, H ! 3, H ! 4, H ! 5, H ! 6, H ! 7)
      in [H ! 0 + a, H ! 1 + b, H ! 2 + c, H ! 3 + d, H ! 4 + e, H ! 5 + f, H ! 6 + g, H ! 7 + h])"

definition round512 :: "nat \<Rightarrow> u64 \<Rightarrow> u64 regs8 \<Rightarrow> u64 regs8" where
  "round512 t w = (\<lambda>(a, b, c, d, e, f, g, h).
     let T1 = h + Sigma1_512 e + Ch e f g + K512 ! t + w;
         T2 = Sigma0_512 a + Maj a b c
     in (T1 + T2, a, b, c, d + T1, e, f, g))"

definition sched512 :: "u64 \<Rightarrow> u64 \<Rightarrow> u64 \<Rightarrow> u64 \<Rightarrow> u64 \<Rightarrow> u64 \<Rightarrow> u64 \<Rightarrow> u64" where
  "sched512 w16 w15 w14 w8 w7 w3 w2 = sigma1_512 w2 + w7 + sigma0_512 w15 + w16"

definition compress512 :: "u64 list \<Rightarrow> u64 list \<Rightarrow> u64 list" where
  "compress512 H M =
     (let W = msg_sched sched512 M 64;
          (a, b, c, d, e, f, g, h) = fold (\<lambda>t. round512 t (W ! t)) [0..<80]
             (H ! 0, H ! 1, H ! 2, H ! 3, H ! 4, H ! 5, H ! 6, H ! 7)
      in [H ! 0 + a, H ! 1 + b, H ! 2 + c, H ! 3 + d, H ! 4 + e, H ! 5 + f, H ! 6 + g, H ! 7 + h])"

definition sha1_f :: "nat \<Rightarrow> u32 \<Rightarrow> u32 \<Rightarrow> u32 \<Rightarrow> u32" where
  "sha1_f t = (if t < 20 then Ch else if t < 40 then Parity else if t < 60 then Maj else Parity)"

definition sha1_k :: "nat \<Rightarrow> u32" where
  "sha1_k t = (if t < 20 then K1_0_TO_19 else if t < 40 then K1_20_TO_39
     else if t < 60 then K1_40_TO_59 else K1_60_TO_79)"

definition round1 :: "nat \<Rightarrow> u32 \<Rightarrow> u32 regs5 \<Rightarrow> u32 regs5" where
  "round1 t w = (\<lambda>(a, b, c, d, e).
     (ROTL32 5 a + sha1_f t b c d + e + sha1_k t + w, a, ROTL32 30 b, c, d))"

definition sched1 :: "u32 \<Rightarrow> u32 \<Rightarrow> u32 \<Rightarrow> u32 \<Rightarrow> u32 \<Rightarrow> u32 \<Rightarrow> u32 \<Rightarrow> u32" where
  "sched1 w16 w15 w14 w8 w7 w3 w2 = ROTL32 1 (w3 XOR w8 XOR w14 XOR w16)"

definition compress1 :: "u32 list \<Rightarrow> u32 list \<Rightarrow> u32 list" where
  "compress1 H M =
     (let W = msg_sched sched1 M 64;
          (a, b, c, d, e) = fold (\<lambda>t. round1 t (W ! t)) [0..<80] (H ! 0, H ! 1, H ! 2, H ! 3, H ! 4)
      in [H ! 0 + a, H ! 1 + b, H ! 2 + c, H ! 3 + d, H ! 4 + e])"

definition len64 :: "nat \<Rightarrow> bytes" where
  "len64 n = bytes_be 8 (of_nat (8 * n) :: u64)"

definition len128 :: "nat \<Rightarrow> bytes" where
  "len128 n = bytes_be 16 (of_nat (8 * n) :: 128 word)"

definition SHA256 :: "bytes \<Rightarrow> bytes" where
  "SHA256 = md_digest 4 compress256 sha256_initial_hash_value len64"

definition SHA512 :: "bytes \<Rightarrow> bytes" where
  "SHA512 = md_digest 8 compress512 sha512_initial_hash_value len128"

definition SHA1 :: "bytes \<Rightarrow> bytes" where
  "SHA1 = md_digest 4 compress1 sha1_initial_hash_value len64"

section \<open>The ring buffers\<close>

interpretation w256: ring_rounds round256 sched256 sha256_copy_round sha256_expand_round
  by unfold_locales
    (auto simp: sha256_copy_round_def sha256_expand_round_def round256_def sched256_def Let_def
      split: prod.splits simp: ac_simps)

interpretation w512: ring_rounds round512 sched512 sha512_copy_round sha512_expand_round
  by unfold_locales
    (auto simp: sha512_copy_round_def sha512_expand_round_def round512_def sched512_def Let_def
      split: prod.splits simp: ac_simps)

lemma sha256_Transform_compress:
  "length M = 16 \<Longrightarrow> sha256_Transform H M = compress256 H M"
  using w256.rounds [of M "replicate 16 0" 64]
  by (simp add: sha256_Transform_def compress256_def Let_def del: upt_rec_numeral)

lemma sha512_Transform_compress:
  "length M = 16 \<Longrightarrow> sha512_Transform H M = compress512 H M"
  using w512.rounds [of M "replicate 16 0" 80]
  by (simp add: sha512_Transform_def compress512_def Let_def del: upt_rec_numeral)

text \<open>SHA-1 changes its logical function and constant every twenty rounds; its four loops are
  one loop over a round-indexed step.\<close>

definition sha1_expand :: "nat \<Rightarrow> u32 regs5 \<times> u32 list \<Rightarrow> u32 regs5 \<times> u32 list" where
  "sha1_expand j = sha1_expand_round (sha1_f j) (sha1_k j) j"

interpretation w1: ring_rounds round1 sched1 sha1_copy_round sha1_expand
  by unfold_locales
    (auto simp: sha1_copy_round_def sha1_expand_def sha1_expand_round_def round1_def sched1_def Let_def
      sha1_f_def sha1_k_def split: prod.splits)

lemma sha1_expand_phase:
  assumes "\<And>j. a \<le> j \<Longrightarrow> j < b \<Longrightarrow> sha1_f j = F \<and> sha1_k j = K"
  shows "fold (sha1_expand_round F K) [a..<b] = fold sha1_expand [a..<b]"
  by (rule ext, rule fold_cong) (auto simp: sha1_expand_def assms)

lemma sha1_phases:
  "fold (sha1_expand_round Parity K1_60_TO_79) [60..<80]
    (fold (sha1_expand_round Maj K1_40_TO_59) [40..<60]
      (fold (sha1_expand_round Parity K1_20_TO_39) [20..<40]
        (fold (sha1_expand_round Ch K1_0_TO_19) [16..<20] rw))) = fold sha1_expand [16..<80] rw"
proof -
  have "[16..<80] = [16..<20] @ [20..<40] @ [40..<60] @ [60..<(80::nat)]"
    using upt_add_eq_append [of 16 20 60] upt_add_eq_append [of 20 40 40]
      upt_add_eq_append [of 40 60 20] by simp
  moreover have "fold (sha1_expand_round Ch K1_0_TO_19) [16..<20] = fold sha1_expand [16..<20]"
    "fold (sha1_expand_round Parity K1_20_TO_39) [20..<40] = fold sha1_expand [20..<40]"
    "fold (sha1_expand_round Maj K1_40_TO_59) [40..<60] = fold sha1_expand [40..<60]"
    "fold (sha1_expand_round Parity K1_60_TO_79) [60..<80] = fold sha1_expand [60..<80]"
    by (rule sha1_expand_phase; simp add: sha1_f_def sha1_k_def)+
  ultimately show ?thesis by (simp only: fold_append comp_apply)
qed

lemma sha1_Transform_compress:
  "length M = 16 \<Longrightarrow> sha1_Transform H M = compress1 H M"
  using w1.rounds [of M "replicate 16 0" 80]
  by (simp add: sha1_Transform_def compress1_def Let_def sha1_phases del: upt_rec_numeral)

section \<open>Buffering\<close>

text \<open>The reference digest only ever compresses whole blocks, so \<open>Transform\<close> may be
  replaced by the reference compression under it.\<close>

lemma md_fold_cong:
  assumes "0 < B" and "B dvd length m" and "\<And>s b. length b = B \<Longrightarrow> f s b = g s b"
  shows "md_fold B f s m = md_fold B g s m"
  unfolding md_fold_def
  by (rule foldl_cong) (use assms in \<open>auto simp: chunks_all_length\<close>)

lemma md_digest_cong:
  assumes "0 < wb" and "\<And>s M. length M = 16 \<Longrightarrow> tr s M = tr' s (M :: 'w::len word list)"
  shows "md_digest wb tr iv lenf m = md_digest wb tr' iv lenf m"
proof -
  have "md_fold (16 * wb) (\<lambda>s b. tr s (be_words wb b)) iv (md_pad (16 * wb) (lenf (length m)) m) =
        md_fold (16 * wb) (\<lambda>s b. tr' s (be_words wb b)) iv (md_pad (16 * wb) (lenf (length m)) m)"
    by (rule md_fold_cong) (use assms in \<open>simp_all add: md_pad_dvd length_be_words\<close>)
  then show ?thesis by (simp add: md_digest_def)
qed

interpretation c256: md_context 4 REVERSE32 sha256_Transform sha256_initial_hash_value bits64
  "\<lambda>c. unat (drop_bit 3 c) mod 64" "\<lambda>c k. c + push_bit 3 (of_nat k)" len64
  "\<lambda>c. ucast (drop_bit 32 c)" "\<lambda>c. ucast (c AND 0xffffffff)"
  sha256_Update_blocks sha256_Update sha256_Final_state "\<lambda>c. fst (sha256_Final c)"
proof (unfold_locales, goal_cases)
  case (3 n)
  then show ?case using used_bits64 [of 64 n] by (simp add: bits64_def)
next
  case (6 c d)
  then show ?case by (subst sha256_Update_blocks.simps) (simp add: Let_def)
next
  case (7 c d)
  then show ?case by (simp add: sha256_Update_def Let_def sha_ctx_order)
next
  case (8 c)
  then show ?case by (simp add: sha256_Final_state_def Let_def)
qed (simp_all add: REVERSE32_swap bits64_halves len64_def bits64_def push_bit_eq_mult sha256_Final_def)

interpretation c512: md_context 8 REVERSE64 sha512_Transform sha512_initial_hash_value bits128
  "\<lambda>c. unat (drop_bit 3 (c ! 0)) mod 128" "\<lambda>c k. ADDINC128 c (push_bit 3 (of_nat k))" len128
  "\<lambda>c. c ! 1" "\<lambda>c. c ! 0"
  sha512_Update_blocks sha512_Update sha512_Last "\<lambda>c. fst (sha512_Final c)"
proof (unfold_locales, goal_cases)
  case (3 n)
  then show ?case using used_bits64 [of 128 n] by (simp add: bits128_def)
next
  case (5 n)
  then show ?case unfolding len128_def by (rule bits128_field)
next
  case (6 c d)
  then show ?case by (subst sha512_Update_blocks.simps) (simp add: Let_def)
next
  case (7 c d)
  then show ?case by (simp add: sha512_Update_def Let_def sha_ctx_order)
next
  case (8 c)
  then show ?case by (simp add: sha512_Last_def Let_def)
qed (simp_all add: REVERSE64_swap add_bits128 sha512_Final_def)

interpretation c1: md_context 4 REVERSE32 sha1_Transform sha1_initial_hash_value bits64
  "\<lambda>c. unat (drop_bit 3 c) mod 64" "\<lambda>c k. c + push_bit 3 (of_nat k)" len64
  "\<lambda>c. ucast (drop_bit 32 c)" "\<lambda>c. ucast (c AND 0xffffffff)"
  sha1_Update_blocks sha1_Update sha1_Final_state "\<lambda>c. fst (sha1_Final c)"
proof (unfold_locales, goal_cases)
  case (3 n)
  then show ?case using used_bits64 [of 64 n] by (simp add: bits64_def)
next
  case (6 c d)
  then show ?case by (subst sha1_Update_blocks.simps) (simp add: Let_def)
next
  case (7 c d)
  then show ?case by (simp add: sha1_Update_def Let_def sha_ctx_order)
next
  case (8 c)
  then show ?case by (simp add: sha1_Final_state_def Let_def)
qed (simp_all add: REVERSE32_swap bits64_halves len64_def bits64_def push_bit_eq_mult sha1_Final_def)

section \<open>The streaming contract\<close>

abbreviation repr256 :: "SHA256_CTX \<Rightarrow> bytes \<Rightarrow> bool" where
  "repr256 \<equiv> md_repr 4 sha256_Transform sha256_initial_hash_value bits64"

abbreviation repr512 :: "SHA512_CTX \<Rightarrow> bytes \<Rightarrow> bool" where
  "repr512 \<equiv> md_repr 8 sha512_Transform sha512_initial_hash_value bits128"

abbreviation repr1 :: "SHA1_CTX \<Rightarrow> bytes \<Rightarrow> bool" where
  "repr1 \<equiv> md_repr 4 sha1_Transform sha1_initial_hash_value bits64"

lemma md_repr_start:
  "length (buffer c) = 16 \<Longrightarrow> state c = iv \<Longrightarrow> bitcount c = cnt 0 \<Longrightarrow> md_repr wb tr iv cnt c []"
  by (simp add: md_repr_def full_part_def tail_part_def)

interpretation s256: streaming_hash repr256 sha256_Init sha256_Update "\<lambda>c. fst (sha256_Final c)" SHA256
proof
  show "repr256 sha256_Init []"
    by (rule md_repr_start) (simp_all add: sha256_Init_def bits64_def)
  show "repr256 c m \<Longrightarrow> repr256 (sha256_Update c d) (m @ d)" for c m d
    by (rule c256.repr_update)
  show "repr256 c m \<Longrightarrow> fst (sha256_Final c) = SHA256 m" for c m
    unfolding c256.final_repr SHA256_def
    by (rule md_digest_cong) (simp_all add: sha256_Transform_compress)
qed

interpretation s512: streaming_hash repr512 sha512_Init sha512_Update "\<lambda>c. fst (sha512_Final c)" SHA512
proof
  show "repr512 sha512_Init []"
    by (rule md_repr_start) (simp_all add: sha512_Init_def bits128_def)
  show "repr512 c m \<Longrightarrow> repr512 (sha512_Update c d) (m @ d)" for c m d
    by (rule c512.repr_update)
  show "repr512 c m \<Longrightarrow> fst (sha512_Final c) = SHA512 m" for c m
    unfolding c512.final_repr SHA512_def
    by (rule md_digest_cong) (simp_all add: sha512_Transform_compress)
qed

interpretation s1: streaming_hash repr1 sha1_Init sha1_Update "\<lambda>c. fst (sha1_Final c)" SHA1
proof
  show "repr1 sha1_Init []"
    by (rule md_repr_start) (simp_all add: sha1_Init_def bits64_def)
  show "repr1 c m \<Longrightarrow> repr1 (sha1_Update c d) (m @ d)" for c m d
    by (rule c1.repr_update)
  show "repr1 c m \<Longrightarrow> fst (sha1_Final c) = SHA1 m" for c m
    unfolding c1.final_repr SHA1_def
    by (rule md_digest_cong) (simp_all add: sha1_Transform_compress)
qed

section \<open>Digest lengths\<close>

lemma length_md_fold:
  assumes "\<And>s b. length (f s b) = n" and "length s = n"
  shows "length (md_fold B f s m) = n"
proof -
  have "length (foldl f s bs) = n" for bs
    using assms(2) by (induction bs arbitrary: s) (simp_all add: assms(1))
  then show ?thesis by (simp add: md_fold_def)
qed

lemma length_Transform [simp]:
  "length (sha256_Transform s M) = 8" "length (sha512_Transform s2 M2) = 8" "length (sha1_Transform s M) = 5"
  by (simp_all add: sha256_Transform_def sha512_Transform_def sha1_Transform_def Let_def
      del: upt_rec_numeral split: prod.splits)

lemma length_compress [simp]:
  "length (compress256 s M) = 8" "length (compress512 s2 M2) = 8" "length (compress1 s M) = 5"
  by (simp_all add: compress256_def compress512_def compress1_def Let_def
      del: upt_rec_numeral split: prod.splits)

lemma length_SHA256 [simp]: "length (SHA256 m) = 32"
  by (simp add: SHA256_def md_digest_def length_md_fold [where n = 8] sha256_initial_hash_value_def)

lemma length_SHA512 [simp]: "length (SHA512 m) = 64"
  by (simp add: SHA512_def md_digest_def length_md_fold [where n = 8] sha512_initial_hash_value_def)

lemma length_SHA1 [simp]: "length (SHA1 m) = 20"
  by (simp add: SHA1_def md_digest_def length_md_fold [where n = 5] sha1_initial_hash_value_def)

lemma sha256_Raw_SHA256: "sha256_Raw m = SHA256 m"
  using s256.digest_once by (simp add: sha256_Raw_def Let_def)

lemma sha512_Raw_SHA512: "sha512_Raw m = SHA512 m"
  using s512.digest_once by (simp add: sha512_Raw_def Let_def)

lemma sha1_Raw_SHA1: "sha1_Raw m = SHA1 m"
  using s1.digest_once by (simp add: sha1_Raw_def Let_def)

section \<open>Properties\<close>

text \<open>on a block of 16 words \<^verbatim>\<open>sha256_Transform\<close>, which keeps only the last 16 schedule words
  in a ring, computes the compression function of FIPS 180-4 with its 64-word message
  schedule.\<close>

lemma sha256_Transform_ring:
  assumes "length M = 16"
  shows "sha256_Transform H M = compress256 H M"
  using assms by (rule sha256_Transform_compress)

lemma sha256_Transform_ring_witness:
  "sha256_Transform sha256_initial_hash_value (replicate 16 0) =
   compress256 sha256_initial_hash_value (replicate 16 0)"
  by (rule sha256_Transform_ring) simp

text \<open>C10: however a message is cut into calls of \<^verbatim>\<open>sha256_Update\<close>, \<^verbatim>\<open>sha256_Final\<close> returns the
  SHA-256 digest of the concatenation (padding, length field, chaining and byte order as in
  FIPS 180-4) and leaves a wiped context.\<close>

theorem sha256_streaming:
  "sha256_Final (foldl sha256_Update sha256_Init ds) = (SHA256 (concat ds), sha256_zero)"
  using s256.digest_updates [of ds] by (simp add: sha256_Final_def)

text \<open>C12: the same for SHA-512, whose bit counter is two words joined by the carry of
  \<^verbatim>\<open>ADDINC128\<close> and whose length field has 128 bits.\<close>

theorem sha512_streaming:
  "sha512_Final (foldl sha512_Update sha512_Init ds) = (SHA512 (concat ds), sha512_zero)"
  using s512.digest_updates [of ds] by (simp add: sha512_Final_def)

text \<open>the same for SHA-1.\<close>

lemma sha1_streaming:
  "sha1_Final (foldl sha1_Update sha1_Init ds) = (SHA1 (concat ds), sha1_zero)"
  using s1.digest_updates [of ds] by (simp add: sha1_Final_def)

end
