(* ===== verification/Hmac.thy ===== *)
theory Hmac
  imports Sha2_Correct
begin

unbundle bit_operations_syntax

text \<open>
  \<^verbatim>\<open>uhashlib/crypto/hmac.c\<close>: keyed hashing over SHA-256 and SHA-512. The reference is
  \<open>HMAC\<close> (FIPS 198-1) over any hash and block size. The locale \<open>hmac_stream\<close> takes a
  streaming hash and the bodies of \<open>Init\<close>, \<open>Update\<close> and \<open>Final\<close> and shows that they
  compute it, whatever the calls of \<open>Update\<close>; \<open>h256\<close> and \<open>h512\<close> interpret it on the code.
  \<open>prepare\<close> is shown to return the chaining values after the two key pads, which PBKDF2
  starts from.
\<close>

section \<open>Reference\<close>

definition hmac_key :: "(bytes \<Rightarrow> bytes) \<Rightarrow> nat \<Rightarrow> bytes \<Rightarrow> bytes" where
  "hmac_key H B k = (let k0 = if B < length k then H k else k in k0 @ replicate (B - length k0) 0)"

definition xor_byte :: "u8 \<Rightarrow> bytes \<Rightarrow> bytes" where
  "xor_byte c bs = map (\<lambda>b. b XOR c) bs"

definition HMAC :: "(bytes \<Rightarrow> bytes) \<Rightarrow> nat \<Rightarrow> bytes \<Rightarrow> bytes \<Rightarrow> bytes" where
  "HMAC H B k m = H (xor_byte 0x5c (hmac_key H B k) @ H (xor_byte 0x36 (hmac_key H B k) @ m))"

section \<open>HMAC-SHA-256\<close>

record 'c hmac_ctx =
  o_key_pad :: bytes
  ctx :: 'c

type_synonym HMAC_SHA256_CTX = "SHA256_CTX hmac_ctx"
type_synonym HMAC_SHA512_CTX = "SHA512_CTX hmac_ctx"

definition hmac_sha256_Init :: "bytes \<Rightarrow> HMAC_SHA256_CTX" where
  "hmac_sha256_Init key =
     (let i_key_pad = replicate SHA256_BLOCK_LENGTH 0;
          i_key_pad = memcpy_at i_key_pad 0
            (if SHA256_BLOCK_LENGTH < length key then sha256_Raw key else key);
          opad = map (\<lambda>b. b XOR 0x5c) i_key_pad;
          i_key_pad = map (\<lambda>b. b XOR 0x36) i_key_pad;
          c = sha256_Init;
          c = sha256_Update c i_key_pad
      in \<lparr>o_key_pad = opad, ctx = c\<rparr>)"

definition hmac_sha256_Update :: "HMAC_SHA256_CTX \<Rightarrow> bytes \<Rightarrow> HMAC_SHA256_CTX" where
  "hmac_sha256_Update hctx msg = hctx\<lparr>ctx := sha256_Update (ctx hctx) msg\<rparr>"

definition hmac_sha256_zero :: HMAC_SHA256_CTX where
  "hmac_sha256_zero = \<lparr>o_key_pad = replicate SHA256_BLOCK_LENGTH 0, ctx = sha256_zero\<rparr>"

definition hmac_sha256_Final :: "HMAC_SHA256_CTX \<Rightarrow> bytes \<times> HMAC_SHA256_CTX" where
  "hmac_sha256_Final hctx =
     (let (hmac, _) = sha256_Final (ctx hctx);
          c = sha256_Init;
          c = sha256_Update c (o_key_pad hctx);
          c = sha256_Update c hmac;
          (hmac, _) = sha256_Final c
      in (hmac, hmac_sha256_zero))"

definition hmac_sha256_oneline :: "bytes \<Rightarrow> bytes \<Rightarrow> bytes" where
  "hmac_sha256_oneline key msg =
     (let hctx = hmac_sha256_Init key;
          hctx = hmac_sha256_Update hctx msg
      in fst (hmac_sha256_Final hctx))"

text \<open>\<^verbatim>\<open>hmac_sha256_prepare\<close> returns \<open>(opad_digest, ipad_digest)\<close>.\<close>

definition hmac_sha256_prepare :: "bytes \<Rightarrow> u32 list \<times> u32 list" where
  "hmac_sha256_prepare key =
     (let key_pad = replicate SHA256_BLOCK_LENGTH 0;
          key_pad = memcpy_at key_pad 0
            (if SHA256_BLOCK_LENGTH < length key
             then fst (sha256_Final (sha256_Update sha256_Init key)) else key);
          key_pad = words_of_bytes 4 key_pad;
          key_pad = map (\<lambda>w. REVERSE32 w XOR 0x5c5c5c5c) key_pad;
          opad_digest = sha256_Transform sha256_initial_hash_value key_pad;
          key_pad = map (\<lambda>w. w XOR 0x5c5c5c5c XOR 0x36363636) key_pad;
          ipad_digest = sha256_Transform sha256_initial_hash_value key_pad
      in (opad_digest, ipad_digest))"

section \<open>HMAC-SHA-512\<close>

definition hmac_sha512_Init :: "bytes \<Rightarrow> HMAC_SHA512_CTX" where
  "hmac_sha512_Init key =
     (let i_key_pad = replicate SHA512_BLOCK_LENGTH 0;
          i_key_pad = memcpy_at i_key_pad 0
            (if SHA512_BLOCK_LENGTH < length key then sha512_Raw key else key);
          opad = map (\<lambda>b. b XOR 0x5c) i_key_pad;
          i_key_pad = map (\<lambda>b. b XOR 0x36) i_key_pad;
          c = sha512_Init;
          c = sha512_Update c i_key_pad
      in \<lparr>o_key_pad = opad, ctx = c\<rparr>)"

definition hmac_sha512_Update :: "HMAC_SHA512_CTX \<Rightarrow> bytes \<Rightarrow> HMAC_SHA512_CTX" where
  "hmac_sha512_Update hctx msg = hctx\<lparr>ctx := sha512_Update (ctx hctx) msg\<rparr>"

definition hmac_sha512_zero :: HMAC_SHA512_CTX where
  "hmac_sha512_zero = \<lparr>o_key_pad = replicate SHA512_BLOCK_LENGTH 0, ctx = sha512_zero\<rparr>"

definition hmac_sha512_Final :: "HMAC_SHA512_CTX \<Rightarrow> bytes \<times> HMAC_SHA512_CTX" where
  "hmac_sha512_Final hctx =
     (let (hmac, _) = sha512_Final (ctx hctx);
          c = sha512_Init;
          c = sha512_Update c (o_key_pad hctx);
          c = sha512_Update c hmac;
          (hmac, _) = sha512_Final c
      in (hmac, hmac_sha512_zero))"

definition hmac_sha512_oneline :: "bytes \<Rightarrow> bytes \<Rightarrow> bytes" where
  "hmac_sha512_oneline key msg =
     (let hctx = hmac_sha512_Init key;
          hctx = hmac_sha512_Update hctx msg
      in fst (hmac_sha512_Final hctx))"

definition hmac_sha512_prepare :: "bytes \<Rightarrow> u64 list \<times> u64 list" where
  "hmac_sha512_prepare key =
     (let key_pad = replicate SHA512_BLOCK_LENGTH 0;
          key_pad = memcpy_at key_pad 0
            (if SHA512_BLOCK_LENGTH < length key
             then fst (sha512_Final (sha512_Update sha512_Init key)) else key);
          key_pad = words_of_bytes 8 key_pad;
          key_pad = map (\<lambda>w. REVERSE64 w XOR 0x5c5c5c5c5c5c5c5c) key_pad;
          opad_digest = sha512_Transform sha512_initial_hash_value key_pad;
          key_pad = map (\<lambda>w. w XOR 0x5c5c5c5c5c5c5c5c XOR 0x3636363636363636) key_pad;
          ipad_digest = sha512_Transform sha512_initial_hash_value key_pad
      in (opad_digest, ipad_digest))"

section \<open>HMAC over a streaming hash\<close>

lemma length_xor_byte [simp]: "length (xor_byte c bs) = length bs"
  by (simp add: xor_byte_def)

lemma length_hmac_key [simp]: "(\<And>m. length (H m) \<le> B) \<Longrightarrow> length (hmac_key H B k) = B"
  by (simp add: hmac_key_def Let_def)

lemma hmac_key_memcpy:
  "memcpy_at (replicate B 0) 0 (if B < length k then H k else k) = hmac_key H B k"
  by (simp add: hmac_key_def Let_def)

locale hmac_stream = streaming_hash repr init update digest H
  for repr :: "'ctx \<Rightarrow> bytes \<Rightarrow> bool" and init :: 'ctx and update :: "'ctx \<Rightarrow> bytes \<Rightarrow> 'ctx"
    and digest :: "'ctx \<Rightarrow> bytes" and H :: "bytes \<Rightarrow> bytes" +
  fixes B :: nat
    and hinit :: "bytes \<Rightarrow> 'ctx hmac_ctx"
    and hupdate :: "'ctx hmac_ctx \<Rightarrow> bytes \<Rightarrow> 'ctx hmac_ctx"
    and hfinal :: "'ctx hmac_ctx \<Rightarrow> bytes"
  assumes hinit_eq: "hinit k =
      (let pad = memcpy_at (replicate B 0) 0 (if B < length k then H k else k)
       in \<lparr>o_key_pad = map (\<lambda>b. b XOR 0x5c) pad, ctx = update init (map (\<lambda>b. b XOR 0x36) pad)\<rparr>)"
    and hupdate_eq: "hupdate c d = c\<lparr>ctx := update (ctx c) d\<rparr>"
    and hfinal_eq: "hfinal c = digest (update (update init (o_key_pad c)) (digest (ctx c)))"
begin

lemma hinit_state:
  "hinit k = \<lparr>o_key_pad = xor_byte 0x5c (hmac_key H B k), ctx = update init (xor_byte 0x36 (hmac_key H B k))\<rparr>"
  by (simp only: hinit_eq hmac_key_memcpy Let_def xor_byte_def)

lemma hupdates:
  "foldl hupdate c ds = c\<lparr>ctx := foldl update (ctx c) ds\<rparr>"
  by (induction ds arbitrary: c) (simp_all add: hupdate_eq)

text \<open>The context of a keyed hash in progress, as the MicroPython object holds it.\<close>

lemma hmac_updates: "hfinal (foldl hupdate (hinit k) ds) = HMAC H B k (concat ds)"
proof -
  have "digest (foldl update init (xor_byte 0x36 (hmac_key H B k) # ds)) =
        H (concat (xor_byte 0x36 (hmac_key H B k) # ds))"
    by (rule digest_updates)
  then show ?thesis
    by (simp add: hupdates hfinal_eq hinit_state HMAC_def digest_twice)
qed

lemma hmac_once: "hfinal (hupdate (hinit k) m) = HMAC H B k m"
  using hmac_updates [of k "[m]"] by simp

end

interpretation h256: hmac_stream repr256 sha256_Init sha256_Update "\<lambda>c. fst (sha256_Final c)" SHA256
  64 hmac_sha256_Init hmac_sha256_Update "\<lambda>c. fst (hmac_sha256_Final c)"
  by unfold_locales
    (simp_all add: hmac_sha256_Init_def hmac_sha256_Update_def hmac_sha256_Final_def Let_def
      sha256_Raw_SHA256 split_beta del: memcpy_at_0)

interpretation h512: hmac_stream repr512 sha512_Init sha512_Update "\<lambda>c. fst (sha512_Final c)" SHA512
  128 hmac_sha512_Init hmac_sha512_Update "\<lambda>c. fst (hmac_sha512_Final c)"
  by unfold_locales
    (simp_all add: hmac_sha512_Init_def hmac_sha512_Update_def hmac_sha512_Final_def Let_def
      sha512_Raw_SHA512 split_beta del: memcpy_at_0)

section \<open>The prepared chaining values\<close>

lemma word_le_xor:
  "word_le (map (\<lambda>b. b XOR c) bs) = (word_le bs XOR word_le (replicate (length bs) c) :: 'a::len word)"
  by (rule bit_word_eqI) (auto simp: bit_word_le bit_simps)

lemma be_words_xor:
  assumes "0 < n" and "n dvd length bs"
  shows "be_words n (xor_byte c bs) = map (\<lambda>w. w XOR (word_be (replicate n c) :: 'a::len word)) (be_words n bs)"
proof -
  have "chunks n (map f xs) = map (map f) (chunks n xs)" for f :: "u8 \<Rightarrow> u8" and xs
    by (induction n xs rule: chunks.induct) (subst (1 2) chunks.simps, auto simp: take_map drop_map)
  moreover have "word_be (map (\<lambda>b. b XOR c) b) = (word_be b XOR word_be (replicate n c) :: 'a word)"
    if "b \<in> set (chunks n bs)" for b
    using chunks_all_length [OF assms that] by (simp add: word_be_def rev_map word_le_xor)
  ultimately show ?thesis by (simp add: be_words_def xor_byte_def)
qed

lemma hmac_sha256_prepare_states:
  "hmac_sha256_prepare k =
     (sha256_Transform sha256_initial_hash_value (be_words 4 (xor_byte 0x5c (hmac_key SHA256 64 k))),
      sha256_Transform sha256_initial_hash_value (be_words 4 (xor_byte 0x36 (hmac_key SHA256 64 k))))"
proof -
  let ?K = "hmac_key SHA256 64 k"
  have sw: "map REVERSE32 (words_of_bytes 4 ?K) = be_words 4 ?K"
    by (rule map_swap_words) (simp_all add: REVERSE32_swap)
  have "map (\<lambda>w. REVERSE32 w XOR c) (words_of_bytes 4 ?K) = map (\<lambda>w. w XOR c) (be_words 4 ?K)" for c
    by (simp add: sw [symmetric])
  moreover have "word_be (replicate 4 0x5c) = (0x5c5c5c5c :: u32)" "word_be (replicate 4 0x36) = (0x36363636 :: u32)"
    by code_simp+
  ultimately show ?thesis
    unfolding hmac_sha256_prepare_def s256.digest_once Let_def hmac_key_memcpy
    by (simp add: be_words_xor comp_def xor.assoc)
qed

lemma hmac_sha512_prepare_states:
  "hmac_sha512_prepare k =
     (sha512_Transform sha512_initial_hash_value (be_words 8 (xor_byte 0x5c (hmac_key SHA512 128 k))),
      sha512_Transform sha512_initial_hash_value (be_words 8 (xor_byte 0x36 (hmac_key SHA512 128 k))))"
proof -
  let ?K = "hmac_key SHA512 128 k"
  have sw: "map REVERSE64 (words_of_bytes 8 ?K) = be_words 8 ?K"
    by (rule map_swap_words) (simp_all add: REVERSE64_swap)
  have "map (\<lambda>w. REVERSE64 w XOR c) (words_of_bytes 8 ?K) = map (\<lambda>w. w XOR c) (be_words 8 ?K)" for c
    by (simp add: sw [symmetric])
  moreover have "word_be (replicate 8 0x5c) = (0x5c5c5c5c5c5c5c5c :: u64)" "word_be (replicate 8 0x36) = (0x3636363636363636 :: u64)"
    by code_simp+
  ultimately show ?thesis
    unfolding hmac_sha512_prepare_def s512.digest_once Let_def hmac_key_memcpy
    by (simp add: be_words_xor comp_def xor.assoc)
qed

section \<open>Properties\<close>

text \<open>C25: \<^verbatim>\<open>hmac_sha256_Init\<close>, any calls of \<^verbatim>\<open>hmac_sha256_Update\<close> and \<^verbatim>\<open>hmac_sha256_Final\<close> compute
  the HMAC of FIPS 198-1 over SHA-256, keys longer than a block included, and wipe the
  context.\<close>

theorem hmac_sha256_streaming:
  "hmac_sha256_Final (foldl hmac_sha256_Update (hmac_sha256_Init key) ds) =
     (HMAC SHA256 64 key (concat ds), hmac_sha256_zero)"
  using h256.hmac_updates [of key ds] by (simp add: hmac_sha256_Final_def Let_def split_beta)

text \<open>C17: the same for HMAC-SHA-512, the pseudo-random function of the BIP-39 seed derivation.\<close>

theorem hmac_sha512_streaming:
  "hmac_sha512_Final (foldl hmac_sha512_Update (hmac_sha512_Init key) ds) =
     (HMAC SHA512 128 key (concat ds), hmac_sha512_zero)"
  using h512.hmac_updates [of key ds] by (simp add: hmac_sha512_Final_def Let_def split_beta)

end
