(* ===== verification/Pbkdf2_Correct.thy ===== *)
theory Pbkdf2_Correct
  imports Pbkdf2
begin

unbundle bit_operations_syntax

text \<open>
  The optimised loop of \<^verbatim>\<open>pbkdf2.c\<close> computes PBKDF2 over HMAC. A hash of one key block and a
  digest is two compressions with a constant padding (\<open>digest_two_blocks\<close>), so that one HMAC
  of a digest is two compressions from the prepared chaining values; the locale
  \<open>pbkdf2_code\<close> carries this through the iterations and the output blocks.
\<close>

section \<open>Hashing from a prepared chaining value\<close>

abbreviation words_be :: "nat \<Rightarrow> 'w::len word list \<Rightarrow> bytes" where
  "words_be wb ws \<equiv> concat (map (bytes_be wb) ws)"

context md_context
begin

lemma repr_prepared:
  assumes "length K = 16 * wb" and "length stack = 16"
  shows "md_repr wb tr iv cnt \<lparr>state = tr iv (be_words wb K), bitcount = cnt (16 * wb), buffer = stack\<rparr> K"
proof -
  have "full_part (16 * wb) K = K" "tail_part (16 * wb) K = []"
    using full_tail_unique [of K K "[]" "16 * wb"] assms by simp_all
  then show ?thesis using assms by (simp add: md_repr_def md_fold_block)
qed

lemma digest_two_blocks:
  assumes K: "length K = 16 * wb" and d: "length d = 8 * wb"
  shows "md_digest wb tr iv lenf (K @ d) =
    words_be wb (tr (tr iv (be_words wb K))
      (be_words wb d @ be_words wb (0x80 # replicate (6 * wb - 1) 0 @ lenf (24 * wb))))"
proof -
  let ?B = "16 * wb" and ?t = "0x80 # replicate (6 * wb - 1) 0 @ lenf (24 * wb)"
  have lf: "length (lenf (24 * wb)) = 2 * wb"
    using length_field [of "24 * wb", symmetric] by simp
  have "(24 * wb + 1 + 2 * wb) mod ?B = 10 * wb + 1"
    using mod_less [of "10 * wb + 1" ?B] mod_add_self2 [of "10 * wb + 1" ?B] wb_pos
    by (simp del: wb_pos mod_less)
  then have "md_pad ?B (lenf (24 * wb)) (K @ d) = K @ (d @ ?t)"
    using K d lf wb_pos by (simp add: md_pad_def del: wb_pos)
  moreover have "length (d @ ?t) = ?B" using d lf wb_pos by (simp del: wb_pos)
  moreover have "tr s (be_words wb (d @ ?t)) = tr s (be_words wb d @ be_words wb ?t)" for s
    using d by (simp only: be_words_append dvd_triv_right)
  moreover have "length (K @ d) = 24 * wb" using K d by simp
  ultimately show ?thesis
    using K wb_pos unfolding md_digest_def
    by (simp only: md_fold_append md_fold_block dvd_refl zero_less_mult_iff zero_less_numeral)
qed

end

section \<open>The block loop\<close>

lemma words_be_xor:
  "words_be n (map2 (XOR) a b) = xor_bytes (words_be n a) (words_be n b)"
proof (induction a b rule: list_induct2')
  case (4 x xs y ys)
  have "bytes_be n (x XOR y) = xor_bytes (bytes_be n x) (bytes_be n y)"
    by (auto simp: bytes_be_def bytes_le_def xor_bytes_def rev_map [symmetric] zip_rev zip_map_map
        zip_same_conv_map comp_def intro!: bit_word_eqI simp: bit_simps)
  with 4 show ?case by (simp add: xor_bytes_def)
qed (simp_all add: xor_bytes_def)

locale pbkdf2_code =
  fixes wb :: nat
    and prfn :: "bytes \<Rightarrow> bytes \<Rightarrow> bytes"
    and tr :: "'w::len word list \<Rightarrow> 'w word list \<Rightarrow> 'w word list"
    and tailw :: "'w word list"
    and prep :: "bytes \<Rightarrow> 'w word list \<times> 'w word list"
    and pinit :: "'w word list \<Rightarrow> bytes \<Rightarrow> bytes \<Rightarrow> u32 \<Rightarrow> 'w word pbkdf2_ctx"
    and pstep :: "'w word pbkdf2_ctx \<Rightarrow> 'w word pbkdf2_ctx"
    and pupdate :: "'w word pbkdf2_ctx \<Rightarrow> u32 \<Rightarrow> 'w word pbkdf2_ctx"
    and pfinal :: "'w word pbkdf2_ctx \<Rightarrow> bytes"
    and pkey :: "'w word list \<Rightarrow> bytes \<Rightarrow> bytes \<Rightarrow> u32 \<Rightarrow> bytes \<Rightarrow> bytes"
  assumes width: "8 * wb = LENGTH('w)"
    and length_tr: "length (tr s M) = 8"
    and length_prf: "length (prfn P m) = 8 * wb"
    and prf_block: "length gw = 8 \<Longrightarrow>
      words_be wb (tr (fst (prep P)) (tr (snd (prep P)) (gw @ tailw) @ tailw)) = prfn P (words_be wb gw)"
    and pinit_eq: "length stack = 16 \<Longrightarrow> pinit stack P S i =
      (let u = be_words wb (prfn P (S @ bytes_be 4 i))
       in \<lparr>odig = fst (prep P), idig = snd (prep P), f = u, g = u @ tailw, first = 1\<rparr>)"
    and pstep_eq: "pstep c =
      (let g1 = memcpy_at (g c) 0 (tr (idig c) (g c)); g2 = memcpy_at g1 0 (tr (odig c) g1)
       in c\<lparr>g := g2, f := map2 (XOR) (f c) (take 8 g2)\<rparr>)"
    and pupdate_eq: "pupdate c n = (fold (\<lambda>i. pstep) [unat (first c)..<unat n] c)\<lparr>first := 0\<rparr>"
    and pfinal_eq: "pfinal c = words_be wb (f c)"
    and pkey_eq: "pkey stack P S n key =
      (let last = length key mod (8 * wb); blocks = length key div (8 * wb);
           (blocks, last) = (if last \<noteq> 0 then (blocks + 1, last) else (blocks, 8 * wb))
       in fold (\<lambda>i key. let d = pfinal (pupdate (pinit stack P S (of_nat i)) n); off = (i - 1) * (8 * wb)
                 in if i < blocks then memcpy_at key off d else memcpy_at key off (take last d))
            [1..<blocks + 1] key)"
begin

lemma wb_pos [simp]: "0 < wb"
  using width by (cases wb) auto

lemma words_be_be_words:
  "length bs = 8 * wb \<Longrightarrow> words_be wb (be_words wb bs :: 'w word list) = bs"
proof -
  assume bs: "length bs = 8 * wb"
  have "length b = wb" if "b \<in> set (chunks wb bs)" for b
    using chunks_all_length [OF wb_pos _ that] by (simp add: bs)
  then have "bytes_be wb (word_be b :: 'w word) = b" if "b \<in> set (chunks wb bs)" for b
    using that width by (intro bytes_be_word_be) simp_all
  then have "map (bytes_be wb \<circ> (word_be :: bytes \<Rightarrow> 'w word)) (chunks wb bs) = map id (chunks wb bs)"
    by (intro map_cong refl) simp
  then show ?thesis by (simp add: be_words_def)
qed

lemma length_be_words_8 [simp]: "length bs = 8 * wb \<Longrightarrow> length (be_words wb bs :: 'w word list) = 8"
  by (simp add: length_be_words)

text \<open>After \<open>k\<close> iterations the block holds the iterate \<open>U k\<close> and \<open>f\<close> the exclusive or so far.\<close>

lemma length_U: "length (pbkdf2_U (prfn P) S i k) = 8 * wb"
  by (cases k) (simp_all add: length_prf)

lemma iterations:
  assumes "length stack = 16"
  shows "1 \<le> n \<Longrightarrow> fold (\<lambda>i. pstep) [1..<n] (pinit stack P S i) =
     \<lparr>odig = fst (prep P), idig = snd (prep P), f = be_words wb (pbkdf2_F (prfn P) S n i),
      g = be_words wb (pbkdf2_U (prfn P) S i (n - 1)) @ tailw, first = 1\<rparr> \<and>
      length (pbkdf2_F (prfn P) S n i) = 8 * wb"
proof (induction n rule: dec_induct)
  case base
  then show ?case using assms by (simp add: pinit_eq Let_def pbkdf2_F_def length_prf)
next
  case (step n)
  let ?U = "pbkdf2_U (prfn P) S i" and ?F = "pbkdf2_F (prfn P) S n i"
  let ?u = "be_words wb (?U (n - 1)) :: 'w word list"
  let ?v = "tr (fst (prep P)) (tr (snd (prep P)) (?u @ tailw) @ tailw)"
  have un: "?U n = prfn P (?U (n - 1))" using step.hyps(1) by (cases n) simp_all
  have lf: "length ?F = 8 * wb" using step.IH by simp
  have "words_be wb ?v = ?U n"
    using prf_block [of ?u P] by (simp add: length_U words_be_be_words un)
  then have v: "?v = be_words wb (?U n)" by (metis be_words_concat width)
  have F: "pbkdf2_F (prfn P) S (Suc n) i = xor_bytes ?F (?U n)"
    using step.hyps(1) by (simp add: pbkdf2_F_def)
  have lF: "length (xor_bytes ?F (?U n)) = 8 * wb"
    using lf by (simp add: xor_bytes_def length_U)
  have "words_be wb (map2 (XOR) (be_words wb ?F) (be_words wb (?U n) :: 'w word list)) = xor_bytes ?F (?U n)"
    by (simp only: words_be_xor words_be_be_words lf length_U)
  then have fx: "map2 (XOR) (be_words wb ?F) (be_words wb (?U n) :: 'w word list) = be_words wb (xor_bytes ?F (?U n))"
    by (metis be_words_concat width)
  show ?case using step.IH step.hyps(1) lF
    by (simp add: pstep_eq Let_def length_tr length_U v F fx del: One_nat_def)
qed

lemma block:
  assumes "length stack = 16"
  shows "pfinal (pupdate (pinit stack P S i) n) = pbkdf2_F (prfn P) S (unat n) i"
    and "length (pbkdf2_F (prfn P) S (unat n) i) = 8 * wb"
proof -
  define m where "m = max 1 (unat n)"
  have F: "pbkdf2_F (prfn P) S (unat n) i = pbkdf2_F (prfn P) S m i"
    by (cases "unat n") (simp_all add: m_def pbkdf2_F_def max_def)
  have "first (pinit stack P S i) = 1" using assms by (simp add: pinit_eq Let_def)
  moreover have "[1..<unat n] = [1..<m]" by (cases "unat n") (simp_all add: m_def max_def)
  ultimately show "pfinal (pupdate (pinit stack P S i) n) = pbkdf2_F (prfn P) S (unat n) i"
    using iterations [OF assms, of m P S i]
    by (simp add: pupdate_eq pfinal_eq F words_be_be_words m_def)
  show "length (pbkdf2_F (prfn P) S (unat n) i) = 8 * wb"
    using iterations [OF assms, of m P S i] by (simp add: F m_def)
qed

text \<open>The blocks are written one after the other; the last is cut to the rest of the key.\<close>

lemma key_blocks:
  assumes "length stack = 16" and n: "k * (8 * wb) \<le> length key"
  shows "fold (\<lambda>i key. memcpy_at key ((i - 1) * (8 * wb)) (pfinal (pupdate (pinit stack P S (of_nat i)) n))) [1..<k + 1] key =
    concat (map (\<lambda>i. pbkdf2_F (prfn P) S (unat n) (of_nat i)) [1..<k + 1]) @ drop (k * (8 * wb)) key \<and>
    length (concat (map (\<lambda>i. pbkdf2_F (prfn P) S (unat n) (of_nat i)) [1..<k + 1])) = k * (8 * wb)"
  using n
proof (induction k)
  case (Suc k)
  then have le: "k * (8 * wb) \<le> length key" by simp
  let ?C = "concat (map (\<lambda>i. pbkdf2_F (prfn P) S (unat n) (of_nat i)) [1..<k + 1])"
  have l: "length ?C = k * (8 * wb)" using Suc.IH [OF le] by simp
  have "8 * wb + k * (8 * wb) = Suc k * (8 * wb)" by simp
  with Suc.IH [OF le] l show ?case
    by (simp add: block [OF assms(1)] memcpy_at_def del: upt_Suc add: upt_Suc_append)
qed simp

lemma pkey_PBKDF2:
  assumes s: "length stack = 16"
  shows "pkey stack P S n key = PBKDF2 (prfn P) (8 * wb) S (unat n) (length key)"
proof -
  define h where "h = 8 * wb"
  define k where "k = length key div h"
  define r where "r = length key mod h"
  define F where "F i = pbkdf2_F (prfn P) S (unat n) (of_nat i)" for i
  define d where "d i = pfinal (pupdate (pinit stack P S (of_nat i)) n)" for i
  define C where "C = concat (map F [1..<k + 1])"
  let ?w = "\<lambda>i key. memcpy_at key ((i - 1) * h) (d i)"
  have h: "0 < h" by (simp add: h_def)
  have L: "length key = k * h + r" by (simp add: k_def r_def)
  have d: "d i = F i" "length (F i) = h" for i by (simp_all add: d_def F_def h_def block [OF s])
  have full: "fold ?w [1..<k + 1] key = C @ drop (k * h) key" and lC: "length C = k * h"
    using key_blocks [OF s, of k key P S n] L unfolding C_def F_def d_def h_def by simp_all
  have code: "pkey stack P S n key =
      (let (b, l) = (if r \<noteq> 0 then (k + 1, r) else (k, h))
       in fold (\<lambda>i key. if i < b then memcpy_at key ((i - 1) * h) (d i)
             else memcpy_at key ((i - 1) * h) (take l (d i))) [1..<b + 1] key)"
    unfolding pkey_eq Let_def d_def h_def k_def r_def ..
  show ?thesis
  proof (cases "r = 0")
    case True
    have "length key + h - 1 = k * h + (h - 1)" using L True h by linarith
    then have c: "(length key + h - 1) div h = k" using h by (simp only: div_mult_self3) simp
    have "pkey stack P S n key = fold ?w [1..<k + 1] key"
      unfolding code using True by (simp add: d cong: if_cong del: upt_Suc)
    then show ?thesis using full lC L True
      unfolding PBKDF2_def h_def [symmetric] c C_def F_def [abs_def] by simp
  next
    case False
    have "length key + h - 1 = (k + 1) * h + (r - 1)" using L False h by simp
    moreover have "r - 1 < h" using h by (simp add: r_def less_imp_diff_less)
    ultimately have c: "(length key + h - 1) div h = k + 1" by (simp only: div_mult_self3) simp
    have "pkey stack P S n key = memcpy_at (fold ?w [1..<k + 1] key) (k * h) (take r (F (k + 1)))"
      unfolding code using False
      by (auto simp: d intro!: fold_cong arg_cong [where f = "\<lambda>x. memcpy_at x _ _"])
    also have "\<dots> = C @ take r (F (k + 1))"
      unfolding full using lC L h by (simp add: memcpy_at_def d r_def)
    also have "\<dots> = take (length key) (C @ F (k + 1))" using lC L by simp
    finally show ?thesis
      unfolding PBKDF2_def h_def [symmetric] c C_def F_def [abs_def] by simp
  qed
qed

end

section \<open>The two instances\<close>

text \<open>Writing a digest over the first half of the block and swapping its words.\<close>

lemma digest_into_block:
  fixes rv :: "'a::len word \<Rightarrow> 'a word"
  assumes n: "8 * n = LENGTH('a)" and h: "length h = 8 * n" and z: "length z = 8"
    and rv: "\<And>w. rv w = word_be (bytes_le n w)"
    and ws: "ws = words_of_bytes n (memcpy_at (bytes_of_words n (z @ t)) 0 h)"
  shows "map rv (take 8 ws) @ drop 8 ws = be_words n h @ (t :: 'a word list)"
proof -
  have n0: "0 < n" using n by (cases n) auto
  have "memcpy_at (bytes_of_words n (z @ t)) 0 h = h @ bytes_of_words n t"
    using h z length_bytes_of_words [of n z] by (simp add: bytes_of_words_def del: length_bytes_of_words)
  then have "ws = words_of_bytes n h @ t"
    using words_of_bytes_of_words [OF n, of t] h
    by (simp add: ws words_of_bytes_def chunks_append)
  moreover have "length (words_of_bytes n h :: 'a word list) = 8"
    using h n0 by (simp add: length_words_of_bytes)
  moreover have "map rv (words_of_bytes n h) = be_words n h"
    by (rule map_swap_words [OF n _ rv]) (simp add: h)
  ultimately show ?thesis by simp
qed

lemma tail256: "be_words 4 (0x80 # replicate (6 * 4 - 1) 0 @ len64 (24 * 4)) = [0x80000000, 0, 0, 0, 0, 0, 0, 768 :: u32]"
  by code_simp

lemma SHA256_two_blocks:
  assumes "length K = 64" and "length d = 32"
  shows "SHA256 (K @ d) = words_be 4 (sha256_Transform (sha256_Transform sha256_initial_hash_value (be_words 4 K))
           (be_words 4 d @ [0x80000000, 0, 0, 0, 0, 0, 0, 768]))"
proof -
  have "SHA256 (K @ d) = md_digest 4 sha256_Transform sha256_initial_hash_value len64 (K @ d)"
    unfolding SHA256_def by (rule md_digest_cong) (simp_all add: sha256_Transform_compress)
  also have "\<dots> = words_be 4 (sha256_Transform (sha256_Transform sha256_initial_hash_value (be_words 4 K))
      (be_words 4 d @ be_words 4 (0x80 # replicate (6 * 4 - 1) 0 @ len64 (24 * 4))))"
    by (rule c256.digest_two_blocks) (use assms in simp_all)
  finally show ?thesis unfolding tail256 .
qed

lemma hmac_sha256_block:
  assumes "length gw = 8"
  shows "words_be 4 (sha256_Transform (fst (hmac_sha256_prepare P))
      (sha256_Transform (snd (hmac_sha256_prepare P)) (gw @ [0x80000000, 0, 0, 0, 0, 0, 0, 768])
       @ [0x80000000, 0, 0, 0, 0, 0, 0, 768])) = HMAC SHA256 64 P (words_be 4 gw)"
  using assms unfolding HMAC_def
  by (simp add: SHA256_two_blocks hmac_sha256_prepare_states be_words_concat)

lemma pbkdf2_hmac_sha256_Init_first:
  assumes "length stack = 16"
  shows "pbkdf2_hmac_sha256_Init stack P S i =
    (let u = be_words 4 (HMAC SHA256 64 P (S @ bytes_be 4 i))
     in \<lparr>odig = fst (hmac_sha256_prepare P), idig = snd (hmac_sha256_prepare P), f = u,
         g = u @ [0x80000000, 0, 0, 0, 0, 0, 0, 768], first = 1\<rparr>)"
proof -
  let ?K = "hmac_key SHA256 64 P" and ?t = "[0x80000000, 0, 0, 0, 0, 0, 0, 768] :: u32 list"
  let ?m = "S @ bytes_be 4 i" and ?c = "\<lparr>state = snd (hmac_sha256_prepare P), bitcount = 512, buffer = stack\<rparr>"
  define h where "h = SHA256 (xor_byte 0x36 ?K @ ?m)"
  have bl: "bytes_le 4 (REVERSE32 i) = bytes_be 4 i"
    by (simp add: REVERSE32_swap word_be_def bytes_be_def bytes_le_word_le)
  have "repr256 ?c (xor_byte 0x36 ?K)"
    using c256.repr_prepared [of "xor_byte 0x36 ?K" stack] assms
    by (simp add: hmac_sha256_prepare_states bits64_def)
  from s256.repr_update [OF s256.repr_update [OF this, of S], of "bytes_be 4 i"]
  have fin: "fst (sha256_Final (sha256_Update (sha256_Update ?c S) (bytes_be 4 i))) = h"
    by (simp add: s256.digest_repr h_def)
  have lh: "length h = 32" by (simp add: h_def)
  have g0: "(replicate 16 0)[8 := 0x80000000, 15 := 768] = replicate 8 0 @ ?t"
    by code_simp
  have nums: "of_nat ((64 + 32) * 8) = (768 :: u32)" "of_nat (64 * 8) = (512 :: u64)" by simp_all
  have blk: "map REVERSE32 (take 8 ws) @ drop 8 ws = be_words 4 h @ ?t"
    if "ws = words_of_bytes 4 (memcpy_at (bytes_of_words 4 (replicate 8 0 @ ?t)) 0 h)" for ws
    by (rule digest_into_block [OF _ _ _ _ that]) (simp_all add: lh REVERSE32_swap)
  have "words_be 4 (sha256_Transform (fst (hmac_sha256_prepare P)) (be_words 4 h @ ?t)) = HMAC SHA256 64 P ?m"
    using lh unfolding HMAC_def h_def [symmetric] by (simp add: SHA256_two_blocks hmac_sha256_prepare_states)
  then have u: "sha256_Transform (fst (hmac_sha256_prepare P)) (be_words 4 h @ ?t) = be_words 4 (HMAC SHA256 64 P ?m)"
    by (subst be_words_concat [of 4, where 'a = 32, symmetric]) simp_all
  show ?thesis
    unfolding pbkdf2_hmac_sha256_Init_def Let_def split_beta bl nums fin g0 blk [OF refl]
    by (simp add: u [symmetric] memcpy_at_def length_be_words lh)
qed

lemma tail512: "be_words 8 (0x80 # replicate (6 * 8 - 1) 0 @ len128 (24 * 8)) = [0x8000000000000000, 0, 0, 0, 0, 0, 0, 1536 :: u64]"
  by code_simp

lemma SHA512_two_blocks:
  assumes "length K = 128" and "length d = 64"
  shows "SHA512 (K @ d) = words_be 8 (sha512_Transform (sha512_Transform sha512_initial_hash_value (be_words 8 K))
           (be_words 8 d @ [0x8000000000000000, 0, 0, 0, 0, 0, 0, 1536]))"
proof -
  have "SHA512 (K @ d) = md_digest 8 sha512_Transform sha512_initial_hash_value len128 (K @ d)"
    unfolding SHA512_def by (rule md_digest_cong) (simp_all add: sha512_Transform_compress)
  also have "\<dots> = words_be 8 (sha512_Transform (sha512_Transform sha512_initial_hash_value (be_words 8 K))
      (be_words 8 d @ be_words 8 (0x80 # replicate (6 * 8 - 1) 0 @ len128 (24 * 8))))"
    by (rule c512.digest_two_blocks) (use assms in simp_all)
  finally show ?thesis unfolding tail512 .
qed

lemma hmac_sha512_block:
  assumes "length gw = 8"
  shows "words_be 8 (sha512_Transform (fst (hmac_sha512_prepare P))
      (sha512_Transform (snd (hmac_sha512_prepare P)) (gw @ [0x8000000000000000, 0, 0, 0, 0, 0, 0, 1536])
       @ [0x8000000000000000, 0, 0, 0, 0, 0, 0, 1536])) = HMAC SHA512 128 P (words_be 8 gw)"
  using assms unfolding HMAC_def
  by (simp add: SHA512_two_blocks hmac_sha512_prepare_states be_words_concat)

lemma pbkdf2_hmac_sha512_Init_first:
  assumes "length stack = 16"
  shows "pbkdf2_hmac_sha512_Init stack P S i =
    (let u = be_words 8 (HMAC SHA512 128 P (S @ bytes_be 4 i))
     in \<lparr>odig = fst (hmac_sha512_prepare P), idig = snd (hmac_sha512_prepare P), f = u,
         g = u @ [0x8000000000000000, 0, 0, 0, 0, 0, 0, 1536], first = 1\<rparr>)"
proof -
  let ?K = "hmac_key SHA512 128 P" and ?t = "[0x8000000000000000, 0, 0, 0, 0, 0, 0, 1536] :: u64 list"
  let ?m = "S @ bytes_be 4 i" and ?c = "\<lparr>state = snd (hmac_sha512_prepare P), bitcount = [1024, 0], buffer = stack\<rparr>"
  define h where "h = SHA512 (xor_byte 0x36 ?K @ ?m)"
  have bl: "bytes_le 4 (REVERSE32 i) = bytes_be 4 i"
    by (simp add: REVERSE32_swap word_be_def bytes_be_def bytes_le_word_le)
  have "repr512 ?c (xor_byte 0x36 ?K)"
    using c512.repr_prepared [of "xor_byte 0x36 ?K" stack] assms
    by (simp add: hmac_sha512_prepare_states bits128_def)
  from s512.repr_update [OF s512.repr_update [OF this, of S], of "bytes_be 4 i"]
  have fin: "fst (sha512_Final (sha512_Update (sha512_Update ?c S) (bytes_be 4 i))) = h"
    by (simp add: s512.digest_repr h_def)
  have lh: "length h = 64" by (simp add: h_def)
  have g0: "(replicate 16 0)[8 := 0x8000000000000000, 15 := 1536] = replicate 8 0 @ ?t"
    by code_simp
  have nums: "of_nat ((128 + 64) * 8) = (1536 :: u64)" "of_nat (128 * 8) = (1024 :: u64)" by simp_all
  have blk: "map REVERSE64 (take 8 ws) @ drop 8 ws = be_words 8 h @ ?t"
    if "ws = words_of_bytes 8 (memcpy_at (bytes_of_words 8 (replicate 8 0 @ ?t)) 0 h)" for ws
    by (rule digest_into_block [OF _ _ _ _ that]) (simp_all add: lh REVERSE64_swap)
  have "words_be 8 (sha512_Transform (fst (hmac_sha512_prepare P)) (be_words 8 h @ ?t)) = HMAC SHA512 128 P ?m"
    using lh unfolding HMAC_def h_def [symmetric] by (simp add: SHA512_two_blocks hmac_sha512_prepare_states)
  then have u: "sha512_Transform (fst (hmac_sha512_prepare P)) (be_words 8 h @ ?t) = be_words 8 (HMAC SHA512 128 P ?m)"
    by (subst be_words_concat [of 8, where 'a = 64, symmetric]) simp_all
  show ?thesis
    unfolding pbkdf2_hmac_sha512_Init_def Let_def split_beta bl nums fin g0 blk [OF refl]
    by (simp add: u [symmetric] memcpy_at_def length_be_words lh)
qed

interpretation p256: pbkdf2_code 4 "HMAC SHA256 64" sha256_Transform "[0x80000000, 0, 0, 0, 0, 0, 0, 768]"
  hmac_sha256_prepare pbkdf2_hmac_sha256_Init pbkdf2_hmac_sha256_step pbkdf2_hmac_sha256_Update
  pbkdf2_hmac_sha256_Final pbkdf2_hmac_sha256
proof (unfold_locales, goal_cases)
  case (4 gw P)
  then show ?case by (rule hmac_sha256_block)
next
  case (5 stack P S i)
  then show ?case by (rule pbkdf2_hmac_sha256_Init_first)
next
  case (6 c)
  show ?case by (simp add: pbkdf2_hmac_sha256_step_def Let_def)
next
  case (8 c)
  show ?case
    by (simp add: pbkdf2_hmac_sha256_Final_def bytes_of_swapped_words REVERSE32_swap)
next
  case (9 stack P S n key)
  show ?case by (simp add: pbkdf2_hmac_sha256_def Let_def del: upt_Suc)
qed (simp_all add: HMAC_def pbkdf2_hmac_sha256_Update_def)

interpretation p512: pbkdf2_code 8 "HMAC SHA512 128" sha512_Transform "[0x8000000000000000, 0, 0, 0, 0, 0, 0, 1536]"
  hmac_sha512_prepare pbkdf2_hmac_sha512_Init pbkdf2_hmac_sha512_step pbkdf2_hmac_sha512_Update
  pbkdf2_hmac_sha512_Final pbkdf2_hmac_sha512
proof (unfold_locales, goal_cases)
  case (4 gw P)
  then show ?case by (rule hmac_sha512_block)
next
  case (5 stack P S i)
  then show ?case by (rule pbkdf2_hmac_sha512_Init_first)
next
  case (6 c)
  show ?case by (simp add: pbkdf2_hmac_sha512_step_def Let_def)
next
  case (8 c)
  show ?case
    by (simp add: pbkdf2_hmac_sha512_Final_def bytes_of_swapped_words REVERSE64_swap)
next
  case (9 stack P S n key)
  show ?case by (simp add: pbkdf2_hmac_sha512_def Let_def del: upt_Suc)
qed (simp_all add: HMAC_def pbkdf2_hmac_sha512_Update_def)

section \<open>Properties\<close>

text \<open>C4: \<^verbatim>\<open>pbkdf2_hmac_sha512\<close> fills the key buffer with PBKDF2 (RFC 8018) over HMAC-SHA-512, for
  every password, salt, iteration count and key length, whatever the uninitialised stack
  held; a count of 0 gives the result of 1.\<close>

theorem pbkdf2_hmac_sha512_correct:
  assumes "length stack = 16"
  shows "pbkdf2_hmac_sha512 stack pass salt iterations key =
         PBKDF2 (HMAC SHA512 128 pass) 64 salt (unat iterations) (length key)"
  using p512.pkey_PBKDF2 [OF assms] by simp

theorem pbkdf2_hmac_sha512_correct_witness:
  "pbkdf2_hmac_sha512 (replicate 16 7) [112, 97] [115] 2048 (replicate 64 0) =
   PBKDF2 (HMAC SHA512 128 [112, 97]) 64 [115] (unat (2048 :: u32)) 64"
  using pbkdf2_hmac_sha512_correct [of "replicate 16 7" "[112, 97]" "[115]" 2048 "replicate 64 0"] by simp

text \<open>C22: the same for \<^verbatim>\<open>pbkdf2_hmac_sha256\<close>.\<close>

theorem pbkdf2_hmac_sha256_correct:
  assumes "length stack = 16"
  shows "pbkdf2_hmac_sha256 stack pass salt iterations key =
         PBKDF2 (HMAC SHA256 64 pass) 32 salt (unat iterations) (length key)"
  using p256.pkey_PBKDF2 [OF assms] by simp

theorem pbkdf2_hmac_sha256_correct_witness:
  "pbkdf2_hmac_sha256 (replicate 16 7) [112, 97] [115] 100000 (replicate 32 0) =
   PBKDF2 (HMAC SHA256 64 [112, 97]) 32 [115] (unat (100000 :: u32)) 32"
  using pbkdf2_hmac_sha256_correct [of "replicate 16 7" "[112, 97]" "[115]" 100000 "replicate 32 0"] by simp

end
