(* ===== verification/Ripemd160.thy ===== *)
theory Ripemd160
  imports Hash_Stream
begin

unbundle bit_operations_syntax

text \<open>
  \<^verbatim>\<open>uhashlib/crypto/ripemd160.c\<close>. The five registers of a line are a list; a row of the code,
  \<^verbatim>\<open>P2( E, A, B, C, D, r, s, rp, sp )\<close>, names its first register (0 for \<^verbatim>\<open>A\<close> to 4 for \<^verbatim>\<open>E\<close>; the
  others follow cyclically), the two message words and the two shifts, and changes the first
  and the third register in place. The reference definition is that of the designers: the
  registers move, the message words are permuted by the powers of \<open>rmd_rho\<close>, the shift
  depends on the round and the message word.
\<close>

section \<open>The code\<close>

record ripemd160_ctx =
  rmd_total :: "u32 list"
  rmd_state :: "u32 list"
  rmd_buffer :: bytes

abbreviation (input) RIPEMD160_BLOCK_LENGTH :: nat where "RIPEMD160_BLOCK_LENGTH \<equiv> 64"

definition GET_UINT32_LE :: "bytes \<Rightarrow> nat \<Rightarrow> u32" where
  "GET_UINT32_LE b i =
     ucast (b ! i) OR push_bit 8 (ucast (b ! (i + 1))) OR push_bit 16 (ucast (b ! (i + 2)))
       OR push_bit 24 (ucast (b ! (i + 3)))"

definition PUT_UINT32_LE :: "u32 \<Rightarrow> bytes" where
  "PUT_UINT32_LE n =
     [ucast (n AND 0xFF), ucast (drop_bit 8 n AND 0xFF), ucast (drop_bit 16 n AND 0xFF), ucast (drop_bit 24 n AND 0xFF)]"

definition ripemd160_Init :: ripemd160_ctx where
  "ripemd160_Init =
     \<lparr>rmd_total = [0, 0],
      rmd_state = [0x67452301, 0xEFCDAB89, 0x98BADCFE, 0x10325476, 0xC3D2E1F0],
      rmd_buffer = replicate 64 0\<rparr>"

definition F1 :: "u32 \<Rightarrow> u32 \<Rightarrow> u32 \<Rightarrow> u32" where
  "F1 x y z = x XOR y XOR z"

definition F2 :: "u32 \<Rightarrow> u32 \<Rightarrow> u32 \<Rightarrow> u32" where
  "F2 x y z = (x AND y) OR (NOT x AND z)"

definition F3 :: "u32 \<Rightarrow> u32 \<Rightarrow> u32 \<Rightarrow> u32" where
  "F3 x y z = (x OR NOT y) XOR z"

definition F4 :: "u32 \<Rightarrow> u32 \<Rightarrow> u32 \<Rightarrow> u32" where
  "F4 x y z = (x AND z) OR (y AND NOT z)"

definition F5 :: "u32 \<Rightarrow> u32 \<Rightarrow> u32 \<Rightarrow> u32" where
  "F5 x y z = x XOR (y OR NOT z)"

definition S :: "u32 \<Rightarrow> nat \<Rightarrow> u32" where
  "S x n = push_bit n x OR drop_bit (32 - n) x"

definition P :: "u32 list \<Rightarrow> (u32 \<Rightarrow> u32 \<Rightarrow> u32 \<Rightarrow> u32) \<Rightarrow> u32 \<Rightarrow> nat \<Rightarrow> nat \<Rightarrow> nat \<Rightarrow> u32 list \<Rightarrow> u32 list" where
  "P X f k a r s regs =
     (let b = (a + 1) mod 5; c = (a + 2) mod 5; d = (a + 3) mod 5; e = (a + 4) mod 5;
          regs = regs[a := regs ! a + (f (regs ! b) (regs ! c) (regs ! d) + X ! r + k)];
          regs = regs[a := S (regs ! a) s + regs ! e];
          regs = regs[c := S (regs ! c) 10]
      in regs)"

definition P2 :: "u32 list \<Rightarrow> (u32 \<Rightarrow> u32 \<Rightarrow> u32 \<Rightarrow> u32) \<Rightarrow> u32 \<Rightarrow> (u32 \<Rightarrow> u32 \<Rightarrow> u32 \<Rightarrow> u32) \<Rightarrow> u32 \<Rightarrow>
    nat \<times> nat \<times> nat \<times> nat \<times> nat \<Rightarrow> u32 list \<times> u32 list \<Rightarrow> u32 list \<times> u32 list" where
  "P2 X F K Fp Kp row st =
     (case row of (a, r, s, rp, sp) \<Rightarrow>
      case st of (regs, regsp) \<Rightarrow> (P X F K a r s regs, P X Fp Kp a rp sp regsp))"

definition ripemd160_rows1 :: "(nat \<times> nat \<times> nat \<times> nat \<times> nat) list" where
  "ripemd160_rows1 = concat [
     [(0, 0, 11, 5, 8), (4, 1, 14, 14, 9), (3, 2, 15, 7, 9), (2, 3, 12, 0, 11)],
     [(1, 4, 5, 9, 13), (0, 5, 8, 2, 15), (4, 6, 7, 11, 15), (3, 7, 9, 4, 5)],
     [(2, 8, 11, 13, 7), (1, 9, 13, 6, 7), (0, 10, 14, 15, 8), (4, 11, 15, 8, 11)],
     [(3, 12, 6, 1, 14), (2, 13, 7, 10, 14), (1, 14, 9, 3, 12), (0, 15, 8, 12, 6)]]"

definition ripemd160_rows2 :: "(nat \<times> nat \<times> nat \<times> nat \<times> nat) list" where
  "ripemd160_rows2 = concat [
     [(4, 7, 7, 6, 9), (3, 4, 6, 11, 13), (2, 13, 8, 3, 15), (1, 1, 13, 7, 7)],
     [(0, 10, 11, 0, 12), (4, 6, 9, 13, 8), (3, 15, 7, 5, 9), (2, 3, 15, 10, 11)],
     [(1, 12, 7, 14, 7), (0, 0, 12, 15, 7), (4, 9, 15, 8, 12), (3, 5, 9, 12, 7)],
     [(2, 2, 11, 4, 6), (1, 14, 7, 9, 15), (0, 11, 13, 1, 13), (4, 8, 12, 2, 11)]]"

definition ripemd160_rows3 :: "(nat \<times> nat \<times> nat \<times> nat \<times> nat) list" where
  "ripemd160_rows3 = concat [
     [(3, 3, 11, 15, 9), (2, 10, 13, 5, 7), (1, 14, 6, 1, 15), (0, 4, 7, 3, 11)],
     [(4, 9, 14, 7, 8), (3, 15, 9, 14, 6), (2, 8, 13, 6, 6), (1, 1, 15, 9, 14)],
     [(0, 2, 14, 11, 12), (4, 7, 8, 8, 13), (3, 0, 13, 12, 5), (2, 6, 6, 2, 14)],
     [(1, 13, 5, 10, 13), (0, 11, 12, 0, 13), (4, 5, 7, 4, 7), (3, 12, 5, 13, 5)]]"

definition ripemd160_rows4 :: "(nat \<times> nat \<times> nat \<times> nat \<times> nat) list" where
  "ripemd160_rows4 = concat [
     [(2, 1, 11, 8, 15), (1, 9, 12, 6, 5), (0, 11, 14, 4, 8), (4, 10, 15, 1, 11)],
     [(3, 0, 14, 3, 14), (2, 8, 15, 11, 14), (1, 12, 9, 15, 6), (0, 4, 8, 0, 14)],
     [(4, 13, 9, 5, 6), (3, 3, 14, 12, 9), (2, 7, 5, 2, 12), (1, 15, 6, 13, 9)],
     [(0, 14, 8, 9, 12), (4, 5, 6, 7, 5), (3, 6, 5, 10, 15), (2, 2, 12, 14, 8)]]"

definition ripemd160_rows5 :: "(nat \<times> nat \<times> nat \<times> nat \<times> nat) list" where
  "ripemd160_rows5 = concat [
     [(1, 4, 9, 12, 8), (0, 0, 15, 15, 5), (4, 5, 5, 10, 12), (3, 9, 11, 4, 9)],
     [(2, 7, 6, 1, 12), (1, 12, 8, 5, 5), (0, 2, 13, 8, 14), (4, 10, 12, 7, 6)],
     [(3, 14, 5, 6, 8), (2, 1, 12, 2, 13), (1, 3, 13, 13, 6), (0, 8, 14, 14, 5)],
     [(4, 11, 11, 0, 15), (3, 6, 8, 3, 13), (2, 15, 5, 9, 11), (1, 13, 6, 11, 11)]]"

definition ripemd160_process :: "u32 list \<Rightarrow> bytes \<Rightarrow> u32 list" where
  "ripemd160_process h data =
     (let X = map (\<lambda>i. GET_UINT32_LE data (4 * i)) [0..<16];
          st = (h, h);
          st = fold (P2 X F1 0x00000000 F5 0x50A28BE6) ripemd160_rows1 st;
          st = fold (P2 X F2 0x5A827999 F4 0x5C4DD124) ripemd160_rows2 st;
          st = fold (P2 X F3 0x6ED9EBA1 F3 0x6D703EF3) ripemd160_rows3 st;
          st = fold (P2 X F4 0x8F1BBCDC F2 0x7A6D76E9) ripemd160_rows4 st;
          st = fold (P2 X F5 0xA953FD4E F1 0x00000000) ripemd160_rows5 st;
          (regs, regsp) = st;
          C = h ! 1 + regs ! 2 + regsp ! 3;
          h = h[1 := h ! 2 + regs ! 3 + regsp ! 4];
          h = h[2 := h ! 3 + regs ! 4 + regsp ! 0];
          h = h[3 := h ! 4 + regs ! 0 + regsp ! 1];
          h = h[4 := h ! 0 + regs ! 1 + regsp ! 2]
      in h[0 := C])"

text \<open>The loop of \<^verbatim>\<open>ripemd160_Update\<close> over whole blocks of the input.\<close>

function ripemd160_blocks :: "u32 list \<Rightarrow> bytes \<Rightarrow> u32 list \<times> bytes" where
  "ripemd160_blocks h input =
     (if RIPEMD160_BLOCK_LENGTH \<le> length input
      then ripemd160_blocks (ripemd160_process h (take RIPEMD160_BLOCK_LENGTH input)) (drop RIPEMD160_BLOCK_LENGTH input)
      else (h, input))"
  by pat_completeness auto
termination
  by (relation "measure (length \<circ> snd)") auto

declare ripemd160_blocks.simps [simp del]

text \<open>The byte counter of two words.\<close>

definition ripemd160_count :: "u32 list \<Rightarrow> u32 \<Rightarrow> u32 list" where
  "ripemd160_count tot ilen =
     (let tot = tot[0 := tot ! 0 + ilen];
          tot = tot[0 := tot ! 0 AND 0xFFFFFFFF]
      in if tot ! 0 < ilen then tot[1 := tot ! 1 + 1] else tot)"

definition ripemd160_Update :: "ripemd160_ctx \<Rightarrow> bytes \<Rightarrow> ripemd160_ctx" where
  "ripemd160_Update ctx input =
     (let ilen = of_nat (length input) :: u32 in
      if ilen = 0 then ctx
      else
        let left = rmd_total ctx ! 0 AND 0x3F;
            fill = of_nat RIPEMD160_BLOCK_LENGTH - left;
            ctx = ctx\<lparr>rmd_total := ripemd160_count (rmd_total ctx) ilen\<rparr>;
            (ctx, input, left) =
              (if left \<noteq> 0 \<and> fill \<le> ilen then
                 let ctx = ctx\<lparr>rmd_buffer := memcpy_at (rmd_buffer ctx) (unat left) (take (unat fill) input)\<rparr>
                 in (ctx\<lparr>rmd_state := ripemd160_process (rmd_state ctx) (rmd_buffer ctx)\<rparr>, drop (unat fill) input, 0)
               else (ctx, input, left));
            (st, input) = ripemd160_blocks (rmd_state ctx) input;
            ctx = ctx\<lparr>rmd_state := st\<rparr>
        in if 0 < length input then ctx\<lparr>rmd_buffer := memcpy_at (rmd_buffer ctx) (unat left) input\<rparr> else ctx)"

definition ripemd160_padding :: bytes where
  "ripemd160_padding = 0x80 # replicate 63 0"

text \<open>The digest and the wiped context.\<close>

definition ripemd160_Final :: "ripemd160_ctx \<Rightarrow> bytes \<times> ripemd160_ctx" where
  "ripemd160_Final ctx =
     (let high = drop_bit 29 (rmd_total ctx ! 0) OR push_bit 3 (rmd_total ctx ! 1);
          low = push_bit 3 (rmd_total ctx ! 0);
          msglen = PUT_UINT32_LE low @ PUT_UINT32_LE high;
          last = rmd_total ctx ! 0 AND 0x3F;
          padn = (if last < 56 then 56 - last else 120 - last);
          ctx = ripemd160_Update ctx (take (unat padn) ripemd160_padding);
          ctx = ripemd160_Update ctx msglen
      in (PUT_UINT32_LE (rmd_state ctx ! 0) @ PUT_UINT32_LE (rmd_state ctx ! 1) @ PUT_UINT32_LE (rmd_state ctx ! 2)
            @ PUT_UINT32_LE (rmd_state ctx ! 3) @ PUT_UINT32_LE (rmd_state ctx ! 4),
          \<lparr>rmd_total = replicate 2 0, rmd_state = replicate 5 0, rmd_buffer = replicate 64 0\<rparr>))"

definition ripemd160 :: "bytes \<Rightarrow> bytes" where
  "ripemd160 msg = fst (ripemd160_Final (ripemd160_Update ripemd160_Init msg))"

section \<open>The reference\<close>

definition rmd_rho :: "nat \<Rightarrow> nat" where
  "rmd_rho i = [7, 4, 13, 1, 10, 6, 15, 3, 12, 0, 9, 5, 2, 14, 11, 8] ! i"

definition rmd_pi :: "nat \<Rightarrow> nat" where
  "rmd_pi i = (9 * i + 5) mod 16"

text \<open>The shift of message word \<open>i\<close> in round \<open>k\<close>, for both lines.\<close>

definition rmd_shift :: "nat \<Rightarrow> nat \<Rightarrow> nat" where
  "rmd_shift k i =
     [[11, 14, 15, 12, 5, 8, 7, 9, 11, 13, 14, 15, 6, 7, 9, 8],
      [12, 13, 11, 15, 6, 9, 9, 7, 12, 15, 11, 13, 7, 8, 7, 7],
      [13, 15, 14, 11, 7, 7, 6, 8, 13, 14, 13, 12, 5, 5, 6, 9],
      [14, 11, 12, 14, 8, 6, 5, 5, 15, 12, 15, 14, 9, 9, 8, 6],
      [15, 12, 13, 13, 9, 5, 8, 6, 14, 11, 12, 11, 8, 6, 5, 5]] ! k ! i"

definition rmd_fun :: "nat \<Rightarrow> u32 \<Rightarrow> u32 \<Rightarrow> u32 \<Rightarrow> u32" where
  "rmd_fun k = [F1, F2, F3, F4, F5] ! k"

definition rmd_K :: "nat \<Rightarrow> u32" where
  "rmd_K k = [0, 0x5A827999, 0x6ED9EBA1, 0x8F1BBCDC, 0xA953FD4E] ! k"

definition rmd_Kp :: "nat \<Rightarrow> u32" where
  "rmd_Kp k = [0x50A28BE6, 0x5C4DD124, 0x6D703EF3, 0x7A6D76E9, 0] ! k"

text \<open>One step of a line: five registers that move.\<close>

type_synonym rmd_line = "u32 \<times> u32 \<times> u32 \<times> u32 \<times> u32"

definition rmd_step :: "(u32 \<Rightarrow> u32 \<Rightarrow> u32 \<Rightarrow> u32) \<Rightarrow> u32 \<Rightarrow> u32 \<Rightarrow> nat \<Rightarrow> rmd_line \<Rightarrow> rmd_line" where
  "rmd_step f k x s l = (case l of (A, B, C, D, E) \<Rightarrow> (E, word_rotl s (A + f B C D + x + k) + E, B, word_rotl 10 C, D))"

definition rmd_left :: "u32 list \<Rightarrow> nat \<Rightarrow> rmd_line \<Rightarrow> rmd_line" where
  "rmd_left X j = (let k = j div 16; w = (rmd_rho ^^ k) (j mod 16) in rmd_step (rmd_fun k) (rmd_K k) (X ! w) (rmd_shift k w))"

definition rmd_right :: "u32 list \<Rightarrow> nat \<Rightarrow> rmd_line \<Rightarrow> rmd_line" where
  "rmd_right X j =
     (let k = j div 16; w = (rmd_rho ^^ k) (rmd_pi (j mod 16)) in rmd_step (rmd_fun (4 - k)) (rmd_Kp k) (X ! w) (rmd_shift k w))"

definition rmd_compress :: "u32 list \<Rightarrow> u32 list \<Rightarrow> u32 list" where
  "rmd_compress h X =
     (let l = (h ! 0, h ! 1, h ! 2, h ! 3, h ! 4);
          (A, B, C, D, E) = fold (rmd_left X) [0..<80] l;
          (A', B', C', D', E') = fold (rmd_right X) [0..<80] l
      in [h ! 1 + C + D', h ! 2 + D + E', h ! 3 + E + A', h ! 4 + A + B', h ! 0 + B + C'])"

definition rmd_iv :: "u32 list" where
  "rmd_iv = [0x67452301, 0xEFCDAB89, 0x98BADCFE, 0x10325476, 0xC3D2E1F0]"

definition RIPEMD160 :: "bytes \<Rightarrow> bytes" where
  "RIPEMD160 m =
     concat (map (bytes_le 4) (md_fold 64 (\<lambda>h b. rmd_compress h (words_of_bytes 4 b)) rmd_iv
       (md_pad 64 (bytes_le 8 (of_nat (8 * length m) :: u64)) m)))"

end
