(* ===== verification/Ripemd160_Correct.thy ===== *)
theory Ripemd160_Correct
  imports Ripemd160 Sha2_Bits
begin

unbundle bit_operations_syntax

text \<open>
  \<open>ripemd160.c\<close> computes RIPEMD-160: the rows of the code are those of the reference, the
  registers updated in place are the moving registers of the reference, and the buffering of
  \<open>ripemd160_Update\<close> and the padding of \<open>ripemd160_Final\<close> are those of the reference digest.
\<close>

section \<open>The compression function\<close>

lemma S_rotl:
  assumes "0 < n" "n < 32"
  shows "S x n = word_rotl n x"
proof (rule bit_word_eqI)
  fix i assume "i < LENGTH(32)"
  then have i: "i < 32" by simp
  show "bit (S x n) i = bit (word_rotl n x) i"
  proof (cases "n \<le> i")
    case True
    have "(i + 32 - n) mod 32 = i - n" using assms i True by (simp add: le_mod_geq)
    moreover have "\<not> bit x (32 + i - n)" using assms True by (auto dest: bit_imp_le_length)
    ultimately show ?thesis using assms i True by (simp add: S_def bit_simps)
  next
    case False
    then show ?thesis using assms i by (simp add: S_def bit_simps add.commute [of 32 i])
  qed
qed

lemma GET_UINT32_LE_word:
  "i + 3 < length b \<Longrightarrow> GET_UINT32_LE b i = word_le (take 4 (drop i b))"
  by (simp add: GET_UINT32_LE_def numeral_eq_Suc take_Suc_conv_app_nth)

lemma PUT_UINT32_LE_bytes: "PUT_UINT32_LE n = bytes_le 4 n"
proof -
  have "ucast (w AND 0xFF) = (ucast w :: u8)" for w :: u32
    by (simp add: bit_listing)
  then show ?thesis by (simp add: PUT_UINT32_LE_def bytes_le_def upt_rec)
qed

text \<open>The registers of the code seen from the first register of the next row.\<close>

definition rmd_view :: "nat \<Rightarrow> u32 list \<Rightarrow> rmd_line" where
  "rmd_view a regs = (regs ! (a mod 5), regs ! ((a + 1) mod 5), regs ! ((a + 2) mod 5), regs ! ((a + 3) mod 5), regs ! ((a + 4) mod 5))"

lemma length_P [simp]: "length (P X f k a r s regs) = length regs"
  by (simp add: P_def Let_def)

lemma P_view:
  assumes "length regs = 5" "a < 5" "0 < s" "s < 32"
  shows "rmd_view (a + 4) (P X f k a r s regs) = rmd_step f k (X ! r) s (rmd_view a regs)"
proof -
  obtain A B C D E where regs: "regs = [A, B, C, D, E]"
    using assms(1) by (auto simp: length_Suc_conv numeral_eq_Suc)
  have "a \<in> {0, 1, 2, 3, 4}" using assms(2) by auto
  then show ?thesis
    by (auto simp: regs P_def rmd_view_def rmd_step_def Let_def S_rotl assms ac_simps)
qed

text \<open>The tables of the code are those of the reference.\<close>

definition rmd_row :: "nat \<Rightarrow> nat \<Rightarrow> nat \<times> nat \<times> nat \<times> nat \<times> nat" where
  "rmd_row k i =
     (let w = (rmd_rho ^^ k) i; w' = (rmd_rho ^^ k) (rmd_pi i)
      in ((4 * (16 * k + i)) mod 5, w, rmd_shift k w, w', rmd_shift k w'))"

lemma rho_powers:
  "rmd_rho ^^ 0 = (\<lambda>i. i)" "rmd_rho ^^ Suc 0 = rmd_rho" "rmd_rho ^^ 2 = (\<lambda>i. rmd_rho (rmd_rho i))"
  "rmd_rho ^^ 3 = (\<lambda>i. rmd_rho (rmd_rho (rmd_rho i)))" "rmd_rho ^^ 4 = (\<lambda>i. rmd_rho (rmd_rho (rmd_rho (rmd_rho i))))"
  by (simp_all add: fun_eq_iff numeral_eq_Suc)

lemmas rmd_table_defs = rmd_row_def rho_powers rmd_rho_def rmd_pi_def rmd_shift_def Let_def

lemma rows_reference:
  "ripemd160_rows1 = map (rmd_row 0) [0..<16]"
  "ripemd160_rows2 = map (rmd_row 1) [0..<16]"
  "ripemd160_rows3 = map (rmd_row 2) [0..<16]"
  "ripemd160_rows4 = map (rmd_row 3) [0..<16]"
  "ripemd160_rows5 = map (rmd_row 4) [0..<16]"
  by (simp_all add: ripemd160_rows1_def ripemd160_rows2_def ripemd160_rows3_def ripemd160_rows4_def ripemd160_rows5_def
      rmd_table_defs upt_rec)

lemma shift_range: "k < 5 \<Longrightarrow> w < 16 \<Longrightarrow> 0 < rmd_shift k w \<and> rmd_shift k w < 32"
proof -
  have "list_all (\<lambda>k. list_all (\<lambda>w. 0 < rmd_shift k w \<and> rmd_shift k w < 32) [0..<16]) [0..<5]"
    by (simp add: rmd_shift_def upt_rec)
  then show "k < 5 \<Longrightarrow> w < 16 \<Longrightarrow> 0 < rmd_shift k w \<and> rmd_shift k w < 32" by (simp add: list_all_iff)
qed

lemma rho_range: "i < 16 \<Longrightarrow> rmd_rho i < 16"
proof -
  have "list_all (\<lambda>i. rmd_rho i < 16) [0..<16]" by (simp add: rmd_rho_def upt_rec)
  then show "i < 16 \<Longrightarrow> rmd_rho i < 16" by (simp add: list_all_iff)
qed

lemma rho_pow_range: "i < 16 \<Longrightarrow> (rmd_rho ^^ k) i < 16"
  by (induction k) (simp_all add: rho_range)

lemma pi_range: "rmd_pi i < 16"
  by (simp add: rmd_pi_def)

text \<open>One row of the code is one step of each line.\<close>

definition rmd_sim :: "nat \<Rightarrow> rmd_line \<times> rmd_line \<Rightarrow> u32 list \<times> u32 list \<Rightarrow> bool" where
  "rmd_sim j l st \<longleftrightarrow> length (fst st) = 5 \<and> length (snd st) = 5 \<and>
     rmd_view (4 * j) (fst st) = fst l \<and> rmd_view (4 * j) (snd st) = snd l"

lemma rmd_view_mod: "rmd_view (a mod 5) regs = rmd_view a regs"
  by (simp only: rmd_view_def mod_add_left_eq mod_mod_trivial)

lemma P2_sim:
  assumes "rmd_sim (16 * k + i) l st" and "k < 5" and "i < 16"
  shows "rmd_sim (Suc (16 * k + i)) (map_prod (rmd_left X (16 * k + i)) (rmd_right X (16 * k + i)) l)
    (P2 X (rmd_fun k) (rmd_K k) (rmd_fun (4 - k)) (rmd_Kp k) (rmd_row k i) st)"
proof -
  let ?j = "16 * k + i" and ?w = "(rmd_rho ^^ k) i" and ?w' = "(rmd_rho ^^ k) (rmd_pi i)"
  have j: "?j div 16 = k" "?j mod 16 = i" using assms(3) by simp_all
  have sh: "0 < rmd_shift k ?w" "rmd_shift k ?w < 32" "0 < rmd_shift k ?w'" "rmd_shift k ?w' < 32"
    using shift_range [OF assms(2)] rho_pow_range assms(3) pi_range by simp_all
  have v: "rmd_view (4 * Suc ?j) regs = rmd_view (4 * ?j mod 5 + 4) regs" for regs
    using rmd_view_mod [of "4 * ?j mod 5 + 4" regs] rmd_view_mod [of "4 * Suc ?j" regs]
    by (simp add: mod_add_left_eq mod_add_right_eq algebra_simps)
  have step: "rmd_view (4 * Suc ?j) (P X f c (4 * ?j mod 5) w s regs) = rmd_step f c (X ! w) s (rmd_view (4 * ?j) regs)"
    if "length regs = 5" "0 < s" "s < 32" for regs f c w s
    using P_view [OF that(1) _ that(2,3), of "4 * ?j mod 5" X f c w] unfolding v rmd_view_mod by simp
  show ?thesis
    using assms(1) sh step unfolding rmd_sim_def rmd_left_def rmd_right_def j Let_def
    by (auto simp: P2_def rmd_row_def Let_def split_beta)
qed

lemma round_sim:
  assumes "rmd_sim (16 * k) l st" and "k < 5" and "n \<le> 16"
  shows "rmd_sim (16 * k + n) (map_prod (fold (rmd_left X) [16 * k..<16 * k + n]) (fold (rmd_right X) [16 * k..<16 * k + n]) l)
    (fold (P2 X (rmd_fun k) (rmd_K k) (rmd_fun (4 - k)) (rmd_Kp k)) (map (rmd_row k) [0..<n]) st)"
  using assms(3)
proof (induction n)
  case 0
  then show ?case using assms(1) by (simp add: map_prod_def split_beta)
next
  case (Suc n)
  then show ?case using P2_sim [OF Suc.IH assms(2)] by (simp add: map_prod_def split_beta)
qed

text \<open>The message words.\<close>

lemma message_words:
  assumes "length data = 64"
  shows "map (\<lambda>i. GET_UINT32_LE data (4 * i)) [0..<16] = words_of_bytes 4 data"
proof (rule nth_equalityI)
  show "length (map (\<lambda>i. GET_UINT32_LE data (4 * i)) [0..<16]) = length (words_of_bytes 4 data :: u32 list)"
    using assms by (simp add: length_words_of_bytes)
next
  fix i assume "i < length (map (\<lambda>i. GET_UINT32_LE data (4 * i)) [0..<16])"
  then have i: "i < 16" by simp
  then show "map (\<lambda>i. GET_UINT32_LE data (4 * i)) [0..<16] ! i = words_of_bytes 4 data ! i"
    using assms chunks_nth [of 4 data i]
    by (simp add: words_of_bytes_def length_chunks GET_UINT32_LE_word mult.commute del: upt_rec_numeral)
qed

lemma rmd_tables:
  "rmd_fun 0 = F1" "rmd_fun (Suc 0) = F2" "rmd_fun 2 = F3" "rmd_fun 3 = F4" "rmd_fun 4 = F5"
  "rmd_K 0 = 0" "rmd_K (Suc 0) = 0x5A827999" "rmd_K 2 = 0x6ED9EBA1" "rmd_K 3 = 0x8F1BBCDC" "rmd_K 4 = 0xA953FD4E"
  "rmd_Kp 0 = 0x50A28BE6" "rmd_Kp (Suc 0) = 0x5C4DD124" "rmd_Kp 2 = 0x6D703EF3" "rmd_Kp 3 = 0x7A6D76E9" "rmd_Kp 4 = 0"
  by (simp_all add: rmd_fun_def rmd_K_def rmd_Kp_def)

lemma upt_80: "[0..<80] = [0..<16] @ [16..<32] @ [32..<48] @ [48..<64] @ [64..<80]"
  using upt_add_eq_append [of 0 16 64] upt_add_eq_append [of 16 32 48] upt_add_eq_append [of 32 48 32]
    upt_add_eq_append [of 48 64 16] by (simp del: upt_rec_numeral)

lemma process_compress:
  assumes h: "length h = 5" and d: "length data = 64"
  shows "ripemd160_process h data = rmd_compress h (words_of_bytes 4 data)"
proof -
  define X :: "u32 list" where "X = words_of_bytes 4 data"
  let ?l = "(h ! 0, h ! 1, h ! 2, h ! 3, h ! 4)"
  let ?f = "\<lambda>k st. fold (P2 X (rmd_fun k) (rmd_K k) (rmd_fun (4 - k)) (rmd_Kp k)) (map (rmd_row k) [0..<16]) st"
  let ?g = "\<lambda>k l. map_prod (fold (rmd_left X) [16 * k..<16 * k + 16]) (fold (rmd_right X) [16 * k..<16 * k + 16]) l"
  have start: "rmd_sim (16 * 0) (?l, ?l) (h, h)" using h by (simp add: rmd_sim_def rmd_view_def numeral_2_eq_2)
  have step: "rmd_sim (16 * Suc k) (?g k l) (?f k st)" if "rmd_sim (16 * k) l st" "k < 5" for k l st
    using round_sim [OF that order.refl, of X] by (simp add: add.commute)
  have five: "rmd_sim (16 * 5) (?g 4 (?g 3 (?g 2 (?g 1 (?g 0 (?l, ?l)))))) (?f 4 (?f 3 (?f 2 (?f 1 (?f 0 (h, h))))))"
    using step [OF step [OF step [OF step [OF step [OF start]]]]] by (simp add: numeral_eq_Suc)
  define st where "st = ?f 4 (?f 3 (?f 2 (?f 1 (?f 0 (h, h)))))"
  have lines: "?g 4 (?g 3 (?g 2 (?g 1 (?g 0 (?l, ?l))))) = (fold (rmd_left X) [0..<80] ?l, fold (rmd_right X) [0..<80] ?l)"
    by (simp add: upt_80 del: upt_rec_numeral)
  obtain r r' where rr: "st = (r, r')" by force
  have v: "rmd_view 0 r = fold (rmd_left X) [0..<80] ?l" "rmd_view 0 r' = fold (rmd_right X) [0..<80] ?l"
    using five rmd_view_mod [of 320] unfolding lines st_def [symmetric] rr rmd_sim_def by simp_all
  obtain h0 h1 h2 h3 h4 where hh: "h = [h0, h1, h2, h3, h4]"
    using h by (auto simp: length_Suc_conv numeral_eq_Suc)
  have "ripemd160_process h data =
      [h ! 1 + r ! 2 + r' ! 3, h ! 2 + r ! 3 + r' ! 4, h ! 3 + r ! 4 + r' ! 0, h ! 4 + r ! 0 + r' ! 1, h ! 0 + r ! 1 + r' ! 2]"
    using rr unfolding st_def ripemd160_process_def Let_def message_words [OF d] X_def [symmetric] rows_reference
    by (simp add: rmd_tables hh del: upt_rec_numeral)
  then show ?thesis
    unfolding rmd_compress_def X_def [symmetric] Let_def v [symmetric] rmd_view_def by (simp add: numeral_2_eq_2)
qed

text \<open>C28: the unrolled rows of \<^verbatim>\<open>ripemd160_process\<close>, which update five named registers in
  place and rotate their roles, compute the compression function of the designers, whose
  registers move and whose message words and shifts are given by a permutation and a table.\<close>

theorem ripemd160_process_reference:
  assumes "length h = 5" and "length data = 64"
  shows "ripemd160_process h data = rmd_compress h (words_of_bytes 4 data)"
  by (rule process_compress [OF assms])

theorem ripemd160_process_reference_witness:
  "ripemd160_process (rmd_state ripemd160_Init) ripemd160_padding = rmd_compress rmd_iv (words_of_bytes 4 ripemd160_padding)"
  using ripemd160_process_reference [of "rmd_state ripemd160_Init" ripemd160_padding]
  by (simp add: ripemd160_Init_def rmd_iv_def ripemd160_padding_def)

end
