(* ===== verification/Ripemd160_Stream.thy ===== *)
theory Ripemd160_Stream
  imports Ripemd160_Correct
begin

unbundle bit_operations_syntax

text \<open>
  The buffering of \<open>ripemd160_Update\<close>, with its two-word byte counter, and the padding of
  \<open>ripemd160_Final\<close>. The length argument of \<open>ripemd160_Update\<close> has 32 bits: a single call
  takes less than 4 GiB, which the locale \<open>bounded_hash\<close> keeps as a premise.
\<close>

section \<open>Counters\<close>

lemma all_ones: "(w :: u32) AND 0xFFFFFFFF = w"
proof -
  have "(0xFFFFFFFF :: u32) = - 1" by simp
  then show ?thesis by (simp only: and.right_neutral)
qed

lemma carry_count:
  assumes "k < 2 ^ 32"
  shows "(of_nat (n + k) :: u32) < of_nat k \<longleftrightarrow> (n + k) div 2 ^ 32 = n div 2 ^ 32 + 1"
    and "\<not> (of_nat (n + k) :: u32) < of_nat k \<Longrightarrow> (n + k) div 2 ^ 32 = n div 2 ^ 32"
proof -
  define a q where "a = n mod 2 ^ 32" and "q = n div 2 ^ 32"
  have n: "n = q * 2 ^ 32 + a" and a: "a < 2 ^ 32" by (simp_all add: a_def q_def)
  have u: "unat (of_nat (n + k) :: u32) = (a + k) mod 2 ^ 32"
    by (simp only: unat_of_nat) (simp add: n add.assoc)
  have k: "unat (of_nat k :: u32) = k" by (rule unat_of_nat_small) (use assms in simp)
  have d: "(n + k) div 2 ^ 32 = q + (a + k) div 2 ^ 32" by (simp add: n add.assoc)
  have lt: "(of_nat (n + k) :: u32) < of_nat k \<longleftrightarrow> 2 ^ 32 \<le> a + k"
    unfolding word_less_nat_alt u k using a assms by (cases "2 ^ 32 \<le> a + k") (auto simp: le_mod_geq)
  have one: "(a + k) div 2 ^ 32 = (if 2 ^ 32 \<le> a + k then 1 else 0)"
    using a assms by (auto simp: le_div_geq)
  show "(of_nat (n + k) :: u32) < of_nat k \<longleftrightarrow> (n + k) div 2 ^ 32 = n div 2 ^ 32 + 1"
    unfolding lt d one q_def by auto
  show "\<not> (of_nat (n + k) :: u32) < of_nat k \<Longrightarrow> (n + k) div 2 ^ 32 = n div 2 ^ 32"
    unfolding lt d one q_def by auto
qed

lemma count_length:
  assumes "k < 2 ^ 32"
  shows "ripemd160_count [of_nat n, of_nat (n div 2 ^ 32)] (of_nat k) = [of_nat (n + k), of_nat ((n + k) div 2 ^ 32)]"
  using carry_count [OF assms, of n]
  by (cases "(of_nat (n + k) :: u32) < of_nat k") (simp_all add: ripemd160_count_def all_ones)

lemma low_six_bits: "unat ((of_nat n :: u32) AND 0x3F) = n mod 64"
proof -
  have "(of_nat n :: u32) AND 0x3F = take_bit 6 (of_nat n)" by (simp add: take_bit_eq_mask mask_eq_exp_minus_1)
  then have "unat ((of_nat n :: u32) AND 0x3F) = take_bit 6 (unat (of_nat n :: u32))" by (simp add: unsigned_take_bit_eq)
  then show ?thesis by (simp add: take_bit_eq_mod unat_of_nat mod_mod_cancel)
qed

lemma length_field:
  "bytes_le 4 (push_bit 3 (of_nat n :: u32)) @ bytes_le 4 (drop_bit 29 (of_nat n :: u32) OR push_bit 3 (of_nat (n div 2 ^ 32))) =
   bytes_le 8 (of_nat (8 * n) :: u64)"
proof -
  define w :: u64 where "w = of_nat (8 * n)"
  have w: "w = push_bit 3 (of_nat n)" by (simp add: w_def push_bit_eq_mult)
  have b: "bit (of_nat n :: 'a::len word) i \<longleftrightarrow> i < LENGTH('a) \<and> bit n i" for i
    by (simp add: bit_simps)
  have "bytes_le 8 w = bytes_le 4 (ucast w :: u32) @ bytes_le 4 (ucast (drop_bit 32 w) :: u32)"
  proof -
    have "ucast (drop_bit i (ucast v :: u32)) = (ucast (drop_bit i v) :: u8)" if "i \<le> 24" for i and v :: u64
      using that by (intro bit_word_eqI) (auto simp: bit_simps)
    from this [of 0] this show ?thesis by (simp add: bytes_le_def upt_rec)
  qed
  moreover have "(ucast w :: u32) = push_bit 3 (of_nat n)"
    by (rule bit_word_eqI) (auto simp: w bit_simps)
  moreover have "(ucast (drop_bit 32 w) :: u32) = drop_bit 29 (of_nat n) OR push_bit 3 (of_nat (n div 2 ^ 32))"
  proof (rule bit_word_eqI)
    fix i assume "i < LENGTH(32)"
    then have i: "i < 32" by simp
    define q where "q = n div 2 ^ 32"
    have q: "bit q k = bit n (32 + k)" for k by (simp only: q_def drop_bit_eq_div [symmetric] bit_drop_bit_eq comp_apply)
    have "bit (ucast (drop_bit 32 w) :: u32) i = bit n (29 + i)" using i by (simp add: w bit_simps)
    moreover have "bit (drop_bit 29 (of_nat n) OR push_bit 3 (of_nat q) :: u32) i = bit n (29 + i)"
    proof (cases "i < 3")
      case True
      then show ?thesis by (simp add: bit_simps)
    next
      case False
      then obtain k where "i = k + 3" by (metis add.commute le_Suc_ex not_less)
      then show ?thesis using i by (auto simp: bit_simps q)
    qed
    ultimately show "bit (ucast (drop_bit 32 w) :: u32) i = bit (drop_bit 29 (of_nat n) OR push_bit 3 (of_nat (n div 2 ^ 32)) :: u32) i"
      by (simp only: q_def)
  qed
  ultimately show ?thesis by (simp add: w_def)
qed

section \<open>Buffering\<close>

abbreviation rmd_block :: "u32 list \<Rightarrow> bytes \<Rightarrow> u32 list" where
  "rmd_block h b \<equiv> rmd_compress h (words_of_bytes 4 b)"

lemma length_rmd_compress [simp]: "length (rmd_compress h X) = 5"
  by (simp add: rmd_compress_def Let_def split_beta)

lemma length_rmd_fold: "length h = 5 \<Longrightarrow> length (md_fold 64 rmd_block h m) = 5"
proof -
  have "length h = 5 \<Longrightarrow> length (foldl rmd_block h bs) = 5" for bs by (induction bs arbitrary: h) simp_all
  then show "length h = 5 \<Longrightarrow> length (md_fold 64 rmd_block h m) = 5" by (simp add: md_fold_def)
qed

lemma parts_append:
  assumes "n dvd length a" "0 < n"
  shows "full_part n (a @ b) = a @ full_part n b" and "tail_part n (a @ b) = tail_part n b"
proof -
  have e: "a @ b = (a @ full_part n b) @ tail_part n b" by simp
  have "n dvd length (a @ full_part n b)" using assms by (simp add: full_part_dvd)
  moreover have "length (tail_part n b) < n" using assms by (simp add: length_tail_part)
  ultimately show "full_part n (a @ b) = a @ full_part n b" and "tail_part n (a @ b) = tail_part n b"
    using full_tail_unique [OF e] by blast+
qed

lemma parts_small: "length b < n \<Longrightarrow> full_part n b = [] \<and> tail_part n b = b"
  by (simp add: full_part_def tail_part_def)

lemma blocks_fold:
  "length h = 5 \<Longrightarrow> ripemd160_blocks h input = (md_fold 64 rmd_block h (full_part 64 input), tail_part 64 input)"
proof (induction h input rule: ripemd160_blocks.induct)
  case (1 h input)
  show ?case
  proof (cases "64 \<le> length input")
    case True
    let ?a = "take 64 input" and ?b = "drop 64 input"
    have a: "length ?a = 64" using True by simp
    have "ripemd160_blocks h input = ripemd160_blocks (rmd_block h ?a) ?b"
      using True "1.prems" a by (simp add: ripemd160_blocks.simps [of h input] process_compress)
    also have "\<dots> = (md_fold 64 rmd_block (rmd_block h ?a) (full_part 64 ?b), tail_part 64 ?b)"
      using "1.IH" [OF True] "1.prems" a by (simp add: process_compress)
    also have "\<dots> = (md_fold 64 rmd_block h (full_part 64 input), tail_part 64 input)"
      using parts_append [of 64 ?a ?b] a by (simp add: md_fold_append md_fold_block)
    finally show ?thesis .
  next
    case False
    then show ?thesis by (simp add: ripemd160_blocks.simps parts_small)
  qed
qed

definition rmd_repr :: "ripemd160_ctx \<Rightarrow> bytes \<Rightarrow> bool" where
  "rmd_repr ctx m \<longleftrightarrow>
     rmd_total ctx = [of_nat (length m), of_nat (length m div 2 ^ 32)] \<and>
     rmd_state ctx = md_fold 64 rmd_block rmd_iv (full_part 64 m) \<and>
     length (rmd_buffer ctx) = 64 \<and> take (length m mod 64) (rmd_buffer ctx) = tail_part 64 m"

lemma rmd_repr_Init: "rmd_repr ripemd160_Init []"
  by (simp add: rmd_repr_def ripemd160_Init_def rmd_iv_def full_part_def tail_part_def)

text \<open>The end of an update: whole blocks from the input, the rest into the buffer.\<close>

definition rmd_finish :: "ripemd160_ctx \<Rightarrow> nat \<Rightarrow> bytes \<Rightarrow> ripemd160_ctx" where
  "rmd_finish ctx l b =
     (let r = ripemd160_blocks (rmd_state ctx) b in
      if 0 < length (snd r) then ctx\<lparr>rmd_state := fst r, rmd_buffer := memcpy_at (rmd_buffer ctx) l (snd r)\<rparr>
      else ctx\<lparr>rmd_state := fst r\<rparr>)"

lemma rmd_repr_finish:
  assumes "rmd_state ctx = md_fold 64 rmd_block rmd_iv a" and "64 dvd length a" and "length (rmd_buffer ctx) = 64"
    and "rmd_total ctx = [of_nat (length (a @ b)), of_nat (length (a @ b) div 2 ^ 32)]"
  shows "rmd_repr (rmd_finish ctx 0 b) (a @ b)"
proof -
  have l: "length (rmd_state ctx) = 5" unfolding assms(1) by (rule length_rmd_fold) (simp add: rmd_iv_def)
  have t: "length (tail_part 64 b) < 64" by (simp add: length_tail_part)
  have tp: "tail_part 64 (a @ b) = tail_part 64 b" using parts_append(2) [OF assms(2), of b] by simp
  have m: "length (a @ b) mod 64 = length (tail_part 64 b)" using length_tail_part [of 64 "a @ b"] tp by simp
  have st: "md_fold 64 rmd_block (rmd_state ctx) (full_part 64 b) = md_fold 64 rmd_block rmd_iv (full_part 64 (a @ b))"
    using assms(2) by (simp add: parts_append assms(1) md_fold_append)
  show ?thesis
    unfolding rmd_repr_def m rmd_finish_def blocks_fold [OF l] Let_def fst_conv snd_conv st tp
    using assms(3,4) t by auto
qed

text \<open>Input that only goes to the buffer.\<close>

lemma rmd_repr_store:
  assumes r: "rmd_repr ctx m" and d: "length d < 64 - length m mod 64"
  shows "rmd_repr (rmd_finish (ctx\<lparr>rmd_total := [of_nat (length (m @ d)), of_nat (length (m @ d) div 2 ^ 32)]\<rparr>) (length m mod 64) d) (m @ d)"
proof -
  have l: "length (rmd_state ctx) = 5"
    using r length_rmd_fold [of rmd_iv "full_part 64 m"] by (simp add: rmd_repr_def rmd_iv_def)
  have "length d < 64" using d by simp
  then have p: "full_part 64 d = []" "tail_part 64 d = d" using parts_small by blast+
  have b: "length (rmd_buffer ctx) = 64" "take (length m mod 64) (rmd_buffer ctx) = tail_part 64 m"
    using r by (simp_all add: rmd_repr_def)
  have "take (length m mod 64 + length d) (memcpy_at (rmd_buffer ctx) (length m mod 64) d) = tail_part 64 m @ d"
    using take_memcpy_at [of "length m mod 64" d "rmd_buffer ctx"] b d by simp
  moreover have "length (memcpy_at (rmd_buffer ctx) (length m mod 64) d) = 64" using b d by simp
  ultimately show ?thesis
    using r blocks_fold [OF l, of d] parts_buffer [OF d]
    unfolding rmd_repr_def rmd_finish_def by (auto simp: p Let_def)
qed

text \<open>The code of an update, with its last part folded and then with the word arithmetic done.\<close>

lemma Update_code:
  assumes "(of_nat (length d) :: u32) \<noteq> 0" and "rmd_total ctx ! 0 AND 0x3F = l" and "64 - l = f"
    and "ripemd160_count (rmd_total ctx) (of_nat (length d)) = tot"
  shows "ripemd160_Update ctx d =
    (let c = ctx\<lparr>rmd_total := tot\<rparr>; b = memcpy_at (rmd_buffer c) (unat l) (take (unat f) d) in
     if l \<noteq> 0 \<and> f \<le> of_nat (length d)
     then rmd_finish (c\<lparr>rmd_buffer := b, rmd_state := ripemd160_process (rmd_state c) b\<rparr>) 0 (drop (unat f) d)
     else rmd_finish c (unat l) d)"
  using assms by (simp add: ripemd160_Update_def rmd_finish_def Let_def split_beta)

lemma Update_cases:
  assumes r: "rmd_repr ctx m" and d: "length d < 2 ^ 32" "d \<noteq> []"
  shows "ripemd160_Update ctx d =
    (let u = length m mod 64; c = ctx\<lparr>rmd_total := [of_nat (length (m @ d)), of_nat (length (m @ d) div 2 ^ 32)]\<rparr> in
     if u \<noteq> 0 \<and> 64 - u \<le> length d then
       rmd_finish (c\<lparr>rmd_buffer := tail_part 64 m @ take (64 - u) d,
                     rmd_state := ripemd160_process (rmd_state c) (tail_part 64 m @ take (64 - u) d)\<rparr>) 0 (drop (64 - u) d)
     else rmd_finish c u d)"
proof -
  define u where "u = length m mod 64"
  have ul: "u < 64" by (simp add: u_def)
  have il: "unat (of_nat (length d) :: u32) = length d" by (rule unat_of_nat_small) (use d in simp)
  have i0: "(of_nat (length d) :: u32) \<noteq> 0" using il d(2) by auto
  have left: "unat ((of_nat (length m) :: u32) AND 0x3F) = u" by (simp add: low_six_bits u_def)
  have lw: "((of_nat (length m) :: u32) AND 0x3F) = of_nat u" using arg_cong [OF left, of "of_nat :: nat \<Rightarrow> u32"] by simp
  have uu: "unat (of_nat u :: u32) = u" by (rule unat_of_nat_small) (use ul in simp)
  have fw: "unat (64 - (of_nat u :: u32)) = 64 - u" using unat_minus_of_nat [of u "64 :: u32"] ul by simp
  have l0: "(of_nat u :: u32) \<noteq> 0 \<longleftrightarrow> u \<noteq> 0" by (cases "u = 0") (use uu in auto)
  have fl: "(64 - (of_nat u :: u32)) \<le> of_nat (length d) \<longleftrightarrow> 64 - u \<le> length d" by (simp add: word_le_nat_alt fw il)
  have t: "rmd_total ctx = [of_nat (length m), of_nat (length m div 2 ^ 32)]" using r by (simp add: rmd_repr_def)
  have buf: "memcpy_at (rmd_buffer ctx) u (take (64 - u) d) = tail_part 64 m @ take (64 - u) d" if "64 - u \<le> length d"
    using r that ul memcpy_at_full [of u "take (64 - u) d" "rmd_buffer ctx"] by (simp add: rmd_repr_def u_def)
  have tot: "ripemd160_count (rmd_total ctx) (of_nat (length d)) = [of_nat (length (m @ d)), of_nat (length (m @ d) div 2 ^ 32)]"
    unfolding t length_append by (rule count_length [OF d(1)])
  have "rmd_total ctx ! 0 AND 0x3F = of_nat u" using lw by (simp add: t)
  note code = Update_code [OF i0 this refl tot, unfolded Let_def uu fw fl l0]
  show ?thesis unfolding code Let_def u_def [symmetric] using buf by (auto simp: if_distrib)
qed

lemma rmd_repr_Update:
  assumes r: "rmd_repr ctx m" and d: "length d < 2 ^ 32"
  shows "rmd_repr (ripemd160_Update ctx d) (m @ d)"
proof -
  define u where "u = length m mod 64"
  have ul: "u < 64" by (simp add: u_def)
  consider "d = []" | "d \<noteq> []" "u \<noteq> 0" "64 - u \<le> length d" | "d \<noteq> []" "length d < 64 - u" | "d \<noteq> []" "u = 0" by force
  then show ?thesis
  proof cases
    case 1
    then show ?thesis using r by (simp add: ripemd160_Update_def)
  next
    case 2
    let ?f = "take (64 - u) d" and ?g = "drop (64 - u) d"
    have f: "length ?f = 64 - length m mod 64" using 2 by (simp add: u_def)
    note pc = parts_complete [OF f]
    have dv: "64 dvd length (m @ ?f)" using pc(4) by (simp add: dvd_eq_mod_eq_0)
    have "full_part 64 (m @ ?f) = m @ ?f" using pc(2) full_tail [of 64 "m @ ?f"] by simp
    then have e: "m @ ?f = full_part 64 m @ (tail_part 64 m @ ?f)" using pc(1) by simp
    have st: "rmd_block (rmd_state ctx) (tail_part 64 m @ ?f) = md_fold 64 rmd_block rmd_iv (m @ ?f)"
      unfolding e md_fold_append [OF full_part_dvd] using r pc(3) by (simp add: rmd_repr_def md_fold_block)
    have l: "length (rmd_state ctx) = 5"
      using r length_rmd_fold [of rmd_iv "full_part 64 m"] by (simp add: rmd_repr_def rmd_iv_def)
    let ?c = "ctx\<lparr>rmd_total := [of_nat (length (m @ d)), of_nat (length (m @ d) div 2 ^ 32)]\<rparr>"
    let ?c' = "?c\<lparr>rmd_buffer := tail_part 64 m @ ?f, rmd_state := ripemd160_process (rmd_state ?c) (tail_part 64 m @ ?f)\<rparr>"
    have "rmd_repr (rmd_finish ?c' 0 ?g) ((m @ ?f) @ ?g)"
      by (rule rmd_repr_finish [OF _ dv]) (use l pc(3) st in \<open>simp_all add: process_compress\<close>)
    then show ?thesis
      unfolding Update_cases [OF r d 2(1)] Let_def u_def [symmetric] using 2(2,3) by simp
  next
    case 3
    then show ?thesis unfolding Update_cases [OF r d 3(1)] using rmd_repr_store [OF r] by (simp add: u_def Let_def)
  next
    case 4
    then have "64 dvd length m" by (simp add: u_def dvd_eq_mod_eq_0)
    moreover from this have "full_part 64 m = m" by (simp add: full_part_def)
    ultimately have "rmd_repr (rmd_finish (ctx\<lparr>rmd_total := [of_nat (length (m @ d)), of_nat (length (m @ d) div 2 ^ 32)]\<rparr>) 0 d) (m @ d)"
      by (intro rmd_repr_finish) (use r in \<open>simp_all add: rmd_repr_def\<close>)
    then show ?thesis unfolding Update_cases [OF r d 4(1)] Let_def u_def [symmetric] using 4 by simp
  qed
qed

section \<open>Padding\<close>

lemma pad_take: "0 < n \<Longrightarrow> n \<le> 64 \<Longrightarrow> take n ripemd160_padding = 0x80 # replicate (n - 1) 0"
  by (cases n) (simp_all add: ripemd160_padding_def min_def)

lemma pad_count:
  fixes u :: nat
  assumes "u < 64"
  shows "(if u < 56 then 56 - u else 120 - u) - 1 = (64 - (u + 9) mod 64) mod 64"
proof (cases "u < 56")
  case True
  then show ?thesis by (cases "u = 55") (auto simp: mod_less)
next
  case False
  then have "(u + 9) mod 64 = u + 9 - 64" using assms by (simp add: le_mod_geq)
  then show ?thesis using assms False by simp
qed

lemma Final_padn:
  defines "padn n \<equiv> (let last = (of_nat n :: u32) AND 0x3F in if last < 56 then 56 - last else 120 - last)"
  assumes that: "length lf = 8"
  shows "take (unat (padn (length m))) ripemd160_padding @ lf = drop (length m) (md_pad 64 lf m)"
proof -
  define u where "u = length m mod 64"
  have u: "u < 64" by (simp add: u_def)
  have "unat ((of_nat (length m) :: u32) AND 0x3F) = u" by (simp add: low_six_bits u_def)
  then have l: "((of_nat (length m) :: u32) AND 0x3F) = of_nat u"
    using arg_cong [of _ _ "of_nat :: nat \<Rightarrow> u32"] by fastforce
  have uu: "unat (of_nat u :: u32) = u" by (rule unat_of_nat_small) (use u in simp)
  have lt: "(of_nat u :: u32) < 56 \<longleftrightarrow> u < 56" by (simp add: word_less_nat_alt uu)
  have p: "unat (padn (length m)) = (if u < 56 then 56 - u else 120 - u)"
    unfolding padn_def Let_def l lt
    using u unat_minus_of_nat [of u "56 :: u32"] unat_minus_of_nat [of u "120 :: u32"] by simp
  have "(length m + 1 + 8) mod 64 = (u + 9) mod 64" by (simp add: u_def mod_simps add.commute)
  then have z: "unat (padn (length m)) - 1 = (64 - (length m + 1 + length lf) mod 64) mod 64"
    unfolding p that pad_count [OF u] by simp
  have "0 < unat (padn (length m))" "unat (padn (length m)) \<le> 64" using u by (auto simp: p)
  then have "take (unat (padn (length m))) ripemd160_padding = 0x80 # replicate (unat (padn (length m)) - 1) 0" by (rule pad_take)
  then show ?thesis unfolding z by (simp add: md_pad_def)
qed

lemma Final_digest:
  assumes r: "rmd_repr ctx m"
  shows "fst (ripemd160_Final ctx) = RIPEMD160 m"
proof -
  define padn where "padn = (let last = (of_nat (length m) :: u32) AND 0x3F in if last < 56 then 56 - last else 120 - last)"
  define lf where "lf = bytes_le 8 (of_nat (8 * length m) :: u64)"
  define c where "c = ripemd160_Update (ripemd160_Update ctx (take (unat padn) ripemd160_padding)) lf"
  have t: "rmd_total ctx ! 0 = of_nat (length m)" "rmd_total ctx ! 1 = of_nat (length m div 2 ^ 32)"
    using r by (simp_all add: rmd_repr_def)
  have "length (take (unat padn) ripemd160_padding) \<le> 64" by (simp add: ripemd160_padding_def)
  then have "rmd_repr c ((m @ take (unat padn) ripemd160_padding) @ lf)"
    unfolding c_def by (intro rmd_repr_Update [OF rmd_repr_Update [OF r]]) (simp_all add: lf_def)
  moreover have pad: "(m @ take (unat padn) ripemd160_padding) @ lf = md_pad 64 lf m"
    using Final_padn [of lf m] by (simp add: padn_def lf_def md_pad_def)
  ultimately have "rmd_repr c (md_pad 64 lf m)" by simp
  then have st: "rmd_state c = md_fold 64 rmd_block rmd_iv (md_pad 64 lf m)"
    using md_pad_dvd [of 64 lf m] by (simp add: rmd_repr_def full_part_def)
  have "length (rmd_state c) = 5" unfolding st by (rule length_rmd_fold) (simp add: rmd_iv_def)
  then obtain h0 h1 h2 h3 h4 where h: "rmd_state c = [h0, h1, h2, h3, h4]"
    by (auto simp: length_Suc_conv numeral_eq_Suc)
  have "fst (ripemd160_Final ctx) = concat (map (bytes_le 4) (rmd_state c))"
    unfolding ripemd160_Final_def Let_def PUT_UINT32_LE_bytes t length_field
    unfolding lf_def [symmetric] padn_def [unfolded Let_def, symmetric] c_def [symmetric] h by simp
  then show ?thesis by (simp add: st RIPEMD160_def lf_def)
qed

section \<open>The contract of a hash with bounded calls\<close>

locale bounded_hash =
  fixes repr :: "'ctx \<Rightarrow> bytes \<Rightarrow> bool" and init :: 'ctx and update :: "'ctx \<Rightarrow> bytes \<Rightarrow> 'ctx"
    and digest :: "'ctx \<Rightarrow> bytes" and H :: "bytes \<Rightarrow> bytes" and ok :: "bytes \<Rightarrow> bool"
  assumes repr_init: "repr init []"
    and repr_update: "repr c m \<Longrightarrow> ok d \<Longrightarrow> repr (update c d) (m @ d)"
    and digest_repr: "repr c m \<Longrightarrow> digest c = H m"
begin

lemma bounded_updates: "repr c m \<Longrightarrow> \<forall>d \<in> set ds. ok d \<Longrightarrow> repr (foldl update c ds) (m @ concat ds)"
proof (induction ds arbitrary: c m)
  case (Cons d ds)
  then show ?case using Cons.IH [OF repr_update [OF Cons.prems(1)]] by simp
qed simp

lemma bounded_digest: "\<forall>d \<in> set ds. ok d \<Longrightarrow> digest (foldl update init ds) = H (concat ds)"
  using bounded_updates [OF repr_init, of ds] by (simp add: digest_repr)

end

text \<open>A hash without a bound is one whose calls are all admitted.\<close>

sublocale streaming_hash \<subseteq> any: bounded_hash repr init update digest H "\<lambda>_. True"
  by unfold_locales (auto simp: repr_init repr_update digest_repr)

interpretation rmd: bounded_hash rmd_repr ripemd160_Init ripemd160_Update "\<lambda>c. fst (ripemd160_Final c)" RIPEMD160
  "\<lambda>d. length d < 2 ^ 32"
  by unfold_locales (use rmd_repr_Init rmd_repr_Update Final_digest in auto)

text \<open>C13: however a message is cut into calls of \<^verbatim>\<open>ripemd160_Update\<close> (each of less than 4 GiB, which
  its 32-bit length argument asks for), \<^verbatim>\<open>ripemd160_Final\<close> gives RIPEMD-160 of the whole
  message, with the reference's moving registers, permutations and length field, and wipes
  the context.\<close>

theorem ripemd160_streaming:
  assumes "\<forall>d \<in> set ds. length d < 2 ^ 32"
  shows "ripemd160_Final (foldl ripemd160_Update ripemd160_Init ds) =
    (RIPEMD160 (concat ds), \<lparr>rmd_total = [0, 0], rmd_state = [0, 0, 0, 0, 0], rmd_buffer = replicate 64 0\<rparr>)"
  using rmd.bounded_digest [OF assms] by (simp add: ripemd160_Final_def Let_def numeral_eq_Suc prod_eq_iff)

theorem ripemd160_streaming_witness:
  "fst (ripemd160_Final (foldl ripemd160_Update ripemd160_Init [[0x61], [0x62, 0x63]])) = RIPEMD160 [0x61, 0x62, 0x63]"
  using ripemd160_streaming [of "[[0x61], [0x62, 0x63]]"] by simp

text \<open>The round constants of the two lines are the integer parts of \<open>2^30\<close> times the square
  roots and the cube roots of the first four primes.\<close>

lemma rmd_constants_roots:
  "list_all2 (\<lambda>k p. (uint k)\<^sup>2 \<le> 2 ^ 60 * p \<and> 2 ^ 60 * p < (uint k + 1)\<^sup>2) (map rmd_K [1, 2, 3, 4]) [2, 3, 5, 7]"
  "list_all2 (\<lambda>k p. uint k ^ 3 \<le> 2 ^ 90 * p \<and> 2 ^ 90 * p < (uint k + 1) ^ 3) (map rmd_Kp [0, 1, 2, 3]) [2, 3, 5, 7]"
  by (simp_all add: rmd_K_def rmd_Kp_def)

end
