(* ===== verification/Hashlib.thy ===== *)
theory Hashlib
  imports Mp_Obj Pbkdf2_Correct Ripemd160_Stream "HOL-Library.Signed_Division"
begin

text \<open>
  \<^verbatim>\<open>uhashlib/hashlib.c\<close> and \<^verbatim>\<open>uhashlib/uhmac.c\<close>: the MicroPython modules \<^verbatim>\<open>hashlib\<close> and \<^verbatim>\<open>hmac\<close> over
  the hash functions. Hash objects live in a heap (a map from addresses to contexts with the
  next free address); a call gets its arguments as MicroPython objects and either raises or
  returns. An object method finds its context through the object it is called on;
  \<open>Bad_self\<close> stands for a call on an object of another type, which the code does not check
  (the interpreter's attribute lookup excludes it). A string or bytes object is followed by
  a zero byte in memory, so \<^verbatim>\<open>strcmp\<close> on its buffer compares up to its first zero byte.

  Python objects, errors and the allocator are those of \<open>Mp_Obj\<close>.
\<close>

section \<open>Hash objects and their heap\<close>

datatype mp_hash = Obj_sha1 SHA1_CTX | Obj_sha256 SHA256_CTX | Obj_sha512 SHA512_CTX | Obj_ripemd160 ripemd160_ctx
  | Obj_hmac256 HMAC_SHA256_CTX | Obj_hmac512 HMAC_SHA512_CTX

record hash_heap =
  objs :: "nat \<Rightarrow> mp_hash option"
  nxt :: nat

definition m_new_obj_var :: "mp_hash \<Rightarrow> hash_heap \<Rightarrow> nat \<times> hash_heap" where
  "m_new_obj_var x h = (nxt h, h\<lparr>objs := (objs h)(nxt h \<mapsto> x), nxt := nxt h + 1\<rparr>)"

text \<open>\<^verbatim>\<open>strcmp(buf, name) == 0\<close>.\<close>

definition strcmp_eq :: "bytes \<Rightarrow> bytes \<Rightarrow> bool" where
  "strcmp_eq buf name = (takeWhile (\<lambda>b. b \<noteq> 0) buf = name)"

definition name_sha1 :: bytes where "name_sha1 = [0x73, 0x68, 0x61, 0x31]"
definition name_sha256 :: bytes where "name_sha256 = [0x73, 0x68, 0x61, 0x32, 0x35, 0x36]"
definition name_sha512 :: bytes where "name_sha512 = [0x73, 0x68, 0x61, 0x35, 0x31, 0x32]"
definition name_ripemd160 :: bytes where "name_ripemd160 = [0x72, 0x69, 0x70, 0x65, 0x6d, 0x64, 0x31, 0x36, 0x30]"

section \<open>Class sha1\<close>

definition hashlib_sha1_update :: "hash_heap \<Rightarrow> nat \<Rightarrow> mp_obj \<Rightarrow> mp_error + hash_heap" where
  "hashlib_sha1_update h self arg =
     (case objs h self of
        Some (Obj_sha1 st) \<Rightarrow>
          (case mp_get_buffer_raise arg of
             Inl e \<Rightarrow> Inl e
           | Inr buf \<Rightarrow> Inr (h\<lparr>objs := (objs h)(self \<mapsto> Obj_sha1 (sha1_Update st buf))\<rparr>))
      | _ \<Rightarrow> Inl Bad_self)"

definition hashlib_sha1_make_new :: "hash_heap \<Rightarrow> mp_obj list \<Rightarrow> mp_error + nat \<times> hash_heap" where
  "hashlib_sha1_make_new h args =
     (if 1 < length args then Inl TypeError
      else
        let (p, h) = m_new_obj_var (Obj_sha1 sha1_Init) h in
        if length args = 1 then
          (case hashlib_sha1_update h p (args ! 0) of Inl e \<Rightarrow> Inl e | Inr h \<Rightarrow> Inr (p, h))
        else Inr (p, h))"

definition hashlib_sha1_copy :: "hash_heap \<Rightarrow> nat \<Rightarrow> mp_error + nat \<times> hash_heap" where
  "hashlib_sha1_copy h self =
     (case objs h self of Some (Obj_sha1 st) \<Rightarrow> Inr (m_new_obj_var (Obj_sha1 st) h) | _ \<Rightarrow> Inl Bad_self)"

definition hashlib_sha1_digest :: "hash_heap \<Rightarrow> nat \<Rightarrow> mp_error + bytes \<times> hash_heap" where
  "hashlib_sha1_digest h self =
     (case objs h self of
        Some (Obj_sha1 st) \<Rightarrow>
          let (out, st) = sha1_Final st in Inr (out, h\<lparr>objs := (objs h)(self \<mapsto> Obj_sha1 st)\<rparr>)
      | _ \<Rightarrow> Inl Bad_self)"

section \<open>Class sha256\<close>

definition hashlib_sha256_update :: "hash_heap \<Rightarrow> nat \<Rightarrow> mp_obj \<Rightarrow> mp_error + hash_heap" where
  "hashlib_sha256_update h self arg =
     (case objs h self of
        Some (Obj_sha256 st) \<Rightarrow>
          (case mp_get_buffer_raise arg of
             Inl e \<Rightarrow> Inl e
           | Inr buf \<Rightarrow> Inr (h\<lparr>objs := (objs h)(self \<mapsto> Obj_sha256 (sha256_Update st buf))\<rparr>))
      | _ \<Rightarrow> Inl Bad_self)"

definition hashlib_sha256_make_new :: "hash_heap \<Rightarrow> mp_obj list \<Rightarrow> mp_error + nat \<times> hash_heap" where
  "hashlib_sha256_make_new h args =
     (if 1 < length args then Inl TypeError
      else
        let (p, h) = m_new_obj_var (Obj_sha256 sha256_Init) h in
        if length args = 1 then
          (case hashlib_sha256_update h p (args ! 0) of Inl e \<Rightarrow> Inl e | Inr h \<Rightarrow> Inr (p, h))
        else Inr (p, h))"

definition hashlib_sha256_copy :: "hash_heap \<Rightarrow> nat \<Rightarrow> mp_error + nat \<times> hash_heap" where
  "hashlib_sha256_copy h self =
     (case objs h self of Some (Obj_sha256 st) \<Rightarrow> Inr (m_new_obj_var (Obj_sha256 st) h) | _ \<Rightarrow> Inl Bad_self)"

definition hashlib_sha256_digest :: "hash_heap \<Rightarrow> nat \<Rightarrow> mp_error + bytes \<times> hash_heap" where
  "hashlib_sha256_digest h self =
     (case objs h self of
        Some (Obj_sha256 st) \<Rightarrow>
          let (out, st) = sha256_Final st in Inr (out, h\<lparr>objs := (objs h)(self \<mapsto> Obj_sha256 st)\<rparr>)
      | _ \<Rightarrow> Inl Bad_self)"

section \<open>Class sha512\<close>

definition hashlib_sha512_update :: "hash_heap \<Rightarrow> nat \<Rightarrow> mp_obj \<Rightarrow> mp_error + hash_heap" where
  "hashlib_sha512_update h self arg =
     (case objs h self of
        Some (Obj_sha512 st) \<Rightarrow>
          (case mp_get_buffer_raise arg of
             Inl e \<Rightarrow> Inl e
           | Inr buf \<Rightarrow> Inr (h\<lparr>objs := (objs h)(self \<mapsto> Obj_sha512 (sha512_Update st buf))\<rparr>))
      | _ \<Rightarrow> Inl Bad_self)"

definition hashlib_sha512_make_new :: "hash_heap \<Rightarrow> mp_obj list \<Rightarrow> mp_error + nat \<times> hash_heap" where
  "hashlib_sha512_make_new h args =
     (if 1 < length args then Inl TypeError
      else
        let (p, h) = m_new_obj_var (Obj_sha512 sha512_Init) h in
        if length args = 1 then
          (case hashlib_sha512_update h p (args ! 0) of Inl e \<Rightarrow> Inl e | Inr h \<Rightarrow> Inr (p, h))
        else Inr (p, h))"

definition hashlib_sha512_copy :: "hash_heap \<Rightarrow> nat \<Rightarrow> mp_error + nat \<times> hash_heap" where
  "hashlib_sha512_copy h self =
     (case objs h self of Some (Obj_sha512 st) \<Rightarrow> Inr (m_new_obj_var (Obj_sha512 st) h) | _ \<Rightarrow> Inl Bad_self)"

definition hashlib_sha512_digest :: "hash_heap \<Rightarrow> nat \<Rightarrow> mp_error + bytes \<times> hash_heap" where
  "hashlib_sha512_digest h self =
     (case objs h self of
        Some (Obj_sha512 st) \<Rightarrow>
          let (out, st) = sha512_Final st in Inr (out, h\<lparr>objs := (objs h)(self \<mapsto> Obj_sha512 st)\<rparr>)
      | _ \<Rightarrow> Inl Bad_self)"

section \<open>Class ripemd160\<close>

definition hashlib_ripemd160_update :: "hash_heap \<Rightarrow> nat \<Rightarrow> mp_obj \<Rightarrow> mp_error + hash_heap" where
  "hashlib_ripemd160_update h self arg =
     (case objs h self of
        Some (Obj_ripemd160 st) \<Rightarrow>
          (case mp_get_buffer_raise arg of
             Inl e \<Rightarrow> Inl e
           | Inr buf \<Rightarrow> Inr (h\<lparr>objs := (objs h)(self \<mapsto> Obj_ripemd160 (ripemd160_Update st buf))\<rparr>))
      | _ \<Rightarrow> Inl Bad_self)"

definition hashlib_ripemd160_make_new :: "hash_heap \<Rightarrow> mp_obj list \<Rightarrow> mp_error + nat \<times> hash_heap" where
  "hashlib_ripemd160_make_new h args =
     (if 1 < length args then Inl TypeError
      else
        let (p, h) = m_new_obj_var (Obj_ripemd160 ripemd160_Init) h in
        if length args = 1 then
          (case hashlib_ripemd160_update h p (args ! 0) of Inl e \<Rightarrow> Inl e | Inr h \<Rightarrow> Inr (p, h))
        else Inr (p, h))"

definition hashlib_ripemd160_copy :: "hash_heap \<Rightarrow> nat \<Rightarrow> mp_error + nat \<times> hash_heap" where
  "hashlib_ripemd160_copy h self =
     (case objs h self of Some (Obj_ripemd160 st) \<Rightarrow> Inr (m_new_obj_var (Obj_ripemd160 st) h) | _ \<Rightarrow> Inl Bad_self)"

definition hashlib_ripemd160_digest :: "hash_heap \<Rightarrow> nat \<Rightarrow> mp_error + bytes \<times> hash_heap" where
  "hashlib_ripemd160_digest h self =
     (case objs h self of
        Some (Obj_ripemd160 st) \<Rightarrow>
          let (out, st) = ripemd160_Final st in Inr (out, h\<lparr>objs := (objs h)(self \<mapsto> Obj_ripemd160 st)\<rparr>)
      | _ \<Rightarrow> Inl Bad_self)"

section \<open>Module functions\<close>

definition hashlib_new :: "hash_heap \<Rightarrow> mp_obj list \<Rightarrow> mp_error + nat \<times> hash_heap" where
  "hashlib_new h args =
     (case args of
        [] \<Rightarrow> Inl TypeError
      | name # args \<Rightarrow>
          (case mp_get_buffer_raise name of
             Inl e \<Rightarrow> Inl e
           | Inr typebuf \<Rightarrow>
               if strcmp_eq typebuf name_ripemd160 then hashlib_ripemd160_make_new h args
               else if strcmp_eq typebuf name_sha256 then hashlib_sha256_make_new h args
               else if strcmp_eq typebuf name_sha512 then hashlib_sha512_make_new h args
               else if strcmp_eq typebuf name_sha1 then hashlib_sha1_make_new h args
               else Inl (ValueError ''Unsupported hash type'')))"

text \<open>The block count and the size of the last block, in C's arithmetic on the signed length.\<close>

definition pbkdf2_sizes :: "int \<Rightarrow> int \<Rightarrow> u32 \<times> u32" where
  "pbkdf2_sizes keylen hlen =
     (let last_block_size = of_int (keylen smod hlen) :: u32;
          blocks_count = of_int (keylen sdiv hlen) :: u32
      in if last_block_size \<noteq> 0 then (blocks_count + 1, last_block_size) else (blocks_count, of_int hlen))"

text \<open>A key of \<open>keylen\<close> bytes written to a fresh buffer: the last copy ends at \<open>(blocks_count - 1) * hlen +
  last_block_size\<close>, which has to lie in the buffer.\<close>

definition pbkdf2_into :: "int \<Rightarrow> int \<Rightarrow> (bytes \<Rightarrow> bytes) \<Rightarrow> bytes \<Rightarrow> mp_error + bytes" where
  "pbkdf2_into keylen hlen kdf buf =
     (let (blocks_count, last_block_size) = pbkdf2_sizes keylen hlen;
          stop = (if blocks_count = 0 then 0 else (uint blocks_count - 1) * hlen + uint last_block_size)
      in if stop \<le> int (length buf) then Inr (kdf (take (nat keylen) buf)) else Inl Heap_overrun)"

text \<open>The output length: the optional fifth argument.\<close>

definition pbkdf2_dklen :: "mp_obj list \<Rightarrow> int \<Rightarrow> mp_error + int" where
  "pbkdf2_dklen args l = (if 4 < length args then mp_obj_get_int (args ! 4) else Inr l)"

definition hashlib_pbkdf2_hmac :: "mp_env \<Rightarrow> mp_obj list \<Rightarrow> mp_error + bytes" where
  "hashlib_pbkdf2_hmac env args =
     (if length args < 4 then Inl TypeError
      else case (mp_get_buffer_raise (args ! 0), mp_get_buffer_raise (args ! 1), mp_get_buffer_raise (args ! 2),
                 mp_obj_get_int (args ! 3)) of
        (Inr typebuf, Inr pwd, Inr salt, Inl e) \<Rightarrow> Inl e
      | (Inr typebuf, Inr pwd, Inr salt, Inr iter) \<Rightarrow>
          if strcmp_eq typebuf name_sha256 then
            (case pbkdf2_dklen args 32 of
               Inl e \<Rightarrow> Inl e
             | Inr l \<Rightarrow> (case vstr_init_len env (of_int l) of
                 Inl e \<Rightarrow> Inl e
               | Inr buf \<Rightarrow> pbkdf2_into (sint (of_int l :: u32)) 32 (pbkdf2_hmac_sha256 (stack32 env) pwd salt (of_int iter)) buf))
          else if strcmp_eq typebuf name_sha512 then
            (case pbkdf2_dklen args 64 of
               Inl e \<Rightarrow> Inl e
             | Inr l \<Rightarrow> (case vstr_init_len env (of_int l) of
                 Inl e \<Rightarrow> Inl e
               | Inr buf \<Rightarrow> pbkdf2_into (sint (of_int l :: u32)) 64 (pbkdf2_hmac_sha512 (stack64 env) pwd salt (of_int iter)) buf))
          else Inl (ValueError ''Unsupported hash type'')
      | _ \<Rightarrow> Inl TypeError)"

definition hashlib_hmac_sha512 :: "mp_obj list \<Rightarrow> mp_error + bytes" where
  "hashlib_hmac_sha512 args =
     (if length args < 2 then Inl TypeError
      else case (mp_get_buffer_raise (args ! 0), mp_get_buffer_raise (args ! 1)) of
        (Inr key, Inr msg) \<Rightarrow> Inr (hmac_sha512_oneline key msg)
      | _ \<Rightarrow> Inl TypeError)"

section \<open>Class HMAC\<close>

definition hmac_HMAC_update :: "hash_heap \<Rightarrow> nat \<Rightarrow> mp_obj \<Rightarrow> mp_error + hash_heap" where
  "hmac_HMAC_update h self arg =
     (case objs h self of
        Some (Obj_hmac256 st) \<Rightarrow>
          (case mp_get_buffer_raise arg of
             Inl e \<Rightarrow> Inl e
           | Inr buf \<Rightarrow> Inr (h\<lparr>objs := (objs h)(self \<mapsto> Obj_hmac256 (hmac_sha256_Update st buf))\<rparr>))
      | Some (Obj_hmac512 st) \<Rightarrow>
          (case mp_get_buffer_raise arg of
             Inl e \<Rightarrow> Inl e
           | Inr buf \<Rightarrow> Inr (h\<lparr>objs := (objs h)(self \<mapsto> Obj_hmac512 (hmac_sha512_Update st buf))\<rparr>))
      | _ \<Rightarrow> Inl Bad_self)"

text \<open>The three arguments after parsing, \<open>Mp_none\<close> for one that is not given.\<close>

definition hmac_HMAC_make_new :: "hash_heap \<Rightarrow> mp_obj \<Rightarrow> mp_obj \<Rightarrow> mp_obj \<Rightarrow> mp_error + nat \<times> hash_heap" where
  "hmac_HMAC_make_new h key msg digestmod =
     (case mp_get_buffer_raise digestmod of
        Inl e \<Rightarrow> Inl e
      | Inr digestmodbuf \<Rightarrow>
          if \<not> strcmp_eq digestmodbuf name_sha256 \<and> \<not> strcmp_eq digestmodbuf name_sha512
          then Inl (ValueError ''Unsupported hash type'')
          else
            (case mp_get_buffer_raise key of
               Inl e \<Rightarrow> Inl e
             | Inr k \<Rightarrow>
                 let (p, h) = m_new_obj_var (if strcmp_eq digestmodbuf name_sha256 then Obj_hmac256 (hmac_sha256_Init k)
                                             else Obj_hmac512 (hmac_sha512_Init k)) h in
                 if msg \<noteq> Mp_none then
                   (case hmac_HMAC_update h p msg of Inl e \<Rightarrow> Inl e | Inr h \<Rightarrow> Inr (p, h))
                 else Inr (p, h)))"

definition hmac_HMAC_copy :: "hash_heap \<Rightarrow> nat \<Rightarrow> mp_error + nat \<times> hash_heap" where
  "hmac_HMAC_copy h self =
     (case objs h self of
        Some (Obj_hmac256 st) \<Rightarrow> Inr (m_new_obj_var (Obj_hmac256 st) h)
      | Some (Obj_hmac512 st) \<Rightarrow> Inr (m_new_obj_var (Obj_hmac512 st) h)
      | _ \<Rightarrow> Inl Bad_self)"

definition hmac_HMAC_digest :: "hash_heap \<Rightarrow> nat \<Rightarrow> mp_error + bytes \<times> hash_heap" where
  "hmac_HMAC_digest h self =
     (case objs h self of
        Some (Obj_hmac256 st) \<Rightarrow>
          let (out, st) = hmac_sha256_Final st in Inr (out, h\<lparr>objs := (objs h)(self \<mapsto> Obj_hmac256 st)\<rparr>)
      | Some (Obj_hmac512 st) \<Rightarrow>
          let (out, st) = hmac_sha512_Final st in Inr (out, h\<lparr>objs := (objs h)(self \<mapsto> Obj_hmac512 st)\<rparr>)
      | _ \<Rightarrow> Inl Bad_self)"

section \<open>Calls from Python\<close>

text \<open>The attribute lookup of the interpreter: the tables of the classes.\<close>

datatype py_call = Hash_new "mp_obj list" | Hmac_new mp_obj mp_obj mp_obj | Obj_update nat mp_obj | Obj_copy nat | Obj_digest nat

datatype py_out = Out_obj nat | Out_none | Out_bytes bytes | Out_raise mp_error

definition method_update :: "mp_hash \<Rightarrow> hash_heap \<Rightarrow> nat \<Rightarrow> mp_obj \<Rightarrow> mp_error + hash_heap" where
  "method_update x =
     (case x of Obj_sha1 _ \<Rightarrow> hashlib_sha1_update | Obj_sha256 _ \<Rightarrow> hashlib_sha256_update
      | Obj_sha512 _ \<Rightarrow> hashlib_sha512_update | Obj_ripemd160 _ \<Rightarrow> hashlib_ripemd160_update
      | Obj_hmac256 _ \<Rightarrow> hmac_HMAC_update | Obj_hmac512 _ \<Rightarrow> hmac_HMAC_update)"

definition method_copy :: "mp_hash \<Rightarrow> hash_heap \<Rightarrow> nat \<Rightarrow> mp_error + nat \<times> hash_heap" where
  "method_copy x =
     (case x of Obj_sha1 _ \<Rightarrow> hashlib_sha1_copy | Obj_sha256 _ \<Rightarrow> hashlib_sha256_copy
      | Obj_sha512 _ \<Rightarrow> hashlib_sha512_copy | Obj_ripemd160 _ \<Rightarrow> hashlib_ripemd160_copy
      | Obj_hmac256 _ \<Rightarrow> hmac_HMAC_copy | Obj_hmac512 _ \<Rightarrow> hmac_HMAC_copy)"

definition method_digest :: "mp_hash \<Rightarrow> hash_heap \<Rightarrow> nat \<Rightarrow> mp_error + bytes \<times> hash_heap" where
  "method_digest x =
     (case x of Obj_sha1 _ \<Rightarrow> hashlib_sha1_digest | Obj_sha256 _ \<Rightarrow> hashlib_sha256_digest
      | Obj_sha512 _ \<Rightarrow> hashlib_sha512_digest | Obj_ripemd160 _ \<Rightarrow> hashlib_ripemd160_digest
      | Obj_hmac256 _ \<Rightarrow> hmac_HMAC_digest | Obj_hmac512 _ \<Rightarrow> hmac_HMAC_digest)"

text \<open>One call: what the program sees and the heap afterwards.\<close>

definition py_step :: "hash_heap \<Rightarrow> py_call \<Rightarrow> py_out \<times> hash_heap" where
  "py_step h call =
     (case call of
        Hash_new args \<Rightarrow> (case hashlib_new h args of Inl e \<Rightarrow> (Out_raise e, h) | Inr (p, h') \<Rightarrow> (Out_obj p, h'))
      | Hmac_new k m d \<Rightarrow> (case hmac_HMAC_make_new h k m d of Inl e \<Rightarrow> (Out_raise e, h) | Inr (p, h') \<Rightarrow> (Out_obj p, h'))
      | Obj_update n arg \<Rightarrow>
          (case objs h n of
             None \<Rightarrow> (Out_raise Bad_self, h)
           | Some x \<Rightarrow> (case method_update x h n arg of Inl e \<Rightarrow> (Out_raise e, h) | Inr h' \<Rightarrow> (Out_none, h')))
      | Obj_copy n \<Rightarrow>
          (case objs h n of
             None \<Rightarrow> (Out_raise Bad_self, h)
           | Some x \<Rightarrow> (case method_copy x h n of Inl e \<Rightarrow> (Out_raise e, h) | Inr (p, h') \<Rightarrow> (Out_obj p, h')))
      | Obj_digest n \<Rightarrow>
          (case objs h n of
             None \<Rightarrow> (Out_raise Bad_self, h)
           | Some x \<Rightarrow> (case method_digest x h n of Inl e \<Rightarrow> (Out_raise e, h) | Inr (b, h') \<Rightarrow> (Out_bytes b, h'))))"

primrec py_run :: "py_call list \<Rightarrow> hash_heap \<Rightarrow> py_out list" where
  "py_run [] h = []"
| "py_run (c # cs) h = (case py_step h c of (out, h) \<Rightarrow> out # py_run cs h)"

end
