(* ===== verification/Hashlib_Spec.thy ===== *)
theory Hashlib_Spec
  imports Hashlib
begin

text \<open>
  What a Python program may expect of the hash objects: an abstract object is an algorithm and
  the bytes it has been fed, and nothing else. \<open>spec_step\<close> gives the meaning of each call on
  such objects; it is undefined (\<open>None\<close>) for a call on an object whose digest has been
  taken, because \<^verbatim>\<open>digest\<close> wipes the context. The modules refine it: the locale \<open>hash_class\<close>
  proves the three methods of a class once, from the contract of its hash function, and is
  interpreted on the six kinds of objects.
\<close>

section \<open>Specification\<close>

datatype hash_alg = A_sha1 | A_sha256 | A_sha512 | A_ripemd160 | A_hmac256 bytes | A_hmac512 bytes

primrec spec_digest :: "hash_alg \<Rightarrow> bytes \<Rightarrow> bytes" where
  "spec_digest A_sha1 m = SHA1 m"
| "spec_digest A_sha256 m = SHA256 m"
| "spec_digest A_sha512 m = SHA512 m"
| "spec_digest A_ripemd160 m = RIPEMD160 m"
| "spec_digest (A_hmac256 k) m = HMAC SHA256 64 k m"
| "spec_digest (A_hmac512 k) m = HMAC SHA512 128 k m"

record spec_heap =
  live :: "nat \<Rightarrow> (hash_alg \<times> bytes) option"
  snxt :: nat

definition spec_alloc :: "hash_alg \<times> bytes \<Rightarrow> spec_heap \<Rightarrow> py_out \<times> spec_heap" where
  "spec_alloc x a = (Out_obj (snxt a), a\<lparr>live := (live a)(snxt a \<mapsto> x), snxt := snxt a + 1\<rparr>)"

definition alg_of_name :: "bytes \<Rightarrow> hash_alg option" where
  "alg_of_name buf =
     map_of [(name_ripemd160, A_ripemd160), (name_sha256, A_sha256), (name_sha512, A_sha512), (name_sha1, A_sha1)]
       (takeWhile (\<lambda>b. b \<noteq> 0) buf)"

text \<open>The new object holds the data given with its name.\<close>

definition spec_make :: "hash_alg \<Rightarrow> mp_obj list \<Rightarrow> spec_heap \<Rightarrow> py_out \<times> spec_heap" where
  "spec_make al args a =
     (case args of
        [] \<Rightarrow> spec_alloc (al, []) a
      | [Mp_buffer d] \<Rightarrow> spec_alloc (al, d) a
      | _ \<Rightarrow> (Out_raise TypeError, a))"

definition spec_step :: "spec_heap \<Rightarrow> py_call \<Rightarrow> (py_out \<times> spec_heap) option" where
  "spec_step a call =
     (case call of
        Hash_new (Mp_buffer name # args) \<Rightarrow>
          Some (case alg_of_name name of Some al \<Rightarrow> spec_make al args a
                | None \<Rightarrow> (Out_raise (ValueError ''Unsupported hash type''), a))
      | Hash_new _ \<Rightarrow> Some (Out_raise TypeError, a)
      | Hmac_new k msg (Mp_buffer d) \<Rightarrow>
          (let kind = (if strcmp_eq d name_sha256 then Some A_hmac256 else if strcmp_eq d name_sha512 then Some A_hmac512 else None)
           in Some (case kind of
               None \<Rightarrow> (Out_raise (ValueError ''Unsupported hash type''), a)
             | Some kd \<Rightarrow> (case k of Mp_buffer key \<Rightarrow> spec_make (kd key) (if msg = Mp_none then [] else [msg]) a
                          | _ \<Rightarrow> (Out_raise TypeError, a))))
      | Hmac_new _ _ _ \<Rightarrow> Some (Out_raise TypeError, a)
      | Obj_update n arg \<Rightarrow>
          (case live a n of
             None \<Rightarrow> None
           | Some (al, m) \<Rightarrow> Some (case arg of Mp_buffer d \<Rightarrow> (Out_none, a\<lparr>live := (live a)(n \<mapsto> (al, m @ d))\<rparr>)
                                  | _ \<Rightarrow> (Out_raise TypeError, a)))
      | Obj_copy n \<Rightarrow> map_option (\<lambda>x. spec_alloc x a) (live a n)
      | Obj_digest n \<Rightarrow>
          map_option (\<lambda>(al, m). (Out_bytes (spec_digest al m), a\<lparr>live := (live a)(n := None)\<rparr>)) (live a n))"

primrec spec_run :: "py_call list \<Rightarrow> spec_heap \<Rightarrow> py_out list option" where
  "spec_run [] a = Some []"
| "spec_run (c # cs) a =
     (case spec_step a c of
        None \<Rightarrow> None
      | Some (out, a) \<Rightarrow> map_option (\<lambda>outs. out # outs) (spec_run cs a))"

section \<open>Representation\<close>

definition hmac_repr :: "('c \<Rightarrow> bytes \<Rightarrow> bool) \<Rightarrow> (bytes \<Rightarrow> bytes) \<Rightarrow> nat \<Rightarrow> bytes \<Rightarrow> 'c hmac_ctx \<Rightarrow> bytes \<Rightarrow> bool" where
  "hmac_repr repr H B k c m \<longleftrightarrow>
     o_key_pad c = xor_byte 0x5c (hmac_key H B k) \<and> repr (ctx c) (xor_byte 0x36 (hmac_key H B k) @ m)"

context hmac_stream
begin

lemma hmac_repr_init: "hmac_repr repr H B k (hinit k) []"
  using repr_update [OF repr_init] by (simp add: hmac_repr_def hinit_state)

lemma hmac_repr_update: "hmac_repr repr H B k c m \<Longrightarrow> hmac_repr repr H B k (hupdate c d) (m @ d)"
  by (auto simp: hmac_repr_def hupdate_eq dest: repr_update)

lemma hmac_repr_final: "hmac_repr repr H B k c m \<Longrightarrow> hfinal c = HMAC H B k m"
  by (auto simp: hmac_repr_def hfinal_eq HMAC_def digest_twice digest_repr)

end

fun obj_repr :: "mp_hash \<Rightarrow> hash_alg \<Rightarrow> bytes \<Rightarrow> bool" where
  "obj_repr (Obj_sha1 c) A_sha1 m = repr1 c m"
| "obj_repr (Obj_sha256 c) A_sha256 m = repr256 c m"
| "obj_repr (Obj_sha512 c) A_sha512 m = repr512 c m"
| "obj_repr (Obj_ripemd160 c) A_ripemd160 m = rmd_repr c m"
| "obj_repr (Obj_hmac256 c) (A_hmac256 k) m = hmac_repr repr256 SHA256 64 k c m"
| "obj_repr (Obj_hmac512 c) (A_hmac512 k) m = hmac_repr repr512 SHA512 128 k c m"
| "obj_repr _ _ _ = False"

text \<open>A heap stands for an abstract one: live objects represent their message, the
  addresses from the next free one on are free.\<close>

definition sim :: "hash_heap \<Rightarrow> spec_heap \<Rightarrow> bool" where
  "sim h a \<longleftrightarrow> nxt h = snxt a \<and>
     (\<forall>n al m. live a n = Some (al, m) \<longrightarrow> n < snxt a \<and> (\<exists>x. objs h n = Some x \<and> obj_repr x al m))"

lemma sim_alloc: "sim h a \<Longrightarrow> obj_repr x al m \<Longrightarrow>
  m_new_obj_var x h = (p, h') \<Longrightarrow> spec_alloc (al, m) a = (out, a') \<Longrightarrow> out = Out_obj p \<and> sim h' a'"
  by (force simp: sim_def m_new_obj_var_def spec_alloc_def less_Suc_eq)

lemma sim_upd: "sim h a \<Longrightarrow> live a n = Some y \<Longrightarrow> obj_repr x al m \<Longrightarrow>
  sim (h\<lparr>objs := (objs h)(n \<mapsto> x)\<rparr>) (a\<lparr>live := (live a)(n \<mapsto> (al, m))\<rparr>)"
  by (cases y) (auto simp: sim_def)

lemma sim_kill: "sim h a \<Longrightarrow> sim (h\<lparr>objs := (objs h)(n \<mapsto> x)\<rparr>) (a\<lparr>live := (live a)(n := None)\<rparr>)"
  by (auto simp: sim_def)

definition make_obj :: "mp_hash \<Rightarrow> hash_heap \<Rightarrow> mp_obj list \<Rightarrow> mp_error + nat \<times> hash_heap" where
  "make_obj x h args =
     (if 1 < length args then Inl TypeError
      else if args = [] then Inr (m_new_obj_var x h)
      else (case method_update x (snd (m_new_obj_var x h)) (nxt h) (hd args) of Inl e \<Rightarrow> Inl e | Inr h' \<Rightarrow> Inr (nxt h, h')))"

section \<open>The methods of a class\<close>

locale hash_class =
  fixes wrap :: "'c \<Rightarrow> mp_hash" and cupdate :: "'c \<Rightarrow> bytes \<Rightarrow> 'c" and cfinal :: "'c \<Rightarrow> bytes \<times> 'c"
  assumes upd: "obj_repr (wrap c) al m \<Longrightarrow> length d < 2 ^ 32 \<Longrightarrow> obj_repr (wrap (cupdate c d)) al (m @ d)"
    and fin: "obj_repr (wrap c) al m \<Longrightarrow> fst (cfinal c) = spec_digest al m"
    and update_eq: "objs h n = Some (wrap c) \<Longrightarrow> method_update (wrap c) h n arg =
      (case mp_get_buffer_raise arg of Inl e \<Rightarrow> Inl e | Inr buf \<Rightarrow> Inr (h\<lparr>objs := (objs h)(n \<mapsto> wrap (cupdate c buf))\<rparr>))"
    and copy_eq: "objs h n = Some (wrap c) \<Longrightarrow> method_copy (wrap c) h n = Inr (m_new_obj_var (wrap c) h)"
    and digest_eq: "objs h n = Some (wrap c) \<Longrightarrow> method_digest (wrap c) h n =
      Inr (fst (cfinal c), h\<lparr>objs := (objs h)(n \<mapsto> wrap (snd (cfinal c)))\<rparr>)"
begin

lemma update_sim:
  assumes s: "sim h a" and l: "live a n = Some (al, m)" and x: "objs h n = Some (wrap c)" "obj_repr (wrap c) al m"
    and d: "\<And>b. arg = Mp_buffer b \<Longrightarrow> length b < 2 ^ 32"
    and r: "spec_step a (Obj_update n arg) = Some (out, a')"
  shows "\<exists>h'. py_step h (Obj_update n arg) = (out, h') \<and> sim h' a'"
proof (cases arg)
  case (Mp_buffer b)
  then have "obj_repr (wrap (cupdate c b)) al (m @ b)" using upd [OF x(2)] d by simp
  then show ?thesis using Mp_buffer r l x s sim_upd [OF s l]
    by (auto simp: spec_step_def py_step_def update_eq mp_get_buffer_raise_def)
qed (use assms in \<open>auto simp: spec_step_def py_step_def update_eq mp_get_buffer_raise_def\<close>)

lemma copy_sim:
  assumes s: "sim h a" and l: "live a n = Some (al, m)" and x: "objs h n = Some (wrap c)" "obj_repr (wrap c) al m"
    and r: "spec_step a (Obj_copy n) = Some (out, a')"
  shows "\<exists>h'. py_step h (Obj_copy n) = (out, h') \<and> sim h' a'"
proof -
  obtain p h' where n: "m_new_obj_var (wrap c) h = (p, h')" by force
  have "spec_alloc (al, m) a = (out, a')" using r l by (simp add: spec_step_def)
  with sim_alloc [OF s x(2) n] show ?thesis using n x by (simp add: py_step_def copy_eq)
qed

lemma digest_sim:
  assumes s: "sim h a" and l: "live a n = Some (al, m)" and x: "objs h n = Some (wrap c)" "obj_repr (wrap c) al m"
    and r: "spec_step a (Obj_digest n) = Some (out, a')"
  shows "\<exists>h'. py_step h (Obj_digest n) = (out, h') \<and> sim h' a'"
  using r l x fin [OF x(2)] sim_kill [OF s] by (auto simp: spec_step_def py_step_def digest_eq)

lemmas method_sims = update_sim copy_sim digest_sim

text \<open>The constructor: a fresh object, fed with the optional argument.\<close>

lemma make_sim:
  assumes s: "sim h a" and c: "obj_repr (wrap c) al []" and d: "\<And>b. Mp_buffer b \<in> set args \<Longrightarrow> length b < 2 ^ 32"
    and r: "spec_make al args a = (out, a')"
  shows "case make_obj (wrap c) h args of Inl e \<Rightarrow> out = Out_raise e \<and> a' = a | Inr (p, h') \<Rightarrow> out = Out_obj p \<and> sim h' a'"
proof -
  have u: "method_update (wrap c) (snd (m_new_obj_var (wrap c) h)) (nxt h) arg =
      (case mp_get_buffer_raise arg of Inl e \<Rightarrow> Inl e | Inr buf \<Rightarrow> Inr (snd (m_new_obj_var (wrap (cupdate c buf)) h)))" for arg
    by (subst update_eq) (simp_all add: m_new_obj_var_def split: sum.splits)
  consider "args = []" | b where "args = [Mp_buffer b]" | i where "args = [Mp_int i]" | "args = [Mp_none]" | "1 < length args"
    by (cases args rule: list.exhaust; cases "hd args"; cases "tl args") auto
  then show ?thesis
  proof cases
    case 1
    then show ?thesis using sim_alloc [OF s c] r
      by (cases "m_new_obj_var (wrap c) h") (auto simp: make_obj_def spec_make_def)
  next
    case (2 b)
    then have "obj_repr (wrap (cupdate c b)) al b" using upd [OF c] d by fastforce
    from sim_alloc [OF s this] show ?thesis using 2 r u [of "Mp_buffer b"]
      by (cases "m_new_obj_var (wrap (cupdate c b)) h")
        (auto simp: make_obj_def spec_make_def mp_get_buffer_raise_def m_new_obj_var_def)
  next
    case 5
    then show ?thesis using r by (cases args rule: remdups_adj.cases) (auto simp: make_obj_def spec_make_def split: mp_obj.splits)
  qed (use r u in \<open>auto simp: make_obj_def spec_make_def mp_get_buffer_raise_def m_new_obj_var_def\<close>)
qed

end

lemma obj_repr_cases [elim]:
  assumes "obj_repr x al m"
  obtains (sha1) c where "x = Obj_sha1 c" "al = A_sha1" "repr1 c m"
  | (sha256) c where "x = Obj_sha256 c" "al = A_sha256" "repr256 c m"
  | (sha512) c where "x = Obj_sha512 c" "al = A_sha512" "repr512 c m"
  | (ripemd160) c where "x = Obj_ripemd160 c" "al = A_ripemd160" "rmd_repr c m"
  | (hmac256) c k where "x = Obj_hmac256 c" "al = A_hmac256 k" "hmac_repr repr256 SHA256 64 k c m"
  | (hmac512) c k where "x = Obj_hmac512 c" "al = A_hmac512 k" "hmac_repr repr512 SHA512 128 k c m"
  using assms by (cases "(x, al, m)" rule: obj_repr.cases) auto

lemmas class_defs = method_update_def method_copy_def method_digest_def

interpretation k1: hash_class Obj_sha1 sha1_Update sha1_Final
  by unfold_locales
    (auto simp: class_defs hashlib_sha1_update_def hashlib_sha1_copy_def hashlib_sha1_digest_def split_beta
      s1.repr_update s1.digest_repr elim!: obj_repr_cases)

interpretation k256: hash_class Obj_sha256 sha256_Update sha256_Final
  by unfold_locales
    (auto simp: class_defs hashlib_sha256_update_def hashlib_sha256_copy_def hashlib_sha256_digest_def split_beta
      s256.repr_update s256.digest_repr elim!: obj_repr_cases)

interpretation k512: hash_class Obj_sha512 sha512_Update sha512_Final
  by unfold_locales
    (auto simp: class_defs hashlib_sha512_update_def hashlib_sha512_copy_def hashlib_sha512_digest_def split_beta
      s512.repr_update s512.digest_repr elim!: obj_repr_cases)

interpretation krmd: hash_class Obj_ripemd160 ripemd160_Update ripemd160_Final
  by unfold_locales
    (auto simp: class_defs hashlib_ripemd160_update_def hashlib_ripemd160_copy_def hashlib_ripemd160_digest_def split_beta
      rmd.repr_update rmd.digest_repr elim!: obj_repr_cases)

interpretation kh256: hash_class Obj_hmac256 hmac_sha256_Update hmac_sha256_Final
  by unfold_locales
    (auto simp: class_defs hmac_HMAC_update_def hmac_HMAC_copy_def hmac_HMAC_digest_def split_beta
      h256.hmac_repr_update h256.hmac_repr_final elim!: obj_repr_cases)

interpretation kh512: hash_class Obj_hmac512 hmac_sha512_Update hmac_sha512_Final
  by unfold_locales
    (auto simp: class_defs hmac_HMAC_update_def hmac_HMAC_copy_def hmac_HMAC_digest_def split_beta
      h512.hmac_repr_update h512.hmac_repr_final elim!: obj_repr_cases)

section \<open>Every call refines its specification\<close>

lemma make_objs:
  "hashlib_sha1_make_new h args = make_obj (Obj_sha1 sha1_Init) h args"
  "hashlib_sha256_make_new h args = make_obj (Obj_sha256 sha256_Init) h args"
  "hashlib_sha512_make_new h args = make_obj (Obj_sha512 sha512_Init) h args"
  "hashlib_ripemd160_make_new h args = make_obj (Obj_ripemd160 ripemd160_Init) h args"
  by (cases args; simp add: make_obj_def method_update_def m_new_obj_var_def hashlib_sha1_make_new_def
      hashlib_sha256_make_new_def hashlib_sha512_make_new_def hashlib_ripemd160_make_new_def)+

lemma hmac_make_objs:
  "hmac_HMAC_make_new h key msg digestmod =
     (case mp_get_buffer_raise digestmod of
        Inl e \<Rightarrow> Inl e
      | Inr d \<Rightarrow>
          if \<not> strcmp_eq d name_sha256 \<and> \<not> strcmp_eq d name_sha512 then Inl (ValueError ''Unsupported hash type'')
          else (case mp_get_buffer_raise key of
               Inl e \<Rightarrow> Inl e
             | Inr k \<Rightarrow> make_obj (if strcmp_eq d name_sha256 then Obj_hmac256 (hmac_sha256_Init k) else Obj_hmac512 (hmac_sha512_Init k))
                 h (if msg = Mp_none then [] else [msg])))"
  by (auto simp: hmac_HMAC_make_new_def make_obj_def method_update_def m_new_obj_var_def split: sum.splits)

primrec call_args :: "py_call \<Rightarrow> mp_obj list" where
  "call_args (Hash_new args) = args"
| "call_args (Hmac_new k m d) = [k, m, d]"
| "call_args (Obj_update n arg) = [arg]"
| "call_args (Obj_copy n) = []"
| "call_args (Obj_digest n) = []"

definition call_fits :: "py_call \<Rightarrow> bool" where
  "call_fits c \<longleftrightarrow> list_all (\<lambda>x. case x of Mp_buffer b \<Rightarrow> length b < 2 ^ 32 | _ \<Rightarrow> True) (call_args c)"

lemma call_fitsD: "call_fits c \<Longrightarrow> Mp_buffer b \<in> set (call_args c) \<Longrightarrow> length b < 2 ^ 32"
  by (force simp: call_fits_def list_all_iff)

lemma fresh_reprs:
  "obj_repr (Obj_sha1 sha1_Init) A_sha1 []" "obj_repr (Obj_sha256 sha256_Init) A_sha256 []"
  "obj_repr (Obj_sha512 sha512_Init) A_sha512 []" "obj_repr (Obj_ripemd160 ripemd160_Init) A_ripemd160 []"
  "obj_repr (Obj_hmac256 (hmac_sha256_Init k)) (A_hmac256 k) []" "obj_repr (Obj_hmac512 (hmac_sha512_Init k)) (A_hmac512 k) []"
  using s1.repr_init s256.repr_init s512.repr_init rmd.repr_init h256.hmac_repr_init h512.hmac_repr_init by simp_all

lemma make_sim_any:
  assumes "sim h a" and "\<And>b. Mp_buffer b \<in> set args \<Longrightarrow> length b < 2 ^ 32" and "spec_make al args a = (out, a')"
    and "(x, al) \<in> {(Obj_sha1 sha1_Init, A_sha1), (Obj_sha256 sha256_Init, A_sha256), (Obj_sha512 sha512_Init, A_sha512),
      (Obj_ripemd160 ripemd160_Init, A_ripemd160), (Obj_hmac256 (hmac_sha256_Init k), A_hmac256 k), (Obj_hmac512 (hmac_sha512_Init k), A_hmac512 k)}"
  shows "case make_obj x h args of Inl e \<Rightarrow> out = Out_raise e \<and> a' = a | Inr (p, h') \<Rightarrow> out = Out_obj p \<and> sim h' a'"
  using assms(4) k1.make_sim [OF assms(1) fresh_reprs(1)] k256.make_sim [OF assms(1) fresh_reprs(2)]
    k512.make_sim [OF assms(1) fresh_reprs(3)] krmd.make_sim [OF assms(1) fresh_reprs(4)]
    kh256.make_sim [OF assms(1) fresh_reprs(5)] kh512.make_sim [OF assms(1) fresh_reprs(6)] assms(2,3) by auto

lemma new_refines:
  assumes s: "sim h a" and f: "call_fits (Hash_new args)" and r: "spec_step a (Hash_new args) = Some (out, a')"
  shows "\<exists>h'. py_step h (Hash_new args) = (out, h') \<and> sim h' a'"
proof (cases args)
  case (Cons name rest)
  show ?thesis
  proof (cases name)
    case (Mp_buffer buf)
    have fits: "\<And>b. Mp_buffer b \<in> set rest \<Longrightarrow> length b < 2 ^ 32" using call_fitsD [OF f] Cons by simp
    show ?thesis
    proof (cases "alg_of_name buf")
      case None
      then have "hashlib_new h args = Inl (ValueError ''Unsupported hash type'')"
        using Cons Mp_buffer by (simp add: hashlib_new_def mp_get_buffer_raise_def alg_of_name_def strcmp_eq_def split: if_splits)
      then show ?thesis using None r s Cons Mp_buffer by (auto simp: py_step_def spec_step_def)
    next
      case (Some al)
      then obtain x where x: "hashlib_new h args = make_obj x h rest"
        "(x, al) \<in> {(Obj_sha1 sha1_Init, A_sha1), (Obj_sha256 sha256_Init, A_sha256), (Obj_sha512 sha512_Init, A_sha512),
          (Obj_ripemd160 ripemd160_Init, A_ripemd160)}"
        using Cons Mp_buffer
        by (simp add: hashlib_new_def mp_get_buffer_raise_def alg_of_name_def strcmp_eq_def make_objs split: if_splits)
      have m: "spec_make al rest a = (out, a')" using r Cons Mp_buffer Some by (simp add: spec_step_def)
      show ?thesis using make_sim_any [OF s fits m, of x] x s by (auto simp: py_step_def split: sum.splits)
    qed
  qed (use s r Cons in \<open>auto simp: py_step_def spec_step_def hashlib_new_def mp_get_buffer_raise_def\<close>)
qed (use s r in \<open>auto simp: py_step_def spec_step_def hashlib_new_def\<close>)

lemma hmac_new_refines:
  assumes s: "sim h a" and f: "call_fits (Hmac_new k m d)" and r: "spec_step a (Hmac_new k m d) = Some (out, a')"
  shows "\<exists>h'. py_step h (Hmac_new k m d) = (out, h') \<and> sim h' a'"
proof (cases d)
  case d: (Mp_buffer dm)
  let ?args = "if m = Mp_none then [] else [m]"
  have fits: "\<And>b. Mp_buffer b \<in> set ?args \<Longrightarrow> length b < 2 ^ 32" using call_fitsD [OF f] by (auto split: if_splits)
  show ?thesis
  proof (cases "\<not> strcmp_eq dm name_sha256 \<and> \<not> strcmp_eq dm name_sha512")
    case True
    then show ?thesis using s r d by (auto simp: py_step_def spec_step_def hmac_make_objs mp_get_buffer_raise_def)
  next
    case False
    show ?thesis
    proof (cases k)
      case k: (Mp_buffer key)
      let ?x = "if strcmp_eq dm name_sha256 then Obj_hmac256 (hmac_sha256_Init key) else Obj_hmac512 (hmac_sha512_Init key)"
      let ?al = "if strcmp_eq dm name_sha256 then A_hmac256 key else A_hmac512 key"
      have new: "hmac_HMAC_make_new h k m d = make_obj ?x h ?args"
        using False d k by (auto simp: hmac_make_objs mp_get_buffer_raise_def)
      have "spec_make ?al ?args a = (out, a')" using r d k False by (auto simp: spec_step_def split: if_splits)
      from make_sim_any [OF s fits this, of ?x key] show ?thesis using new s by (auto simp: py_step_def split: sum.splits if_splits)
    qed (use s r d False in \<open>auto simp: py_step_def spec_step_def hmac_make_objs mp_get_buffer_raise_def split: if_splits\<close>)
  qed
qed (use s r in \<open>auto simp: py_step_def spec_step_def hmac_make_objs mp_get_buffer_raise_def\<close>)

lemma method_refines:
  assumes s: "sim h a" and f: "call_fits call" and r: "spec_step a call = Some (out, a')"
    and c: "call = Obj_update n arg \<or> call = Obj_copy n \<or> call = Obj_digest n"
  shows "\<exists>h'. py_step h call = (out, h') \<and> sim h' a'"
proof -
  obtain al m where l: "live a n = Some (al, m)" using r c by (auto simp: spec_step_def split: option.splits)
  then obtain x where x: "objs h n = Some x" "obj_repr x al m" using s unfolding sim_def by blast
  have d: "\<And>b. call = Obj_update n arg \<Longrightarrow> arg = Mp_buffer b \<Longrightarrow> length b < 2 ^ 32" using call_fitsD [OF f] by simp
  note sims = k1.method_sims k256.method_sims k512.method_sims krmd.method_sims kh256.method_sims kh512.method_sims
  from x(2) show ?thesis
    by (cases rule: obj_repr_cases) (use c r x d in \<open>auto intro: sims [OF s l] simp del: obj_repr.simps\<close>)
qed

lemma step_refines:
  "sim h a \<Longrightarrow> call_fits call \<Longrightarrow> spec_step a call = Some (out, a') \<Longrightarrow> \<exists>h'. py_step h call = (out, h') \<and> sim h' a'"
  by (cases call) (auto intro: new_refines hmac_new_refines method_refines)

lemma run_refines:
  "sim h a \<Longrightarrow> \<forall>c \<in> set calls. call_fits c \<Longrightarrow> spec_run calls a = Some outs \<Longrightarrow> py_run calls h = outs"
proof (induction calls arbitrary: h a outs)
  case (Cons c cs)
  then obtain out a' os where r: "spec_step a c = Some (out, a')" "spec_run cs a' = Some os" "outs = out # os"
    by (auto split: option.splits)
  obtain h' where "py_step h c = (out, h')" "sim h' a'" using step_refines [OF Cons.prems(1) _ r(1)] Cons.prems(2) by auto
  then show ?case using Cons.IH [of h' a' os] r Cons.prems(2) by simp
qed simp

definition empty_heap :: hash_heap where
  "empty_heap = \<lparr>objs = (\<lambda>_. None), nxt = 0\<rparr>"

definition empty_spec :: spec_heap where
  "empty_spec = \<lparr>live = (\<lambda>_. None), snxt = 0\<rparr>"

text \<open>C2: a Python program that uses \<^verbatim>\<open>hashlib\<close> and \<^verbatim>\<open>hmac\<close> objects sees exactly what the
  specification says: every object is its algorithm and the bytes fed to it, \<^verbatim>\<open>copy\<close> gives an
  independent object, \<^verbatim>\<open>digest\<close> the standard digest or authenticator of those bytes, and bad
  arguments raise the specified errors; provided that the program does not touch an object
  whose digest it has taken, and that no buffer has 4 GiB.\<close>

theorem hashlib_refines:
  assumes "spec_run calls empty_spec = Some outs" and "\<forall>c \<in> set calls. call_fits c"
  shows "py_run calls empty_heap = outs"
  by (rule run_refines [OF _ assms(2,1)]) (simp add: sim_def empty_heap_def empty_spec_def)

theorem hashlib_refines_witness:
  "py_run [Hash_new [Mp_buffer name_sha256, Mp_buffer [1, 2]], Obj_copy 0, Obj_update 0 (Mp_buffer [3]), Obj_update 1 Mp_none,
      Hmac_new (Mp_buffer [9]) (Mp_buffer [8]) (Mp_buffer name_sha512), Obj_digest 2, Obj_digest 0, Obj_digest 1, Hash_new [Mp_buffer []]] empty_heap =
    [Out_obj 0, Out_obj 1, Out_none, Out_raise TypeError, Out_obj 2, Out_bytes (HMAC SHA512 128 [9] [8]), Out_bytes (SHA256 [1, 2, 3]),
     Out_bytes (SHA256 [1, 2]), Out_raise (ValueError ''Unsupported hash type'')]"
  by (rule hashlib_refines)
    (simp_all add: empty_spec_def spec_step_def spec_make_def spec_alloc_def alg_of_name_def strcmp_eq_def call_fits_def
      name_sha1_def name_sha256_def name_sha512_def name_ripemd160_def)

section \<open>Key derivation\<close>

definition env_ok :: "mp_env \<Rightarrow> bool" where
  "env_ok env \<longleftrightarrow> (\<forall>n. length (fresh_bytes env n) = n) \<and> length (stack32 env) = 16 \<and> length (stack64 env) = 16 \<and>
     1 \<le> heap_limit env \<and> heap_limit env < 2 ^ 31"

text \<open>What \<^verbatim>\<open>pbkdf2_hmac(name, password, salt, iterations, dklen)\<close> promises.\<close>

definition pbkdf2_spec :: "nat \<Rightarrow> bytes \<Rightarrow> bytes \<Rightarrow> bytes \<Rightarrow> int \<Rightarrow> int option \<Rightarrow> mp_error + bytes" where
  "pbkdf2_spec limit name pwd salt iter dklen =
     (let alg = map_of [(name_sha256, (HMAC SHA256 64, 32)), (name_sha512, (HMAC SHA512 128, 64))] (takeWhile (\<lambda>b. b \<noteq> 0) name) in
      case alg of
        None \<Rightarrow> Inl (ValueError ''Unsupported hash type'')
      | Some (prfn, hlen) \<Rightarrow>
          let l = (case dklen of Some l \<Rightarrow> l | None \<Rightarrow> int hlen) in
          if l = - 1 then Inl Heap_overrun
          else if l < 0 \<or> limit < nat l + 1 then Inl MemoryError
          else Inr (PBKDF2 (prfn pwd) hlen salt (nat (iter mod 2 ^ 32)) (nat l)))"

lemma unat_of_int32: "unat (of_int i :: u32) = nat (i mod 2 ^ 32)"
  by (simp add: unat_eq_nat_uint uint_word_of_int)

lemma alloc_size:
  assumes "env_ok env" and l: "- (2 ^ 63) \<le> l" "l < 2 ^ 63"
  shows "vstr_init_len env (of_int l) =
    (if l = - 1 then Inr (fresh_bytes env 1)
     else if l < 0 \<or> heap_limit env < nat l + 1 then Inl MemoryError
     else Inr (fresh_bytes env (nat l + 1)))"
proof -
  have lim: "1 \<le> heap_limit env" "heap_limit env < 2 ^ 31" using assms(1) by (simp_all add: env_ok_def)
  have e: "of_int l + 1 = (of_int (l + 1) :: u64)" by simp
  have u: "unat (of_int l + 1 :: u64) = nat ((l + 1) mod 2 ^ 64)"
    unfolding e by (simp only: unat_eq_nat_uint uint_word_of_int) simp
  consider "l = - 1" | "l < - 1" | "0 \<le> l" by linarith
  then show ?thesis
  proof cases
    case 1
    then show ?thesis using lim by (simp add: vstr_init_len_def)
  next
    case 2
    have "(l + 1) mod 2 ^ 64 = (l + 1 + 2 ^ 64) mod 2 ^ 64" by (rule mod_add_self2 [symmetric])
    also have "\<dots> = l + 1 + 2 ^ 64" using 2 l by (intro mod_pos_pos_trivial) auto
    finally have "(l + 1) mod 2 ^ 64 = l + 1 + 2 ^ 64" .
    then have "unat (of_int l + 1 :: u64) = nat (l + 1 + 2 ^ 64)" using u by simp
    moreover have "2 ^ 31 \<le> l + 1 + 2 ^ 64" using l by simp
    ultimately have big: "2 ^ 31 \<le> unat (of_int l + 1 :: u64)" by (simp add: le_nat_iff)
    then have "\<not> (of_int l + 1 :: u64) < 1" "heap_limit env < unat (of_int l + 1 :: u64)"
      using lim(2) unfolding word_less_nat_alt by (simp, linarith)
    then show ?thesis using 2 by (simp add: vstr_init_len_def)
  next
    case 3
    then have big: "unat (of_int l + 1 :: u64) = nat l + 1" using u l by (simp add: nat_add_distrib)
    then have "\<not> (of_int l + 1 :: u64) < 1" by (simp add: word_less_nat_alt)
    then show ?thesis using 3 big by (simp add: vstr_init_len_def)
  qed
qed

lemma uint_of_int_small: "0 \<le> x \<Longrightarrow> x < 2 ^ 31 \<Longrightarrow> uint (of_int x :: u32) = x"
  by (simp add: uint_word_of_int)

lemma sint_of_int_small:
  assumes "- (2 ^ 31) \<le> x" "x < 2 ^ 31"
  shows "sint (of_int x :: u32) = x"
proof -
  have "signed_take_bit 31 x = x" by (rule signed_take_bit_int_eq_self) (use assms in simp_all)
  then show ?thesis by (simp add: sint_sbintrunc')
qed

text \<open>For a length that is not negative the copies end at that length.\<close>

lemma pbkdf2_into_length:
  assumes l: "0 \<le> l" "l < 2 ^ 31" and h: "0 < hlen" "hlen < 2 ^ 31" and b: "nat l \<le> length buf"
  shows "pbkdf2_into l hlen kdf buf = Inr (kdf (take (nat l) buf))"
proof -
  define q r where "q = l div hlen" and "r = l mod hlen"
  have d: "l = q * hlen + r" "0 \<le> r" "r < hlen" "0 \<le> q"
    using h l by (simp_all add: q_def r_def pos_imp_zdiv_nonneg_iff)
  moreover have "q * 1 \<le> q * hlen" by (rule mult_left_mono) (use d h in linarith)+
  ultimately have qr: "l = q * hlen + r" "0 \<le> r" "r < hlen" "0 \<le> q" "q \<le> l" by simp_all
  have sd: "l sdiv hlen = q" "l smod hlen = r"
    using l h by (simp_all add: q_def r_def signed_divide_int_def signed_modulo_int_def sgn_if)
  have u: "uint (of_int r :: u32) = r" "uint (of_int q :: u32) = q" "uint (of_int hlen :: u32) = hlen"
    by (rule uint_of_int_small; use qr l h in linarith)+
  have "uint (of_int (q + 1) :: u32) = (q + 1) mod 2 ^ 32" by (simp only: uint_word_of_int) simp
  also have "\<dots> = q + 1" by (rule mod_pos_pos_trivial) (use qr l in simp_all)
  finally have u1: "uint (of_int q + 1 :: u32) = q + 1" by simp
  have "pbkdf2_sizes l hlen = (if r \<noteq> 0 then (of_int q + 1, of_int r) else (of_int q, of_int hlen))"
    using u(1) by (auto simp: pbkdf2_sizes_def Let_def sd)
  moreover have "q * hlen + r \<le> int (length buf)" using b qr(1) l by linarith
  ultimately show ?thesis
    using u u1 qr(1) by (cases "r = 0") (auto simp: pbkdf2_into_def Let_def left_diff_distrib)
qed

text \<open>The length -1 wraps to an empty allocation and to a last block of \<open>2^32 - 1\<close> bytes.\<close>

lemma overrun_copy:
  assumes "hlen \<in> {32, 64}" and "length buf = 1"
  shows "pbkdf2_sizes (- 1) hlen = (1, 0xFFFFFFFF)" and "pbkdf2_into (- 1) hlen kdf buf = Inl Heap_overrun"
  using assms by (auto simp: pbkdf2_sizes_def pbkdf2_into_def Let_def signed_divide_int_def signed_modulo_int_def
      unsigned_minus_1_eq_mask mask_eq_exp_minus_1)

text \<open>C6: \<^verbatim>\<open>hashlib.pbkdf2_hmac\<close>, the call the wallet derives its BIP-39 seeds with, returns PBKDF2
  of RFC 8018 over the named HMAC, with the digest size as default length, and raises the
  specified errors for other names and impossible lengths; the iteration count is taken
  modulo \<open>2^32\<close>. The length -1 is the exception (\<open>Heap_overrun\<close>).\<close>

theorem hashlib_pbkdf2_hmac_spec:
  assumes "env_ok env" and "- (2 ^ 63) \<le> iter \<and> iter < 2 ^ 63" and "\<forall>l. dklen = Some l \<longrightarrow> - (2 ^ 63) \<le> l \<and> l < 2 ^ 63"
  shows "hashlib_pbkdf2_hmac env ([Mp_buffer name, Mp_buffer pwd, Mp_buffer salt, Mp_int iter] @ (case dklen of Some l \<Rightarrow> [Mp_int l] | None \<Rightarrow> [])) =
    pbkdf2_spec (heap_limit env) name pwd salt iter dklen"
proof -
  have f: "length (fresh_bytes env n) = n" "length (stack32 env) = 16" "length (stack64 env) = 16" for n
    using assms(1) by (simp_all add: env_ok_def)
  have dl: "pbkdf2_dklen ([Mp_buffer name, Mp_buffer pwd, Mp_buffer salt, Mp_int iter] @ (case dklen of Some l \<Rightarrow> [Mp_int l] | None \<Rightarrow> [])) d =
      Inr (case dklen of Some l \<Rightarrow> l | None \<Rightarrow> d)" for d
    using assms(3) by (simp add: pbkdf2_dklen_def mp_obj_get_int_def split: option.split)
  have ne: "name_sha256 \<noteq> name_sha512" by (simp add: name_sha256_def name_sha512_def)
  have lim: "heap_limit env < 2 ^ 31" using assms(1) by (simp add: env_ok_def)
  define l where "l = (\<lambda>d. case dklen of Some l \<Rightarrow> l | None \<Rightarrow> d)"
  have lr: "- (2 ^ 63) \<le> l d \<and> l d < 2 ^ 63" if "d \<in> {32, 64}" for d
    using assms(3) that by (auto simp: l_def split: option.split)
  have run: "(case vstr_init_len env (of_int (l d)) of Inl e \<Rightarrow> Inl e | Inr buf \<Rightarrow> pbkdf2_into (sint (of_int (l d) :: u32)) d kdf buf) =
      (if l d = - 1 then Inl Heap_overrun else if l d < 0 \<or> heap_limit env < nat (l d) + 1 then Inl MemoryError
       else Inr (kdf (take (nat (l d)) (fresh_bytes env (nat (l d) + 1)))))" if d: "d \<in> {32, 64}" for d kdf
  proof -
    have over: "pbkdf2_into (sint (of_int (- 1) :: u32)) d kdf (fresh_bytes env 1) = Inl Heap_overrun"
      using d f(1) [of 1] overrun_copy(2) [of d "fresh_bytes env 1" kdf] by (simp add: sint_of_int_small [of "- 1"])
    have into: "pbkdf2_into (sint (of_int (l d) :: u32)) d kdf (fresh_bytes env (nat (l d) + 1)) =
        Inr (kdf (take (nat (l d)) (fresh_bytes env (nat (l d) + 1))))" if "0 \<le> l d" "nat (l d) + 1 \<le> heap_limit env"
    proof -
      have "l d < 2 ^ 31" using that lim by simp
      then show ?thesis using that d f(1) [of "nat (l d) + 1"] by (auto simp: sint_of_int_small intro!: pbkdf2_into_length)
    qed
    show ?thesis using alloc_size [OF assms(1), of "l d"] lr [OF d] over into by auto
  qed
  let ?nm = "takeWhile (\<lambda>b. b \<noteq> 0) name"
  have lf: "(case dklen of Some l \<Rightarrow> l | None \<Rightarrow> d) = l d" for d by (simp add: l_def)
  have mn: "min (nat (l d)) (nat (l d) + 1) = nat (l d)" for d by simp
  have iv: "mp_obj_get_int (Mp_int iter) = Inr iter" using assms(2) by (simp add: mp_obj_get_int_def)
  consider "?nm = name_sha256" | "?nm = name_sha512" | "?nm \<noteq> name_sha256" "?nm \<noteq> name_sha512" by blast
  then show ?thesis
    unfolding hashlib_pbkdf2_hmac_def dl pbkdf2_spec_def Let_def lf
    by cases (use ne ne [symmetric] run [of 32] run [of 64] in
        \<open>simp_all add: mp_get_buffer_raise_def iv strcmp_eq_def f mn unat_of_int32 p256.pkey_PBKDF2 p512.pkey_PBKDF2 lf\<close>)
qed

definition demo_env :: mp_env where
  "demo_env = \<lparr>heap_limit = 4096, fresh_bytes = (\<lambda>n. replicate n 0xA5), stack32 = replicate 16 1, stack64 = replicate 16 2\<rparr>"

theorem hashlib_pbkdf2_hmac_spec_witness:
  "hashlib_pbkdf2_hmac demo_env [Mp_buffer name_sha512, Mp_buffer [0x61], Mp_buffer [0x62], Mp_int 2048] =
     Inr (PBKDF2 (HMAC SHA512 128 [0x61]) 64 [0x62] 2048 64) \<and>
   hashlib_pbkdf2_hmac demo_env [Mp_buffer name_sha512, Mp_buffer [0x61], Mp_buffer [0x62], Mp_int 2048, Mp_int (- 2)] = Inl MemoryError"
  using hashlib_pbkdf2_hmac_spec [of demo_env 2048 None name_sha512 "[0x61]" "[0x62]"]
    hashlib_pbkdf2_hmac_spec [of demo_env 2048 "Some (- 2)" name_sha512 "[0x61]" "[0x62]"]
  by (simp add: demo_env_def env_ok_def pbkdf2_spec_def name_sha256_def name_sha512_def Let_def)

text \<open>Called with the length -1, \<^verbatim>\<open>hashlib.pbkdf2_hmac\<close> allocates one byte (the length plus one
  wraps to zero) and then copies \<open>2^32 - 1\<close> bytes into it, because the remainder of a negative
  length is stored in an unsigned variable.\<close>

theorem hashlib_pbkdf2_overrun:
  assumes "env_ok env" and "- (2 ^ 63) \<le> iter \<and> iter < 2 ^ 63"
  shows "pbkdf2_sizes (- 1) 64 = (1, 0xFFFFFFFF) \<and> vstr_init_len env (of_int (- 1)) = Inr (fresh_bytes env 1) \<and>
    hashlib_pbkdf2_hmac env [Mp_buffer name_sha512, Mp_buffer pwd, Mp_buffer salt, Mp_int iter, Mp_int (- 1)] = Inl Heap_overrun"
proof -
  have f: "length (fresh_bytes env 1) = 1" using assms(1) by (simp add: env_ok_def)
  have v: "vstr_init_len env (of_int (- 1)) = Inr (fresh_bytes env 1)" using alloc_size [OF assms(1), of "- 1"] by simp
  have n: "\<not> strcmp_eq name_sha512 name_sha256" "strcmp_eq name_sha512 name_sha512"
    by (simp_all add: strcmp_eq_def name_sha256_def name_sha512_def)
  have s: "sint (of_int (- 1) :: u32) = - 1" by (rule sint_of_int_small) simp_all
  have "hashlib_pbkdf2_hmac env [Mp_buffer name_sha512, Mp_buffer pwd, Mp_buffer salt, Mp_int iter, Mp_int (- 1)] = Inl Heap_overrun"
    unfolding hashlib_pbkdf2_hmac_def using assms(2) v [unfolded of_int_minus of_int_1] s [unfolded of_int_minus of_int_1] overrun_copy(2) [OF _ f, of 64]
    by (simp add: n mp_get_buffer_raise_def mp_obj_get_int_def pbkdf2_dklen_def)
  then show ?thesis using v overrun_copy(1) [of 64 "fresh_bytes env 1"] f by simp
qed

theorem hashlib_pbkdf2_overrun_witness:
  "hashlib_pbkdf2_hmac demo_env [Mp_buffer name_sha512, Mp_buffer [1], Mp_buffer [2], Mp_int 2048, Mp_int (- 1)] = Inl Heap_overrun"
  using hashlib_pbkdf2_overrun [of demo_env 2048 "[1]" "[2]"] by (simp add: demo_env_def env_ok_def)

end
