(* ===== verification/Sha2_Consts.thy ===== *)
theory Sha2_Consts
  imports Sha2
begin

text \<open>
  Where the constants of \<^verbatim>\<open>sha2.c\<close> come from. FIPS 180-4 defines the round constants as the
  first bits of the fractional parts of the cube roots of the first primes and the initial
  hash values as those of the square roots; \<open>frac_root\<close> states that for one constant with
  integer arithmetic only.
\<close>

section \<open>Reference\<close>

text \<open>Trial division, enough for numbers below 441.\<close>

definition small_prime :: "int \<Rightarrow> bool" where
  "small_prime n \<longleftrightarrow> 2 \<le> n \<and>
     list_all (\<lambda>d. d * d \<le> n \<longrightarrow> n mod d \<noteq> 0) [2,3,4,5,6,7,8,9,10,11,12,13,14,15,16,17,18,19,20]"

definition first_primes :: "int list" where
  "first_primes =
    [2, 3, 5, 7, 11, 13, 17, 19, 23, 29, 31, 37, 41, 43, 47, 53, 59, 61, 67, 71, 73, 79, 83,
     89, 97, 101, 103, 107, 109, 113, 127, 131, 137, 139, 149, 151, 157, 163, 167, 173, 179,
     181, 191, 193, 197, 199, 211, 223, 227, 229, 233, 239, 241, 251, 257, 263, 269, 271, 277,
     281, 283, 293, 307, 311, 313, 317, 331, 337, 347, 349, 353, 359, 367, 373, 379, 383, 389,
     397, 401, 409]"

text \<open>\<open>int_root r p\<close> is the integer part of the \<open>r\<close>-th root of \<open>p\<close> (for \<open>p\<close> below 441), and
  \<open>frac_root r w p k\<close> says that \<open>k\<close> is the integer part of \<open>2 ^ w\<close> times the fractional part
  of the root.\<close>

definition int_root :: "nat \<Rightarrow> int \<Rightarrow> int" where
  "int_root r p = last (filter (\<lambda>c. c ^ r \<le> p) [0,1,2,3,4,5,6,7,8,9,10,11,12,13,14,15,16,17,18,19,20])"

definition frac_root :: "nat \<Rightarrow> nat \<Rightarrow> int \<Rightarrow> int \<Rightarrow> bool" where
  "frac_root r w p k \<longleftrightarrow>
     (let x = int_root r p * 2 ^ w + k in
      0 \<le> k \<and> k < 2 ^ w \<and> x ^ r \<le> p * 2 ^ (r * w) \<and> p * 2 ^ (r * w) < (x + 1) ^ r)"

section \<open>The constants\<close>

lemma first_primes_all: "filter small_prime [0..409] = first_primes"
  by code_simp

lemma K256_roots: "list_all2 (\<lambda>k p. frac_root 3 32 p (uint k)) K256 (take 64 first_primes)"
  by code_simp

lemma K512_roots: "list_all2 (\<lambda>k p. frac_root 3 64 p (uint k)) K512 first_primes"
  by code_simp

lemma sha256_initial_roots:
  "list_all2 (\<lambda>k p. frac_root 2 32 p (uint k)) sha256_initial_hash_value (take 8 first_primes)"
  by code_simp

lemma sha512_initial_roots:
  "list_all2 (\<lambda>k p. frac_root 2 64 p (uint k)) sha512_initial_hash_value (take 8 first_primes)"
  by code_simp

text \<open>C33: the round constants of SHA-256 and SHA-512 in the code are the first 32 and 64 bits of
  the fractional parts of the cube roots of the first 64 and 80 primes, and the initial hash
  values those of the square roots of the first 8 primes, as FIPS 180-4 defines them.\<close>

theorem sha2_constants:
  "list_all2 (\<lambda>k p. frac_root 3 32 p (uint k)) K256 (take 64 (filter small_prime [0..409])) \<and>
   list_all2 (\<lambda>k p. frac_root 3 64 p (uint k)) K512 (filter small_prime [0..409]) \<and>
   list_all2 (\<lambda>k p. frac_root 2 32 p (uint k)) sha256_initial_hash_value (take 8 (filter small_prime [0..409])) \<and>
   list_all2 (\<lambda>k p. frac_root 2 64 p (uint k)) sha512_initial_hash_value (take 8 (filter small_prime [0..409]))"
  unfolding first_primes_all
  by (intro conjI K256_roots K512_roots sha256_initial_roots sha512_initial_roots)

end
