(* ===== verification/Kboot_Cores.thy ===== *)
theory Kboot_Cores
  imports Prelude
begin

unbundle bit_operations_syntax

text \<open>
  The two cores of the K210 enter \<^verbatim>\<open>main\<close> of each boot loader stage together
  (\<^verbatim>\<open>bootloader_lo/main.c\<close>, \<^verbatim>\<open>bootloader_hi/main.c\<close>): core 1 signals and waits, core 0 waits for the
  signal, works, releases core 1 and jumps. Both stages have the same text around core 0's
  work, so the protocol is one step relation with the work as a parameter: \<open>wstep\<close> is one
  step of it (on the shared static \<^verbatim>\<open>i\<close> and the rest of the state) and \<open>wdone\<close> tells when it is
  over. Each rule is one access to a shared variable; any interleaving is a run. A core that
  polls a variable makes no step until the variable is set.

  \<^verbatim>\<open>i = read_csr(mhartid); if (i != 0)\<close> writes a variable that both cores share and then tests
  it. Whether the test reads the variable again or uses the value still in a register is
  the compiler's choice (\<^verbatim>\<open>i\<close> is not \<^verbatim>\<open>volatile\<close>): the parameter \<open>reload\<close>. The repository builds
  both stages with \<^verbatim>\<open>-O0\<close> (\<^verbatim>\<open>Kboot/cmake/compile-flags.cmake\<close>), which stores and reloads: that
  is \<open>reload = True\<close>; an optimised build may keep the value. What follows is shown for both.
  The polling loops read their variable on every turn, as they do at \<^verbatim>\<open>-O0\<close>.
\<close>

section \<open>The protocol\<close>

datatype hart = Hart0 | Hart1

primrec mhartid :: "hart \<Rightarrow> u32" where
  "mhartid Hart0 = 0"
| "mhartid Hart1 = 1"

datatype pc = Entry | Test u32 | Signal | Wait1 | Wait0 | Work | Publish | Jumped

record 'w boot =
  i_var :: u32
  core0_sync :: u32
  core1_sync :: u32
  pcs :: "hart \<Rightarrow> pc"
  work :: 'w

lemma all_hart: "(\<forall>h. P h) \<longleftrightarrow> P Hart0 \<and> P Hart1"
  by (metis hart.exhaust)

definition goto :: "hart \<Rightarrow> pc \<Rightarrow> 'w boot \<Rightarrow> 'w boot" where
  "goto h p s = s\<lparr>pcs := (pcs s)(h := p)\<rparr>"

inductive core_step ::
  "bool \<Rightarrow> (u32 \<times> 'w \<Rightarrow> u32 \<times> 'w \<Rightarrow> bool) \<Rightarrow> (u32 \<times> 'w \<Rightarrow> bool) \<Rightarrow> 'w boot \<Rightarrow> 'w boot \<Rightarrow> bool"
  for reload wstep wdone where
  read_hart: "pcs s h = Entry \<Longrightarrow> core_step reload wstep wdone s (goto h (Test (mhartid h)) (s\<lparr>i_var := mhartid h\<rparr>))"
| core1: "pcs s h = Test r \<Longrightarrow> (if reload then i_var s else r) \<noteq> 0 \<Longrightarrow> core_step reload wstep wdone s (goto h Signal s)"
| core0: "pcs s h = Test r \<Longrightarrow> (if reload then i_var s else r) = 0 \<Longrightarrow> core_step reload wstep wdone s (goto h Wait0 s)"
| signal: "pcs s h = Signal \<Longrightarrow> core_step reload wstep wdone s (goto h Wait1 (s\<lparr>core0_sync := 1\<rparr>))"
| released: "pcs s h = Wait1 \<Longrightarrow> core1_sync s \<noteq> 0 \<Longrightarrow> core_step reload wstep wdone s (goto h Jumped s)"
| joined: "pcs s h = Wait0 \<Longrightarrow> core0_sync s \<noteq> 0 \<Longrightarrow> core_step reload wstep wdone s (goto h Work s)"
| working: "pcs s h = Work \<Longrightarrow> wstep (i_var s, work s) (i', w') \<Longrightarrow>
    core_step reload wstep wdone s (s\<lparr>i_var := i', work := w'\<rparr>)"
| finished: "pcs s h = Work \<Longrightarrow> wdone (i_var s, work s) \<Longrightarrow> core_step reload wstep wdone s (goto h Publish s)"
| publish: "pcs s h = Publish \<Longrightarrow> core_step reload wstep wdone s (goto h Jumped (s\<lparr>core1_sync := 1\<rparr>))"

inductive_cases core_stepE: "core_step reload wstep wdone s s'"

definition boot_start :: "'w \<Rightarrow> 'w boot" where
  "boot_start w0 = \<lparr>i_var = 0, core0_sync = 0, core1_sync = 0, pcs = (\<lambda>_. Entry), work = w0\<rparr>"

text \<open>The states that some interleaving of the two cores reaches.\<close>

abbreviation boot_reach ::
  "bool \<Rightarrow> (u32 \<times> 'w \<Rightarrow> u32 \<times> 'w \<Rightarrow> bool) \<Rightarrow> (u32 \<times> 'w \<Rightarrow> bool) \<Rightarrow> 'w \<Rightarrow> 'w boot \<Rightarrow> bool" where
  "boot_reach reload wstep wdone w0 s \<equiv> (core_step reload wstep wdone)\<^sup>*\<^sup>* (boot_start w0) s"

section \<open>What the protocol gives for any work\<close>

text \<open>The contract of core 0's work: an invariant that holds at the start whatever \<^verbatim>\<open>i\<close> is, and a
  postcondition it gives at the end.\<close>

locale core_work =
  fixes wstep :: "u32 \<times> 'w \<Rightarrow> u32 \<times> 'w \<Rightarrow> bool" and wdone :: "u32 \<times> 'w \<Rightarrow> bool"
    and w0 :: 'w and inv :: "u32 \<times> 'w \<Rightarrow> bool" and post :: "'w \<Rightarrow> bool"
  assumes inv_start: "inv (i, w0)"
    and inv_step: "inv x \<Longrightarrow> wstep x y \<Longrightarrow> inv y"
    and inv_done: "inv x \<Longrightarrow> wdone x \<Longrightarrow> post (snd x)"
begin

text \<open>Core 0 and core 1 each stay on their side of the test, core 0 works only after core 1 has
  passed its own write of \<^verbatim>\<open>i\<close>, and core 1 is released only after the work.\<close>

definition boot_inv :: "'w boot \<Rightarrow> bool" where
  "boot_inv s \<longleftrightarrow>
     pcs s Hart0 \<in> {Entry, Test 0, Wait0, Work, Publish, Jumped} \<and>
     pcs s Hart1 \<in> {Entry, Test 1, Signal, Wait1, Jumped} \<and>
     (core0_sync s \<noteq> 0 \<longleftrightarrow> pcs s Hart1 \<in> {Wait1, Jumped}) \<and>
     (pcs s Hart0 \<in> {Work, Publish, Jumped} \<longrightarrow> core0_sync s \<noteq> 0) \<and>
     (core1_sync s \<noteq> 0 \<longleftrightarrow> pcs s Hart0 = Jumped) \<and>
     (pcs s Hart1 = Jumped \<longrightarrow> core1_sync s \<noteq> 0) \<and>
     (pcs s Hart0 \<in> {Entry, Test 0, Wait0} \<longrightarrow> work s = w0) \<and>
     (pcs s Hart0 = Work \<longrightarrow> inv (i_var s, work s)) \<and>
     (pcs s Hart0 \<in> {Publish, Jumped} \<longrightarrow> post (work s))"

text \<open>When the test reads the variable again and the other core's write came in between, both
  cores take the same branch; no work is done then.\<close>

definition agreed :: "'w boot \<Rightarrow> bool" where
  "agreed s \<longleftrightarrow> (pcs s Hart0 = Test 0 \<longrightarrow> i_var s = 0) \<and> (pcs s Hart1 = Test 1 \<longrightarrow> i_var s = 1)"

definition raced :: "'w boot \<Rightarrow> bool" where
  "raced s \<longleftrightarrow> work s = w0 \<and> core1_sync s = 0 \<and>
     (i_var s = 0 \<and> core0_sync s = 0 \<and> pcs s Hart0 \<in> {Test 0, Wait0} \<and> pcs s Hart1 \<in> {Test 1, Wait0} \<or>
      i_var s = 1 \<and> pcs s Hart0 \<in> {Test 0, Signal, Wait1} \<and> pcs s Hart1 \<in> {Test 1, Signal, Wait1})"

definition roles_ok :: "bool \<Rightarrow> 'w boot \<Rightarrow> bool" where
  "roles_ok reload s \<longleftrightarrow> boot_inv s \<and> (reload \<longrightarrow> agreed s)"

definition core_inv :: "bool \<Rightarrow> 'w boot \<Rightarrow> bool" where
  "core_inv reload s \<longleftrightarrow> roles_ok reload s \<or> reload \<and> raced s"

text \<open>A core has passed its test and the other one will find its own number: the race is over.\<close>

definition settled :: "bool \<Rightarrow> 'w boot \<Rightarrow> bool" where
  "settled reload s \<longleftrightarrow> roles_ok reload s \<and> (\<exists>h. pcs s h \<notin> {Entry, Test (mhartid h)})"

lemmas core_defs = roles_ok_def agreed_def boot_inv_def goto_def

lemma roles_step:
  assumes "roles_ok reload s" and "core_step reload wstep wdone s s'"
  shows "roles_ok reload s' \<or> reload \<and> raced s' \<and> (\<forall>h. pcs s h \<in> {Entry, Test (mhartid h)})"
  using assms(2)
proof (cases rule: core_step.cases)
  case (working h i' w')
  then have "h = Hart0" "inv (i_var s, work s)" using assms(1) by (cases h; simp add: core_defs)+
  then show ?thesis using working assms(1) inv_step [OF _ working(3)] by (auto simp: core_defs)
next
  case (finished h)
  then have "h = Hart0" "inv (i_var s, work s)" using assms(1) by (cases h; simp add: core_defs)+
  then show ?thesis using finished assms(1) inv_done [OF _ finished(3)] by (auto simp: core_defs)
next
  case (joined h)
  then show ?thesis using assms(1) inv_start by (cases h) (auto simp: core_defs)
next
  case (read_hart h)
  then show ?thesis using assms(1) by (cases h; cases reload) (auto simp: core_defs raced_def all_hart)
qed (use assms(1) in \<open>case_tac h; cases reload; auto simp: core_defs\<close>)+

lemma raced_step:
  assumes "raced s" and "core_step True wstep wdone s s'"
  shows "raced s'"
  using assms(2) by (cases rule: core_step.cases) (use assms(1) in \<open>case_tac h; auto simp: raced_def goto_def\<close>)+

lemma core_inv_step: "core_inv reload s \<Longrightarrow> core_step reload wstep wdone s s' \<Longrightarrow> core_inv reload s'"
  unfolding core_inv_def using roles_step [of reload s s'] raced_step [of s s'] by (cases reload) auto

lemma settled_step:
  assumes "settled reload s" and "core_step reload wstep wdone s s'"
  shows "settled reload s'"
proof -
  obtain h where r: "roles_ok reload s" and h: "pcs s h \<notin> {Entry, Test (mhartid h)}" using assms(1) by (auto simp: settled_def)
  have "roles_ok reload s'" using roles_step [OF r assms(2)] h by blast
  moreover have "pcs s' h \<notin> {Entry, Test (mhartid h)}"
    using assms(2) by (cases rule: core_step.cases) (use h in \<open>auto simp: goto_def\<close>)
  ultimately show ?thesis unfolding settled_def by blast
qed

lemma core_inv_start: "core_inv reload (boot_start w0)"
  by (simp add: boot_start_def core_inv_def roles_ok_def agreed_def boot_inv_def)

lemma core_inv_reach: "boot_reach reload wstep wdone w0 s \<Longrightarrow> core_inv reload s"
  by (induction rule: rtranclp_induct) (simp_all add: core_inv_start core_inv_step)

lemma jumped_post: "boot_reach reload wstep wdone w0 s \<Longrightarrow> pcs s h = Jumped \<Longrightarrow> post (work s)"
  by (drule core_inv_reach) (cases h; auto simp: core_inv_def core_defs raced_def)

text \<open>A core that passes its test before the other one starts settles the race.\<close>

lemma reach_settled:
  assumes "boot_reach reload wstep wdone w0 s" and "pcs s h \<notin> {Entry, Test (mhartid h)}" and "pcs s g = Entry"
  shows "settled reload s"
proof -
  have "\<not> raced s" using assms(3) by (cases g) (auto simp: raced_def)
  then show ?thesis using core_inv_reach [OF assms(1)] assms(2) unfolding core_inv_def settled_def by blast
qed

end

text \<open>Work that ends: every step lowers a bounded measure, and it is never stuck.\<close>

locale ending_work = core_work wstep wdone w0 inv post
  for wstep :: "u32 \<times> 'w \<Rightarrow> u32 \<times> 'w \<Rightarrow> bool" and wdone w0 inv post +
  fixes wm :: "u32 \<times> 'w \<Rightarrow> nat" and bnd :: nat
  assumes wm_step: "inv x \<Longrightarrow> wstep x y \<Longrightarrow> wm y < wm x"
    and wm_bound: "inv x \<Longrightarrow> wm x \<le> bnd"
    and no_stuck: "inv x \<Longrightarrow> \<not> wdone x \<Longrightarrow> \<exists>y. wstep x y"
begin

definition rank0 :: "'w boot \<Rightarrow> nat" where
  "rank0 s = (case pcs s Hart0 of Entry \<Rightarrow> bnd + 5 | Test r \<Rightarrow> bnd + 4 | Wait0 \<Rightarrow> bnd + 3
     | Work \<Rightarrow> wm (i_var s, work s) + 2 | Publish \<Rightarrow> 1 | Signal \<Rightarrow> 2 | Wait1 \<Rightarrow> 1 | _ \<Rightarrow> 0)"

definition rank1 :: "'w boot \<Rightarrow> nat" where
  "rank1 s = (case pcs s Hart1 of Entry \<Rightarrow> 4 | Test r \<Rightarrow> 3 | Signal \<Rightarrow> 2 | Wait1 \<Rightarrow> 1 | _ \<Rightarrow> 0)"

lemma roles_rank:
  assumes "roles_ok reload s" and "core_step reload wstep wdone s s'"
  shows "rank0 s' + rank1 s' < rank0 s + rank1 s"
  using assms(2)
proof (cases rule: core_step.cases)
  case (working h i' w')
  then have "h = Hart0" "inv (i_var s, work s)" using assms(1) by (cases h; simp add: core_defs)+
  then show ?thesis using working wm_step [OF _ working(3)] by (simp add: rank0_def rank1_def)
next
  case (joined h)
  then show ?thesis using assms(1) wm_bound [OF inv_start, of "i_var s"]
    by (cases h) (auto simp: core_defs rank0_def rank1_def)
qed (use assms(1) in \<open>case_tac h; cases reload; auto simp: core_defs rank0_def rank1_def\<close>)+

lemma raced_rank:
  assumes "raced s" and "core_step True wstep wdone s s'"
  shows "rank0 s' + rank1 s' < rank0 s + rank1 s"
  using assms(2)
  by (cases rule: core_step.cases) (use assms(1) in \<open>case_tac h; auto simp: raced_def goto_def rank0_def rank1_def\<close>)+

lemma rank_step: "core_inv reload s \<Longrightarrow> core_step reload wstep wdone s s' \<Longrightarrow> rank0 s' + rank1 s' < rank0 s + rank1 s"
  unfolding core_inv_def using roles_rank [of reload s s'] raced_rank [of s s'] by (cases reload) auto

lemma no_deadlock:
  assumes roles: "roles_ok reload s" and nj: "pcs s h \<noteq> Jumped"
  shows "\<exists>s'. core_step reload wstep wdone s s'"
proof -
  have inv: "boot_inv s" using roles by (simp add: roles_ok_def)
  consider "\<exists>g. pcs s g = Entry" | "\<exists>g. pcs s g = Test (mhartid g)" | "pcs s Hart1 = Signal" | "pcs s Hart0 = Publish"
    | "pcs s Hart0 = Wait0" "core0_sync s \<noteq> 0" | "pcs s Hart1 = Wait1" "core1_sync s \<noteq> 0" | "pcs s Hart0 = Work" "core0_sync s \<noteq> 0"
    | "pcs s Hart0 = Jumped" "pcs s Hart1 = Jumped"
    using inv unfolding boot_inv_def mhartid.simps by (metis insertE mhartid.simps singletonD)
  then show ?thesis
  proof cases
    case 1
    then show ?thesis by (auto intro: core_step.read_hart)
  next
    case 2
    then obtain g where g: "pcs s g = Test (mhartid g)" by blast
    show ?thesis using core_step.core1 [OF g, of reload] core_step.core0 [OF g, of reload]
      by (cases "(if reload then i_var s else mhartid g) = 0") auto
  next
    case 7
    then have "inv (i_var s, work s)" using inv by (simp add: boot_inv_def)
    then show ?thesis using no_stuck [of "(i_var s, work s)"] 7 by (auto intro: core_step.working core_step.finished)
  next
    case 8
    then show ?thesis using nj by (cases h) simp_all
  qed (auto intro: core_step.signal core_step.publish core_step.joined core_step.released)
qed

lemma raced_stuck:
  assumes r: "raced s" and stuck: "\<nexists>s'. core_step True wstep wdone s s'"
  shows "(\<forall>h. pcs s h = Wait0) \<or> (\<forall>h. pcs s h = Wait1)"
proof -
  have "pcs s h \<noteq> Test n" for h n
    using stuck core_step.core1 [of s h n True wstep wdone] core_step.core0 [of s h n True wstep wdone] by auto
  moreover have "pcs s h \<noteq> Signal" for h using stuck core_step.signal by blast
  ultimately show ?thesis using r by (auto simp: raced_def all_hart)
qed

text \<open>Every run is short. A run that cannot go on has released both cores, or has lost the race with
  no work done; once the race is settled only the first is left.\<close>

lemma run_rank:
  "(core_step reload wstep wdone ^^ n) (boot_start w0) s \<Longrightarrow> core_inv reload s \<and> n + rank0 s + rank1 s \<le> bnd + 9"
proof (induction n arbitrary: s)
  case 0
  then have s: "s = boot_start w0" by simp
  show ?case using core_inv_start unfolding s by (simp add: rank0_def rank1_def boot_start_def)
next
  case (Suc n)
  then obtain t where t: "(core_step reload wstep wdone ^^ n) (boot_start w0) t" "core_step reload wstep wdone t s"
    by auto
  show ?case using Suc.IH [OF t(1)] rank_step [OF _ t(2)] core_inv_step [OF _ t(2)] by linarith
qed

lemma run_bound: "(core_step reload wstep wdone ^^ n) (boot_start w0) s \<Longrightarrow> n \<le> bnd + 9"
  using run_rank by fastforce

lemma stuck_ends:
  assumes "boot_reach reload wstep wdone w0 s" and stuck: "\<nexists>s'. core_step reload wstep wdone s s'"
  shows "(\<forall>h. pcs s h = Jumped) \<or> reload \<and> work s = w0 \<and> ((\<forall>h. pcs s h = Wait0) \<or> (\<forall>h. pcs s h = Wait1))"
  using core_inv_reach [OF assms(1)] unfolding core_inv_def
proof
  assume "roles_ok reload s"
  then show ?thesis using no_deadlock stuck by blast
next
  assume "reload \<and> raced s"
  then show ?thesis using raced_stuck stuck by (auto simp: raced_def)
qed

lemma settled_ends:
  assumes "settled reload s" and "(core_step reload wstep wdone)\<^sup>*\<^sup>* s s'" and "\<nexists>t. core_step reload wstep wdone s' t"
  shows "pcs s' h = Jumped"
proof -
  have "settled reload s'" using assms(2,1) by (induction rule: rtranclp_induct) (simp_all add: settled_step)
  then show ?thesis using no_deadlock assms(3) unfolding settled_def by blast
qed

lemma can_finish: "settled reload s \<Longrightarrow> \<exists>s'. (core_step reload wstep wdone)\<^sup>*\<^sup>* s s' \<and> (\<forall>h. pcs s' h = Jumped)"
proof (induction "rank0 s + rank1 s" arbitrary: s rule: less_induct)
  case less
  then have r: "roles_ok reload s" by (simp add: settled_def)
  show ?case
  proof (cases "\<forall>h. pcs s h = Jumped")
    case False
    then obtain t where "core_step reload wstep wdone s t" using no_deadlock [OF r] by blast
    then show ?thesis using less.hyps roles_rank [OF r] settled_step [OF less.prems]
      by (meson converse_rtranclp_into_rtranclp)
  qed blast
qed

text \<open>Core 0 may run alone up to its wait; then the race is settled.\<close>

lemma start_finishes: "\<exists>s. boot_reach reload wstep wdone w0 s \<and> (\<forall>h. pcs s h = Jumped)"
proof -
  let ?s1 = "goto Hart0 (Test 0) ((boot_start w0)\<lparr>i_var := 0\<rparr>)" and ?s2 = "goto Hart0 Wait0 (goto Hart0 (Test 0) ((boot_start w0)\<lparr>i_var := 0\<rparr>))"
  have "core_step reload wstep wdone (boot_start w0) ?s1"
    using core_step.read_hart [of "boot_start w0" Hart0 reload wstep wdone] by (simp add: boot_start_def)
  moreover have "core_step reload wstep wdone ?s1 ?s2"
    by (rule core_step.core0 [where r = 0]) (simp_all add: goto_def)
  ultimately have r: "boot_reach reload wstep wdone w0 ?s2" by (meson rtranclp.rtrancl_into_rtrancl rtranclp.rtrancl_refl)
  have "settled reload ?s2" by (rule reach_settled [OF r, of Hart0 Hart1]) (simp_all add: goto_def boot_start_def)
  then show ?thesis using can_finish r by (meson rtranclp_trans)
qed

end

text \<open>A schedule for work of one step.\<close>

lemma one_step_run:
  fixes w0 :: 'a
  assumes "wstep (0, w0) (i', w')" and "wdone (i', w')"
  shows "\<exists>s. boot_reach reload wstep wdone w0 s \<and> (\<forall>h. pcs s h = Jumped) \<and> work s = w'"
proof -
  let ?step = "core_step reload wstep wdone"
  define f where "f = (\<lambda>i c0 c1 p q w. \<lparr>i_var = i, core0_sync = c0, core1_sync = c1, pcs = case_hart p q, work = w :: 'a\<rparr>)"
  have g: "goto Hart0 p (f i c0 c1 p' q w) = f i c0 c1 p q w" "goto Hart1 q (f i c0 c1 p q' w) = f i c0 c1 p q w"
    for p p' q q' i c0 c1 w by (auto simp: goto_def f_def fun_eq_iff split: hart.splits)
  have u: "(f i c0 c1 p q w)\<lparr>i_var := j\<rparr> = f j c0 c1 p q w" "(f i c0 c1 p q w)\<lparr>core0_sync := d\<rparr> = f i d c1 p q w"
    "(f i c0 c1 p q w)\<lparr>core1_sync := d\<rparr> = f i c0 d p q w" "(f i c0 c1 p q w)\<lparr>i_var := j, work := v\<rparr> = f j c0 c1 p q v" "(f i c0 c1 p q w)\<lparr>work := v\<rparr> = f i c0 c1 p q v"
    "pcs (f i c0 c1 p q w) Hart0 = p" "pcs (f i c0 c1 p q w) Hart1 = q" "core0_sync (f i c0 c1 p q w) = c0"
    "core1_sync (f i c0 c1 p q w) = c1" "i_var (f i c0 c1 p q w) = i" "work (f i c0 c1 p q w) = w"
    for i c0 c1 p q w j d v by (simp_all add: f_def)
  have start: "boot_start w0 = f 0 0 0 Entry Entry w0" by (simp add: boot_start_def f_def fun_eq_iff split: hart.splits)
  have "?step (f 0 0 0 Entry Entry w0) (f 1 0 0 Entry (Test 1) w0)"
    "?step (f 1 0 0 Entry (Test 1) w0) (f 1 0 0 Entry Signal w0)"
    "?step (f 1 0 0 Entry Signal w0) (f 0 0 0 (Test 0) Signal w0)"
    "?step (f 0 0 0 (Test 0) Signal w0) (f 0 0 0 Wait0 Signal w0)"
    "?step (f 0 0 0 Wait0 Signal w0) (f 0 1 0 Wait0 Wait1 w0)"
    "?step (f 0 1 0 Wait0 Wait1 w0) (f 0 1 0 Work Wait1 w0)"
    "?step (f 0 1 0 Work Wait1 w0) (f i' 1 0 Work Wait1 w')"
    "?step (f i' 1 0 Work Wait1 w') (f i' 1 0 Publish Wait1 w')"
    "?step (f i' 1 0 Publish Wait1 w') (f i' 1 1 Jumped Wait1 w')"
    "?step (f i' 1 1 Jumped Wait1 w') (f i' 1 1 Jumped Jumped w')"
    using core_step.read_hart [of "f 0 0 0 Entry Entry w0" Hart1 reload] core_step.read_hart [of "f 1 0 0 Entry Signal w0" Hart0 reload]
      core_step.core1 [of "f 1 0 0 Entry (Test 1) w0" Hart1 1 reload] core_step.core0 [of "f 0 0 0 (Test 0) Signal w0" Hart0 0 reload]
      core_step.signal [of "f 0 0 0 Wait0 Signal w0" Hart1 reload] core_step.joined [of "f 0 1 0 Wait0 Wait1 w0" Hart0 reload]
      core_step.working [of "f 0 1 0 Work Wait1 w0" Hart0 wstep i' w' reload] core_step.finished [of "f i' 1 0 Work Wait1 w'" Hart0 wdone reload]
      core_step.publish [of "f i' 1 0 Publish Wait1 w'" Hart0 reload] core_step.released [of "f i' 1 1 Jumped Wait1 w'" Hart1 reload] assms
    by (simp_all add: u g)
  then have "?step\<^sup>*\<^sup>* (boot_start w0) (f i' 1 1 Jumped Jumped w')"
    unfolding start by (meson converse_rtranclp_into_rtranclp rtranclp.rtrancl_refl)
  moreover have "pcs (f i' 1 1 Jumped Jumped w') h = Jumped" for h by (cases h) (simp_all add: u)
  ultimately show ?thesis using u(11) by blast
qed

end
