(* ===== verification/Kboot_Sha256.thy ===== *)
theory Kboot_Sha256
  imports Sha2_Correct
begin

unbundle bit_operations_syntax

text \<open>
  \<^verbatim>\<open>Kboot/src/bootloader_hi/sha256.c\<close>: the boot loader's driver of the K210 SHA-256 unit.
  The unit itself is not software: it is a parameter \<open>engine\<close>, a function of the block count
  register and of the words written to the data register that gives the result registers, or
  \<open>None\<close> when the completion flag never rises. \<open>sha_engine_ok\<close> states what the data sheet
  promises: a unit that is told the number of blocks it is fed digests them. What the driver
  must get right, and what is shown here, is everything before that: buffering, padding, the
  length field, the block count and the order of the result words.

  The registers of the driver are the record \<open>sha_unit\<close>; clock and reset writes have no
  effect that the model can observe except that a reset empties the unit, and the wait for room
  in the input FIFO is not modelled.
\<close>

section \<open>The driver\<close>

record sha256_context =
  total_len :: u64
  buffer_len :: u64
  buffer_bytes :: bytes

record sha_unit =
  sha_data_cnt :: u16
  sha_data_in :: "u32 list"

type_synonym sha_engine = "u16 \<Rightarrow> u32 list \<Rightarrow> u32 list option"

abbreviation (input) SHA256_BLOCK_LEN :: nat where "SHA256_BLOCK_LEN \<equiv> 64"
abbreviation (input) SHA256_HASH_WORDS :: nat where "SHA256_HASH_WORDS \<equiv> 8"

definition ROTL :: "u32 \<Rightarrow> nat \<Rightarrow> u32" where
  "ROTL x n = push_bit n x OR drop_bit (32 - n) x"

definition ROTR :: "u32 \<Rightarrow> nat \<Rightarrow> u32" where
  "ROTR x n = drop_bit n x OR push_bit (32 - n) x"

definition BYTESWAP :: "u32 \<Rightarrow> u32" where
  "BYTESWAP x = (ROTR x 8 AND 0xff00ff00) OR (ROTL x 8 AND 0x00ff00ff)"

definition byteswap64 :: "u64 \<Rightarrow> u64" where
  "byteswap64 x =
     (let a = ucast (drop_bit 32 x) :: u32;
          b = ucast x :: u32
      in push_bit 32 (ucast (BYTESWAP b)) OR ucast (BYTESWAP a))"

definition padding :: bytes where
  "padding = 0x80 # replicate 63 0"

definition sha256_init :: "sha256_context \<Rightarrow> u64 \<Rightarrow> sha256_context \<times> sha_unit" where
  "sha256_init context input_len =
     (context\<lparr>total_len := 0, buffer_len := 0\<rparr>,
      \<lparr>sha_data_cnt = ucast (ucast ((input_len + of_nat SHA256_BLOCK_LEN + 8) div of_nat SHA256_BLOCK_LEN) :: u32),
       sha_data_in = []\<rparr>)"

lemma room_left: "bl \<noteq> (64 :: u64) \<Longrightarrow> 0 < unat (64 - bl)"
  by (simp add: unat_gt_0)

text \<open>\<^verbatim>\<open>sha256_update\<close>: the words of a full buffer go to the unit.\<close>

function sha256_update :: "sha256_context \<times> sha_unit \<Rightarrow> bytes \<Rightarrow> sha256_context \<times> sha_unit" where
  "sha256_update cu data =
     (if length data = 0 then cu
      else
        let (context, sha256) = cu;
            buffer_bytes_left = of_nat SHA256_BLOCK_LEN - buffer_len context;
            bytes_to_copy = unat buffer_bytes_left;
            bytes_to_copy = (if length data < bytes_to_copy then length data else bytes_to_copy);
            context = context\<lparr>buffer_bytes := memcpy_at (buffer_bytes context) (unat (buffer_len context)) (take bytes_to_copy data),
                              total_len := total_len context + of_nat bytes_to_copy * 8,
                              buffer_len := buffer_len context + of_nat bytes_to_copy\<rparr>;
            data = drop bytes_to_copy data
        in if buffer_len context = of_nat SHA256_BLOCK_LEN then
             sha256_update (context\<lparr>buffer_len := 0\<rparr>,
               sha256\<lparr>sha_data_in := sha_data_in sha256 @ words_of_bytes 4 (buffer_bytes context)\<rparr>) data
           else sha256_update (context, sha256) data)"
  by pat_completeness auto
termination
  by (relation "measure (\<lambda>(cu, data). 2 * length data + (if buffer_len (fst cu) = 64 then 1 else 0))")
    (auto dest: room_left split: if_splits)

declare sha256_update.simps [simp del]

definition sha256_final :: "sha_engine \<Rightarrow> sha256_context \<times> sha_unit \<Rightarrow> (bytes \<times> sha256_context) option" where
  "sha256_final engine cu =
     (let context = fst cu;
          bytes_to_pad = 120 - buffer_len context;
          bytes_to_pad = (if 64 < bytes_to_pad then bytes_to_pad - 64 else bytes_to_pad);
          length_pad = byteswap64 (total_len context);
          cu = sha256_update cu (take (unat bytes_to_pad) padding);
          (context, sha256) = sha256_update cu (bytes_le 8 length_pad)
      in case engine (sha_data_cnt sha256) (sha_data_in sha256) of
           None \<Rightarrow> None
         | Some sha_result \<Rightarrow>
             Some (concat (map (\<lambda>i. bytes_le 4 (sha_result ! (SHA256_HASH_WORDS - i - 1))) [0..<SHA256_HASH_WORDS]),
                   context))"

definition sha256_hard_calculate :: "sha_engine \<Rightarrow> sha256_context \<Rightarrow> bytes \<Rightarrow> bytes option" where
  "sha256_hard_calculate engine sha input =
     map_option fst (sha256_final engine (sha256_update (sha256_init sha (of_nat (length input))) input))"

text \<open>The documented behaviour of the unit in big-endian mode: fed as many blocks as announced,
  it leaves their SHA-256 chaining value in the result registers, last word first, each word
  byte-swapped with respect to the value.\<close>

definition sha_engine_ok :: "sha_engine \<Rightarrow> bool" where
  "sha_engine_ok engine \<longleftrightarrow>
     (\<forall>cnt ws. length ws = 16 * unat cnt \<longrightarrow>
        engine cnt ws = Some (rev (map REVERSE32
          (md_fold 64 (\<lambda>s b. compress256 s (be_words 4 b)) sha256_initial_hash_value (bytes_of_words 4 ws)))))"

text \<open>A unit as the data sheet describes it; with any other count it never completes.\<close>

definition model_engine :: sha_engine where
  "model_engine cnt ws =
     (if length ws = 16 * unat cnt
      then Some (rev (map REVERSE32
          (md_fold 64 (\<lambda>s b. compress256 s (be_words 4 b)) sha256_initial_hash_value (bytes_of_words 4 ws))))
      else None)"

lemma model_engine_ok: "sha_engine_ok model_engine"
  by (simp add: sha_engine_ok_def model_engine_def)

section \<open>Buffering and padding\<close>

lemma BYTESWAP_swap: "BYTESWAP w = REVERSE32 w"
  by (simp add: bit_listing BYTESWAP_def REVERSE32_def ROTL_def ROTR_def Let_def bit_word_out_of_range)

lemma byteswap64_swap: "byteswap64 w = REVERSE64 w"
  by (simp add: bit_listing byteswap64_def BYTESWAP_swap REVERSE32_def REVERSE64_def Let_def bit_word_out_of_range)
    (simp add: numeral_eq_Suc)

lemma REVERSE32_bytes: "bytes_le 4 (REVERSE32 w) = bytes_be 4 w"
  by (simp add: REVERSE32_swap word_be_def bytes_be_def bytes_le_word_le)

text \<open>\<open>drv_repr\<close>: what the driver holds after the bytes \<open>m\<close>: the whole blocks are in the
  unit, the tail in the buffer.\<close>

definition drv_repr :: "u16 \<Rightarrow> sha256_context \<times> sha_unit \<Rightarrow> bytes \<Rightarrow> bool" where
  "drv_repr cnt cu m \<longleftrightarrow>
     total_len (fst cu) = of_nat (8 * length m) \<and>
     buffer_len (fst cu) = of_nat (length m mod 64) \<and>
     length (buffer_bytes (fst cu)) = 64 \<and>
     take (length m mod 64) (buffer_bytes (fst cu)) = tail_part 64 m \<and>
     sha_data_cnt (snd cu) = cnt \<and>
     bytes_of_words 4 (sha_data_in (snd cu)) = full_part 64 m"

lemma drv_repr_init:
  "length (buffer_bytes c) = 64 \<Longrightarrow>
   drv_repr (ucast (ucast ((n + 64 + 8) div 64) :: u32)) (sha256_init c n) []"
  by (simp add: drv_repr_def sha256_init_def full_part_def tail_part_def bytes_of_words_def)

text \<open>The two outcomes of one pass of the loop.\<close>

lemma drv_repr_fill:
  assumes r: "drv_repr cnt (c, s) m" and d: "length d = 64 - length m mod 64"
    and bs: "bs = memcpy_at (buffer_bytes c) (length m mod 64) d"
  shows "drv_repr cnt (c\<lparr>buffer_bytes := bs, total_len := total_len c + of_nat (length d) * 8, buffer_len := 0\<rparr>,
           s\<lparr>sha_data_in := sha_data_in s @ words_of_bytes 4 bs\<rparr>) (m @ d)"
proof -
  have "bs = tail_part 64 m @ d"
    using r d unfolding bs by (simp add: drv_repr_def memcpy_at_full)
  moreover have "length (tail_part 64 m @ d) = 64" using parts_complete(3) [OF d] by simp
  moreover have "bytes_of_words 4 (words_of_bytes 4 bs :: u32 list) = bs"
    using calculation by (intro bytes_of_words_of_bytes) simp_all
  ultimately show ?thesis
    using r parts_complete [OF d] d
    by (simp add: drv_repr_def bytes_of_words_def algebra_simps)
qed

lemma drv_repr_hold:
  assumes r: "drv_repr cnt (c, s) m" and d: "length d < 64 - length m mod 64"
  shows "drv_repr cnt (c\<lparr>buffer_bytes := memcpy_at (buffer_bytes c) (length m mod 64) d,
           total_len := total_len c + of_nat (length d) * 8,
           buffer_len := buffer_len c + of_nat (length d)\<rparr>, s) (m @ d)"
  using r d parts_buffer [OF d] take_memcpy_at [of "length m mod 64" d "buffer_bytes c"]
  by (simp add: drv_repr_def algebra_simps)

lemma drv_repr_update: "drv_repr cnt cu m \<Longrightarrow> drv_repr cnt (sha256_update cu d) (m @ d)"
proof (induction "length d" arbitrary: cu m d rule: less_induct)
  case less
  obtain c s where cu: "cu = (c, s)" by force
  define u where "u = length m mod 64"
  have u: "u < 64" by (simp add: u_def)
  have bl: "buffer_len c = of_nat u" "unat (buffer_len c) = u"
    using less.prems u by (simp_all add: drv_repr_def cu u_def unat_of_nat)
  have left: "unat (64 - of_nat u :: u64) = 64 - u" "unat (of_nat u :: u64) = u"
    using u unat_minus_of_nat [of u "64 :: u64"] bl by simp_all
  consider "d = []" | "d \<noteq> []" "length d < 64 - u" | "64 - u \<le> length d" by linarith
  then show ?case
  proof cases
    case 1
    then show ?thesis using less.prems by (simp add: sha256_update.simps)
  next
    case 2
    have ne: "buffer_len c + of_nat (length d) \<noteq> 64"
    proof
      assume "buffer_len c + of_nat (length d) = 64"
      then have "(of_nat (u + length d) :: u64) = 64" using bl by simp
      moreover have "unat (of_nat (u + length d) :: u64) = u + length d"
        using 2 by (intro unat_of_nat_small) simp
      ultimately show False using 2 by simp
    qed
    show ?thesis
      using drv_repr_hold [of cnt c s m d] less.prems 2 ne left bl(1)
      by (subst sha256_update.simps) (simp add: cu u_def Let_def sha256_update.simps)
  next
    case 3
    have l: "length (take (64 - u) d) = 64 - u" using 3 by simp
    have "drv_repr cnt (sha256_update (c\<lparr>buffer_bytes := memcpy_at (buffer_bytes c) u (take (64 - u) d),
        total_len := total_len c + of_nat (64 - u) * 8, buffer_len := 0\<rparr>,
        s\<lparr>sha_data_in := sha_data_in s @ words_of_bytes 4 (memcpy_at (buffer_bytes c) u (take (64 - u) d))\<rparr>)
        (drop (64 - u) d)) ((m @ take (64 - u) d) @ drop (64 - u) d)"
      using drv_repr_fill [of cnt c s m "take (64 - u) d", OF _ _ refl] less.prems 3 u l
      by (intro less.hyps) (auto simp: cu u_def)
    moreover have "buffer_len c + of_nat (64 - u) = 64" using u bl by (simp add: of_nat_diff)
    moreover have "d \<noteq> []" using 3 u by auto
    ultimately show ?thesis
      using 3 u by (subst sha256_update.simps) (simp add: cu Let_def left bl(1))
  qed
qed

text \<open>The padding the driver chooses is that of the standard.\<close>

lemma final_message:
  assumes "drv_repr cnt cu m"
  shows "drv_repr cnt (sha256_update (sha256_update cu
           (take (unat (let n = 120 - buffer_len (fst cu) in if 64 < n then n - 64 else n)) padding))
           (bytes_le 8 (byteswap64 (total_len (fst cu))))) (md_pad 64 (len64 (length m)) m)"
proof -
  define u where "u = length m mod 64"
  have u: "u < 64" by (simp add: u_def)
  have bl: "buffer_len (fst cu) = of_nat u" using assms by (simp add: drv_repr_def u_def)
  have s: "unat (120 - of_nat u :: u64) = 120 - u" "u < 56 \<Longrightarrow> unat (56 - of_nat u :: u64) = 56 - u"
    using u unat_minus_of_nat [of u "120 :: u64"] unat_minus_of_nat [of u "56 :: u64"] by simp_all
  then have pad: "unat (let n = 120 - buffer_len (fst cu) in if 64 < n then n - 64 else n) =
      (if u < 56 then 56 - u else 120 - u)"
    using u by (auto simp: bl Let_def word_less_nat_alt)
  have z: "(64 - (length m + 1 + length (len64 (length m))) mod 64) mod 64 = (if u < 56 then 56 - u else 120 - u) - 1"
  proof -
    have "(length m + 9) mod 64 = (u + 9) mod 64" unfolding u_def by (rule mod_add_left_eq [symmetric])
    then have "(length m + 1 + length (len64 (length m))) mod 64 = (u + 9) mod 64"
      by (simp add: len64_def add.commute)
    moreover consider "u < 55" | "u = 55" | "56 \<le> u" by linarith
    then have "(64 - (u + 9) mod 64) mod 64 = (if u < 56 then 56 - u else 120 - u) - 1"
      using u by cases (simp_all add: le_mod_geq)
    ultimately show ?thesis by simp
  qed
  have pt: "take k padding = 0x80 # replicate (k - 1) 0" if "0 < k" "k \<le> 64" for k
    using that by (cases k) (simp_all add: padding_def)
  have "bytes_le 8 (byteswap64 (total_len (fst cu))) = len64 (length m)"
    using assms by (simp add: drv_repr_def byteswap64_swap REVERSE64_swap word_be_def bytes_be_def
        bytes_le_word_le len64_def)
  moreover have "m @ take (if u < 56 then 56 - u else 120 - u) padding @ len64 (length m) =
      md_pad 64 (len64 (length m)) m"
    unfolding md_pad_def z using u pt by simp
  ultimately show ?thesis
    unfolding pad using drv_repr_update [OF drv_repr_update [OF assms]] by (metis append_assoc)
qed

text \<open>The count written to the unit is the number of blocks of the padded message, up to the
  16 bits of the field.\<close>

lemma length_md_pad64: "length (md_pad 64 (len64 (length m)) m) = (length m + 72) div 64 * 64"
proof -
  let ?n = "length (md_pad 64 (len64 (length m)) m)"
  obtain k where k: "?n = 64 * k" using md_pad_dvd [of 64 "len64 (length m)" m] by (auto simp: dvd_def)
  have "length m + 9 \<le> ?n" "?n < length m + 9 + 64"
    unfolding md_pad_def by (simp_all add: len64_def)
  then have "(length m + 72) div 64 = k" unfolding k by (intro div_nat_eqI) simp_all
  then show ?thesis using k by simp
qed

lemma block_count:
  assumes "(length m + 72) div 64 < 2 ^ 16"
  shows "unat (ucast (ucast ((of_nat (length m) + 64 + 8) div 64 :: u64) :: u32) :: u16) = (length m + 72) div 64"
proof -
  have "unat (of_nat (length m + 72) :: u64) = length m + 72"
    using assms by (intro unat_of_nat_small) simp
  then have "unat ((of_nat (length m) + 64 + 8) div 64 :: u64) = (length m + 72) div 64"
    by (simp add: unat_div add.assoc)
  then show ?thesis using assms by (simp add: unsigned_ucast_eq unsigned_take_bit_eq take_bit_nat_eq_self)
qed

lemma drv_repr_updates: "drv_repr cnt cu m \<Longrightarrow> drv_repr cnt (foldl sha256_update cu ds) (m @ concat ds)"
proof (induction ds arbitrary: cu m)
  case (Cons d ds)
  then show ?case using Cons.IH [OF drv_repr_update [OF Cons.prems]] by simp
qed simp

text \<open>What \<open>sha256_final\<close> hands to the unit and returns, whatever the count register holds.\<close>

lemma sha256_final_repr:
  assumes r: "drv_repr cnt cu m"
  shows "\<exists>ws c'. bytes_of_words 4 ws = md_pad 64 (len64 (length m)) m \<and> length (buffer_bytes c') = 64 \<and>
     sha256_final engine cu = map_option (\<lambda>res.
       (concat (map (\<lambda>i. bytes_le 4 (res ! (8 - i - 1))) [0..<8]), c')) (engine cnt ws)"
proof -
  define fin where "fin = sha256_update (sha256_update cu
           (take (unat (let n = 120 - buffer_len (fst cu) in if 64 < n then n - 64 else n)) padding))
           (bytes_le 8 (byteswap64 (total_len (fst cu))))"
  let ?p = "md_pad 64 (len64 (length m)) m"
  have f: "drv_repr cnt fin ?p" unfolding fin_def by (rule final_message [OF r])
  have "full_part 64 ?p = ?p"
    using full_tail_unique [of ?p ?p "[]" 64] md_pad_dvd [of 64] by simp
  with f have "bytes_of_words 4 (sha_data_in (snd fin)) = ?p" "sha_data_cnt (snd fin) = cnt"
    "length (buffer_bytes (fst fin)) = 64"
    by (simp_all add: drv_repr_def)
  moreover have "sha256_final engine cu = map_option (\<lambda>res.
      (concat (map (\<lambda>i. bytes_le 4 (res ! (8 - i - 1))) [0..<8]), fst fin))
      (engine (sha_data_cnt (snd fin)) (sha_data_in (snd fin)))"
    unfolding sha256_final_def fin_def Let_def by (simp add: split_beta split: option.split)
  ultimately show ?thesis by metis
qed

lemma sha256_final_buffer:
  assumes "drv_repr cnt cu m" and "sha256_final engine cu = Some (h, c)"
  shows "length (buffer_bytes c) = 64"
  using sha256_final_repr [OF assms(1), of engine] assms(2) by (auto simp: map_option_case split: option.splits)

lemma sha256_final_digest:
  assumes e: "sha_engine_ok engine" and c: "length (buffer_bytes c) = 64"
    and m: "(length (concat ds) + 72) div 64 < 2 ^ 16"
  shows "\<exists>c'. sha256_final engine (foldl sha256_update (sha256_init c (of_nat (length (concat ds)))) ds) =
           Some (SHA256 (concat ds), c') \<and> length (buffer_bytes c') = 64"
proof -
  let ?m = "concat ds" and ?cnt = "ucast (ucast ((of_nat (length (concat ds)) + 64 + 8) div 64 :: u64) :: u32) :: u16"
  let ?cu = "foldl sha256_update (sha256_init c (of_nat (length ?m))) ds"
  have "drv_repr ?cnt ?cu ?m" using drv_repr_updates [OF drv_repr_init [OF c]] by simp
  from sha256_final_repr [OF this, of engine] obtain ws c' where
    ws: "bytes_of_words 4 ws = md_pad 64 (len64 (length ?m)) ?m" and c': "length (buffer_bytes c') = 64"
    and fin: "sha256_final engine ?cu = map_option (\<lambda>res.
       (concat (map (\<lambda>i. bytes_le 4 (res ! (8 - i - 1))) [0..<8]), c')) (engine ?cnt ws)" by blast
  have "4 * length ws = (length ?m + 72) div 64 * 64"
    using ws length_bytes_of_words [of 4 ws] length_md_pad64 [of ?m] by simp
  then have lw: "length ws = 16 * unat ?cnt" using block_count [OF m] by simp
  define res where "res = md_fold 64 (\<lambda>s b. compress256 s (be_words 4 b)) sha256_initial_hash_value (bytes_of_words 4 ws)"
  have "engine ?cnt ws = Some (rev (map REVERSE32 res))"
    using e lw unfolding sha_engine_ok_def res_def by blast
  moreover have l: "length res = 8"
    unfolding res_def by (rule length_md_fold) (simp_all add: sha256_initial_hash_value_def)
  moreover have "map (\<lambda>i. bytes_le 4 (rev (map REVERSE32 res) ! (8 - i - 1))) [0..<8] = map (bytes_be 4) res"
    using l by (intro nth_equalityI) (simp_all add: rev_nth REVERSE32_bytes del: upt_rec_numeral)
  ultimately show ?thesis using c' fin
    by (simp add: SHA256_def md_digest_def res_def ws)
qed

section \<open>Properties\<close>

text \<open>C23: on a unit that behaves as documented, the driver's digest of a message of less than
  65535 blocks is its SHA-256 digest, however the message is cut into calls of
  \<^verbatim>\<open>sha256_update\<close> and whatever the context held before: the buffering, the padding, the
  length field, the block count and the order of the result words are right.\<close>

theorem kboot_sha256_driver:
  assumes "sha_engine_ok engine" and "length (buffer_bytes c) = 64"
    and "(length (concat ds) + 72) div 64 < 2 ^ 16"
  shows "map_option fst (sha256_final engine
           (foldl sha256_update (sha256_init c (of_nat (length (concat ds)))) ds)) = Some (SHA256 (concat ds))"
  using sha256_final_digest [OF assms] by auto

theorem kboot_sha256_driver_witness:
  "map_option fst (sha256_final model_engine
     (foldl sha256_update (sha256_init \<lparr>total_len = 7, buffer_len = 9, buffer_bytes = replicate 64 1\<rparr> 8)
       [[1, 2, 3], [4, 5, 6, 7, 8]])) = Some (SHA256 [1, 2, 3, 4, 5, 6, 7, 8])"
  using kboot_sha256_driver [of model_engine "\<lparr>total_len = 7, buffer_len = 9, buffer_bytes = replicate 64 1\<rparr>"
      "[[1, 2, 3], [4, 5, 6, 7, 8]]"] by (simp add: model_engine_ok)

end
