(* ===== verification/Fpioa_Table.thy ===== *)
theory Fpioa_Table
  imports Prelude
begin

text \<open>
  The table \<^verbatim>\<open>function_config\<close> of \<^verbatim>\<open>Kboot/src/bootloader_hi/fpioa.c\<close>: for each of the 256
  functions of the K210 pin multiplexer the configuration of a pad that carries it. The fields of
  a row are those of \<^verbatim>\<open>fpioa_assign_t\<close> (with the tie bits last), bit fields as words of their width; the
  rows are cut into pieces of eight, in the order of the source. The channel of row \<open>i\<close> is shown to be \<open>i\<close>, and
  the only rows with a tied input are the arbitration inputs of the two SPI masters, as the
  header documents.
\<close>

type_synonym u1 = "1 word"
type_synonym u4 = "4 word"

record fpioa_io_config =
  ch_sel :: u8
  ds :: u4
  oe_en :: u1
  oe_inv :: u1
  do_sel :: u1
  do_inv :: u1
  pu :: u1
  pd :: u1
  resv0 :: u1
  sl :: u1
  ie_en :: u1
  ie_inv :: u1
  di_inv :: u1
  st :: u1
  resv1 :: "7 word"
  pad_di :: u1

text \<open>A row has the fields of a pad register and the two tie bits, which the source packs into
  the reserved bits.\<close>

record fpioa_assign = fpioa_io_config +
  tie_en :: u1
  tie_val :: u1

definition fpioa_assign_row :: "u8 \<Rightarrow> u4 \<Rightarrow> u1 \<Rightarrow> u1 \<Rightarrow> u1 \<Rightarrow> u1 \<Rightarrow> u1 \<Rightarrow> u1 \<Rightarrow> u1 \<Rightarrow> u1 \<Rightarrow> u1 \<Rightarrow> u1 \<Rightarrow> u1 \<Rightarrow>
    u1 \<Rightarrow> 7 word \<Rightarrow> u1 \<Rightarrow> u1 \<Rightarrow> u1 \<Rightarrow> fpioa_assign" where
  "fpioa_assign_row c d e1 e2 s1 s2 p1 p2 r0 w i1 i2 i3 t r1 pdi te tv =
     \<lparr>ch_sel = c, ds = d, oe_en = e1, oe_inv = e2, do_sel = s1, do_inv = s2, pu = p1, pd = p2,
      resv0 = r0, sl = w, ie_en = i1, ie_inv = i2, di_inv = i3, st = t, resv1 = r1, pad_di = pdi,
      tie_en = te, tie_val = tv\<rparr>"

abbreviation (input) FUNC_GPIOHS0 :: int where "FUNC_GPIOHS0 \<equiv> 24"
abbreviation (input) FUNC_RESV0 :: int where "FUNC_RESV0 \<equiv> 120"
abbreviation (input) FUNC_SPI0_ARB :: nat where "FUNC_SPI0_ARB \<equiv> 16"
abbreviation (input) FUNC_SPI1_ARB :: nat where "FUNC_SPI1_ARB \<equiv> 82"
abbreviation (input) FUNC_MAX :: int where "FUNC_MAX \<equiv> 256"

section \<open>The rows\<close>

text \<open>\<^verbatim>\<open>FUNC_JTAG_TCLK\<close> to \<^verbatim>\<open>FUNC_SPI0_D3\<close>.\<close>

definition function_config_0 :: "fpioa_assign list" where
  "function_config_0 = [
     fpioa_assign_row 0 0 0 0 0 0 0 0 0 0 1 0 0 1 0 0 0 0,
     fpioa_assign_row 1 0 0 0 0 0 0 0 0 0 1 0 0 1 0 0 0 0,
     fpioa_assign_row 2 0 0 0 0 0 0 0 0 0 1 0 0 1 0 0 0 0,
     fpioa_assign_row 3 15 1 0 0 0 0 0 0 0 0 0 0 0 0 0 0 0,
     fpioa_assign_row 4 15 1 1 0 0 0 0 0 0 1 1 0 1 0 0 0 0,
     fpioa_assign_row 5 15 1 1 0 0 0 0 0 0 1 1 0 1 0 0 0 0,
     fpioa_assign_row 6 15 1 1 0 0 0 0 0 0 1 1 0 1 0 0 0 0,
     fpioa_assign_row 7 15 1 1 0 0 0 0 0 0 1 1 0 1 0 0 0 0]"

text \<open>\<^verbatim>\<open>FUNC_SPI0_D4\<close> to \<^verbatim>\<open>FUNC_SPI0_SS3\<close>.\<close>

definition function_config_1 :: "fpioa_assign list" where
  "function_config_1 = [
     fpioa_assign_row 8 15 1 1 0 0 0 0 0 0 1 1 0 1 0 0 0 0,
     fpioa_assign_row 9 15 1 1 0 0 0 0 0 0 1 1 0 1 0 0 0 0,
     fpioa_assign_row 10 15 1 1 0 0 0 0 0 0 1 1 0 1 0 0 0 0,
     fpioa_assign_row 11 15 1 1 0 0 0 0 0 0 1 1 0 1 0 0 0 0,
     fpioa_assign_row 12 15 1 0 0 0 0 0 0 0 0 0 0 0 0 0 0 0,
     fpioa_assign_row 13 15 1 0 0 0 0 0 0 0 0 0 0 0 0 0 0 0,
     fpioa_assign_row 14 15 1 0 0 0 0 0 0 0 0 0 0 0 0 0 0 0,
     fpioa_assign_row 15 15 1 0 0 0 0 0 0 0 0 0 0 0 0 0 0 0]"

text \<open>\<^verbatim>\<open>FUNC_SPI0_ARB\<close> to \<^verbatim>\<open>FUNC_CLK_I2C1\<close>.\<close>

definition function_config_2 :: "fpioa_assign list" where
  "function_config_2 = [
     fpioa_assign_row 16 0 0 0 0 0 0 0 0 0 1 0 0 1 0 0 1 1,
     fpioa_assign_row 17 15 1 0 0 0 0 0 0 0 0 0 0 0 0 0 0 0,
     fpioa_assign_row 18 0 0 0 0 0 0 0 0 0 1 0 0 1 0 0 0 0,
     fpioa_assign_row 19 15 1 0 0 0 0 0 0 0 0 0 0 0 0 0 0 0,
     fpioa_assign_row 20 0 0 0 0 0 0 0 0 0 1 0 0 1 0 0 0 0,
     fpioa_assign_row 21 0 0 0 0 0 0 0 0 0 1 0 0 1 0 0 0 0,
     fpioa_assign_row 22 15 1 0 0 0 0 0 0 0 0 0 0 0 0 0 0 0,
     fpioa_assign_row 23 15 1 0 0 0 0 0 0 0 0 0 0 0 0 0 0 0]"

text \<open>\<^verbatim>\<open>FUNC_GPIOHS0\<close> to \<^verbatim>\<open>FUNC_GPIOHS7\<close>.\<close>

definition function_config_3 :: "fpioa_assign list" where
  "function_config_3 = [
     fpioa_assign_row 24 15 1 0 0 0 0 0 0 0 1 0 0 1 0 0 0 0,
     fpioa_assign_row 25 15 1 0 0 0 0 0 0 0 1 0 0 1 0 0 0 0,
     fpioa_assign_row 26 15 1 0 0 0 0 0 0 0 1 0 0 1 0 0 0 0,
     fpioa_assign_row 27 15 1 0 0 0 0 0 0 0 1 0 0 1 0 0 0 0,
     fpioa_assign_row 28 15 1 0 0 0 0 0 0 0 1 0 0 1 0 0 0 0,
     fpioa_assign_row 29 15 1 0 0 0 0 0 0 0 1 0 0 1 0 0 0 0,
     fpioa_assign_row 30 15 1 0 0 0 0 0 0 0 1 0 0 1 0 0 0 0,
     fpioa_assign_row 31 15 1 0 0 0 0 0 0 0 1 0 0 1 0 0 0 0]"

text \<open>\<^verbatim>\<open>FUNC_GPIOHS8\<close> to \<^verbatim>\<open>FUNC_GPIOHS15\<close>.\<close>

definition function_config_4 :: "fpioa_assign list" where
  "function_config_4 = [
     fpioa_assign_row 32 15 1 0 0 0 0 0 0 0 1 0 0 1 0 0 0 0,
     fpioa_assign_row 33 15 1 0 0 0 0 0 0 0 1 0 0 1 0 0 0 0,
     fpioa_assign_row 34 15 1 0 0 0 0 0 0 0 1 0 0 1 0 0 0 0,
     fpioa_assign_row 35 15 1 0 0 0 0 0 0 0 1 0 0 1 0 0 0 0,
     fpioa_assign_row 36 15 1 0 0 0 0 0 0 0 1 0 0 1 0 0 0 0,
     fpioa_assign_row 37 15 1 0 0 0 0 0 0 0 1 0 0 1 0 0 0 0,
     fpioa_assign_row 38 15 1 0 0 0 0 0 0 0 1 0 0 1 0 0 0 0,
     fpioa_assign_row 39 15 1 0 0 0 0 0 0 0 1 0 0 1 0 0 0 0]"

text \<open>\<^verbatim>\<open>FUNC_GPIOHS16\<close> to \<^verbatim>\<open>FUNC_GPIOHS23\<close>.\<close>

definition function_config_5 :: "fpioa_assign list" where
  "function_config_5 = [
     fpioa_assign_row 40 15 1 0 0 0 0 0 0 0 1 0 0 1 0 0 0 0,
     fpioa_assign_row 41 15 1 0 0 0 0 0 0 0 1 0 0 1 0 0 0 0,
     fpioa_assign_row 42 15 1 0 0 0 0 0 0 0 1 0 0 1 0 0 0 0,
     fpioa_assign_row 43 15 1 0 0 0 0 0 0 0 1 0 0 1 0 0 0 0,
     fpioa_assign_row 44 15 1 0 0 0 0 0 0 0 1 0 0 1 0 0 0 0,
     fpioa_assign_row 45 15 1 0 0 0 0 0 0 0 1 0 0 1 0 0 0 0,
     fpioa_assign_row 46 15 1 0 0 0 0 0 0 0 1 0 0 1 0 0 0 0,
     fpioa_assign_row 47 15 1 0 0 0 0 0 0 0 1 0 0 1 0 0 0 0]"

text \<open>\<^verbatim>\<open>FUNC_GPIOHS24\<close> to \<^verbatim>\<open>FUNC_GPIOHS31\<close>.\<close>

definition function_config_6 :: "fpioa_assign list" where
  "function_config_6 = [
     fpioa_assign_row 48 15 1 0 0 0 0 0 0 0 1 0 0 1 0 0 0 0,
     fpioa_assign_row 49 15 1 0 0 0 0 0 0 0 1 0 0 1 0 0 0 0,
     fpioa_assign_row 50 15 1 0 0 0 0 0 0 0 1 0 0 1 0 0 0 0,
     fpioa_assign_row 51 15 1 0 0 0 0 0 0 0 1 0 0 1 0 0 0 0,
     fpioa_assign_row 52 15 1 0 0 0 0 0 0 0 1 0 0 1 0 0 0 0,
     fpioa_assign_row 53 15 1 0 0 0 0 0 0 0 1 0 0 1 0 0 0 0,
     fpioa_assign_row 54 15 1 0 0 0 0 0 0 0 1 0 0 1 0 0 0 0,
     fpioa_assign_row 55 15 1 0 0 0 0 0 0 0 1 0 0 1 0 0 0 0]"

text \<open>\<^verbatim>\<open>FUNC_GPIO0\<close> to \<^verbatim>\<open>FUNC_GPIO7\<close>.\<close>

definition function_config_7 :: "fpioa_assign list" where
  "function_config_7 = [
     fpioa_assign_row 56 15 1 0 0 0 0 0 0 0 1 0 0 1 0 0 0 0,
     fpioa_assign_row 57 15 1 0 0 0 0 0 0 0 1 0 0 1 0 0 0 0,
     fpioa_assign_row 58 15 1 0 0 0 0 0 0 0 1 0 0 1 0 0 0 0,
     fpioa_assign_row 59 15 1 0 0 0 0 0 0 0 1 0 0 1 0 0 0 0,
     fpioa_assign_row 60 15 1 0 0 0 0 0 0 0 1 0 0 1 0 0 0 0,
     fpioa_assign_row 61 15 1 0 0 0 0 0 0 0 1 0 0 1 0 0 0 0,
     fpioa_assign_row 62 15 1 0 0 0 0 0 0 0 1 0 0 1 0 0 0 0,
     fpioa_assign_row 63 15 1 0 0 0 0 0 0 0 1 0 0 1 0 0 0 0]"

text \<open>\<^verbatim>\<open>FUNC_UART1_RX\<close> to \<^verbatim>\<open>FUNC_SPI1_D1\<close>.\<close>

definition function_config_8 :: "fpioa_assign list" where
  "function_config_8 = [
     fpioa_assign_row 64 0 0 0 0 0 0 0 0 0 1 0 0 1 0 0 0 0,
     fpioa_assign_row 65 15 1 0 0 0 0 0 0 0 0 0 0 0 0 0 0 0,
     fpioa_assign_row 66 0 0 0 0 0 0 0 0 0 1 0 0 1 0 0 0 0,
     fpioa_assign_row 67 15 1 0 0 0 0 0 0 0 0 0 0 0 0 0 0 0,
     fpioa_assign_row 68 0 0 0 0 0 0 0 0 0 1 0 0 1 0 0 0 0,
     fpioa_assign_row 69 15 1 0 0 0 0 0 0 0 0 0 0 0 0 0 0 0,
     fpioa_assign_row 70 15 1 1 0 0 0 0 0 0 1 1 0 1 0 0 0 0,
     fpioa_assign_row 71 15 1 1 0 0 0 0 0 0 1 1 0 1 0 0 0 0]"

text \<open>\<^verbatim>\<open>FUNC_SPI1_D2\<close> to \<^verbatim>\<open>FUNC_SPI1_SS1\<close>.\<close>

definition function_config_9 :: "fpioa_assign list" where
  "function_config_9 = [
     fpioa_assign_row 72 15 1 1 0 0 0 0 0 0 1 1 0 1 0 0 0 0,
     fpioa_assign_row 73 15 1 1 0 0 0 0 0 0 1 1 0 1 0 0 0 0,
     fpioa_assign_row 74 15 1 1 0 0 0 0 0 0 1 1 0 1 0 0 0 0,
     fpioa_assign_row 75 15 1 1 0 0 0 0 0 0 1 1 0 1 0 0 0 0,
     fpioa_assign_row 76 15 1 1 0 0 0 0 0 0 1 1 0 1 0 0 0 0,
     fpioa_assign_row 77 15 1 1 0 0 0 0 0 0 1 1 0 1 0 0 0 0,
     fpioa_assign_row 78 15 1 0 0 0 0 0 0 0 0 0 0 0 0 0 0 0,
     fpioa_assign_row 79 15 1 0 0 0 0 0 0 0 0 0 0 0 0 0 0 0]"

text \<open>\<^verbatim>\<open>FUNC_SPI1_SS2\<close> to \<^verbatim>\<open>FUNC_I2S0_MCLK\<close>.\<close>

definition function_config_10 :: "fpioa_assign list" where
  "function_config_10 = [
     fpioa_assign_row 80 15 1 0 0 0 0 0 0 0 0 0 0 0 0 0 0 0,
     fpioa_assign_row 81 15 1 0 0 0 0 0 0 0 0 0 0 0 0 0 0 0,
     fpioa_assign_row 82 0 0 0 0 0 0 0 0 0 1 0 0 1 0 0 1 1,
     fpioa_assign_row 83 15 1 0 0 0 0 0 0 0 0 0 0 0 0 0 0 0,
     fpioa_assign_row 84 15 1 1 0 0 0 0 0 0 1 1 0 1 0 0 0 0,
     fpioa_assign_row 85 0 0 0 0 0 0 0 0 0 1 0 0 1 0 0 0 0,
     fpioa_assign_row 86 0 0 0 0 0 0 0 0 0 1 0 0 1 0 0 0 0,
     fpioa_assign_row 87 15 1 0 0 0 0 0 0 0 0 0 0 0 0 0 0 0]"

text \<open>\<^verbatim>\<open>FUNC_I2S0_SCLK\<close> to \<^verbatim>\<open>FUNC_I2S0_OUT_D1\<close>.\<close>

definition function_config_11 :: "fpioa_assign list" where
  "function_config_11 = [
     fpioa_assign_row 88 15 1 0 0 0 0 0 0 0 0 0 0 0 0 0 0 0,
     fpioa_assign_row 89 15 1 0 0 0 0 0 0 0 0 0 0 0 0 0 0 0,
     fpioa_assign_row 90 0 0 0 0 0 0 0 0 0 1 0 0 1 0 0 0 0,
     fpioa_assign_row 91 0 0 0 0 0 0 0 0 0 1 0 0 1 0 0 0 0,
     fpioa_assign_row 92 0 0 0 0 0 0 0 0 0 1 0 0 1 0 0 0 0,
     fpioa_assign_row 93 0 0 0 0 0 0 0 0 0 1 0 0 1 0 0 0 0,
     fpioa_assign_row 94 15 1 0 0 0 0 0 0 0 0 0 0 0 0 0 0 0,
     fpioa_assign_row 95 15 1 0 0 0 0 0 0 0 0 0 0 0 0 0 0 0]"

text \<open>\<^verbatim>\<open>FUNC_I2S0_OUT_D2\<close> to \<^verbatim>\<open>FUNC_I2S1_IN_D2\<close>.\<close>

definition function_config_12 :: "fpioa_assign list" where
  "function_config_12 = [
     fpioa_assign_row 96 15 1 0 0 0 0 0 0 0 0 0 0 0 0 0 0 0,
     fpioa_assign_row 97 15 1 0 0 0 0 0 0 0 0 0 0 0 0 0 0 0,
     fpioa_assign_row 98 15 1 0 0 0 0 0 0 0 0 0 0 0 0 0 0 0,
     fpioa_assign_row 99 15 1 0 0 0 0 0 0 0 0 0 0 0 0 0 0 0,
     fpioa_assign_row 100 15 1 0 0 0 0 0 0 0 0 0 0 0 0 0 0 0,
     fpioa_assign_row 101 0 0 0 0 0 0 0 0 0 1 0 0 1 0 0 0 0,
     fpioa_assign_row 102 0 0 0 0 0 0 0 0 0 1 0 0 1 0 0 0 0,
     fpioa_assign_row 103 0 0 0 0 0 0 0 0 0 1 0 0 1 0 0 0 0]"

text \<open>\<^verbatim>\<open>FUNC_I2S1_IN_D3\<close> to \<^verbatim>\<open>FUNC_I2S2_WS\<close>.\<close>

definition function_config_13 :: "fpioa_assign list" where
  "function_config_13 = [
     fpioa_assign_row 104 0 0 0 0 0 0 0 0 0 1 0 0 1 0 0 0 0,
     fpioa_assign_row 105 15 1 0 0 0 0 0 0 0 0 0 0 0 0 0 0 0,
     fpioa_assign_row 106 15 1 0 0 0 0 0 0 0 0 0 0 0 0 0 0 0,
     fpioa_assign_row 107 15 1 0 0 0 0 0 0 0 0 0 0 0 0 0 0 0,
     fpioa_assign_row 108 15 1 0 0 0 0 0 0 0 0 0 0 0 0 0 0 0,
     fpioa_assign_row 109 15 1 0 0 0 0 0 0 0 0 0 0 0 0 0 0 0,
     fpioa_assign_row 110 15 1 0 0 0 0 0 0 0 0 0 0 0 0 0 0 0,
     fpioa_assign_row 111 15 1 0 0 0 0 0 0 0 0 0 0 0 0 0 0 0]"

text \<open>\<^verbatim>\<open>FUNC_I2S2_IN_D0\<close> to \<^verbatim>\<open>FUNC_I2S2_OUT_D3\<close>.\<close>

definition function_config_14 :: "fpioa_assign list" where
  "function_config_14 = [
     fpioa_assign_row 112 0 0 0 0 0 0 0 0 0 1 0 0 1 0 0 0 0,
     fpioa_assign_row 113 0 0 0 0 0 0 0 0 0 1 0 0 1 0 0 0 0,
     fpioa_assign_row 114 0 0 0 0 0 0 0 0 0 1 0 0 1 0 0 0 0,
     fpioa_assign_row 115 0 0 0 0 0 0 0 0 0 1 0 0 1 0 0 0 0,
     fpioa_assign_row 116 15 1 0 0 0 0 0 0 0 0 0 0 0 0 0 0 0,
     fpioa_assign_row 117 15 1 0 0 0 0 0 0 0 0 0 0 0 0 0 0 0,
     fpioa_assign_row 118 15 1 0 0 0 0 0 0 0 0 0 0 0 0 0 0 0,
     fpioa_assign_row 119 15 1 0 0 0 0 0 0 0 0 0 0 0 0 0 0 0]"

text \<open>\<^verbatim>\<open>FUNC_RESV0\<close> to \<^verbatim>\<open>FUNC_I2C0_SDA\<close>.\<close>

definition function_config_15 :: "fpioa_assign list" where
  "function_config_15 = [
     fpioa_assign_row 120 0 0 0 0 0 0 0 0 0 0 0 0 0 0 0 0 0,
     fpioa_assign_row 121 0 0 0 0 0 0 0 0 0 0 0 0 0 0 0 0 0,
     fpioa_assign_row 122 0 0 0 0 0 0 0 0 0 0 0 0 0 0 0 0 0,
     fpioa_assign_row 123 0 0 0 0 0 0 0 0 0 0 0 0 0 0 0 0 0,
     fpioa_assign_row 124 0 0 0 0 0 0 0 0 0 0 0 0 0 0 0 0 0,
     fpioa_assign_row 125 0 0 0 0 0 0 0 0 0 0 0 0 0 0 0 0 0,
     fpioa_assign_row 126 0 1 0 0 0 1 0 0 1 1 0 0 1 0 0 0 0,
     fpioa_assign_row 127 0 1 0 0 0 1 0 0 1 1 0 0 1 0 0 0 0]"

text \<open>\<^verbatim>\<open>FUNC_I2C1_SCLK\<close> to \<^verbatim>\<open>FUNC_CMOS_VSYNC\<close>.\<close>

definition function_config_16 :: "fpioa_assign list" where
  "function_config_16 = [
     fpioa_assign_row 128 0 1 0 0 0 1 0 0 1 1 0 0 1 0 0 0 0,
     fpioa_assign_row 129 0 1 0 0 0 1 0 0 1 1 0 0 1 0 0 0 0,
     fpioa_assign_row 130 0 1 0 0 0 1 0 0 1 1 0 0 1 0 0 0 0,
     fpioa_assign_row 131 0 1 0 0 0 1 0 0 1 1 0 0 1 0 0 0 0,
     fpioa_assign_row 132 15 1 0 0 0 0 0 0 0 0 0 0 0 0 0 0 0,
     fpioa_assign_row 133 15 1 0 0 0 0 0 0 0 0 0 0 0 0 0 0 0,
     fpioa_assign_row 134 15 1 0 0 0 0 0 0 0 0 0 0 0 0 0 0 0,
     fpioa_assign_row 135 0 0 0 0 0 0 0 0 0 1 0 0 1 0 0 0 0]"

text \<open>\<^verbatim>\<open>FUNC_CMOS_HREF\<close> to \<^verbatim>\<open>FUNC_CMOS_D5\<close>.\<close>

definition function_config_17 :: "fpioa_assign list" where
  "function_config_17 = [
     fpioa_assign_row 136 0 0 0 0 0 0 0 0 0 1 0 0 1 0 0 0 0,
     fpioa_assign_row 137 0 0 0 0 0 0 0 0 0 1 0 0 1 0 0 0 0,
     fpioa_assign_row 138 0 0 0 0 0 0 0 0 0 1 0 0 1 0 0 0 0,
     fpioa_assign_row 139 0 0 0 0 0 0 0 0 0 1 0 0 1 0 0 0 0,
     fpioa_assign_row 140 0 0 0 0 0 0 0 0 0 1 0 0 1 0 0 0 0,
     fpioa_assign_row 141 0 0 0 0 0 0 0 0 0 1 0 0 1 0 0 0 0,
     fpioa_assign_row 142 0 0 0 0 0 0 0 0 0 1 0 0 1 0 0 0 0,
     fpioa_assign_row 143 0 0 0 0 0 0 0 0 0 1 0 0 1 0 0 0 0]"

text \<open>\<^verbatim>\<open>FUNC_CMOS_D6\<close> to \<^verbatim>\<open>FUNC_UART1_RI\<close>.\<close>

definition function_config_18 :: "fpioa_assign list" where
  "function_config_18 = [
     fpioa_assign_row 144 0 0 0 0 0 0 0 0 0 1 0 0 1 0 0 0 0,
     fpioa_assign_row 145 0 0 0 0 0 0 0 0 0 1 0 0 1 0 0 0 0,
     fpioa_assign_row 146 0 1 1 0 0 1 0 0 1 1 0 0 1 0 0 0 0,
     fpioa_assign_row 147 0 1 1 0 0 1 0 0 1 1 0 0 1 0 0 0 0,
     fpioa_assign_row 148 0 0 0 0 0 0 0 0 0 1 0 0 1 0 0 0 0,
     fpioa_assign_row 149 0 0 0 0 0 0 0 0 0 1 0 0 1 0 0 0 0,
     fpioa_assign_row 150 0 0 0 0 0 0 0 0 0 1 0 0 1 0 0 0 0,
     fpioa_assign_row 151 0 0 0 0 0 0 0 0 0 1 0 0 1 0 0 0 0]"

text \<open>\<^verbatim>\<open>FUNC_UART1_SIR_IN\<close> to \<^verbatim>\<open>FUNC_UART1_RE\<close>.\<close>

definition function_config_19 :: "fpioa_assign list" where
  "function_config_19 = [
     fpioa_assign_row 152 0 0 0 0 0 0 0 0 0 1 0 0 1 0 0 0 0,
     fpioa_assign_row 153 15 1 0 0 0 0 0 0 0 0 0 0 0 0 0 0 0,
     fpioa_assign_row 154 15 1 0 0 0 0 0 0 0 0 0 0 0 0 0 0 0,
     fpioa_assign_row 155 15 1 0 0 0 0 0 0 0 0 0 0 0 0 0 0 0,
     fpioa_assign_row 156 15 1 0 0 0 0 0 0 0 0 0 0 0 0 0 0 0,
     fpioa_assign_row 157 15 1 0 0 0 0 0 0 0 0 0 0 0 0 0 0 0,
     fpioa_assign_row 158 15 1 0 0 0 0 0 0 0 0 0 0 0 0 0 0 0,
     fpioa_assign_row 159 15 1 0 0 0 0 0 0 0 0 0 0 0 0 0 0 0]"

text \<open>\<^verbatim>\<open>FUNC_UART1_DE\<close> to \<^verbatim>\<open>FUNC_UART2_DTR\<close>.\<close>

definition function_config_20 :: "fpioa_assign list" where
  "function_config_20 = [
     fpioa_assign_row 160 15 1 0 0 0 0 0 0 0 0 0 0 0 0 0 0 0,
     fpioa_assign_row 161 15 1 0 0 0 0 0 0 0 0 0 0 0 0 0 0 0,
     fpioa_assign_row 162 0 0 0 0 0 0 0 0 0 1 0 0 1 0 0 0 0,
     fpioa_assign_row 163 0 0 0 0 0 0 0 0 0 1 0 0 1 0 0 0 0,
     fpioa_assign_row 164 0 0 0 0 0 0 0 0 0 1 0 0 1 0 0 0 0,
     fpioa_assign_row 165 0 0 0 0 0 0 0 0 0 1 0 0 1 0 0 0 0,
     fpioa_assign_row 166 0 0 0 0 0 0 0 0 0 1 0 0 1 0 0 0 0,
     fpioa_assign_row 167 15 1 0 0 0 0 0 0 0 0 0 0 0 0 0 0 0]"

text \<open>\<^verbatim>\<open>FUNC_UART2_RTS\<close> to \<^verbatim>\<open>FUNC_UART2_RS485_EN\<close>.\<close>

definition function_config_21 :: "fpioa_assign list" where
  "function_config_21 = [
     fpioa_assign_row 168 15 1 0 0 0 0 0 0 0 0 0 0 0 0 0 0 0,
     fpioa_assign_row 169 15 1 0 0 0 0 0 0 0 0 0 0 0 0 0 0 0,
     fpioa_assign_row 170 15 1 0 0 0 0 0 0 0 0 0 0 0 0 0 0 0,
     fpioa_assign_row 171 15 1 0 0 0 0 0 0 0 0 0 0 0 0 0 0 0,
     fpioa_assign_row 172 15 1 0 0 0 0 0 0 0 0 0 0 0 0 0 0 0,
     fpioa_assign_row 173 15 1 0 0 0 0 0 0 0 0 0 0 0 0 0 0 0,
     fpioa_assign_row 174 15 1 0 0 0 0 0 0 0 0 0 0 0 0 0 0 0,
     fpioa_assign_row 175 15 1 0 0 0 0 0 0 0 0 0 0 0 0 0 0 0]"

text \<open>\<^verbatim>\<open>FUNC_UART3_CTS\<close> to \<^verbatim>\<open>FUNC_UART3_OUT2\<close>.\<close>

definition function_config_22 :: "fpioa_assign list" where
  "function_config_22 = [
     fpioa_assign_row 176 0 0 0 0 0 0 0 0 0 1 0 0 1 0 0 0 0,
     fpioa_assign_row 177 0 0 0 0 0 0 0 0 0 1 0 0 1 0 0 0 0,
     fpioa_assign_row 178 0 0 0 0 0 0 0 0 0 1 0 0 1 0 0 0 0,
     fpioa_assign_row 179 0 0 0 0 0 0 0 0 0 1 0 0 1 0 0 0 0,
     fpioa_assign_row 180 0 0 0 0 0 0 0 0 0 1 0 0 1 0 0 0 0,
     fpioa_assign_row 181 15 1 0 0 0 0 0 0 0 0 0 0 0 0 0 0 0,
     fpioa_assign_row 182 15 1 0 0 0 0 0 0 0 0 0 0 0 0 0 0 0,
     fpioa_assign_row 183 15 1 0 0 0 0 0 0 0 0 0 0 0 0 0 0 0]"

text \<open>\<^verbatim>\<open>FUNC_UART3_OUT1\<close> to \<^verbatim>\<open>FUNC_TIMER0_TOGGLE2\<close>.\<close>

definition function_config_23 :: "fpioa_assign list" where
  "function_config_23 = [
     fpioa_assign_row 184 15 1 0 0 0 0 0 0 0 0 0 0 0 0 0 0 0,
     fpioa_assign_row 185 15 1 0 0 0 0 0 0 0 0 0 0 0 0 0 0 0,
     fpioa_assign_row 186 15 1 0 0 0 0 0 0 0 0 0 0 0 0 0 0 0,
     fpioa_assign_row 187 15 1 0 0 0 0 0 0 0 0 0 0 0 0 0 0 0,
     fpioa_assign_row 188 15 1 0 0 0 0 0 0 0 0 0 0 0 0 0 0 0,
     fpioa_assign_row 189 15 1 0 0 0 0 0 0 0 0 0 0 0 0 0 0 0,
     fpioa_assign_row 190 15 1 0 0 0 0 0 0 0 0 0 0 0 0 0 0 0,
     fpioa_assign_row 191 15 1 0 0 0 0 0 0 0 0 0 0 0 0 0 0 0]"

text \<open>\<^verbatim>\<open>FUNC_TIMER0_TOGGLE3\<close> to \<^verbatim>\<open>FUNC_TIMER2_TOGGLE2\<close>.\<close>

definition function_config_24 :: "fpioa_assign list" where
  "function_config_24 = [
     fpioa_assign_row 192 15 1 0 0 0 0 0 0 0 0 0 0 0 0 0 0 0,
     fpioa_assign_row 193 15 1 0 0 0 0 0 0 0 0 0 0 0 0 0 0 0,
     fpioa_assign_row 194 15 1 0 0 0 0 0 0 0 0 0 0 0 0 0 0 0,
     fpioa_assign_row 195 15 1 0 0 0 0 0 0 0 0 0 0 0 0 0 0 0,
     fpioa_assign_row 196 15 1 0 0 0 0 0 0 0 0 0 0 0 0 0 0 0,
     fpioa_assign_row 197 15 1 0 0 0 0 0 0 0 0 0 0 0 0 0 0 0,
     fpioa_assign_row 198 15 1 0 0 0 0 0 0 0 0 0 0 0 0 0 0 0,
     fpioa_assign_row 199 15 1 0 0 0 0 0 0 0 0 0 0 0 0 0 0 0]"

text \<open>\<^verbatim>\<open>FUNC_TIMER2_TOGGLE3\<close> to \<^verbatim>\<open>FUNC_INTERNAL3\<close>.\<close>

definition function_config_25 :: "fpioa_assign list" where
  "function_config_25 = [
     fpioa_assign_row 200 15 1 0 0 0 0 0 0 0 0 0 0 0 0 0 0 0,
     fpioa_assign_row 201 15 1 0 0 0 0 0 0 0 0 0 0 0 0 0 0 0,
     fpioa_assign_row 202 15 1 0 0 0 0 0 0 0 0 0 0 0 0 0 0 0,
     fpioa_assign_row 203 15 1 0 0 0 0 0 0 0 0 0 0 0 0 0 0 0,
     fpioa_assign_row 204 15 1 0 0 0 0 0 0 0 0 0 0 0 0 0 0 0,
     fpioa_assign_row 205 15 1 0 0 0 0 0 0 0 0 0 0 0 0 0 0 0,
     fpioa_assign_row 206 15 1 0 0 0 0 0 0 0 0 0 0 0 0 0 0 0,
     fpioa_assign_row 207 15 1 0 0 0 0 0 0 0 0 0 0 0 0 0 0 0]"

text \<open>\<^verbatim>\<open>FUNC_INTERNAL4\<close> to \<^verbatim>\<open>FUNC_INTERNAL11\<close>.\<close>

definition function_config_26 :: "fpioa_assign list" where
  "function_config_26 = [
     fpioa_assign_row 208 15 1 0 0 0 0 0 0 0 0 0 0 0 0 0 0 0,
     fpioa_assign_row 209 15 1 0 0 0 0 0 0 0 0 0 0 0 0 0 0 0,
     fpioa_assign_row 210 15 1 0 0 0 0 0 0 0 0 0 0 0 0 0 0 0,
     fpioa_assign_row 211 15 1 0 0 0 0 0 0 0 0 0 0 0 0 0 0 0,
     fpioa_assign_row 212 15 1 0 0 0 0 0 0 0 0 0 0 0 0 0 0 0,
     fpioa_assign_row 213 0 0 0 0 0 0 0 0 0 1 0 0 1 0 0 0 0,
     fpioa_assign_row 214 0 0 0 0 0 0 0 0 0 1 0 0 1 0 0 0 0,
     fpioa_assign_row 215 0 0 0 0 0 0 0 0 0 1 0 0 1 0 0 0 0]"

text \<open>\<^verbatim>\<open>FUNC_INTERNAL12\<close> to \<^verbatim>\<open>FUNC_INTERNAL18\<close>.\<close>

definition function_config_27 :: "fpioa_assign list" where
  "function_config_27 = [
     fpioa_assign_row 216 0 0 0 0 0 0 0 0 0 1 0 0 1 0 0 0 0,
     fpioa_assign_row 217 0 0 0 0 0 1 0 0 0 1 0 0 1 0 0 0 0,
     fpioa_assign_row 218 15 1 0 0 0 1 0 0 1 1 0 0 1 0 0 0 0,
     fpioa_assign_row 219 0 0 0 0 0 0 0 0 0 1 0 0 1 0 0 0 0,
     fpioa_assign_row 220 0 0 0 0 0 0 0 0 0 1 0 0 1 0 0 0 0,
     fpioa_assign_row 221 0 0 0 0 0 0 0 0 0 1 0 0 1 0 0 0 0,
     fpioa_assign_row 222 0 0 0 0 0 0 0 0 0 0 0 0 0 0 0 0 0,
     fpioa_assign_row 223 0 0 0 0 0 0 0 0 0 1 0 0 1 0 0 0 0]"

text \<open>\<^verbatim>\<open>FUNC_DEBUG0\<close> to \<^verbatim>\<open>FUNC_DEBUG7\<close>.\<close>

definition function_config_28 :: "fpioa_assign list" where
  "function_config_28 = [
     fpioa_assign_row 224 15 1 0 0 0 0 0 0 0 0 0 0 0 0 0 0 0,
     fpioa_assign_row 225 15 1 0 0 0 0 0 0 0 0 0 0 0 0 0 0 0,
     fpioa_assign_row 226 15 1 0 0 0 0 0 0 0 0 0 0 0 0 0 0 0,
     fpioa_assign_row 227 15 1 0 0 0 0 0 0 0 0 0 0 0 0 0 0 0,
     fpioa_assign_row 228 15 1 0 0 0 0 0 0 0 0 0 0 0 0 0 0 0,
     fpioa_assign_row 229 15 1 0 0 0 0 0 0 0 0 0 0 0 0 0 0 0,
     fpioa_assign_row 230 15 1 0 0 0 0 0 0 0 0 0 0 0 0 0 0 0,
     fpioa_assign_row 231 15 1 0 0 0 0 0 0 0 0 0 0 0 0 0 0 0]"

text \<open>\<^verbatim>\<open>FUNC_DEBUG8\<close> to \<^verbatim>\<open>FUNC_DEBUG15\<close>.\<close>

definition function_config_29 :: "fpioa_assign list" where
  "function_config_29 = [
     fpioa_assign_row 232 15 1 0 0 0 0 0 0 0 0 0 0 0 0 0 0 0,
     fpioa_assign_row 233 15 1 0 0 0 0 0 0 0 0 0 0 0 0 0 0 0,
     fpioa_assign_row 234 15 1 0 0 0 0 0 0 0 0 0 0 0 0 0 0 0,
     fpioa_assign_row 235 15 1 0 0 0 0 0 0 0 0 0 0 0 0 0 0 0,
     fpioa_assign_row 236 15 1 0 0 0 0 0 0 0 0 0 0 0 0 0 0 0,
     fpioa_assign_row 237 15 1 0 0 0 0 0 0 0 0 0 0 0 0 0 0 0,
     fpioa_assign_row 238 15 1 0 0 0 0 0 0 0 0 0 0 0 0 0 0 0,
     fpioa_assign_row 239 15 1 0 0 0 0 0 0 0 0 0 0 0 0 0 0 0]"

text \<open>\<^verbatim>\<open>FUNC_DEBUG16\<close> to \<^verbatim>\<open>FUNC_DEBUG23\<close>.\<close>

definition function_config_30 :: "fpioa_assign list" where
  "function_config_30 = [
     fpioa_assign_row 240 15 1 0 0 0 0 0 0 0 0 0 0 0 0 0 0 0,
     fpioa_assign_row 241 15 1 0 0 0 0 0 0 0 0 0 0 0 0 0 0 0,
     fpioa_assign_row 242 15 1 0 0 0 0 0 0 0 0 0 0 0 0 0 0 0,
     fpioa_assign_row 243 15 1 0 0 0 0 0 0 0 0 0 0 0 0 0 0 0,
     fpioa_assign_row 244 15 1 0 0 0 0 0 0 0 0 0 0 0 0 0 0 0,
     fpioa_assign_row 245 15 1 0 0 0 0 0 0 0 0 0 0 0 0 0 0 0,
     fpioa_assign_row 246 15 1 0 0 0 0 0 0 0 0 0 0 0 0 0 0 0,
     fpioa_assign_row 247 15 1 0 0 0 0 0 0 0 0 0 0 0 0 0 0 0]"

text \<open>\<^verbatim>\<open>FUNC_DEBUG24\<close> to \<^verbatim>\<open>FUNC_DEBUG31\<close>.\<close>

definition function_config_31 :: "fpioa_assign list" where
  "function_config_31 = [
     fpioa_assign_row 248 15 1 0 0 0 0 0 0 0 0 0 0 0 0 0 0 0,
     fpioa_assign_row 249 15 1 0 0 0 0 0 0 0 0 0 0 0 0 0 0 0,
     fpioa_assign_row 250 15 1 0 0 0 0 0 0 0 0 0 0 0 0 0 0 0,
     fpioa_assign_row 251 15 1 0 0 0 0 0 0 0 0 0 0 0 0 0 0 0,
     fpioa_assign_row 252 15 1 0 0 0 0 0 0 0 0 0 0 0 0 0 0 0,
     fpioa_assign_row 253 15 1 0 0 0 0 0 0 0 0 0 0 0 0 0 0 0,
     fpioa_assign_row 254 15 1 0 0 0 0 0 0 0 0 0 0 0 0 0 0 0,
     fpioa_assign_row 255 15 1 0 0 0 0 0 0 0 0 0 0 0 0 0 0 0]"

section \<open>The table\<close>

definition function_config :: "fpioa_assign list" where
  "function_config = concat [
     function_config_0, function_config_1, function_config_2, function_config_3,
     function_config_4, function_config_5, function_config_6, function_config_7,
     function_config_8, function_config_9, function_config_10, function_config_11,
     function_config_12, function_config_13, function_config_14, function_config_15,
     function_config_16, function_config_17, function_config_18, function_config_19,
     function_config_20, function_config_21, function_config_22, function_config_23,
     function_config_24, function_config_25, function_config_26, function_config_27,
     function_config_28, function_config_29, function_config_30, function_config_31]"

lemmas function_config_rows =
  function_config_0_def function_config_1_def function_config_2_def function_config_3_def
  function_config_4_def function_config_5_def function_config_6_def function_config_7_def
  function_config_8_def function_config_9_def function_config_10_def function_config_11_def
  function_config_12_def function_config_13_def function_config_14_def function_config_15_def
  function_config_16_def function_config_17_def function_config_18_def function_config_19_def
  function_config_20_def function_config_21_def function_config_22_def function_config_23_def
  function_config_24_def function_config_25_def function_config_26_def function_config_27_def
  function_config_28_def function_config_29_def function_config_30_def function_config_31_def

lemma length_function_config [simp]: "length function_config = 256"
  by code_simp

lemma channel_map: "map ch_sel function_config = map of_nat [0..<256]"
  by code_simp

lemma channel_nth: "i < 256 \<Longrightarrow> ch_sel (function_config ! i) = of_nat i"
  using arg_cong [OF channel_map, of "\<lambda>xs. xs ! i"] by simp

lemma tied_rows:
  "map tie_en function_config = (replicate 256 0)[FUNC_SPI0_ARB := 1, FUNC_SPI1_ARB := 1]"
  "map tie_val function_config = (replicate 256 0)[FUNC_SPI0_ARB := 1, FUNC_SPI1_ARB := 1]"
  by code_simp+

end
