(* ===== verification/Fpioa.thy ===== *)
theory Fpioa
  imports Fpioa_Table
begin

unbundle bit_operations_syntax

text \<open>
  \<^verbatim>\<open>Kboot/src/bootloader_hi/fpioa.c\<close> (pin multiplexer) and \<^verbatim>\<open>gpiohs.c\<close> (high-speed GPIO): the
  register files as records, one function per C function, C's \<^verbatim>\<open>int\<close> results as \<open>int\<close> (0, or -1
  for a rejected argument). A null configuration pointer is not modelled. The pads are shown
  to form a map from functions to pads: \<open>fpioa_set_function\<close> makes its pad the only one that
  carries the function, which \<open>fpioa_get_io_by_function\<close> then finds.
\<close>

section \<open>Registers\<close>

record fpioa_regs =
  io :: "fpioa_io_config list"
  tie_en_reg :: "u32 list"
  tie_val_reg :: "u32 list"

abbreviation (input) FPIOA_NUM_IO :: int where "FPIOA_NUM_IO \<equiv> 48"

datatype fpioa_pull = FPIOA_PULL_NONE | FPIOA_PULL_DOWN | FPIOA_PULL_UP | FPIOA_PULL_MAX

definition fpioa_wf :: "fpioa_regs \<Rightarrow> bool" where
  "fpioa_wf fpioa \<longleftrightarrow> length (io fpioa) = 48 \<and> length (tie_en_reg fpioa) = 8 \<and> length (tie_val_reg fpioa) = 8"

section \<open>Operations\<close>

text \<open>\<^verbatim>\<open>fpioa_init\<close> collects the tie bits of all functions and writes eight registers of each
  kind.\<close>

definition fpioa_init :: "fpioa_regs \<Rightarrow> int \<times> fpioa_regs" where
  "fpioa_init fpioa =
     (let (en, val) =
        fold (\<lambda>i (en, val).
          (en[i div 32 := en ! (i div 32) OR push_bit (i mod 32) (ucast (tie_en (function_config ! i)))],
           val[i div 32 := val ! (i div 32) OR push_bit (i mod 32) (ucast (tie_val (function_config ! i)))]))
        [0..<256] (replicate 8 0, replicate 8 0)
      in (0, fold (\<lambda>i fpioa. fpioa\<lparr>tie_val_reg := (tie_val_reg fpioa)[i := val ! i],
                                  tie_en_reg := (tie_en_reg fpioa)[i := en ! i]\<rparr>) [0..<8] fpioa))"

definition fpioa_get_io :: "fpioa_regs \<Rightarrow> int \<Rightarrow> int \<times> fpioa_io_config option" where
  "fpioa_get_io fpioa number =
     (if number < 0 \<or> FPIOA_NUM_IO \<le> number then (-1, None) else (0, Some (io fpioa ! nat number)))"

definition fpioa_set_io :: "fpioa_regs \<Rightarrow> int \<Rightarrow> fpioa_io_config \<Rightarrow> int \<times> fpioa_regs" where
  "fpioa_set_io fpioa number cfg =
     (if number < 0 \<or> FPIOA_NUM_IO \<le> number then (-1, fpioa)
      else (0, fpioa\<lparr>io := (io fpioa)[nat number := cfg]\<rparr>))"

definition fpioa_set_io_pull :: "fpioa_regs \<Rightarrow> int \<Rightarrow> fpioa_pull \<Rightarrow> int \<times> fpioa_regs" where
  "fpioa_set_io_pull fpioa number pull =
     (if number < 0 \<or> FPIOA_NUM_IO \<le> number \<or> pull = FPIOA_PULL_MAX then (-1, fpioa)
      else
        let cfg = io fpioa ! nat number;
            cfg = (case pull of
                     FPIOA_PULL_NONE \<Rightarrow> cfg\<lparr>pu := 0, pd := 0\<rparr>
                   | FPIOA_PULL_DOWN \<Rightarrow> cfg\<lparr>pu := 0, pd := 1\<rparr>
                   | FPIOA_PULL_UP \<Rightarrow> cfg\<lparr>pu := 1, pd := 0\<rparr>
                   | _ \<Rightarrow> cfg)
        in (0, fpioa\<lparr>io := (io fpioa)[nat number := cfg]\<rparr>))"

text \<open>The pull of a pad; \<open>None\<close> is the result -1.\<close>

definition fpioa_get_io_pull :: "fpioa_regs \<Rightarrow> int \<Rightarrow> fpioa_pull option" where
  "fpioa_get_io_pull fpioa number =
     (if number < 0 \<or> FPIOA_NUM_IO \<le> number then None
      else
        let cfg = io fpioa ! nat number in
        Some (if pu cfg = 0 \<and> pd cfg = 1 then FPIOA_PULL_DOWN
              else if pu cfg = 1 \<and> pd cfg = 0 then FPIOA_PULL_UP
              else FPIOA_PULL_NONE))"

definition fpioa_set_io_driving :: "fpioa_regs \<Rightarrow> int \<Rightarrow> nat \<Rightarrow> int \<times> fpioa_regs" where
  "fpioa_set_io_driving fpioa number driving =
     (if number < 0 \<or> FPIOA_NUM_IO \<le> number \<or> 16 \<le> driving then (-1, fpioa)
      else (0, fpioa\<lparr>io := (io fpioa)[nat number := (io fpioa ! nat number)\<lparr>ds := of_nat driving\<rparr>]\<rparr>))"

definition fpioa_set_sl :: "fpioa_regs \<Rightarrow> int \<Rightarrow> u8 \<Rightarrow> int \<times> fpioa_regs" where
  "fpioa_set_sl fpioa number sl_enable =
     (if number < 0 \<or> FPIOA_NUM_IO \<le> number then (-1, fpioa)
      else (0, fpioa\<lparr>io := (io fpioa)[nat number := (io fpioa ! nat number)\<lparr>sl := ucast sl_enable\<rparr>]\<rparr>))"

definition fpioa_set_st :: "fpioa_regs \<Rightarrow> int \<Rightarrow> u8 \<Rightarrow> int \<times> fpioa_regs" where
  "fpioa_set_st fpioa number st_enable =
     (if number < 0 \<or> FPIOA_NUM_IO \<le> number then (-1, fpioa)
      else (0, fpioa\<lparr>io := (io fpioa)[nat number := (io fpioa ! nat number)\<lparr>st := ucast st_enable\<rparr>]\<rparr>))"

definition fpioa_set_oe_inv :: "fpioa_regs \<Rightarrow> int \<Rightarrow> u8 \<Rightarrow> int \<times> fpioa_regs" where
  "fpioa_set_oe_inv fpioa number inv_enable =
     (if number < 0 \<or> FPIOA_NUM_IO \<le> number then (-1, fpioa)
      else (0, fpioa\<lparr>io := (io fpioa)[nat number := (io fpioa ! nat number)\<lparr>oe_inv := ucast inv_enable\<rparr>]\<rparr>))"

definition fpioa_get_io_driving :: "fpioa_regs \<Rightarrow> int \<Rightarrow> int" where
  "fpioa_get_io_driving fpioa number =
     (if number < 0 \<or> FPIOA_NUM_IO \<le> number then -1 else uint (ds (io fpioa ! nat number)))"

definition fpioa_set_function_raw :: "fpioa_regs \<Rightarrow> int \<Rightarrow> int \<Rightarrow> int \<times> fpioa_regs" where
  "fpioa_set_function_raw fpioa number function =
     (if number < 0 \<or> FPIOA_NUM_IO \<le> number \<or> function < 0 \<or> FUNC_MAX \<le> function then (-1, fpioa)
      else
        let fc = function_config ! nat function in
        (0, fpioa\<lparr>io := (io fpioa)[nat number :=
           \<lparr>ch_sel = ch_sel fc, ds = ds fc, oe_en = oe_en fc, oe_inv = oe_inv fc, do_sel = do_sel fc,
            do_inv = do_inv fc, pu = pu fc, pd = pd fc, resv0 = 0, sl = sl fc, ie_en = ie_en fc,
            ie_inv = ie_inv fc, di_inv = di_inv fc, st = st fc, resv1 = 0, pad_di = 0\<rparr>]\<rparr>))"

definition fpioa_set_function :: "fpioa_regs \<Rightarrow> int \<Rightarrow> int \<Rightarrow> int \<times> fpioa_regs" where
  "fpioa_set_function fpioa number function =
     (if number < 0 \<or> FPIOA_NUM_IO \<le> number \<or> function < 0 \<or> FUNC_MAX \<le> function then (-1, fpioa)
      else if function = FUNC_RESV0 then (0, snd (fpioa_set_function_raw fpioa number FUNC_RESV0))
      else
        let fpioa = fold (\<lambda>index fpioa.
              if uint (ch_sel (io fpioa ! index)) = function \<and> int index \<noteq> number
              then snd (fpioa_set_function_raw fpioa (int index) FUNC_RESV0) else fpioa) [0..<48] fpioa
        in (0, snd (fpioa_set_function_raw fpioa number function)))"

definition fpioa_set_tie_enable :: "fpioa_regs \<Rightarrow> int \<Rightarrow> int \<Rightarrow> int \<times> fpioa_regs" where
  "fpioa_set_tie_enable fpioa function enable =
     (if function < 0 \<or> FUNC_MAX \<le> function then (-1, fpioa)
      else
        let k = nat function div 32; r = tie_en_reg fpioa ! k; b = push_bit (nat function mod 32) 1 in
        (0, fpioa\<lparr>tie_en_reg := (tie_en_reg fpioa)[k := if enable \<noteq> 0 then r OR b else r AND NOT b]\<rparr>))"

definition fpioa_set_tie_value :: "fpioa_regs \<Rightarrow> int \<Rightarrow> int \<Rightarrow> int \<times> fpioa_regs" where
  "fpioa_set_tie_value fpioa function value =
     (if function < 0 \<or> FUNC_MAX \<le> function then (-1, fpioa)
      else
        let k = nat function div 32; r = tie_val_reg fpioa ! k; b = push_bit (nat function mod 32) 1 in
        (0, fpioa\<lparr>tie_val_reg := (tie_val_reg fpioa)[k := if value \<noteq> 0 then r OR b else r AND NOT b]\<rparr>))"

definition fpioa_get_io_by_function :: "fpioa_regs \<Rightarrow> int \<Rightarrow> int" where
  "fpioa_get_io_by_function fpioa function =
     (case filter (\<lambda>index. uint (ch_sel (io fpioa ! index)) = function) [0..<48] of
        [] \<Rightarrow> -1
      | index # _ \<Rightarrow> int index)"

section \<open>High-speed GPIO\<close>

record gpiohs_regs =
  input_val :: u32
  input_en :: u32
  output_en :: u32
  output_val :: u32

datatype gpio_drive_mode = GPIO_DM_INPUT | GPIO_DM_INPUT_PULL_DOWN | GPIO_DM_INPUT_PULL_UP | GPIO_DM_OUTPUT

definition set_bit_reg :: "u32 \<Rightarrow> u32 \<Rightarrow> u32 \<Rightarrow> u32" where
  "set_bit_reg bits msk value = (let org = bits AND NOT msk in org OR (value AND msk))"

definition set_bit_offset :: "u32 \<Rightarrow> u32 \<Rightarrow> nat \<Rightarrow> u32 \<Rightarrow> u32" where
  "set_bit_offset bits msk offset value = set_bit_reg bits (push_bit offset msk) (push_bit offset value)"

definition set_gpio_bit :: "u32 \<Rightarrow> nat \<Rightarrow> u32 \<Rightarrow> u32" where
  "set_gpio_bit bits offset value = set_bit_offset bits 1 offset value"

definition get_bit_reg :: "u32 \<Rightarrow> u32 \<Rightarrow> nat \<Rightarrow> u32" where
  "get_bit_reg bits msk offset = drop_bit offset (bits AND push_bit offset msk)"

definition get_gpio_bit :: "u32 \<Rightarrow> nat \<Rightarrow> u32" where
  "get_gpio_bit bits offset = get_bit_reg bits 1 offset"

definition gpiohs_set_drive_mode :: "fpioa_regs \<times> gpiohs_regs \<Rightarrow> u8 \<Rightarrow> gpio_drive_mode \<Rightarrow> fpioa_regs \<times> gpiohs_regs" where
  "gpiohs_set_drive_mode regs pin mode =
     (let (fpioa, gpiohs) = regs;
          io_number = fpioa_get_io_by_function fpioa (FUNC_GPIOHS0 + uint pin);
          (pull, dir) = (case mode of
             GPIO_DM_INPUT \<Rightarrow> (FPIOA_PULL_NONE, False)
           | GPIO_DM_INPUT_PULL_DOWN \<Rightarrow> (FPIOA_PULL_DOWN, False)
           | GPIO_DM_INPUT_PULL_UP \<Rightarrow> (FPIOA_PULL_UP, False)
           | GPIO_DM_OUTPUT \<Rightarrow> (FPIOA_PULL_DOWN, True));
          fpioa = snd (fpioa_set_io_pull fpioa io_number pull);
          gpiohs = (if dir then gpiohs\<lparr>input_en := set_gpio_bit (input_en gpiohs) (unat pin) 0\<rparr>
                    else gpiohs\<lparr>output_en := set_gpio_bit (output_en gpiohs) (unat pin) 0\<rparr>);
          gpiohs = (if dir then gpiohs\<lparr>output_en := set_gpio_bit (output_en gpiohs) (unat pin) 1\<rparr>
                    else gpiohs\<lparr>input_en := set_gpio_bit (input_en gpiohs) (unat pin) 1\<rparr>)
      in (fpioa, gpiohs))"

definition gpiohs_get_pin :: "gpiohs_regs \<Rightarrow> u8 \<Rightarrow> u32" where
  "gpiohs_get_pin gpiohs pin = get_gpio_bit (input_val gpiohs) (unat pin)"

definition gpiohs_set_pin :: "gpiohs_regs \<Rightarrow> u8 \<Rightarrow> u32 \<Rightarrow> gpiohs_regs" where
  "gpiohs_set_pin gpiohs pin value = gpiohs\<lparr>output_val := set_gpio_bit (output_val gpiohs) (unat pin) value\<rparr>"

section \<open>The pads as a map from functions\<close>

text \<open>The pad configuration that \<open>fpioa_set_function_raw\<close> writes.\<close>

definition pad_config :: "int \<Rightarrow> fpioa_io_config" where
  "pad_config function = (let fc = function_config ! nat function in
     \<lparr>ch_sel = ch_sel fc, ds = ds fc, oe_en = oe_en fc, oe_inv = oe_inv fc, do_sel = do_sel fc,
      do_inv = do_inv fc, pu = pu fc, pd = pd fc, resv0 = 0, sl = sl fc, ie_en = ie_en fc,
      ie_inv = ie_inv fc, di_inv = di_inv fc, st = st fc, resv1 = 0, pad_di = 0\<rparr>)"

definition carries :: "fpioa_regs \<Rightarrow> int \<Rightarrow> int \<Rightarrow> bool" where
  "carries fpioa number function \<longleftrightarrow> uint (ch_sel (io fpioa ! nat number)) = function"

lemma pad_config_channel:
  "0 \<le> function \<Longrightarrow> function < 256 \<Longrightarrow> uint (ch_sel (pad_config function)) = function"
  by (simp add: pad_config_def Let_def channel_nth unsigned_of_int take_bit_int_eq_self)

lemma set_function_raw_eq:
  "0 \<le> n \<Longrightarrow> n < 48 \<Longrightarrow> 0 \<le> f \<Longrightarrow> f < 256 \<Longrightarrow>
   fpioa_set_function_raw r n f = (0, r\<lparr>io := (io r)[nat n := pad_config f]\<rparr>)"
  by (simp add: fpioa_set_function_raw_def pad_config_def Let_def)

lemma sweep_pads:
  assumes "length (io r) = 48" and f: "0 \<le> f" "f < 256" "f \<noteq> 120"
  shows "k \<le> 48 \<Longrightarrow>
    fold (\<lambda>i r. if uint (ch_sel (io r ! i)) = f \<and> int i \<noteq> n
                 then snd (fpioa_set_function_raw r (int i) 120) else r) [0..<k] r =
    r\<lparr>io := map (\<lambda>i. if i < k \<and> uint (ch_sel (io r ! i)) = f \<and> int i \<noteq> n
                      then pad_config 120 else io r ! i) [0..<48]\<rparr>"
proof (induction k)
  case 0
  have "map (\<lambda>i. io r ! i) [0..<48] = io r" using assms(1) by (metis map_nth)
  then show ?case by simp
next
  case (Suc k)
  let ?p = "\<lambda>k i. if i < k \<and> uint (ch_sel (io r ! i)) = f \<and> int i \<noteq> n then pad_config 120 else io r ! i"
  have "(map (?p k) [0..<48])[k := ?p (Suc k) k] = map (?p (Suc k)) [0..<48]"
    using Suc.prems by (intro nth_equalityI) (auto simp: nth_list_update less_Suc_eq simp del: upt_rec_numeral)
  moreover have lk: "map (?p k) [0..<48] ! k = io r ! k" using Suc.prems by (simp del: upt_rec_numeral)
  moreover have "(map (?p k) [0..<48])[k := io r ! k] = map (?p k) [0..<48]"
    using list_update_id [of "map (?p k) [0..<48]" k] unfolding lk .
  ultimately show ?case using Suc
    by (auto simp: set_function_raw_eq simp del: upt_rec_numeral)
qed

lemma set_function_io:
  assumes "length (io r) = 48" and n: "0 \<le> n" "n < 48" and f: "0 \<le> f" "f < 256" "f \<noteq> 120"
  shows "fpioa_set_function r n f =
    (0, r\<lparr>io := map (\<lambda>i. if int i = n then pad_config f
                       else if uint (ch_sel (io r ! i)) = f then pad_config 120 else io r ! i) [0..<48]\<rparr>)"
proof -
  let ?p = "\<lambda>i. if i < 48 \<and> uint (ch_sel (io r ! i)) = f \<and> int i \<noteq> n then pad_config 120 else io r ! i"
  have "(map ?p [0..<48])[nat n := pad_config f] =
    map (\<lambda>i. if int i = n then pad_config f
             else if uint (ch_sel (io r ! i)) = f then pad_config 120 else io r ! i) [0..<48]"
    using n by (intro nth_equalityI) (auto simp: nth_list_update simp del: upt_rec_numeral)
  then show ?thesis
    using sweep_pads [OF assms(1) f, of 48 n] n f
    by (simp add: fpioa_set_function_def set_function_raw_eq del: upt_rec_numeral)
qed

text \<open>The contract a user of the multiplexer relies on: a function that is assigned to a pad is
  carried by that pad alone, and a search finds it.\<close>

locale pad_multiplexer =
  fixes wf :: "'r \<Rightarrow> bool"
    and assign :: "'r \<Rightarrow> int \<Rightarrow> int \<Rightarrow> 'r"
    and on :: "'r \<Rightarrow> int \<Rightarrow> int \<Rightarrow> bool"
    and find :: "'r \<Rightarrow> int \<Rightarrow> int"
    and usable :: "int \<Rightarrow> bool"
  assumes assign_wf: "wf r \<Longrightarrow> 0 \<le> n \<Longrightarrow> n < 48 \<Longrightarrow> usable f \<Longrightarrow> wf (assign r n f)"
    and assign_on: "wf r \<Longrightarrow> 0 \<le> n \<Longrightarrow> n < 48 \<Longrightarrow> usable f \<Longrightarrow> 0 \<le> m \<Longrightarrow> m < 48 \<Longrightarrow>
      on (assign r n f) m f \<longleftrightarrow> m = n"
    and assign_other: "wf r \<Longrightarrow> 0 \<le> n \<Longrightarrow> n < 48 \<Longrightarrow> usable f \<Longrightarrow> 0 \<le> m \<Longrightarrow> m < 48 \<Longrightarrow> m \<noteq> n \<Longrightarrow>
      usable f' \<Longrightarrow> f' \<noteq> f \<Longrightarrow> on (assign r n f) m f' \<longleftrightarrow> on r m f'"
    and on_unique: "on r m f \<Longrightarrow> on r m f' \<Longrightarrow> f = f'"
    and find_spec: "wf r \<Longrightarrow> (find r f = -1 \<and> (\<forall>m. 0 \<le> m \<and> m < 48 \<longrightarrow> \<not> on r m f)) \<or>
      (0 \<le> find r f \<and> find r f < 48 \<and> on r (find r f) f)"
begin

lemma find_assign:
  assumes "wf r" and "0 \<le> n" and "n < 48" and "usable f"
  shows "find (assign r n f) f = n"
  using find_spec [OF assign_wf [OF assms], of f] assign_on [OF assms] assms by fastforce

text \<open>Assigning another function to another pad does not lose the first.\<close>

lemma find_assign_assign:
  assumes "wf r" and n: "0 \<le> n" "n < 48" "usable f" and m: "0 \<le> m" "m < 48" "usable f'"
    and ne: "m \<noteq> n" "f' \<noteq> f"
  shows "find (assign (assign r n f) m f') f = n"
proof -
  let ?r = "assign r n f" and ?r' = "assign (assign r n f) m f'"
  have wf: "wf ?r" "wf ?r'" using assms by (simp_all add: assign_wf)
  have on: "on ?r' n f" using assign_other [OF wf(1) m n(1,2) ne(1) [symmetric] n(3) ne(2) [symmetric]]
      assign_on [OF assms(1) n n(1,2)] by simp
  have "\<not> on ?r' k f" if "0 \<le> k" "k < 48" "k \<noteq> n" "k \<noteq> m" for k
    using that assign_other [OF wf(1) m that(1,2) that(4) n(3) ne(2) [symmetric]]
      assign_on [OF assms(1) n that(1,2)] by simp
  moreover have "\<not> on ?r' m f" using on_unique assign_on [OF wf(1) m m(1,2)] ne(2) by blast
  ultimately have "k = n" if "0 \<le> k" "k < 48" "on ?r' k f" for k using that by blast
  then show ?thesis using find_spec [OF wf(2), of f] on n by blast
qed

end

interpretation pads: pad_multiplexer fpioa_wf "\<lambda>r n f. snd (fpioa_set_function r n f)" carries
  fpioa_get_io_by_function "\<lambda>f. 0 \<le> f \<and> f < 256 \<and> f \<noteq> 120"
proof (unfold_locales, goal_cases)
  case (1 r n f)
  then show ?case by (simp add: fpioa_wf_def set_function_io del: upt_rec_numeral)
next
  case (2 r n f m)
  then show ?case
    by (auto simp: fpioa_wf_def set_function_io carries_def pad_config_channel simp del: upt_rec_numeral)
next
  case (3 r n f m f')
  then show ?case
    by (auto simp: fpioa_wf_def set_function_io carries_def pad_config_channel simp del: upt_rec_numeral)
next
  case (4 r m f f')
  then show ?case by (simp add: carries_def)
next
  case (5 r f)
  show ?case
  proof (cases "filter (\<lambda>i. uint (ch_sel (io r ! i)) = f) [0..<48]")
    case Nil
    then have "\<forall>i < 48. uint (ch_sel (io r ! i)) \<noteq> f" by (simp add: filter_empty_conv del: upt_rec_numeral)
    then have "\<not> carries r m f" if "0 \<le> m" "m < 48" for m
      using that spec [of "\<lambda>i. i < 48 \<longrightarrow> uint (ch_sel (io r ! i)) \<noteq> f" "nat m"] by (simp add: carries_def)
    with Nil show ?thesis by (simp add: fpioa_get_io_by_function_def del: upt_rec_numeral)
  next
    case (Cons i js)
    have "i \<in> set (filter (\<lambda>i. uint (ch_sel (io r ! i)) = f) [0..<48])" unfolding Cons by simp
    then have "i < 48" "uint (ch_sel (io r ! i)) = f" by (simp_all del: upt_rec_numeral)
    with Cons show ?thesis
      by (auto simp: fpioa_get_io_by_function_def carries_def simp del: upt_rec_numeral)
  qed
qed

section \<open>Tie registers\<close>

text \<open>Only two rows have tie bits, so all other passes of the first loop change nothing.\<close>

lemma tie_bits:
  assumes "i < 256"
  shows "tie_en (function_config ! i) = (if i = 16 \<or> i = 82 then 1 else 0)"
    and "tie_val (function_config ! i) = (if i = 16 \<or> i = 82 then 1 else 0)"
  using assms arg_cong [OF tied_rows(1), of "\<lambda>xs. xs ! i"] arg_cong [OF tied_rows(2), of "\<lambda>xs. xs ! i"]
  by (simp_all add: nth_list_update)

lemma collect_ties:
  "fold (\<lambda>i (en, val).
      (en[i div 32 := en ! (i div 32) OR push_bit (i mod 32) (ucast (tie_en (function_config ! i)))],
       val[i div 32 := val ! (i div 32) OR push_bit (i mod 32) (ucast (tie_val (function_config ! i)))]))
    [0..<256] (replicate 8 0, replicate 8 0) =
   ([0x10000, 0, 0x40000, 0, 0, 0, 0, 0 :: u32], [0x10000, 0, 0x40000, 0, 0, 0, 0, 0 :: u32])" (is "fold ?g _ _ = _")
proof -
  let ?f = "\<lambda>i (en, val). (en[i div 32 := en ! (i div 32) OR push_bit (i mod 32) (1 :: u32)],
                         val[i div 32 := val ! (i div 32) OR push_bit (i mod 32) (1 :: u32)])"
  have "fold ?g [0..<256] e = fold (\<lambda>i. if i = 16 \<or> i = 82 then ?f i else id) [0..<256] e" for e
    by (rule fold_cong) (auto simp: tie_bits simp del: upt_rec_numeral)
  also have "\<dots> e = fold ?f (filter (\<lambda>i. i = 16 \<or> i = 82) [0..<256]) e" for e
    by (simp only: fold_filter)
  moreover have "filter (\<lambda>i. i = 16 \<or> i = 82) [0..<256] = [16, 82 :: nat]" by code_simp
  moreover have "(replicate 8 0)[0 := 65536, 2 := 262144] = [0x10000, 0, 0x40000, 0, 0, 0, 0, 0 :: u32]"
    by code_simp
  ultimately show ?thesis by (simp del: upt_rec_numeral)
qed

lemma eight_writes:
  "length xs = 8 \<Longrightarrow> length ys = 8 \<Longrightarrow> fold (\<lambda>i xs. xs[i := ys ! i]) [0..<8] xs = ys"
  by (auto simp: length_Suc_conv eval_nat_numeral)

lemma fpioa_init_regs:
  assumes "fpioa_wf r"
  shows "fpioa_init r = (0, r\<lparr>tie_en_reg := [0x10000, 0, 0x40000, 0, 0, 0, 0, 0],
                              tie_val_reg := [0x10000, 0, 0x40000, 0, 0, 0, 0, 0]\<rparr>)"
proof -
  have "fold (\<lambda>i r. r\<lparr>tie_val_reg := (tie_val_reg r)[i := v ! i], tie_en_reg := (tie_en_reg r)[i := e ! i]\<rparr>) ks r =
      r\<lparr>tie_en_reg := fold (\<lambda>i xs. xs[i := e ! i]) ks (tie_en_reg r),
        tie_val_reg := fold (\<lambda>i xs. xs[i := v ! i]) ks (tie_val_reg r)\<rparr>" for v e ks and r :: fpioa_regs
    by (induction ks arbitrary: r) simp_all
  then show ?thesis using assms unfolding fpioa_init_def collect_ties
    by (simp add: fpioa_wf_def eight_writes del: upt_rec_numeral)
qed

lemma tie_word_bits:
  assumes "i < 256"
  shows "bit ([0x10000, 0, 0x40000, 0, 0, 0, 0, 0 :: u32] ! (i div 32)) (i mod 32) = (i = 16 \<or> i = 82)"
proof -
  define k j where "k = i div 32" and "j = i mod 32"
  have i: "i = 32 * k + j" "j < 32" by (simp_all add: k_def j_def)
  have "(0x10000 :: u32) = 2 ^ 16" "(0x40000 :: u32) = 2 ^ 18" by simp_all
  then have b: "bit (0x10000 :: u32) j = (j = 16)" "bit (0x40000 :: u32) j = (j = 18)"
    by (simp_all only: bit_exp_iff) auto
  have "k < 8" using assms by (simp add: k_def)
  then consider "k = 0" | "k = 1" | "k = 2" | "k = 3" | "k = 4" | "k = 5" | "k = 6" | "k = 7" by linarith
  then show ?thesis
    unfolding k_def [symmetric] j_def [symmetric] by cases (use i b in auto)
qed

section \<open>Properties\<close>

text \<open>C27: after \<^verbatim>\<open>fpioa_set_function\<close> assigns a function (other than the reserved one) to a pad,
  that pad and no other carries it, \<^verbatim>\<open>fpioa_get_io_by_function\<close> finds the pad, and the pads that
  neither were the target nor carried the function keep their configuration.\<close>

theorem fpioa_set_function_unique:
  assumes "fpioa_wf r" and "0 \<le> n" and "n < 48" and "0 \<le> f" and "f < 256" and "f \<noteq> 120"
  shows "fst (fpioa_set_function r n f) = 0 \<and>
     fpioa_get_io_by_function (snd (fpioa_set_function r n f)) f = n \<and>
     (\<forall>i < 48. (uint (ch_sel (io (snd (fpioa_set_function r n f)) ! i)) = f) = (int i = n)) \<and>
     (\<forall>i < 48. int i \<noteq> n \<and> uint (ch_sel (io r ! i)) \<noteq> f \<longrightarrow>
        io (snd (fpioa_set_function r n f)) ! i = io r ! i)"
  using assms pads.find_assign [of r n f] pad_config_channel [of f] pad_config_channel [of 120]
  by (auto simp: fpioa_wf_def set_function_io simp del: upt_rec_numeral)

definition blank_fpioa :: fpioa_regs where
  "blank_fpioa = \<lparr>io = replicate 48 (pad_config 120), tie_en_reg = replicate 8 0, tie_val_reg = replicate 8 0\<rparr>"

theorem fpioa_set_function_unique_witness:
  "fpioa_get_io_by_function (snd (fpioa_set_function blank_fpioa 18 26)) 26 = 18"
  using fpioa_set_function_unique [of blank_fpioa 18 26] by (simp add: fpioa_wf_def blank_fpioa_def)

text \<open>\<^verbatim>\<open>fpioa_init\<close> ties exactly the arbitration inputs of the two SPI masters (functions 16
  and 82) high, as the header documents.\<close>

lemma fpioa_init_ties:
  assumes "fpioa_wf r" and "i < 256"
  shows "bit (tie_en_reg (snd (fpioa_init r)) ! (i div 32)) (i mod 32) = (i = 16 \<or> i = 82) \<and>
         bit (tie_val_reg (snd (fpioa_init r)) ! (i div 32)) (i mod 32) = (i = 16 \<or> i = 82)"
  using tie_word_bits [OF assms(2)] fpioa_init_regs [OF assms(1)] by simp

lemma fpioa_init_ties_witness:
  "bit (tie_en_reg (snd (fpioa_init blank_fpioa)) ! (82 div 32)) (82 mod 32)"
  using fpioa_init_ties [of blank_fpioa 82] by (simp add: fpioa_wf_def blank_fpioa_def)

end
