(* ===== verification/Kboot_Stage1.thy ===== *)
theory Kboot_Stage1
  imports Kboot_Sha256 Fpioa
begin

unbundle bit_operations_syntax

text \<open>
  \<^verbatim>\<open>Kboot/src/bootloader_hi/main.c\<close>: stage 1 of the boot loader, as core 0 runs it. The static
  variables are the record \<open>kboot\<close>. The flash is seen through the memory-mapped (XiP)
  window: byte reads and 32-bit reads are the two fields of the parameter \<open>flash\<close>, since how
  a 32-bit read orders the bytes is the SPI controller's business. The SHA-256 unit is the
  parameter \<open>engine\<close> of \<open>Kboot_Sha256\<close>. The console is a list of characters, the boot pin
  the value of the GPIO input register at the two moments it is sampled. Messages (\<^verbatim>\<open>LOG\<close>) and
  delays are not modelled; scratch variables (\<^verbatim>\<open>i\<close>, \<^verbatim>\<open>offset\<close>, \<^verbatim>\<open>key\<close>, \<^verbatim>\<open>buffer\<close>, \<^verbatim>\<open>hash\<close>,
  \<^verbatim>\<open>app_hash\<close>) are local to the functions that use them.

  The result of a run is \<open>None\<close> when the code waits for ever (the unit never completes, or
  the menu never gets an acceptable character), \<open>Halted\<close> when it reports a failed check and
  stops, and \<open>Started\<close> when it jumps to the loaded application.
\<close>

section \<open>State\<close>

record flash =
  xip8 :: "u32 \<Rightarrow> u8"
  xip32 :: "u32 \<Rightarrow> u32"

record kboot =
  cfg_magic :: u32
  cfg_address :: u32
  cfg_size :: u32
  cfg_crc :: u32
  cfg_info :: bytes
  available_apps :: "bool list"
  app_flash_start :: u32
  app_size :: u32
  cfg_offset :: u32
  crc32 :: u32
  sha_context :: sha256_context
  boot_pin :: u32
  print_enabled :: bool
  fpioa :: fpioa_regs
  gpiohs :: gpiohs_regs
  sram :: "u32 \<Rightarrow> u8"
  spi3_xip_en :: bool

datatype kboot_result = Halted kboot | Started kboot

abbreviation (input) DEFAULT_APP_ADDR :: u32 where "DEFAULT_APP_ADDR \<equiv> 0x00010000"
abbreviation (input) BOOT_CONFIG_ADDR :: u32 where "BOOT_CONFIG_ADDR \<equiv> 0x00004000"
abbreviation (input) BOOT_CONFIG_ITEMS :: nat where "BOOT_CONFIG_ITEMS \<equiv> 8"
abbreviation (input) MAGIC_ID :: u32 where "MAGIC_ID \<equiv> 0x5AA5D0C0"
abbreviation (input) MAGIC_ID_MASK :: u32 where "MAGIC_ID_MASK \<equiv> 0xFFFFFFF0"
abbreviation (input) CFG_APP_FLAG_ACTIVE :: u32 where "CFG_APP_FLAG_ACTIVE \<equiv> 0x00000001"
abbreviation (input) CFG_APP_FLAG_CRC32 :: u32 where "CFG_APP_FLAG_CRC32 \<equiv> 0x00000002"
abbreviation (input) CFG_APP_FLAG_SHA256 :: u32 where "CFG_APP_FLAG_SHA256 \<equiv> 0x00000004"
abbreviation (input) CFG_APP_FLAG_SIZE :: u32 where "CFG_APP_FLAG_SIZE \<equiv> 0x00000008"
abbreviation (input) MIN_APP_FLASH_ADDR :: u32 where "MIN_APP_FLASH_ADDR \<equiv> 0x00010000"
abbreviation (input) MAX_APP_FLASH_ADDR :: u32 where "MAX_APP_FLASH_ADDR \<equiv> 0x00800000"
abbreviation (input) MIN_APP_FLASH_SIZE :: u32 where "MIN_APP_FLASH_SIZE \<equiv> 0x00004000"
abbreviation (input) MAX_APP_FLASH_SIZE :: u32 where "MAX_APP_FLASH_SIZE \<equiv> 0x00300000"
abbreviation (input) BOOT_PIN :: int where "BOOT_PIN \<equiv> 18"
abbreviation (input) FUNC_GPIOHS2 :: int where "FUNC_GPIOHS2 \<equiv> 26"
abbreviation (input) GPIO_KEY :: u8 where "GPIO_KEY \<equiv> 2"

section \<open>Reading the flash\<close>

definition flash2uint32 :: "flash \<Rightarrow> u32 \<Rightarrow> u32" where
  "flash2uint32 fl addr =
     ucast (xip8 fl addr) + push_bit 8 (ucast (xip8 fl (addr + 1)))
       + push_bit 16 (ucast (xip8 fl (addr + 2))) + push_bit 24 (ucast (xip8 fl (addr + 3)))"

definition get_params :: "flash \<Rightarrow> nat \<Rightarrow> kboot \<Rightarrow> kboot" where
  "get_params fl i s =
     (let offset = of_nat i * 8 + cfg_offset s div 4;
          s = s\<lparr>cfg_magic := xip32 fl (BOOT_CONFIG_ADDR + 4 * offset),
                cfg_address := xip32 fl (BOOT_CONFIG_ADDR + 4 * (offset + 1)),
                cfg_size := xip32 fl (BOOT_CONFIG_ADDR + 4 * (offset + 2)),
                cfg_crc := xip32 fl (BOOT_CONFIG_ADDR + 4 * (offset + 3))\<rparr>;
          offset = of_nat i * 32 + cfg_offset s + 0x10
      in s\<lparr>cfg_info := (map (\<lambda>n. xip8 fl (BOOT_CONFIG_ADDR + (offset + of_nat n))) [0..<16])[15 := 0]\<rparr>)"

text \<open>The bytes of \<open>n\<close> consecutive flash addresses.\<close>

definition flash_bytes :: "flash \<Rightarrow> u32 \<Rightarrow> nat \<Rightarrow> bytes" where
  "flash_bytes fl a n = map (\<lambda>i. xip8 fl (a + of_nat i)) [0..<n]"

section \<open>Checks\<close>

text \<open>The loop of \<^verbatim>\<open>app_sha256\<close>, in pieces of 1024 bytes; \<open>len\<close> is the signed \<^verbatim>\<open>size\<close>, an \<^verbatim>\<open>int\<close>.\<close>

function app_sha256_loop :: "flash \<Rightarrow> u32 \<Rightarrow> u32 \<Rightarrow> int \<Rightarrow> sha256_context \<times> sha_unit \<Rightarrow> sha256_context \<times> sha_unit" where
  "app_sha256_loop fl addr idx len cu =
     (if len > 0 then
        let sz = (if len \<ge> 1024 then 1024 else len);
            buf = map (\<lambda>n. xip8 fl (addr + idx + of_nat n)) [0..<nat sz];
            cu = sha256_update cu buf
        in app_sha256_loop fl addr (idx + of_int sz) (len - sz) cu
      else cu)"
  by pat_completeness auto
termination
  by (relation "measure (\<lambda>(fl, addr, idx, len, cu). nat len)") auto

declare app_sha256_loop.simps [simp del]

definition app_sha256 :: "sha_engine \<Rightarrow> flash \<Rightarrow> kboot \<Rightarrow> (bool \<times> kboot) option" where
  "app_sha256 engine fl s =
     (let len = cfg_size s + 5;
          cu = sha256_init (sha_context s) (scast len);
          cu = app_sha256_loop fl (cfg_address s) 0 (sint len) cu
      in case sha256_final engine cu of
           None \<Rightarrow> None
         | Some (hash, ctx) \<Rightarrow>
             let s = s\<lparr>sha_context := ctx\<rparr>;
                 offset = cfg_address s + cfg_size s + 5;
                 app_hash = map (\<lambda>n. xip8 fl (offset + of_nat n)) [0..<32]
             in Some (list_all (\<lambda>idx. hash ! idx = app_hash ! idx) [0..<32], s))"

definition crc32_bit :: "u32 \<Rightarrow> u32" where
  "crc32_bit crc = (let msk = - (crc AND 1) in drop_bit 1 crc XOR (0xEDB88320 AND msk))"

definition crc32_byte :: "u32 \<Rightarrow> u8 \<Rightarrow> u32" where
  "crc32_byte crc b = (crc32_bit ^^ 8) (crc XOR ucast b)"

definition app_crc32 :: "flash \<Rightarrow> kboot \<Rightarrow> bool \<times> kboot" where
  "app_crc32 fl s =
     (let crc = fold (\<lambda>n crc. crc32_byte crc (xip8 fl (cfg_address s + of_nat n)))
                  [5..<unat (cfg_size s + 5)] 0xFFFFFFFF;
          s = s\<lparr>crc32 := NOT crc\<rparr>
      in (crc32 s = cfg_crc s, s))"

definition app_check :: "sha_engine \<Rightarrow> flash \<Rightarrow> kboot \<Rightarrow> (bool \<times> kboot) option" where
  "app_check engine fl s =
     (let key = xip8 fl (cfg_address s);
          sz = flash2uint32 fl (cfg_address s + 1)
      in if key \<noteq> 0 then Some (False, s)
         else if cfg_magic s AND CFG_APP_FLAG_SIZE \<noteq> 0 \<and> cfg_size s \<noteq> sz then Some (False, s)
         else
           let s = (if cfg_size s \<noteq> sz then s\<lparr>cfg_size := sz\<rparr> else s) in
           if cfg_magic s AND CFG_APP_FLAG_SHA256 \<noteq> 0 then app_sha256 engine fl s
           else if cfg_magic s AND CFG_APP_FLAG_CRC32 \<noteq> 0 then Some (app_crc32 fl s)
           else Some (True, s))"

section \<open>Finding an application\<close>

text \<open>One pass of the loop at \<^verbatim>\<open>check_cfg\<close>; the flag tells whether the loop is left by
  \<^verbatim>\<open>break\<close>.\<close>

definition scan_entry :: "sha_engine \<Rightarrow> flash \<Rightarrow> nat \<Rightarrow> kboot \<Rightarrow> (bool \<times> kboot) option" where
  "scan_entry engine fl i s =
     (let s = get_params fl i s in
      if cfg_magic s AND MAGIC_ID_MASK \<noteq> MAGIC_ID then Some (False, s)
      else if \<not> (MIN_APP_FLASH_ADDR \<le> cfg_address s \<and> cfg_address s \<le> MAX_APP_FLASH_ADDR) then Some (False, s)
      else if \<not> (MIN_APP_FLASH_SIZE \<le> cfg_size s \<and> cfg_size s \<le> MAX_APP_FLASH_SIZE) then Some (False, s)
      else
        let active = (cfg_magic s AND CFG_APP_FLAG_ACTIVE \<noteq> 0);
            checked = (active \<or> boot_pin s = 0) in
        case (if checked then app_check engine fl s else Some (True, s)) of
          None \<Rightarrow> None
        | Some (False, s) \<Rightarrow> Some (False, s)
        | Some (True, s) \<Rightarrow>
            let s = (if checked then s\<lparr>available_apps := (available_apps s)[i := True]\<rparr> else s) in
            if active then
              let s = (if app_flash_start s = DEFAULT_APP_ADDR
                       then s\<lparr>app_size := cfg_size s, app_flash_start := cfg_address s\<rparr> else s)
              in Some (0 < boot_pin s, s)
            else Some (False, s))"

fun scan_entries :: "sha_engine \<Rightarrow> flash \<Rightarrow> nat list \<Rightarrow> kboot \<Rightarrow> kboot option" where
  "scan_entries engine fl [] s = Some s"
| "scan_entries engine fl (i # is') s =
     (case scan_entry engine fl i s of
        None \<Rightarrow> None
      | Some (brk, s) \<Rightarrow> if brk then Some s else scan_entries engine fl is' s)"

definition app_found :: "kboot \<Rightarrow> bool" where
  "app_found s \<longleftrightarrow> \<not> (app_flash_start s = DEFAULT_APP_ADDR \<and> (\<forall>a \<in> set (available_apps s). \<not> a))"

text \<open>The jump back to \<^verbatim>\<open>check_cfg\<close> is taken once, for the backup sector.\<close>

definition find_apps :: "sha_engine \<Rightarrow> flash \<Rightarrow> kboot \<Rightarrow> kboot option" where
  "find_apps engine fl s =
     (case scan_entries engine fl [0..<BOOT_CONFIG_ITEMS] (s\<lparr>app_flash_start := DEFAULT_APP_ADDR, cfg_offset := 0\<rparr>) of
        None \<Rightarrow> None
      | Some s \<Rightarrow>
          if app_found s then Some s
          else scan_entries engine fl [0..<BOOT_CONFIG_ITEMS] (s\<lparr>cfg_offset := 4096\<rparr>))"

text \<open>The menu: \<open>None\<close> when the characters run out before one is accepted.\<close>

fun select_app :: "flash \<Rightarrow> int list \<Rightarrow> kboot \<Rightarrow> kboot option" where
  "select_app fl [] s = None"
| "select_app fl (char_in # chars) s =
     (if char_in = 100 \<or> char_in = 68 then Some (s\<lparr>app_flash_start := DEFAULT_APP_ADDR\<rparr>)
      else
        let n = char_in - 0x30 in
        if 0 \<le> n \<and> n < int BOOT_CONFIG_ITEMS \<and> available_apps s ! nat n then
          let s = get_params fl (nat n) s in
          Some (s\<lparr>app_size := flash2uint32 fl (cfg_address s + 1), app_flash_start := cfg_address s\<rparr>)
        else select_app fl chars s)"

definition choose_app :: "flash \<Rightarrow> u32 \<Rightarrow> int list \<Rightarrow> kboot \<Rightarrow> kboot option" where
  "choose_app fl input chars s =
     (if \<not> app_found s then Some s
      else if boot_pin s = 0 then
        let s = s\<lparr>gpiohs := (gpiohs s)\<lparr>input_val := input\<rparr>\<rparr>;
            s = s\<lparr>boot_pin := gpiohs_get_pin (gpiohs s) GPIO_KEY\<rparr>
        in if boot_pin s = 0 then select_app fl chars s else Some s
      else Some s)"

section \<open>Loading\<close>

text \<open>The default application is checked before it is loaded; the flag tells whether the check
  passed.\<close>

definition check_default :: "sha_engine \<Rightarrow> flash \<Rightarrow> kboot \<Rightarrow> (bool \<times> kboot) option" where
  "check_default engine fl s =
     (if app_flash_start s = DEFAULT_APP_ADDR then
        let s = s\<lparr>app_size := flash2uint32 fl (app_flash_start s + 1)\<rparr> in
        if MIN_APP_FLASH_SIZE \<le> app_size s \<and> app_size s \<le> MAX_APP_FLASH_SIZE then
          app_sha256 engine fl (s\<lparr>cfg_size := app_size s, cfg_address := app_flash_start s\<rparr>)
        else Some (False, s)
      else Some (True, s))"

text \<open>The copy, byte by byte to address 0 and up. The memory of the model is apart from the code
  and data of the boot loader, which run at offset \<open>0x5E0000\<close>: what is said of a copy is what
  the code does as long as the copy ends below that, and the properties say so where they depend
  on it.\<close>

primrec copy_app :: "flash \<Rightarrow> u32 \<Rightarrow> nat \<Rightarrow> (u32 \<Rightarrow> u8) \<Rightarrow> u32 \<Rightarrow> u8" where
  "copy_app fl start 0 mem = mem"
| "copy_app fl start (Suc i) mem =
     (copy_app fl start i mem)(of_nat i := xip8 fl (start + of_nat i + 5))"

definition load_app :: "flash \<Rightarrow> kboot \<Rightarrow> kboot" where
  "load_app fl s =
     s\<lparr>sram := copy_app fl (app_flash_start s) (unat (app_size s)) (sram s), spi3_xip_en := False\<rparr>"

definition boot_setup :: "flash \<Rightarrow> u32 \<Rightarrow> kboot \<Rightarrow> kboot" where
  "boot_setup fl input s =
     (let s = s\<lparr>boot_pin := 1, cfg_magic := xip32 fl (BOOT_CONFIG_ADDR + 4 * of_nat (BOOT_CONFIG_ITEMS * 8))\<rparr>;
          s = s\<lparr>print_enabled := (cfg_magic s \<noteq> MAGIC_ID)\<rparr>
      in if print_enabled s then
           let s = s\<lparr>fpioa := snd (fpioa_set_function (fpioa s) BOOT_PIN FUNC_GPIOHS2)\<rparr>;
               (fp, gp) = gpiohs_set_drive_mode (fpioa s, gpiohs s) GPIO_KEY GPIO_DM_INPUT_PULL_UP;
               s = s\<lparr>fpioa := fp, gpiohs := gp\<lparr>input_val := input\<rparr>\<rparr>
           in s\<lparr>boot_pin := gpiohs_get_pin (gpiohs s) GPIO_KEY\<rparr>
         else s)"

text \<open>\<^verbatim>\<open>main\<close> on core 0, from the end of the handshake to the jump; \<open>input1\<close> and \<open>input2\<close> are the
  GPIO input register when it is sampled.\<close>

definition kboot_main :: "sha_engine \<Rightarrow> flash \<Rightarrow> u32 \<Rightarrow> u32 \<Rightarrow> int list \<Rightarrow> kboot \<Rightarrow> kboot_result option" where
  "kboot_main engine fl input1 input2 chars s =
     (case find_apps engine fl (boot_setup fl input1 s) of
        None \<Rightarrow> None
      | Some s \<Rightarrow>
          (case choose_app fl input2 chars s of
             None \<Rightarrow> None
           | Some s \<Rightarrow>
               (case check_default engine fl s of
                  None \<Rightarrow> None
                | Some (ok, s) \<Rightarrow> Some (if ok then Started (load_app fl s) else Halted (s\<lparr>print_enabled := True\<rparr>)))))"

end
