(* ===== verification/Kboot_Secure.thy ===== *)
theory Kboot_Secure
  imports Kboot_Stage1
begin

unbundle bit_operations_syntax

text \<open>
  What stage 1 guarantees of the application it starts. \<open>entry_good\<close> says what it means that
  entry \<open>i\<close> of a configuration sector passes its checks, in terms of the flash contents (and,
  for a hash check of more than 4 MiB, of the answer of the SHA-256 unit); \<open>kboot_inv\<close> is the
  invariant of the search for applications.
\<close>

section \<open>Reference notions\<close>

definition entry_word :: "flash \<Rightarrow> u32 \<Rightarrow> nat \<Rightarrow> nat \<Rightarrow> u32" where
  "entry_word fl off i k = xip32 fl (0x4000 + 4 * (of_nat i * 8 + off div 4 + of_nat k))"

definition header_size :: "flash \<Rightarrow> u32 \<Rightarrow> u32" where
  "header_size fl a = flash2uint32 fl (a + 1)"

text \<open>The digest stored behind the image is the SHA-256 of its header and code.\<close>

definition sha_verified :: "flash \<Rightarrow> u32 \<Rightarrow> u32 \<Rightarrow> bool" where
  "sha_verified fl a n \<longleftrightarrow>
     SHA256 (flash_bytes fl a (unat n + 5)) = flash_bytes fl (a + n + 5) 32"

text \<open>What the unit answers for an image of any size. The count field has 16 bits, so the number
  of blocks announced for more than \<open>0x3FFFB2\<close> bytes of code is not the number fed, and what
  the unit does then is not documented; the size is an \<^verbatim>\<open>int\<close> in \<^verbatim>\<open>app_sha256\<close>, so no byte is
  fed when it is negative.\<close>

abbreviation (input) SHA_UNIT_MAX :: u32 where "SHA_UNIT_MAX \<equiv> 0x003FFFB2"

definition sha_answer :: "sha_engine \<Rightarrow> flash \<Rightarrow> u32 \<Rightarrow> u32 \<Rightarrow> bytes option" where
  "sha_answer engine fl a n =
     (let m = flash_bytes fl a (nat (sint (n + 5)));
          blocks = (scast (n + 5) + 72) div 64 :: u64
      in map_option (\<lambda>res. concat (map (\<lambda>i. bytes_le 4 (res ! (7 - i))) [0..<8]))
           (engine (ucast (ucast blocks :: u32)) (words_of_bytes 4 (md_pad 64 (len64 (length m)) m))))"

text \<open>The hash check: up to 4 MiB the stored digest is the SHA-256 digest of the image, whatever
  the unit; beyond, it is what the unit answered.\<close>

definition sha_passes :: "sha_engine \<Rightarrow> flash \<Rightarrow> u32 \<Rightarrow> u32 \<Rightarrow> bool" where
  "sha_passes engine fl a n \<longleftrightarrow>
     (if n \<le> SHA_UNIT_MAX then sha_verified fl a n
      else sha_answer engine fl a n = Some (flash_bytes fl (a + n + 5) 32))"

text \<open>CRC-32 in its serial form: one bit of the message at a time, least significant first.\<close>

definition crc_feed :: "bool \<Rightarrow> u32 \<Rightarrow> u32" where
  "crc_feed b crc = (if bit crc 0 \<noteq> b then drop_bit 1 crc XOR 0xEDB88320 else drop_bit 1 crc)"

definition CRC32 :: "bytes \<Rightarrow> u32" where
  "CRC32 bs = NOT (fold crc_feed (concat (map (\<lambda>b. map (bit b) [0..<8]) bs)) 0xFFFFFFFF)"

text \<open>The bound of the loop of \<^verbatim>\<open>app_crc32\<close>, the size plus five, wraps around for the five largest
  sizes.\<close>

definition crc_verified :: "flash \<Rightarrow> u32 \<Rightarrow> u32 \<Rightarrow> u32 \<Rightarrow> bool" where
  "crc_verified fl a n c \<longleftrightarrow> CRC32 (flash_bytes fl (a + 5) (if n < 0xFFFFFFFB then unat n else 0)) = c"

definition entry_good :: "sha_engine \<Rightarrow> flash \<Rightarrow> u32 \<Rightarrow> nat \<Rightarrow> bool" where
  "entry_good engine fl off i \<longleftrightarrow>
     (let magic = entry_word fl off i 0; a = entry_word fl off i 1; sz = entry_word fl off i 2;
          n = header_size fl a in
      magic AND MAGIC_ID_MASK = MAGIC_ID \<and>
      MIN_APP_FLASH_ADDR \<le> a \<and> a \<le> MAX_APP_FLASH_ADDR \<and>
      MIN_APP_FLASH_SIZE \<le> sz \<and> sz \<le> MAX_APP_FLASH_SIZE \<and>
      xip8 fl a = 0 \<and>
      (magic AND CFG_APP_FLAG_SIZE \<noteq> 0 \<longrightarrow> n = sz) \<and>
      (magic AND CFG_APP_FLAG_SHA256 \<noteq> 0 \<longrightarrow> sha_passes engine fl a n) \<and>
      (magic AND CFG_APP_FLAG_SHA256 = 0 \<longrightarrow> magic AND CFG_APP_FLAG_CRC32 \<noteq> 0 \<longrightarrow>
         crc_verified fl a n (entry_word fl off i 3)))"

text \<open>The completion flag of the unit rises whatever it is told and fed.\<close>

definition unit_completes :: "sha_engine \<Rightarrow> bool" where
  "unit_completes engine \<longleftrightarrow> (\<forall>cnt ws. engine cnt ws \<noteq> None)"

section \<open>The hash check\<close>

lemma length_flash_bytes [simp]: "length (flash_bytes fl a n) = n"
  by (simp add: flash_bytes_def)

lemma flash_bytes_split:
  "k \<le> n \<Longrightarrow> flash_bytes fl a n = flash_bytes fl a k @ flash_bytes fl (a + of_nat k) (n - k)"
proof -
  assume "k \<le> n"
  then have "[0..<n] = [0..<k] @ map (\<lambda>i. k + i) [0..<n - k]"
    using upt_add_eq_append [of 0 k "n - k"] map_add_upt [of k "n - k"] by (simp add: add.commute)
  then show ?thesis by (simp add: flash_bytes_def algebra_simps)
qed

lemma app_sha256_loop_updates:
  "\<exists>ds. app_sha256_loop fl a idx n cu = foldl sha256_update cu ds \<and> concat ds = flash_bytes fl (a + idx) (nat n)"
proof (induction "nat n" arbitrary: idx n cu rule: less_induct)
  case less
  show ?case
  proof (cases "0 < n")
    case False
    then show ?thesis
      by (intro exI [of _ "[]"]) (simp add: app_sha256_loop.simps flash_bytes_def)
  next
    case True
    define sz where "sz = (if n \<ge> 1024 then 1024 else n)"
    have sz: "0 < sz" "sz \<le> n" using True by (auto simp: sz_def)
    obtain ds where ds: "app_sha256_loop fl a (idx + of_int sz) (n - sz) (sha256_update cu (flash_bytes fl (a + idx) (nat sz))) =
        foldl sha256_update (sha256_update cu (flash_bytes fl (a + idx) (nat sz))) ds"
      and c: "concat ds = flash_bytes fl (a + (idx + of_int sz)) (nat (n - sz))"
      using less.hyps [of "n - sz"] sz by fastforce
    have "app_sha256_loop fl a idx n cu = foldl sha256_update cu (flash_bytes fl (a + idx) (nat sz) # ds)"
      using True ds by (subst app_sha256_loop.simps) (simp add: sz_def Let_def flash_bytes_def)
    moreover have "concat (flash_bytes fl (a + idx) (nat sz) # ds) = flash_bytes fl (a + idx) (nat n)"
      using sz flash_bytes_split [of "nat sz" "nat n" fl "a + idx"]
      by (simp add: c nat_diff_distrib algebra_simps)
    ultimately show ?thesis by blast
  qed
qed

lemma list_all_nth_eq:
  "length xs = n \<Longrightarrow> length ys = n \<Longrightarrow> list_all (\<lambda>i. xs ! i = ys ! i) [0..<n] \<longleftrightarrow> xs = ys"
  by (auto simp: list_all_iff intro: nth_equalityI)

lemma small_size:
  assumes "w \<le> SHA_UNIT_MAX"
  shows "unat (w + 5) = unat w + 5" and "sint (w + 5) = int (unat w + 5)"
    and "(scast (w + 5) :: u64) = of_nat (unat w + 5)" and "(unat w + 5 + 72) div 64 < 2 ^ 16"
proof -
  define n where "n = unat w"
  have n: "n \<le> 0x3FFFB2" using assms by (simp add: n_def word_le_nat_alt)
  have w: "w + 5 = of_nat (n + 5)" by (simp add: n_def)
  have u: "unat (of_nat (n + 5) :: u32) = n + 5" by (rule unat_of_nat_small) (use n in simp)
  have "signed_take_bit 31 (int (n + 5)) = int (n + 5)"
    by (rule signed_take_bit_int_eq_self) (use n in simp_all)
  moreover have "uint (of_nat (n + 5) :: u32) = int (n + 5)" by (simp only: uint_nat u)
  ultimately have s: "sint (of_nat (n + 5) :: u32) = int (n + 5)" by (simp only: sint_uint) simp
  show "unat (w + 5) = unat w + 5" unfolding w u by (simp add: n_def)
  show "sint (w + 5) = int (unat w + 5)" unfolding w s by (simp add: n_def)
  show "(scast (w + 5) :: u64) = of_nat (unat w + 5)"
    unfolding w scast_eq s by (simp only: of_int_of_nat_eq n_def)
  show "(unat w + 5 + 72) div 64 < 2 ^ 16" using n by (simp add: n_def)
qed

text \<open>The driver hands the unit the padded image, whatever its size.\<close>

lemma app_sha256_answer:
  assumes "length (buffer_bytes (sha_context s)) = 64"
  shows "\<exists>c. length (buffer_bytes c) = 64 \<and> app_sha256 engine fl s =
    map_option (\<lambda>d. (d = flash_bytes fl (cfg_address s + cfg_size s + 5) 32, s\<lparr>sha_context := c\<rparr>))
      (sha_answer engine fl (cfg_address s) (cfg_size s))"
proof -
  define k where "k = sint (cfg_size s + 5)"
  define n where "n = (scast (cfg_size s + 5) :: u64)"
  let ?a = "cfg_address s" and ?cu = "sha256_init (sha_context s) n"
  let ?m = "flash_bytes fl ?a (nat k)" and ?cnt = "ucast (ucast ((n + 64 + 8) div 64) :: u32) :: u16"
  let ?out = "\<lambda>res :: u32 list. concat (map (\<lambda>i. bytes_le 4 (res ! (8 - i - 1))) [0..<8])"
  obtain ds where ds: "app_sha256_loop fl ?a 0 k ?cu = foldl sha256_update ?cu ds" and m: "concat ds = ?m"
    using app_sha256_loop_updates [of fl ?a 0 k ?cu] by auto
  have "drv_repr ?cnt (foldl sha256_update ?cu ds) ?m"
    using drv_repr_updates [OF drv_repr_init [OF assms, of n], of ds] unfolding append_Nil m .
  from sha256_final_repr [OF this, of engine] obtain ws c where
    ws: "bytes_of_words 4 ws = md_pad 64 (len64 (length ?m)) ?m" and c: "length (buffer_bytes c) = 64"
    and fin: "sha256_final engine (foldl sha256_update ?cu ds) = map_option (\<lambda>res. (?out res, c)) (engine ?cnt ws)"
    by blast
  have "ws = words_of_bytes 4 (md_pad 64 (len64 (length ?m)) ?m)"
    unfolding ws [symmetric] by (rule words_of_bytes_of_words [symmetric]) simp
  then have ans: "sha_answer engine fl ?a (cfg_size s) = map_option ?out (engine ?cnt ws)"
    by (simp add: sha_answer_def Let_def k_def n_def add.assoc)
  have "length (?out res) = 32" for res by (simp add: length_concat comp_def sum_list_triv)
  then have "list_all (\<lambda>i. ?out res ! i = flash_bytes fl b 32 ! i) [0..<32] \<longleftrightarrow> ?out res = flash_bytes fl b 32" for res b
    by (intro list_all_nth_eq) simp_all
  then have "app_sha256 engine fl s = map_option (\<lambda>d. (d = flash_bytes fl (?a + cfg_size s + 5) 32, s\<lparr>sha_context := c\<rparr>))
      (sha_answer engine fl ?a (cfg_size s))"
    unfolding app_sha256_def Let_def k_def [symmetric] n_def [symmetric] ds fin ans
    by (simp add: flash_bytes_def map_option_case del: upt_rec_numeral split: option.split)
  with c show ?thesis by blast
qed

text \<open>Up to 4 MiB the answer is the digest.\<close>

lemma sha_answer_digest:
  assumes e: "sha_engine_ok engine" and n: "n \<le> SHA_UNIT_MAX"
  shows "sha_answer engine fl a n = Some (SHA256 (flash_bytes fl a (unat n + 5)))"
proof -
  define k where "k = unat n + 5"
  let ?c = "\<lparr>total_len = 0, buffer_len = 0, buffer_bytes = replicate 64 0\<rparr>" and ?m = "flash_bytes fl a (unat n + 5)"
  let ?p = "md_pad 64 (len64 (length ?m)) ?m" and ?cnt = "ucast (ucast ((of_nat (unat n + 5) + 72) div 64 :: u64) :: u32) :: u16"
  note sz = small_size [OF n]
  have b: "(length (concat [?m]) + 72) div 64 < 2 ^ 16" using sz(4) by simp
  have "drv_repr ?cnt (foldl sha256_update (sha256_init ?c (of_nat (length (concat [?m])))) [?m]) ?m"
    using drv_repr_updates [OF drv_repr_init [of ?c "of_nat (unat n + 5)"], of "[?m]"] by (simp add: add.assoc)
  from sha256_final_repr [OF this, of engine] obtain ws where ws: "bytes_of_words 4 ws = ?p"
    and fin: "map_option fst (sha256_final engine (foldl sha256_update (sha256_init ?c (of_nat (length (concat [?m])))) [?m])) =
      map_option (\<lambda>res. concat (map (\<lambda>i. bytes_le 4 (res ! (8 - i - 1))) [0..<8])) (engine ?cnt ws)"
    by (auto simp: option.map_comp comp_def)
  have w: "words_of_bytes 4 ?p = ws"
    unfolding ws [symmetric] by (rule words_of_bytes_of_words) simp
  have "sha_answer engine fl a n =
      map_option (\<lambda>res. concat (map (\<lambda>i. bytes_le 4 (res ! (8 - i - 1))) [0..<8])) (engine ?cnt ws)"
    unfolding sha_answer_def Let_def sz(2,3) w [symmetric] nat_int by simp
  also have "\<dots> = Some (SHA256 ?m)"
    unfolding fin [symmetric] using sha256_final_digest [OF e _ b, of ?c] by auto
  finally show ?thesis .
qed

lemma app_sha256_passes:
  assumes e: "sha_engine_ok engine" and c: "length (buffer_bytes (sha_context s)) = 64"
    and r: "app_sha256 engine fl s = Some (ok, s')"
  shows "ok = sha_passes engine fl (cfg_address s) (cfg_size s)"
    and "\<exists>c. s' = s\<lparr>sha_context := c\<rparr> \<and> length (buffer_bytes c) = 64"
proof -
  let ?a = "cfg_address s" and ?n = "cfg_size s"
  obtain c' d where c': "length (buffer_bytes c') = 64" "s' = s\<lparr>sha_context := c'\<rparr>"
    and d: "sha_answer engine fl ?a ?n = Some d" "ok = (d = flash_bytes fl (?a + ?n + 5) 32)"
    using app_sha256_answer [OF c, of engine fl] r by (auto simp: map_option_case split: option.splits)
  show "ok = sha_passes engine fl ?a ?n"
    using d sha_answer_digest [OF e, of ?n fl ?a] by (simp add: sha_passes_def sha_verified_def)
  show "\<exists>c. s' = s\<lparr>sha_context := c\<rparr> \<and> length (buffer_bytes c) = 64" using c' by blast
qed

lemma app_sha256_returns:
  assumes c: "length (buffer_bytes (sha_context s)) = 64"
    and u: "unit_completes engine \<or> sha_engine_ok engine \<and> cfg_size s \<le> SHA_UNIT_MAX"
  shows "\<exists>ok s'. app_sha256 engine fl s = Some (ok, s')"
  using app_sha256_answer [OF c, of engine fl] u sha_answer_digest [of engine "cfg_size s" fl "cfg_address s"]
  by (auto simp: sha_answer_def unit_completes_def Let_def)

lemma app_sha256_verdict:
  assumes e: "sha_engine_ok engine" and c: "length (buffer_bytes (sha_context s)) = 64"
    and n: "cfg_size s \<le> MAX_APP_FLASH_SIZE"
  shows "\<exists>c. app_sha256 engine fl s = Some (sha_verified fl (cfg_address s) (cfg_size s), s\<lparr>sha_context := c\<rparr>)"
proof -
  have "cfg_size s \<le> SHA_UNIT_MAX" using n by (simp add: word_le_nat_alt)
  moreover from this obtain ok s' where r: "app_sha256 engine fl s = Some (ok, s')" using app_sha256_returns [OF c] e by blast
  ultimately show ?thesis using app_sha256_passes [OF e c r] r by (auto simp: sha_passes_def)
qed

section \<open>The CRC check\<close>

text \<open>The masked step of the code is the conditional step of the reference.\<close>

lemma crc32_bit_cond: "crc32_bit c = (if bit c 0 then drop_bit 1 c XOR 0xEDB88320 else drop_bit 1 c)"
proof -
  have "c AND 1 = (if bit c 0 then 1 else 0)"
    by (rule bit_word_eqI) (auto simp: bit_simps intro: gr0I)
  then show ?thesis by (simp add: crc32_bit_def)
qed

text \<open>Mixing a byte in at once is feeding its bits one by one.\<close>

lemma crc32_bit_feed:
  "crc32_bit (c XOR w) = crc_feed (bit w 0) c XOR drop_bit 1 w"
proof -
  have "drop_bit 1 (c XOR w) = drop_bit 1 c XOR drop_bit 1 w" by (rule bit_word_eqI) (simp add: bit_simps)
  then show ?thesis
    by (cases "bit c 0"; cases "bit w 0")
      (simp_all add: crc32_bit_cond crc_feed_def bit_simps ac_simps)
qed

lemma crc32_bits_feed:
  "(crc32_bit ^^ k) (c XOR w) = fold crc_feed (map (bit w) [0..<k]) c XOR drop_bit k w"
proof (induction k arbitrary: c w)
  case (Suc k)
  have "(crc32_bit ^^ Suc k) (c XOR w) = (crc32_bit ^^ k) (crc_feed (bit w 0) c XOR drop_bit 1 w)"
    by (simp add: funpow_Suc_right crc32_bit_feed del: funpow.simps)
  also have "\<dots> = fold crc_feed (map (bit (drop_bit 1 w)) [0..<k]) (crc_feed (bit w 0) c) XOR drop_bit k (drop_bit 1 w)"
    by (rule Suc.IH)
  also have "map (bit (drop_bit 1 w)) [0..<k] = map (bit w) [1..<Suc k]"
    by (rule nth_equalityI) (simp_all add: bit_drop_bit_eq del: upt_Suc)
  also have "fold crc_feed (map (bit w) [1..<Suc k]) (crc_feed (bit w 0) c) = fold crc_feed (map (bit w) [0..<Suc k]) c"
    by (simp add: upt_conv_Cons del: upt_Suc)
  finally show ?case by (simp add: drop_bit_drop_bit)
qed simp

lemma crc32_byte_feed: "crc32_byte c b = fold crc_feed (map (bit b) [0..<8]) c"
proof -
  have "drop_bit 8 (ucast b :: u32) = 0"
    by (rule bit_word_eqI) (auto simp: bit_simps dest: bit_imp_le_length)
  moreover have "map (bit (ucast b :: u32)) [0..<8] = map (bit b) [0..<8]"
    by (rule map_cong) (auto simp: bit_simps)
  ultimately show ?thesis by (simp only: crc32_byte_def crc32_bits_feed xor.right_neutral)
qed

lemma CRC32_bytes: "CRC32 bs = NOT (fold (\<lambda>b c. crc32_byte c b) bs 0xFFFFFFFF)"
proof -
  have "fold crc_feed (concat (map (\<lambda>b. map (bit b) [0..<8]) bs)) c = fold (\<lambda>b c. crc32_byte c b) bs c" for c
    by (induction bs arbitrary: c) (simp_all add: crc32_byte_feed del: upt_rec_numeral)
  then show ?thesis by (simp add: CRC32_def)
qed

lemma app_crc32_fold:
  "NOT (fold (\<lambda>n crc. crc32_byte crc (xip8 fl (a + of_nat n))) [5..<k + 5] 0xFFFFFFFF) = CRC32 (flash_bytes fl (a + 5) k)"
proof -
  have "[5..<k + 5] = map (\<lambda>i. i + 5) [0..<k]" using map_add_upt [of 5 k] by simp
  then have "fold (\<lambda>n crc. crc32_byte crc (xip8 fl (a + of_nat n))) [5..<k + 5] c =
      fold (\<lambda>b c. crc32_byte c b) (flash_bytes fl (a + 5) k) c" for c
    by (simp add: flash_bytes_def fold_map comp_def algebra_simps)
  then show ?thesis by (simp add: CRC32_bytes)
qed

lemma unat_less_32: "unat (w :: u32) < 2 ^ 32"
  using unsigned_less [of w] by simp

lemma unat_plus_5: "unat (w + 5) = (if w < 0xFFFFFFFB then unat w + 5 else unat w - 0xFFFFFFFB)" for w :: u32
proof (cases "unat w < 0xFFFFFFFB")
  case True
  then show ?thesis by (simp add: unat_word_ariths word_less_nat_alt)
next
  case False
  then have "(unat w + 5) mod 2 ^ 32 = unat w + 5 - 2 ^ 32"
    using unat_less_32 [of w] by (subst mod_if) simp
  then show ?thesis using False by (simp add: unat_word_ariths word_less_nat_alt)
qed

lemma app_crc32_code:
  "app_crc32 fl s =
     (let c = CRC32 (flash_bytes fl (cfg_address s + 5) (if cfg_size s < 0xFFFFFFFB then unat (cfg_size s) else 0))
      in (c = cfg_crc s, s\<lparr>crc32 := c\<rparr>))"
proof -
  have "unat (cfg_size s + 5) \<le> 5" if "\<not> cfg_size s < 0xFFFFFFFB"
    using that unat_less_32 [of "cfg_size s"] by (simp add: unat_plus_5)
  then have "[5..<unat (cfg_size s + 5)] = [5..<(if cfg_size s < 0xFFFFFFFB then unat (cfg_size s) else 0) + 5]"
    by (simp add: unat_plus_5)
  then show ?thesis by (simp add: app_crc32_def Let_def app_crc32_fold del: upt_rec_numeral)
qed

lemma app_crc32_verdict: "fst (app_crc32 fl s) = crc_verified fl (cfg_address s) (cfg_size s) (cfg_crc s)"
  by (simp add: app_crc32_code crc_verified_def Let_def)

section \<open>The search for applications\<close>

lemma get_params_fields [simp]:
  "cfg_magic (get_params fl i s) = entry_word fl (cfg_offset s) i 0"
  "cfg_address (get_params fl i s) = entry_word fl (cfg_offset s) i 1"
  "cfg_size (get_params fl i s) = entry_word fl (cfg_offset s) i 2"
  "cfg_crc (get_params fl i s) = entry_word fl (cfg_offset s) i 3"
  "available_apps (get_params fl i s) = available_apps s"
  "app_flash_start (get_params fl i s) = app_flash_start s"
  "app_size (get_params fl i s) = app_size s"
  "cfg_offset (get_params fl i s) = cfg_offset s"
  "sha_context (get_params fl i s) = sha_context s"
  "boot_pin (get_params fl i s) = boot_pin s"
  by (simp_all add: get_params_def Let_def entry_word_def add.assoc del: upt_rec_numeral)

text \<open>After its size test \<open>app_check\<close> works with the size in the header of the image.\<close>

lemma app_check_code:
  "app_check engine fl s =
     (let t = s\<lparr>cfg_size := header_size fl (cfg_address s)\<rparr> in
      if xip8 fl (cfg_address s) \<noteq> 0 then Some (False, s)
      else if cfg_magic s AND CFG_APP_FLAG_SIZE \<noteq> 0 \<and> cfg_size s \<noteq> header_size fl (cfg_address s) then Some (False, s)
      else if cfg_magic s AND CFG_APP_FLAG_SHA256 \<noteq> 0 then app_sha256 engine fl t
      else if cfg_magic s AND CFG_APP_FLAG_CRC32 \<noteq> 0 then Some (app_crc32 fl t)
      else Some (True, t))"
proof -
  have upd: "(if cfg_size s \<noteq> h then s\<lparr>cfg_size := h\<rparr> else s) = s\<lparr>cfg_size := h\<rparr>" for h by simp
  show ?thesis unfolding app_check_def Let_def header_size_def [symmetric] upd by simp
qed

text \<open>What a passed \<open>app_check\<close> tells of the flash, and what it changes.\<close>

lemma app_check_sound:
  assumes e: "sha_engine_ok engine" and c: "length (buffer_bytes (sha_context s)) = 64"
    and r: "app_check engine fl s = Some (ok, s')"
  shows "\<exists>sz ctx crc. s' = s\<lparr>cfg_size := sz, sha_context := ctx, crc32 := crc\<rparr> \<and>
     length (buffer_bytes ctx) = 64 \<and>
     (ok \<longrightarrow> sz = header_size fl (cfg_address s) \<and> xip8 fl (cfg_address s) = 0 \<and>
       (cfg_magic s AND CFG_APP_FLAG_SIZE \<noteq> 0 \<longrightarrow> sz = cfg_size s) \<and>
       (cfg_magic s AND CFG_APP_FLAG_SHA256 \<noteq> 0 \<longrightarrow> sha_passes engine fl (cfg_address s) sz) \<and>
       (cfg_magic s AND CFG_APP_FLAG_SHA256 = 0 \<longrightarrow>
          cfg_magic s AND CFG_APP_FLAG_CRC32 \<noteq> 0 \<longrightarrow> crc_verified fl (cfg_address s) sz (cfg_crc s)))"
proof -
  let ?h = "header_size fl (cfg_address s)" and ?s = "s\<lparr>cfg_size := header_size fl (cfg_address s)\<rparr>"
  have same: "s = s\<lparr>cfg_size := cfg_size s, sha_context := sha_context s, crc32 := crc32 s\<rparr>" by simp
  note code = app_check_code [of engine fl s]
  have cases: "(if a then Some (False, x) else if b then Some (False, x) else if p then u
      else if q then Some v else Some (True, w)) = Some (k, y) \<Longrightarrow>
      (y = x \<and> \<not> k) \<or> (\<not> a \<and> \<not> b \<and> (p \<and> u = Some (k, y) \<or> \<not> p \<and> q \<and> v = (k, y) \<or> \<not> p \<and> \<not> q \<and> y = w))"
    for a b p q k and x y w :: kboot and u v by (cases a; cases b; cases p; cases q) auto
  consider (fail) "s' = s" "\<not> ok"
    | (sha) "cfg_magic s AND CFG_APP_FLAG_SHA256 \<noteq> 0" "app_sha256 engine fl ?s = Some (ok, s')"
    | (crc) "cfg_magic s AND CFG_APP_FLAG_SHA256 = 0" "cfg_magic s AND CFG_APP_FLAG_CRC32 \<noteq> 0" "app_crc32 fl ?s = (ok, s')"
    | (none) "cfg_magic s AND CFG_APP_FLAG_SHA256 = 0" "cfg_magic s AND CFG_APP_FLAG_CRC32 = 0" "s' = ?s"
    using cases [OF r [unfolded code Let_def]] by blast
  moreover have "ok \<Longrightarrow> xip8 fl (cfg_address s) = 0 \<and> (cfg_magic s AND CFG_APP_FLAG_SIZE \<noteq> 0 \<longrightarrow> ?h = cfg_size s)"
    using cases [OF r [unfolded code Let_def]] by metis
  ultimately show ?thesis
  proof cases
    case fail
    then show ?thesis using c by (intro exI [of _ "cfg_size s"] exI [of _ "sha_context s"] exI [of _ "crc32 s"]) simp
  next
    case sha
    obtain ctx where s': "s' = ?s\<lparr>sha_context := ctx\<rparr>" "length (buffer_bytes ctx) = 64"
      using app_sha256_passes(2) [OF e _ sha(2)] c by auto
    have "ok = sha_passes engine fl (cfg_address s) ?h" using app_sha256_passes(1) [OF e _ sha(2)] c by simp
    with \<open>ok \<Longrightarrow> _\<close> sha(1) s' show ?thesis
      by (intro exI [of _ ?h] exI [of _ ctx] exI [of _ "crc32 s"]) auto
  next
    case crc
    have "ok = crc_verified fl (cfg_address s) ?h (cfg_crc s)" using app_crc32_verdict [of fl ?s] crc(3) by simp
    moreover have "s' = ?s\<lparr>crc32 := crc32 s'\<rparr>" using crc(3) by (auto simp: app_crc32_def Let_def)
    ultimately show ?thesis using \<open>ok \<Longrightarrow> _\<close> crc(1) c
      by (intro exI [of _ ?h] exI [of _ "sha_context s"] exI [of _ "crc32 s'"]) auto
  next
    case none
    then show ?thesis using \<open>ok \<Longrightarrow> _\<close> c
      by (intro exI [of _ ?h] exI [of _ "sha_context s"] exI [of _ "crc32 s"]) auto
  qed
qed

definition good_app :: "sha_engine \<Rightarrow> flash \<Rightarrow> u32 \<Rightarrow> u32 \<Rightarrow> bool" where
  "good_app engine fl a n \<longleftrightarrow>
     (\<exists>off \<in> {0, 4096}. \<exists>i < 8. entry_good engine fl off i \<and> a = entry_word fl off i 1 \<and> n = header_size fl a)"

definition kboot_inv :: "sha_engine \<Rightarrow> flash \<Rightarrow> kboot \<Rightarrow> bool" where
  "kboot_inv engine fl s \<longleftrightarrow>
     length (available_apps s) = 8 \<and> length (buffer_bytes (sha_context s)) = 64 \<and> cfg_offset s \<in> {0, 4096} \<and>
     (app_flash_start s \<noteq> DEFAULT_APP_ADDR \<longrightarrow> good_app engine fl (app_flash_start s) (app_size s)) \<and>
     (\<forall>i < 8. available_apps s ! i \<longrightarrow> entry_good engine fl (cfg_offset s) i)"

lemma kboot_inv_get_params: "kboot_inv engine fl s \<Longrightarrow> kboot_inv engine fl (get_params fl i s)"
  by (simp add: kboot_inv_def)

lemma kboot_inv_check:
  "length (buffer_bytes ctx) = 64 \<Longrightarrow> kboot_inv engine fl s \<Longrightarrow>
   kboot_inv engine fl (s\<lparr>cfg_size := sz, sha_context := ctx, crc32 := crc\<rparr>)"
  by (simp add: kboot_inv_def)

text \<open>An entry in range whose application passes its check is good.\<close>

lemma entry_good_intro:
  assumes "sha_engine_ok engine" and "length (buffer_bytes (sha_context s)) = 64"
    and "app_check engine fl (get_params fl i s) = Some (True, s')"
    and "entry_word fl (cfg_offset s) i 0 AND MAGIC_ID_MASK = MAGIC_ID"
    and "MIN_APP_FLASH_ADDR \<le> entry_word fl (cfg_offset s) i 1" "entry_word fl (cfg_offset s) i 1 \<le> MAX_APP_FLASH_ADDR"
    and "MIN_APP_FLASH_SIZE \<le> entry_word fl (cfg_offset s) i 2" "entry_word fl (cfg_offset s) i 2 \<le> MAX_APP_FLASH_SIZE"
  shows "entry_good engine fl (cfg_offset s) i"
proof -
  let ?s = "get_params fl i s"
  obtain sz where "sz = header_size fl (cfg_address ?s)" "xip8 fl (cfg_address ?s) = 0"
    "cfg_magic ?s AND CFG_APP_FLAG_SIZE \<noteq> 0 \<longrightarrow> sz = cfg_size ?s"
    "cfg_magic ?s AND CFG_APP_FLAG_SHA256 \<noteq> 0 \<longrightarrow> sha_passes engine fl (cfg_address ?s) sz"
    "cfg_magic ?s AND CFG_APP_FLAG_SHA256 = 0 \<longrightarrow>
       cfg_magic ?s AND CFG_APP_FLAG_CRC32 \<noteq> 0 \<longrightarrow> crc_verified fl (cfg_address ?s) sz (cfg_crc ?s)"
    using app_check_sound [OF assms(1) _ assms(3)] assms(2) by auto
  then show ?thesis using assms unfolding entry_good_def Let_def get_params_fields by blast
qed

text \<open>The three ways through one pass of the search.\<close>

lemma scan_entry_cases:
  assumes "scan_entry engine fl i s = Some (brk, s')"
  obtains (skip) "s' = get_params fl i s"
  | (fail) "app_check engine fl (get_params fl i s) = Some (False, s')"
  | (ok) t where
      "entry_word fl (cfg_offset s) i 0 AND MAGIC_ID_MASK = MAGIC_ID"
      "MIN_APP_FLASH_ADDR \<le> entry_word fl (cfg_offset s) i 1" "entry_word fl (cfg_offset s) i 1 \<le> MAX_APP_FLASH_ADDR"
      "MIN_APP_FLASH_SIZE \<le> entry_word fl (cfg_offset s) i 2" "entry_word fl (cfg_offset s) i 2 \<le> MAX_APP_FLASH_SIZE"
      "app_check engine fl (get_params fl i s) = Some (True, t)"
      "s' = t\<lparr>available_apps := (available_apps t)[i := True]\<rparr> \<or>
       s' = t\<lparr>available_apps := (available_apps t)[i := True], app_size := cfg_size t, app_flash_start := cfg_address t\<rparr>"
proof (cases "app_check engine fl (get_params fl i s)")
  case None
  then show ?thesis using assms skip
    by (auto simp: scan_entry_def Let_def split: if_splits)
next
  case (Some r)
  obtain k t where r: "r = (k, t)" by force
  show ?thesis
    using assms skip fail ok [of t] Some r unfolding scan_entry_def Let_def get_params_fields
    by (cases k) (simp_all split: if_split_asm)
qed

lemma kboot_inv_scan_entry:
  assumes e: "sha_engine_ok engine" and inv: "kboot_inv engine fl s" and i: "i < 8"
    and r: "scan_entry engine fl i s = Some (brk, s')"
  shows "kboot_inv engine fl s'"
  using r
proof (cases rule: scan_entry_cases)
  case skip
  then show ?thesis using kboot_inv_get_params [OF inv] by simp
next
  case fail
  then show ?thesis
    using app_check_sound [OF e _ fail] inv kboot_inv_check [OF _ kboot_inv_get_params [OF inv]]
    by (auto simp: kboot_inv_def)
next
  case (ok t)
  have b: "length (buffer_bytes (sha_context s)) = 64" using inv by (simp add: kboot_inv_def)
  have g: "entry_good engine fl (cfg_offset s) i" by (rule entry_good_intro [OF e b ok(6) ok(1-5)])
  obtain ctx crc where t: "t = (get_params fl i s)\<lparr>cfg_size := header_size fl (entry_word fl (cfg_offset s) i 1),
      sha_context := ctx, crc32 := crc\<rparr>" "length (buffer_bytes ctx) = 64"
    using app_check_sound [OF e _ ok(6)] b by auto
  have "good_app engine fl (entry_word fl (cfg_offset s) i 1) (header_size fl (entry_word fl (cfg_offset s) i 1))"
    using g i inv unfolding good_app_def kboot_inv_def by blast
  then show ?thesis using ok(7) inv g t i by (auto simp: kboot_inv_def nth_list_update split: if_splits)
qed

lemma kboot_inv_scan_entries:
  "sha_engine_ok engine \<Longrightarrow> kboot_inv engine fl s \<Longrightarrow> \<forall>i \<in> set is'. i < 8 \<Longrightarrow>
   scan_entries engine fl is' s = Some s' \<Longrightarrow> kboot_inv engine fl s'"
proof (induction is' arbitrary: s)
  case (Cons i is')
  from Cons.prems(4) obtain brk t where r: "scan_entry engine fl i s = Some (brk, t)"
    and t: "(if brk then Some t else scan_entries engine fl is' t) = Some s'"
    by (auto split: option.splits)
  have "kboot_inv engine fl t" using kboot_inv_scan_entry [OF Cons.prems(1,2) _ r] Cons.prems(3) by simp
  then show ?case using Cons.IH [OF Cons.prems(1)] Cons.prems(3) t by (cases brk) auto
qed simp

section \<open>From the search to the jump\<close>

text \<open>The state in which core 0 leaves the handshake: no application marked yet.\<close>

definition kboot_start :: "kboot \<Rightarrow> bool" where
  "kboot_start s \<longleftrightarrow> available_apps s = replicate 8 False \<and> length (buffer_bytes (sha_context s)) = 64"

lemma boot_setup_fields [simp]:
  "available_apps (boot_setup fl input s) = available_apps s"
  "sha_context (boot_setup fl input s) = sha_context s"
  by (simp_all add: boot_setup_def Let_def split_beta)

lemma kboot_inv_find_apps:
  assumes e: "sha_engine_ok engine" and s: "kboot_start s" and r: "find_apps engine fl s = Some s'"
  shows "kboot_inv engine fl s'"
proof -
  let ?s = "s\<lparr>app_flash_start := DEFAULT_APP_ADDR, cfg_offset := 0\<rparr>"
  have inv: "kboot_inv engine fl ?s" using s by (auto simp: kboot_inv_def kboot_start_def)
  obtain t where t: "scan_entries engine fl [0..<8] ?s = Some t"
    and t': "(if app_found t then Some t else scan_entries engine fl [0..<8] (t\<lparr>cfg_offset := 4096\<rparr>)) = Some s'"
    using r by (auto simp: find_apps_def simp del: upt_rec_numeral split: option.splits)
  have it: "kboot_inv engine fl t" by (rule kboot_inv_scan_entries [OF e inv _ t]) simp
  show ?thesis
  proof (cases "app_found t")
    case True
    then show ?thesis using it t' by simp
  next
    case False
    have l: "length (available_apps t) = 8" using it by (simp add: kboot_inv_def)
    have "\<forall>a \<in> set (available_apps t). \<not> a" using False unfolding app_found_def by blast
    then have "\<not> available_apps t ! i" if "i < 8" for i using that l nth_mem by metis
    then have "kboot_inv engine fl (t\<lparr>cfg_offset := 4096\<rparr>)" using it by (auto simp: kboot_inv_def)
    then show ?thesis by (rule kboot_inv_scan_entries [OF e, of _ _ "[0..<8]"]) (use t' False in \<open>simp_all del: upt_rec_numeral\<close>)
  qed
qed

lemma select_app_inv: "kboot_inv engine fl s \<Longrightarrow> select_app fl chars s = Some s' \<Longrightarrow> kboot_inv engine fl s'"
proof (induction fl chars s rule: select_app.induct)
  case (2 fl c chars s)
  let ?n = "nat (c - 48)"
  consider "c = 100 \<or> c = 68" | "\<not> (c = 100 \<or> c = 68)" "0 \<le> c - 48 \<and> c - 48 < 8 \<and> available_apps s ! ?n"
    | "\<not> (c = 100 \<or> c = 68)" "\<not> (0 \<le> c - 48 \<and> c - 48 < 8 \<and> available_apps s ! ?n)" by blast
  then show ?case
  proof cases
    case 1
    then show ?thesis using 2 by (auto simp: kboot_inv_def)
  next
    case 2
    have "?n < 8" using 2 by linarith
    then have "entry_good engine fl (cfg_offset s) ?n" using 2 \<open>kboot_inv engine fl s\<close> by (simp add: kboot_inv_def)
    then have "good_app engine fl (entry_word fl (cfg_offset s) ?n 1) (header_size fl (entry_word fl (cfg_offset s) ?n 1))"
      using \<open>?n < 8\<close> \<open>kboot_inv engine fl s\<close> unfolding good_app_def kboot_inv_def by blast
    then show ?thesis using 2 \<open>select_app fl (c # chars) s = Some s'\<close> \<open>kboot_inv engine fl s\<close>
      by (auto simp: kboot_inv_def header_size_def Let_def)
  next
    case 3
    then show ?thesis using "2.IH" "2.prems" by (auto simp: Let_def)
  qed
qed simp

lemma choose_app_inv:
  assumes inv: "kboot_inv engine fl s" and r: "choose_app fl input chars s = Some s'"
  shows "kboot_inv engine fl s'"
proof -
  have pins: "kboot_inv engine fl (s\<lparr>gpiohs := gp, boot_pin := p\<rparr>)" for gp p
    using inv by (simp add: kboot_inv_def)
  show ?thesis using r inv pins select_app_inv [OF pins]
    by (auto simp: choose_app_def Let_def split: if_splits)
qed

lemma copy_app_at:
  "n \<le> 2 ^ 32 \<Longrightarrow> copy_app fl a n mem x = (if unat x < n then xip8 fl (a + x + 5) else mem x)"
proof (induction n)
  case (Suc n)
  then have "unat (of_nat n :: u32) = n" by (intro unat_of_nat_small) simp
  then show ?case using Suc by (auto simp: less_Suc_eq)
qed simp

lemma started_app:
  assumes e: "sha_engine_ok engine" and s: "kboot_start s"
    and r: "kboot_main engine fl in1 in2 chars s = Some (Started s')"
  shows "(app_flash_start s' = DEFAULT_APP_ADDR \<and> app_size s' = header_size fl DEFAULT_APP_ADDR \<and>
           MIN_APP_FLASH_SIZE \<le> app_size s' \<and> app_size s' \<le> MAX_APP_FLASH_SIZE \<and>
           sha_verified fl DEFAULT_APP_ADDR (app_size s')) \<or>
         (app_flash_start s' \<noteq> DEFAULT_APP_ADDR \<and> good_app engine fl (app_flash_start s') (app_size s'))"
    and "unat x < unat (app_size s') \<Longrightarrow> sram s' x = xip8 fl (app_flash_start s' + x + 5)"
    and "\<not> spi3_xip_en s'"
proof -
  obtain t u v where t: "find_apps engine fl (boot_setup fl in1 s) = Some t"
    and u: "choose_app fl in2 chars t = Some u"
    and v: "check_default engine fl u = Some (True, v)" and s': "s' = load_app fl v"
    using r by (auto simp: kboot_main_def split: option.splits if_splits)
  have "kboot_inv engine fl t" using kboot_inv_find_apps [OF e _ t] s by (simp add: kboot_start_def)
  then have inv: "kboot_inv engine fl u" using u by (rule choose_app_inv)
  show "unat x < unat (app_size s') \<Longrightarrow> sram s' x = xip8 fl (app_flash_start s' + x + 5)" "\<not> spi3_xip_en s'"
    using copy_app_at [of "unat (app_size v)" fl "app_flash_start v" "sram v" x] unat_less_32 [of "app_size v"]
    by (simp_all add: s' load_app_def)
  show "(app_flash_start s' = DEFAULT_APP_ADDR \<and> app_size s' = header_size fl DEFAULT_APP_ADDR \<and>
           MIN_APP_FLASH_SIZE \<le> app_size s' \<and> app_size s' \<le> MAX_APP_FLASH_SIZE \<and>
           sha_verified fl DEFAULT_APP_ADDR (app_size s')) \<or>
         (app_flash_start s' \<noteq> DEFAULT_APP_ADDR \<and> good_app engine fl (app_flash_start s') (app_size s'))"
  proof (cases "app_flash_start u = DEFAULT_APP_ADDR")
    case False
    then show ?thesis using v inv by (simp add: check_default_def s' load_app_def kboot_inv_def)
  next
    case True
    let ?n = "header_size fl DEFAULT_APP_ADDR"
    let ?u = "u\<lparr>app_size := ?n, cfg_size := ?n, cfg_address := DEFAULT_APP_ADDR\<rparr>"
    have range: "MIN_APP_FLASH_SIZE \<le> ?n" "?n \<le> MAX_APP_FLASH_SIZE" and a: "app_sha256 engine fl ?u = Some (True, v)"
      using v True by (simp_all add: check_default_def Let_def header_size_def split: if_splits)
    then obtain c where "v = ?u\<lparr>sha_context := c\<rparr>" "sha_verified fl DEFAULT_APP_ADDR ?n"
      using app_sha256_verdict [OF e, of ?u fl] inv by (auto simp: kboot_inv_def)
    then show ?thesis using True range by (simp add: s' load_app_def)
  qed
qed

section \<open>Completeness of the check\<close>

lemma app_check_complete:
  assumes e: "sha_engine_ok engine" and u: "unit_completes engine" and c: "length (buffer_bytes (sha_context s)) = 64"
    and rng: "entry_word fl (cfg_offset s) i 0 AND MAGIC_ID_MASK = MAGIC_ID"
      "MIN_APP_FLASH_ADDR \<le> entry_word fl (cfg_offset s) i 1" "entry_word fl (cfg_offset s) i 1 \<le> MAX_APP_FLASH_ADDR"
      "MIN_APP_FLASH_SIZE \<le> entry_word fl (cfg_offset s) i 2" "entry_word fl (cfg_offset s) i 2 \<le> MAX_APP_FLASH_SIZE"
  shows "\<exists>t. app_check engine fl (get_params fl i s) = Some (entry_good engine fl (cfg_offset s) i, t)"
proof -
  let ?a = "entry_word fl (cfg_offset s) i 1" and ?p = "get_params fl i s"
  let ?n = "header_size fl ?a" and ?m = "entry_word fl (cfg_offset s) i 0" and ?c = "entry_word fl (cfg_offset s) i 3"
  let ?s = "?p\<lparr>cfg_size := ?n\<rparr>"
  obtain v where sha: "app_sha256 engine fl ?s = Some (sha_passes engine fl ?a ?n, v)"
    using app_sha256_returns [of ?s engine fl] app_sha256_passes(1) [OF e, of ?s fl] u c by fastforce
  obtain w where crc: "app_crc32 fl ?s = (crc_verified fl ?a ?n ?c, w)"
    using app_crc32_verdict [of fl ?s] by (cases "app_crc32 fl ?s") simp
  have good: "entry_good engine fl (cfg_offset s) i \<longleftrightarrow> xip8 fl ?a = 0 \<and>
      (?m AND CFG_APP_FLAG_SIZE \<noteq> 0 \<longrightarrow> ?n = entry_word fl (cfg_offset s) i 2) \<and>
      (?m AND CFG_APP_FLAG_SHA256 \<noteq> 0 \<longrightarrow> sha_passes engine fl ?a ?n) \<and>
      (?m AND CFG_APP_FLAG_SHA256 = 0 \<longrightarrow> ?m AND CFG_APP_FLAG_CRC32 \<noteq> 0 \<longrightarrow> crc_verified fl ?a ?n ?c)"
    using rng unfolding entry_good_def Let_def by blast
  have verdict: "\<exists>t. (if k0 \<noteq> 0 then Some (False, x) else if m8 \<noteq> 0 \<and> k \<noteq> h then Some (False, x)
      else if m4 \<noteq> 0 then Some (k1, v) else if m2 \<noteq> 0 then Some (k2, w) else Some (True, z)) =
      Some (k0 = 0 \<and> (m8 \<noteq> 0 \<longrightarrow> h = k) \<and> (m4 \<noteq> 0 \<longrightarrow> k1) \<and> (m4 = 0 \<longrightarrow> m2 \<noteq> 0 \<longrightarrow> k2), t)"
    for k0 :: u8 and m8 m4 m2 h k :: u32 and k1 k2 and x z :: kboot by auto
  show ?thesis
    unfolding app_check_code Let_def get_params_fields sha crc good by (rule verdict)
qed

end
