(* ===== verification/Kboot_Choice.thy ===== *)
theory Kboot_Choice
  imports Kboot_Secure
begin

unbundle bit_operations_syntax

text \<open>
  Which application stage 1 starts: the search of the code, the two samples of the boot pin and
  the menu refine the specification \<open>boot_spec\<close>, which only looks at the flash contents, the
  state of the pin and the characters typed (and, for a hash check of more than 4 MiB, at the
  answer of the SHA-256 unit).
\<close>

section \<open>Specification\<close>

definition entry_boots :: "sha_engine \<Rightarrow> flash \<Rightarrow> u32 \<Rightarrow> nat \<Rightarrow> bool" where
  "entry_boots engine fl off i \<longleftrightarrow> entry_good engine fl off i \<and> entry_word fl off i 0 AND CFG_APP_FLAG_ACTIVE \<noteq> 0"

text \<open>The pin is looked at unless the word behind the entries is the magic number; it is pulled
  up, so pressed is 0.\<close>

definition key_pressed :: "flash \<Rightarrow> u32 \<Rightarrow> bool" where
  "key_pressed fl input \<longleftrightarrow> xip32 fl 0x4100 \<noteq> MAGIC_ID \<and> \<not> bit input 2"

text \<open>Without the key: the first active entry that passes its checks, in the main sector and then
  in the backup sector, or else the default application.\<close>

definition boot_choice :: "sha_engine \<Rightarrow> flash \<Rightarrow> u32" where
  "boot_choice engine fl =
     (case find (entry_boots engine fl 0) [0..<8] of
        Some i \<Rightarrow> entry_word fl 0 i 1
      | None \<Rightarrow> (case find (entry_boots engine fl 4096) [0..<8] of
                  Some i \<Rightarrow> entry_word fl 4096 i 1
                | None \<Rightarrow> DEFAULT_APP_ADDR))"

text \<open>With the key: all entries of a sector are checked, active or not, and the backup sector is
  used only when none of the main sector is valid. The application to start if the key is let go
  before the menu is the first active one that is not the default one.\<close>

definition any_good :: "sha_engine \<Rightarrow> flash \<Rightarrow> u32 \<Rightarrow> bool" where
  "any_good engine fl off \<longleftrightarrow> list_ex (entry_good engine fl off) [0..<8]"

definition menu_sector :: "sha_engine \<Rightarrow> flash \<Rightarrow> u32" where
  "menu_sector engine fl = (if any_good engine fl 0 then 0 else 4096)"

definition preset :: "sha_engine \<Rightarrow> flash \<Rightarrow> u32 \<Rightarrow> nat list \<Rightarrow> u32" where
  "preset engine fl off is' =
     (case find (\<lambda>i. entry_boots engine fl off i \<and> entry_word fl off i 1 \<noteq> DEFAULT_APP_ADDR) is' of
        Some i \<Rightarrow> entry_word fl off i 1 | None \<Rightarrow> DEFAULT_APP_ADDR)"

text \<open>The menu: the first character that is d, D or the number of a valid entry.\<close>

fun menu_choice :: "sha_engine \<Rightarrow> flash \<Rightarrow> u32 \<Rightarrow> int list \<Rightarrow> u32 option" where
  "menu_choice engine fl off [] = None"
| "menu_choice engine fl off (c # cs) =
     (if c = 100 \<or> c = 68 then Some DEFAULT_APP_ADDR
      else if 48 \<le> c \<and> c < 56 \<and> entry_good engine fl off (nat (c - 48)) then Some (entry_word fl off (nat (c - 48)) 1)
      else menu_choice engine fl off cs)"

definition boot_address :: "sha_engine \<Rightarrow> flash \<Rightarrow> u32 \<Rightarrow> u32 \<Rightarrow> int list \<Rightarrow> u32 option" where
  "boot_address engine fl in1 in2 chars =
     (if \<not> key_pressed fl in1 then Some (boot_choice engine fl)
      else if \<not> any_good engine fl (menu_sector engine fl) then Some DEFAULT_APP_ADDR
      else if bit in2 2 then Some (preset engine fl (menu_sector engine fl) [0..<8])
      else menu_choice engine fl (menu_sector engine fl) chars)"

definition default_ok :: "flash \<Rightarrow> bool" where
  "default_ok fl \<longleftrightarrow>
     (let n = header_size fl DEFAULT_APP_ADDR in
      MIN_APP_FLASH_SIZE \<le> n \<and> n \<le> MAX_APP_FLASH_SIZE \<and> sha_verified fl DEFAULT_APP_ADDR n)"

text \<open>The decision: an application with its size, a halt when the default application is to be
  started and has no plausible size or no valid digest, or a menu that waits for ever.\<close>

datatype boot_decision = Waits | Halts | Starts u32 u32

definition boot_spec :: "sha_engine \<Rightarrow> flash \<Rightarrow> u32 \<Rightarrow> u32 \<Rightarrow> int list \<Rightarrow> boot_decision" where
  "boot_spec engine fl in1 in2 chars =
     (case boot_address engine fl in1 in2 chars of
        None \<Rightarrow> Waits
      | Some a \<Rightarrow> if a = DEFAULT_APP_ADDR \<and> \<not> default_ok fl then Halts else Starts a (header_size fl a))"

section \<open>The pin\<close>

lemma gpiohs_get_pin_key: "gpiohs_get_pin (gp\<lparr>input_val := input\<rparr>) GPIO_KEY = (if bit input 2 then 1 else 0)"
proof (rule bit_word_eqI)
  fix n
  have "bit (drop_bit 2 (input AND push_bit 2 1)) n \<longleftrightarrow> n = 0 \<and> bit input 2" by (auto simp: bit_simps numeral_2_eq_2 simp del: push_bit_of_1)
  then show "bit (gpiohs_get_pin (gp\<lparr>input_val := input\<rparr>) GPIO_KEY) n = bit (if bit input 2 then 1 else 0 :: u32) n"
    by (simp add: gpiohs_get_pin_def get_gpio_bit_def get_bit_reg_def bit_1_iff)
qed

lemma boot_setup_pin: "boot_pin (boot_setup fl in1 s) = (if key_pressed fl in1 then 0 else 1)"
  by (simp add: boot_setup_def key_pressed_def Let_def split_beta gpiohs_get_pin_key)

section \<open>The search without the key\<close>

text \<open>The state of a search that has found nothing so far.\<close>

definition searching :: "kboot \<Rightarrow> bool" where
  "searching s \<longleftrightarrow> boot_pin s = 1 \<and> app_flash_start s = DEFAULT_APP_ADDR \<and>
     available_apps s = replicate 8 False \<and> length (buffer_bytes (sha_context s)) = 64 \<and> cfg_offset s \<in> {0, 4096}"

text \<open>What the search has found.\<close>

definition found_entry :: "flash \<Rightarrow> u32 \<Rightarrow> nat \<Rightarrow> kboot \<Rightarrow> bool" where
  "found_entry fl off i s \<longleftrightarrow> boot_pin s = 1 \<and> app_flash_start s = entry_word fl off i 1 \<and>
     app_size s = header_size fl (entry_word fl off i 1) \<and>
     available_apps s = (replicate 8 False)[i := True] \<and> length (buffer_bytes (sha_context s)) = 64"

text \<open>One pass of the loop, with the key or without: an entry that is not looked at leaves the
  state as it is, one that is looked at is marked when it is good.\<close>

definition looks_at :: "flash \<Rightarrow> nat \<Rightarrow> kboot \<Rightarrow> bool" where
  "looks_at fl i s \<longleftrightarrow> (let off = cfg_offset s in
      entry_word fl off i 0 AND MAGIC_ID_MASK = MAGIC_ID \<and>
      MIN_APP_FLASH_ADDR \<le> entry_word fl off i 1 \<and> entry_word fl off i 1 \<le> MAX_APP_FLASH_ADDR \<and>
      MIN_APP_FLASH_SIZE \<le> entry_word fl off i 2 \<and> entry_word fl off i 2 \<le> MAX_APP_FLASH_SIZE \<and>
      (entry_word fl off i 0 AND CFG_APP_FLAG_ACTIVE \<noteq> 0 \<or> boot_pin s = 0))"

lemma scan_entry_unseen: "\<not> looks_at fl i s \<Longrightarrow> scan_entry engine fl i s = Some (False, get_params fl i s)"
  by (auto simp: looks_at_def scan_entry_def Let_def)

lemma scan_entry_seen:
  assumes e: "sha_engine_ok engine" "unit_completes engine" and c: "length (buffer_bytes (sha_context s)) = 64"
    and l: "looks_at fl i s"
  shows "\<exists>sz ctx crc. length (buffer_bytes ctx) = 64 \<and> scan_entry engine fl i s =
     (let t = (get_params fl i s)\<lparr>cfg_size := sz, sha_context := ctx, crc32 := crc\<rparr>; off = cfg_offset s; a = entry_word fl off i 1;
          u = t\<lparr>available_apps := (available_apps s)[i := True]\<rparr> in
      if \<not> entry_good engine fl off i then Some (False, t)
      else if entry_word fl off i 0 AND CFG_APP_FLAG_ACTIVE = 0 then Some (False, u)
      else Some (0 < boot_pin s, if app_flash_start s = DEFAULT_APP_ADDR
                                 then u\<lparr>app_size := header_size fl a, app_flash_start := a\<rparr> else u))"
proof -
  let ?off = "cfg_offset s"
  obtain t where t: "app_check engine fl (get_params fl i s) = Some (entry_good engine fl ?off i, t)"
    using app_check_complete [OF e c] l unfolding looks_at_def Let_def by blast
  obtain sz ctx crc where t': "t = (get_params fl i s)\<lparr>cfg_size := sz, sha_context := ctx, crc32 := crc\<rparr>"
    "length (buffer_bytes ctx) = 64" "entry_good engine fl ?off i \<Longrightarrow> sz = header_size fl (entry_word fl ?off i 1)"
    using app_check_sound [OF e(1) _ t] c by auto
  show ?thesis
    using l t t' by (intro exI [of _ sz] exI [of _ ctx] exI [of _ crc]) (simp add: scan_entry_def Let_def looks_at_def)
qed

lemma good_looks_at:
  "entry_good engine fl (cfg_offset s) i \<Longrightarrow> entry_word fl (cfg_offset s) i 0 AND CFG_APP_FLAG_ACTIVE \<noteq> 0 \<or> boot_pin s = 0 \<Longrightarrow>
   looks_at fl i s"
  by (simp add: entry_good_def looks_at_def Let_def)

lemma scan_entry_step:
  assumes e: "sha_engine_ok engine" "unit_completes engine" and s: "searching s"
  shows "\<exists>t. scan_entry engine fl i s = Some (entry_boots engine fl (cfg_offset s) i, t) \<and>
    (if entry_boots engine fl (cfg_offset s) i then found_entry fl (cfg_offset s) i t
     else searching t \<and> cfg_offset t = cfg_offset s)"
proof (cases "looks_at fl i s")
  case False
  then have "\<not> entry_boots engine fl (cfg_offset s) i" using good_looks_at [of engine fl s i] by (auto simp: entry_boots_def)
  then show ?thesis using scan_entry_unseen [OF False, of engine] s by (simp add: searching_def)
next
  case True
  have c: "length (buffer_bytes (sha_context s)) = 64" using s by (simp add: searching_def)
  have act: "entry_word fl (cfg_offset s) i 0 AND CFG_APP_FLAG_ACTIVE \<noteq> 0" using True s by (simp add: looks_at_def searching_def Let_def)
  show ?thesis using scan_entry_seen [OF e c True] s act
    by (cases "entry_good engine fl (cfg_offset s) i") (auto simp: entry_boots_def searching_def found_entry_def Let_def)
qed

definition scan_outcome :: "flash \<Rightarrow> u32 \<Rightarrow> nat option \<Rightarrow> kboot \<Rightarrow> bool" where
  "scan_outcome fl off r t \<longleftrightarrow>
     (r = None \<longrightarrow> searching t \<and> cfg_offset t = off) \<and> (\<forall>i. r = Some i \<longrightarrow> i < 8 \<and> found_entry fl off i t)"

lemma scan_entries_spec:
  assumes e: "sha_engine_ok engine" "unit_completes engine"
  shows "searching s \<Longrightarrow> cfg_offset s = off \<Longrightarrow> \<forall>i \<in> set is'. i < 8 \<Longrightarrow>
    \<exists>t. scan_entries engine fl is' s = Some t \<and> scan_outcome fl off (find (entry_boots engine fl off) is') t"
proof (induction is' arbitrary: s)
  case (Cons i is')
  then have i: "i < 8" by simp
  note step = scan_entry_step [OF e Cons.prems(1), of fl i, unfolded Cons.prems(2)]
  show ?case
  proof (cases "entry_boots engine fl off i")
    case True
    then show ?thesis using step i by (auto simp: scan_outcome_def)
  next
    case False
    then obtain t where "scan_entry engine fl i s = Some (False, t)" "searching t" "cfg_offset t = off"
      using step by auto
    then show ?thesis using Cons.IH [of t] Cons.prems(3) False by simp
  qed
qed (simp add: scan_outcome_def)

lemma app_found_searching: "searching s \<Longrightarrow> \<not> app_found s"
  by (auto simp: app_found_def searching_def)

lemma app_found_found: "i < 8 \<Longrightarrow> found_entry fl off i s \<Longrightarrow> app_found s"
proof -
  assume i: "i < 8" and f: "found_entry fl off i s"
  have "available_apps s ! i" using i f by (simp add: found_entry_def)
  moreover have "i < length (available_apps s)" using i f by (simp add: found_entry_def)
  ultimately show ?thesis using nth_mem unfolding app_found_def by metis
qed

text \<open>The outcome of the whole search: the chosen application, with its size unless it is the
  default one.\<close>

lemma find_apps_spec:
  assumes e: "sha_engine_ok engine" "unit_completes engine" and s: "kboot_start s" "boot_pin s = 1"
  shows "\<exists>t. find_apps engine fl s = Some t \<and> boot_pin t = 1 \<and> length (buffer_bytes (sha_context t)) = 64 \<and>
    app_flash_start t = boot_choice engine fl \<and> (boot_choice engine fl \<noteq> DEFAULT_APP_ADDR \<longrightarrow> app_size t = header_size fl (boot_choice engine fl))"
proof -
  let ?s = "s\<lparr>app_flash_start := DEFAULT_APP_ADDR, cfg_offset := 0\<rparr>"
  have "searching ?s" using s by (simp add: searching_def kboot_start_def)
  from scan_entries_spec [OF e this, of 0 "[0..<8]"] obtain t where t: "scan_entries engine fl [0..<8] ?s = Some t"
    and t': "scan_outcome fl 0 (find (entry_boots engine fl 0) [0..<8]) t"
    by (auto simp del: upt_rec_numeral)
  show ?thesis
  proof (cases "find (entry_boots engine fl 0) [0..<8]")
    case (Some i)
    then show ?thesis using t t' app_found_found [of i fl 0 t]
      by (auto simp: find_apps_def boot_choice_def found_entry_def scan_outcome_def simp del: upt_rec_numeral)
  next
    case None
    then have st: "searching t" and "searching (t\<lparr>cfg_offset := 4096\<rparr>)"
      using t' by (simp_all add: scan_outcome_def searching_def del: upt_rec_numeral)
    from scan_entries_spec [OF e this(2), of 4096 "[0..<8]"] obtain u
      where u: "scan_entries engine fl [0..<8] (t\<lparr>cfg_offset := 4096\<rparr>) = Some u"
      and u': "scan_outcome fl 4096 (find (entry_boots engine fl 4096) [0..<8]) u"
      by (auto simp del: upt_rec_numeral)
    have "find_apps engine fl s = Some u"
      using t u app_found_searching [OF st] by (simp add: find_apps_def del: upt_rec_numeral)
    then show ?thesis using u' None
      by (cases "find (entry_boots engine fl 4096) [0..<8]")
        (auto simp: boot_choice_def found_entry_def searching_def scan_outcome_def simp del: upt_rec_numeral)
  qed
qed

section \<open>The search with the key\<close>

text \<open>The state after the first \<open>k\<close> entries.\<close>

definition scanned :: "sha_engine \<Rightarrow> flash \<Rightarrow> u32 \<Rightarrow> nat \<Rightarrow> kboot \<Rightarrow> bool" where
  "scanned engine fl off k s \<longleftrightarrow> boot_pin s = 0 \<and> cfg_offset s = off \<and> length (buffer_bytes (sha_context s)) = 64 \<and>
     available_apps s = map (\<lambda>i. i < k \<and> entry_good engine fl off i) [0..<8] \<and>
     app_flash_start s = preset engine fl off [0..<k] \<and>
     (app_flash_start s \<noteq> DEFAULT_APP_ADDR \<longrightarrow> app_size s = header_size fl (app_flash_start s))"

lemma preset_snoc:
  "preset engine fl off (is' @ [i]) =
     (if preset engine fl off is' \<noteq> DEFAULT_APP_ADDR then preset engine fl off is'
      else if entry_boots engine fl off i then entry_word fl off i 1 else DEFAULT_APP_ADDR)"
proof -
  have "find P (is' @ [i]) = (case find P is' of Some j \<Rightarrow> Some j | None \<Rightarrow> if P i then Some i else None)" for P :: "nat \<Rightarrow> bool"
    by (induction is') auto
  moreover have "P j" if "find P is' = Some j" for P and j :: nat using that by (auto simp: find_Some_iff)
  ultimately show ?thesis unfolding preset_def by (auto split: option.splits)
qed

lemma marked:
  assumes "k < 8"
  shows "P k \<Longrightarrow> (map (\<lambda>i. i < k \<and> P i) [0..<8])[k := True] = map (\<lambda>i. i < Suc k \<and> P i) [0..<8]"
    and "\<not> P k \<Longrightarrow> map (\<lambda>i. i < k \<and> P i) [0..<8] = map (\<lambda>i. i < Suc k \<and> P i) [0..<8]"
proof -
  show "P k \<Longrightarrow> (map (\<lambda>i. i < k \<and> P i) [0..<8])[k := True] = map (\<lambda>i. i < Suc k \<and> P i) [0..<8]"
    using assms by (intro nth_equalityI) (simp_all add: nth_list_update less_Suc_eq del: upt_rec_numeral, auto)
  show "\<not> P k \<Longrightarrow> map (\<lambda>i. i < k \<and> P i) [0..<8] = map (\<lambda>i. i < Suc k \<and> P i) [0..<8]"
    using assms by (intro map_cong) (auto simp: less_Suc_eq)
qed

lemma scanned_step:
  assumes e: "sha_engine_ok engine" "unit_completes engine" and s: "scanned engine fl off k s" and k: "k < 8"
  shows "\<exists>t. scan_entry engine fl k s = Some (False, t) \<and> scanned engine fl off (Suc k) t"
proof -
  note next_marks = marked [OF k, of "entry_good engine fl off"]
  have off: "cfg_offset s = off" "boot_pin s = 0" using s by (simp_all add: scanned_def)
  show ?thesis
  proof (cases "looks_at fl k s")
    case False
    then have "\<not> entry_good engine fl off k" using good_looks_at [of engine fl s k] off by auto
    then show ?thesis using scan_entry_unseen [OF False, of engine] s next_marks
      by (simp add: scanned_def preset_snoc entry_boots_def del: upt_rec_numeral)
  next
    case True
    have c: "length (buffer_bytes (sha_context s)) = 64" using s by (simp add: scanned_def)
    show ?thesis using scan_entry_seen [OF e c True] s next_marks
      by (cases "entry_good engine fl off k"; cases "entry_word fl off k 0 AND CFG_APP_FLAG_ACTIVE = 0")
        (auto simp: scanned_def preset_snoc entry_boots_def Let_def simp del: upt_rec_numeral)
  qed
qed

lemma scanned_all:
  assumes e: "sha_engine_ok engine" "unit_completes engine"
  shows "k \<le> 8 \<Longrightarrow> scanned engine fl off k s \<Longrightarrow>
    \<exists>t. scan_entries engine fl [k..<8] s = Some t \<and> scanned engine fl off 8 t"
proof (induction "8 - k" arbitrary: k s)
  case (Suc n)
  then have k: "k < 8" by simp
  obtain t where t: "scan_entry engine fl k s = Some (False, t)" "scanned engine fl off (Suc k) t"
    using scanned_step [OF e Suc.prems(2) k] by blast
  then show ?case using Suc.hyps(1) [of "Suc k" t] Suc.hyps(2) k
    by (simp add: upt_conv_Cons del: upt_rec_numeral)
qed simp

lemma preset_good: "preset engine fl off is' \<noteq> DEFAULT_APP_ADDR \<Longrightarrow> list_ex (entry_good engine fl off) is'"
  by (auto simp: preset_def list_ex_iff entry_boots_def find_Some_iff split: option.splits)

lemma app_found_scanned: "scanned engine fl off 8 s \<Longrightarrow> app_found s \<longleftrightarrow> any_good engine fl off"
  using preset_good [of engine fl off "[0..<8]"]
  by (auto simp: app_found_def scanned_def any_good_def list_ex_iff simp del: upt_rec_numeral)

lemma find_apps_key:
  assumes e: "sha_engine_ok engine" "unit_completes engine" and s: "kboot_start s" "boot_pin s = 0"
  shows "\<exists>t. find_apps engine fl s = Some t \<and> scanned engine fl (menu_sector engine fl) 8 t"
proof -
  let ?s = "s\<lparr>app_flash_start := DEFAULT_APP_ADDR, cfg_offset := 0\<rparr>"
  have "scanned engine fl 0 0 ?s" using s by (simp add: scanned_def kboot_start_def preset_def map_replicate_const)
  from scanned_all [OF e _ this] obtain t where t: "scan_entries engine fl [0..<8] ?s = Some t" "scanned engine fl 0 8 t"
    by auto
  show ?thesis
  proof (cases "any_good engine fl 0")
    case True
    then show ?thesis using t app_found_scanned [OF t(2)] by (simp add: find_apps_def menu_sector_def del: upt_rec_numeral)
  next
    case False
    then have "\<not> entry_good engine fl 0 i" if "i < 8" for i using that by (auto simp: any_good_def list_ex_iff)
    moreover have "preset engine fl 0 [0..<8] = DEFAULT_APP_ADDR" using False preset_good unfolding any_good_def by blast
    ultimately have "scanned engine fl 4096 0 (t\<lparr>cfg_offset := 4096\<rparr>)"
      using t(2) by (auto simp: scanned_def preset_def [of _ _ 4096] simp del: upt_rec_numeral)
    from scanned_all [OF e _ this] show ?thesis
      using t(1) app_found_scanned [OF t(2)] False by (simp add: find_apps_def menu_sector_def del: upt_rec_numeral)
  qed
qed

section \<open>The menu\<close>

lemma select_app_menu:
  "available_apps s = map (entry_good engine fl (cfg_offset s)) [0..<8] \<Longrightarrow>
   (case menu_choice engine fl (cfg_offset s) chars of
      None \<Rightarrow> select_app fl chars s = None
    | Some a \<Rightarrow> \<exists>t. select_app fl chars s = Some t \<and> app_flash_start t = a \<and> sha_context t = sha_context s \<and>
        (a \<noteq> DEFAULT_APP_ADDR \<longrightarrow> app_size t = header_size fl a))"
proof (induction chars)
  case (Cons c cs)
  let ?n = "nat (c - 48)"
  have n: "available_apps s ! ?n = entry_good engine fl (cfg_offset s) ?n" if "48 \<le> c" "c < 56"
    using that Cons.prems by (simp add: nat_less_iff del: upt_rec_numeral)
  consider "c = 100 \<or> c = 68" | "c \<noteq> 100" "c \<noteq> 68" "48 \<le> c \<and> c < 56 \<and> entry_good engine fl (cfg_offset s) ?n"
    | "c \<noteq> 100" "c \<noteq> 68" "\<not> (48 \<le> c \<and> c < 56 \<and> entry_good engine fl (cfg_offset s) ?n)" by blast
  then show ?case
  proof cases
    case 3
    then have "\<not> (0 \<le> c - 48 \<and> c - 48 < 8 \<and> available_apps s ! ?n)" using n by auto
    then have "select_app fl (c # cs) s = select_app fl cs s" using 3 by (auto simp: Let_def)
    moreover have "menu_choice engine fl (cfg_offset s) (c # cs) = menu_choice engine fl (cfg_offset s) cs" using 3 by auto
    ultimately show ?thesis using Cons.IH [OF Cons.prems] by (simp only:)
  qed (auto simp: Let_def header_size_def n simp del: upt_rec_numeral)
qed simp

section \<open>Refinement\<close>

lemma check_default_spec:
  assumes e: "sha_engine_ok engine" and c: "length (buffer_bytes (sha_context s)) = 64"
    and a: "app_flash_start s = DEFAULT_APP_ADDR"
  shows "\<exists>t. check_default engine fl s = Some (default_ok fl, t) \<and> app_flash_start t = DEFAULT_APP_ADDR \<and>
     app_size t = header_size fl DEFAULT_APP_ADDR"
proof -
  let ?n = "header_size fl DEFAULT_APP_ADDR"
  let ?s = "s\<lparr>app_size := ?n, cfg_size := ?n, cfg_address := DEFAULT_APP_ADDR\<rparr>"
  show ?thesis
  proof (cases "MIN_APP_FLASH_SIZE \<le> ?n \<and> ?n \<le> MAX_APP_FLASH_SIZE")
    case False
    then show ?thesis using a by (auto simp: check_default_def Let_def default_ok_def header_size_def)
  next
    case True
    then obtain ctx where "app_sha256 engine fl ?s = Some (sha_verified fl DEFAULT_APP_ADDR ?n, ?s\<lparr>sha_context := ctx\<rparr>)"
      using app_sha256_verdict [OF e, of ?s fl] c by auto
    then show ?thesis using a True by (simp add: check_default_def Let_def default_ok_def header_size_def)
  qed
qed

text \<open>From the chosen address to the outcome.\<close>

lemma load_decided:
  assumes e: "sha_engine_ok engine" and c: "length (buffer_bytes (sha_context u)) = 64"
    and t: "find_apps engine fl (boot_setup fl in1 s) = Some t" and u: "choose_app fl in2 chars t = Some u"
    and n: "app_flash_start u \<noteq> DEFAULT_APP_ADDR \<Longrightarrow> app_size u = header_size fl (app_flash_start u)"
    and a: "boot_address engine fl in1 in2 chars = Some (app_flash_start u)"
  shows "case boot_spec engine fl in1 in2 chars of
      Waits \<Rightarrow> kboot_main engine fl in1 in2 chars s = None
    | Halts \<Rightarrow> \<exists>s'. kboot_main engine fl in1 in2 chars s = Some (Halted s')
    | Starts a n \<Rightarrow> \<exists>s'. kboot_main engine fl in1 in2 chars s = Some (Started s') \<and>
        app_flash_start s' = a \<and> app_size s' = n"
proof (cases "app_flash_start u = DEFAULT_APP_ADDR")
  case True
  then show ?thesis using t u a check_default_spec [OF e c True, of fl]
    by (auto simp: kboot_main_def boot_spec_def load_app_def)
next
  case False
  then have "check_default engine fl u = Some (True, u)" by (simp add: check_default_def)
  then show ?thesis using t u a n [OF False] False by (simp add: kboot_main_def boot_spec_def load_app_def)
qed

lemma kboot_main_choice:
  assumes e: "sha_engine_ok engine" "unit_completes engine" and s: "kboot_start s"
  shows "case boot_spec engine fl in1 in2 chars of
      Waits \<Rightarrow> kboot_main engine fl in1 in2 chars s = None
    | Halts \<Rightarrow> \<exists>s'. kboot_main engine fl in1 in2 chars s = Some (Halted s')
    | Starts a n \<Rightarrow> \<exists>s'. kboot_main engine fl in1 in2 chars s = Some (Started s') \<and>
        app_flash_start s' = a \<and> app_size s' = n"
proof (cases "key_pressed fl in1")
  case False
  have "kboot_start (boot_setup fl in1 s)" using s by (simp add: kboot_start_def)
  from find_apps_spec [OF e this] False obtain t where t: "find_apps engine fl (boot_setup fl in1 s) = Some t" "boot_pin t = 1"
    "length (buffer_bytes (sha_context t)) = 64" "app_flash_start t = boot_choice engine fl"
    "boot_choice engine fl \<noteq> DEFAULT_APP_ADDR \<Longrightarrow> app_size t = header_size fl (boot_choice engine fl)"
    by (auto simp: boot_setup_pin)
  have "choose_app fl in2 chars t = Some t" using t(2) by (simp add: choose_app_def)
  then show ?thesis using t False by (intro load_decided [OF e(1) t(3,1)]) (simp_all add: boot_address_def)
next
  case True
  let ?off = "menu_sector engine fl"
  have "kboot_start (boot_setup fl in1 s)" using s by (simp add: kboot_start_def)
  from find_apps_key [OF e this] True obtain t where t: "find_apps engine fl (boot_setup fl in1 s) = Some t"
    and sc: "scanned engine fl ?off 8 t" by (auto simp: boot_setup_pin)
  have av: "available_apps t = map (entry_good engine fl ?off) [0..<8]"
    using sc by (auto simp: scanned_def simp del: upt_rec_numeral)
  have c: "length (buffer_bytes (sha_context t)) = 64" "cfg_offset t = ?off" "boot_pin t = 0"
    and start: "app_flash_start t = preset engine fl ?off [0..<8]"
    "app_flash_start t \<noteq> DEFAULT_APP_ADDR \<Longrightarrow> app_size t = header_size fl (app_flash_start t)"
    using sc by (simp_all add: scanned_def del: upt_rec_numeral)
  note found = app_found_scanned [OF sc]
  let ?t = "t\<lparr>gpiohs := (gpiohs t)\<lparr>input_val := in2\<rparr>, boot_pin := (if bit in2 2 then 1 else 0)\<rparr>"
  have pin: "choose_app fl in2 chars t = (if bit in2 2 then Some ?t else select_app fl chars ?t)" if "any_good engine fl ?off"
    using that c(3) found by (simp add: choose_app_def gpiohs_get_pin_key Let_def)
  consider "\<not> any_good engine fl ?off" | "any_good engine fl ?off" "bit in2 2" | "any_good engine fl ?off" "\<not> bit in2 2" by blast
  then show ?thesis
  proof cases
    case 1
    then have "choose_app fl in2 chars t = Some t" "app_flash_start t = DEFAULT_APP_ADDR"
      using found by (auto simp: choose_app_def app_found_def)
    then show ?thesis using 1 True start c by (intro load_decided [OF e(1) c(1) t]) (simp_all add: boot_address_def)
  next
    case 2
    then show ?thesis using pin True start c
      by (intro load_decided [OF e(1) _ t, of ?t]) (simp_all add: boot_address_def del: upt_rec_numeral)
  next
    case 3
    note menu = select_app_menu [of ?t engine fl chars]
    have a: "boot_address engine fl in1 in2 chars = menu_choice engine fl ?off chars" using 3 True by (simp add: boot_address_def)
    show ?thesis
    proof (cases "menu_choice engine fl ?off chars")
      case None
      then show ?thesis using menu av c(2) a 3 pin t by (simp add: boot_spec_def kboot_main_def)
    next
      case (Some d)
      then obtain u where u: "select_app fl chars ?t = Some u" "app_flash_start u = d" "sha_context u = sha_context t"
        "d \<noteq> DEFAULT_APP_ADDR \<longrightarrow> app_size u = header_size fl d" using menu av c(2) by auto
      then show ?thesis using 3 pin c(1) a Some by (intro load_decided [OF e(1) _ t, of u]) simp_all
    qed
  qed
qed

end
