(* ===== verification/Kboot_Props.thy ===== *)
theory Kboot_Props
  imports Kboot_Choice
begin

unbundle bit_operations_syntax

text \<open>
  The properties of stage 1: what the started application is, that the run ends, which memory
  the load touches, and the flash contents that defeat the size limit.
\<close>

section \<open>Frame\<close>

lemma get_params_sram [simp]: "sram (get_params fl i s) = sram s"
  by (simp add: get_params_def Let_def del: upt_rec_numeral)

lemma app_sha256_sram: "app_sha256 engine fl s = Some (ok, s') \<Longrightarrow> sram s' = sram s"
  by (auto simp: app_sha256_def Let_def simp del: upt_rec_numeral split: option.splits)

lemma app_check_sram: "app_check engine fl s = Some (ok, s') \<Longrightarrow> sram s' = sram s"
  by (auto simp: app_check_code Let_def app_crc32_def dest!: app_sha256_sram split: if_split_asm)

lemma scan_entry_sram: "scan_entry engine fl i s = Some (brk, s') \<Longrightarrow> sram s' = sram s"
  by (erule scan_entry_cases) (auto dest!: app_check_sram)

lemma scan_entries_sram: "scan_entries engine fl is' s = Some s' \<Longrightarrow> sram s' = sram s"
  by (induction is' arbitrary: s) (fastforce dest: scan_entry_sram split: option.splits if_split_asm)+

lemma find_apps_sram: "find_apps engine fl s = Some s' \<Longrightarrow> sram s' = sram s"
  unfolding find_apps_def
  by (auto dest!: scan_entries_sram simp del: upt_rec_numeral split: option.splits if_split_asm)

lemma select_app_sram: "select_app fl chars s = Some s' \<Longrightarrow> sram s' = sram s"
  by (induction fl chars s rule: select_app.induct) (auto simp: Let_def split: if_split_asm)

lemma choose_app_sram: "choose_app fl input chars s = Some s' \<Longrightarrow> sram s' = sram s"
  by (auto simp: choose_app_def Let_def dest!: select_app_sram split: if_split_asm)

lemma check_default_sram: "check_default engine fl s = Some (ok, s') \<Longrightarrow> sram s' = sram s"
  by (auto simp: check_default_def Let_def dest!: app_sha256_sram split: if_split_asm)

lemma boot_setup_sram [simp]: "sram (boot_setup fl input s) = sram s"
  by (simp add: boot_setup_def Let_def split_beta)

lemma kboot_main_sram:
  assumes "kboot_main engine fl in1 in2 chars s = Some (Started s')" and "unat (app_size s') \<le> unat x"
  shows "sram s' x = sram s x"
proof -
  obtain t u v where v: "find_apps engine fl (boot_setup fl in1 s) = Some t" "choose_app fl in2 chars t = Some u"
    "check_default engine fl u = Some (True, v)" and s': "s' = load_app fl v"
    using assms(1) by (auto simp: kboot_main_def split: option.splits if_splits)
  have "sram v = sram s" using v by (auto dest!: find_apps_sram choose_app_sram check_default_sram)
  then show ?thesis
    using assms(2) copy_app_at [of "unat (app_size v)" fl "app_flash_start v" "sram v" x] unat_less_32 [of "app_size v"]
    by (simp add: s' load_app_def)
qed

section \<open>The started application\<close>

text \<open>A concrete machine: the first entry of the main sector is active, with the flags given,
  and points to an image of 16 KiB (and more, by the size byte given) at \<open>0x80000\<close>. The 32-bit
  reads have the byte order of the repository's \<^verbatim>\<open>config.bin\<close>, the first byte highest. The last
  byte of the word behind the entries tells whether the boot pin is looked at: with \<open>0xC0\<close> the
  word is the magic number and the pin is disabled.\<close>

definition demo_byte :: "u8 \<Rightarrow> u8 \<Rightarrow> u8 \<Rightarrow> u32 \<Rightarrow> u8" where
  "demo_byte pin_byte size_byte flags a =
     (if a = 0x4000 \<or> a = 0x4100 then 0x5A else if a = 0x4001 \<or> a = 0x4101 then 0xA5
      else if a = 0x4002 \<or> a = 0x4102 then 0xD0 else if a = 0x4003 then 0xC0 + flags else if a = 0x4103 then pin_byte
      else if a = 0x4005 then 0x08 else if a = 0x400A then 0x40
      else if a = 0x80002 then 0x40 else if a = 0x80003 then size_byte else 0)"

definition demo_image :: "u8 \<Rightarrow> u8 \<Rightarrow> u8 \<Rightarrow> flash" where
  "demo_image p b f =
     \<lparr>xip8 = demo_byte p b f,
      xip32 = (\<lambda>a. push_bit 24 (ucast (demo_byte p b f a)) + push_bit 16 (ucast (demo_byte p b f (a + 1)))
                   + push_bit 8 (ucast (demo_byte p b f (a + 2))) + ucast (demo_byte p b f (a + 3)))\<rparr>"

abbreviation demo_flash :: "u8 \<Rightarrow> u8 \<Rightarrow> flash" where "demo_flash \<equiv> demo_image 0xC0"

definition demo_state :: kboot where
  "demo_state =
     \<lparr>cfg_magic = 0, cfg_address = 0, cfg_size = 0, cfg_crc = 0, cfg_info = replicate 16 0,
      available_apps = replicate 8 False, app_flash_start = 0, app_size = 0, cfg_offset = 0, crc32 = 0,
      sha_context = \<lparr>total_len = 0, buffer_len = 0, buffer_bytes = replicate 64 0\<rparr>,
      boot_pin = 0, print_enabled = False, fpioa = \<lparr>io = [], tie_en_reg = [], tie_val_reg = []\<rparr>,
      gpiohs = \<lparr>input_val = 0, input_en = 0, output_en = 0, output_val = 0\<rparr>, sram = (\<lambda>_. 0), spi3_xip_en = True\<rparr>"

lemma demo_state_start: "kboot_start demo_state"
  by (simp add: kboot_start_def demo_state_def)

lemma demo_setup: "boot_setup (demo_flash b f) in1 s = s\<lparr>boot_pin := 1, cfg_magic := MAGIC_ID, print_enabled := False\<rparr>"
  by (simp add: boot_setup_def demo_image_def demo_byte_def push_bit_eq_mult)

lemma demo_words:
  "entry_word (demo_image p b 1) 0 0 0 = MAGIC_ID + 1" "entry_word (demo_image p b 9) 0 0 0 = MAGIC_ID + 9"
  "entry_word (demo_image p b f) 0 0 1 = 0x80000"
  "entry_word (demo_image p b f) 0 0 2 = 0x4000" "xip8 (demo_image p b f) 0x80000 = 0"
  "header_size (demo_image p b f) 0x80000 = 0x4000 + push_bit 16 (ucast b)"
  by (simp_all add: entry_word_def demo_image_def demo_byte_def header_size_def flash2uint32_def)

lemma demo_run:
  assumes "f = 1 \<or> f = 9 \<and> b = 0"
  shows "\<exists>s'. kboot_main engine (demo_flash b f) in1 in2 chars demo_state = Some (Started s') \<and>
     app_flash_start s' = 0x80000 \<and> app_size s' = 0x4000 + push_bit 16 (ucast b)"
proof -
  let ?s = "boot_setup (demo_flash b f) in1 demo_state\<lparr>app_flash_start := DEFAULT_APP_ADDR, cfg_offset := 0\<rparr>"
  obtain t where "scan_entry engine (demo_flash b f) 0 ?s = Some (True, t)" "app_flash_start t = 0x80000"
    "app_size t = 0x4000 + push_bit 16 (ucast b)" "boot_pin t = 1"
    using assms
    by (elim disjE; simp add: scan_entry_def Let_def app_check_code demo_words demo_setup demo_state_def del: One_nat_def)
  moreover have "[0..<8] = 0 # [1..<8::nat]" by (simp add: upt_rec)
  ultimately show ?thesis
    by (simp add: kboot_main_def find_apps_def app_found_def choose_app_def check_default_def load_app_def del: upt_rec_numeral)
qed

text \<open>The other entries of the two sectors are blank.\<close>

lemma demo_blank:
  assumes "off \<in> {0, 4096}" "i < 8" "(off, i) \<noteq> (0, 0)" "k < 4"
  shows "entry_word (demo_image p b f) off i k = 0"
proof -
  define a where "a = i * 8 + (if off = 0 then 0 else 1024) + k"
  have a: "4 \<le> a" "a < 1100" "a \<noteq> 64" using assms by (auto simp: a_def)
  have "demo_byte p b f (of_nat n) = 0" if n: "0x4010 \<le> n" "n < 0x4100 \<or> 0x4104 \<le> n" "n < 0x6000" for n
  proof -
    have u: "unat (of_nat n :: u32) = n" by (rule unat_of_nat_small) (use n in simp)
    have "of_nat n \<noteq> (w :: u32)" if "unat w < 0x4010 \<or> 0x4100 \<le> unat w \<and> unat w < 0x4104 \<or> 0x6000 \<le> unat w" for w
      using that n u by auto
    then show ?thesis by (simp add: demo_byte_def)
  qed
  from this [of "0x4000 + 4 * a"] this [of "0x4000 + 4 * a + 1"] this [of "0x4000 + 4 * a + 2"] this [of "0x4000 + 4 * a + 3"]
  have z: "demo_byte p b f (of_nat (0x4000 + 4 * a)) = 0" "demo_byte p b f (of_nat (0x4000 + 4 * a) + 1) = 0"
    "demo_byte p b f (of_nat (0x4000 + 4 * a) + 2) = 0" "demo_byte p b f (of_nat (0x4000 + 4 * a) + 3) = 0"
    using a by (simp_all add: algebra_simps) (simp_all add: nat_neq_iff, auto)
  have "off div 4 = of_nat (if off = 0 then 0 else 1024)" using assms(1) by auto
  then have "0x4000 + 4 * (of_nat i * 8 + off div 4 + of_nat k) = (of_nat (0x4000 + 4 * a) :: u32)"
    by (simp add: a_def algebra_simps)
  then show ?thesis unfolding entry_word_def by (simp only: demo_image_def z flash.simps) simp
qed



section \<open>The run ends\<close>

lemma sha256_final_completes: "unit_completes engine \<Longrightarrow> sha256_final engine cu \<noteq> None"
  by (simp add: sha256_final_def Let_def unit_completes_def split_beta option.case_eq_if del: upt_rec_numeral not_None_eq)

lemma app_sha256_completes: "unit_completes engine \<Longrightarrow> app_sha256 engine fl s \<noteq> None"
  using sha256_final_completes
  by (simp add: app_sha256_def Let_def split_beta option.case_eq_if del: upt_rec_numeral not_None_eq)

lemma app_check_completes: "unit_completes engine \<Longrightarrow> app_check engine fl s \<noteq> None"
  using app_sha256_completes by (auto simp: app_check_code Let_def)

lemma scan_entry_completes: "unit_completes engine \<Longrightarrow> scan_entry engine fl i s \<noteq> None"
  using app_check_completes [of engine fl "get_params fl i s"]
  by (auto simp: scan_entry_def Let_def split: bool.splits)

lemma scan_entries_completes: "unit_completes engine \<Longrightarrow> scan_entries engine fl is' s \<noteq> None"
proof (induction is' arbitrary: s)
  case (Cons i is')
  then show ?case using scan_entry_completes [of engine fl i s] by auto
qed simp

lemma find_apps_completes: "unit_completes engine \<Longrightarrow> find_apps engine fl s \<noteq> None"
  unfolding find_apps_def
  using scan_entries_completes [of engine fl "[0..<8]"] by (auto simp del: upt_rec_numeral split: option.splits)

lemma select_app_completes: "100 \<in> set chars \<Longrightarrow> select_app fl chars s \<noteq> None"
  by (induction fl chars s rule: select_app.induct) (auto simp: Let_def)

lemma choose_app_completes: "100 \<in> set chars \<Longrightarrow> choose_app fl input chars s \<noteq> None"
  using select_app_completes by (auto simp: choose_app_def Let_def)

text \<open>C19: stage 1 always comes to a decision, with the boot pin in any position and whatever
  the flash holds, provided the SHA-256 unit completes and the operator eventually types the
  letter d in the menu; it halts only when the default application is not valid, and never
  starts an invalid one.\<close>

theorem kboot_decides:
  assumes "sha_engine_ok engine" and "unit_completes engine" and "kboot_start s" and "100 \<in> set chars"
  shows "\<exists>r. kboot_main engine fl in1 in2 chars s = Some r \<and>
     (case r of Halted s' \<Rightarrow> \<not> default_ok fl | Started s' \<Rightarrow> app_flash_start s' = DEFAULT_APP_ADDR \<longrightarrow> default_ok fl)"
proof -
  obtain t where t: "find_apps engine fl (boot_setup fl in1 s) = Some t" using find_apps_completes [OF assms(2)] by blast
  obtain u where u: "choose_app fl in2 chars t = Some u" using choose_app_completes [OF assms(4)] by blast
  have "kboot_inv engine fl t" using kboot_inv_find_apps [OF assms(1) _ t] assms(3) by (simp add: kboot_start_def)
  then have c: "length (buffer_bytes (sha_context u)) = 64" using choose_app_inv [OF _ u, of engine] by (simp add: kboot_inv_def)
  show ?thesis
  proof (cases "app_flash_start u = DEFAULT_APP_ADDR")
    case True
    then show ?thesis using t u check_default_spec [OF assms(1) c, of fl] by (auto simp: kboot_main_def load_app_def)
  next
    case False
    then show ?thesis using t u by (auto simp: kboot_main_def load_app_def check_default_def)
  qed
qed

text \<open>A unit as the data sheet describes it that completes with any count.\<close>

definition total_engine :: sha_engine where
  "total_engine cnt ws =
     Some (rev (map REVERSE32
       (md_fold 64 (\<lambda>s b. compress256 s (be_words 4 b)) sha256_initial_hash_value (bytes_of_words 4 ws))))"

lemma total_engine_ok: "sha_engine_ok total_engine" "unit_completes total_engine"
  by (simp_all add: sha_engine_ok_def unit_completes_def total_engine_def)

theorem kboot_decides_witness:
  "100 \<in> set [100::int] \<and> kboot_start demo_state \<and>
   (\<exists>r. kboot_main total_engine (demo_flash 7 3) 0 0 [100] demo_state = Some r \<and>
     (case r of Halted s' \<Rightarrow> \<not> default_ok (demo_flash 7 3)
      | Started s' \<Rightarrow> app_flash_start s' = DEFAULT_APP_ADDR \<longrightarrow> default_ok (demo_flash 7 3)))"
  using kboot_decides [OF total_engine_ok demo_state_start, of "[100]" "demo_flash 7 3" 0 0] demo_state_start by simp

section \<open>The choice\<close>




section \<open>The memory the load touches\<close>

text \<open>C24: when every valid entry has its size flag set, the load stays within the first 3 MiB
  of memory: the application is at most \<^verbatim>\<open>MAX_APP_FLASH_SIZE\<close> long and every byte behind it,
  the running boot loader at offset \<^verbatim>\<open>0x5E0000\<close> included, is what it was at the start.\<close>

theorem kboot_load_bounds:
  assumes "sha_engine_ok engine" and "kboot_start s"
    and "\<forall>off \<in> {0, 4096}. \<forall>i < 8. entry_good engine fl off i \<longrightarrow> entry_word fl off i 0 AND CFG_APP_FLAG_SIZE \<noteq> 0"
    and "kboot_main engine fl in1 in2 chars s = Some (Started s')"
  shows "app_size s' \<le> MAX_APP_FLASH_SIZE \<and> (\<forall>x \<ge> MAX_APP_FLASH_SIZE. sram s' x = sram s x)"
proof -
  have small: "header_size fl (entry_word fl off i 1) \<le> MAX_APP_FLASH_SIZE"
    if "entry_good engine fl off i" "entry_word fl off i 0 AND CFG_APP_FLAG_SIZE \<noteq> 0" for off i
    using that by (simp add: entry_good_def Let_def)
  have "app_size s' \<le> MAX_APP_FLASH_SIZE"
    using started_app(1) [OF assms(1,2,4)]
  proof (elim disjE conjE)
    assume "good_app engine fl (app_flash_start s') (app_size s')"
    then obtain off i where "off \<in> {0, 4096}" "i < 8" "entry_good engine fl off i"
      "app_size s' = header_size fl (entry_word fl off i 1)" unfolding good_app_def by metis
    then show ?thesis using small [of off i] assms(3) by metis
  qed
  moreover from this have "sram s' x = sram s x" if "MAX_APP_FLASH_SIZE \<le> x" for x
    using that by (intro kboot_main_sram [OF assms(4)]) (simp add: word_le_nat_alt)
  ultimately show ?thesis by blast
qed

theorem kboot_load_bounds_witness:
  "\<exists>s'. kboot_main model_engine (demo_flash 0 9) 0 0 [] demo_state = Some (Started s') \<and>
     app_size s' \<le> MAX_APP_FLASH_SIZE \<and> sram s' 0x5E0000 = 0"
proof -
  let ?fl = "demo_flash 0 9"
  have "\<forall>off \<in> {0, 4096}. \<forall>i < 8. entry_good model_engine ?fl off i \<longrightarrow> entry_word ?fl off i 0 AND CFG_APP_FLAG_SIZE \<noteq> 0"
  proof (intro ballI allI impI)
    fix off :: u32 and i :: nat
    assume a: "off \<in> {0, 4096}" "i < 8" "entry_good model_engine ?fl off i"
    then show "entry_word ?fl off i 0 AND CFG_APP_FLAG_SIZE \<noteq> 0"
      using demo_blank [OF a(1,2), of 0 "0xC0" 0 9] by (cases "(off, i) = (0, 0)") (auto simp: entry_good_def Let_def demo_words)
  qed
  moreover obtain s' where "kboot_main model_engine ?fl 0 0 [] demo_state = Some (Started s')"
    using demo_run [of 9 0 model_engine 0 0 "[]"] by auto
  ultimately show ?thesis
    using kboot_load_bounds [OF model_engine_ok demo_state_start, of ?fl 0 0 "[]" s']
    by (intro exI [of _ s']) (simp add: demo_state_def)
qed

text \<open>C37: without the size flag the limit does not hold: the range check looks at the size in the
  configuration entry, and the check of the image then replaces it by the size in the image
  header, which nothing bounds. An image header that says 7 MiB is copied over the
  running boot loader.\<close>

theorem kboot_size_unchecked:
  "\<exists>fl s'. entry_word fl 0 0 2 \<le> MAX_APP_FLASH_SIZE \<and>
     kboot_main model_engine fl 0 0 [] demo_state = Some (Started s') \<and> app_size s' > 0x5E0000"
proof -
  obtain s' where "kboot_main model_engine (demo_flash 0x70 1) 0 0 [] demo_state = Some (Started s')"
    "app_size s' = 0x704000" using demo_run [of 1 "0x70" model_engine 0 0 "[]"] by auto
  then show ?thesis by (intro exI [of _ "demo_flash 0x70 1"] exI [of _ s']) (simp add: demo_words)
qed

section \<open>The checksum\<close>

text \<open>C32: the checksum of \<^verbatim>\<open>app_crc32\<close>, computed byte by byte with a masked polynomial, is
  CRC-32 in its serial definition over the code of the image, the five header bytes left out;
  the function accepts exactly when it equals the checksum in the entry. This holds for every
  size whose sum with the five header bytes does not wrap around.\<close>

theorem app_crc32_reference:
  assumes "cfg_size s < 0xFFFFFFFB"
  shows "app_crc32 fl s =
     (CRC32 (flash_bytes fl (cfg_address s + 5) (unat (cfg_size s))) = cfg_crc s,
      s\<lparr>crc32 := CRC32 (flash_bytes fl (cfg_address s + 5) (unat (cfg_size s)))\<rparr>)"
  using assms by (simp add: app_crc32_code Let_def)

theorem app_crc32_reference_witness:
  "app_crc32 (demo_flash 0 1) (demo_state\<lparr>cfg_address := 0x7FFFB, cfg_size := 4\<rparr>) =
     (CRC32 [0, 0, 0x40, 0] = 0, demo_state\<lparr>cfg_address := 0x7FFFB, cfg_size := 4, crc32 := CRC32 [0, 0, 0x40, 0]\<rparr>)"
  using app_crc32_reference [of "demo_state\<lparr>cfg_address := 0x7FFFB, cfg_size := 4\<rparr>" "demo_flash 0 1"]
  by (simp add: flash_bytes_def demo_image_def demo_byte_def upt_rec demo_state_def)

end
