(* ===== verification/Kboot_Boot.thy ===== *)
theory Kboot_Boot
  imports Kboot_Cores Kboot_Props
begin

unbundle bit_operations_syntax

text \<open>
  The two boot loader stages on two cores. Stage 0 (\<^verbatim>\<open>bootloader_lo/main.c\<close>) sets up the flash
  window and copies stage 1 to high memory; stage 1 is \<open>Kboot_Stage1\<close>. Both are core 0's work
  in the protocol of \<open>Kboot_Cores\<close>.
\<close>

section \<open>Stage 0\<close>

text \<open>The registers stage 0 writes, of the SPI controller and of the system controller.\<close>

record spi_regs =
  baudr :: u32
  imr :: u32
  dmacr :: u32
  dmatdlr :: u32
  dmardlr :: u32
  ser :: u32
  ssienr :: u32
  ctrlr0 :: u32
  spi_ctrlr0 :: u32
  endian :: u32
  xip_ctrl :: u32
  xip_incr_inst :: u32
  xip_mode_bits :: u32
  xip_ser :: u32
  spi3_clk_sel :: u32
  spi3_clk_en :: u32
  spi3_clk_threshold :: u32
  peri_spi3_xip_en :: u32

definition flash_setup :: "spi_regs \<Rightarrow> spi_regs" where
  "flash_setup r =
     r\<lparr>spi3_clk_sel := 1, spi3_clk_en := 1, spi3_clk_threshold := 0,
       baudr := 9, imr := 0x00, dmacr := 0x00, dmatdlr := 0x10, dmardlr := 0x00, ser := 0x00, ssienr := 0x00,
       ctrlr0 := push_bit 8 0 OR push_bit 22 2 OR push_bit 0 7, spi_ctrlr0 := 0, endian := 0,
       xip_ctrl := push_bit 29 0x01 OR push_bit 26 0x02 OR push_bit 23 0x01 OR push_bit 22 0x01 OR push_bit 13 0x04 OR
         push_bit 12 0x01 OR push_bit 9 0x02 OR push_bit 4 0x06 OR push_bit 2 0x01 OR 0x02,
       xip_incr_inst := 0xEB, xip_mode_bits := 0x00, xip_ser := 0x01, ssienr := 0x01, peri_spi3_xip_en := 1\<rparr>"

record lo_work =
  spi_handle :: spi_regs
  flash_ready :: bool
  boothi_flash_ptr :: u32
  boothi_sram_ptr :: u32
  lo_sram :: "u32 \<Rightarrow> u8"

abbreviation (input) BOOTHI_FLASH_ADDR :: u32 where "BOOTHI_FLASH_ADDR \<equiv> 0x00001005"
abbreviation (input) BOOTHI_SRAM_ADDR :: u32 where "BOOTHI_SRAM_ADDR \<equiv> 0x805E0000"
abbreviation (input) BOOTHI_SIZE :: u32 where "BOOTHI_SIZE \<equiv> 0x00003000"

text \<open>One step of core 0's work: the set-up with the initialisation of the loop, then one byte
  per turn; \<open>None\<close> when the loop is over. Addresses in the flash are relative to the window.\<close>

definition lo_step :: "(u32 \<Rightarrow> u8) \<Rightarrow> u32 \<times> lo_work \<Rightarrow> (u32 \<times> lo_work) option" where
  "lo_step fl x =
     (case x of (i, w) \<Rightarrow>
        if \<not> flash_ready w then Some (0, w\<lparr>spi_handle := flash_setup (spi_handle w), flash_ready := True\<rparr>)
        else if i < BOOTHI_SIZE then
          Some (i + 1, w\<lparr>lo_sram := (lo_sram w)(boothi_sram_ptr w := fl (boothi_flash_ptr w)),
                         boothi_sram_ptr := boothi_sram_ptr w + 1, boothi_flash_ptr := boothi_flash_ptr w + 1\<rparr>)
        else None)"

definition lo_next :: "(u32 \<Rightarrow> u8) \<Rightarrow> u32 \<times> lo_work \<Rightarrow> u32 \<times> lo_work \<Rightarrow> bool" where
  "lo_next fl x y \<longleftrightarrow> lo_step fl x = Some y"

definition lo_done :: "(u32 \<Rightarrow> u8) \<Rightarrow> u32 \<times> lo_work \<Rightarrow> bool" where
  "lo_done fl x \<longleftrightarrow> lo_step fl x = None"

definition lo_start :: "spi_regs \<Rightarrow> (u32 \<Rightarrow> u8) \<Rightarrow> lo_work" where
  "lo_start regs mem =
     \<lparr>spi_handle = regs, flash_ready = False, boothi_flash_ptr = BOOTHI_FLASH_ADDR,
      boothi_sram_ptr = BOOTHI_SRAM_ADDR, lo_sram = mem\<rparr>"

definition lo_inv :: "spi_regs \<Rightarrow> (u32 \<Rightarrow> u8) \<Rightarrow> (u32 \<Rightarrow> u8) \<Rightarrow> u32 \<times> lo_work \<Rightarrow> bool" where
  "lo_inv regs mem fl x \<longleftrightarrow>
     (case x of (i, w) \<Rightarrow>
        if flash_ready w then
          i \<le> BOOTHI_SIZE \<and> spi_handle w = flash_setup regs \<and>
          boothi_sram_ptr w = BOOTHI_SRAM_ADDR + i \<and> boothi_flash_ptr w = BOOTHI_FLASH_ADDR + i \<and>
          lo_sram w = (\<lambda>a. if a - BOOTHI_SRAM_ADDR < i then fl (a - BOOTHI_SRAM_ADDR + BOOTHI_FLASH_ADDR) else mem a)
        else w = lo_start regs mem)"

text \<open>Stage 1 lies in high memory, byte for byte, and nothing else has changed.\<close>

definition lo_post :: "spi_regs \<Rightarrow> (u32 \<Rightarrow> u8) \<Rightarrow> (u32 \<Rightarrow> u8) \<Rightarrow> lo_work \<Rightarrow> bool" where
  "lo_post regs mem fl w \<longleftrightarrow> spi_handle w = flash_setup regs \<and>
     lo_sram w = (\<lambda>a. if a - BOOTHI_SRAM_ADDR < BOOTHI_SIZE then fl (a - BOOTHI_SRAM_ADDR + BOOTHI_FLASH_ADDR) else mem a)"

lemma copy_byte:
  fixes i :: u32
  assumes "i < BOOTHI_SIZE"
  shows "unat (i + 1) = unat i + 1"
    and "(\<lambda>a. if a - b < i then f (a - b) else g a)(b + i := f i) = (\<lambda>a. if a - b < i + 1 then f (a - b) else g a)"
proof -
  show u: "unat (i + 1) = unat i + 1" using assms by (simp add: word_less_nat_alt unat_word_ariths)
  show "(\<lambda>a. if a - b < i then f (a - b) else g a)(b + i := f i) = (\<lambda>a. if a - b < i + 1 then f (a - b) else g a)"
  proof
    fix a
    have "a - b < i + 1 \<longleftrightarrow> a - b < i \<or> a - b = i" by (auto simp: word_less_nat_alt u less_Suc_eq word_unat_eq_iff)
    then show "((\<lambda>a. if a - b < i then f (a - b) else g a)(b + i := f i)) a = (if a - b < i + 1 then f (a - b) else g a)"
      by auto
  qed
qed

lemma lo_inv_step:
  assumes "lo_inv regs mem fl x" and "lo_next fl x y"
  shows "lo_inv regs mem fl y"
proof -
  obtain i w where x: "x = (i, w)" by force
  show ?thesis
  proof (cases "flash_ready w")
    case False
    then show ?thesis using assms by (auto simp: x lo_inv_def lo_next_def lo_step_def lo_start_def)
  next
    case True
    then have i: "i < BOOTHI_SIZE" using assms(2) by (simp add: x lo_next_def lo_step_def split: if_splits)
    then have "i + 1 \<le> BOOTHI_SIZE" by (simp add: word_less_nat_alt word_le_nat_alt copy_byte(1))
    then show ?thesis using True assms i copy_byte(2) [OF i, of BOOTHI_SRAM_ADDR "\<lambda>k. fl (k + BOOTHI_FLASH_ADDR)" mem]
      by (auto simp: x lo_inv_def lo_next_def lo_step_def ac_simps)
  qed
qed

lemma lo_inv_done: "lo_inv regs mem fl x \<Longrightarrow> lo_done fl x \<Longrightarrow> lo_post regs mem fl (snd x)"
  by (cases x) (auto simp: lo_inv_def lo_done_def lo_step_def lo_post_def split: if_splits)

definition lo_measure :: "u32 \<times> lo_work \<Rightarrow> nat" where
  "lo_measure x = (case x of (i, w) \<Rightarrow> if flash_ready w then 0x3000 - unat i else 0x3001)"

lemma lo_measure_step:
  assumes "lo_next fl x y"
  shows "lo_measure y < lo_measure x"
proof -
  obtain i w where x: "x = (i, w)" by force
  show ?thesis
  proof (cases "flash_ready w")
    case False
    then show ?thesis using assms by (auto simp: x lo_next_def lo_step_def lo_measure_def)
  next
    case True
    then have i: "i < BOOTHI_SIZE" using assms by (simp add: x lo_next_def lo_step_def split: if_splits)
    then have "unat i < 0x3000" by (simp add: word_less_nat_alt)
    then show ?thesis using True assms i copy_byte(1) [OF i] by (auto simp: x lo_next_def lo_step_def lo_measure_def)
  qed
qed

interpretation lo: ending_work "lo_next fl" "lo_done fl" "lo_start regs mem" "lo_inv regs mem fl" "lo_post regs mem fl"
  lo_measure "0x3001"
  for fl regs mem
proof unfold_locales
  fix i :: u32 and x y
  show "lo_inv regs mem fl (i, lo_start regs mem)" by (simp add: lo_inv_def lo_start_def)
  show "lo_inv regs mem fl x \<Longrightarrow> lo_next fl x y \<Longrightarrow> lo_inv regs mem fl y" by (rule lo_inv_step)
  show "lo_inv regs mem fl x \<Longrightarrow> lo_done fl x \<Longrightarrow> lo_post regs mem fl (snd x)" by (rule lo_inv_done)
  show "lo_next fl x y \<Longrightarrow> lo_measure y < lo_measure x" by (rule lo_measure_step)
  show "lo_measure x \<le> 0x3001" by (cases x) (simp add: lo_measure_def le_diff_conv)
  show "\<not> lo_done fl x \<Longrightarrow> \<exists>y. lo_next fl x y" by (auto simp: lo_done_def lo_next_def)
qed

text \<open>C16: in every interleaving of the two cores, and whether or not the test of the core number
  reads the shared variable again (as the repository's build does), a core that has left stage 0
  finds stage 1 in high memory, byte for byte as in the flash, every other byte of memory
  unchanged, and the flash window open.\<close>

theorem boot_lo_stage1_in_place:
  assumes "boot_reach reload (lo_next fl) (lo_done fl) (lo_start regs mem) s" and "pcs s h = Jumped"
  shows "lo_sram (work s) = (\<lambda>a. if a - BOOTHI_SRAM_ADDR < BOOTHI_SIZE then fl (a - BOOTHI_SRAM_ADDR + BOOTHI_FLASH_ADDR) else mem a) \<and>
    spi_handle (work s) = flash_setup regs \<and> peri_spi3_xip_en (spi_handle (work s)) = 1"
  using lo.jumped_post [OF assms] by (simp add: lo_post_def flash_setup_def)

definition demo_spi :: spi_regs where
  "demo_spi =
     \<lparr>baudr = 0, imr = 0, dmacr = 0, dmatdlr = 0, dmardlr = 0, ser = 0, ssienr = 0, ctrlr0 = 0, spi_ctrlr0 = 0,
      endian = 0, xip_ctrl = 0, xip_incr_inst = 0, xip_mode_bits = 0, xip_ser = 0, spi3_clk_sel = 0, spi3_clk_en = 0,
      spi3_clk_threshold = 0, peri_spi3_xip_en = 0\<rparr>"

theorem boot_lo_stage1_in_place_witness:
  "\<exists>s. boot_reach True (lo_next (\<lambda>a. ucast a)) (lo_done (\<lambda>a. ucast a)) (lo_start demo_spi (\<lambda>_. 7)) s \<and>
     pcs s Hart1 = Jumped \<and> lo_sram (work s) 0x805E0002 = 0x07 \<and> lo_sram (work s) 0x805E0003 = 0x08 \<and> lo_sram (work s) 0 = 7"
proof -
  obtain s where "boot_reach True (lo_next (\<lambda>a. ucast a)) (lo_done (\<lambda>a. ucast a)) (lo_start demo_spi (\<lambda>_. 7)) s" "pcs s Hart1 = Jumped"
    using lo.start_finishes by blast
  moreover from boot_lo_stage1_in_place [OF this]
  have "lo_sram (work s) 0x805E0002 = 0x07" "lo_sram (work s) 0x805E0003 = 0x08" "lo_sram (work s) 0 = 7" by simp_all
  ultimately show ?thesis by blast
qed

text \<open>C26: how stage 0 ends, under every interleaving and for both ways to compile the test. No run
  has more than 12298 steps that are not polling. Where no step is left, both cores have jumped
  to stage 1, or the test reads the shared variable again and both cores wait in the same branch,
  with nothing copied and no register written. The second cannot happen once a core has passed
  its test before the other one wrote the variable: every run from there ends with both cores
  in stage 1.\<close>

theorem boot_lo_terminates:
  "((core_step reload (lo_next fl) (lo_done fl) ^^ n) (boot_start (lo_start regs mem)) s \<longrightarrow> n \<le> 12298) \<and>
   (boot_reach reload (lo_next fl) (lo_done fl) (lo_start regs mem) s \<and> (\<nexists>s'. core_step reload (lo_next fl) (lo_done fl) s s') \<longrightarrow>
      pcs s Hart0 = Jumped \<and> pcs s Hart1 = Jumped \<or>
      reload \<and> work s = lo_start regs mem \<and> pcs s Hart0 = pcs s Hart1 \<and> pcs s Hart0 \<in> {Wait0, Wait1}) \<and>
   (boot_reach reload (lo_next fl) (lo_done fl) (lo_start regs mem) t \<and> pcs t h \<notin> {Entry, Test (mhartid h)} \<and> pcs t g = Entry \<and>
    (core_step reload (lo_next fl) (lo_done fl))\<^sup>*\<^sup>* t s \<and> (\<nexists>s'. core_step reload (lo_next fl) (lo_done fl) s s') \<longrightarrow>
      pcs s Hart0 = Jumped \<and> pcs s Hart1 = Jumped)"
proof -
  let ?step = "core_step reload (lo_next fl) (lo_done fl)" and ?start = "boot_start (lo_start regs mem)"
  have "n \<le> 12298" if "(?step ^^ n) ?start s" using lo.run_bound [OF that] by simp
  moreover have "pcs s Hart0 = Jumped \<and> pcs s Hart1 = Jumped \<or>
      reload \<and> work s = lo_start regs mem \<and> pcs s Hart0 = pcs s Hart1 \<and> pcs s Hart0 \<in> {Wait0, Wait1}"
    if "?step\<^sup>*\<^sup>* ?start s" "\<nexists>s'. ?step s s'" using lo.stuck_ends [OF that] by auto
  moreover have "pcs s k = Jumped" if "?step\<^sup>*\<^sup>* ?start t" "pcs t h \<notin> {Entry, Test (mhartid h)}" "pcs t g = Entry"
      "?step\<^sup>*\<^sup>* t s" "\<nexists>s'. ?step s s'" for k
    by (rule lo.settled_ends [OF lo.reach_settled [OF that(1-3)] that(4,5)])
  ultimately show ?thesis by blast
qed

theorem boot_lo_terminates_witness:
  "\<exists>n s. (core_step True (lo_next (\<lambda>_. 1)) (lo_done (\<lambda>_. 1)) ^^ n) (boot_start (lo_start demo_spi (\<lambda>_. 7))) s \<and> n \<le> 12298 \<and>
     pcs s Hart0 = Jumped \<and> pcs s Hart1 = Jumped"
proof -
  obtain s where s: "boot_reach True (lo_next (\<lambda>_. 1)) (lo_done (\<lambda>_. 1)) (lo_start demo_spi (\<lambda>_. 7)) s" "\<forall>h. pcs s h = Jumped"
    using lo.start_finishes by blast
  obtain n where n: "(core_step True (lo_next (\<lambda>_. 1)) (lo_done (\<lambda>_. 1)) ^^ n) (boot_start (lo_start demo_spi (\<lambda>_. 7))) s"
    using rtranclp_imp_relpowp [OF s(1)] by (elim exE)
  note b = boot_lo_terminates [of n True "\<lambda>_. 1" demo_spi "\<lambda>_. 7" s, THEN conjunct1]
  have "n \<le> 12298" by (rule mp [OF b n])
  with n s(2) show ?thesis by iprover
qed

text \<open>C40: when the test reads the shared variable again, the write of the other core may come between
  the write and the test: both cores then take the same branch and wait for ever.\<close>

theorem boot_shared_i_race:
  "\<exists>s. boot_reach True (lo_next fl) (lo_done fl) (lo_start regs mem) s \<and> pcs s Hart0 = Wait0 \<and> pcs s Hart1 = Wait0 \<and>
     (\<nexists>s'. core_step True (lo_next fl) (lo_done fl) s s')"
proof -
  let ?step = "core_step True (lo_next fl) (lo_done fl)"
  let ?s0 = "boot_start (lo_start regs mem)"
  let ?s1 = "goto Hart1 (Test 1) (?s0\<lparr>i_var := 1\<rparr>)"
  let ?s2 = "goto Hart0 (Test 0) (?s1\<lparr>i_var := 0\<rparr>)"
  let ?s3 = "goto Hart1 Wait0 ?s2"
  let ?s4 = "goto Hart0 Wait0 ?s3"
  have "?step ?s0 ?s1" using core_step.read_hart [of ?s0 Hart1 True] by (simp add: boot_start_def)
  moreover have "?step ?s1 ?s2" using core_step.read_hart [of ?s1 Hart0 True] by (simp add: boot_start_def goto_def)
  moreover have "?step ?s2 ?s3" using core_step.core0 [of ?s2 Hart1 1 True] by (simp add: boot_start_def goto_def)
  moreover have "?step ?s3 ?s4" using core_step.core0 [of ?s3 Hart0 0 True] by (simp add: boot_start_def goto_def)
  ultimately have "?step\<^sup>*\<^sup>* ?s0 ?s4" by (meson rtranclp.rtrancl_into_rtrancl rtranclp.rtrancl_refl)
  moreover have "pcs ?s4 h = Wait0" for h by (cases h) (simp_all add: goto_def)
  moreover have "core0_sync ?s4 = 0" by (simp add: goto_def boot_start_def)
  ultimately show ?thesis by (intro exI [of _ ?s4]) (auto elim!: core_stepE)
qed

section \<open>Stage 1\<close>






end
