(* ===== verification/Text_Codec.thy ===== *)
theory Text_Codec
  imports Mp_Obj
begin

text \<open>
  What the two text encodings have in common: the table that maps a character to its position
  in the alphabet, the removal of padding at the end, and the interface of an encoding
  (locale \<open>text_codec\<close>): encoding succeeds, and decoding gives back the data up to the
  normal form the encoding keeps.
\<close>

section \<open>Alphabets\<close>

definition char_pos :: "bytes \<Rightarrow> u8 \<Rightarrow> nat" where
  "char_pos chars c = length (takeWhile (\<lambda>x. x \<noteq> c) chars)"

definition pad_char :: u8 where "pad_char = of_char (CHR ''='')"

definition strip_pad :: "bytes \<Rightarrow> bytes" where
  "strip_pad s = rev (dropWhile (\<lambda>c. c = pad_char) (rev s))"

definition fill_index :: "bytes \<Rightarrow> nat \<Rightarrow> 8 word list" where
  "fill_index chars n = foldl (\<lambda>t i. t[unat (chars ! i) := of_nat i]) (replicate 256 (- 1)) [0..<n]"

lemma char_pos_nth: "distinct chars \<Longrightarrow> i < length chars \<Longrightarrow> char_pos chars (chars ! i) = i"
proof (induction chars arbitrary: i)
  case (Cons a chars)
  then show ?case by (cases i) (auto simp: char_pos_def nth_eq_iff_index_eq)
qed simp

lemma char_pos_less: "c \<in> set chars \<Longrightarrow> char_pos chars c < length chars"
  by (induction chars) (auto simp: char_pos_def)

lemma nth_char_pos: "c \<in> set chars \<Longrightarrow> chars ! char_pos chars c = c"
  by (induction chars) (auto simp: char_pos_def)

lemma fill_index_Suc: "fill_index chars (Suc n) = (fill_index chars n)[unat (chars ! n) := of_nat n]"
  by (simp add: fill_index_def)

lemma length_fill_index [simp]: "length (fill_index chars n) = 256"
  by (induction n) (simp_all add: fill_index_Suc, simp add: fill_index_def)

lemma unat_byte: "unat (c :: u8) < 256"
  using unsigned_less [of c, where 'a = nat] by simp

lemma fill_index_nth:
  assumes "distinct chars" and "n \<le> length chars"
  shows "fill_index chars n ! unat c = (if c \<in> set (take n chars) then of_nat (char_pos chars c) else - 1)"
  using assms(2)
proof (induction n)
  case 0
  then show ?case using unat_byte [of c] by (simp add: fill_index_def)
next
  case (Suc n)
  have set: "set (take (Suc n) chars) = insert (chars ! n) (set (take n chars))"
    using Suc.prems by (simp add: take_Suc_conv_app_nth)
  have "chars ! n \<notin> set (take n chars)"
    using assms(1) Suc.prems by (auto simp: in_set_conv_nth nth_eq_iff_index_eq)
  moreover have "char_pos chars (chars ! n) = n" using assms(1) Suc.prems by (simp add: char_pos_nth)
  ultimately show ?case
    using Suc unat_byte [of c] word_unat_eq_iff [of "chars ! n" c] unfolding fill_index_Suc set
    by (cases "c = chars ! n") (auto simp: nth_list_update)
qed

lemma fill_index_alphabet:
  "distinct chars \<Longrightarrow> fill_index chars (length chars) ! unat c = (if c \<in> set chars then of_nat (char_pos chars c) else - 1)"
  using fill_index_nth [of chars "length chars" c] by simp

section \<open>Padding\<close>

lemma length_strip_pad: "length (strip_pad s) \<le> length s"
  using length_dropWhile_le [of "\<lambda>c. c = pad_char" "rev s"] by (simp add: strip_pad_def)

lemma strip_pad_append: "strip_pad (s @ replicate n pad_char) = strip_pad s"
  by (simp add: strip_pad_def dropWhile_append)

lemma strip_pad_id: "pad_char \<notin> set s \<Longrightarrow> strip_pad s = s"
  unfolding strip_pad_def by (subst dropWhile_eq_self_iff [THEN iffD2]) (auto simp: hd_rev dest: last_in_set)

text \<open>The loop that drops padding characters, as both modules have it.\<close>

fun strip_padding :: "bytes \<Rightarrow> nat \<Rightarrow> nat" where
  "strip_padding s len = (if 0 < len \<and> s ! (len - 1) = of_char (CHR ''='') then strip_padding s (len - 1) else len)"

declare strip_padding.simps [simp del]

lemma strip_padding_spec:
  "n \<le> length s \<Longrightarrow> strip_padding s n \<le> n \<and> take (strip_padding s n) s = strip_pad (take n s)"
proof (induction n)
  case (Suc n)
  then have snoc: "take (Suc n) s = take n s @ [s ! n]" by (simp add: take_Suc_conv_app_nth)
  show ?case
  proof (cases "s ! n = pad_char")
    case True
    then have "strip_padding s (Suc n) = strip_padding s n" by (subst strip_padding.simps) (simp add: pad_char_def)
    moreover have "strip_pad (take (Suc n) s) = strip_pad (take n s)" unfolding snoc using True by (simp add: strip_pad_def)
    ultimately show ?thesis using Suc by simp
  next
    case False
    then have "strip_padding s (Suc n) = Suc n" by (subst strip_padding.simps) (simp add: pad_char_def)
    moreover have "strip_pad (take (Suc n) s) = take (Suc n) s" unfolding snoc using False by (simp add: strip_pad_def)
    ultimately show ?thesis by simp
  qed
qed (simp add: strip_padding.simps [of s 0] strip_pad_def)

lemma strip_padding_take:
  "take (strip_padding s (length s)) s = strip_pad s" "strip_padding s (length s) = length (strip_pad s)"
proof -
  show "take (strip_padding s (length s)) s = strip_pad s" using strip_padding_spec [of "length s" s] by simp
  then have "length (strip_pad s) = min (length s) (strip_padding s (length s))" by (metis length_take)
  then show "strip_padding s (length s) = length (strip_pad s)" using strip_padding_spec [of "length s" s] by simp
qed

section \<open>The interface\<close>

locale text_codec =
  fixes encode :: "bytes \<Rightarrow> bool \<Rightarrow> bytes" and decode :: "bytes \<Rightarrow> bytes option" and norm :: "bytes \<Rightarrow> bytes"
  assumes decode_encode: "d \<noteq> [] \<Longrightarrow> decode (encode d p) = Some (norm d)"
    and encode_norm: "encode (norm d) p = encode d p"
    and norm_nonempty: "norm d = [] \<longleftrightarrow> d = []"
begin

lemma encode_eq_iff:
  assumes "d \<noteq> []" and "d' \<noteq> []"
  shows "encode d p = encode d' p \<longleftrightarrow> norm d = norm d'"
  using assms by (metis decode_encode encode_norm option.inject)

lemma padding_ignored: "d \<noteq> [] \<Longrightarrow> decode (encode d p) = decode (encode d p')"
  by (simp add: decode_encode)

lemma norm_norm: "norm (norm d) = norm d"
  by (cases "d = []") (metis decode_encode encode_norm norm_nonempty option.inject)+

lemma exact_iff: "d \<noteq> [] \<Longrightarrow> decode (encode d p) = Some d \<longleftrightarrow> norm d = d"
  by (simp add: decode_encode)

end

end
