(* ===== verification/Base32.thy ===== *)
theory Base32
  imports Text_Codec
begin

text \<open>
  \<^verbatim>\<open>base32/base32.c\<close>: the MicroPython module \<^verbatim>\<open>base32\<close>. The two conversions regroup a bit
  stream through an accumulator of 32 bits; the static index table is state, filled by the
  first call of \<^verbatim>\<open>decode\<close>. The output buffers are allocated blocks with checked stores, so
  that a result other than \<open>Heap_overrun\<close> is a proof that the sizes computed up front are
  enough.
\<close>

section \<open>The module\<close>

definition B32CHARS :: bytes where
  "B32CHARS = map of_char ''ABCDEFGHIJKLMNOPQRSTUVWXYZ234567''"

definition BASE32_MASK :: u32 where "BASE32_MASK = 0x1F"

record base32_static =
  base32_index :: "8 word list"
  initialized :: bool

text \<open>The static variables as the program loader leaves them.\<close>

definition base32_load :: base32_static where
  "base32_load = \<lparr>base32_index = replicate 256 0, initialized = False\<rparr>"

definition init_base32_index :: "base32_static \<Rightarrow> base32_static" where
  "init_base32_index st =
     st\<lparr>base32_index :=
          foldl (\<lambda>t i. t[unat (B32CHARS ! i) := of_nat i]) (replicate 256 (- 1)) [0..<32]\<rparr>"

text \<open>The accumulator: its contents, how many bits of it count, the output and its length.\<close>

record base32_acc =
  buffer :: u32
  bits_left :: nat
  out_buf :: bytes
  out_len :: nat

function decode_drain :: "base32_acc \<Rightarrow> mp_error + base32_acc" where
  "decode_drain a =
     (if 8 \<le> bits_left a then
        let bits = bits_left a - 8 in
        (case buf_store (out_buf a) (out_len a) (ucast (drop_bit bits (buffer a) AND 0xFF)) of
           Inl e \<Rightarrow> Inl e
         | Inr buf \<Rightarrow> decode_drain \<lparr>buffer = buffer a AND (push_bit bits 1 - 1), bits_left = bits, out_buf = buf, out_len = out_len a + 1\<rparr>)
      else Inr a)"
  by pat_completeness auto
termination
  by (relation "measure bits_left") auto

fun decode_loop :: "8 word list \<Rightarrow> bytes \<Rightarrow> base32_acc \<Rightarrow> mp_error + base32_acc" where
  "decode_loop table [] a = Inr a"
| "decode_loop table (c # cs) a =
     (let index = table ! unat c in
      if index = - 1 then Inl (ValueError ''Invalid Base32 character'')
      else
        (case decode_drain (a\<lparr>buffer := push_bit 5 (buffer a) OR ucast index, bits_left := bits_left a + 5\<rparr>) of
           Inl e \<Rightarrow> Inl e
         | Inr a \<Rightarrow> decode_loop table cs a))"

definition base32_decode :: "mp_env \<Rightarrow> base32_static \<Rightarrow> mp_obj \<Rightarrow> (mp_error + bytes) \<times> base32_static" where
  "base32_decode env st encoded_str_obj =
     (case mp_obj_str_get_data encoded_str_obj of
        Inl e \<Rightarrow> (Inl e, st)
      | Inr encoded_str \<Rightarrow>
          let stripped_len = strip_padding encoded_str (length encoded_str);
              st = (if \<not> initialized st then (init_base32_index st)\<lparr>initialized := True\<rparr> else st);
              max_decoded_size = (stripped_len * 5 + 7) div 8
          in (case m_malloc0 env max_decoded_size of
                Inl e \<Rightarrow> (Inl e, st)
              | Inr None \<Rightarrow> (Inl (OSError 12), st)
              | Inr (Some decoded_buf) \<Rightarrow>
                  (case decode_loop (base32_index st) (take stripped_len encoded_str)
                          \<lparr>buffer = 0, bits_left = 0, out_buf = decoded_buf, out_len = 0\<rparr> of
                     Inl e \<Rightarrow> (Inl e, st)
                   | Inr a \<Rightarrow> (Inr (take (out_len a) (out_buf a)), st))))"

function encode_drain :: "base32_acc \<Rightarrow> mp_error + base32_acc" where
  "encode_drain a =
     (if 5 \<le> bits_left a then
        let bits = bits_left a - 5; index = drop_bit bits (buffer a) AND BASE32_MASK in
        (case buf_store (out_buf a) (out_len a) (B32CHARS ! unat index) of
           Inl e \<Rightarrow> Inl e
         | Inr buf \<Rightarrow> encode_drain \<lparr>buffer = buffer a AND (push_bit bits 1 - 1), bits_left = bits, out_buf = buf, out_len = out_len a + 1\<rparr>)
      else Inr a)"
  by pat_completeness auto
termination
  by (relation "measure bits_left") auto

fun encode_loop :: "bytes \<Rightarrow> base32_acc \<Rightarrow> mp_error + base32_acc" where
  "encode_loop [] a = Inr a"
| "encode_loop (d # ds) a =
     (case encode_drain (a\<lparr>buffer := push_bit 8 (buffer a) OR ucast d, bits_left := bits_left a + 8\<rparr>) of
        Inl e \<Rightarrow> Inl e
      | Inr a \<Rightarrow> encode_loop ds a)"

definition encode_last :: "base32_acc \<Rightarrow> mp_error + base32_acc" where
  "encode_last a =
     (if 0 < bits_left a then
        let b = push_bit (5 - bits_left a) (buffer a) in
        (case buf_store (out_buf a) (out_len a) (B32CHARS ! unat (b AND BASE32_MASK)) of
           Inl e \<Rightarrow> Inl e
         | Inr buf \<Rightarrow> Inr (a\<lparr>buffer := b, out_buf := buf, out_len := out_len a + 1\<rparr>))
      else Inr a)"

fun encode_padding :: "nat \<Rightarrow> base32_acc \<Rightarrow> mp_error + base32_acc" where
  "encode_padding 0 a = Inr a"
| "encode_padding (Suc n) a =
     (case buf_store (out_buf a) (out_len a) (of_char (CHR ''='')) of
        Inl e \<Rightarrow> Inl e
      | Inr buf \<Rightarrow> encode_padding n (a\<lparr>out_buf := buf, out_len := out_len a + 1\<rparr>))"

definition base32_encode :: "mp_env \<Rightarrow> mp_obj \<Rightarrow> mp_obj \<Rightarrow> mp_error + bytes" where
  "base32_encode env data_obj add_padding_obj =
     (case mp_get_buffer_raise data_obj of
        Inl e \<Rightarrow> Inl e
      | Inr dat \<Rightarrow>
          let add_padding = mp_obj_is_true add_padding_obj;
              base_encoded_size = (length dat * 8 + 4) div 5;
              max_encoded_size = (if add_padding then ((base_encoded_size + 7) div 8) * 8 else base_encoded_size)
          in (case m_malloc0 env (max_encoded_size + 1) of
                Inl e \<Rightarrow> Inl e
              | Inr None \<Rightarrow> Inl (OSError 12)
              | Inr (Some encoded_buf) \<Rightarrow>
                  (case encode_loop dat \<lparr>buffer = 0, bits_left = 0, out_buf = encoded_buf, out_len = 0\<rparr> of
                     Inl e \<Rightarrow> Inl e
                   | Inr a \<Rightarrow>
                       (case encode_last a of
                          Inl e \<Rightarrow> Inl e
                        | Inr a \<Rightarrow>
                            (case (if add_padding then encode_padding ((8 - out_len a mod 8) mod 8) a else Inr a) of
                               Inl e \<Rightarrow> Inl e
                             | Inr a \<Rightarrow> Inr (take (out_len a) (out_buf a)))))))"

declare decode_drain.simps [simp del] encode_drain.simps [simp del]

end
