(* ===== verification/Bit_Stream.thy ===== *)
theory Bit_Stream
  imports Prelude
begin

text \<open>
  Bit streams: the low bits of a word, most significant first (\<open>nbits\<close>), the bits of a list
  of words (\<open>bits_of\<close>), and the regrouping of a stream into groups of \<open>k\<close> bits, the last
  one filled with zeros (\<open>pack\<close>) or dropped when it is not complete (\<open>unpack\<close>). The
  accumulator lemmas say what shifting a group in and out of a register does to its bits.
\<close>

named_theorems bit_stream \<open>facts on the bits of words and lists of words\<close>

primrec nbits :: "nat \<Rightarrow> 'a::len word \<Rightarrow> bool list" where
  "nbits 0 x = []"
| "nbits (Suc k) x = bit x k # nbits k x"

definition bits_of :: "nat \<Rightarrow> 'a::len word list \<Rightarrow> bool list" where
  "bits_of k xs = concat (map (nbits k) xs)"

definition bits_word :: "bool list \<Rightarrow> 'a::len word" where
  "bits_word bs = foldl (\<lambda>a b. push_bit 1 a OR of_bool b) 0 bs"

definition pack :: "nat \<Rightarrow> bool list \<Rightarrow> 'a::len word list" where
  "pack k bs = map (\<lambda>g. bits_word (g @ replicate (k - length g) False)) (chunks k bs)"

definition unpack :: "nat \<Rightarrow> bool list \<Rightarrow> 'a::len word list" where
  "unpack k bs = map bits_word (filter (\<lambda>g. length g = k) (chunks k bs))"

section \<open>Bits of a word\<close>

lemma length_nbits [simp]: "length (nbits k x) = k"
  by (induction k) auto

lemma nth_nbits: "i < k \<Longrightarrow> nbits k x ! i = bit x (k - 1 - i)"
proof (induction k arbitrary: i)
  case (Suc k)
  then show ?case by (cases i) auto
qed simp

lemma nbits_eqI: "(\<And>i. i < k \<Longrightarrow> bit x i = bit y i) \<Longrightarrow> nbits k x = nbits k y"
  by (induction k) auto

lemma nbits_eqD: "nbits k x = nbits k y \<Longrightarrow> i < k \<Longrightarrow> bit x i = bit y i"
  by (induction k) (auto simp: less_Suc_eq)

lemma nbits_split: "nbits (j + k) x = nbits j (drop_bit k x) @ nbits k x"
  by (induction j) (auto simp: bit_drop_bit_eq add.commute)

lemma bit_ones: "bit (2 ^ k - 1 :: 'a::len word) i \<longleftrightarrow> i < k \<and> i < LENGTH('a)"
  unfolding mask_eq_exp_minus_1 [symmetric] by (auto simp: bit_mask_iff)

lemma nbits_mask [bit_stream]:
  "k \<le> LENGTH('a) \<Longrightarrow> nbits k (x AND (2 ^ k - 1) :: 'a::len word) = nbits k x"
  by (rule nbits_eqI) (auto simp: bit_and_iff bit_ones)

text \<open>A register of which only the low \<open>k\<close> bits are set.\<close>

definition low_bits :: "nat \<Rightarrow> 'a::len word \<Rightarrow> bool" where
  "low_bits k x = (\<forall>i. bit x i \<longrightarrow> i < k)"

lemma low_bits_0 [simp]: "low_bits k 0"
  by (simp add: low_bits_def)

lemma low_bits_mask [simp]: "low_bits k (x AND (2 ^ k - 1))"
  by (auto simp: low_bits_def bit_and_iff bit_ones)

lemma low_bits_shift_in:
  "low_bits k x \<Longrightarrow> low_bits n y \<Longrightarrow> low_bits (k + n) (push_bit n x OR y)"
  by (auto simp: low_bits_def bit_or_iff bit_push_bit_iff)

lemma nbits_shift_in [bit_stream]:
  assumes "low_bits n (y :: 'a::len word)" and "k + n \<le> LENGTH('a)"
  shows "nbits (k + n) (push_bit n x OR y) = nbits k x @ nbits n y"
proof -
  have "nbits k (drop_bit n (push_bit n x OR y)) = nbits k x"
    by (rule nbits_eqI) (use assms in \<open>auto simp: low_bits_def bit_drop_bit_eq bit_or_iff bit_push_bit_iff\<close>)
  moreover have "nbits n (push_bit n x OR y) = nbits n y"
    by (rule nbits_eqI) (auto simp: bit_or_iff bit_push_bit_iff)
  ultimately show ?thesis by (simp add: nbits_split)
qed

lemma nbits_ucast: "k \<le> LENGTH('a) \<Longrightarrow> k \<le> LENGTH('b) \<Longrightarrow> nbits k (ucast (x :: 'a::len word) :: 'b::len word) = nbits k x"
  by (rule nbits_eqI) (simp add: bit_ucast_iff)

lemma low_bits_ucast: "low_bits LENGTH('a) (ucast (x :: 'a::len word) :: 'b::len word)"
  by (auto simp: low_bits_def bit_ucast_iff dest: bit_imp_le_length)

lemma low_bits_ucastI: "low_bits k x \<Longrightarrow> low_bits k (ucast x)"
  by (auto simp: low_bits_def bit_ucast_iff)

lemma low_bits_nbits_eq: "low_bits k x \<Longrightarrow> low_bits k y \<Longrightarrow> nbits k x = nbits k y \<Longrightarrow> x = y"
  by (rule bit_word_eqI) (metis low_bits_def nbits_eqD)

lemma low_bits_less: "low_bits k (x :: 'a::len word) \<longleftrightarrow> uint x < 2 ^ k"
proof -
  have "low_bits k x \<longleftrightarrow> take_bit k x = x"
    unfolding low_bits_def bit_eq_iff bit_take_bit_iff by (auto dest: bit_imp_le_length)
  also have "\<dots> \<longleftrightarrow> take_bit k (uint x) = uint x"
    by (metis unsigned_take_bit_eq word_uint_eqI)
  also have "\<dots> \<longleftrightarrow> uint x < 2 ^ k"
    by (simp add: take_bit_int_eq_self_iff)
  finally show ?thesis .
qed

lemma low_bits_unat: "low_bits k x \<longleftrightarrow> unat x < 2 ^ k"
  unfolding low_bits_less uint_nat by (metis of_nat_less_iff of_nat_numeral of_nat_power)

section \<open>Words of bit lists\<close>

lemma bits_word_snoc: "bits_word (bs @ [b]) = push_bit 1 (bits_word bs) OR of_bool b"
  by (simp add: bits_word_def)

lemma bit_bits_word:
  "bit (bits_word bs :: 'a::len word) i \<longleftrightarrow> i < length bs \<and> i < LENGTH('a) \<and> bs ! (length bs - 1 - i)"
proof (induction bs arbitrary: i rule: rev_induct)
  case Nil
  then show ?case by (simp add: bits_word_def)
next
  case (snoc b bs)
  show ?case
  proof (cases i)
    case 0
    then show ?thesis by (cases b) (simp_all add: bits_word_snoc bit_or_iff bit_0 even_or_iff)
  next
    case (Suc j)
    then show ?thesis
      unfolding bits_word_snoc bit_or_iff bit_push_bit_iff snoc.IH
      by (cases "j < length bs") (auto simp: bit_of_bool_iff nth_append)
  qed
qed

lemma nbits_bits_word: "length bs \<le> LENGTH('a) \<Longrightarrow> nbits (length bs) (bits_word bs :: 'a::len word) = bs"
  by (rule nth_equalityI) (auto simp: nth_nbits bit_bits_word)

lemma low_bits_bits_word [simp]: "low_bits (length bs) (bits_word bs)"
  by (auto simp: low_bits_def bit_bits_word)

lemma bits_word_nbits: "low_bits k x \<Longrightarrow> k \<le> LENGTH('a) \<Longrightarrow> bits_word (nbits k x) = (x :: 'a::len word)"
  by (rule low_bits_nbits_eq [of k])
    (use low_bits_bits_word [of "nbits k x"] nbits_bits_word [of "nbits k x"] in auto)

section \<open>Regrouping\<close>

lemma bits_of_simps [simp]:
  "bits_of k [] = []" "bits_of k (x # xs) = nbits k x @ bits_of k xs" "bits_of k (xs @ ys) = bits_of k xs @ bits_of k ys"
  by (auto simp: bits_of_def)

lemma length_bits_of [simp]: "length (bits_of k xs) = k * length xs"
  by (induction xs) auto

lemma chunks_bits_of:
  assumes "0 < k" and "length r < k"
  shows "chunks k (bits_of k xs @ r) = map (nbits k) xs @ (if r = [] then [] else [r])"
proof (induction xs)
  case Nil
  have "chunks k r = (if r = [] then [] else [r])"
    using assms by (subst chunks.simps) auto
  then show ?case by simp
next
  case (Cons x xs)
  have "chunks k (nbits k x @ (bits_of k xs @ r)) = nbits k x # chunks k (bits_of k xs @ r)"
    using assms by (simp add: chunks_append_block)
  then show ?case using Cons by simp
qed

lemma unpack_bits:
  assumes "0 < k" and "length r < k" and "k \<le> LENGTH('a)" and "\<And>x. x \<in> set xs \<Longrightarrow> low_bits k (x :: 'a::len word)"
  shows "unpack k (bits_of k xs @ r) = xs"
  using assms by (auto simp: unpack_def chunks_bits_of o_def bits_word_nbits intro: map_idI)

lemma pack_bits:
  assumes "0 < k" and "length r < k" and "k \<le> LENGTH('a)" and "\<And>x. x \<in> set xs \<Longrightarrow> low_bits k (x :: 'a::len word)"
  shows "pack k (bits_of k xs @ r) = xs @ (if r = [] then [] else [bits_word (r @ replicate (k - length r) False)])"
proof -
  have "map (\<lambda>g. bits_word (g @ replicate (k - length g) False)) (map (nbits k) xs) = xs"
    by (auto simp: o_def bits_word_nbits assms intro: map_idI)
  then show ?thesis using assms by (auto simp: pack_def chunks_bits_of)
qed

text \<open>Every bit list is a list of complete groups and a shorter rest.\<close>

lemma bits_decomp:
  assumes "0 < k" "k \<le> LENGTH('a::len)"
  obtains xs :: "'a::len word list" and r where "bs = bits_of k xs @ r" "length r < k" "\<forall>x \<in> set xs. low_bits k x"
proof -
  have "\<exists>(xs :: 'a word list) r. bs = bits_of k xs @ r \<and> length r < k \<and> (\<forall>x \<in> set xs. low_bits k x)"
  proof (induction bs rule: length_induct)
    case (1 bs)
    show ?case
    proof (cases "length bs < k")
      case True
      then show ?thesis by (intro exI [of _ "[]"] exI [of _ bs]) simp
    next
      case False
      have "length (drop k bs) < length bs" using False assms by simp
      then obtain xs :: "'a word list" and r
        where xs: "drop k bs = bits_of k xs @ r" "length r < k" "\<forall>x \<in> set xs. low_bits k x"
        using "1" by blast
      let ?x = "bits_word (take k bs) :: 'a word"
      have "length (take k bs) = k" using False by simp
      then have "nbits k ?x = take k bs" "low_bits k ?x"
        using nbits_bits_word [of "take k bs", where 'a = 'a] low_bits_bits_word [of "take k bs", where 'a = 'a] assms by simp_all
      then have "bs = bits_of k (?x # xs) @ r" using append_take_drop_id [of k bs] xs by simp
      then show ?thesis using xs \<open>low_bits k ?x\<close> by (intro exI [of _ "?x # xs"] exI [of _ r]) simp
    qed
  qed
  then show thesis using that by blast
qed

lemma pack_cases:
  assumes "0 < k" "k \<le> LENGTH('a::len)"
  obtains z where "z < k" "bits_of k (pack k bs :: 'a word list) = bs @ replicate z False"
    "\<forall>x \<in> set (pack k bs :: 'a word list). low_bits k x"
proof -
  obtain xs :: "'a word list" and r where xs: "bs = bits_of k xs @ r" "length r < k" "\<forall>x \<in> set xs. low_bits k x"
    using assms by (rule bits_decomp)
  let ?r = "r @ replicate (k - length r) False"
  have last: "nbits k (bits_word ?r :: 'a word) = ?r" "low_bits k (bits_word ?r :: 'a word)"
    using nbits_bits_word [of ?r, where 'a = 'a] low_bits_bits_word [of ?r, where 'a = 'a] xs assms by simp_all
  have pack: "(pack k bs :: 'a word list) = xs @ (if r = [] then [] else [bits_word ?r])"
    unfolding xs(1) by (rule pack_bits) (use xs assms in auto)
  show thesis
  proof (rule that [of "if r = [] then 0 else k - length r"])
    show "bits_of k (pack k bs :: 'a word list) = bs @ replicate (if r = [] then 0 else k - length r) False"
      unfolding pack using last by (simp add: xs(1))
    show "\<forall>x \<in> set (pack k bs :: 'a word list). low_bits k x"
      unfolding pack using last xs by simp
    show "(if r = [] then 0 else k - length r) < k" using assms by (cases r) auto
  qed
qed

theorem unpack_pack:
  assumes "0 < k" "k \<le> n" "n \<le> LENGTH('a::len)" "k \<le> LENGTH('b::len)" and "\<And>x. x \<in> set xs \<Longrightarrow> low_bits n x"
  shows "unpack n (bits_of k (pack k (bits_of n (xs :: 'a word list)) :: 'b word list)) = xs"
proof -
  obtain z where "z < k" "bits_of k (pack k (bits_of n xs) :: 'b word list) = bits_of n xs @ replicate z False"
    using assms(1,4) by (rule pack_cases)
  then show ?thesis using unpack_bits [of n "replicate z False" xs] assms by simp
qed

end
