(* ===== verification/Base32_Correct.thy ===== *)
theory Base32_Correct
  imports Base32 Bit_Stream
begin

text \<open>
  Correctness of the module \<^verbatim>\<open>base32\<close>: encoding is RFC 4648 (the bit stream of the data in
  groups of five, the last one filled with zeros), decoding takes the bit stream of the
  characters in groups of eight and drops an incomplete one, and the buffers allocated up
  front are never overrun.
\<close>

section \<open>Reference\<close>

definition b32_text :: "bytes \<Rightarrow> bytes" where
  "b32_text d = map (\<lambda>x. B32CHARS ! unat (x :: u8)) (pack 5 (bits_of 8 d))"

definition pad_to_8 :: "bytes \<Rightarrow> bytes" where
  "pad_to_8 t = t @ replicate ((8 - length t mod 8) mod 8) pad_char"

definition b32_encode :: "bytes \<Rightarrow> bool \<Rightarrow> bytes" where
  "b32_encode d p = (if p then pad_to_8 (b32_text d) else b32_text d)"

definition b32_bytes :: "bytes \<Rightarrow> bytes" where
  "b32_bytes t = unpack 8 (bits_of 5 (map (\<lambda>c. of_nat (char_pos B32CHARS c) :: u8) t))"

definition b32_decode :: "bytes \<Rightarrow> bytes option" where
  "b32_decode s =
     (let t = strip_pad s in
      if t \<noteq> [] \<and> list_all (\<lambda>c. c \<in> set B32CHARS) t then Some (b32_bytes t) else None)"

section \<open>The accumulator\<close>

text \<open>\<open>acc_ok g k bs w a\<close>: of the stream \<open>bs\<close> the groups \<open>w\<close> of \<open>k\<close> bits have been written
  through \<open>g\<close>, and the accumulator holds the rest.\<close>

definition acc_ok :: "(u8 \<Rightarrow> u8) \<Rightarrow> nat \<Rightarrow> bool list \<Rightarrow> bytes \<Rightarrow> base32_acc \<Rightarrow> bool" where
  "acc_ok g k bs w a =
     (written (map g w) (out_buf a) \<and> out_len a = length w \<and> bits_left a \<le> 32 \<and>
      low_bits (bits_left a) (buffer a) \<and> (\<forall>x \<in> set w. low_bits k x) \<and>
      bits_of k w @ nbits (bits_left a) (buffer a) = bs)"

lemma acc_ok_start: "acc_ok g k [] [] \<lparr>buffer = 0, bits_left = 0, out_buf = buf, out_len = 0\<rparr>"
  by (simp add: acc_ok_def)

lemma acc_ok_length: "acc_ok g k bs w a \<Longrightarrow> length bs = k * length w + bits_left a"
  by (auto simp: acc_ok_def)

lemma acc_ok_shift_in:
  assumes "acc_ok g k bs w a" and "low_bits n x" and "bits_left a + n \<le> 32"
  shows "acc_ok g k (bs @ nbits n x) w (a\<lparr>buffer := push_bit n (buffer a) OR x, bits_left := bits_left a + n\<rparr>)"
  using assms by (auto simp: acc_ok_def nbits_shift_in low_bits_shift_in)

lemma acc_ok_emit:
  assumes ok: "acc_ok g k bs w a" and k: "0 < k" "k \<le> 8" "k \<le> bits_left a" and room: "length bs div k \<le> length (out_buf a)"
    and v: "v = ucast (drop_bit (bits_left a - k) (buffer a) AND (2 ^ k - 1))"
  shows "\<exists>buf. buf_store (out_buf a) (out_len a) (g v) = Inr buf \<and> length buf = length (out_buf a) \<and>
    acc_ok g k bs (w @ [v])
      \<lparr>buffer = buffer a AND (2 ^ (bits_left a - k) - 1), bits_left = bits_left a - k, out_buf = buf, out_len = out_len a + 1\<rparr>"
proof -
  let ?m = "bits_left a - k" and ?x = "drop_bit (bits_left a - k) (buffer a)"
  have le: "bits_left a \<le> 32" using ok by (simp add: acc_ok_def)
  have "k * (length w + 1) \<le> length bs" using acc_ok_length [OF ok] k by simp
  then have "length w + 1 \<le> length bs div k" using k by (simp add: less_eq_div_iff_mult_less_eq mult.commute)
  then have "length (map g w) < length (out_buf a)" using room by simp
  then obtain buf where buf: "buf_store (out_buf a) (out_len a) (g v) = Inr buf" "written (map g (w @ [v])) buf" "length buf = length (out_buf a)"
    using buf_store_written [of "map g w" "out_buf a" "g v"] ok by (auto simp: acc_ok_def)
  have "nbits k v = nbits k ?x"
    unfolding v using k by (simp add: nbits_ucast nbits_mask)
  then have "nbits (bits_left a) (buffer a) = nbits k v @ nbits ?m (buffer a)"
    using nbits_split [of k ?m "buffer a"] k by simp
  moreover have "low_bits k v" unfolding v by (rule low_bits_ucastI) simp
  ultimately show ?thesis
    using ok le buf by (auto simp: acc_ok_def nbits_mask)
qed

section \<open>Decoding\<close>

lemma decode_drain_ok:
  assumes "acc_ok (\<lambda>x. x) 8 bs w a" and "length bs div 8 \<le> length (out_buf a)"
  shows "\<exists>a' w'. decode_drain a = Inr a' \<and> acc_ok (\<lambda>x. x) 8 bs w' a' \<and> bits_left a' < 8 \<and> length (out_buf a') = length (out_buf a)"
  using assms
proof (induction a arbitrary: w rule: decode_drain.induct)
  case (1 a)
  show ?case
  proof (cases "8 \<le> bits_left a")
    case True
    define v where "v = (ucast (drop_bit (bits_left a - 8) (buffer a) AND (2 ^ 8 - 1)) :: u8)"
    from acc_ok_emit [OF 1(2) _ _ True 1(3) v_def] obtain buf
      where buf: "buf_store (out_buf a) (out_len a) v = Inr buf" "length buf = length (out_buf a)"
        and ok: "acc_ok (\<lambda>x. x) 8 bs (w @ [v]) \<lparr>buffer = buffer a AND (2 ^ (bits_left a - 8) - 1), bits_left = bits_left a - 8, out_buf = buf, out_len = out_len a + 1\<rparr>"
      by auto
    have "ucast (drop_bit (bits_left a - 8) (buffer a) AND 0xFF) = v" by (simp add: v_def)
    then show ?thesis
      using 1(1) [OF True refl, of buf "w @ [v]"] ok buf 1(3) True
      by (subst decode_drain.simps) (simp add: Let_def)
  next
    case False
    then show ?thesis using 1 by (subst decode_drain.simps) auto
  qed
qed

lemma acc_ok_room:
  assumes "acc_ok g k bs w a" and "acc_ok g k bs w' a'"
  shows "k * length w + bits_left a = k * length w' + bits_left a'"
  using acc_ok_length [OF assms(1)] acc_ok_length [OF assms(2)] by simp

lemma decode_loop_ok:
  assumes "acc_ok (\<lambda>x. x) 8 bs w a" and "bits_left a < 8" and "(length bs + 5 * length cs) div 8 \<le> length (out_buf a)"
    and table: "\<And>c :: u8. table ! unat c \<noteq> - 1 \<Longrightarrow> low_bits 5 (table ! unat c)"
  shows "if \<forall>c \<in> set cs. table ! unat c \<noteq> - 1
    then \<exists>a' w'. decode_loop table cs a = Inr a' \<and> acc_ok (\<lambda>x. x) 8 (bs @ bits_of 5 (map (\<lambda>c. table ! unat c) cs)) w' a' \<and> bits_left a' < 8
    else decode_loop table cs a = Inl (ValueError ''Invalid Base32 character'')"
  using assms(1-3)
proof (induction cs arbitrary: bs w a)
  case (Cons c cs)
  let ?x = "table ! unat c"
  show ?case
  proof (cases "?x = - 1")
    case False
    let ?bs = "bs @ nbits 5 ?x"
    let ?a = "a\<lparr>buffer := push_bit 5 (buffer a) OR ucast ?x, bits_left := bits_left a + 5\<rparr>"
    have "low_bits 5 (ucast ?x :: u32)" using table [OF False] by (rule low_bits_ucastI)
    then have ok: "acc_ok (\<lambda>x. x) 8 ?bs w ?a"
      using acc_ok_shift_in [OF Cons.prems(1), of 5 "ucast ?x"] Cons.prems(2) by (simp add: nbits_ucast)
    have room: "(length ?bs + 5 * length cs) div 8 \<le> length (out_buf a)" using Cons.prems(3) by (simp add: add.assoc)
    moreover have "length ?bs div 8 \<le> (length ?bs + 5 * length cs) div 8" by (rule div_le_mono) simp
    ultimately have "length ?bs div 8 \<le> length (out_buf ?a)" by simp
    then obtain a' w' where a': "decode_drain ?a = Inr a'" "acc_ok (\<lambda>x. x) 8 ?bs w' a'" "bits_left a' < 8" "length (out_buf a') = length (out_buf a)"
      using decode_drain_ok [OF ok] by auto
    from Cons.IH [OF a'(2,3)] show ?thesis using room a'(1,4) False by (auto simp: Let_def split: if_splits)
  qed simp
qed auto

text \<open>The static table: once initialised it is the index of the alphabet.\<close>

definition static_ok :: "base32_static \<Rightarrow> bool" where
  "static_ok st = (initialized st \<longrightarrow> base32_index st = fill_index B32CHARS 32)"

lemma static_ok_load: "static_ok base32_load"
  by (simp add: static_ok_def base32_load_def)

lemma length_B32CHARS: "length B32CHARS = 32"
  by (simp add: B32CHARS_def)

lemma distinct_B32CHARS: "distinct B32CHARS"
  unfolding B32CHARS_def by code_simp

lemma pad_not_B32: "pad_char \<notin> set B32CHARS"
  unfolding B32CHARS_def pad_char_def by code_simp

lemma table_B32: "fill_index B32CHARS 32 ! unat c = (if c \<in> set B32CHARS then of_nat (char_pos B32CHARS c) else - 1)"
  using fill_index_alphabet [OF distinct_B32CHARS, of c] by (simp only: length_B32CHARS)

lemma low_pos_B32: "c \<in> set B32CHARS \<Longrightarrow> low_bits 5 (of_nat (char_pos B32CHARS c) :: u8)"
proof -
  assume "c \<in> set B32CHARS"
  then have "char_pos B32CHARS c < 32" using char_pos_less length_B32CHARS by metis
  then show ?thesis unfolding low_bits_less by (simp add: unsigned_of_nat take_bit_nat_eq_self)
qed

lemma acc_ok_unpack:
  assumes "acc_ok (\<lambda>x. x) 8 bs w a" and "bits_left a < 8"
  shows "take (out_len a) (out_buf a) = unpack 8 bs"
proof -
  have "bs = bits_of 8 w @ nbits (bits_left a) (buffer a)" "take (out_len a) (out_buf a) = w" "\<forall>x \<in> set w. low_bits 8 x"
    using assms(1) written_take [of w "out_buf a"] by (simp_all add: acc_ok_def)
  then show ?thesis using unpack_bits [of 8 "nbits (bits_left a) (buffer a)" w] assms(2) by simp
qed

definition base32_decode_ref :: "mp_env \<Rightarrow> mp_obj \<Rightarrow> mp_error + bytes" where
  "base32_decode_ref env s =
     (case s of
        Mp_buffer s \<Rightarrow>
          if strip_pad s = [] then Inl (OSError 12)
          else if heap_limit env < (5 * length (strip_pad s) + 7) div 8 then Inl MemoryError
          else (case b32_decode s of Some d \<Rightarrow> Inr d | None \<Rightarrow> Inl (ValueError ''Invalid Base32 character''))
      | _ \<Rightarrow> Inl TypeError)"

lemma decode_all:
  assumes "length buf = (5 * length t + 7) div 8" and "t \<noteq> []" and "strip_pad s = t"
  shows "(case decode_loop (fill_index B32CHARS 32) t \<lparr>buffer = 0, bits_left = 0, out_buf = buf, out_len = 0\<rparr> of
       Inl e \<Rightarrow> Inl e | Inr a \<Rightarrow> Inr (take (out_len a) (out_buf a))) =
    (case b32_decode s of Some d \<Rightarrow> Inr d | None \<Rightarrow> Inl (ValueError ''Invalid Base32 character''))"
proof -
  let ?T = "fill_index B32CHARS 32" and ?a = "\<lparr>buffer = 0, bits_left = 0, out_buf = buf, out_len = 0\<rparr>"
  have low: "?T ! unat c \<noteq> - 1 \<longleftrightarrow> c \<in> set B32CHARS" for c :: u8
  proof (cases "c \<in> set B32CHARS")
    case True
    have "low_bits 5 (of_nat (char_pos B32CHARS c) :: u8)" by (rule low_pos_B32 [OF True])
    moreover have "\<not> low_bits 5 (- 1 :: u8)" by (auto simp: low_bits_def intro!: exI [of _ 7])
    ultimately show ?thesis using True by (auto simp: table_B32)
  qed (simp add: table_B32)
  have "(length ([] :: bool list) + 5 * length t) div 8 \<le> length (out_buf ?a)" by (simp add: assms(1) div_le_mono)
  moreover have "low_bits 5 (?T ! unat c)" if "?T ! unat c \<noteq> - 1" for c :: u8
    using that low_pos_B32 unfolding low by (simp add: table_B32)
  ultimately have loop: "if \<forall>c \<in> set t. ?T ! unat c \<noteq> - 1
    then \<exists>a' w'. decode_loop ?T t ?a = Inr a' \<and> acc_ok (\<lambda>x. x) 8 ([] @ bits_of 5 (map (\<lambda>c. ?T ! unat c) t)) w' a' \<and> bits_left a' < 8
    else decode_loop ?T t ?a = Inl (ValueError ''Invalid Base32 character'')"
    by (intro decode_loop_ok [OF acc_ok_start]) simp_all
  show ?thesis
  proof (cases "\<forall>c \<in> set t. c \<in> set B32CHARS")
    case True
    then have vals: "map (\<lambda>c. ?T ! unat c) t = map (\<lambda>c. of_nat (char_pos B32CHARS c)) t" by (simp add: table_B32)
    from loop obtain a' w' where "decode_loop ?T t ?a = Inr a'" "bits_left a' < 8"
      "acc_ok (\<lambda>x. x) 8 (bits_of 5 (map (\<lambda>c. of_nat (char_pos B32CHARS c) :: u8) t)) w' a'"
      unfolding low vals using True by auto
    then show ?thesis
      using True assms acc_ok_unpack by (auto simp: b32_decode_def b32_bytes_def list_all_iff)
  next
    case False
    then show ?thesis using loop assms by (auto simp: low b32_decode_def list_all_iff Let_def)
  qed
qed

lemma base32_decode_eq:
  assumes "static_ok st"
  shows "fst (base32_decode env st s) = base32_decode_ref env s" and "static_ok (snd (base32_decode env st s))"
proof -
  let ?st = "if \<not> initialized st then (init_base32_index st)\<lparr>initialized := True\<rparr> else st"
  have st: "static_ok ?st" "base32_index ?st = fill_index B32CHARS 32"
    using assms by (auto simp: static_ok_def init_base32_index_def fill_index_def)
  show "static_ok (snd (base32_decode env st s))"
    using st assms by (cases "initialized st") (auto simp: base32_decode_def Let_def split: sum.splits option.splits)
  show "fst (base32_decode env st s) = base32_decode_ref env s"
  proof (cases s)
    case (Mp_buffer t)
    let ?N = "(5 * length (strip_pad t) + 7) div 8"
    let ?run = "\<lambda>buf. case decode_loop (fill_index B32CHARS 32) (strip_pad t) \<lparr>buffer = 0, bits_left = 0, out_buf = buf, out_len = 0\<rparr> of
      Inl e \<Rightarrow> Inl e | Inr a \<Rightarrow> Inr (take (out_len a) (out_buf a))"
    have body: "fst (base32_decode env st s) =
        (case m_malloc0 env ?N of Inl e \<Rightarrow> Inl e | Inr None \<Rightarrow> Inl (OSError 12) | Inr (Some buf) \<Rightarrow> ?run buf)"
      using st Mp_buffer strip_padding_take [of t]
      by (cases "initialized st")
        (auto simp: base32_decode_def mp_obj_str_get_data_def Let_def mult.commute split: sum.splits option.splits)
    show ?thesis
    proof (cases "strip_pad t = []")
      case True
      then show ?thesis using body Mp_buffer by (simp add: base32_decode_ref_def m_malloc0_def m_malloc_def)
    next
      case False
      then have "?N \<noteq> 0" by (cases "strip_pad t") simp_all
      then show ?thesis
        using body False Mp_buffer decode_all [of "replicate ?N 0" "strip_pad t" t]
        by (simp add: base32_decode_ref_def m_malloc0_def m_malloc_def)
    qed
  qed (simp_all add: base32_decode_def base32_decode_ref_def mp_obj_str_get_data_def)
qed

section \<open>Encoding\<close>

abbreviation b32_char :: "u8 \<Rightarrow> u8" where
  "b32_char x \<equiv> B32CHARS ! unat x"

lemma mask_take_bit: "x AND BASE32_MASK = take_bit 5 x"
  by (simp add: BASE32_MASK_def take_bit_eq_mask mask_eq_exp_minus_1)

lemma masked_index: "unat (ucast (x AND BASE32_MASK) :: u8) = unat (x AND BASE32_MASK :: u32)"
proof -
  note mask_take_bit [of x]
  then have "unat (x AND BASE32_MASK) < 2 ^ 5" using take_bit_nat_less_exp [of 5 "unat x"] by (simp add: unsigned_take_bit_eq)
  then show ?thesis by (simp add: unsigned_ucast_eq take_bit_nat_eq_self)
qed

lemma encode_drain_ok:
  assumes "acc_ok b32_char 5 bs w a" and "length bs div 5 \<le> length (out_buf a)"
  shows "\<exists>a' w'. encode_drain a = Inr a' \<and> acc_ok b32_char 5 bs w' a' \<and> bits_left a' < 5 \<and> length (out_buf a') = length (out_buf a)"
  using assms
proof (induction a arbitrary: w rule: encode_drain.induct)
  case (1 a)
  show ?case
  proof (cases "5 \<le> bits_left a")
    case True
    let ?i = "drop_bit (bits_left a - 5) (buffer a) AND BASE32_MASK"
    define v where "v = (ucast (drop_bit (bits_left a - 5) (buffer a) AND (2 ^ 5 - 1)) :: u8)"
    from acc_ok_emit [OF 1(2) _ _ True 1(3) v_def] obtain buf
      where buf: "buf_store (out_buf a) (out_len a) (b32_char v) = Inr buf" "length buf = length (out_buf a)"
        and ok: "acc_ok b32_char 5 bs (w @ [v]) \<lparr>buffer = buffer a AND (2 ^ (bits_left a - 5) - 1), bits_left = bits_left a - 5, out_buf = buf, out_len = out_len a + 1\<rparr>"
      by auto
    have "v = ucast ?i" by (simp add: v_def BASE32_MASK_def)
    then have v: "unat v = unat ?i" by (simp only: masked_index)
    show ?thesis
      using 1(1) [OF True refl refl, of buf "w @ [v]"] ok buf 1(3) True
      by (subst encode_drain.simps) (simp add: Let_def v)
  next
    case False
    then show ?thesis using 1 by (subst encode_drain.simps) auto
  qed
qed

lemma encode_loop_ok:
  assumes "acc_ok b32_char 5 bs w a" and "bits_left a < 5" and "(length bs + 8 * length ds) div 5 \<le> length (out_buf a)"
  shows "\<exists>a' w'. encode_loop ds a = Inr a' \<and> acc_ok b32_char 5 (bs @ bits_of 8 ds) w' a' \<and> bits_left a' < 5 \<and>
    length (out_buf a') = length (out_buf a)"
  using assms
proof (induction ds arbitrary: bs w a)
  case (Cons d ds)
  let ?bs = "bs @ nbits 8 d"
  let ?a = "a\<lparr>buffer := push_bit 8 (buffer a) OR ucast d, bits_left := bits_left a + 8\<rparr>"
  have "low_bits 8 (ucast d :: u32)" using low_bits_ucast [of d, where 'b = 32] by simp
  then have ok: "acc_ok b32_char 5 ?bs w ?a"
    using acc_ok_shift_in [OF Cons.prems(1), of 8 "ucast d"] Cons.prems(2) by (simp add: nbits_ucast)
  have room: "(length ?bs + 8 * length ds) div 5 \<le> length (out_buf a)" using Cons.prems(3) by (simp add: add.assoc)
  moreover have "length ?bs div 5 \<le> (length ?bs + 8 * length ds) div 5" by (rule div_le_mono) simp
  ultimately have "length ?bs div 5 \<le> length (out_buf ?a)" by simp
  then obtain a' w' where a': "encode_drain ?a = Inr a'" "acc_ok b32_char 5 ?bs w' a'" "bits_left a' < 5" "length (out_buf a') = length (out_buf a)"
    using encode_drain_ok [OF ok] by auto
  from Cons.IH [OF a'(2,3)] room a'(4)
  obtain a'' w'' where "encode_loop ds a' = Inr a''" "acc_ok b32_char 5 (?bs @ bits_of 8 ds) w'' a''" "bits_left a'' < 5"
    "length (out_buf a'') = length (out_buf a')" by auto
  then show ?case using a' by auto
qed auto

text \<open>After the last group the output is the reference text.\<close>

lemma encode_last_ok:
  assumes ok: "acc_ok b32_char 5 (bits_of 8 d) w a" and "bits_left a < 5" and room: "(8 * length d + 4) div 5 \<le> length (out_buf a)"
  shows "\<exists>a'. encode_last a = Inr a' \<and> written (b32_text d) (out_buf a') \<and> out_len a' = length (b32_text d) \<and>
    length (out_buf a') = length (out_buf a)"
proof -
  let ?r = "nbits (bits_left a) (buffer a)"
  have bs: "bits_of 8 d = bits_of 5 w @ ?r" "length ?r < 5" "\<forall>x \<in> set w. low_bits 5 x" "low_bits (bits_left a) (buffer a)"
    and wr: "written (map b32_char w) (out_buf a)" and len: "out_len a = length w"
    using ok assms(2) by (auto simp: acc_ok_def)
  have ref: "b32_text d = map b32_char (w @ (if ?r = [] then [] else [bits_word (?r @ replicate (5 - length ?r) False)]))"
    unfolding b32_text_def bs(1) by (subst pack_bits) (use bs in simp_all)
  show ?thesis
  proof (cases "bits_left a = 0")
    case True
    then show ?thesis using ref wr len by (simp add: encode_last_def)
  next
    case False
    let ?n = "5 - bits_left a"
    let ?b = "push_bit ?n (buffer a)"
    let ?v = "bits_word (?r @ replicate ?n False) :: u8"
    have "low_bits 5 ?b" using bs(4) assms(2) low_bits_shift_in [of "bits_left a" "buffer a" ?n 0] by simp
    then have low: "low_bits 5 (ucast (?b AND BASE32_MASK) :: u8)"
      by (intro low_bits_ucastI) (auto simp: low_bits_def bit_and_iff)
    have b: "?b AND BASE32_MASK = ?b"
      using \<open>low_bits 5 ?b\<close> unfolding mask_take_bit by (intro bit_word_eqI) (auto simp: low_bits_def bit_take_bit_iff)
    have "nbits 5 (ucast ?b :: u8) = ?r @ replicate ?n False"
    proof -
      have "nbits n (0 :: u32) = replicate n False" for n by (induction n) simp_all
      then show ?thesis using nbits_shift_in [of ?n "0 :: u32" "bits_left a" "buffer a"] assms(2) by (simp add: nbits_ucast)
    qed
    then have "ucast ?b = ?v" using bits_word_nbits [OF low] by (simp add: b)
    then have v: "unat ?v = unat (?b AND BASE32_MASK)" by (metis b masked_index)
    have "5 * length w + bits_left a = 8 * length d" using arg_cong [OF bs(1), of length] by simp
    then have "length w < (8 * length d + 4) div 5" using False by simp
    then have "length (map b32_char w) < length (out_buf a)" using room by simp
    then obtain buf where "buf_store (out_buf a) (length w) (b32_char ?v) = Inr buf" "written (map b32_char w @ [b32_char ?v]) buf"
      "length buf = length (out_buf a)" using buf_store_written [OF wr, of "b32_char ?v"] by auto
    moreover have "?r \<noteq> []" using False by (cases "bits_left a") simp_all
    ultimately show ?thesis using False len by (simp add: encode_last_def Let_def ref v)
  qed
qed

lemma encode_padding_ok:
  assumes "written w (out_buf a)" and "out_len a = length w" and "length w + n \<le> length (out_buf a)"
  shows "\<exists>a'. encode_padding n a = Inr a' \<and> written (w @ replicate n pad_char) (out_buf a') \<and> out_len a' = length w + n"
  using assms
proof (induction n arbitrary: w a)
  case (Suc n)
  then obtain buf where buf: "buf_store (out_buf a) (length w) pad_char = Inr buf" "written (w @ [pad_char]) buf" "length buf = length (out_buf a)"
    using buf_store_written [of w "out_buf a" pad_char] by auto
  let ?a = "a\<lparr>out_buf := buf, out_len := out_len a + 1\<rparr>"
  obtain a' where "encode_padding n ?a = Inr a'" "written ((w @ [pad_char]) @ replicate n pad_char) (out_buf a')" "out_len a' = length w + 1 + n"
    using Suc.IH [of "w @ [pad_char]" ?a] buf Suc.prems by auto
  then show ?case using buf Suc.prems by (simp add: pad_char_def)
qed simp

lemma length_b32_text: "length (b32_text d) = (8 * length d + 4) div 5"
proof -
  obtain z where z: "z < 5" "bits_of 5 (pack 5 (bits_of 8 d) :: bytes) = bits_of 8 d @ replicate z False"
    using pack_cases [of 5 "bits_of 8 d", where 'a = 8] by auto
  have "5 * length (b32_text d) = 8 * length d + z" using arg_cong [OF z(2), of length] by (simp add: b32_text_def)
  then show ?thesis using z(1) by simp
qed

lemma pad_room: "x + (8 - x mod 8) mod 8 = (x + 7) div 8 * (8 :: nat)"
proof -
  obtain q r where x: "x = r + 8 * q" "r < 8" by (metis add.commute mod_less_divisor mult_div_mod_eq zero_less_numeral)
  then have "r = 0 \<or> r = 1 \<or> r = 2 \<or> r = 3 \<or> r = 4 \<or> r = 5 \<or> r = 6 \<or> r = 7" by arith
  moreover have "(r + 8 * q) mod 8 = r" using x(2) by simp
  moreover have "(r + 8 * q + 7) div 8 = q + (r + 7) div 8"
    using div_mult_self2 [of 8 "r + 7" q] by (simp add: add_ac)
  ultimately show ?thesis unfolding x(1) by (elim disjE) simp_all
qed

definition base32_encode_ref :: "mp_env \<Rightarrow> mp_obj \<Rightarrow> mp_obj \<Rightarrow> mp_error + bytes" where
  "base32_encode_ref env d p =
     (case d of
        Mp_buffer d \<Rightarrow>
          let t = b32_encode d (mp_obj_is_true p) in
          if heap_limit env < length t + 1 then Inl MemoryError else Inr t
      | _ \<Rightarrow> Inl TypeError)"

lemma length_b32_encode:
  "length (b32_encode d p) = (if p then ((8 * length d + 4) div 5 + 7) div 8 * 8 else (8 * length d + 4) div 5)"
  using pad_room [of "(8 * length d + 4) div 5"] by (simp add: b32_encode_def pad_to_8_def length_b32_text)

lemma base32_encode_eq: "base32_encode env d p = base32_encode_ref env d p"
proof (cases d)
  case (Mp_buffer d')
  let ?p = "mp_obj_is_true p"
  let ?max = "length (b32_encode d' ?p)"
  let ?buf = "replicate (?max + 1) 0 :: bytes"
  have max: "(if ?p then (((length d' * 8 + 4) div 5 + 7) div 8) * 8 else (length d' * 8 + 4) div 5) = ?max"
    by (simp add: length_b32_encode mult.commute)
  have base: "(8 * length d' + 4) div 5 \<le> ?max"
    using pad_room [of "(8 * length d' + 4) div 5"] by (simp add: length_b32_encode)
  moreover have "8 * length d' div 5 \<le> (8 * length d' + 4) div 5" by (rule div_le_mono) simp
  ultimately obtain a w where a: "encode_loop d' \<lparr>buffer = 0, bits_left = 0, out_buf = ?buf, out_len = 0\<rparr> = Inr a"
    "acc_ok b32_char 5 (bits_of 8 d') w a" "bits_left a < 5" "length (out_buf a) = ?max + 1"
    using encode_loop_ok [OF acc_ok_start [of _ _ ?buf], where ds = d'] by auto
  obtain a1 where a1: "encode_last a = Inr a1" "written (b32_text d') (out_buf a1)" "out_len a1 = length (b32_text d')" "length (out_buf a1) = ?max + 1"
    using encode_last_ok [OF a(2,3)] a(4) base by auto
  have "\<exists>a2. (if ?p then encode_padding ((8 - out_len a1 mod 8) mod 8) a1 else Inr a1) = Inr a2 \<and>
      written (b32_encode d' ?p) (out_buf a2) \<and> out_len a2 = ?max"
    using a1 encode_padding_ok [OF a1(2,3), of "(8 - out_len a1 mod 8) mod 8"]
    by (auto simp: b32_encode_def pad_to_8_def)
  then show ?thesis
    using Mp_buffer max a(1) a1(1) written_take [of "b32_encode d' ?p"]
    by (auto simp: base32_encode_def base32_encode_ref_def mp_get_buffer_raise_def m_malloc0_def m_malloc_def Let_def)
qed (simp_all add: base32_encode_def base32_encode_ref_def mp_get_buffer_raise_def)

section \<open>Round trip\<close>

lemma char_pos_b32_char: "low_bits 5 x \<Longrightarrow> of_nat (char_pos B32CHARS (b32_char x)) = x"
proof -
  assume "low_bits 5 x"
  then have "unat x < 32" unfolding low_bits_unat by simp
  then show ?thesis by (simp add: char_pos_nth distinct_B32CHARS length_B32CHARS)
qed

lemma b32_text_alphabet: "c \<in> set (b32_text d) \<Longrightarrow> c \<in> set B32CHARS"
proof -
  assume "c \<in> set (b32_text d)"
  then obtain x where x: "x \<in> set (pack 5 (bits_of 8 d))" "c = b32_char x" by (auto simp: b32_text_def)
  then have "low_bits 5 x" using pack_cases [of 5 "bits_of 8 d", where 'a = 8] by auto
  then have "unat x < 32" unfolding low_bits_unat by simp
  then show ?thesis using x(2) by (simp add: length_B32CHARS)
qed

lemma b32_bytes_text: "b32_bytes (b32_text d) = d"
proof -
  have "map (\<lambda>c. of_nat (char_pos B32CHARS c)) (b32_text d) = (pack 5 (bits_of 8 d) :: bytes)"
    unfolding b32_text_def map_map o_def
    by (rule map_idI) (use pack_cases [of 5 "bits_of 8 d", where 'a = 8] char_pos_b32_char in auto)
  moreover have "low_bits 8 (x :: u8)" for x by (auto simp: low_bits_def dest: bit_imp_le_length)
  ultimately show ?thesis unfolding b32_bytes_def by (simp add: unpack_pack)
qed

lemma strip_b32_encode: "strip_pad (b32_encode d p) = b32_text d"
proof -
  have "strip_pad (b32_text d) = b32_text d" using b32_text_alphabet pad_not_B32 by (intro strip_pad_id) blast
  then show ?thesis by (simp add: b32_encode_def pad_to_8_def strip_pad_append)
qed

lemma b32_text_empty: "b32_text d = [] \<longleftrightarrow> d = []"
proof -
  have "b32_text d = [] \<longleftrightarrow> (8 * length d + 4) div 5 = 0" by (metis length_0_conv length_b32_text)
  then show ?thesis by (cases d) simp_all
qed

interpretation b32: text_codec b32_encode b32_decode "\<lambda>d. d"
  by unfold_locales
    (simp_all add: b32_decode_def strip_b32_encode b32_bytes_text b32_text_empty list_all_iff b32_text_alphabet)

section \<open>Properties\<close>

lemma static_ok_history: "static_ok (foldl (\<lambda>st x. snd (base32_decode env st x)) base32_load hist)"
  by (induction hist rule: rev_induct) (simp_all add: static_ok_load base32_decode_eq)

text \<open>C15: Whatever calls went before, \<^verbatim>\<open>base32.decode\<close> gives the bytes of the bit stream of its
  characters, or the error the reference says (the static index table included); and
  \<^verbatim>\<open>base32.encode\<close> gives the RFC 4648 text of the data, with and without padding, or raises
  for lack of memory. Neither ever writes outside the block it allocated.\<close>

theorem base32_refines:
  "fst (base32_decode env (foldl (\<lambda>st x. snd (base32_decode env st x)) base32_load hist) s) = base32_decode_ref env s \<and>
   base32_encode env d p = base32_encode_ref env d p \<and>
   base32_decode_ref env s \<noteq> Inl Heap_overrun \<and> base32_encode_ref env d p \<noteq> Inl Heap_overrun"
  by (simp add: base32_decode_eq static_ok_history base32_encode_eq)
    (simp add: base32_decode_ref_def base32_encode_ref_def Let_def split: mp_obj.split option.split)

text \<open>C29: Data survives a round trip through the module, padded or not and whatever was decoded
  before, as soon as memory is there for the encoded text and its final zero byte, with one
  exception: empty data is encoded as the empty text, which \<^verbatim>\<open>base32.decode\<close> refuses with
  \<^verbatim>\<open>OSError(12)\<close>.\<close>

theorem base32_roundtrip:
  assumes "((8 * length d + 4) div 5 + 7) div 8 * 8 + 1 \<le> heap_limit env"
  shows "\<exists>t. base32_encode env (Mp_buffer d) p = Inr t \<and>
    fst (base32_decode env (foldl (\<lambda>st x. snd (base32_decode env st x)) base32_load hist) (Mp_buffer t)) =
      (if d = [] then Inl (OSError 12) else Inr d)"
proof -
  let ?t = "b32_encode d (mp_obj_is_true p)"
  have "length ?t \<le> ((8 * length d + 4) div 5 + 7) div 8 * 8"
    using pad_room [of "(8 * length d + 4) div 5"] by (simp add: length_b32_encode)
  then have enc: "base32_encode env (Mp_buffer d) p = Inr ?t"
    using assms by (simp add: base32_encode_eq base32_encode_ref_def)
  have dec: "b32_decode ?t = Some d" if "d \<noteq> []" by (rule b32.decode_encode [OF that])
  have "(5 * n + 7) div 8 \<le> n + 1" for n :: nat by linarith
  from this [of "(8 * length d + 4) div 5"] have "(5 * length (strip_pad ?t) + 7) div 8 \<le> heap_limit env"
    using assms pad_room [of "(8 * length d + 4) div 5"] by (simp add: strip_b32_encode length_b32_text)
  moreover have "strip_pad ?t = [] \<longleftrightarrow> d = []" by (simp add: strip_b32_encode b32_text_empty)
  ultimately show ?thesis using enc dec
    by (simp add: base32_decode_eq static_ok_history base32_decode_ref_def)
qed

theorem base32_roundtrip_witness:
  "(\<exists>t. base32_encode ample_env (Mp_buffer [0x61]) (Mp_int 1) = Inr t \<and>
    fst (base32_decode ample_env (foldl (\<lambda>st x. snd (base32_decode ample_env st x)) base32_load [Mp_none]) (Mp_buffer t)) = Inr [0x61]) \<and>
   (\<exists>t. base32_encode ample_env (Mp_buffer []) (Mp_int 1) = Inr t \<and>
    fst (base32_decode ample_env (foldl (\<lambda>st x. snd (base32_decode ample_env st x)) base32_load []) (Mp_buffer t)) = Inl (OSError 12))"
  using base32_roundtrip [of "[0x61]" ample_env "Mp_int 1" "[Mp_none]"] base32_roundtrip [of "[]" ample_env "Mp_int 1" "[]"]
  by (simp add: ample_env_def)

end
