(* ===== verification/Base43.thy ===== *)
theory Base43
  imports Text_Codec
begin

text \<open>
  \<^verbatim>\<open>base43/base43.c\<close>: the MicroPython module \<^verbatim>\<open>base43\<close>. Numbers are byte arrays, most
  significant byte first, in an allocated block of which the first \<open>blen\<close> bytes count; encoding
  divides by 43 in place, decoding multiplies by 43 and adds, growing the block. Blocks the
  code frees are not followed further.
\<close>

section \<open>The static index\<close>

definition B43CHARS :: bytes where
  "B43CHARS = map of_char ''0123456789ABCDEFGHIJKLMNOPQRSTUVWXYZ$*+-./:''"

record base43_static =
  base43_index :: "8 word list"
  base43_index_initialized :: bool

definition base43_load :: base43_static where
  "base43_load = \<lparr>base43_index = replicate 256 0, base43_index_initialized = False\<rparr>"

definition init_base43_index :: "base43_static \<Rightarrow> base43_static" where
  "init_base43_index st =
     (if base43_index_initialized st then st
      else st\<lparr>base43_index := foldl (\<lambda>t i. t[unat (B43CHARS ! i) := of_nat i]) (replicate 256 (- 1)) [0..<43],
              base43_index_initialized := True\<rparr>)"

section \<open>Big integers\<close>

record BigInt =
  digits :: bytes
  blen :: nat

text \<open>A null block here would be a write through a null pointer; it never is one, since no block
  of no bytes is asked for.\<close>

definition bigint_from_bytes :: "mp_env \<Rightarrow> bytes \<Rightarrow> mp_error + BigInt" where
  "bigint_from_bytes env bs =
     (if bs = [] then
        (case m_malloc env 1 of
           Inl e \<Rightarrow> Inl e
         | Inr None \<Rightarrow> Inl Heap_overrun
         | Inr (Some p) \<Rightarrow> Inr \<lparr>digits = p[0 := 0], blen = 1\<rparr>)
      else
        (case m_malloc env (length bs) of
           Inl e \<Rightarrow> Inl e
         | Inr None \<Rightarrow> Inl Heap_overrun
         | Inr (Some p) \<Rightarrow> Inr \<lparr>digits = memcpy_at p 0 bs, blen = length bs\<rparr>))"

fun multiply_loop :: "u8 \<Rightarrow> nat \<Rightarrow> bytes \<Rightarrow> u32 \<Rightarrow> bytes \<times> u32" where
  "multiply_loop multiplier 0 ds carry = (ds, carry)"
| "multiply_loop multiplier (Suc idx) ds carry =
     (let carry = carry + ucast (ds ! idx) * ucast multiplier
      in multiply_loop multiplier idx (ds[idx := ucast (carry AND 0xFF)]) (drop_bit 8 carry))"

definition bigint_multiply_add :: "mp_env \<Rightarrow> BigInt \<Rightarrow> u8 \<Rightarrow> u8 \<Rightarrow> mp_error + BigInt" where
  "bigint_multiply_add env num multiplier addend =
     (let len = blen num;
          (ds, carry) = multiply_loop multiplier len (digits num) (ucast addend)
      in if carry \<noteq> 0 then
           (case m_realloc env ds (len + 1) of
              Inl e \<Rightarrow> Inl e
            | Inr None \<Rightarrow> Inl Heap_overrun
            | Inr (Some p) \<Rightarrow> Inr \<lparr>digits = (memcpy_at p 1 (take len p))[0 := ucast carry], blen = len + 1\<rparr>)
         else Inr (num\<lparr>digits := ds\<rparr>))"

definition bigint_is_zero :: "BigInt \<Rightarrow> bool" where
  "bigint_is_zero num = list_all (\<lambda>i. digits num ! i = 0) [0..<blen num]"

function leading_zeros :: "bytes \<Rightarrow> nat \<Rightarrow> nat \<Rightarrow> nat" where
  "leading_zeros ds len z = (if z < len - 1 \<and> ds ! z = 0 then leading_zeros ds len (z + 1) else z)"
  by pat_completeness auto
termination
  by (relation "measure (\<lambda>(ds, len, z). len - z)") auto

definition divide_step :: "bytes \<times> u32 \<Rightarrow> nat \<Rightarrow> bytes \<times> u32" where
  "divide_step s i =
     (let (ds, remainder) = s; temp = push_bit 8 remainder OR ucast (ds ! i)
      in (ds[i := ucast (temp div 43)], temp mod 43))"

definition bigint_divide_by_43 :: "BigInt \<Rightarrow> BigInt \<times> u8" where
  "bigint_divide_by_43 num =
     (let len = blen num;
          (ds, remainder) = foldl divide_step (digits num, 0) [0..<len];
          z = leading_zeros ds len 0
      in (if 0 < z then \<lparr>digits = memcpy_at ds 0 (take (len - z) (drop z ds)), blen = len - z\<rparr>
          else num\<lparr>digits := ds\<rparr>,
          ucast remainder))"

section \<open>Encoding\<close>

function encode43_loop :: "nat \<Rightarrow> BigInt \<Rightarrow> bytes \<Rightarrow> nat \<Rightarrow> mp_error + bytes \<times> nat" where
  "encode43_loop max_out_len num output_buf out_len =
     (if bigint_is_zero num then Inr (output_buf, out_len)
      else if max_out_len \<le> out_len then Inl (ValueError ''Output buffer overflow'')
      else
        let (num, rem) = bigint_divide_by_43 num in
        (case buf_store output_buf out_len (B43CHARS ! unat rem) of
           Inl e \<Rightarrow> Inl e
         | Inr output_buf \<Rightarrow> encode43_loop max_out_len num output_buf (out_len + 1)))"
  by pat_completeness auto
termination
  by (relation "measure (\<lambda>(max_out_len, num, output_buf, out_len). max_out_len - out_len)") auto

definition reverse_digits :: "bytes \<Rightarrow> nat \<Rightarrow> bytes" where
  "reverse_digits output_buf out_len =
     foldl (\<lambda>b i. let tmp = b ! i in b[i := b ! (out_len - 1 - i), out_len - 1 - i := tmp]) output_buf [0..<out_len div 2]"

fun encode43_padding :: "nat \<Rightarrow> bytes \<Rightarrow> nat \<Rightarrow> mp_error + bytes" where
  "encode43_padding 0 output_buf i = Inr output_buf"
| "encode43_padding (Suc n) output_buf i =
     (case buf_store output_buf i (of_char (CHR ''='')) of
        Inl e \<Rightarrow> Inl e
      | Inr output_buf \<Rightarrow> encode43_padding n output_buf (i + 1))"

text \<open>The size of the output buffer, the digits and the padding, as \<^verbatim>\<open>base43_encode\<close> has them in
  sequence.\<close>

definition max_out_len :: "nat \<Rightarrow> bool \<Rightarrow> nat" where
  "max_out_len data_len add_padding =
     (let m = data_len + data_len div 2 + 2 in if add_padding then ((m + 3) div 4) * 4 else m)"

definition encode43_digits :: "mp_env \<Rightarrow> nat \<Rightarrow> bytes \<Rightarrow> bytes \<Rightarrow> mp_error + bytes \<times> nat" where
  "encode43_digits env mx dat output_buf =
     (if list_all (\<lambda>b. b = 0) dat then
        (case buf_store output_buf 0 (B43CHARS ! 0) of Inl e \<Rightarrow> Inl e | Inr b \<Rightarrow> Inr (b, 1))
      else
        (case bigint_from_bytes env dat of
           Inl e \<Rightarrow> Inl e
         | Inr num \<Rightarrow>
             (case encode43_loop mx num output_buf 0 of
                Inl e \<Rightarrow> Inl e
              | Inr (b, out_len) \<Rightarrow> Inr (reverse_digits b out_len, out_len))))"

definition encode43_finish :: "nat \<Rightarrow> bool \<Rightarrow> bytes \<Rightarrow> nat \<Rightarrow> mp_error + bytes" where
  "encode43_finish mx add_padding output_buf out_len =
     (if add_padding then
        let target_len = ((out_len + 3) div 4) * 4 in
        if mx < target_len then Inl (ValueError ''Padding overflow'')
        else (case encode43_padding (target_len - out_len) output_buf out_len of
                Inl e \<Rightarrow> Inl e
              | Inr output_buf \<Rightarrow> Inr (take target_len output_buf))
      else Inr (take out_len output_buf))"

definition base43_encode :: "mp_env \<Rightarrow> mp_obj \<Rightarrow> mp_obj \<Rightarrow> mp_error + bytes" where
  "base43_encode env data_obj add_padding_obj =
     (case mp_get_buffer_raise data_obj of
        Inl e \<Rightarrow> Inl e
      | Inr dat \<Rightarrow>
          let add_padding = mp_obj_is_true add_padding_obj; mx = max_out_len (length dat) add_padding in
          if length dat = 0 then Inr []
          else
            (case m_malloc env mx of
               Inl e \<Rightarrow> Inl e
             | Inr None \<Rightarrow> Inl Heap_overrun
             | Inr (Some output_buf) \<Rightarrow>
                 (case encode43_digits env mx dat output_buf of
                    Inl e \<Rightarrow> Inl e
                  | Inr (output_buf, out_len) \<Rightarrow> encode43_finish mx add_padding output_buf out_len)))"

section \<open>Decoding\<close>

fun decode43_loop :: "mp_env \<Rightarrow> 8 word list \<Rightarrow> bytes \<Rightarrow> BigInt \<Rightarrow> mp_error + BigInt" where
  "decode43_loop env table [] num = Inr num"
| "decode43_loop env table (c # cs) num =
     (let val = table ! unat c in
      if val = - 1 then Inl (ValueError ''Invalid Base43 character'')
      else (case bigint_multiply_add env num 43 val of
              Inl e \<Rightarrow> Inl e
            | Inr num \<Rightarrow> decode43_loop env table cs num))"

definition base43_decode :: "mp_env \<Rightarrow> base43_static \<Rightarrow> mp_obj \<Rightarrow> (mp_error + bytes) \<times> base43_static" where
  "base43_decode env st encoded_str_obj =
     (case mp_obj_str_get_data encoded_str_obj of
        Inl e \<Rightarrow> (Inl e, st)
      | Inr encoded_str \<Rightarrow>
          let st = init_base43_index st;
              encoded_len = strip_padding encoded_str (length encoded_str)
          in if encoded_len = 0 then (Inr [], st)
             else if encoded_len = 1 \<and> encoded_str ! 0 = of_char (CHR ''0'') then (Inr [0], st)
             else
               (case bigint_from_bytes env [] of
                  Inl e \<Rightarrow> (Inl e, st)
                | Inr num \<Rightarrow>
                    (case decode43_loop env (base43_index st) (take encoded_len encoded_str) num of
                       Inl e \<Rightarrow> (Inl e, st)
                     | Inr num \<Rightarrow>
                         let start = leading_zeros (digits num) (blen num) 0
                         in (Inr (take (blen num - start) (drop start (digits num))), st))))"

declare leading_zeros.simps [simp del] encode43_loop.simps [simp del]

end
