(* ===== verification/Base43_Correct.thy ===== *)
theory Base43_Correct
  imports Base43
begin

text \<open>
  Correctness of the module \<^verbatim>\<open>base43\<close>. The reference reads the data as a big-endian number and
  writes it in base 43, and back; so leading zero bytes are not kept. The output buffer of one
  and a half times the length of the data is enough, because \<open>256\<^sup>2 < 43\<^sup>3\<close>.
\<close>

section \<open>Reference\<close>

definition bval :: "bytes \<Rightarrow> nat" where
  "bval ds = foldl (\<lambda>a b. a * 256 + unat b) 0 ds"

fun be_min :: "nat \<Rightarrow> bytes" where
  "be_min v = (if v < 256 then [of_nat v] else be_min (v div 256) @ [of_nat (v mod 256)])"

fun digits43 :: "nat \<Rightarrow> nat list" where
  "digits43 v = (if v < 43 then [v] else digits43 (v div 43) @ [v mod 43])"

definition val43 :: "nat list \<Rightarrow> nat" where
  "val43 xs = foldl (\<lambda>a x. a * 43 + x) 0 xs"

definition strip_zeros :: "bytes \<Rightarrow> bytes" where
  "strip_zeros d = (if d = [] then [] else if list_all (\<lambda>b. b = 0) d then [0] else dropWhile (\<lambda>b. b = 0) d)"

definition b43_text :: "bytes \<Rightarrow> bytes" where
  "b43_text d = (if d = [] then [] else map ((!) B43CHARS) (digits43 (bval d)))"

definition pad_to_4 :: "bytes \<Rightarrow> bytes" where
  "pad_to_4 t = t @ replicate ((length t + 3) div 4 * 4 - length t) pad_char"

definition b43_encode :: "bytes \<Rightarrow> bool \<Rightarrow> bytes" where
  "b43_encode d p = (if p then pad_to_4 (b43_text d) else b43_text d)"

definition b43_decode :: "bytes \<Rightarrow> bytes option" where
  "b43_decode s =
     (let t = strip_pad s in
      if t = [] then Some []
      else if list_all (\<lambda>c. c \<in> set B43CHARS) t then Some (be_min (val43 (map (char_pos B43CHARS) t)))
      else None)"

declare be_min.simps [simp del] digits43.simps [simp del]

section \<open>Numbers\<close>

lemma bval_simps [simp]: "bval [] = 0" "bval (ds @ [b]) = bval ds * 256 + unat b"
  by (simp_all add: bval_def)

lemma val43_simps [simp]: "val43 [] = 0" "val43 (xs @ [x]) = val43 xs * 43 + x"
  by (simp_all add: val43_def)

lemma bval_append: "bval (xs @ ys) = bval xs * 256 ^ length ys + bval ys"
proof (induction ys rule: rev_induct)
  case (snoc y ys)
  have "bval (xs @ ys @ [y]) = bval ((xs @ ys) @ [y])" by simp
  then show ?case using snoc by (simp only: bval_simps) (simp add: algebra_simps)
qed simp

lemma bval_zero: "bval ds = 0 \<longleftrightarrow> (\<forall>b \<in> set ds. b = 0)"
  by (induction ds rule: rev_induct) (auto simp: unat_eq_0)

lemma bval_less: "bval ds < 256 ^ length ds"
proof (induction ds rule: rev_induct)
  case (snoc b ds)
  have "bval ds * 256 + unat b < (bval ds + 1) * 256" using unat_byte [of b] by simp
  also have "\<dots> \<le> 256 ^ length ds * 256" using snoc by (intro mult_le_mono1) simp
  finally show ?case by simp
qed simp

lemma be_min_nonempty [simp]: "be_min v \<noteq> []"
  by (subst be_min.simps) simp

lemma strip_zeros_be_min: "ds \<noteq> [] \<Longrightarrow> strip_zeros ds = be_min (bval ds)"
proof (induction ds rule: rev_induct)
  case (snoc b ds)
  show ?case
  proof (cases "bval ds = 0")
    case True
    then have zero: "\<forall>b \<in> set ds. b = 0" by (simp add: bval_zero)
    then have "dropWhile (\<lambda>b. b = 0) (ds @ [b]) = (if b = 0 then [] else [b])" by auto
    then show ?thesis using zero unat_byte [of b]
      by (subst be_min.simps) (auto simp: strip_zeros_def list_all_iff True)
  next
    case False
    then have ds: "ds \<noteq> []" and nz: "\<exists>b \<in> set ds. b \<noteq> 0" by (auto simp: bval_zero)
    then have "strip_zeros (ds @ [b]) = strip_zeros ds @ [b]"
      by (auto simp: strip_zeros_def list_all_iff dropWhile_append)
    moreover have "be_min (bval (ds @ [b])) = be_min (bval ds) @ [b]"
      using False unat_byte [of b] by (subst be_min.simps) simp
    ultimately show ?thesis using snoc ds by simp
  qed
qed simp

lemma digits43_digit: "x \<in> set (digits43 v) \<Longrightarrow> x < 43"
  by (induction v rule: digits43.induct) (subst (asm) (2) digits43.simps, auto split: if_splits)

lemma val43_digits43: "val43 (digits43 v) = v"
proof (induction v rule: digits43.induct)
  case (1 v)
  then show ?case by (subst digits43.simps) (auto simp: val43_def)
qed

lemma length_digits43: "v < 43 ^ n \<Longrightarrow> 0 < n \<Longrightarrow> length (digits43 v) \<le> n"
proof (induction n arbitrary: v)
  case (Suc n)
  show ?case
  proof (cases "v < 43")
    case True
    then show ?thesis by (subst digits43.simps) simp
  next
    case False
    then have "0 < n" using Suc.prems by (cases n) auto
    moreover have "v div 43 < 43 ^ n" using Suc.prems by (simp add: less_mult_imp_div_less mult.commute)
    ultimately show ?thesis using Suc.IH [of "v div 43"] False by (subst digits43.simps) simp
  qed
qed simp

text \<open>The size of the output buffer.\<close>

lemma room43: "256 ^ n \<le> (43 :: nat) ^ (n + n div 2 + 2)"
proof -
  have two: "(256 :: nat) ^ (2 * k) \<le> 43 ^ (3 * k)" for k
    unfolding power_mult by (rule power_mono) simp_all
  obtain k where "n = 2 * k \<or> n = 2 * k + 1" by (metis oddE evenE)
  then show ?thesis
  proof
    assume n: "n = 2 * k"
    have "(43 :: nat) ^ (3 * k) \<le> 43 ^ (n + n div 2 + 2)" using n by (intro power_increasing) simp_all
    then show ?thesis using order_trans [OF two [of k]] n by blast
  next
    assume n: "n = 2 * k + 1"
    have "(256 :: nat) ^ n = 256 * 256 ^ (2 * k)" using n by simp
    also have "\<dots> \<le> 43 ^ 2 * 43 ^ (3 * k)" using two [of k] by (intro mult_le_mono) simp_all
    also have "\<dots> = 43 ^ (2 + 3 * k)" by (simp add: power_add)
    also have "\<dots> \<le> 43 ^ (n + n div 2 + 2)" using n by (intro power_increasing) simp_all
    finally show ?thesis .
  qed
qed

section \<open>Arithmetic in place\<close>

text \<open>A number is in the block when its length is positive and the block is long enough.\<close>

definition big_ok :: "BigInt \<Rightarrow> bool" where
  "big_ok num = (0 < blen num \<and> blen num \<le> length (digits num))"

definition big_val :: "BigInt \<Rightarrow> nat" where
  "big_val num = bval (take (blen num) (digits num))"

lemma bval_take_Suc: "n < length ds \<Longrightarrow> bval (take (Suc n) ds) = bval (take n ds) * 256 + unat (ds ! n)"
  by (simp add: take_Suc_conv_app_nth)

lemma temp_value:
  assumes "unat (r :: u32) < 43"
  shows "unat (push_bit 8 r OR ucast (b :: u8)) = unat r * 256 + unat b"
proof -
  have "push_bit 8 r AND ucast b = 0"
    by (rule bit_word_eqI) (auto simp: bit_and_iff bit_push_bit_iff bit_ucast_iff dest: bit_imp_le_length)
  then have "push_bit 8 r OR ucast b = push_bit 8 r + ucast b" by (simp add: disjunctive_add_eq_or)
  moreover have "unat (push_bit 8 r) = unat r * 256"
    using assms by (simp add: push_bit_eq_mult unat_word_ariths)
  moreover have "unat (ucast b :: u32) = unat b" using unat_byte [of b] by (simp add: unsigned_ucast_eq take_bit_nat_eq_self)
  ultimately show ?thesis using assms unat_byte [of b] by (simp add: unat_word_ariths)
qed

lemma divide_loop:
  assumes "n \<le> length ds" and "foldl divide_step (ds, 0) [0..<n] = (ds', r)"
  shows "length ds' = length ds \<and> drop n ds' = drop n ds \<and> unat r < 43 \<and>
    bval (take n ds') * 43 + unat r = bval (take n ds)"
  using assms
proof (induction n arbitrary: ds' r)
  case (Suc n)
  obtain ds1 r1 where s: "foldl divide_step (ds, 0) [0..<n] = (ds1, r1)" by fastforce
  from Suc.IH [OF _ s] Suc.prems(1)
  have IH: "length ds1 = length ds" "drop n ds1 = drop n ds" "unat r1 < 43" "bval (take n ds1) * 43 + unat r1 = bval (take n ds)"
    by simp_all
  have n: "n < length ds" "ds1 ! n = ds ! n" using Suc.prems(1) IH(1,2) by (simp_all add: hd_drop_conv_nth [symmetric])
  define temp where "temp = push_bit 8 r1 OR ucast (ds ! n)"
  have temp: "unat temp = unat r1 * 256 + unat (ds ! n)" unfolding temp_def by (rule temp_value [OF IH(3)])
  have eq: "ds' = ds1[n := ucast (temp div 43)]" "r = temp mod 43"
    using Suc.prems(2) s n(2) divide_step_def [of "(ds1, r1)" n] by (simp_all add: Let_def temp_def)
  have "unat (temp div 43) = unat temp div 43" by (simp add: unat_div_distrib)
  moreover have "unat temp div 43 < 256" using temp IH(3) unat_byte [of "ds ! n"] by simp
  ultimately have q: "unat (ucast (temp div 43) :: u8) = unat temp div 43" by (simp add: unsigned_ucast_eq take_bit_nat_eq_self)
  have r: "unat r = unat temp mod 43" unfolding eq by (simp add: unat_mod_distrib)
  have "drop (Suc n) ds' = drop (Suc n) ds"
    using arg_cong [OF IH(2), of tl] unfolding eq by (simp add: drop_update_cancel tl_drop flip: drop_Suc)
  moreover have "bval (take (Suc n) ds') = bval (take n ds1) * 256 + unat temp div 43"
    using n IH(1) q unfolding eq by (simp add: bval_take_Suc)
  moreover have "bval (take n ds1) * 43 * 256 + unat r1 * 256 = bval (take n ds) * 256"
    unfolding IH(4) [symmetric] by (simp add: algebra_simps)
  ultimately show ?case
    using IH(1) n r temp mult_div_mod_eq [of 43 "unat temp"] by (simp add: eq(1) bval_take_Suc algebra_simps)
qed simp

lemma leading_zeros_spec:
  assumes "z \<le> len - 1" and "len \<le> length ds" and "0 < len" and "\<forall>i < z. ds ! i = 0"
  shows "leading_zeros ds len z < len \<and> (\<forall>i < leading_zeros ds len z. ds ! i = 0) \<and>
    (leading_zeros ds len z = len - 1 \<or> ds ! leading_zeros ds len z \<noteq> 0)"
  using assms
proof (induction ds len z rule: leading_zeros.induct)
  case (1 ds len z)
  show ?case
  proof (cases "z < len - 1 \<and> ds ! z = 0")
    case True
    then have "leading_zeros ds len z = leading_zeros ds len (z + 1)" by (subst leading_zeros.simps) simp
    moreover have "\<forall>i < z + 1. ds ! i = 0" using True 1(5) by (auto simp: less_Suc_eq)
    ultimately show ?thesis using "1.IH" [OF True] 1 True by simp
  next
    case False
    then have "leading_zeros ds len z = z" by (simp only: leading_zeros.simps [of ds len z] if_False)
    then show ?thesis using False 1 by auto
  qed
qed

lemma drop_zeros_val: "\<forall>i < z. ds ! i = 0 \<Longrightarrow> z \<le> length ds \<Longrightarrow> bval (drop z ds) = bval ds"
proof -
  assume z: "\<forall>i < z. ds ! i = 0" "z \<le> length ds"
  have "bval (take z ds) = 0" using z by (auto simp: bval_zero in_set_conv_nth)
  then show ?thesis using bval_append [of "take z ds" "drop z ds"] by simp
qed

lemma divide_by_43_ok:
  assumes ok: "big_ok num" and eq: "bigint_divide_by_43 num = (num', rem)"
  shows "big_ok num' \<and> big_val num' = big_val num div 43 \<and> unat rem = big_val num mod 43"
proof -
  let ?len = "blen num"
  obtain ds r where s: "foldl divide_step (digits num, 0) [0..<?len] = (ds, r)" by fastforce
  from divide_loop [OF _ s] ok
  have div: "length ds = length (digits num)" "unat r < 43" "bval (take ?len ds) * 43 + unat r = big_val num"
    by (simp_all add: big_ok_def big_val_def)
  let ?z = "leading_zeros ds ?len 0"
  have z: "?z < ?len" "\<forall>i < ?z. ds ! i = 0"
    using leading_zeros_spec [of 0 ?len ds] ok div(1) by (simp_all add: big_ok_def)
  let ?t = "take (?len - ?z) (drop ?z ds)"
  have t: "?t = drop ?z (take ?len ds)" by (simp add: drop_take)
  have val: "bval ?t = bval (take ?len ds)" unfolding t by (rule drop_zeros_val) (use z ok div in \<open>auto simp: big_ok_def\<close>)
  have num': "num' = (if 0 < ?z then \<lparr>digits = memcpy_at ds 0 ?t, blen = ?len - ?z\<rparr> else num\<lparr>digits := ds\<rparr>)" "rem = ucast r"
    using eq s by (auto simp: bigint_divide_by_43_def Let_def)
  have len: "length ?t = ?len - ?z" using ok div(1) by (auto simp: big_ok_def)
  have "big_ok num' \<and> big_val num' = bval (take ?len ds)"
    using z ok div(1) val len by (auto simp: num'(1) big_ok_def big_val_def)
  moreover have "unat rem = unat r" using div(2) by (simp add: num'(2) unsigned_ucast_eq take_bit_nat_eq_self)
  moreover have "big_val num div 43 = bval (take ?len ds)" "big_val num mod 43 = unat r"
    using div(2) unfolding div(3) [symmetric] by simp_all
  ultimately show ?thesis by simp
qed

lemma is_zero_iff: "big_ok num \<Longrightarrow> bigint_is_zero num \<longleftrightarrow> big_val num = 0"
  by (fastforce simp: bigint_is_zero_def big_val_def bval_zero list_all_iff in_set_conv_nth big_ok_def)

lemma multiply_loop_ok:
  assumes "n \<le> length ds" and "unat carry < 256" and "multiply_loop m n ds carry = (ds', carry')"
  shows "length ds' = length ds \<and> drop n ds' = drop n ds \<and> unat carry' < 256 \<and>
    unat carry' * 256 ^ n + bval (take n ds') = bval (take n ds) * unat m + unat carry"
  using assms
proof (induction n arbitrary: ds carry)
  case (Suc n)
  define c where "c = carry + ucast (ds ! n) * ucast m"
  define ds1 where "ds1 = ds[n := ucast (c AND 0xFF)]"
  have small: "unat (ucast x :: u32) = unat x" for x :: u8
    using unat_byte [of x] by (simp add: unsigned_ucast_eq take_bit_nat_eq_self)
  have prod: "unat (ds ! n) * unat m \<le> 255 * 255"
    using unat_byte [of "ds ! n"] unat_byte [of m] by (intro mult_le_mono) simp_all
  then have c: "unat c = unat carry + unat (ds ! n) * unat m"
    using Suc.prems(2) by (simp add: c_def unat_word_ariths small)
  have hi: "unat (drop_bit 8 c) = unat c div 256" by (simp add: drop_bit_eq_div unat_div_distrib)
  have "c AND 0xFF = take_bit 8 c" by (simp add: take_bit_eq_mask mask_eq_exp_minus_1)
  then have lo: "unat (ucast (c AND 0xFF) :: u8) = unat c mod 256" by (simp add: unsigned_ucast_eq unsigned_take_bit_eq take_bit_eq_mod unat_mod_distrib)
  have less: "unat (drop_bit 8 c) < 256" using c prod Suc.prems(2) by (simp add: hi)
  have run: "multiply_loop m n ds1 (drop_bit 8 c) = (ds', carry')"
    using Suc.prems(3) by (simp add: Let_def c_def ds1_def)
  from Suc.IH [OF _ less run] Suc.prems(1)
  have IH: "length ds' = length ds1" "drop n ds' = drop n ds1" "unat carry' < 256"
    "unat carry' * 256 ^ n + bval (take n ds') = bval (take n ds1) * unat m + unat (drop_bit 8 c)" by (simp_all add: ds1_def)
  have n: "n < length ds" and ds1: "length ds1 = length ds" "take n ds1 = take n ds" "ds1 ! n = ucast (c AND 0xFF)" "drop (Suc n) ds1 = drop (Suc n) ds"
    using Suc.prems(1) by (simp_all add: ds1_def)
  have "ds' ! n = ds1 ! n" using IH(1,2) n ds1(1) by (metis hd_drop_conv_nth)
  then have "unat carry' * 256 ^ Suc n + bval (take (Suc n) ds') =
      (unat carry' * 256 ^ n + bval (take n ds')) * 256 + unat c mod 256"
    using n IH(1) ds1 lo by (simp add: bval_take_Suc algebra_simps)
  also have "\<dots> = bval (take n ds) * unat m * 256 + (unat c div 256 * 256 + unat c mod 256)"
    unfolding IH(4) hi ds1 by (simp add: algebra_simps)
  also have "\<dots> = bval (take (Suc n) ds) * unat m + unat carry"
    using n by (simp add: c bval_take_Suc algebra_simps)
  finally have "unat carry' * 256 ^ Suc n + bval (take (Suc n) ds') = bval (take (Suc n) ds) * unat m + unat carry" .
  moreover have "drop (Suc n) ds' = drop (Suc n) ds"
    using arg_cong [OF IH(2), of tl] ds1(4) by (simp add: tl_drop flip: drop_Suc)
  ultimately show ?case using IH(1,3) ds1(1) by simp
qed simp

lemma unat_ucast_u8: "unat (ucast (x :: u8) :: u32) = unat x"
  using unat_byte [of x] by (simp add: unsigned_ucast_eq take_bit_nat_eq_self)

text \<open>In decoding the block has exactly the bytes of the number.\<close>

lemma multiply_add_ok:
  assumes num: "blen num = length (digits num)" "0 < blen num" and mem: "blen num + 1 \<le> heap_limit env" "fresh_ok env"
  shows "\<exists>num'. bigint_multiply_add env num m a = Inr num' \<and> blen num' = length (digits num') \<and> 0 < blen num' \<and>
    blen num' \<le> blen num + 1 \<and> bval (digits num') = bval (digits num) * unat m + unat a"
proof -
  obtain ds c where s: "multiply_loop m (blen num) (digits num) (ucast a) = (ds, c)" by fastforce
  have "unat (ucast a :: u32) < 256" using unat_byte [of a] by (simp add: unat_ucast_u8)
  from multiply_loop_ok [OF _ this s] num
  have ds: "length ds = length (digits num)" "unat c < 256" "unat c * 256 ^ length ds + bval ds = bval (digits num) * unat m + unat a"
    by (auto simp: unat_ucast_u8)
  show ?thesis
  proof (cases "c = 0")
    case True
    then show ?thesis using s num ds by (simp add: bigint_multiply_add_def Let_def)
  next
    case False
    let ?p = "ds @ drop (length ds) (fresh_bytes env (blen num + 1))"
    have p: "length ?p = blen num + 1" "take (blen num) ?p = ds" using mem(2) ds(1) num by (simp_all add: fresh_ok_def)
    let ?q = "(memcpy_at ?p 1 ds)[0 := ucast c]"
    have "memcpy_at ?p 1 ds = take 1 ?p @ ds" using p(1) ds(1) num by (intro memcpy_at_full) simp
    then have q: "?q = ucast c # ds" using num ds(1) by (cases ds) (simp_all add: take_Cons')
    have "unat (ucast c :: u8) = unat c" using ds(2) by (simp add: unsigned_ucast_eq take_bit_nat_eq_self)
    then have "bval (ucast c # ds) = unat c * 256 ^ length ds + bval ds" using bval_append [of "[ucast c]" ds] by (simp add: bval_def)
    moreover have "bigint_multiply_add env num m a = Inr \<lparr>digits = ucast c # ds, blen = blen num + 1\<rparr>"
      unfolding q [symmetric] using s False mem p(2) ds(1) num by (simp add: bigint_multiply_add_def Let_def m_realloc_def m_malloc_def)
    ultimately show ?thesis using ds num by simp
  qed
qed

section \<open>Encoding\<close>

abbreviation b43_char :: "nat \<Rightarrow> u8" where
  "b43_char x \<equiv> B43CHARS ! x"

lemma digits43_step: "v \<noteq> 0 \<Longrightarrow> rev (digits43 v) = v mod 43 # (if v div 43 = 0 then [] else rev (digits43 (v div 43)))"
  by (subst digits43.simps) auto

lemma encode43_loop_ok:
  assumes "big_ok num" and "written w buf" and "length buf = mx" and "big_val num < 43 ^ (mx - length w)"
  shows "\<exists>buf'. encode43_loop mx num buf (length w) = Inr (buf', length w + (if big_val num = 0 then 0 else length (digits43 (big_val num)))) \<and>
    length buf' = mx \<and> written (w @ (if big_val num = 0 then [] else map b43_char (rev (digits43 (big_val num))))) buf'"
  using assms
proof (induction "big_val num" arbitrary: num w buf rule: less_induct)
  case less
  show ?case
  proof (cases "big_val num = 0")
    case True
    then have "bigint_is_zero num" using less.prems(1) by (simp add: is_zero_iff)
    then show ?thesis using True less.prems by (simp add: encode43_loop.simps [of mx num])
  next
    case False
    let ?v = "big_val num"
    obtain num' r where nr: "bigint_divide_by_43 num = (num', r)" by fastforce
    from divide_by_43_ok [OF less.prems(1) nr]
    have d: "big_ok num'" "big_val num' = ?v div 43" "unat r = ?v mod 43" by simp_all
    have room: "length w < mx" using less.prems(4) False by (cases "length w < mx") simp_all
    then obtain buf1 where buf1: "buf_store buf (length w) (b43_char (unat r)) = Inr buf1" "written (w @ [b43_char (unat r)]) buf1" "length buf1 = mx"
      using buf_store_written [OF less.prems(2)] less.prems(3) by auto
    have step: "encode43_loop mx num buf (length w) = encode43_loop mx num' buf1 (length (w @ [b43_char (unat r)]))"
      using nr buf1(1) room False less.prems(1) by (subst encode43_loop.simps) (simp add: is_zero_iff)
    have "mx - length w = Suc (mx - length (w @ [b43_char (unat r)]))" using room by simp
    then have "big_val num' < 43 ^ (mx - length (w @ [b43_char (unat r)]))"
      using less.prems(4) d(2) by (simp add: less_mult_imp_div_less mult.commute)
    moreover have "big_val num' < ?v" using False d(2) by simp
    ultimately obtain buf2
      where "encode43_loop mx num' buf1 (length (w @ [b43_char (unat r)])) =
          Inr (buf2, length (w @ [b43_char (unat r)]) + (if big_val num' = 0 then 0 else length (digits43 (big_val num'))))"
        and "length buf2 = mx"
        and "written ((w @ [b43_char (unat r)]) @ (if big_val num' = 0 then [] else map b43_char (rev (digits43 (big_val num'))))) buf2"
      using less.hyps [of num' "w @ [b43_char (unat r)]" buf1] d(1) buf1(2,3) by auto
    moreover have "length (digits43 ?v) = Suc (if big_val num' = 0 then 0 else length (digits43 (big_val num')))"
      using arg_cong [OF digits43_step [OF False], of length] d(2) by simp
    moreover have "map b43_char (rev (digits43 ?v)) =
        b43_char (unat r) # (if big_val num' = 0 then [] else map b43_char (rev (digits43 (big_val num'))))"
      unfolding digits43_step [OF False] d(2,3) by (simp only: list.map if_distrib [of "map b43_char"])
    ultimately show ?thesis using step False by simp
  qed
qed

lemma swap_loop:
  assumes "n \<le> length b" and "k \<le> n div 2"
  defines "s \<equiv> foldl (\<lambda>b i. let tmp = b ! i in b[i := b ! (n - 1 - i), n - 1 - i := tmp]) b [0..<k]"
  shows "length s = length b \<and> (\<forall>i < length b. s ! i = (if i < k \<or> n - k \<le> i \<and> i < n then b ! (n - 1 - i) else b ! i))"
  using assms(2) unfolding s_def
proof (induction k)
  case (Suc k)
  let ?s = "foldl (\<lambda>b i. let tmp = b ! i in b[i := b ! (n - 1 - i), n - 1 - i := tmp]) b [0..<k]"
  have s: "length ?s = length b" "\<And>i. i < length b \<Longrightarrow> ?s ! i = (if i < k \<or> n - k \<le> i \<and> i < n then b ! (n - 1 - i) else b ! i)"
    using Suc by auto
  have k: "k < n" "n - 1 - k < length b" "k < length b" "k < n - 1 - k" using Suc.prems assms(1) by linarith+
  have "?s ! k = b ! k" "?s ! (n - 1 - k) = b ! (n - 1 - k)" using s(2) [of k] s(2) [of "n - 1 - k"] k by auto
  moreover have "n - 1 - (n - 1 - k) = k" using k by simp
  moreover have "i = k \<or> i = n - 1 - k \<or> (i < Suc k \<or> n - Suc k \<le> i \<and> i < n \<longleftrightarrow> i < k \<or> n - k \<le> i \<and> i < n)" for i
    using k by linarith
  ultimately show ?case using s k by (auto simp: Let_def nth_list_update)
qed auto

lemma reverse_digits_rev: "n \<le> length b \<Longrightarrow> reverse_digits b n = rev (take n b) @ drop n b"
proof (rule nth_equalityI)
  assume n: "n \<le> length b"
  note s = swap_loop [OF n order_refl, folded reverse_digits_def]
  show "length (reverse_digits b n) = length (rev (take n b) @ drop n b)" using s n by simp
  fix i assume "i < length (reverse_digits b n)"
  then have i: "i < length b" using s by simp
  have "\<not> (i < n div 2 \<or> n - n div 2 \<le> i \<and> i < n) \<Longrightarrow> i < n \<Longrightarrow> n - 1 - i = i" by linarith
  then show "reverse_digits b n ! i = (rev (take n b) @ drop n b) ! i"
    using s i n by (auto simp: nth_append rev_nth)
qed

lemma encode43_padding_ok:
  assumes "written w buf" and "length w + n \<le> length buf"
  shows "\<exists>buf'. encode43_padding n buf (length w) = Inr buf' \<and> written (w @ replicate n pad_char) buf'"
  using assms
proof (induction n arbitrary: w buf)
  case (Suc n)
  then obtain buf1 where buf1: "buf_store buf (length w) pad_char = Inr buf1" "written (w @ [pad_char]) buf1" "length buf1 = length buf"
    using buf_store_written [of w buf pad_char] by auto
  obtain buf' where "encode43_padding n buf1 (length (w @ [pad_char])) = Inr buf'" "written ((w @ [pad_char]) @ replicate n pad_char) buf'"
    using Suc.IH [OF buf1(2)] buf1(3) Suc.prems by auto
  then show ?case using buf1 by (simp add: pad_char_def)
qed simp

definition base43_encode_ref :: "mp_env \<Rightarrow> mp_obj \<Rightarrow> mp_obj \<Rightarrow> mp_error + bytes" where
  "base43_encode_ref env d p =
     (case d of
        Mp_buffer d \<Rightarrow>
          if d \<noteq> [] \<and> heap_limit env < max_out_len (length d) (mp_obj_is_true p) then Inl MemoryError
          else Inr (b43_encode d (mp_obj_is_true p))
      | _ \<Rightarrow> Inl TypeError)"

lemma length_b43_text: "length (b43_text d) \<le> length d + length d div 2 + 2"
proof -
  have "bval d < 43 ^ (length d + length d div 2 + 2)" using bval_less [of d] room43 [of "length d"] by linarith
  then have "length (digits43 (bval d)) \<le> length d + length d div 2 + 2" by (rule length_digits43) simp
  then show ?thesis by (simp add: b43_text_def)
qed

text \<open>The digits are written, in both branches.\<close>

lemma encode43_digits_ok:
  assumes "d \<noteq> []" and "length buf = mx" and "length d + length d div 2 + 2 \<le> mx" and "mx \<le> heap_limit env" and "fresh_ok env"
  shows "\<exists>buf'. encode43_digits env mx d buf = Inr (buf', length (b43_text d)) \<and> written (b43_text d) buf' \<and> length buf' = mx"
proof (cases "list_all (\<lambda>b. b = 0) d")
  case True
  then have "bval d = 0" by (simp add: bval_zero list_all_iff)
  then have "b43_text d = [b43_char 0]" using assms(1) by (simp add: b43_text_def digits43.simps)
  moreover have "0 < length buf" using assms(2,3) by simp
  ultimately show ?thesis using True assms(2) by (cases buf) (simp_all add: encode43_digits_def buf_store_def written_def)
next
  case False
  then have nz: "bval d \<noteq> 0" by (auto simp: bval_zero list_all_iff)
  let ?num = "\<lparr>digits = d, blen = length d\<rparr>"
  have num: "bigint_from_bytes env d = Inr ?num"
    using assms by (simp add: bigint_from_bytes_def m_malloc_def fresh_ok_def)
  have ok: "big_ok ?num" "big_val ?num = bval d" using assms(1) by (simp_all add: big_ok_def big_val_def)
  have "bval d < 43 ^ (length d + length d div 2 + 2)" using bval_less [of d] room43 [of "length d"] by linarith
  also have "\<dots> \<le> 43 ^ (mx - length ([] :: bytes))" using assms(3) by (intro power_increasing) simp_all
  finally obtain buf' where b: "encode43_loop mx ?num buf 0 = Inr (buf', length (digits43 (bval d)))" "length buf' = mx"
    "written (map b43_char (rev (digits43 (bval d)))) buf'"
    using encode43_loop_ok [OF ok(1), of "[]" buf mx] assms(2) nz ok(2) by auto
  let ?n = "length (digits43 (bval d))"
  have n: "?n \<le> length buf'" and pre: "take ?n buf' = rev (b43_text d)"
    using written_length [OF b(3)] written_take [OF b(3)] assms(1) by (simp_all add: b43_text_def rev_map)
  have "reverse_digits buf' ?n = b43_text d @ drop ?n buf'" by (simp add: reverse_digits_rev [OF n] pre)
  moreover have "length (b43_text d) = ?n" using assms(1) by (simp add: b43_text_def)
  ultimately show ?thesis using False num b n by (simp add: encode43_digits_def written_def)
qed

lemma base43_encode_eq: "fresh_ok env \<Longrightarrow> base43_encode env d p = base43_encode_ref env d p"
proof (cases d)
  case (Mp_buffer d')
  assume fresh: "fresh_ok env"
  let ?p = "mp_obj_is_true p" and ?t = "b43_text d'"
  let ?mx = "max_out_len (length d') ?p"
  show ?thesis
  proof (cases "d' = [] \<or> heap_limit env < ?mx")
    case True
    have "0 < ?mx" by (simp add: max_out_len_def Let_def div_greater_zero_iff)
    then show ?thesis using True Mp_buffer
      by (auto simp: base43_encode_def base43_encode_ref_def mp_get_buffer_raise_def b43_encode_def b43_text_def pad_to_4_def
        m_malloc_def max_out_len_def Let_def)
  next
    case False
    let ?buf = "fresh_bytes env ?mx"
    have "n \<le> (n + 3) div 4 * 4" for n :: nat by linarith
    then have mx: "length d' + length d' div 2 + 2 \<le> ?mx" by (simp only: max_out_len_def Let_def split: if_split) simp
    obtain buf where buf: "encode43_digits env ?mx d' ?buf = Inr (buf, length ?t)" "written ?t buf" "length buf = ?mx"
      using encode43_digits_ok [of d' ?buf ?mx env] False mx fresh by (auto simp: fresh_ok_def)
    have "encode43_finish ?mx ?p buf (length ?t) = Inr (b43_encode d' ?p)"
    proof (cases ?p)
      case True
      let ?target = "(length ?t + 3) div 4 * 4"
      have "?target \<le> ?mx"
        using True length_b43_text [of d'] by (simp add: max_out_len_def Let_def div_le_mono)
      moreover have "length ?t \<le> ?target" by linarith
      ultimately show ?thesis
        using True buf encode43_padding_ok [OF buf(2), of "?target - length ?t"] written_take [of "?t @ replicate (?target - length ?t) pad_char"]
        by (auto simp: encode43_finish_def b43_encode_def pad_to_4_def Let_def)
    qed (use buf written_take in \<open>simp add: encode43_finish_def b43_encode_def\<close>)
    moreover have "?mx \<noteq> 0" using mx by simp
    ultimately show ?thesis using buf(1) False Mp_buffer
      by (simp add: base43_encode_def base43_encode_ref_def mp_get_buffer_raise_def m_malloc_def)
  qed
qed (simp_all add: base43_encode_def base43_encode_ref_def mp_get_buffer_raise_def)

section \<open>Decoding\<close>

definition static43_ok :: "base43_static \<Rightarrow> bool" where
  "static43_ok st = (base43_index_initialized st \<longrightarrow> base43_index st = fill_index B43CHARS 43)"

lemma length_B43CHARS: "length B43CHARS = 43"
  by (simp add: B43CHARS_def)

lemma distinct_B43CHARS: "distinct B43CHARS"
  unfolding B43CHARS_def by code_simp

lemma pad_not_B43: "pad_char \<notin> set B43CHARS"
  unfolding B43CHARS_def pad_char_def by code_simp

lemma pos43: "c \<in> set B43CHARS \<Longrightarrow> char_pos B43CHARS c < 43"
  using char_pos_less [of c B43CHARS] by (simp add: length_B43CHARS)

lemma table_B43: "fill_index B43CHARS 43 ! unat c = (if c \<in> set B43CHARS then of_nat (char_pos B43CHARS c) else - 1)"
  using fill_index_alphabet [OF distinct_B43CHARS, of c] by (simp only: length_B43CHARS)

lemma table_B43_valid: "fill_index B43CHARS 43 ! unat c = - 1 \<longleftrightarrow> c \<notin> set B43CHARS" for c :: u8
proof -
  have "of_nat n \<noteq> (- 1 :: u8)" if "n < 43" for n
  proof
    assume "of_nat n = (- 1 :: u8)"
    then have "unat (of_nat n :: u8) = unat (- 1 :: u8)" by simp
    then show False using that by (simp add: unsigned_of_nat take_bit_nat_eq_self unsigned_minus_1_eq_mask mask_eq_exp_minus_1)
  qed
  then show ?thesis using pos43 by (auto simp: table_B43)
qed

lemma decode43_loop_ok:
  assumes "blen num = length (digits num)" "0 < blen num" and "blen num + length cs \<le> heap_limit env" and "fresh_ok env"
  shows "if \<forall>c \<in> set cs. c \<in> set B43CHARS
    then \<exists>num'. decode43_loop env (fill_index B43CHARS 43) cs num = Inr num' \<and> blen num' = length (digits num') \<and> 0 < blen num' \<and>
      bval (digits num') = foldl (\<lambda>a x. a * 43 + x) (bval (digits num)) (map (char_pos B43CHARS) cs)
    else decode43_loop env (fill_index B43CHARS 43) cs num = Inl (ValueError ''Invalid Base43 character'')"
  using assms(1-3)
proof (induction cs arbitrary: num)
  case (Cons c cs)
  let ?x = "fill_index B43CHARS 43 ! unat c"
  show ?case
  proof (cases "c \<in> set B43CHARS")
    case True
    then have x: "unat ?x = char_pos B43CHARS c"
      using pos43 [OF True] by (simp add: table_B43 unsigned_of_nat take_bit_nat_eq_self)
    obtain num1 where num1: "bigint_multiply_add env num 43 ?x = Inr num1" "blen num1 = length (digits num1)" "0 < blen num1"
      "blen num1 \<le> blen num + 1" "bval (digits num1) = bval (digits num) * 43 + char_pos B43CHARS c"
      using multiply_add_ok [OF Cons.prems(1,2) _ assms(4), of 43 ?x] Cons.prems(3) x by auto
    have "decode43_loop env (fill_index B43CHARS 43) (c # cs) num = decode43_loop env (fill_index B43CHARS 43) cs num1"
      using True num1(1) table_B43_valid [of c] by (simp add: Let_def)
    moreover have "blen num1 + length cs \<le> heap_limit env" using num1(4) Cons.prems(3) by simp
    ultimately show ?thesis using Cons.IH [OF num1(2,3)] True unfolding num1(5) by (auto split: if_splits)
  next
    case False
    then show ?thesis using table_B43_valid [of c] by (simp add: Let_def)
  qed
qed simp

lemma drop_leading_zeros:
  assumes "ds \<noteq> []"
  shows "take (length ds - leading_zeros ds (length ds) 0) (drop (leading_zeros ds (length ds) 0) ds) = be_min (bval ds)"
proof -
  let ?z = "leading_zeros ds (length ds) 0"
  have z: "?z < length ds" "\<forall>i < ?z. ds ! i = 0" "?z = length ds - 1 \<or> ds ! ?z \<noteq> 0"
    using leading_zeros_spec [of 0 "length ds" ds] assms by simp_all
  let ?r = "drop ?z ds"
  have r: "?r = ds ! ?z # drop (Suc ?z) ds" using z(1) by (simp add: Cons_nth_drop_Suc)
  have "strip_zeros ?r = ?r"
  proof (cases "ds ! ?z = 0")
    case True
    then have "drop (Suc ?z) ds = []" using z(3) by simp
    then show ?thesis using r True by (simp add: strip_zeros_def)
  qed (simp add: r strip_zeros_def)
  moreover have "strip_zeros ?r = be_min (bval ?r)" using r by (intro strip_zeros_be_min) simp
  moreover have "bval ?r = bval ds" using z by (intro drop_zeros_val) simp_all
  ultimately show ?thesis by simp
qed

definition base43_decode_ref :: "mp_obj \<Rightarrow> mp_error + bytes" where
  "base43_decode_ref s =
     (case s of
        Mp_buffer s \<Rightarrow> (case b43_decode s of Some d \<Rightarrow> Inr d | None \<Rightarrow> Inl (ValueError ''Invalid Base43 character''))
      | _ \<Rightarrow> Inl TypeError)"

definition mem43 :: "mp_env \<Rightarrow> mp_obj \<Rightarrow> bool" where
  "mem43 env s = (fresh_ok env \<and> (case s of Mp_buffer s \<Rightarrow> length s + 1 \<le> heap_limit env | _ \<Rightarrow> True))"

lemma decode43_all:
  assumes "t = strip_pad s" "t \<noteq> []" "length t + 1 \<le> heap_limit env" "fresh_ok env"
  shows "(case bigint_from_bytes env [] of
      Inl e \<Rightarrow> Inl e
    | Inr num \<Rightarrow>
        (case decode43_loop env (fill_index B43CHARS 43) t num of
           Inl e \<Rightarrow> Inl e
         | Inr num \<Rightarrow> Inr (take (blen num - leading_zeros (digits num) (blen num) 0) (drop (leading_zeros (digits num) (blen num) 0) (digits num))))) =
    base43_decode_ref (Mp_buffer s)"
proof -
  let ?num = "\<lparr>digits = [0], blen = 1\<rparr>"
  have "length (fresh_bytes env 1) = 1" using assms(4) by (simp add: fresh_ok_def)
  then have "(fresh_bytes env 1)[0 := 0] = [0]" by (cases "fresh_bytes env 1") simp_all
  then have num: "bigint_from_bytes env [] = Inr ?num"
    using assms(3) by (simp add: bigint_from_bytes_def m_malloc_def)
  have z: "bval (digits ?num) = 0" by (simp add: bval_def)
  have loop: "if \<forall>c \<in> set t. c \<in> set B43CHARS
    then \<exists>num'. decode43_loop env (fill_index B43CHARS 43) t ?num = Inr num' \<and> blen num' = length (digits num') \<and> 0 < blen num' \<and>
      bval (digits num') = val43 (map (char_pos B43CHARS) t)
    else decode43_loop env (fill_index B43CHARS 43) t ?num = Inl (ValueError ''Invalid Base43 character'')"
    by (rule decode43_loop_ok [of ?num t env, unfolded z, folded val43_def]) (use assms in simp_all)
  show ?thesis
  proof (cases "\<forall>c \<in> set t. c \<in> set B43CHARS")
    case True
    with loop obtain num' where run: "decode43_loop env (fill_index B43CHARS 43) t ?num = Inr num'"
      and "blen num' = length (digits num')" "0 < blen num'" "bval (digits num') = val43 (map (char_pos B43CHARS) t)" by auto
    then have "take (blen num' - leading_zeros (digits num') (blen num') 0) (drop (leading_zeros (digits num') (blen num') 0) (digits num')) =
        be_min (val43 (map (char_pos B43CHARS) t))"
      using drop_leading_zeros [of "digits num'"] by (metis length_greater_0_conv)
    then show ?thesis using run True num assms
      by (simp add: base43_decode_ref_def b43_decode_def list_all_iff)
  next
    case False
    with loop have "decode43_loop env (fill_index B43CHARS 43) t ?num = Inl (ValueError ''Invalid Base43 character'')" by simp
    then show ?thesis using False num assms(1,2) by (auto simp: base43_decode_ref_def b43_decode_def Let_def list_all_iff)
  qed
qed

lemma decode_zero43: "b43_decode s = Some [0]" if "strip_pad s = [of_char (CHR ''0'')]"
proof -
  have e: "of_char (CHR ''0'') = B43CHARS ! 0" by (simp add: B43CHARS_def)
  have "of_char (CHR ''0'') \<in> set B43CHARS" "char_pos B43CHARS (of_char (CHR ''0'')) = 0"
    unfolding e by (simp_all add: char_pos_nth length_B43CHARS distinct_B43CHARS)
  then show ?thesis using that by (simp add: b43_decode_def val43_def be_min.simps)
qed

lemma base43_decode_eq:
  assumes "static43_ok st" and "mem43 env s"
  shows "fst (base43_decode env st s) = base43_decode_ref s"
proof (cases s)
  case (Mp_buffer t)
  let ?u = "strip_pad t"
  have idx: "base43_index (init_base43_index st) = fill_index B43CHARS 43"
    using assms(1) by (simp add: static43_ok_def init_base43_index_def fill_index_def)
  have first: "?u \<noteq> [] \<Longrightarrow> t ! 0 = ?u ! 0"
    using strip_padding_take [of t] by (metis length_greater_0_conv nth_take)
  have mem: "length ?u + 1 \<le> heap_limit env" "fresh_ok env"
    using assms(2) length_strip_pad [of t] Mp_buffer by (simp_all add: mem43_def)
  consider "?u = []" | "?u = [of_char (CHR ''0'')]" | "?u \<noteq> []" "?u \<noteq> [of_char (CHR ''0'')]" by blast
  then show ?thesis
  proof cases
    case 1
    then show ?thesis using Mp_buffer strip_padding_take [of t]
      by (simp add: base43_decode_def mp_obj_str_get_data_def base43_decode_ref_def b43_decode_def Let_def)
  next
    case 2
    then show ?thesis using Mp_buffer strip_padding_take [of t] first decode_zero43
      by (simp add: base43_decode_def mp_obj_str_get_data_def base43_decode_ref_def Let_def)
  next
    case 3
    then have "\<not> (length ?u = 1 \<and> ?u ! 0 = of_char (CHR ''0''))" by (cases ?u) auto
    then have "fst (base43_decode env st s) = (case bigint_from_bytes env [] of
      Inl e \<Rightarrow> Inl e
    | Inr num \<Rightarrow>
        (case decode43_loop env (fill_index B43CHARS 43) ?u num of
           Inl e \<Rightarrow> Inl e
         | Inr num \<Rightarrow> Inr (take (blen num - leading_zeros (digits num) (blen num) 0) (drop (leading_zeros (digits num) (blen num) 0) (digits num)))))"
      using 3 Mp_buffer strip_padding_take [of t] first idx
      by (auto simp: base43_decode_def mp_obj_str_get_data_def Let_def split: sum.splits)
    then show ?thesis using decode43_all [OF refl 3(1) mem] Mp_buffer by simp
  qed
qed (simp_all add: base43_decode_def base43_decode_ref_def mp_obj_str_get_data_def)

lemma static43_ok_history: "static43_ok (foldl (\<lambda>st x. snd (base43_decode env st x)) base43_load hist)"
proof (induction hist rule: rev_induct)
  case Nil
  show ?case by (simp add: static43_ok_def base43_load_def)
next
  case (snoc x hist)
  then show ?case
    by (auto simp: static43_ok_def base43_decode_def init_base43_index_def fill_index_def Let_def split: sum.splits)
qed

section \<open>Round trip\<close>

lemma b43_text_alphabet: "c \<in> set (b43_text d) \<Longrightarrow> c \<in> set B43CHARS"
  using digits43_digit [of _ "bval d"] by (auto simp: b43_text_def length_B43CHARS split: if_splits)

lemma strip_b43_encode: "strip_pad (b43_encode d p) = b43_text d"
proof -
  have "strip_pad (b43_text d) = b43_text d" using b43_text_alphabet pad_not_B43 by (intro strip_pad_id) blast
  then show ?thesis by (simp add: b43_encode_def pad_to_4_def strip_pad_append)
qed

lemma b43_text_digits: "d \<noteq> [] \<Longrightarrow> map (char_pos B43CHARS) (b43_text d) = digits43 (bval d)"
  using digits43_digit [of _ "bval d"]
  by (auto simp: b43_text_def o_def char_pos_nth distinct_B43CHARS length_B43CHARS intro!: map_idI)

lemma bval_be_min: "bval (be_min v) = v"
  by (induction v rule: be_min.induct) (subst be_min.simps, simp add: bval_def unsigned_of_nat take_bit_nat_eq_self)

lemma strip_zeros_id: "d \<noteq> [] \<Longrightarrow> strip_zeros d = d \<longleftrightarrow> hd d \<noteq> 0 \<or> d = [0]"
proof -
  assume "d \<noteq> []"
  then obtain a ds where d: "d = a # ds" by (cases d) auto
  have "dropWhile (\<lambda>b. b = 0) ds \<noteq> 0 # ds"
    using length_dropWhile_le [of "\<lambda>b. b = 0" ds] by (metis Suc_n_not_le_n length_Cons)
  then show ?thesis by (auto simp: d strip_zeros_def)
qed

lemma digits43_nonempty [simp]: "digits43 v \<noteq> []"
  by (subst digits43.simps) simp

interpretation b43: text_codec b43_encode b43_decode strip_zeros
proof
  fix d p
  show "b43_decode (b43_encode d p) = Some (strip_zeros d)" if "d \<noteq> []"
  proof -
    have "b43_text d \<noteq> []" using that by (simp add: b43_text_def)
    then show ?thesis
      using that by (simp add: b43_decode_def strip_b43_encode list_all_iff b43_text_alphabet b43_text_digits val43_digits43 strip_zeros_be_min)
  qed
  show nonempty: "strip_zeros d = [] \<longleftrightarrow> d = []"
    using strip_zeros_be_min [of d] by (cases "d = []") (simp_all add: strip_zeros_def)
  show "b43_encode (strip_zeros d) p = b43_encode d p"
  proof (cases "d = []")
    case False
    then have "b43_text (strip_zeros d) = b43_text d"
      using nonempty by (simp add: b43_text_def strip_zeros_be_min bval_be_min)
    then show ?thesis by (simp add: b43_encode_def)
  qed (simp add: strip_zeros_def)
qed

section \<open>Properties\<close>

text \<open>C14: \<^verbatim>\<open>base43.encode\<close> writes the data as a number in base 43 and fills up with padding to a
  multiple of four if asked, on every input: its buffer never overflows, so neither of its
  overflow errors is ever raised; it raises only for a wrong type or lack of memory. Whatever
  calls went before, \<^verbatim>\<open>base43.decode\<close> gives the shortest big-endian bytes of the number its
  characters denote, or the error the reference says.\<close>

theorem base43_refines:
  assumes "fresh_ok env" and "mem43 env s"
  shows "base43_encode env d p = base43_encode_ref env d p \<and>
    fst (base43_decode env (foldl (\<lambda>st x. snd (base43_decode env st x)) base43_load hist) s) = base43_decode_ref s"
  using assms base43_encode_eq base43_decode_eq static43_ok_history by blast

theorem base43_refines_witness:
  "base43_encode ample_env Mp_none Mp_none = base43_encode_ref ample_env Mp_none Mp_none \<and>
    fst (base43_decode ample_env (foldl (\<lambda>st x. snd (base43_decode ample_env st x)) base43_load [Mp_none]) (Mp_buffer [0x30])) =
    base43_decode_ref (Mp_buffer [0x30])"
  by (rule base43_refines) (simp_all add: mem43_def ample_env_ok)

text \<open>C30: A round trip through the module gives the data back without its leading zero bytes
  (one zero byte is kept of data that is all zero), padded or not; so exactly the data that
  does not start with a zero byte, and the single zero byte, survive.\<close>

theorem base43_roundtrip:
  assumes "d \<noteq> []" and "fresh_ok env" and "2 * length d + 8 \<le> heap_limit env"
  shows "\<exists>t. base43_encode env (Mp_buffer d) p = Inr t \<and>
    fst (base43_decode env (foldl (\<lambda>st x. snd (base43_decode env st x)) base43_load hist) (Mp_buffer t)) = Inr (strip_zeros d) \<and>
    (strip_zeros d = d \<longleftrightarrow> hd d \<noteq> 0 \<or> d = [0])"
proof -
  let ?t = "b43_encode d (mp_obj_is_true p)"
  have mx: "max_out_len (length d) (mp_obj_is_true p) \<le> heap_limit env"
    using assms(3) by (simp add: max_out_len_def Let_def) linarith
  have "(length (b43_text d) + 3) div 4 * 4 + 1 \<le> heap_limit env" using length_b43_text [of d] assms(3) by linarith
  then have "length ?t + 1 \<le> heap_limit env"
    using length_b43_text [of d] assms(3) by (auto simp: b43_encode_def pad_to_4_def)
  then have "mem43 env (Mp_buffer ?t)" using assms(2) by (simp add: mem43_def)
  then have "fst (base43_decode env (foldl (\<lambda>st x. snd (base43_decode env st x)) base43_load hist) (Mp_buffer ?t)) = Inr (strip_zeros d)"
    using b43.decode_encode [OF assms(1)] by (simp add: base43_decode_eq static43_ok_history base43_decode_ref_def)
  moreover have "strip_zeros d = d \<longleftrightarrow> hd d \<noteq> 0 \<or> d = [0]"
    using assms(1) by (rule strip_zeros_id)
  ultimately show ?thesis
    using mx assms(2) by (auto simp: base43_encode_eq base43_encode_ref_def)
qed

theorem base43_roundtrip_witness:
  "\<exists>t. base43_encode ample_env (Mp_buffer [0, 0x61]) (Mp_int 1) = Inr t \<and>
    fst (base43_decode ample_env (foldl (\<lambda>st x. snd (base43_decode ample_env st x)) base43_load []) (Mp_buffer t)) = Inr (strip_zeros [0, 0x61]) \<and>
    (strip_zeros [0, 0x61] = [0, 0x61] \<longleftrightarrow> hd [0, 0x61 :: u8] \<noteq> 0 \<or> [0, 0x61 :: u8] = [0])"
  by (rule base43_roundtrip) (simp_all add: ample_env_ok)

text \<open>The vector with a leading zero byte of the repository's tests for base 43, and the text they
  expect for it, which has a leading zero digit.\<close>

definition zero_vector :: bytes where
  "zero_vector = [0x00, 0xEB, 0x15, 0x23, 0x1D, 0xFC, 0xEB, 0x60, 0x92, 0x58, 0x86, 0xB6, 0x7D, 0x06, 0x52, 0x99, 0x92, 0x59, 0x15, 0xAE, 0xB1, 0x72, 0xC0, 0x66, 0x47]"

definition zero_vector_text :: bytes where
  "zero_vector_text = map of_char ''03+1P14XU-QM.WJNJV$OBH4XOF5+E9OUY4E-2''"

lemma zero_vector_digits:
  "map b43_char (digits43 (bval zero_vector)) = tl zero_vector_text"
  unfolding zero_vector_def zero_vector_text_def B43CHARS_def bval_def
  by (simp add: digits43.simps)

text \<open>\<^verbatim>\<open>base43.encode\<close> does not give the text the tests expect of data that starts with a
  zero byte: the digit for that byte is missing, and decoding the expected text does not give
  the data back either.\<close>

theorem base43_drops_leading_zero:
  "base43_encode ample_env (Mp_buffer zero_vector) (Mp_int 0) = Inr (tl zero_vector_text) \<and>
   fst (base43_decode ample_env base43_load (Mp_buffer zero_vector_text)) = Inr (tl zero_vector)"
proof -
  have "zero_vector \<noteq> []" "max_out_len (length zero_vector) False \<le> heap_limit ample_env"
    by (simp_all add: zero_vector_def max_out_len_def ample_env_ok)
  then have enc: "base43_encode ample_env (Mp_buffer zero_vector) (Mp_int 0) = Inr (tl zero_vector_text)"
    using zero_vector_digits
    by (simp add: base43_encode_eq ample_env_ok base43_encode_ref_def mp_obj_is_true_def b43_encode_def b43_text_def)
  have st: "static43_ok base43_load" by (simp add: static43_ok_def base43_load_def)
  have mem: "mem43 ample_env (Mp_buffer zero_vector_text)" by (simp add: mem43_def ample_env_ok zero_vector_text_def)
  have t: "zero_vector_text = b43_char 0 # b43_text zero_vector"
    using zero_vector_digits by (simp add: b43_text_def zero_vector_def) (simp add: zero_vector_text_def B43CHARS_def)
  have zero: "b43_char 0 \<in> set B43CHARS" "char_pos B43CHARS (b43_char 0) = 0"
    by (simp_all add: length_B43CHARS char_pos_nth distinct_B43CHARS)
  have "set zero_vector_text \<subseteq> set B43CHARS" unfolding t using b43_text_alphabet zero(1) by auto
  then have "strip_pad zero_vector_text = zero_vector_text" using pad_not_B43 by (intro strip_pad_id) blast
  moreover have "val43 (map (char_pos B43CHARS) zero_vector_text) = bval zero_vector"
  proof -
    have "val43 (0 # xs) = val43 xs" for xs by (simp add: val43_def)
    then show ?thesis unfolding t using zero \<open>zero_vector \<noteq> []\<close> by (simp add: b43_text_digits val43_digits43)
  qed
  moreover have "be_min (bval zero_vector) = tl zero_vector"
    using strip_zeros_be_min [OF \<open>zero_vector \<noteq> []\<close>] by (simp add: strip_zeros_def zero_vector_def)
  ultimately have "b43_decode zero_vector_text = Some (tl zero_vector)"
    using \<open>set zero_vector_text \<subseteq> set B43CHARS\<close> by (auto simp: b43_decode_def t list_all_iff)
  then show ?thesis using enc base43_decode_eq [OF st mem] by (simp add: base43_decode_ref_def)
qed

end
