(* ===== verification/W25qxx.thy ===== *)
theory W25qxx
  imports Mp_Obj
begin

text \<open>
  \<^verbatim>\<open>drivers/flash/src/w25qxx.c\<close>: the driver of the serial NOR flash. The SPI controller and the
  chip behind it are a parameter, a function from an SPI call and a device state to the bytes
  received and the next device state; the driver's own state is the bus it uses and the two
  function pointers that select standard or quad transfers. A function that waits for the chip
  returns \<open>None\<close> when the wait does not end (or when it calls through a null pointer).
\<close>

section \<open>Calls to the SPI layer\<close>

datatype spi_frame_format = SPI_FF_STANDARD | SPI_FF_DUAL | SPI_FF_QUAD

datatype spi_trans_mode = SPI_AITM_STANDARD | SPI_AITM_ADDR_STANDARD

datatype spi_call =
    Spi_init u32 spi_frame_format
  | Spi_set_clk_rate u32 u32
  | Spi_init_non_standard u32 nat nat nat spi_trans_mode
  | Spi_send_standard u32 u32 bytes bytes
  | Spi_receive_standard u32 u32 bytes nat
  | Spi_send_multiple u32 u32 "u32 list" bytes
  | Spi_receive_multiple u32 u32 "u32 list" nat

type_synonym 'd spi = "spi_call \<Rightarrow> 'd \<Rightarrow> bytes \<times> 'd"

datatype page_program_fun = Page_program | Quad_page_program

datatype read_fun = Stand_read | Quad_read

record 'd w25qxx =
  spi_bus_no :: u32
  spi_chip_select :: u32
  w25qxx_page_program_fun :: "page_program_fun option"
  w25qxx_read_fun :: "read_fun option"
  dev :: 'd

definition w25qxx_FLASH_PAGE_SIZE :: nat where "w25qxx_FLASH_PAGE_SIZE = 256"
definition w25qxx_FLASH_SECTOR_SIZE :: nat where "w25qxx_FLASH_SECTOR_SIZE = 4096"
definition w25qxx_FLASH_PAGE_NUM_PER_SECTOR :: nat where "w25qxx_FLASH_PAGE_NUM_PER_SECTOR = 16"
definition WRITE_ENABLE :: u8 where "WRITE_ENABLE = 0x06"
definition READ_REG1 :: u8 where "READ_REG1 = 0x05"
definition READ_REG2 :: u8 where "READ_REG2 = 0x35"
definition READ_REG3 :: u8 where "READ_REG3 = 0x15"
definition WRITE_REG1 :: u8 where "WRITE_REG1 = 0x01"
definition WRITE_REG2 :: u8 where "WRITE_REG2 = 0x31"
definition WRITE_REG3 :: u8 where "WRITE_REG3 = 0x11"
definition READ_DATA :: u8 where "READ_DATA = 0x03"
definition FAST_READ :: u8 where "FAST_READ = 0x0B"
definition FAST_READ_DUAL_OUTPUT :: u32 where "FAST_READ_DUAL_OUTPUT = 0x3B"
definition FAST_READ_QUAL_OUTPUT :: u32 where "FAST_READ_QUAL_OUTPUT = 0x6B"
definition FAST_READ_DUAL_IO :: u32 where "FAST_READ_DUAL_IO = 0xBB"
definition FAST_READ_QUAL_IO :: u32 where "FAST_READ_QUAL_IO = 0xEB"
definition PAGE_PROGRAM :: u8 where "PAGE_PROGRAM = 0x02"
definition QUAD_PAGE_PROGRAM :: u32 where "QUAD_PAGE_PROGRAM = 0x32"
definition SECTOR_ERASE :: u8 where "SECTOR_ERASE = 0x20"
definition BLOCK_32K_ERASE :: u8 where "BLOCK_32K_ERASE = 0x52"
definition BLOCK_64K_ERASE :: u8 where "BLOCK_64K_ERASE = 0xD8"
definition CHIP_ERASE :: u8 where "CHIP_ERASE = 0xC7"
definition READ_ID :: u8 where "READ_ID = 0x90"
definition REG1_BUSY_MASK :: u8 where "REG1_BUSY_MASK = 0x01"
definition REG2_QUAL_MASK :: u8 where "REG2_QUAL_MASK = 0x02"

definition spi_do :: "'d spi \<Rightarrow> spi_call \<Rightarrow> 'd w25qxx \<Rightarrow> 'd w25qxx" where
  "spi_do spi c s = s\<lparr>dev := snd (spi c (dev s))\<rparr>"

definition spi_get :: "'d spi \<Rightarrow> spi_call \<Rightarrow> 'd w25qxx \<Rightarrow> bytes \<times> 'd w25qxx" where
  "spi_get spi c s = (fst (spi c (dev s)), s\<lparr>dev := snd (spi c (dev s))\<rparr>)"

section \<open>Transfers and registers\<close>

definition w25qxx_receive_data_dma :: "'d spi \<Rightarrow> bytes \<Rightarrow> nat \<Rightarrow> 'd w25qxx \<Rightarrow> bytes \<times> 'd w25qxx" where
  "w25qxx_receive_data_dma spi cmd_buff rx_len s =
     (let s = spi_do spi (Spi_init (spi_bus_no s) SPI_FF_STANDARD) s
      in spi_get spi (Spi_receive_standard (spi_bus_no s) (spi_chip_select s) cmd_buff rx_len) s)"

definition w25qxx_send_data_dma :: "'d spi \<Rightarrow> bytes \<Rightarrow> bytes \<Rightarrow> 'd w25qxx \<Rightarrow> 'd w25qxx" where
  "w25qxx_send_data_dma spi cmd_buff tx_buff s =
     (let s = spi_do spi (Spi_init (spi_bus_no s) SPI_FF_STANDARD) s
      in spi_do spi (Spi_send_standard (spi_bus_no s) (spi_chip_select s) cmd_buff tx_buff) s)"

definition w25qxx_receive_data_enhanced_dma :: "'d spi \<Rightarrow> u32 list \<Rightarrow> nat \<Rightarrow> 'd w25qxx \<Rightarrow> bytes \<times> 'd w25qxx" where
  "w25qxx_receive_data_enhanced_dma spi cmd_buff rx_len s =
     spi_get spi (Spi_receive_multiple (spi_bus_no s) (spi_chip_select s) cmd_buff rx_len) s"

definition w25qxx_send_data_enhanced_dma :: "'d spi \<Rightarrow> u32 list \<Rightarrow> bytes \<Rightarrow> 'd w25qxx \<Rightarrow> 'd w25qxx" where
  "w25qxx_send_data_enhanced_dma spi cmd_buff tx_buff s =
     spi_do spi (Spi_send_multiple (spi_bus_no s) (spi_chip_select s) cmd_buff tx_buff) s"

definition w25qxx_init_dma :: "'d spi \<Rightarrow> u32 \<Rightarrow> u8 \<Rightarrow> u8 \<Rightarrow> 'd w25qxx \<Rightarrow> 'd w25qxx" where
  "w25qxx_init_dma spi cpu_freq spi_index spi_ss s =
     (let s = s\<lparr>spi_bus_no := ucast spi_index, spi_chip_select := ucast spi_ss\<rparr>;
          s = spi_do spi (Spi_init (spi_bus_no s) SPI_FF_STANDARD) s;
          spi_clk = cpu_freq div 400 * 25;
          s = spi_do spi (Spi_set_clk_rate (spi_bus_no s) spi_clk) s
      in s\<lparr>w25qxx_page_program_fun := Some Page_program, w25qxx_read_fun := Some Stand_read\<rparr>)"

definition w25qxx_read_id_dma :: "'d spi \<Rightarrow> 'd w25qxx \<Rightarrow> (u8 \<times> u8) \<times> 'd w25qxx" where
  "w25qxx_read_id_dma spi s =
     (let (data, s) = w25qxx_receive_data_dma spi [READ_ID, 0, 0, 0] 2 s in ((data ! 0, data ! 1), s))"

definition w25qxx_write_enable_dma :: "'d spi \<Rightarrow> 'd w25qxx \<Rightarrow> 'd w25qxx" where
  "w25qxx_write_enable_dma spi s = w25qxx_send_data_dma spi [WRITE_ENABLE] [] s"

definition w25qxx_write_status_reg_dma :: "'d spi \<Rightarrow> u8 \<Rightarrow> u8 \<Rightarrow> 'd w25qxx \<Rightarrow> 'd w25qxx" where
  "w25qxx_write_status_reg_dma spi reg1_data reg2_data s =
     w25qxx_send_data_dma spi [WRITE_REG1, reg1_data, reg2_data] [] (w25qxx_write_enable_dma spi s)"

definition w25qxx_write_status_reg1_dma :: "'d spi \<Rightarrow> u8 \<Rightarrow> 'd w25qxx \<Rightarrow> 'd w25qxx" where
  "w25qxx_write_status_reg1_dma spi reg_data s =
     w25qxx_send_data_dma spi [WRITE_REG1, reg_data] [] (w25qxx_write_enable_dma spi s)"

definition w25qxx_write_status_reg2_dma :: "'d spi \<Rightarrow> u8 \<Rightarrow> 'd w25qxx \<Rightarrow> 'd w25qxx" where
  "w25qxx_write_status_reg2_dma spi reg_data s =
     w25qxx_send_data_dma spi [WRITE_REG2, reg_data] [] (w25qxx_write_enable_dma spi s)"

definition w25qxx_write_status_reg3_dma :: "'d spi \<Rightarrow> u8 \<Rightarrow> 'd w25qxx \<Rightarrow> 'd w25qxx" where
  "w25qxx_write_status_reg3_dma spi reg_data s =
     w25qxx_send_data_dma spi [WRITE_REG3, reg_data] [] (w25qxx_write_enable_dma spi s)"

definition w25qxx_read_status_reg1_dma :: "'d spi \<Rightarrow> 'd w25qxx \<Rightarrow> u8 \<times> 'd w25qxx" where
  "w25qxx_read_status_reg1_dma spi s = (let (data, s) = w25qxx_receive_data_dma spi [READ_REG1] 1 s in (data ! 0, s))"

definition w25qxx_read_status_reg2_dma :: "'d spi \<Rightarrow> 'd w25qxx \<Rightarrow> u8 \<times> 'd w25qxx" where
  "w25qxx_read_status_reg2_dma spi s = (let (data, s) = w25qxx_receive_data_dma spi [READ_REG2] 1 s in (data ! 0, s))"

definition w25qxx_read_status_reg3_dma :: "'d spi \<Rightarrow> 'd w25qxx \<Rightarrow> u8 \<times> 'd w25qxx" where
  "w25qxx_read_status_reg3_dma spi s = (let (data, s) = w25qxx_receive_data_dma spi [READ_REG3] 1 s in (data ! 0, s))"

definition w25qxx_is_busy_dma :: "'d spi \<Rightarrow> 'd w25qxx \<Rightarrow> bool \<times> 'd w25qxx" where
  "w25qxx_is_busy_dma spi s =
     (let (status, s) = w25qxx_read_status_reg1_dma spi s in (status AND REG1_BUSY_MASK \<noteq> 0, s))"

partial_function (option) wait_busy :: "'d spi \<Rightarrow> 'd w25qxx \<Rightarrow> 'd w25qxx option" where
  "wait_busy spi s =
     (if fst (w25qxx_is_busy_dma spi s) then wait_busy spi (snd (w25qxx_is_busy_dma spi s))
      else Some (snd (w25qxx_is_busy_dma spi s)))"

section \<open>Erasing, quad mode, programming\<close>

definition addr_cmd :: "u8 \<Rightarrow> u32 \<Rightarrow> bytes" where
  "addr_cmd c addr = [c, ucast (drop_bit 16 addr), ucast (drop_bit 8 addr), ucast addr]"

definition w25qxx_sector_erase_dma :: "'d spi \<Rightarrow> u32 \<Rightarrow> 'd w25qxx \<Rightarrow> 'd w25qxx" where
  "w25qxx_sector_erase_dma spi addr s =
     w25qxx_send_data_dma spi (addr_cmd SECTOR_ERASE addr) [] (w25qxx_write_enable_dma spi s)"

definition w25qxx_32k_block_erase_dma :: "'d spi \<Rightarrow> u32 \<Rightarrow> 'd w25qxx \<Rightarrow> 'd w25qxx" where
  "w25qxx_32k_block_erase_dma spi addr s =
     w25qxx_send_data_dma spi (addr_cmd BLOCK_32K_ERASE addr) [] (w25qxx_write_enable_dma spi s)"

definition w25qxx_64k_block_erase_dma :: "'d spi \<Rightarrow> u32 \<Rightarrow> 'd w25qxx \<Rightarrow> 'd w25qxx" where
  "w25qxx_64k_block_erase_dma spi addr s =
     w25qxx_send_data_dma spi (addr_cmd BLOCK_64K_ERASE addr) [] (w25qxx_write_enable_dma spi s)"

definition w25qxx_chip_erase_dma :: "'d spi \<Rightarrow> 'd w25qxx \<Rightarrow> 'd w25qxx" where
  "w25qxx_chip_erase_dma spi s = w25qxx_send_data_dma spi [CHIP_ERASE] [] (w25qxx_write_enable_dma spi s)"

definition w25qxx_enable_quad_mode_dma :: "'d spi \<Rightarrow> 'd w25qxx \<Rightarrow> 'd w25qxx option" where
  "w25qxx_enable_quad_mode_dma spi s =
     (let (reg_data, s) = w25qxx_read_status_reg2_dma spi s in
      (case (if reg_data AND REG2_QUAL_MASK = 0 then
               let reg_data = reg_data OR REG2_QUAL_MASK;
                   s = w25qxx_write_status_reg2_dma spi reg_data s;
                   s = w25qxx_write_status_reg_dma spi 0 reg_data s
               in wait_busy spi s
             else Some s) of
         None \<Rightarrow> None
       | Some s \<Rightarrow> Some (s\<lparr>w25qxx_page_program_fun := Some Quad_page_program, w25qxx_read_fun := Some Quad_read\<rparr>)))"

definition w25qxx_disable_quad_mode_dma :: "'d spi \<Rightarrow> 'd w25qxx \<Rightarrow> 'd w25qxx option" where
  "w25qxx_disable_quad_mode_dma spi s =
     (let (reg_data, s) = w25qxx_read_status_reg2_dma spi s in
      (case (if reg_data AND REG2_QUAL_MASK \<noteq> 0 then
               let reg_data = reg_data AND NOT REG2_QUAL_MASK;
                   s = w25qxx_write_status_reg2_dma spi reg_data s;
                   s = w25qxx_write_status_reg_dma spi 0 reg_data s
               in wait_busy spi s
             else Some s) of
         None \<Rightarrow> None
       | Some s \<Rightarrow> Some (s\<lparr>w25qxx_page_program_fun := Some Page_program, w25qxx_read_fun := Some Stand_read\<rparr>)))"

definition w25qxx_page_program_dma :: "'d spi \<Rightarrow> u32 \<Rightarrow> bytes \<Rightarrow> 'd w25qxx \<Rightarrow> 'd w25qxx option" where
  "w25qxx_page_program_dma spi addr data_buf s =
     wait_busy spi (w25qxx_send_data_dma spi (addr_cmd PAGE_PROGRAM addr) data_buf (w25qxx_write_enable_dma spi s))"

definition w25qxx_quad_page_program_dma :: "'d spi \<Rightarrow> u32 \<Rightarrow> bytes \<Rightarrow> 'd w25qxx \<Rightarrow> 'd w25qxx option" where
  "w25qxx_quad_page_program_dma spi addr data_buf s =
     (let s = w25qxx_write_enable_dma spi s;
          s = spi_do spi (Spi_init (spi_bus_no s) SPI_FF_QUAD) s;
          s = spi_do spi (Spi_init_non_standard (spi_bus_no s) 8 24 0 SPI_AITM_STANDARD) s;
          s = w25qxx_send_data_enhanced_dma spi [QUAD_PAGE_PROGRAM, addr] data_buf s
      in wait_busy spi s)"

definition call_page_program :: "'d spi \<Rightarrow> u32 \<Rightarrow> bytes \<Rightarrow> 'd w25qxx \<Rightarrow> 'd w25qxx option" where
  "call_page_program spi addr data_buf s =
     (case w25qxx_page_program_fun s of
        Some Page_program \<Rightarrow> w25qxx_page_program_dma spi addr data_buf s
      | Some Quad_page_program \<Rightarrow> w25qxx_quad_page_program_dma spi addr data_buf s
      | None \<Rightarrow> None)"

text \<open>The loop over the sixteen pages of a sector.\<close>

fun sector_pages :: "'d spi \<Rightarrow> nat \<Rightarrow> u32 \<Rightarrow> bytes \<Rightarrow> 'd w25qxx \<Rightarrow> 'd w25qxx option" where
  "sector_pages spi 0 addr data_buf s = Some s"
| "sector_pages spi (Suc n) addr data_buf s =
     (case call_page_program spi addr (take w25qxx_FLASH_PAGE_SIZE data_buf) s of
        None \<Rightarrow> None
      | Some s \<Rightarrow> sector_pages spi n (addr + of_nat w25qxx_FLASH_PAGE_SIZE) (drop w25qxx_FLASH_PAGE_SIZE data_buf) s)"

definition w25qxx_sector_program :: "'d spi \<Rightarrow> u32 \<Rightarrow> bytes \<Rightarrow> 'd w25qxx \<Rightarrow> 'd w25qxx option" where
  "w25qxx_sector_program spi addr data_buf s = sector_pages spi w25qxx_FLASH_PAGE_NUM_PER_SECTOR addr data_buf s"

section \<open>Reading\<close>

datatype w25qxx_read_mode = W25QXX_STANDARD | W25QXX_STANDARD_FAST | W25QXX_DUAL | W25QXX_DUAL_FAST | W25QXX_QUAD | W25QXX_QUAD_FAST

definition read_enhanced ::
  "'d spi \<Rightarrow> spi_frame_format \<Rightarrow> nat \<Rightarrow> nat \<Rightarrow> spi_trans_mode \<Rightarrow> u32 list \<Rightarrow> nat \<Rightarrow> 'd w25qxx \<Rightarrow> bytes \<times> 'd w25qxx" where
  "read_enhanced spi ff address_length wait_cycles aitm cmd len s =
     (let s = spi_do spi (Spi_init (spi_bus_no s) ff) s;
          s = spi_do spi (Spi_init_non_standard (spi_bus_no s) 8 address_length wait_cycles aitm) s
      in w25qxx_receive_data_enhanced_dma spi cmd len s)"

definition read_chunk_dma :: "'d spi \<Rightarrow> u32 \<Rightarrow> nat \<Rightarrow> w25qxx_read_mode \<Rightarrow> 'd w25qxx \<Rightarrow> bytes \<times> 'd w25qxx" where
  "read_chunk_dma spi addr len mode s =
     (case mode of
        W25QXX_STANDARD \<Rightarrow> w25qxx_receive_data_dma spi (addr_cmd READ_DATA addr) len s
      | W25QXX_STANDARD_FAST \<Rightarrow> w25qxx_receive_data_dma spi (addr_cmd FAST_READ addr @ [0xFF]) len s
      | W25QXX_DUAL \<Rightarrow> read_enhanced spi SPI_FF_DUAL 24 8 SPI_AITM_STANDARD [FAST_READ_DUAL_OUTPUT, addr] len s
      | W25QXX_DUAL_FAST \<Rightarrow> read_enhanced spi SPI_FF_DUAL 32 0 SPI_AITM_ADDR_STANDARD [FAST_READ_DUAL_IO, push_bit 8 addr] len s
      | W25QXX_QUAD \<Rightarrow> read_enhanced spi SPI_FF_QUAD 24 8 SPI_AITM_STANDARD [FAST_READ_QUAL_OUTPUT, addr] len s
      | W25QXX_QUAD_FAST \<Rightarrow> read_enhanced spi SPI_FF_QUAD 32 4 SPI_AITM_ADDR_STANDARD [FAST_READ_QUAL_IO, push_bit 8 addr] len s)"

function w25qxx_read_data_dma :: "'d spi \<Rightarrow> u32 \<Rightarrow> nat \<Rightarrow> w25qxx_read_mode \<Rightarrow> 'd w25qxx \<Rightarrow> bytes \<times> 'd w25qxx" where
  "w25qxx_read_data_dma spi addr len mode s =
     (if len = 0 then ([], s)
      else
        let n = (if 0x10000 \<le> len then 0x10000 else len);
            (b, s) = read_chunk_dma spi addr n mode s;
            (rest, s) = w25qxx_read_data_dma spi (addr + of_nat n) (len - n) mode s
        in (b @ rest, s))"
  by pat_completeness auto
termination
  by (relation "measure (\<lambda>(spi, addr, len, mode, s). len)") auto

definition w25qxx_stand_read_data_dma :: "'d spi \<Rightarrow> u32 \<Rightarrow> nat \<Rightarrow> 'd w25qxx \<Rightarrow> bytes \<times> 'd w25qxx" where
  "w25qxx_stand_read_data_dma spi addr len s = w25qxx_read_data_dma spi addr len W25QXX_STANDARD_FAST s"

definition w25qxx_quad_read_data_dma :: "'d spi \<Rightarrow> u32 \<Rightarrow> nat \<Rightarrow> 'd w25qxx \<Rightarrow> bytes \<times> 'd w25qxx" where
  "w25qxx_quad_read_data_dma spi addr len s = w25qxx_read_data_dma spi addr len W25QXX_QUAD_FAST s"

definition call_read :: "'d spi \<Rightarrow> u32 \<Rightarrow> nat \<Rightarrow> 'd w25qxx \<Rightarrow> (bytes \<times> 'd w25qxx) option" where
  "call_read spi addr len s =
     (case w25qxx_read_fun s of
        Some Stand_read \<Rightarrow> Some (w25qxx_stand_read_data_dma spi addr len s)
      | Some Quad_read \<Rightarrow> Some (w25qxx_quad_read_data_dma spi addr len s)
      | None \<Rightarrow> None)"

section \<open>Writing\<close>

text \<open>A sector is erased when some byte to write has a bit set that the flash has cleared; then
  the whole sector is programmed, from the data or from the patched copy in \<open>swap_buf\<close>.\<close>

definition needs_erase :: "bytes \<Rightarrow> bytes \<Rightarrow> bool" where
  "needs_erase pwrite pread = list_ex (\<lambda>(w, r). w \<noteq> w AND r) (zip pwrite pread)"

definition write_sector :: "'d spi \<Rightarrow> u32 \<Rightarrow> nat \<Rightarrow> bytes \<Rightarrow> 'd w25qxx \<Rightarrow> 'd w25qxx option" where
  "write_sector spi sector_addr sector_offset pwrite s =
     (case call_read spi sector_addr w25qxx_FLASH_SECTOR_SIZE s of
        None \<Rightarrow> None
      | Some (swap_buf, s) \<Rightarrow>
          (case (if needs_erase pwrite (drop sector_offset swap_buf)
                 then wait_busy spi (w25qxx_sector_erase_dma spi sector_addr s) else Some s) of
             None \<Rightarrow> None
           | Some s \<Rightarrow>
               if length pwrite = w25qxx_FLASH_SECTOR_SIZE then w25qxx_sector_program spi sector_addr pwrite s
               else w25qxx_sector_program spi sector_addr (memcpy_at swap_buf sector_offset pwrite) s))"

function w25qxx_write_data_dma :: "'d spi \<Rightarrow> u32 \<Rightarrow> bytes \<Rightarrow> 'd w25qxx \<Rightarrow> 'd w25qxx option" where
  "w25qxx_write_data_dma spi addr data_buf s =
     (if data_buf = [] then Some s
      else
        let sector_addr = addr AND NOT (of_nat w25qxx_FLASH_SECTOR_SIZE - 1);
            sector_offset = unat (addr AND (of_nat w25qxx_FLASH_SECTOR_SIZE - 1));
            sector_remain = w25qxx_FLASH_SECTOR_SIZE - sector_offset;
            write_len = (if length data_buf < sector_remain then length data_buf else sector_remain)
        in (case write_sector spi sector_addr sector_offset (take write_len data_buf) s of
              None \<Rightarrow> None
            | Some s \<Rightarrow> w25qxx_write_data_dma spi (addr + of_nat write_len) (drop write_len data_buf) s))"
  by pat_completeness auto
termination
proof (relation "measure (\<lambda>(spi, addr, data_buf, s). length data_buf)", goal_cases)
  case (2 spi addr data_buf s sector_addr sector_offset sector_remain write_len s')
  have "addr AND 4095 \<le> 4095" by (rule word_and_le1)
  then have "sector_offset < 4096" using 2 by (simp add: w25qxx_FLASH_SECTOR_SIZE_def word_le_nat_alt)
  then show ?case using 2 by (simp add: w25qxx_FLASH_SECTOR_SIZE_def)
qed simp

function w25qxx_write_data_direct_dma :: "'d spi \<Rightarrow> u32 \<Rightarrow> bytes \<Rightarrow> 'd w25qxx \<Rightarrow> 'd w25qxx option" where
  "w25qxx_write_data_direct_dma spi addr data_buf s =
     (if data_buf = [] then Some s
      else
        let page_remain = w25qxx_FLASH_PAGE_SIZE - unat (addr AND (of_nat w25qxx_FLASH_PAGE_SIZE - 1));
            write_len = (if length data_buf < page_remain then length data_buf else page_remain)
        in (case call_page_program spi addr (take write_len data_buf) s of
              None \<Rightarrow> None
            | Some s \<Rightarrow> w25qxx_write_data_direct_dma spi (addr + of_nat write_len) (drop write_len data_buf) s))"
  by pat_completeness auto
termination
proof (relation "measure (\<lambda>(spi, addr, data_buf, s). length data_buf)", goal_cases)
  case (2 spi addr data_buf s page_remain write_len s')
  have "addr AND 255 \<le> 255" by (rule word_and_le1)
  then have "0 < page_remain" using 2 by (simp add: w25qxx_FLASH_PAGE_SIZE_def word_le_nat_alt)
  then show ?case using 2 by simp
qed simp

declare w25qxx_read_data_dma.simps [simp del] w25qxx_write_data_dma.simps [simp del]
  w25qxx_write_data_direct_dma.simps [simp del]

end
