(* ===== verification/Nor_Chip.thy ===== *)
theory Nor_Chip
  imports W25qxx
begin

text \<open>
  The hypothesis on the SPI controller and the chip: what the data sheet of the W25Q family
  says of the commands the driver sends. A state of the device is seen through \<open>nor\<close>: the
  contents of the array, the write-enable latch, how many more status reads will find it busy,
  the quad-enable bit, and the controller's frame format. \<open>nor_cmd\<close> says what a call does at a
  moment, and \<open>nor_step\<close> lets time pass before it; a command the data sheet does not define may
  do anything. While the chip is busy it ignores every command but the status read.
\<close>

record nor =
  contents :: "nat \<Rightarrow> u8"
  latch :: bool
  waiting :: nat
  quad :: bool
  ff :: spi_frame_format
  frame :: "nat \<times> nat \<times> nat \<times> spi_trans_mode"

definition addr24 :: "u8 \<Rightarrow> u8 \<Rightarrow> u8 \<Rightarrow> nat" where
  "addr24 a b c = unat a * 65536 + unat b * 256 + unat c"

definition chip_size :: nat where "chip_size = 2 ^ 24"

definition erase :: "nat \<Rightarrow> nat \<Rightarrow> (nat \<Rightarrow> u8) \<Rightarrow> nat \<Rightarrow> u8" where
  "erase sz a m i = (if i div sz = a div sz then 0xFF else m i)"

definition program :: "nat \<Rightarrow> bytes \<Rightarrow> (nat \<Rightarrow> u8) \<Rightarrow> nat \<Rightarrow> u8" where
  "program a d m i = (if a \<le> i \<and> i < a + length d then m i AND d ! (i - a) else m i)"

definition read_at :: "(nat \<Rightarrow> u8) \<Rightarrow> nat \<Rightarrow> nat \<Rightarrow> bytes" where
  "read_at m a n = map (\<lambda>i. m ((a + i) mod chip_size)) [0..<n]"

definition in_page :: "nat \<Rightarrow> bytes \<Rightarrow> bool" where
  "in_page a d = (d \<noteq> [] \<and> a mod 256 + length d \<le> 256)"

text \<open>A command that changes the array or the registers needs the latch, clears it and leaves the
  chip busy for some time.\<close>

definition modified :: "nor \<Rightarrow> (nat \<Rightarrow> u8) \<Rightarrow> bool \<Rightarrow> nor \<Rightarrow> bool" where
  "modified n m q n' = (\<exists>w. n' = n\<lparr>contents := m, quad := q, latch := False, waiting := w\<rparr>)"

fun send_cmd :: "bytes \<Rightarrow> bytes \<Rightarrow> nor \<Rightarrow> nor \<Rightarrow> bool" where
  "send_cmd [c] d n n' =
     (if c = 0x06 \<and> d = [] then n' = n\<lparr>latch := True\<rparr>
      else if c = 0xC7 \<and> d = [] then (if latch n then modified n (\<lambda>i. 0xFF) (quad n) n' else n' = n)
      else True)"
| "send_cmd [c, r] d n n' =
     (if c = 0x31 \<and> d = [] then (if latch n then modified n (contents n) (bit r 1) n' else n' = n) else True)"
| "send_cmd [c, r1, r2] d n n' =
     (if c = 0x01 \<and> d = [] then (if latch n then modified n (contents n) (bit r2 1) n' else n' = n) else True)"
| "send_cmd [c, a2, a1, a0] d n n' =
     (let a = addr24 a2 a1 a0 in
      if c = 0x20 \<and> d = [] then (if latch n then modified n (erase 4096 a (contents n)) (quad n) n' else n' = n)
      else if c = 0x52 \<and> d = [] then (if latch n then modified n (erase 32768 a (contents n)) (quad n) n' else n' = n)
      else if c = 0xD8 \<and> d = [] then (if latch n then modified n (erase 65536 a (contents n)) (quad n) n' else n' = n)
      else if c = 0x02 \<and> in_page a d then (if latch n then modified n (program a d (contents n)) (quad n) n' else n' = n)
      else True)"
| "send_cmd _ d n n' = True"

fun receive_cmd :: "bytes \<Rightarrow> nat \<Rightarrow> nor \<Rightarrow> bytes \<Rightarrow> nor \<Rightarrow> bool" where
  "receive_cmd [c] k n out n' =
     (if c = 0x35 \<and> k = 1 then n' = n \<and> (\<exists>r. out = [r] \<and> (bit r 1 \<longleftrightarrow> quad n)) else True)"
| "receive_cmd [c, a2, a1, a0] k n out n' =
     (if c = 0x03 then n' = n \<and> out = read_at (contents n) (addr24 a2 a1 a0) k
      else if c = 0x90 \<and> k = 2 then n' = n \<and> length out = 2
      else True)"
| "receive_cmd [c, a2, a1, a0, x] k n out n' =
     (if c = 0x0B then n' = n \<and> out = read_at (contents n) (addr24 a2 a1 a0) k else True)"
| "receive_cmd _ k n out n' = True"

definition multi_read_addr :: "nor \<Rightarrow> u32 \<Rightarrow> u32 \<Rightarrow> nat option" where
  "multi_read_addr n c a =
     (if c = 0x3B \<and> ff n = SPI_FF_DUAL \<and> frame n = (8, 24, 8, SPI_AITM_STANDARD) then Some (unat a)
      else if c = 0xBB \<and> ff n = SPI_FF_DUAL \<and> frame n = (8, 32, 0, SPI_AITM_ADDR_STANDARD) then Some (unat (drop_bit 8 a))
      else if c = 0x6B \<and> quad n \<and> ff n = SPI_FF_QUAD \<and> frame n = (8, 24, 8, SPI_AITM_STANDARD) then Some (unat a)
      else if c = 0xEB \<and> quad n \<and> ff n = SPI_FF_QUAD \<and> frame n = (8, 32, 4, SPI_AITM_ADDR_STANDARD) then Some (unat (drop_bit 8 a))
      else None)"

fun nor_cmd :: "spi_call \<Rightarrow> nor \<Rightarrow> bytes \<Rightarrow> nor \<Rightarrow> bool" where
  "nor_cmd (Spi_init b f) n out n' = (n' = n\<lparr>ff := f\<rparr>)"
| "nor_cmd (Spi_set_clk_rate b r) n out n' = (n' = n)"
| "nor_cmd (Spi_init_non_standard b i a w t) n out n' = (n' = n\<lparr>frame := (i, a, w, t)\<rparr>)"
| "nor_cmd (Spi_send_standard b cs c d) n out n' =
     (if ff n \<noteq> SPI_FF_STANDARD then True else if 0 < waiting n then n' = n else send_cmd c d n n')"
| "nor_cmd (Spi_receive_standard b cs c k) n out n' =
     (if ff n \<noteq> SPI_FF_STANDARD then True
      else if c = [0x05] \<and> k = 1 then
        n' = n\<lparr>waiting := waiting n - 1\<rparr> \<and> (\<exists>r. out = [r] \<and> (bit r 0 \<longleftrightarrow> 0 < waiting n))
      else if 0 < waiting n then n' = n
      else receive_cmd c k n out n')"
| "nor_cmd (Spi_send_multiple b cs c d) n out n' =
     (if 0 < waiting n then n' = n
      else if hd c = 0x32 \<and> length c = 2 \<and> quad n \<and> ff n = SPI_FF_QUAD \<and> frame n = (8, 24, 0, SPI_AITM_STANDARD) \<and>
        in_page (unat (c ! 1) mod chip_size) d
      then (if latch n then modified n (program (unat (c ! 1) mod chip_size) d (contents n)) (quad n) n' else n' = n)
      else True)"
| "nor_cmd (Spi_receive_multiple b cs c k) n out n' =
     (if 0 < waiting n then n' = n
      else if length c = 2 then
        (case multi_read_addr n (c ! 0) (c ! 1) of
           Some a \<Rightarrow> n' = n \<and> out = read_at (contents n) (a mod chip_size) k
         | None \<Rightarrow> True)
      else True)"

definition nor_step :: "spi_call \<Rightarrow> nor \<Rightarrow> bytes \<Rightarrow> nor \<Rightarrow> bool" where
  "nor_step c n out n' = (\<exists>w \<le> waiting n. nor_cmd c (n\<lparr>waiting := w\<rparr>) out n')"

definition chip_ok :: "'d spi \<Rightarrow> ('d \<Rightarrow> nor) \<Rightarrow> bool" where
  "chip_ok spi view = (\<forall>c d. nor_step c (view d) (fst (spi c d)) (view (snd (spi c d))))"

section \<open>One call\<close>

text \<open>On an idle chip no time needs to pass.\<close>

lemma nor_step_idle: "waiting n = 0 \<Longrightarrow> nor_step c n out n' \<longleftrightarrow> nor_cmd c n out n'"
  by (cases n) (simp add: nor_step_def)

lemma chip_okD: "chip_ok spi view \<Longrightarrow> nor_step c (view d) (fst (spi c d)) (view (snd (spi c d)))"
  by (simp add: chip_ok_def)

definition nview :: "('d \<Rightarrow> nor) \<Rightarrow> 'd w25qxx \<Rightarrow> nor" where
  "nview view s = view (dev s)"

definition idle :: "('d \<Rightarrow> nor) \<Rightarrow> 'd w25qxx \<Rightarrow> bool" where
  "idle view s = (waiting (nview view s) = 0)"

text \<open>What a call leaves of the driver's own variables.\<close>

definition same_drv :: "'d w25qxx \<Rightarrow> 'd w25qxx \<Rightarrow> bool" where
  "same_drv s s' = (\<exists>d. s' = s\<lparr>dev := d\<rparr>)"

lemma same_drv_refl [simp]: "same_drv s s"
  by (auto simp: same_drv_def intro: exI [of _ "dev s"])

lemma same_drv_trans [trans]: "same_drv s s' \<Longrightarrow> same_drv s' s'' \<Longrightarrow> same_drv s s''"
  by (auto simp: same_drv_def)

lemma same_drv_spi [simp]: "same_drv s (spi_do spi c s)" "same_drv s (snd (spi_get spi c s))"
  by (auto simp: same_drv_def spi_do_def spi_get_def)

lemma same_drv_fields:
  "same_drv s s' \<Longrightarrow> spi_bus_no s' = spi_bus_no s \<and> spi_chip_select s' = spi_chip_select s \<and>
     w25qxx_page_program_fun s' = w25qxx_page_program_fun s \<and> w25qxx_read_fun s' = w25qxx_read_fun s"
  by (auto simp: same_drv_def)

lemma spi_do_idle:
  "chip_ok spi view \<Longrightarrow> idle view s \<Longrightarrow> \<exists>out. nor_cmd c (nview view s) out (nview view (spi_do spi c s))"
  using chip_okD [of spi view c "dev s"] by (auto simp: idle_def nview_def spi_do_def nor_step_idle)

lemma spi_do_step:
  "chip_ok spi view \<Longrightarrow> \<exists>out w. w \<le> waiting (nview view s) \<and> nor_cmd c (nview view s\<lparr>waiting := w\<rparr>) out (nview view (spi_do spi c s))"
  using chip_okD [of spi view c "dev s"] by (auto simp: nview_def spi_do_def nor_step_def)

lemma spi_get_idle:
  "chip_ok spi view \<Longrightarrow> idle view s \<Longrightarrow> nor_cmd c (nview view s) (fst (spi_get spi c s)) (nview view (snd (spi_get spi c s)))"
  using chip_okD [of spi view c "dev s"] by (auto simp: idle_def nview_def spi_get_def nor_step_idle)

lemma spi_init_idle:
  assumes "chip_ok spi view" and "idle view s"
  shows "nview view (spi_do spi (Spi_init b f) s) = nview view s\<lparr>ff := f\<rparr>"
    and "nview view (spi_do spi (Spi_init_non_standard b i a w t) s) = nview view s\<lparr>frame := (i, a, w, t)\<rparr>"
  using spi_do_idle [OF assms, of "Spi_init b f"] spi_do_idle [OF assms, of "Spi_init_non_standard b i a w t"] by simp_all

lemma send_idle:
  assumes "chip_ok spi view" and "idle view s"
  shows "send_cmd c d (nview view s\<lparr>ff := SPI_FF_STANDARD\<rparr>) (nview view (w25qxx_send_data_dma spi c d s))"
    and "same_drv s (w25qxx_send_data_dma spi c d s)"
proof -
  let ?s = "spi_do spi (Spi_init (spi_bus_no s) SPI_FF_STANDARD) s"
  have n: "nview view ?s = nview view s\<lparr>ff := SPI_FF_STANDARD\<rparr>" by (rule spi_init_idle [OF assms])
  then have "idle view ?s" using assms(2) by (simp add: idle_def)
  from spi_do_idle [OF assms(1) this, of "Spi_send_standard (spi_bus_no ?s) (spi_chip_select ?s) c d"]
  show "send_cmd c d (nview view s\<lparr>ff := SPI_FF_STANDARD\<rparr>) (nview view (w25qxx_send_data_dma spi c d s))"
    using assms(2) by (auto simp: n w25qxx_send_data_dma_def Let_def idle_def)
  show "same_drv s (w25qxx_send_data_dma spi c d s)"
    unfolding w25qxx_send_data_dma_def Let_def by (rule same_drv_trans [OF same_drv_spi(1) same_drv_spi(1)])
qed

lemma receive_idle:
  assumes "chip_ok spi view" and "idle view s" and "c \<noteq> [0x05]" and "w25qxx_receive_data_dma spi c k s = (out, s')"
  shows "receive_cmd c k (nview view s\<lparr>ff := SPI_FF_STANDARD\<rparr>) out (nview view s')" and "same_drv s s'"
proof -
  let ?s = "spi_do spi (Spi_init (spi_bus_no s) SPI_FF_STANDARD) s"
  let ?c = "Spi_receive_standard (spi_bus_no ?s) (spi_chip_select ?s) c k"
  have n: "nview view ?s = nview view s\<lparr>ff := SPI_FF_STANDARD\<rparr>" by (rule spi_init_idle [OF assms(1,2)])
  have e: "out = fst (spi_get spi ?c ?s)" "s' = snd (spi_get spi ?c ?s)"
    using assms(4) by (simp_all add: w25qxx_receive_data_dma_def Let_def)
  have "idle view ?s" using assms(2) n by (simp add: idle_def)
  from spi_get_idle [OF assms(1) this, of ?c]
  show "receive_cmd c k (nview view s\<lparr>ff := SPI_FF_STANDARD\<rparr>) out (nview view s')"
    using assms(2,3) by (simp add: n e idle_def)
  show "same_drv s s'" unfolding e by (rule same_drv_trans [OF same_drv_spi(1) same_drv_spi(2)])
qed

end
