(* ===== verification/W25qxx_Correct.thy ===== *)
theory W25qxx_Correct
  imports Nor_Chip
begin

text \<open>
  Correctness of the flash driver on a chip that behaves as its data sheet says: every wait
  ends; reads give the contents in pieces of 64 KiB; programming a sector clears the bits that
  are zero in the data; and \<^verbatim>\<open>w25qxx_write_data_dma\<close> replaces exactly the bytes it was given,
  erasing a sector only when it must and putting the rest of the sector back.
\<close>

section \<open>Addresses\<close>

lemma addr_cmd_24: "addr24 (ucast (drop_bit 16 a)) (ucast (drop_bit 8 a)) (ucast (a :: u32)) = unat a mod chip_size"
proof -
  let ?n = "unat a"
  have "unat (ucast (drop_bit k a) :: u8) = ?n div 2 ^ k mod 256" for k
    unfolding unsigned_ucast_eq unat_drop_bit_eq by (simp add: take_bit_eq_mod drop_bit_eq_div)
  from this [of 16] this [of 8] this [of 0]
  have "addr24 (ucast (drop_bit 16 a)) (ucast (drop_bit 8 a)) (ucast a) = ?n div 65536 mod 256 * 65536 + ?n div 256 mod 256 * 256 + ?n mod 256"
    by (simp add: addr24_def)
  also have "\<dots> = ?n mod 16777216"
  proof -
    have "?n mod 16777216 = 65536 * (?n div 65536 mod 256) + ?n mod 65536" using mod_mult2_eq [of ?n 65536 256] by simp
    moreover have "?n mod 65536 = 256 * (?n div 256 mod 256) + ?n mod 256" using mod_mult2_eq [of ?n 256 256] by simp
    ultimately show ?thesis by simp
  qed
  finally show ?thesis by (simp add: chip_size_def)
qed

lemma addr_shift: "unat (drop_bit 8 (push_bit 8 (a :: u32))) mod chip_size = unat a mod chip_size"
proof -
  have "drop_bit 8 (push_bit 8 a) = take_bit 24 a"
    by (rule bit_word_eqI) (auto simp: bit_drop_bit_eq bit_push_bit_iff bit_take_bit_iff)
  moreover have "unat (take_bit 24 a) = take_bit 24 (unat a)" by (rule unsigned_take_bit_eq)
  ultimately show ?thesis by (simp only:) (simp add: chip_size_def take_bit_eq_mod)
qed

section \<open>Waiting\<close>

text \<open>A status read: the chip may have become idle meanwhile.\<close>

lemma is_busy_step:
  assumes "chip_ok spi view" and "w25qxx_is_busy_dma spi s = (b, s')"
  obtains w where "w \<le> waiting (nview view s)" "b \<longleftrightarrow> 0 < w" "nview view s' = nview view s\<lparr>ff := SPI_FF_STANDARD, waiting := w - 1\<rparr>" "same_drv s s'"
proof -
  let ?s = "spi_do spi (Spi_init (spi_bus_no s) SPI_FF_STANDARD) s"
  let ?c = "Spi_receive_standard (spi_bus_no ?s) (spi_chip_select ?s) [READ_REG1] 1"
  obtain w0 where w0: "w0 \<le> waiting (nview view s)" "nview view ?s = nview view s\<lparr>waiting := w0, ff := SPI_FF_STANDARD\<rparr>"
    using spi_do_step [OF assms(1), of s "Spi_init (spi_bus_no s) SPI_FF_STANDARD"] by auto
  from chip_okD [OF assms(1), of ?c "dev ?s"] obtain w
    where w: "w \<le> w0" and cmd: "nor_cmd ?c (nview view ?s\<lparr>waiting := w\<rparr>) (fst (spi ?c (dev ?s))) (view (snd (spi ?c (dev ?s))))"
    unfolding nor_step_def nview_def [symmetric] w0(2) by auto
  from cmd obtain r where r: "fst (spi ?c (dev ?s)) = [r]" "bit r 0 \<longleftrightarrow> 0 < w"
    "view (snd (spi ?c (dev ?s))) = nview view s\<lparr>ff := SPI_FF_STANDARD, waiting := w - 1\<rparr>"
    by (auto simp: w0(2) READ_REG1_def)
  have e: "b \<longleftrightarrow> r AND 1 \<noteq> 0" "s' = snd (spi_get spi ?c ?s)"
    using assms(2) r(1) by (auto simp: w25qxx_is_busy_dma_def w25qxx_read_status_reg1_dma_def w25qxx_receive_data_dma_def spi_get_def REG1_BUSY_MASK_def Let_def)
  have "r AND 1 \<noteq> 0 \<longleftrightarrow> bit r 0" by (simp add: bit_0 and_one_eq mod_2_eq_odd)
  moreover have "nview view s' = nview view s\<lparr>ff := SPI_FF_STANDARD, waiting := w - 1\<rparr>"
    using r(3) by (simp add: e(2) spi_get_def nview_def)
  moreover have "same_drv s s'" unfolding e(2) by (rule same_drv_trans [OF same_drv_spi(1) same_drv_spi(2)])
  ultimately show thesis using that [of w] w w0(1) r(2) e(1) by simp
qed

lemma wait_busy_ok:
  assumes "chip_ok spi view"
  shows "\<exists>s'. wait_busy spi s = Some s' \<and> nview view s' = nview view s\<lparr>ff := SPI_FF_STANDARD, waiting := 0\<rparr> \<and> same_drv s s'"
proof (induction "waiting (nview view s)" arbitrary: s rule: less_induct)
  case less
  obtain b s1 where b: "w25qxx_is_busy_dma spi s = (b, s1)" by fastforce
  obtain w where w: "w \<le> waiting (nview view s)" "b \<longleftrightarrow> 0 < w" "nview view s1 = nview view s\<lparr>ff := SPI_FF_STANDARD, waiting := w - 1\<rparr>" "same_drv s s1"
    by (rule is_busy_step [OF assms b])
  show ?case
  proof (cases b)
    case True
    then have "wait_busy spi s = wait_busy spi s1" using b by (subst wait_busy.simps) simp
    moreover have "waiting (nview view s1) < waiting (nview view s)" using True w by simp
    ultimately show ?thesis using less.hyps [of s1] w(3) same_drv_trans [OF w(4)] by auto
  next
    case False
    then have "wait_busy spi s = Some s1" using b by (subst wait_busy.simps) simp
    then show ?thesis using False w by simp
  qed
qed

section \<open>The driver's invariant\<close>

definition drv_ok :: "('d \<Rightarrow> nor) \<Rightarrow> 'd w25qxx \<Rightarrow> bool" where
  "drv_ok view s =
     (idle view s \<and> w25qxx_page_program_fun s \<noteq> None \<and> w25qxx_read_fun s \<noteq> None \<and>
      (w25qxx_page_program_fun s = Some Quad_page_program \<or> w25qxx_read_fun s = Some Quad_read \<longrightarrow> quad (nview view s)))"

abbreviation content :: "('d \<Rightarrow> nor) \<Rightarrow> 'd w25qxx \<Rightarrow> nat \<Rightarrow> u8" where
  "content view s \<equiv> contents (nview view s)"

lemma drv_ok_idle: "drv_ok view s \<Longrightarrow> idle view s"
  by (simp add: drv_ok_def)

lemma drv_ok_same: "drv_ok view s \<Longrightarrow> same_drv s s' \<Longrightarrow> idle view s' \<Longrightarrow> quad (nview view s') = quad (nview view s) \<Longrightarrow> drv_ok view s'"
  using same_drv_fields [of s s'] by (simp add: drv_ok_def)

lemma write_enable_ok:
  assumes "chip_ok spi view" and "idle view s"
  shows "nview view (w25qxx_write_enable_dma spi s) = nview view s\<lparr>ff := SPI_FF_STANDARD, latch := True\<rparr>"
    and "same_drv s (w25qxx_write_enable_dma spi s)"
  using send_idle [OF assms, of "[WRITE_ENABLE]" "[]"] by (simp_all add: w25qxx_write_enable_dma_def WRITE_ENABLE_def)

lemma write_enable_idle: "chip_ok spi view \<Longrightarrow> idle view s \<Longrightarrow> idle view (w25qxx_write_enable_dma spi s)"
  by (simp add: idle_def write_enable_ok)

text \<open>A command that modifies, sent after write enable and followed by a wait.\<close>

lemma modify_wait:
  assumes chip: "chip_ok spi view" and "same_drv s s1" and "modified n m q (nview view s1)"
  obtains s' where "wait_busy spi s1 = Some s'" "content view s' = m" "quad (nview view s') = q" "idle view s'" "same_drv s s'"
proof -
  obtain s' where s': "wait_busy spi s1 = Some s'" "nview view s' = nview view s1\<lparr>ff := SPI_FF_STANDARD, waiting := 0\<rparr>" "same_drv s1 s'"
    using wait_busy_ok [OF chip] by blast
  have "contents (nview view s1) = m" "quad (nview view s1) = q" using assms(3) by (auto simp: modified_def)
  then show thesis using that [OF s'(1)] s' same_drv_trans [OF assms(2) s'(3)] by (simp add: idle_def)
qed

lemma send_modifies:
  assumes "chip_ok spi view" and "idle view s" and "s1 = w25qxx_send_data_dma spi c d (w25qxx_write_enable_dma spi s)"
  shows "send_cmd c d (nview view s\<lparr>ff := SPI_FF_STANDARD, latch := True\<rparr>) (nview view s1)" and "same_drv s s1"
proof -
  let ?s = "w25qxx_write_enable_dma spi s"
  note we = write_enable_ok [OF assms(1,2)]
  have "nview view ?s\<lparr>ff := SPI_FF_STANDARD\<rparr> = nview view s\<lparr>ff := SPI_FF_STANDARD, latch := True\<rparr>" by (simp add: we)
  then show "send_cmd c d (nview view s\<lparr>ff := SPI_FF_STANDARD, latch := True\<rparr>) (nview view s1)"
    using send_idle(1) [OF assms(1) write_enable_idle [OF assms(1,2)], of c d] unfolding assms(3) by simp
  show "same_drv s s1"
    unfolding assms(3) by (rule same_drv_trans [OF we(2) send_idle(2) [OF assms(1) write_enable_idle [OF assms(1,2)]]])
qed

lemma sector_erase_ok:
  assumes "chip_ok spi view" and "idle view s"
  obtains s' where "wait_busy spi (w25qxx_sector_erase_dma spi a s) = Some s'"
    "content view s' = erase 4096 (unat a mod chip_size) (content view s)" "quad (nview view s') = quad (nview view s)"
    "idle view s'" "same_drv s s'"
proof -
  let ?s = "w25qxx_sector_erase_dma spi a s"
  note s = send_modifies [OF assms w25qxx_sector_erase_dma_def]
  have "modified (nview view s\<lparr>ff := SPI_FF_STANDARD, latch := True\<rparr>) (erase 4096 (unat a mod chip_size) (content view s)) (quad (nview view s)) (nview view ?s)"
    using s(1) by (simp add: addr_cmd_def SECTOR_ERASE_def addr_cmd_24 Let_def)
  then show thesis using modify_wait [OF assms(1) s(2)] that by blast
qed

lemma block_erase_ok:
  assumes "chip_ok spi view" and "idle view s"
  obtains s' where "wait_busy spi (w25qxx_64k_block_erase_dma spi a s) = Some s'"
    "content view s' = erase 65536 (unat a mod chip_size) (content view s)" "quad (nview view s') = quad (nview view s)"
    "idle view s'" "same_drv s s'"
proof -
  let ?s = "w25qxx_64k_block_erase_dma spi a s"
  note s = send_modifies [OF assms w25qxx_64k_block_erase_dma_def]
  have "modified (nview view s\<lparr>ff := SPI_FF_STANDARD, latch := True\<rparr>) (erase 65536 (unat a mod chip_size) (content view s)) (quad (nview view s)) (nview view ?s)"
    using s(1) by (simp add: addr_cmd_def BLOCK_64K_ERASE_def addr_cmd_24 Let_def)
  then show thesis using modify_wait [OF assms(1) s(2)] that by blast
qed

lemma quad_program_modifies:
  assumes chip: "chip_ok spi view" and idle: "idle view s" and "quad (nview view s)" and page: "in_page (unat a mod chip_size) d"
    and s1: "s1 = spi_do spi (Spi_init (spi_bus_no s) SPI_FF_QUAD) (w25qxx_write_enable_dma spi s)"
    and s2: "s2 = spi_do spi (Spi_init_non_standard (spi_bus_no s) 8 24 0 SPI_AITM_STANDARD) s1"
    and s3: "s3 = w25qxx_send_data_enhanced_dma spi [QUAD_PAGE_PROGRAM, a] d s2"
  shows "\<exists>n. modified n (program (unat a mod chip_size) d (content view s)) (quad (nview view s)) (nview view s3)" and "same_drv s s3"
proof -
  note we = write_enable_ok [OF chip idle]
  have n1: "nview view s1 = nview view s\<lparr>ff := SPI_FF_QUAD, latch := True\<rparr>" unfolding s1
    by (simp add: spi_init_idle [OF chip write_enable_idle [OF chip idle]] we)
  have i1: "idle view s1" using idle n1 by (simp add: idle_def)
  have n2: "nview view s2 = nview view s\<lparr>ff := SPI_FF_QUAD, latch := True, frame := (8, 24, 0, SPI_AITM_STANDARD)\<rparr>"
    unfolding s2 by (simp add: spi_init_idle [OF chip i1] n1)
  have i2: "idle view s2" using idle n2 by (simp add: idle_def)
  obtain out where "nor_cmd (Spi_send_multiple (spi_bus_no s2) (spi_chip_select s2) [QUAD_PAGE_PROGRAM, a] d) (nview view s2) out (nview view s3)"
    using spi_do_idle [OF chip i2] unfolding s3 w25qxx_send_data_enhanced_dma_def by blast
  then show "\<exists>n. modified n (program (unat a mod chip_size) d (content view s)) (quad (nview view s)) (nview view s3)"
    using assms(3) page idle by (auto simp: n2 QUAD_PAGE_PROGRAM_def idle_def)
  show "same_drv s s3"
    unfolding s3 s2 s1 w25qxx_send_data_enhanced_dma_def
    by (meson we(2) same_drv_spi same_drv_trans)
qed

lemma page_program_ok:
  assumes chip: "chip_ok spi view" and ok: "drv_ok view s" and page: "in_page (unat a mod chip_size) d"
  obtains s' where "call_page_program spi a d s = Some s'" "content view s' = program (unat a mod chip_size) d (content view s)"
    "drv_ok view s'" "same_drv s s'" "quad (nview view s') = quad (nview view s)"
proof (cases "w25qxx_page_program_fun s = Some Page_program")
  case True
  let ?s = "w25qxx_send_data_dma spi (addr_cmd PAGE_PROGRAM a) d (w25qxx_write_enable_dma spi s)"
  note s = send_modifies [OF chip drv_ok_idle [OF ok] refl, of "addr_cmd PAGE_PROGRAM a" d]
  have "modified (nview view s\<lparr>ff := SPI_FF_STANDARD, latch := True\<rparr>) (program (unat a mod chip_size) d (content view s)) (quad (nview view s)) (nview view ?s)"
    using s(1) page by (simp add: addr_cmd_def PAGE_PROGRAM_def addr_cmd_24 Let_def)
  from modify_wait [OF chip s(2) this] show thesis
    using that True drv_ok_same [OF ok] by (metis call_page_program_def option.simps(5) page_program_fun.simps(3) w25qxx_page_program_dma_def)
next
  case False
  then have q: "w25qxx_page_program_fun s = Some Quad_page_program" "quad (nview view s)"
    using ok by (cases "w25qxx_page_program_fun s"; cases "the (w25qxx_page_program_fun s)"; simp add: drv_ok_def)+
  define s1 where "s1 = spi_do spi (Spi_init (spi_bus_no s) SPI_FF_QUAD) (w25qxx_write_enable_dma spi s)"
  define s2 where "s2 = spi_do spi (Spi_init_non_standard (spi_bus_no s) 8 24 0 SPI_AITM_STANDARD) s1"
  define s3 where "s3 = w25qxx_send_data_enhanced_dma spi [QUAD_PAGE_PROGRAM, a] d s2"
  note m = quad_program_modifies [OF chip drv_ok_idle [OF ok] q(2) page s1_def s2_def s3_def]
  have "spi_bus_no (w25qxx_write_enable_dma spi s) = spi_bus_no s" "spi_bus_no s1 = spi_bus_no s"
    using write_enable_ok(2) [OF chip drv_ok_idle [OF ok]] by (auto simp: s1_def spi_do_def same_drv_def)
  then have run: "call_page_program spi a d s = wait_busy spi s3"
    by (simp add: call_page_program_def q w25qxx_quad_page_program_dma_def Let_def s3_def s2_def s1_def)
  from m(1) obtain n where "modified n (program (unat a mod chip_size) d (content view s)) (quad (nview view s)) (nview view s3)" by blast
  from modify_wait [OF chip m(2) this] show thesis using that run drv_ok_same [OF ok] by metis
qed

section \<open>Programming a sector\<close>

lemma program_append: "program a (x @ y) m = program (a + length x) y (program a x m)"
  by (rule ext) (auto simp: program_def nth_append)

lemma program_Nil [simp]: "program a [] m = m"
  by (rule ext) (auto simp: program_def)

lemma unat_add_small: "unat (a :: u32) + n < 2 ^ 32 \<Longrightarrow> unat (a + of_nat n) = unat a + n"
  by (simp add: unat_word_ariths unsigned_of_nat take_bit_eq_mod mod_add_right_eq)

lemma sector_pages_ok:
  assumes chip: "chip_ok spi view" and "drv_ok view s" and "unat a mod 256 = 0" and "length d = 256 * n" and "unat a + 256 * n \<le> chip_size"
  shows "\<exists>s'. sector_pages spi n a d s = Some s' \<and> content view s' = program (unat a) d (content view s) \<and> drv_ok view s' \<and>
    same_drv s s' \<and> quad (nview view s') = quad (nview view s)"
  using assms(2-)
proof (induction n arbitrary: a d s)
  case (Suc n)
  let ?x = "take 256 d" and ?y = "drop 256 d"
  have a: "unat a mod chip_size = unat a" using Suc.prems(4) by simp
  have "in_page (unat a mod chip_size) ?x" using Suc.prems(2,3) unfolding a by (auto simp: in_page_def)
  then obtain s1 where s1: "call_page_program spi a ?x s = Some s1" "content view s1 = program (unat a) ?x (content view s)" "drv_ok view s1"
    "same_drv s s1" "quad (nview view s1) = quad (nview view s)"
    using page_program_ok [OF chip Suc.prems(1)] a by metis
  have next_a: "n = 0 \<or> unat (a + 256) = unat a + 256"
    using Suc.prems(4) unat_add_small [of a 256] by (auto simp: chip_size_def)
  show ?case
  proof (cases "n = 0")
    case True
    then show ?thesis using s1 Suc.prems(3) by (simp add: w25qxx_FLASH_PAGE_SIZE_def)
  next
    case False
    then have na: "unat (a + 256) = unat a + 256" using next_a by simp
    moreover have "(unat a + 256) mod 256 = 0" using Suc.prems(2) by simp
    moreover have "unat a + 256 + 256 * n \<le> chip_size" using Suc.prems(4) by simp
    moreover have "length ?y = 256 * n" using Suc.prems(3) by simp
    ultimately obtain s2 where s2: "sector_pages spi n (a + 256) ?y s1 = Some s2" "content view s2 = program (unat a + 256) ?y (content view s1)"
      "drv_ok view s2" "same_drv s1 s2" "quad (nview view s2) = quad (nview view s1)"
      using Suc.IH [OF s1(3), of "a + 256" ?y] by auto
    have "program (unat a + 256) ?y (program (unat a) ?x m) = program (unat a) d m" for m
      using program_append [of "unat a" ?x ?y m] Suc.prems(3) by simp
    then show ?thesis using s1 s2 same_drv_trans [OF s1(4) s2(4)] by (simp add: w25qxx_FLASH_PAGE_SIZE_def)
  qed
qed simp

section \<open>Reading\<close>

definition mode_ok :: "('d \<Rightarrow> nor) \<Rightarrow> w25qxx_read_mode \<Rightarrow> 'd w25qxx \<Rightarrow> bool" where
  "mode_ok view m s = (idle view s \<and> (m = W25QXX_QUAD \<or> m = W25QXX_QUAD_FAST \<longrightarrow> quad (nview view s)))"

text \<open>A read leaves of the device what matters.\<close>

definition only_read :: "('d \<Rightarrow> nor) \<Rightarrow> 'd w25qxx \<Rightarrow> 'd w25qxx \<Rightarrow> bool" where
  "only_read view s s' = (same_drv s s' \<and> content view s' = content view s \<and> quad (nview view s') = quad (nview view s) \<and> idle view s')"

lemma receive_read:
  assumes "chip_ok spi view" and "idle view s" and "w25qxx_receive_data_dma spi c k s = (out, s')" and "c \<noteq> [0x05]"
    and "\<And>n out n'. receive_cmd c k n out n' \<Longrightarrow> n' = n \<and> out = read_at (contents n) a k"
  shows "out = read_at (content view s) a k \<and> only_read view s s'"
proof -
  note r = receive_idle [OF assms(1,2,4,3)]
  have "nview view s' = nview view s\<lparr>ff := SPI_FF_STANDARD\<rparr>" "out = read_at (content view s) a k" using assms(5) [OF r(1)] by simp_all
  then show ?thesis using r(2) assms(2) by (simp add: only_read_def idle_def)
qed

lemma read_enhanced_ok:
  assumes chip: "chip_ok spi view" and idle: "idle view s" and "read_enhanced spi f al wc t [c, w] k s = (out, s')"
    and "multi_read_addr (nview view s\<lparr>ff := f, frame := (8, al, wc, t)\<rparr>) c w = Some a"
  shows "out = read_at (content view s) (a mod chip_size) k \<and> only_read view s s'"
proof -
  define s1 where "s1 = spi_do spi (Spi_init (spi_bus_no s) f) s"
  define s2 where "s2 = spi_do spi (Spi_init_non_standard (spi_bus_no s1) 8 al wc t) s1"
  let ?c = "Spi_receive_multiple (spi_bus_no s2) (spi_chip_select s2) [c, w] k"
  have n1: "nview view s1 = nview view s\<lparr>ff := f\<rparr>" unfolding s1_def by (rule spi_init_idle [OF chip idle])
  then have i1: "idle view s1" using idle by (simp add: idle_def)
  have n2: "nview view s2 = nview view s\<lparr>ff := f, frame := (8, al, wc, t)\<rparr>" unfolding s2_def by (simp add: spi_init_idle [OF chip i1] n1)
  then have i2: "idle view s2" using idle by (simp add: idle_def)
  have e: "out = fst (spi_get spi ?c s2)" "s' = snd (spi_get spi ?c s2)"
    using assms(3) by (simp_all add: read_enhanced_def w25qxx_receive_data_enhanced_dma_def Let_def s2_def s1_def)
  have "nor_cmd ?c (nview view s2) out (nview view s')" unfolding e by (rule spi_get_idle [OF chip i2])
  then have r: "nview view s' = nview view s2 \<and> out = read_at (contents (nview view s2)) (a mod chip_size) k"
    using assms(4) i2 by (simp add: n2 idle_def)
  have "same_drv s s'" unfolding e s2_def s1_def by (meson same_drv_spi same_drv_trans)
  then show ?thesis using r idle by (simp add: only_read_def n2 idle_def)
qed

lemma read_chunk_ok:
  assumes chip: "chip_ok spi view" and ok: "mode_ok view m s" and run: "read_chunk_dma spi a k m s = (out, s')"
  shows "out = read_at (content view s) (unat a mod chip_size) k \<and> only_read view s s'"
proof -
  have idle: "idle view s" using ok by (simp add: mode_ok_def)
  note std = receive_read [OF chip idle, where a = "unat a mod chip_size"]
  note enh = read_enhanced_ok [OF chip idle]
  show ?thesis
  proof (cases m)
    case W25QXX_STANDARD
    show ?thesis by (rule std [of "addr_cmd READ_DATA a"])
      (use run in \<open>simp_all add: W25QXX_STANDARD read_chunk_dma_def addr_cmd_def READ_DATA_def addr_cmd_24\<close>)
  next
    case W25QXX_STANDARD_FAST
    show ?thesis by (rule std [of "addr_cmd FAST_READ a @ [0xFF]"])
      (use run in \<open>simp_all add: W25QXX_STANDARD_FAST read_chunk_dma_def addr_cmd_def FAST_READ_def addr_cmd_24\<close>)
  next
    case W25QXX_DUAL
    show ?thesis by (rule enh [where f = SPI_FF_DUAL and al = 24 and wc = 8 and t = SPI_AITM_STANDARD and c = "0x3B" and w = a])
      (use run in \<open>simp_all add: W25QXX_DUAL read_chunk_dma_def FAST_READ_DUAL_OUTPUT_def multi_read_addr_def\<close>)
  next
    case W25QXX_DUAL_FAST
    show ?thesis unfolding addr_shift [symmetric, of a]
      by (rule enh [where f = SPI_FF_DUAL and al = 32 and wc = 0 and t = SPI_AITM_ADDR_STANDARD and c = "0xBB" and w = "push_bit 8 a"])
        (use run in \<open>simp_all add: W25QXX_DUAL_FAST read_chunk_dma_def FAST_READ_DUAL_IO_def multi_read_addr_def\<close>)
  next
    case W25QXX_QUAD
    show ?thesis by (rule enh [where f = SPI_FF_QUAD and al = 24 and wc = 8 and t = SPI_AITM_STANDARD and c = "0x6B" and w = a])
      (use run ok in \<open>simp_all add: W25QXX_QUAD mode_ok_def read_chunk_dma_def FAST_READ_QUAL_OUTPUT_def multi_read_addr_def\<close>)
  next
    case W25QXX_QUAD_FAST
    show ?thesis unfolding addr_shift [symmetric, of a]
      by (rule enh [where f = SPI_FF_QUAD and al = 32 and wc = 4 and t = SPI_AITM_ADDR_STANDARD and c = "0xEB" and w = "push_bit 8 a"])
        (use run ok in \<open>simp_all add: W25QXX_QUAD_FAST mode_ok_def read_chunk_dma_def FAST_READ_QUAL_IO_def multi_read_addr_def\<close>)
  qed
qed

lemma read_at_append: "read_at m a (j + k) = read_at m a j @ read_at m (a + j) k"
proof -
  have "[0..<j + k] = [0..<j] @ map (\<lambda>i. i + j) [0..<k]"
    using upt_add_eq_append [of 0 j k] map_add_upt [of j k] by (simp add: add.commute [of k])
  then show ?thesis by (simp add: read_at_def add_ac)
qed

lemma read_at_mod: "read_at m (a mod chip_size) n = read_at m a n"
  by (simp add: read_at_def mod_add_left_eq)

lemma length_read_at [simp]: "length (read_at m a n) = n"
  by (simp add: read_at_def)

lemma only_read_refl: "idle view s \<Longrightarrow> only_read view s s"
  by (simp add: only_read_def)

lemma only_read_trans: "only_read view s s' \<Longrightarrow> only_read view s' s'' \<Longrightarrow> only_read view s s''"
  using same_drv_trans [of s s' s''] by (simp add: only_read_def)

lemma only_read_mode: "only_read view s s' \<Longrightarrow> mode_ok view m s \<Longrightarrow> mode_ok view m s'"
  by (simp add: only_read_def mode_ok_def)

lemma only_read_ok: "only_read view s s' \<Longrightarrow> drv_ok view s \<Longrightarrow> drv_ok view s'"
  using same_drv_fields [of s s'] by (simp add: only_read_def drv_ok_def)

lemma next_addr: "unat (a + of_nat n :: u32) mod chip_size = (unat a + n) mod chip_size"
proof -
  have "unat (a + of_nat n) = (unat a + n) mod 2 ^ 32"
    by (simp add: unat_word_ariths unsigned_of_nat take_bit_eq_mod mod_add_right_eq)
  moreover have "(chip_size :: nat) dvd 2 ^ 32" by (simp add: chip_size_def le_imp_power_dvd)
  ultimately show ?thesis by (simp add: mod_mod_cancel)
qed

lemma read_data_eq:
  assumes chip: "chip_ok spi view" and "mode_ok view m s" and "w25qxx_read_data_dma spi a k m s = (out, s')"
  shows "out = read_at (content view s) (unat a) k \<and> only_read view s s'"
  using assms(2-)
proof (induction k arbitrary: a s out s' rule: less_induct)
  case (less k)
  show ?case
  proof (cases "k = 0")
    case True
    then show ?thesis using less.prems by (simp add: w25qxx_read_data_dma.simps [of spi a 0] read_at_def only_read_refl mode_ok_def)
  next
    case False
    define n where "n = (if 0x10000 \<le> k then 0x10000 else k)"
    have n: "0 < n" "n \<le> k" using False by (simp_all add: n_def)
    obtain b s1 where b: "read_chunk_dma spi a n m s = (b, s1)" by fastforce
    obtain r s2 where r: "w25qxx_read_data_dma spi (a + of_nat n) (k - n) m s1 = (r, s2)" by fastforce
    have e: "out = b @ r" "s' = s2"
      using less.prems(2) False b r by (simp_all add: w25qxx_read_data_dma.simps [of spi a k] Let_def n_def)
    note B = read_chunk_ok [OF chip less.prems(1) b]
    have "k - n < k" using n by simp
    from less.IH [OF this only_read_mode [OF conjunct2 [OF B] less.prems(1)] r]
    have R: "r = read_at (content view s) (unat (a + of_nat n)) (k - n)" "only_read view s1 s2"
      using B by (simp_all add: only_read_def)
    have "read_at (content view s) (unat (a + of_nat n)) (k - n) = read_at (content view s) (unat a + n) (k - n)"
      by (metis next_addr read_at_mod)
    then have "out = read_at (content view s) (unat a) (n + (k - n))"
      unfolding e read_at_append using B R(1) by (simp add: read_at_mod)
    then show ?thesis using n B R(2) only_read_trans unfolding e(2) by auto
  qed
qed

lemma call_read_ok:
  assumes "chip_ok spi view" and "drv_ok view s"
  obtains out s' where "call_read spi a k s = Some (out, s')" "out = read_at (content view s) (unat a) k" "only_read view s s'"
proof (cases "w25qxx_read_fun s = Some Stand_read")
  case True
  obtain out s' where r: "w25qxx_read_data_dma spi a k W25QXX_STANDARD_FAST s = (out, s')" by fastforce
  have "mode_ok view W25QXX_STANDARD_FAST s" using assms(2) by (simp add: mode_ok_def drv_ok_def)
  from read_data_eq [OF assms(1) this r] show thesis
    using that True r by (simp add: call_read_def w25qxx_stand_read_data_dma_def)
next
  case False
  then have q: "w25qxx_read_fun s = Some Quad_read"
    using assms(2) by (cases "w25qxx_read_fun s"; cases "the (w25qxx_read_fun s)"; simp add: drv_ok_def)+
  obtain out s' where r: "w25qxx_read_data_dma spi a k W25QXX_QUAD_FAST s = (out, s')" by fastforce
  have "mode_ok view W25QXX_QUAD_FAST s" using assms(2) q by (simp add: mode_ok_def drv_ok_def)
  from read_data_eq [OF assms(1) this r] show thesis
    using that q r by (simp add: call_read_def w25qxx_quad_read_data_dma_def)
qed

section \<open>Writing\<close>

definition overwrite :: "nat \<Rightarrow> bytes \<Rightarrow> (nat \<Rightarrow> u8) \<Rightarrow> nat \<Rightarrow> u8" where
  "overwrite a d m i = (if a \<le> i \<and> i < a + length d then d ! (i - a) else m i)"

lemma overwrite_append: "overwrite (a + length x) y (overwrite a x m) = overwrite a (x @ y) m"
  by (rule ext) (auto simp: overwrite_def nth_append)

lemma memcpy_read_at:
  assumes "off + length d \<le> 4096" and "b + 4096 \<le> chip_size" and "i < 4096"
  shows "memcpy_at (read_at m b 4096) off d ! i = overwrite (b + off) d m (b + i)"
proof -
  have "read_at m b 4096 ! j = m (b + j)" if "j < 4096" for j using that assms(2) by (simp add: read_at_def)
  then show ?thesis using assms by (auto simp: memcpy_at_def overwrite_def nth_append add.commute)
qed

lemma in_sector: "b mod 4096 = 0 \<Longrightarrow> i div 4096 = b div 4096 \<longleftrightarrow> b \<le> i \<and> i < b + (4096 :: nat)"
proof -
  assume "b mod 4096 = 0"
  then obtain q where b: "b = q * 4096" by (metis mod_0_imp_dvd dvdE mult.commute)
  have "q \<le> i div 4096 \<longleftrightarrow> q * 4096 \<le> i" by (rule less_eq_div_iff_mult_less_eq) simp
  moreover have "i div 4096 < Suc q \<longleftrightarrow> i < Suc q * 4096" by (rule div_less_iff_less_mult) simp
  ultimately show ?thesis unfolding b by auto
qed

lemma and_byte_ones: "(0xFF :: u8) AND x = x"
proof -
  have "(0xFF :: u8) = mask 8" by (simp add: mask_eq_exp_minus_1)
  then have "0xFF AND x = take_bit 8 x" by (simp only: take_bit_eq_mask and.commute)
  then show ?thesis by (simp add: take_bit_word_eq_self)
qed

text \<open>Programming the patched sector over the erased one, or over the old one when no bit has to
  be set, gives the patched contents.\<close>

lemma program_patched:
  assumes off: "off + length d \<le> 4096" and b: "b mod 4096 = 0" "b + 4096 \<le> chip_size"
    and m': "m' = (if needs_erase d (drop off (read_at m b 4096)) then erase 4096 b m else m)"
  shows "program b (memcpy_at (read_at m b 4096) off d) m' = overwrite (b + off) d m"
proof
  fix i
  let ?p = "memcpy_at (read_at m b 4096) off d" and ?e = "needs_erase d (drop off (read_at m b 4096))"
  have len: "length ?p = 4096" using off by simp
  show "program b ?p m' i = overwrite (b + off) d m i"
  proof (cases "b \<le> i \<and> i < b + 4096")
    case False
    then have "i div 4096 \<noteq> b div 4096" using in_sector [OF b(1)] by simp
    then show ?thesis using False off by (auto simp: program_def overwrite_def len m' erase_def)
  next
    case True
    then have p: "?p ! (i - b) = overwrite (b + off) d m i" using memcpy_read_at [OF off b(2), of "i - b" m] by auto
    have "m' i AND overwrite (b + off) d m i = overwrite (b + off) d m i"
    proof (cases ?e)
      case e: True
      then have "m' i = 0xFF" using True in_sector [OF b(1)] by (simp add: m' erase_def)
      then show ?thesis by (simp add: and_byte_ones)
    next
      case e: False
      then have m: "m' = m" by (simp add: m')
      have "m (b + off + j) AND d ! j = d ! j" if "j < length d" for j
      proof -
        have "(d ! j, drop off (read_at m b 4096) ! j) \<in> set (zip d (drop off (read_at m b 4096)))"
          using that off by (auto simp: set_zip)
        then have "d ! j = d ! j AND drop off (read_at m b 4096) ! j"
          using e unfolding needs_erase_def list_ex_iff by fastforce
        moreover have "drop off (read_at m b 4096) ! j = m (b + off + j)"
          using that off b(2) by (simp add: read_at_def add.assoc)
        ultimately show ?thesis by (simp add: and.commute)
      qed
      from this [of "i - (b + off)"] show ?thesis by (auto simp: m overwrite_def)
    qed
    then show ?thesis using True p by (simp add: program_def len)
  qed
qed

lemma write_sector_ok:
  assumes chip: "chip_ok spi view" and ok: "drv_ok view s" and sa: "unat sa mod 4096 = 0" "unat sa + 4096 \<le> chip_size" and off: "off + length d \<le> 4096"
  obtains s' where "write_sector spi sa off d s = Some s'" "content view s' = overwrite (unat sa + off) d (content view s)" "drv_ok view s'" "same_drv s s'"
proof -
  obtain swap s1 where r: "call_read spi sa 4096 s = Some (swap, s1)" "swap = read_at (content view s) (unat sa) 4096" "only_read view s s1"
    by (rule call_read_ok [OF chip ok])
  have ok1: "drv_ok view s1" "content view s1 = content view s" "same_drv s s1"
    using r(3) only_read_ok [OF r(3) ok] by (simp_all add: only_read_def)
  let ?e = "needs_erase d (drop off swap)"
  let ?m = "if ?e then erase 4096 (unat sa) (content view s) else content view s"
  have "unat sa mod chip_size = unat sa" using sa(2) by simp
  then obtain s2 where s2: "(if ?e then wait_busy spi (w25qxx_sector_erase_dma spi sa s1) else Some s1) = Some s2"
    "content view s2 = ?m" "drv_ok view s2" "same_drv s s2"
    using sector_erase_ok [OF chip drv_ok_idle [OF ok1(1)], of sa] drv_ok_same [OF ok1(1)] same_drv_trans [OF ok1(3)] ok1
    by (metis (full_types))
  let ?p = "memcpy_at swap off d"
  have p: "length ?p = 256 * 16" using r(2) off by simp
  have full: "?p = d" if "length d = 4096" using that off r(2) by (simp add: memcpy_at_full)
  obtain s3 where s3: "sector_pages spi 16 sa ?p s2 = Some s3" "content view s3 = program (unat sa) ?p (content view s2)" "drv_ok view s3" "same_drv s2 s3"
    using sector_pages_ok [OF chip s2(3), of sa ?p 16] sa p mod_mod_cancel [of 256 4096 "unat sa"] by auto
  have "content view s3 = overwrite (unat sa + off) d (content view s)"
    unfolding s3(2) s2(2) r(2) by (rule program_patched [OF off sa]) simp
  moreover have "write_sector spi sa off d s = Some s3"
    using r(1) s2(1) s3(1) full
    by (cases "length d = 4096") (simp_all add: write_sector_def w25qxx_FLASH_SECTOR_SIZE_def w25qxx_sector_program_def w25qxx_FLASH_PAGE_NUM_PER_SECTOR_def)
  ultimately show thesis using that s3(3) same_drv_trans [OF s2(4) s3(4)] by simp
qed

lemma sector_of: "unat (a AND 4095 :: u32) = unat a mod 4096" "unat (a AND NOT 4095 :: u32) = unat a div 4096 * 4096"
proof -
  have m: "(4095 :: u32) = mask 12" by (simp add: mask_eq_exp_minus_1)
  have "a AND mask 12 = take_bit 12 a" by (simp add: take_bit_eq_mask)
  moreover have "unat (take_bit 12 a) = take_bit 12 (unat a)" by (rule unsigned_take_bit_eq)
  ultimately show "unat (a AND 4095) = unat a mod 4096" unfolding m by (simp only:) (simp add: take_bit_eq_mod)
  have "a AND NOT (mask 12) = push_bit 12 (drop_bit 12 a)"
    by (rule bit_word_eqI) (auto simp: bit_and_iff bit_not_iff bit_mask_iff bit_push_bit_iff bit_drop_bit_eq)
  moreover have "unat (push_bit 12 (drop_bit 12 a)) = unat a div 4096 * 4096"
  proof -
    have "unat a div 4096 * 4096 \<le> unat a" by simp
    also have "\<dots> < 2 ^ 32" using unsigned_less [of a, where 'a = nat] by simp
    finally show ?thesis unfolding unsigned_push_bit_eq unat_drop_bit_eq
      by (simp add: take_bit_nat_eq_self push_bit_eq_mult drop_bit_eq_div)
  qed
  ultimately show "unat (a AND NOT 4095) = unat a div 4096 * 4096" unfolding m by simp
qed

lemma write_data_ok:
  assumes chip: "chip_ok spi view" and "drv_ok view s" and "unat a + length d \<le> chip_size"
  shows "\<exists>s'. w25qxx_write_data_dma spi a d s = Some s' \<and> content view s' = overwrite (unat a) d (content view s) \<and> drv_ok view s' \<and> same_drv s s'"
  using assms(2-)
proof (induction "length d" arbitrary: a d s rule: less_induct)
  case less
  show ?case
  proof (cases "d = []")
    case True
    have "overwrite (unat a) [] m = m" for m by (rule ext) (auto simp: overwrite_def)
    then show ?thesis using True less.prems by (simp add: w25qxx_write_data_dma.simps)
  next
    case False
    let ?off = "unat a mod 4096" and ?sa = "a AND NOT 4095"
    define n where "n = (if length d < 4096 - ?off then length d else 4096 - ?off)"
    have off: "?off < 4096" by simp
    have n: "0 < n" "n \<le> length d" "?off + n \<le> 4096" using False off by (auto simp: n_def)
    have sa: "unat ?sa + ?off = unat a" "unat ?sa mod 4096 = 0" unfolding sector_of by simp_all
    have chip4: "4096 dvd chip_size" by (simp add: chip_size_def)
    have "unat a < chip_size" using less.prems(2) False by (cases d) simp_all
    then have "unat a div 4096 < chip_size div 4096" using chip4 by (simp add: chip_size_def div_less_iff_less_mult)
    then have "Suc (unat a div 4096) * 4096 \<le> chip_size div 4096 * 4096" by (intro mult_le_mono1) simp
    then have top: "unat ?sa + 4096 \<le> chip_size" unfolding sector_of using chip4 by simp
    obtain s1 where s1: "write_sector spi ?sa ?off (take n d) s = Some s1"
      "content view s1 = overwrite (unat ?sa + ?off) (take n d) (content view s)" "drv_ok view s1" "same_drv s s1"
      using write_sector_ok [OF chip less.prems(1) sa(2) top, of ?off "take n d"] n by auto
    have step: "w25qxx_write_data_dma spi a d s = w25qxx_write_data_dma spi (a + of_nat n) (drop n d) s1"
      using False s1(1) by (simp add: w25qxx_write_data_dma.simps [of spi a d] Let_def w25qxx_FLASH_SECTOR_SIZE_def sector_of n_def [symmetric])
    have next_a: "unat (a + of_nat n) = unat a + n"
      using less.prems(2) n by (intro unat_add_small) (simp add: chip_size_def)
    have "length (drop n d) < length d" using n by simp
    then obtain s2 where s2: "w25qxx_write_data_dma spi (a + of_nat n) (drop n d) s1 = Some s2"
      "content view s2 = overwrite (unat a + n) (drop n d) (content view s1)" "drv_ok view s2" "same_drv s1 s2"
      using less.hyps [of "drop n d" s1 "a + of_nat n"] s1(3) less.prems(2) n next_a by auto
    have "content view s2 = overwrite (unat a) (take n d @ drop n d) (content view s)"
      unfolding s2(2) s1(2) sa(1) using overwrite_append [of "unat a" "take n d" "drop n d" "content view s"] n by simp
    then show ?thesis using step s2 same_drv_trans [OF s1(4) s2(4)] by simp
  qed
qed

end
