(* ===== verification/Flash_Module.thy ===== *)
theory Flash_Module
  imports W25qxx
begin

text \<open>
  The users of the flash driver: \<^verbatim>\<open>flash/flash.c\<close> (the MicroPython module \<^verbatim>\<open>flash\<close>), \<^verbatim>\<open>flash_init\<close> of
  \<^verbatim>\<open>maixpy_main.c\<close> and the block device functions of \<^verbatim>\<open>uos/vfs_spiffs_io.c\<close> for the internal
  file system. Results are those of \<open>Mp_Obj\<close> beside the state; \<open>None\<close> is a call that does not
  return. The driver's status is always \<^verbatim>\<open>W25QXX_OK\<close>, so the branches on other values of it do
  not exist, except in \<open>flash_erase\<close>, where the status can be an uninitialised variable: its
  value is the argument \<open>junk\<close>.
\<close>

definition flash_init :: "'d spi \<Rightarrow> u32 \<Rightarrow> 'd w25qxx \<Rightarrow> ((u8 \<times> u8) \<times> 'd w25qxx) option" where
  "flash_init spi cpu_freq s =
     (case w25qxx_enable_quad_mode_dma spi (w25qxx_init_dma spi cpu_freq 3 0 s) of
        None \<Rightarrow> None
      | Some s \<Rightarrow> Some (w25qxx_read_id_dma spi s))"

text \<open>The length goes through the driver's \<^verbatim>\<open>uint32_t\<close>; clearing the string writes as many bytes as
  were asked for, whatever was allocated.\<close>

definition flash_read :: "mp_env \<Rightarrow> 'd spi \<Rightarrow> mp_obj \<Rightarrow> mp_obj \<Rightarrow> 'd w25qxx \<Rightarrow> (mp_error + bytes) \<times> 'd w25qxx" where
  "flash_read env spi addr size_obj s =
     (case mp_obj_get_int size_obj of
        Inl e \<Rightarrow> (Inl e, s)
      | Inr sz \<Rightarrow>
          let len = word_of_int sz :: u64 in
          (case vstr_init_len env len of
             Inl e \<Rightarrow> (Inl e, s)
           | Inr buf \<Rightarrow>
               if length buf < unat len then (Inl Heap_overrun, s)
               else
                 (case mp_obj_get_int addr of
                    Inl e \<Rightarrow> (Inl e, s)
                  | Inr a \<Rightarrow>
                      let n = unat (ucast len :: u32);
                          (data, s) = w25qxx_read_data_dma spi (word_of_int a) n W25QXX_QUAD_FAST s
                      in (Inr (memcpy_at (replicate (unat len) 0) 0 data), s))))"

definition flash_write :: "'d spi \<Rightarrow> mp_obj \<Rightarrow> mp_obj \<Rightarrow> 'd w25qxx \<Rightarrow> ((mp_error + unit) \<times> 'd w25qxx) option" where
  "flash_write spi addr buf s =
     (case mp_get_buffer_raise buf of
        Inl e \<Rightarrow> Some (Inl e, s)
      | Inr src \<Rightarrow>
          (case mp_obj_get_int addr of
             Inl e \<Rightarrow> Some (Inl e, s)
           | Inr a \<Rightarrow>
               (case w25qxx_write_data_dma spi (word_of_int a) (take (unat (of_nat (length src) :: u32)) src) s of
                  None \<Rightarrow> None
                | Some s \<Rightarrow> Some (Inr (), s))))"

definition flash_erase :: "u32 \<Rightarrow> 'd spi \<Rightarrow> mp_obj \<Rightarrow> mp_obj \<Rightarrow> 'd w25qxx \<Rightarrow> ((mp_error + unit) \<times> 'd w25qxx) option" where
  "flash_erase junk spi addr size_obj s =
     (case mp_obj_get_int size_obj of
        Inl e \<Rightarrow> Some (Inl e, s)
      | Inr sz \<Rightarrow>
          let int_size = word_of_int sz :: u32 in
          (case (if int_size = 4096 then
                   (case mp_obj_get_int addr of Inl e \<Rightarrow> Inl e | Inr a \<Rightarrow> Inr (0, w25qxx_sector_erase_dma spi (word_of_int a) s))
                 else if int_size = 65536 then
                   (case mp_obj_get_int addr of Inl e \<Rightarrow> Inl e | Inr a \<Rightarrow> Inr (0, w25qxx_64k_block_erase_dma spi (word_of_int a) s))
                 else Inr (junk, s)) of
             Inl e \<Rightarrow> Some (Inl e, s)
           | Inr (res, s) \<Rightarrow>
               (case wait_busy spi s of
                  None \<Rightarrow> None
                | Some s \<Rightarrow> Some (if res \<noteq> 0 then Inl (ValueError ''error erasing flash'') else Inr (), s))))"

section \<open>The block device of the file system\<close>

definition sys_spiffs_read :: "'d spi \<Rightarrow> u32 \<Rightarrow> u32 \<Rightarrow> 'd w25qxx \<Rightarrow> bytes \<times> 'd w25qxx" where
  "sys_spiffs_read spi addr sz s = w25qxx_read_data_dma spi addr (unat sz) W25QXX_QUAD_FAST s"

definition sys_spiffs_write :: "'d spi \<Rightarrow> u32 \<Rightarrow> bytes \<Rightarrow> 'd w25qxx \<Rightarrow> 'd w25qxx option" where
  "sys_spiffs_write spi addr buf s = w25qxx_write_data_dma spi addr buf s"

definition sys_spiffs_erase :: "'d spi \<Rightarrow> u32 \<Rightarrow> u32 \<Rightarrow> 'd w25qxx \<Rightarrow> 'd w25qxx" where
  "sys_spiffs_erase spi addr sz s = w25qxx_sector_erase_dma spi addr s"

end
