(* ===== verification/Flash_Correct.thy ===== *)
theory Flash_Correct
  imports W25qxx_Correct Flash_Module
begin

text \<open>
  The quad mode of the flash driver: both mode functions reach the state they promise on every
  chip, whichever of the two ways of writing the quad bit the chip accepts first, and the contents
  of the array are kept.
\<close>

section \<open>Quad mode\<close>

text \<open>A command sent to a chip that may still be busy: it is ignored, or takes effect.\<close>

lemma send_step:
  assumes "chip_ok spi view"
  obtains w where "w \<le> waiting (nview view s)"
    "if 0 < w then nview view (w25qxx_send_data_dma spi c d s) = nview view s\<lparr>ff := SPI_FF_STANDARD, waiting := w\<rparr>
     else send_cmd c d (nview view s\<lparr>ff := SPI_FF_STANDARD, waiting := 0\<rparr>) (nview view (w25qxx_send_data_dma spi c d s))"
    "same_drv s (w25qxx_send_data_dma spi c d s)"
proof -
  let ?s = "spi_do spi (Spi_init (spi_bus_no s) SPI_FF_STANDARD) s"
  let ?c = "Spi_send_standard (spi_bus_no ?s) (spi_chip_select ?s) c d"
  obtain w0 where w0: "w0 \<le> waiting (nview view s)" "nview view ?s = nview view s\<lparr>waiting := w0, ff := SPI_FF_STANDARD\<rparr>"
    using spi_do_step [OF assms, of s "Spi_init (spi_bus_no s) SPI_FF_STANDARD"] by auto
  obtain out w where w: "w \<le> w0" "nor_cmd ?c (nview view ?s\<lparr>waiting := w\<rparr>) out (nview view (spi_do spi ?c ?s))"
    using spi_do_step [OF assms, of ?s ?c] w0(2) by auto
  have e: "w25qxx_send_data_dma spi c d s = spi_do spi ?c ?s" by (simp add: w25qxx_send_data_dma_def Let_def)
  show thesis
  proof (rule that [of w])
    show "if 0 < w then nview view (w25qxx_send_data_dma spi c d s) = nview view s\<lparr>ff := SPI_FF_STANDARD, waiting := w\<rparr>
      else send_cmd c d (nview view s\<lparr>ff := SPI_FF_STANDARD, waiting := 0\<rparr>) (nview view (w25qxx_send_data_dma spi c d s))"
      using w(2) unfolding e w0(2) by (cases "w = 0") simp_all
    show "same_drv s (w25qxx_send_data_dma spi c d s)" unfolding e by (rule same_drv_trans [OF same_drv_spi(1) same_drv_spi(1)])
    show "w \<le> waiting (nview view s)" using w(1) w0(1) by simp
  qed
qed

definition holds_quad :: "('d \<Rightarrow> nor) \<Rightarrow> (nat \<Rightarrow> u8) \<Rightarrow> bool \<Rightarrow> 'd w25qxx \<Rightarrow> bool" where
  "holds_quad view m q s = (content view s = m \<and> quad (nview view s) = q)"

lemma write_enable_holds:
  assumes "chip_ok spi view" and "holds_quad view m q s"
  shows "holds_quad view m q (w25qxx_write_enable_dma spi s) \<and> same_drv s (w25qxx_write_enable_dma spi s)"
  by (rule send_step [OF assms(1), of s "[WRITE_ENABLE]" "[]"])
    (use assms(2) in \<open>auto simp: w25qxx_write_enable_dma_def WRITE_ENABLE_def holds_quad_def split: if_splits\<close>)

lemma write_status_holds:
  assumes chip: "chip_ok spi view" and "holds_quad view m q s" and r: "bit r 1 = q"
  shows "holds_quad view m q (w25qxx_write_status_reg_dma spi 0 r s) \<and> same_drv s (w25qxx_write_status_reg_dma spi 0 r s)"
proof -
  let ?s = "w25qxx_write_enable_dma spi s"
  have we: "holds_quad view m q ?s" "same_drv s ?s" using write_enable_holds [OF assms(1,2)] by simp_all
  let ?t = "w25qxx_send_data_dma spi [WRITE_REG1, 0, r] [] ?s"
  have "holds_quad view m q ?t \<and> same_drv ?s ?t"
    by (rule send_step [OF chip, of ?s "[WRITE_REG1, 0, r]" "[]"])
      (use we(1) r in \<open>auto simp: WRITE_REG1_def holds_quad_def modified_def split: if_splits\<close>)
  then show ?thesis using same_drv_trans [OF we(2)] by (simp add: w25qxx_write_status_reg_dma_def)
qed

lemma read_reg2_ok:
  assumes "chip_ok spi view" and "idle view s" and "w25qxx_read_status_reg2_dma spi s = (r, s')"
  shows "(bit r 1 \<longleftrightarrow> quad (nview view s)) \<and> only_read view s s'"
proof -
  obtain out where o: "w25qxx_receive_data_dma spi [READ_REG2] 1 s = (out, s')" "r = out ! 0"
    using assms(3) by (auto simp: w25qxx_read_status_reg2_dma_def Let_def split: prod.splits)
  have "receive_cmd [READ_REG2] 1 (nview view s\<lparr>ff := SPI_FF_STANDARD\<rparr>) out (nview view s')" "same_drv s s'"
    by (rule receive_idle [OF assms(1,2) _ o(1)]; simp add: READ_REG2_def)+
  then show ?thesis using assms(2) o(2) by (auto simp: READ_REG2_def only_read_def idle_def)
qed

lemma and_two: "(r :: u8) AND 2 = 0 \<longleftrightarrow> \<not> bit r 1"
proof
  assume "r AND 2 = 0"
  then have "\<not> bit (r AND 2) 1" by simp
  moreover have "bit (2 :: u8) 1" by simp
  ultimately show "\<not> bit r 1" by (simp only: bit_and_iff) simp
next
  assume r: "\<not> bit r 1"
  have two: "bit (2 :: u8) i \<Longrightarrow> i = 1" for i using bit_exp_iff [of 1 i, where 'a = "8 word"] by simp
  show "r AND 2 = 0"
  proof (rule bit_word_eqI)
    fix i
    show "bit (r AND 2) i = bit (0 :: u8) i" using two r by (metis bit_and_iff bit_0_eq bot_apply bot_bool_def)
  qed
qed

lemma write_reg2_ok:
  assumes "chip_ok spi view" and "idle view s" and "bit r 1 = q"
  shows "holds_quad view (content view s) q (w25qxx_write_status_reg2_dma spi r s) \<and> same_drv s (w25qxx_write_status_reg2_dma spi r s)"
proof -
  note s = send_modifies [OF assms(1,2) w25qxx_write_status_reg2_dma_def [of spi r s]]
  obtain w where "nview view (w25qxx_write_status_reg2_dma spi r s) =
      nview view s\<lparr>ff := SPI_FF_STANDARD, quad := q, latch := False, waiting := w\<rparr>"
    using s(1) assms(3) by (auto simp: WRITE_REG2_def modified_def)
  then show ?thesis using s(2) by (simp add: holds_quad_def)
qed

text \<open>Setting or clearing the quad bit as both mode functions do it, on either kind of chip.\<close>

lemma set_quad_ok:
  assumes chip: "chip_ok spi view" and idle: "idle view s" and r: "bit r 1 = q"
  obtains s' where "wait_busy spi (w25qxx_write_status_reg_dma spi 0 r (w25qxx_write_status_reg2_dma spi r s)) = Some s'"
    "content view s' = content view s" "quad (nview view s') = q" "idle view s'" "same_drv s s'"
proof -
  let ?s1 = "w25qxx_write_status_reg2_dma spi r s"
  let ?s2 = "w25qxx_write_status_reg_dma spi 0 r ?s1"
  note w1 = write_reg2_ok [OF chip idle r]
  note w2 = write_status_holds [OF chip conjunct1 [OF w1] r]
  obtain s' where s': "wait_busy spi ?s2 = Some s'" "nview view s' = nview view ?s2\<lparr>ff := SPI_FF_STANDARD, waiting := 0\<rparr>" "same_drv ?s2 s'"
    using wait_busy_ok [OF chip] by blast
  show thesis
    by (rule that [OF s'(1)])
      (use s' w2 same_drv_trans [OF conjunct2 [OF w1] same_drv_trans [OF conjunct2 [OF w2] s'(3)]] in \<open>simp_all add: holds_quad_def idle_def\<close>)
qed

lemma enable_quad_ok:
  assumes chip: "chip_ok spi view" and idle: "idle view s"
  obtains s' where "w25qxx_enable_quad_mode_dma spi s = Some s'" "content view s' = content view s" "drv_ok view s'" "quad (nview view s')"
    "w25qxx_page_program_fun s' = Some Quad_page_program" "w25qxx_read_fun s' = Some Quad_read"
proof -
  obtain r s1 where r: "w25qxx_read_status_reg2_dma spi s = (r, s1)" by fastforce
  note R = read_reg2_ok [OF chip idle r]
  have s1: "idle view s1" "content view s1 = content view s" "quad (nview view s1) \<longleftrightarrow> bit r 1" using R by (simp_all add: only_read_def)
  obtain s2 where s2: "(if r AND REG2_QUAL_MASK = 0 then
       wait_busy spi (w25qxx_write_status_reg_dma spi 0 (r OR REG2_QUAL_MASK) (w25qxx_write_status_reg2_dma spi (r OR REG2_QUAL_MASK) s1))
     else Some s1) = Some s2" "content view s2 = content view s" "quad (nview view s2)" "idle view s2"
  proof (cases "bit r 1")
    case True
    then show thesis using that [of s1] s1 by (simp add: REG2_QUAL_MASK_def and_two)
  next
    case False
    have "bit (r OR REG2_QUAL_MASK) 1 = True" by (simp add: REG2_QUAL_MASK_def bit_or_iff)
    from set_quad_ok [OF chip s1(1) this] show thesis
      using that False s1(2) by (metis (full_types) REG2_QUAL_MASK_def and_two)
  qed
  let ?t = "s2\<lparr>w25qxx_page_program_fun := Some Quad_page_program, w25qxx_read_fun := Some Quad_read\<rparr>"
  have n: "nview view ?t = nview view s2" by (simp add: nview_def)
  have "w25qxx_enable_quad_mode_dma spi s = Some ?t"
    using r s2(1) by (cases "r AND REG2_QUAL_MASK = 0") (simp_all add: w25qxx_enable_quad_mode_dma_def Let_def)
  then show thesis using s2 n by (intro that [of ?t]) (simp_all add: drv_ok_def idle_def)
qed

lemma disable_quad_ok:
  assumes chip: "chip_ok spi view" and idle: "idle view s"
  obtains s' where "w25qxx_disable_quad_mode_dma spi s = Some s'" "content view s' = content view s" "drv_ok view s'" "\<not> quad (nview view s')"
    "w25qxx_page_program_fun s' = Some Page_program" "w25qxx_read_fun s' = Some Stand_read"
proof -
  obtain r s1 where r: "w25qxx_read_status_reg2_dma spi s = (r, s1)" by fastforce
  note R = read_reg2_ok [OF chip idle r]
  have s1: "idle view s1" "content view s1 = content view s" "quad (nview view s1) \<longleftrightarrow> bit r 1" using R by (simp_all add: only_read_def)
  obtain s2 where s2: "(if r AND REG2_QUAL_MASK \<noteq> 0 then
       wait_busy spi (w25qxx_write_status_reg_dma spi 0 (r AND NOT REG2_QUAL_MASK) (w25qxx_write_status_reg2_dma spi (r AND NOT REG2_QUAL_MASK) s1))
     else Some s1) = Some s2" "content view s2 = content view s" "\<not> quad (nview view s2)" "idle view s2"
  proof (cases "bit r 1")
    case False
    then show thesis using that [of s1] s1 by (simp add: REG2_QUAL_MASK_def and_two)
  next
    case True
    have "bit (r AND NOT REG2_QUAL_MASK) 1 = False" by (simp add: REG2_QUAL_MASK_def bit_and_iff bit_not_iff)
    from set_quad_ok [OF chip s1(1) this] show thesis
      using that True s1(2) by (metis (full_types) REG2_QUAL_MASK_def and_two)
  qed
  let ?t = "s2\<lparr>w25qxx_page_program_fun := Some Page_program, w25qxx_read_fun := Some Stand_read\<rparr>"
  have n: "nview view ?t = nview view s2" by (simp add: nview_def)
  have "w25qxx_disable_quad_mode_dma spi s = Some ?t"
    using r s2(1) by (cases "r AND REG2_QUAL_MASK = 0") (simp_all add: w25qxx_disable_quad_mode_dma_def Let_def)
  then show thesis using s2 n by (intro that [of ?t]) (simp_all add: drv_ok_def idle_def)
qed

end
