(* ===== verification/Nor_Sim.thy ===== *)
theory Nor_Sim
  imports W25qxx_Correct
begin

text \<open>
  A simulated chip, which satisfies the hypothesis of \<open>Nor_Chip\<close>: its state is \<open>nor\<close> itself, a
  change of the array or of a register takes three status reads, and what it answers to a read
  while it is busy is bytes of ones.
\<close>

definition sim_change :: "(nat \<Rightarrow> u8) \<Rightarrow> bool \<Rightarrow> nor \<Rightarrow> nor" where
  "sim_change m q n = (if latch n then n\<lparr>contents := m, quad := q, latch := False, waiting := 3\<rparr> else n)"

fun sim_send :: "bytes \<Rightarrow> bytes \<Rightarrow> nor \<Rightarrow> nor" where
  "sim_send [c] d n =
     (if c = 0x06 then n\<lparr>latch := True\<rparr> else if c = 0xC7 then sim_change (\<lambda>i. 0xFF) (quad n) n else n)"
| "sim_send [c, r] d n = (if c = 0x31 then sim_change (contents n) (bit r 1) n else n)"
| "sim_send [c, r1, r2] d n = (if c = 0x01 then sim_change (contents n) (bit r2 1) n else n)"
| "sim_send [c, a2, a1, a0] d n =
     (let a = addr24 a2 a1 a0 in
      if c = 0x20 then sim_change (erase 4096 a (contents n)) (quad n) n
      else if c = 0x52 then sim_change (erase 32768 a (contents n)) (quad n) n
      else if c = 0xD8 then sim_change (erase 65536 a (contents n)) (quad n) n
      else if c = 0x02 then sim_change (program a d (contents n)) (quad n) n
      else n)"
| "sim_send _ d n = n"

fun sim_receive :: "bytes \<Rightarrow> nat \<Rightarrow> nor \<Rightarrow> bytes" where
  "sim_receive [c] k n = (if c = 0x35 \<and> quad n then [2] else if c = 0x35 then [0] else [])"
| "sim_receive [c, a2, a1, a0] k n = (if c = 0x03 then read_at (contents n) (addr24 a2 a1 a0) k else [0xEF, 0x17])"
| "sim_receive [c, a2, a1, a0, x] k n = read_at (contents n) (addr24 a2 a1 a0) k"
| "sim_receive _ k n = []"

fun sim_spi :: "nor spi" where
  "sim_spi (Spi_init b f) n = ([], n\<lparr>ff := f\<rparr>)"
| "sim_spi (Spi_set_clk_rate b r) n = ([], n)"
| "sim_spi (Spi_init_non_standard b i a w t) n = ([], n\<lparr>frame := (i, a, w, t)\<rparr>)"
| "sim_spi (Spi_send_standard b cs c d) n = ([], if 0 < waiting n then n else sim_send c d n)"
| "sim_spi (Spi_receive_standard b cs c k) n =
     (if c = [0x05] \<and> k = 1 then ([if 0 < waiting n then 1 else 0], n\<lparr>waiting := waiting n - 1\<rparr>)
      else if 0 < waiting n then (replicate k 0xFF, n)
      else (sim_receive c k n, n))"
| "sim_spi (Spi_send_multiple b cs c d) n =
     ([], if 0 < waiting n then n
          else sim_change (program (unat (c ! 1) mod chip_size) d (contents n)) (quad n) n)"
| "sim_spi (Spi_receive_multiple b cs c k) n =
     (if 0 < waiting n then (replicate k 0xFF, n)
      else (case multi_read_addr n (c ! 0) (c ! 1) of
              Some a \<Rightarrow> (read_at (contents n) (a mod chip_size) k, n)
            | None \<Rightarrow> ([], n)))"

lemma sim_change_latch: "latch n \<Longrightarrow> modified n m q (sim_change m q n)"
  by (auto simp: sim_change_def modified_def)

lemma sim_change_idle: "\<not> latch n \<Longrightarrow> sim_change m q n = n"
  by (simp add: sim_change_def)

lemmas sim_change_ok = sim_change_latch sim_change_idle

lemma sim_send_ok: "send_cmd c d n (sim_send c d n)"
  by (cases "(c, d, n)" rule: sim_send.cases) (simp_all add: Let_def sim_change_ok)

lemma sim_receive_ok: "c \<noteq> [0x05] \<or> k \<noteq> 1 \<Longrightarrow> receive_cmd c k n (sim_receive c k n) n"
  by (cases "(c, k, n)" rule: sim_receive.cases) auto

lemma nor_cmd_step: "nor_cmd c n out n' \<Longrightarrow> nor_step c n out n'"
  unfolding nor_step_def by (intro exI [of _ "waiting n"] conjI) simp_all

lemma sim_cmd: "nor_cmd c n (fst (sim_spi c n)) (snd (sim_spi c n))"
proof (cases c)
  case (Spi_send_standard b cs x d)
  then show ?thesis using sim_send_ok by simp
next
  case (Spi_receive_standard b cs x k)
  then show ?thesis using sim_receive_ok [of x k n] by simp
next
  case (Spi_send_multiple b cs x d)
  then show ?thesis by (cases "latch n") (simp_all add: sim_change_ok)
next
  case (Spi_receive_multiple b cs x k)
  then show ?thesis by (simp split: option.split)
qed simp_all

lemma sim_chip_ok: "chip_ok sim_spi id"
  by (simp add: chip_ok_def nor_cmd_step [OF sim_cmd])

text \<open>The driver before start-up, its chip idle and filled with zeros.\<close>

definition power_on :: "nor w25qxx" where
  "power_on = \<lparr>spi_bus_no = 0, spi_chip_select = 0, w25qxx_page_program_fun = None, w25qxx_read_fun = None,
     dev = \<lparr>contents = \<lambda>i. 0, latch = False, waiting = 0, quad = False, ff = SPI_FF_STANDARD, frame = (8, 24, 0, SPI_AITM_STANDARD)\<rparr>\<rparr>"

definition running :: "nor w25qxx" where
  "running = power_on\<lparr>w25qxx_page_program_fun := Some Quad_page_program, w25qxx_read_fun := Some Quad_read,
     dev := (dev power_on)\<lparr>quad := True\<rparr>\<rparr>"

lemma power_on_idle: "idle id power_on"
  by (simp add: power_on_def idle_def nview_def)

lemma running_ok: "drv_ok id running" "quad (nview id running)" "content id running = (\<lambda>i. 0)"
  by (simp_all add: running_def power_on_def drv_ok_def idle_def nview_def)

end
