(* ===== verification/Flash_Props.thy ===== *)
theory Flash_Props
  imports Flash_Correct Nor_Sim Text_Codec
begin

text \<open>
  The properties of the flash driver and of its users: start-up, writing, the Python module
  \<^verbatim>\<open>flash\<close>, and a write of the file system that is lost because its erase does not wait.
\<close>

section \<open>Start-up\<close>

lemma init_dma_ok:
  assumes "chip_ok spi view" and "idle view s"
  shows "idle view (w25qxx_init_dma spi cpu_freq i j s)" and "content view (w25qxx_init_dma spi cpu_freq i j s) = content view s"
proof -
  let ?s0 = "s\<lparr>spi_bus_no := ucast i, spi_chip_select := ucast j\<rparr>"
  let ?s1 = "spi_do spi (Spi_init (spi_bus_no ?s0) SPI_FF_STANDARD) ?s0"
  let ?s2 = "spi_do spi (Spi_set_clk_rate (spi_bus_no ?s1) (cpu_freq div 400 * 25)) ?s1"
  have i0: "idle view ?s0" using assms(2) by (simp add: idle_def nview_def)
  have n1: "nview view ?s1 = nview view ?s0\<lparr>ff := SPI_FF_STANDARD\<rparr>" by (rule spi_init_idle [OF assms(1) i0])
  have "idle view ?s1" using i0 n1 by (simp add: idle_def)
  from spi_do_idle [OF assms(1) this, of "Spi_set_clk_rate (spi_bus_no ?s1) (cpu_freq div 400 * 25)"]
  have n2: "nview view ?s2 = nview view ?s1" by simp
  show "idle view (w25qxx_init_dma spi cpu_freq i j s)"
    using i0 n1 n2 by (simp add: w25qxx_init_dma_def Let_def idle_def nview_def)
  show "content view (w25qxx_init_dma spi cpu_freq i j s) = content view s"
    using n1 n2 by (simp add: w25qxx_init_dma_def Let_def nview_def)
qed

lemma init_dma_bus:
  "spi_bus_no (w25qxx_init_dma spi cpu_freq i j s) = ucast i" "spi_chip_select (w25qxx_init_dma spi cpu_freq i j s) = ucast j"
  by (simp_all add: w25qxx_init_dma_def Let_def spi_do_def)

lemma read_id_ok:
  assumes "chip_ok spi view" and "idle view s" and "w25qxx_read_id_dma spi s = (ids, s')"
  shows "only_read view s s'"
proof -
  obtain out where o: "w25qxx_receive_data_dma spi [READ_ID, 0, 0, 0] 2 s = (out, s')"
    using assms(3) by (auto simp: w25qxx_read_id_dma_def Let_def split: prod.splits)
  have "receive_cmd [READ_ID, 0, 0, 0] 2 (nview view s\<lparr>ff := SPI_FF_STANDARD\<rparr>) out (nview view s')" "same_drv s s'"
    by (rule receive_idle [OF assms(1,2) _ o]; simp add: READ_ID_def)+
  then show ?thesis using assms(2) by (auto simp: READ_ID_def only_read_def idle_def)
qed

text \<open>C21: Start-up of the flash driver returns on every chip that meets its data sheet and was idle,
  whether its quad bit was set before or not: the contents are kept, the quad bit is set, and the
  driver is left in the quad mode that the reads of the Python module and of the file system rely on.\<close>

theorem flash_init_ready:
  assumes "chip_ok spi view" and "idle view s"
  shows "\<exists>ids s'. flash_init spi cpu_freq s = Some (ids, s') \<and> drv_ok view s' \<and> quad (nview view s') \<and>
    w25qxx_page_program_fun s' = Some Quad_page_program \<and> w25qxx_read_fun s' = Some Quad_read \<and>
    contents (nview view s') = contents (nview view s)"
proof -
  note i = init_dma_ok [OF assms, of cpu_freq 3 0]
  obtain s1 where s1: "w25qxx_enable_quad_mode_dma spi (w25qxx_init_dma spi cpu_freq 3 0 s) = Some s1" "drv_ok view s1" "quad (nview view s1)"
    "content view s1 = content view s" "w25qxx_page_program_fun s1 = Some Quad_page_program" "w25qxx_read_fun s1 = Some Quad_read"
    using enable_quad_ok [OF assms(1) i(1)] i(2) by metis
  obtain ids s2 where id: "w25qxx_read_id_dma spi s1 = (ids, s2)" by fastforce
  note r = read_id_ok [OF assms(1) drv_ok_idle [OF s1(2)] id]
  then have "same_drv s1 s2" "content view s2 = content view s1" "quad (nview view s2) = quad (nview view s1)" by (simp_all add: only_read_def)
  then show ?thesis using s1 id only_read_ok [OF r s1(2)] same_drv_fields [of s1 s2] by (simp add: flash_init_def)
qed

theorem flash_init_ready_witness:
  "\<exists>ids s'. flash_init sim_spi 390000000 power_on = Some (ids, s') \<and> drv_ok id s' \<and> quad (nview id s') \<and>
    w25qxx_page_program_fun s' = Some Quad_page_program \<and> w25qxx_read_fun s' = Some Quad_read \<and>
    contents (nview id s') = contents (nview id power_on)"
  by (rule flash_init_ready [OF sim_chip_ok power_on_idle])

section \<open>Writing\<close>

text \<open>C7: Writing any bytes anywhere within the chip, in standard and in quad mode, returns, and
  replaces exactly those bytes: the rest of each sector touched is put back after an erase. The
  driver is left ready.\<close>

theorem w25qxx_write_data_correct:
  assumes "chip_ok spi view" and "drv_ok view s" and "unat a + length d \<le> chip_size"
  shows "\<exists>s'. w25qxx_write_data_dma spi a d s = Some s' \<and> drv_ok view s' \<and>
    (\<forall>i. contents (nview view s') i =
      (if unat a \<le> i \<and> i < unat a + length d then d ! (i - unat a) else contents (nview view s) i))"
  using write_data_ok [OF assms] by (auto simp: overwrite_def)

theorem w25qxx_write_data_correct_witness:
  "\<exists>s'. w25qxx_write_data_dma sim_spi 0x1FFE [1, 2, 3, 4] running = Some s' \<and> drv_ok id s' \<and>
    (\<forall>i. contents (nview id s') i =
      (if unat (0x1FFE :: u32) \<le> i \<and> i < unat (0x1FFE :: u32) + length [1, 2, 3, 4 :: u8] then [1, 2, 3, 4] ! (i - unat (0x1FFE :: u32))
       else contents (nview id running) i))"
  by (rule w25qxx_write_data_correct [OF sim_chip_ok running_ok(1)]) (simp add: chip_size_def)

section \<open>The Python module\<close>

lemma get_int_in: "0 \<le> a \<Longrightarrow> a < 2 ^ 63 \<Longrightarrow> mp_obj_get_int (Mp_int a) = Inr a"
  by (simp add: mp_obj_get_int_def)

lemma unat_word_of_int32: "0 \<le> a \<Longrightarrow> a < 2 ^ 32 \<Longrightarrow> unat (word_of_int a :: u32) = nat a"
  by (simp add: unsigned_of_int take_bit_int_eq_self)

definition quad_ready :: "('d \<Rightarrow> nor) \<Rightarrow> 'd w25qxx \<Rightarrow> bool" where
  "quad_ready view s = (drv_ok view s \<and> w25qxx_read_fun s = Some Quad_read)"

lemma quad_ready_mode: "quad_ready view s \<Longrightarrow> mode_ok view W25QXX_QUAD_FAST s"
  by (simp add: quad_ready_def mode_ok_def drv_ok_def)

lemma flash_write_ok:
  assumes "chip_ok spi view" and "quad_ready view s" and "0 \<le> a" and "nat a + length d \<le> chip_size"
  obtains s' where "flash_write spi (Mp_int a) (Mp_buffer d) s = Some (Inr (), s')"
    "content view s' = overwrite (nat a) d (content view s)" "quad_ready view s'"
proof -
  have a: "a < 2 ^ 63" "a < 2 ^ 32" "length d < 2 ^ 32" using assms(3,4) by (simp_all add: chip_size_def)
  then have u: "unat (word_of_int a :: u32) = nat a" "unat (of_nat (length d) :: u32) = length d"
    using assms(3) unat_word_of_int32 by (simp_all add: unsigned_of_nat take_bit_nat_eq_self)
  then obtain s' where "w25qxx_write_data_dma spi (word_of_int a) d s = Some s'" "content view s' = overwrite (nat a) d (content view s)"
    "drv_ok view s'" "same_drv s s'"
    using write_data_ok [OF assms(1), of s "word_of_int a" d] assms(2,4) by (auto simp: quad_ready_def)
  then show thesis
    using a u assms(2,3) same_drv_fields [of s s']
    by (intro that [of s']) (simp_all add: flash_write_def mp_get_buffer_raise_def get_int_in quad_ready_def)
qed

lemma flash_read_ok:
  assumes "chip_ok spi view" and "quad_ready view s" and "0 \<le> a" and "a < 2 ^ 32" and "n < heap_limit env" and "n < 2 ^ 32" and "fresh_ok env"
  obtains s' where "flash_read env spi (Mp_int a) (Mp_int (int n)) s = (Inr (read_at (content view s) (nat a) n), s')" "only_read view s s'"
proof -
  obtain out s' where r: "w25qxx_read_data_dma spi (word_of_int a) n W25QXX_QUAD_FAST s = (out, s')" by fastforce
  note R = read_data_eq [OF assms(1) quad_ready_mode [OF assms(2)] r]
  have u: "unat (word_of_int (int n) :: u64) = n" "unat (ucast (word_of_int (int n) :: u64) :: u32) = n" "unat (word_of_int a :: u32) = nat a"
    using assms unat_word_of_int32 [of "int n"] unat_word_of_int32 [of a] by (simp_all add: unsigned_of_nat unsigned_ucast_eq take_bit_nat_eq_self)
  have "length out = n" using R u by simp
  moreover have "length (fresh_bytes env (Suc n)) = Suc n" using assms(7) by (simp add: fresh_ok_def)
  ultimately show thesis
    using assms R r u vstr_ok [of env n]
    by (intro that [of s']) (simp_all add: flash_read_def get_int_in Let_def mp_obj_get_int_def)
qed

lemma read_at_overwrite: "a + length d \<le> chip_size \<Longrightarrow> read_at (overwrite a d m) a (length d) = d"
  by (rule nth_equalityI) (simp_all add: read_at_def overwrite_def)

lemma read_at_apart:
  "a + n \<le> chip_size \<Longrightarrow> a + n \<le> b \<or> b + length d \<le> a \<Longrightarrow> read_at (overwrite b d m) a n = read_at m a n"
  by (rule nth_equalityI) (auto simp: read_at_def overwrite_def)

text \<open>The contract the driver offers to its users: storage of bytes, with a condition \<open>ok\<close> under
  which calls succeed and which they keep. \<open>fits\<close> bounds the length of a read.\<close>

locale byte_store =
  fixes ok :: "'s \<Rightarrow> bool" and mem :: "'s \<Rightarrow> nat \<Rightarrow> u8" and fits :: "nat \<Rightarrow> bool"
    and store :: "nat \<Rightarrow> bytes \<Rightarrow> 's \<Rightarrow> 's option" and fetch :: "nat \<Rightarrow> nat \<Rightarrow> 's \<Rightarrow> bytes \<times> 's"
  assumes store_ok: "ok s \<Longrightarrow> a + length d \<le> chip_size \<Longrightarrow> \<exists>s'. store a d s = Some s' \<and> ok s' \<and> mem s' = overwrite a d (mem s)"
    and fetch_ok: "ok s \<Longrightarrow> a + n \<le> chip_size \<Longrightarrow> fits n \<Longrightarrow> \<exists>s'. fetch a n s = (read_at (mem s) a n, s') \<and> ok s' \<and> mem s' = mem s"
begin

lemma store_fetch:
  assumes "ok s" and "a + length d \<le> chip_size" and "fits (length d)"
  shows "\<exists>s' s''. store a d s = Some s' \<and> fetch a (length d) s' = (d, s'') \<and> ok s'' \<and> mem s'' = mem s'"
proof -
  obtain s' where s': "store a d s = Some s'" "ok s'" "mem s' = overwrite a d (mem s)" using store_ok [OF assms(1,2)] by blast
  from fetch_ok [OF s'(2) assms(2,3)] show ?thesis using s' read_at_overwrite [OF assms(2)] by auto
qed

lemma fetch_apart:
  assumes "ok s" and "b + length d \<le> chip_size" and "a + n \<le> chip_size" and "fits n" and "a + n \<le> b \<or> b + length d \<le> a"
  shows "\<exists>s'. store b d s = Some s' \<and> fst (fetch a n s') = fst (fetch a n s)"
proof -
  obtain s' where s': "store b d s = Some s'" "ok s'" "mem s' = overwrite b d (mem s)" using store_ok [OF assms(1,2)] by blast
  from fetch_ok [OF s'(2) assms(3,4)] fetch_ok [OF assms(1,3,4)] show ?thesis
    using s' read_at_apart [OF assms(3,5)] by auto
qed

end

text \<open>The Python module and the block device of the file system both offer it.\<close>

lemma only_read_quad_ready: "only_read view s s' \<Longrightarrow> quad_ready view s \<Longrightarrow> quad_ready view s'"
  using only_read_ok [of view s s'] same_drv_fields [of s s'] by (auto simp: quad_ready_def only_read_def)

definition py_store :: "'d spi \<Rightarrow> nat \<Rightarrow> bytes \<Rightarrow> 'd w25qxx \<Rightarrow> 'd w25qxx option" where
  "py_store spi a d s = (case flash_write spi (Mp_int (int a)) (Mp_buffer d) s of Some (Inr _, s') \<Rightarrow> Some s' | _ \<Rightarrow> None)"

definition py_fetch :: "mp_env \<Rightarrow> 'd spi \<Rightarrow> nat \<Rightarrow> nat \<Rightarrow> 'd w25qxx \<Rightarrow> bytes \<times> 'd w25qxx" where
  "py_fetch env spi a n s = (case flash_read env spi (Mp_int (int a)) (Mp_int (int n)) s of (Inr d, s') \<Rightarrow> (d, s') | (_, s') \<Rightarrow> ([], s'))"

interpretation pyf: byte_store "\<lambda>s. chip_ok spi view \<and> quad_ready view s" "\<lambda>s. content view s" "\<lambda>n. fresh_ok env \<and> n < heap_limit env"
  "py_store spi" "py_fetch env spi" for spi view env
proof
  fix s a and d :: bytes
  assume "chip_ok spi view \<and> quad_ready view s" and "a + length d \<le> chip_size"
  then show "\<exists>s'. py_store spi a d s = Some s' \<and> (chip_ok spi view \<and> quad_ready view s') \<and> content view s' = overwrite a d (content view s)"
    using flash_write_ok [of spi view s "int a" d] by (force simp: py_store_def)
next
  fix s a n
  assume ok: "chip_ok spi view \<and> quad_ready view s" and "a + n \<le> chip_size" and "fresh_ok env \<and> n < heap_limit env"
  then obtain s' where "flash_read env spi (Mp_int (int a)) (Mp_int (int n)) s = (Inr (read_at (content view s) a n), s')" "only_read view s s'"
    using flash_read_ok [of spi view s "int a" n env] by (auto simp: chip_size_def)
  then show "\<exists>s'. py_fetch env spi a n s = (read_at (content view s) a n, s') \<and> (chip_ok spi view \<and> quad_ready view s') \<and> content view s' = content view s"
    using ok only_read_quad_ready by (auto simp: py_fetch_def only_read_def)
qed

interpretation fs: byte_store "\<lambda>s. chip_ok spi view \<and> quad_ready view s" "\<lambda>s. content view s" "\<lambda>n. n < 2 ^ 32"
  "\<lambda>a. sys_spiffs_write spi (of_nat a)" "\<lambda>a n. sys_spiffs_read spi (of_nat a) (of_nat n)" for spi view
proof
  fix s a and d :: bytes
  assume ok: "chip_ok spi view \<and> quad_ready view s" and a: "a + length d \<le> chip_size"
  then have "unat (of_nat a :: u32) = a" by (intro unat_of_nat_small) (simp add: chip_size_def)
  then obtain s' where "sys_spiffs_write spi (of_nat a) d s = Some s'" "content view s' = overwrite a d (content view s)" "drv_ok view s'" "same_drv s s'"
    using write_data_ok [of spi view s "of_nat a" d] ok a by (auto simp: quad_ready_def sys_spiffs_write_def)
  then show "\<exists>s'. sys_spiffs_write spi (of_nat a) d s = Some s' \<and> (chip_ok spi view \<and> quad_ready view s') \<and> content view s' = overwrite a d (content view s)"
    using ok same_drv_fields [of s s'] by (auto simp: quad_ready_def)
next
  fix s a n
  assume ok: "chip_ok spi view \<and> quad_ready view s" and a: "a + n \<le> chip_size" and "n < 2 ^ 32"
  then have u: "unat (of_nat a :: u32) = a" "unat (of_nat n :: u32) = n" by (simp_all add: unat_of_nat_small chip_size_def)
  obtain out s' where r: "w25qxx_read_data_dma spi (of_nat a) n W25QXX_QUAD_FAST s = (out, s')" by fastforce
  from read_data_eq [OF _ quad_ready_mode r] ok have "out = read_at (content view s) a n" "only_read view s s'" using u by simp_all
  then show "\<exists>s'. sys_spiffs_read spi (of_nat a) (of_nat n) s = (read_at (content view s) a n, s') \<and> (chip_ok spi view \<and> quad_ready view s') \<and> content view s' = content view s"
    using ok r u only_read_quad_ready by (auto simp: sys_spiffs_read_def only_read_def)
qed

text \<open>C20: Bytes written with \<^verbatim>\<open>flash.write\<close> at an address of the chip are what \<^verbatim>\<open>flash.read\<close> returns from
  there, and reading leaves the contents and the driver as they are.\<close>

theorem flash_module_roundtrip:
  assumes "chip_ok spi view" and "quad_ready view s" and "0 \<le> a" and "nat a + length d \<le> chip_size"
    and "length d < heap_limit env" and "fresh_ok env"
  shows "\<exists>s' s''. flash_write spi (Mp_int a) (Mp_buffer d) s = Some (Inr (), s') \<and>
    flash_read env spi (Mp_int a) (Mp_int (int (length d))) s' = (Inr d, s'') \<and>
    quad_ready view s'' \<and> contents (nview view s'') = contents (nview view s')"
proof -
  have b: "a < 2 ^ 32" "length d < 2 ^ 32" "int (nat a) = a" using assms(3,4) by (simp_all add: chip_size_def)
  obtain s' where s': "flash_write spi (Mp_int a) (Mp_buffer d) s = Some (Inr (), s')" "quad_ready view s'"
    using flash_write_ok [OF assms(1-4)] by metis
  obtain s'' where s'': "flash_read env spi (Mp_int a) (Mp_int (int (length d))) s' = (Inr (read_at (content view s') (nat a) (length d)), s'')"
    using flash_read_ok [OF assms(1) s'(2) assms(3) b(1) assms(5) b(2) assms(6)] by metis
  from pyf.store_fetch [of spi view s "nat a" d env] assms show ?thesis
    unfolding py_store_def py_fetch_def b(3) using s' s'' by auto
qed

lemma running_quad_ready: "quad_ready id running"
  using running_ok by (simp add: quad_ready_def running_def)

theorem flash_module_roundtrip_witness:
  "\<exists>s' s''. flash_write sim_spi (Mp_int 0xD00FFE) (Mp_buffer [7, 8, 9]) running = Some (Inr (), s') \<and>
    flash_read ample_env sim_spi (Mp_int 0xD00FFE) (Mp_int (int (length [7, 8, 9 :: u8]))) s' = (Inr [7, 8, 9], s'') \<and>
    quad_ready id s'' \<and> contents (nview id s'') = contents (nview id s')"
  by (rule flash_module_roundtrip [OF sim_chip_ok running_quad_ready]) (simp_all add: chip_size_def ample_env_ok)

lemma erase_ready: "quad_ready view s \<Longrightarrow> quad (nview view s') = quad (nview view s) \<Longrightarrow> idle view s' \<Longrightarrow> same_drv s s' \<Longrightarrow> quad_ready view s'"
  using drv_ok_same [of view s s'] same_drv_fields [of s s'] by (simp add: quad_ready_def)

text \<open>C38: \<^verbatim>\<open>flash.erase\<close> of 4096 or 65536 bytes returns and sets exactly the bytes of the sector or block
  that holds the address to ones. For every other size it erases nothing, and whether it then
  returns or raises depends only on what the uninitialised variable \<^verbatim>\<open>res\<close> happens to hold.\<close>

theorem flash_erase_spec:
  assumes "chip_ok spi view" and "quad_ready view s" and "0 \<le> a" and "a < int chip_size"
    and "0 \<le> n" and "n < 2 ^ 32"
  shows "\<exists>s'. flash_erase junk spi (Mp_int a) (Mp_int n) s =
      Some (if n \<noteq> 4096 \<and> n \<noteq> 65536 \<and> junk \<noteq> 0 then Inl (ValueError ''error erasing flash'') else Inr (), s') \<and>
    quad_ready view s' \<and>
    (\<forall>i. contents (nview view s') i =
      (if (n = 4096 \<or> n = 65536) \<and> int i div n = a div n then 0xFF else contents (nview view s) i))"
proof -
  have i: "idle view s" using assms(2) by (simp add: quad_ready_def drv_ok_def)
  have u: "unat (word_of_int a :: u32) mod chip_size = nat a" using assms(3,4) unat_word_of_int32 [of a] by (simp add: chip_size_def)
  have g: "mp_obj_get_int (Mp_int a) = Inr a" "mp_obj_get_int (Mp_int n) = Inr n"
    using assms by (simp_all add: get_int_in chip_size_def)
  have w: "(word_of_int n :: u32) = 4096 \<longleftrightarrow> n = 4096" "(word_of_int n :: u32) = 65536 \<longleftrightarrow> n = 65536"
    using unat_word_of_int32 [OF assms(5,6)] assms(5) by (auto simp: word_unat_eq_iff)
  have e: "int i div int k = a div int k \<longleftrightarrow> i div k = nat a div k" for i k
    using assms(3) by (metis nat_0_le of_nat_eq_iff zdiv_int)
  consider "n = 4096" | "n = 65536" | "n \<noteq> 4096" "n \<noteq> 65536" by blast
  then show ?thesis
  proof cases
    case 1
    from sector_erase_ok [OF assms(1) i, of "word_of_int a"] show ?thesis
      using g w u 1 e [of _ 4096] erase_ready [OF assms(2)] by (fastforce simp: flash_erase_def Let_def erase_def)
  next
    case 2
    from block_erase_ok [OF assms(1) i, of "word_of_int a"] show ?thesis
      using g w u 2 e [of _ 65536] erase_ready [OF assms(2)] by (fastforce simp: flash_erase_def Let_def erase_def)
  next
    case 3
    obtain s' where s': "wait_busy spi s = Some s'" "nview view s' = nview view s\<lparr>ff := SPI_FF_STANDARD, waiting := 0\<rparr>" "same_drv s s'"
      using wait_busy_ok [OF assms(1)] by blast
    then have "quad_ready view s'" by (intro erase_ready [OF assms(2)]) (simp_all add: idle_def)
    then show ?thesis using s' g w 3 by (auto simp: flash_erase_def Let_def)
  qed
qed

theorem flash_erase_spec_witness:
  "\<exists>s'. flash_erase 7 sim_spi (Mp_int 5000) (Mp_int 4096) running =
      Some (if (4096 :: int) \<noteq> 4096 \<and> (4096 :: int) \<noteq> 65536 \<and> (7 :: u32) \<noteq> 0 then Inl (ValueError ''error erasing flash'') else Inr (), s') \<and>
    quad_ready id s' \<and>
    (\<forall>i. contents (nview id s') i =
      (if ((4096 :: int) = 4096 \<or> (4096 :: int) = 65536) \<and> int i div 4096 = 5000 div 4096 then 0xFF else contents (nview id running) i))"
  by (rule flash_erase_spec [OF sim_chip_ok running_quad_ready]) (simp_all add: chip_size_def)

section \<open>An erase that does not wait\<close>

text \<open>On the simulated chip a read while it is busy gives ones, and a program command is ignored.\<close>

lemma sim_busy_read:
  assumes "0 < waiting (dev s)" and "0 < k" and "k < 0x10000" and "w25qxx_read_fun s = Some Quad_read"
  shows "call_read sim_spi a k s =
    Some (replicate k 0xFF, s\<lparr>dev := (dev s)\<lparr>ff := SPI_FF_QUAD, frame := (8, 32, 4, SPI_AITM_ADDR_STANDARD)\<rparr>\<rparr>)"
proof -
  have z: "w25qxx_read_data_dma spi b 0 m s0 = ([], s0)" for spi :: "nor spi" and b m s0 by (simp add: w25qxx_read_data_dma.simps)
  have "read_chunk_dma sim_spi a k W25QXX_QUAD_FAST s =
      (replicate k 0xFF, s\<lparr>dev := (dev s)\<lparr>ff := SPI_FF_QUAD, frame := (8, 32, 4, SPI_AITM_ADDR_STANDARD)\<rparr>\<rparr>)"
    using assms(1) by (simp add: read_chunk_dma_def read_enhanced_def Let_def spi_do_def w25qxx_receive_data_enhanced_dma_def spi_get_def)
  then show ?thesis
    using assms z by (simp add: call_read_def w25qxx_quad_read_data_dma_def w25qxx_read_data_dma.simps [of _ _ k] Let_def)
qed

lemma sim_busy_program:
  assumes "0 < waiting (dev s)" and "w25qxx_page_program_fun s = Some Quad_page_program" and "quad (dev s)" and "w25qxx_read_fun s = Some Quad_read"
  obtains s' where "call_page_program sim_spi a d s = Some s'" "content id s' = content id s" "drv_ok id s'"
proof -
  define s1 where "s1 = s\<lparr>dev := (dev s)\<lparr>ff := SPI_FF_QUAD, frame := (8, 24, 0, SPI_AITM_STANDARD)\<rparr>\<rparr>"
  have "call_page_program sim_spi a d s = wait_busy sim_spi s1"
    using assms by (simp add: call_page_program_def w25qxx_quad_page_program_dma_def w25qxx_write_enable_dma_def w25qxx_send_data_dma_def
        w25qxx_send_data_enhanced_dma_def Let_def spi_do_def s1_def)
  moreover obtain s' where "wait_busy sim_spi s1 = Some s'" "nview id s' = nview id s1\<lparr>ff := SPI_FF_STANDARD, waiting := 0\<rparr>" "same_drv s1 s'"
    using wait_busy_ok [OF sim_chip_ok] by blast
  ultimately show thesis
    using assms same_drv_fields [of s1 s'] by (intro that [of s']) (simp_all add: s1_def nview_def drv_ok_def idle_def)
qed

lemma program_ones [simp]: "program a (replicate k 0xFF) m = m"
  using and_byte_ones by (auto simp: program_def and.commute intro!: ext)

lemma needs_erase_ones: "length d \<le> k \<Longrightarrow> \<not> needs_erase d (replicate k 0xFF)"
proof -
  have "w AND 0xFF = w" for w :: u8 using and_byte_ones [of w] by (simp add: and.commute)
  then show ?thesis by (auto simp: needs_erase_def list_ex_iff dest!: set_zip_rightD)
qed

lemma sim_erase:
  assumes "idle id s"
  shows "sys_spiffs_erase sim_spi a n s = s\<lparr>dev := (dev s)\<lparr>ff := SPI_FF_STANDARD, contents := erase 4096 (unat a mod chip_size) (contents (dev s)),
    latch := False, waiting := 3\<rparr>\<rparr>"
  using assms addr_cmd_24
  by (simp add: sys_spiffs_erase_def w25qxx_sector_erase_dma_def w25qxx_write_enable_dma_def w25qxx_send_data_dma_def spi_do_def Let_def
      idle_def nview_def WRITE_ENABLE_def SECTOR_ERASE_def addr_cmd_def sim_change_def)

lemma sector_fits: "a mod 4096 = 0 \<Longrightarrow> a < chip_size \<Longrightarrow> a + 4096 \<le> chip_size"
proof -
  assume "a mod 4096 = 0" and "a < chip_size"
  then obtain k where k: "a = 4096 * k" by auto
  then have "k < 4096" using \<open>a < chip_size\<close> by (simp add: chip_size_def)
  then show ?thesis using k by (simp add: chip_size_def)
qed

text \<open>C36: The erase of the file system returns while the chip is still erasing. On a chip that meets
  its data sheet and answers ones while busy, a write of up to a page at the start of the sector
  just erased is then lost without an error: the chip ignores the program command, and the
  contents stay erased.\<close>

theorem spiffs_write_after_erase_lost:
  assumes "quad_ready id s" and "w25qxx_page_program_fun s = Some Quad_page_program" and "unat a mod 4096 = 0" and "unat a < chip_size"
    and "0 < length d" and "length d \<le> 256"
  shows "chip_ok sim_spi id \<and>
    (\<exists>s'. sys_spiffs_write sim_spi a d (sys_spiffs_erase sim_spi a n s) = Some s' \<and>
      (\<forall>i. contents (nview id s') i = (if i div 4096 = unat a div 4096 then 0xFF else contents (nview id s) i)))"
proof -
  let ?m = "erase 4096 (unat a) (contents (dev s))"
  define s1 where "s1 = sys_spiffs_erase sim_spi a n s"
  define s2 where "s2 = s1\<lparr>dev := (dev s1)\<lparr>ff := SPI_FF_QUAD, frame := (8, 32, 4, SPI_AITM_ADDR_STANDARD)\<rparr>\<rparr>"
  have s: "idle id s" "quad (dev s)" "w25qxx_read_fun s = Some Quad_read" using assms(1) by (auto simp: quad_ready_def drv_ok_def nview_def)
  have s1: "s1 = s\<lparr>dev := (dev s)\<lparr>ff := SPI_FF_STANDARD, contents := ?m, latch := False, waiting := 3\<rparr>\<rparr>"
    unfolding s1_def using assms(4) by (simp add: sim_erase [OF s(1)])
  have read: "call_read sim_spi a 4096 s1 = Some (replicate 4096 0xFF, s2)"
    unfolding s2_def by (rule sim_busy_read) (simp_all add: s1 s)
  let ?buf = "memcpy_at (replicate 4096 0xFF) 0 d"
  obtain s3 where s3: "call_page_program sim_spi a (take 256 ?buf) s2 = Some s3" "content id s3 = ?m" "drv_ok id s3"
    by (rule sim_busy_program [of s2 a "take 256 ?buf"]) (use assms(2) s in \<open>simp_all add: s2_def s1 nview_def\<close>)
  have fit: "unat a + 4096 \<le> chip_size" by (rule sector_fits [OF assms(3,4)])
  then have a: "unat (a + 256) = unat a + 256" using unat_add_small [of a 256] by (simp add: chip_size_def)
  have rest: "drop 256 ?buf = replicate 3840 0xFF" using assms(6) by simp
  have "256 dvd unat a" using assms(3) dvd_trans [of 256 4096 "unat a"] by (simp add: mod_eq_0_iff_dvd)
  then have "unat (a + 256) mod 256 = 0" unfolding a by (simp add: mod_eq_0_iff_dvd)
  then obtain s' where s': "sector_pages sim_spi 15 (a + 256) (replicate 3840 0xFF) s3 = Some s'" "content id s' = program (unat (a + 256)) (replicate 3840 0xFF) (content id s3)"
    using sector_pages_ok [OF sim_chip_ok s3(3), of "a + 256" "replicate 3840 0xFF" 15] fit a by auto
  have "sector_pages sim_spi (Suc 15) a ?buf s2 = Some s'"
    using s3(1) s'(1) rest by (simp only: sector_pages.simps w25qxx_FLASH_PAGE_SIZE_def option.case of_nat_numeral)
  then have "write_sector sim_spi a 0 d s1 = Some s'"
    using read needs_erase_ones [of d 4096] assms(6)
    by (simp add: write_sector_def w25qxx_FLASH_SECTOR_SIZE_def w25qxx_sector_program_def w25qxx_FLASH_PAGE_NUM_PER_SECTOR_def)
  moreover have "unat (a AND 4095) = 0" "a AND NOT 4095 = a" using sector_of [of a] assms(3) div_mult_mod_eq [of "unat a" 4096] by (simp_all add: word_unat_eq_iff)
  ultimately have "sys_spiffs_write sim_spi a d s1 = Some s'"
    using assms(5,6) by (simp add: sys_spiffs_write_def w25qxx_write_data_dma.simps Let_def w25qxx_FLASH_SECTOR_SIZE_def)
  then show ?thesis using sim_chip_ok s'(2) s3(2) unfolding s1_def by (simp add: erase_def nview_def)
qed

theorem spiffs_write_after_erase_lost_witness:
  "chip_ok sim_spi id \<and>
    (\<exists>s'. sys_spiffs_write sim_spi 0xD00000 [1, 2, 3] (sys_spiffs_erase sim_spi 0xD00000 4096 running) = Some s' \<and>
      (\<forall>i. contents (nview id s') i = (if i div 4096 = unat (0xD00000 :: u32) div 4096 then 0xFF else contents (nview id running) i)))"
  by (rule spiffs_write_after_erase_lost [OF running_quad_ready]) (simp_all add: running_def chip_size_def)

end
