(* ===== verification/Check_Loop.thy ===== *)
theory Check_Loop
  imports Prelude "HOL-Library.Monad_Syntax"
begin

text \<open>
  Checked computations: code with assertions as a function to an option, where \<open>None\<close> is a failed
  assertion or an access outside an array. \<open>guard\<close> is an assertion and \<open>foldM\<close> a loop. The rules
  establish at once that a loop completes and what holds after it.
\<close>

definition guard :: "bool \<Rightarrow> unit option" where
  "guard b = (if b then Some () else None)"

primrec foldM :: "('a \<Rightarrow> 's \<Rightarrow> 's option) \<Rightarrow> 'a list \<Rightarrow> 's \<Rightarrow> 's option" where
  "foldM h [] s = Some s"
| "foldM h (x # xs) s = (case h x s of None \<Rightarrow> None | Some s' \<Rightarrow> foldM h xs s')"

lemma guard_bind [simp]: "guard b \<bind> h = (if b then h () else None)"
  by (simp add: guard_def)

lemma guard_Some [simp]: "guard b = Some u \<longleftrightarrow> b"
  by (simp add: guard_def)

text \<open>\<open>runs c P\<close>: the computation completes, with a result that satisfies \<open>P\<close>.\<close>

definition runs :: "'a option \<Rightarrow> ('a \<Rightarrow> bool) \<Rightarrow> bool" where
  "runs c P = (\<exists>x. c = Some x \<and> P x)"

lemma runs_Some [simp]: "runs (Some x) P \<longleftrightarrow> P x"
  by (simp add: runs_def)

lemma runs_None [simp]: "\<not> runs None P"
  by (simp add: runs_def)

lemma runs_bind [intro]: "runs c P \<Longrightarrow> (\<And>x. P x \<Longrightarrow> runs (h x) Q) \<Longrightarrow> runs (c \<bind> h) Q"
  by (auto simp: runs_def)

lemma runs_guard: "b \<Longrightarrow> runs (h ()) Q \<Longrightarrow> runs (guard b \<bind> h) Q"
  by simp

lemma runs_mono: "runs c P \<Longrightarrow> (\<And>x. P x \<Longrightarrow> Q x) \<Longrightarrow> runs c Q"
  by (auto simp: runs_def)

lemma runs_if: "(b \<Longrightarrow> runs c P) \<Longrightarrow> (\<not> b \<Longrightarrow> runs d P) \<Longrightarrow> runs (if b then c else d) P"
  by simp

lemma runs_conj: "runs c P \<Longrightarrow> runs c Q \<Longrightarrow> runs c (\<lambda>x. P x \<and> Q x)"
  by (auto simp: runs_def)

lemma foldM_append: "foldM h (xs @ ys) s = foldM h xs s \<bind> foldM h ys"
  by (induction xs arbitrary: s) (simp_all split: option.split)

lemma foldM_map: "foldM h (map k xs) s = foldM (\<lambda>x. h (k x)) xs s"
  by (induction xs arbitrary: s) (simp_all split: option.split)

text \<open>A loop of loops is one loop over the pairs.\<close>

lemma foldM_nested: "foldM (\<lambda>x. foldM (h x) (ys x)) xs s = foldM (\<lambda>(x, y). h x y) (concat (map (\<lambda>x. map (Pair x) (ys x)) xs)) s"
  by (induction xs arbitrary: s) (simp_all add: foldM_append foldM_map split: option.split)

text \<open>An invariant of a loop, without and with the elements done so far.\<close>

lemma runs_foldM:
  assumes "\<And>x s. x \<in> set xs \<Longrightarrow> I s \<Longrightarrow> runs (h x s) I" and "I s"
  shows "runs (foldM h xs s) I"
  using assms
proof (induction xs arbitrary: s)
  case (Cons x xs)
  then obtain s' where "h x s = Some s'" "I s'" by (force simp: runs_def)
  then show ?case using Cons.IH Cons.prems(1) by simp
qed simp

lemma runs_foldM_done:
  assumes "\<And>ds x es s. xs = ds @ x # es \<Longrightarrow> I ds s \<Longrightarrow> runs (h x s) (I (ds @ [x]))" and "I [] s"
  shows "runs (foldM h xs s) (I xs)"
proof -
  have "runs (foldM h es t) (I xs)" if "xs = ds @ es" "I ds t" for ds es t
    using that
  proof (induction es arbitrary: ds t)
    case (Cons x es)
    then have "runs (h x t) (I (ds @ [x]))" using assms(1) by auto
    then obtain s' where "h x t = Some s'" "I (ds @ [x]) s'" by (auto simp: runs_def)
    then show ?case using Cons.IH [of "ds @ [x]" s'] Cons.prems(1) by simp
  qed simp
  from this [of "[]"] show ?thesis using assms(2) by simp
qed

end
