(* ===== verification/Qr_Bits.thy ===== *)
theory Qr_Bits
  imports Text_Codec Check_Loop
begin

text \<open>
  \<^verbatim>\<open>qrcode/qrcodegen/qrcodegen.c\<close>, first part: tables, the bit buffer, segments of text, version sizes
  and Reed-Solomon codes. The build does not define \<^verbatim>\<open>NDEBUG\<close>, so every \<^verbatim>\<open>assert\<close> is checked: a function
  that asserts returns an option, and \<open>None\<close> is a failed assertion or an access outside an
  array. Lengths and bit counts that cannot be negative are natural numbers, coordinates and
  versions are integers; every \<^verbatim>\<open>int\<close> of the code stays far below its bounds. C strings are given
  without their zero byte.
\<close>

section \<open>Types and tables\<close>

datatype qrcodegen_Ecc = Ecc_LOW | Ecc_MEDIUM | Ecc_QUARTILE | Ecc_HIGH

fun ecc_index :: "qrcodegen_Ecc \<Rightarrow> nat" where
  "ecc_index Ecc_LOW = 0" | "ecc_index Ecc_MEDIUM = 1" | "ecc_index Ecc_QUARTILE = 2" | "ecc_index Ecc_HIGH = 3"

datatype qrcodegen_Mode = Mode_NUMERIC | Mode_ALPHANUMERIC | Mode_BYTE | Mode_KANJI | Mode_ECI

fun mode_bits :: "qrcodegen_Mode \<Rightarrow> u32" where
  "mode_bits Mode_NUMERIC = 1" | "mode_bits Mode_ALPHANUMERIC = 2" | "mode_bits Mode_BYTE = 4"
| "mode_bits Mode_KANJI = 8" | "mode_bits Mode_ECI = 7"

record qrcodegen_Segment =
  mode :: qrcodegen_Mode
  numChars :: nat
  seg_data :: bytes
  bitLength :: nat

definition qrcodegen_VERSION_MIN :: int where "qrcodegen_VERSION_MIN = 1"
definition qrcodegen_VERSION_MAX :: int where "qrcodegen_VERSION_MAX = 40"

definition qrcodegen_BUFFER_LEN_FOR_VERSION :: "int \<Rightarrow> nat" where
  "qrcodegen_BUFFER_LEN_FOR_VERSION n = nat (((n * 4 + 17) * (n * 4 + 17) + 7) div 8 + 1)"

definition qrcodegen_BUFFER_LEN_MAX :: nat where
  "qrcodegen_BUFFER_LEN_MAX = qrcodegen_BUFFER_LEN_FOR_VERSION qrcodegen_VERSION_MAX"

definition INT16_MAX :: nat where "INT16_MAX = 32767"

definition ALPHANUMERIC_CHARSET :: bytes where
  "ALPHANUMERIC_CHARSET = map of_char ''0123456789ABCDEFGHIJKLMNOPQRSTUVWXYZ $%*+-./:''"

definition ECC_CODEWORDS_PER_BLOCK :: "int list list" where
  "ECC_CODEWORDS_PER_BLOCK =
    [[-1,  7, 10, 15, 20, 26, 18, 20, 24, 30, 18, 20, 24, 26, 30, 22, 24, 28, 30, 28, 28, 28, 28, 30, 30, 26, 28, 30, 30, 30, 30, 30, 30, 30, 30, 30, 30, 30, 30, 30, 30],
     [-1, 10, 16, 26, 18, 24, 16, 18, 22, 22, 26, 30, 22, 22, 24, 24, 28, 28, 26, 26, 26, 26, 28, 28, 28, 28, 28, 28, 28, 28, 28, 28, 28, 28, 28, 28, 28, 28, 28, 28, 28],
     [-1, 13, 22, 18, 26, 18, 24, 18, 22, 20, 24, 28, 26, 24, 20, 30, 24, 28, 28, 26, 30, 28, 30, 30, 30, 30, 28, 30, 30, 30, 30, 30, 30, 30, 30, 30, 30, 30, 30, 30, 30],
     [-1, 17, 28, 22, 16, 22, 28, 26, 26, 24, 28, 24, 28, 22, 24, 24, 30, 28, 28, 26, 28, 30, 24, 30, 30, 30, 30, 30, 30, 30, 30, 30, 30, 30, 30, 30, 30, 30, 30, 30, 30]]"

definition NUM_ERROR_CORRECTION_BLOCKS :: "int list list" where
  "NUM_ERROR_CORRECTION_BLOCKS =
    [[-1, 1, 1, 1, 1, 1, 2, 2, 2, 2, 4,  4,  4,  4,  4,  6,  6,  6,  6,  7,  8,  8,  9,  9, 10, 12, 12, 12, 13, 14, 15, 16, 17, 18, 19, 19, 20, 21, 22, 24, 25],
     [-1, 1, 1, 1, 2, 2, 4, 4, 4, 5, 5,  5,  8,  9,  9, 10, 10, 11, 13, 14, 16, 17, 17, 18, 20, 21, 23, 25, 26, 28, 29, 31, 33, 35, 37, 38, 40, 43, 45, 47, 49],
     [-1, 1, 1, 2, 2, 4, 4, 6, 6, 8, 8,  8, 10, 12, 16, 12, 17, 16, 18, 21, 20, 23, 23, 25, 27, 29, 34, 34, 35, 38, 40, 43, 45, 48, 51, 53, 56, 59, 62, 65, 68],
     [-1, 1, 1, 2, 4, 4, 4, 5, 6, 8, 8, 11, 11, 16, 16, 18, 16, 19, 21, 25, 25, 25, 34, 30, 32, 35, 37, 40, 42, 45, 48, 51, 54, 57, 60, 63, 66, 70, 74, 77, 81]]"

definition ecc_per_block :: "qrcodegen_Ecc \<Rightarrow> int \<Rightarrow> int" where
  "ecc_per_block ecl version = ECC_CODEWORDS_PER_BLOCK ! ecc_index ecl ! nat version"

definition ecc_blocks :: "qrcodegen_Ecc \<Rightarrow> int \<Rightarrow> int" where
  "ecc_blocks ecl version = NUM_ERROR_CORRECTION_BLOCKS ! ecc_index ecl ! nat version"

section \<open>The bit buffer\<close>

text \<open>A bit buffer is an array and the number of bits appended so far.\<close>

type_synonym bitbuf = "bytes \<times> nat"

definition append_bit :: "u32 \<Rightarrow> nat \<Rightarrow> bitbuf \<Rightarrow> bitbuf option" where
  "append_bit val i = (\<lambda>(buffer, bitLen).
     if bitLen div 8 < length buffer then
       Some (buffer[bitLen div 8 := buffer ! (bitLen div 8) OR push_bit (7 - bitLen mod 8) (ucast (drop_bit i val AND 1))], bitLen + 1)
     else None)"

definition appendBitsToBuffer :: "u32 \<Rightarrow> nat \<Rightarrow> bitbuf \<Rightarrow> bitbuf option" where
  "appendBitsToBuffer val numBits b = do {
     guard (numBits \<le> 16 \<and> drop_bit numBits val = 0);
     foldM (append_bit val) (rev [0..<numBits]) b }"

definition memset0 :: "bytes \<Rightarrow> nat \<Rightarrow> bytes option" where
  "memset0 buf n = (if n \<le> length buf then Some (replicate n 0 @ drop n buf) else None)"

section \<open>Segments\<close>

definition qrcodegen_isAlphanumeric :: "bytes \<Rightarrow> bool" where
  "qrcodegen_isAlphanumeric str = list_all (\<lambda>c. c \<in> set ALPHANUMERIC_CHARSET) str"

definition qrcodegen_isNumeric :: "bytes \<Rightarrow> bool" where
  "qrcodegen_isNumeric str = list_all (\<lambda>c. \<not> (c < 48 \<or> 57 < c)) str"

definition calcSegmentBitLength :: "qrcodegen_Mode \<Rightarrow> nat \<Rightarrow> int option" where
  "calcSegmentBitLength m n =
     (if INT16_MAX < n then Some (-1)
      else do {
        result \<leftarrow> (case m of
            Mode_NUMERIC \<Rightarrow> Some ((n * 10 + 2) div 3)
          | Mode_ALPHANUMERIC \<Rightarrow> Some ((n * 11 + 1) div 2)
          | Mode_BYTE \<Rightarrow> Some (n * 8)
          | Mode_KANJI \<Rightarrow> Some (n * 13)
          | Mode_ECI \<Rightarrow> if n = 0 then Some (3 * 8) else None);
        Some (if INT16_MAX < result then -1 else int result) })"

definition SIZE_MAX :: nat where "SIZE_MAX = 2 ^ 64 - 1"

definition qrcodegen_calcSegmentBufferSize :: "qrcodegen_Mode \<Rightarrow> nat \<Rightarrow> nat option" where
  "qrcodegen_calcSegmentBufferSize m n = do {
     temp \<leftarrow> calcSegmentBitLength m n;
     if temp = -1 then Some SIZE_MAX
     else do {
       guard (0 \<le> temp \<and> temp \<le> int INT16_MAX);
       Some ((nat temp + 7) div 8) } }"

definition qrcodegen_makeBytes :: "bytes \<Rightarrow> bytes \<Rightarrow> qrcodegen_Segment option" where
  "qrcodegen_makeBytes d buf = do {
     n \<leftarrow> calcSegmentBitLength Mode_BYTE (length d);
     guard (n \<noteq> -1);
     guard (length d \<le> length buf);
     Some \<lparr>mode = Mode_BYTE, numChars = length d, seg_data = memcpy_at buf 0 d, bitLength = nat n\<rparr> }"

text \<open>The loops over the characters, with the accumulated value and its number of characters.\<close>

fun numeric_loop :: "bytes \<Rightarrow> u32 \<Rightarrow> nat \<Rightarrow> bitbuf \<Rightarrow> (u32 \<times> nat \<times> bitbuf) option" where
  "numeric_loop [] accumData accumCount b = Some (accumData, accumCount, b)"
| "numeric_loop (c # cs) accumData accumCount b = do {
     guard (48 \<le> c \<and> c \<le> 57);
     let accumData = accumData * 10 + ucast (c - 48);
     let accumCount = accumCount + 1;
     if accumCount = 3 then do {
       b \<leftarrow> appendBitsToBuffer accumData 10 b;
       numeric_loop cs 0 0 b }
     else numeric_loop cs accumData accumCount b }"

definition qrcodegen_makeNumeric :: "bytes \<Rightarrow> bytes \<Rightarrow> qrcodegen_Segment option" where
  "qrcodegen_makeNumeric digits buf = do {
     bitLen \<leftarrow> calcSegmentBitLength Mode_NUMERIC (length digits);
     guard (bitLen \<noteq> -1);
     buf \<leftarrow> (if 0 < bitLen then memset0 buf ((nat bitLen + 7) div 8) else Some buf);
     (accumData, accumCount, b) \<leftarrow> numeric_loop digits 0 0 (buf, 0);
     (buf, n) \<leftarrow> (if 0 < accumCount then appendBitsToBuffer accumData (accumCount * 3 + 1) b else Some b);
     guard (int n = bitLen);
     Some \<lparr>mode = Mode_NUMERIC, numChars = length digits, seg_data = buf, bitLength = n\<rparr> }"

fun alphanumeric_loop :: "bytes \<Rightarrow> u32 \<Rightarrow> nat \<Rightarrow> bitbuf \<Rightarrow> (u32 \<times> nat \<times> bitbuf) option" where
  "alphanumeric_loop [] accumData accumCount b = Some (accumData, accumCount, b)"
| "alphanumeric_loop (c # cs) accumData accumCount b = do {
     guard (c \<in> set ALPHANUMERIC_CHARSET);
     let accumData = accumData * 45 + of_nat (char_pos ALPHANUMERIC_CHARSET c);
     let accumCount = accumCount + 1;
     if accumCount = 2 then do {
       b \<leftarrow> appendBitsToBuffer accumData 11 b;
       alphanumeric_loop cs 0 0 b }
     else alphanumeric_loop cs accumData accumCount b }"

definition qrcodegen_makeAlphanumeric :: "bytes \<Rightarrow> bytes \<Rightarrow> qrcodegen_Segment option" where
  "qrcodegen_makeAlphanumeric str buf = do {
     bitLen \<leftarrow> calcSegmentBitLength Mode_ALPHANUMERIC (length str);
     guard (bitLen \<noteq> -1);
     buf \<leftarrow> (if 0 < bitLen then memset0 buf ((nat bitLen + 7) div 8) else Some buf);
     (accumData, accumCount, b) \<leftarrow> alphanumeric_loop str 0 0 (buf, 0);
     (buf, n) \<leftarrow> (if 0 < accumCount then appendBitsToBuffer accumData 6 b else Some b);
     guard (int n = bitLen);
     Some \<lparr>mode = Mode_ALPHANUMERIC, numChars = length str, seg_data = buf, bitLength = n\<rparr> }"

definition qrcodegen_makeEci :: "int \<Rightarrow> bytes \<Rightarrow> qrcodegen_Segment option" where
  "qrcodegen_makeEci assignVal buf = do {
     (buf, n) \<leftarrow>
       (if assignVal < 0 then None
        else if assignVal < 2 ^ 7 then do {
          buf \<leftarrow> memset0 buf 1;
          appendBitsToBuffer (word_of_int assignVal) 8 (buf, 0) }
        else if assignVal < 2 ^ 14 then do {
          buf \<leftarrow> memset0 buf 2;
          b \<leftarrow> appendBitsToBuffer 2 2 (buf, 0);
          appendBitsToBuffer (word_of_int assignVal) 14 b }
        else if assignVal < 1000000 then do {
          buf \<leftarrow> memset0 buf 3;
          b \<leftarrow> appendBitsToBuffer 6 3 (buf, 0);
          b \<leftarrow> appendBitsToBuffer (word_of_int (drop_bit 10 assignVal)) 11 b;
          appendBitsToBuffer (word_of_int (assignVal AND 0x3FF)) 10 b }
        else None);
     Some \<lparr>mode = Mode_ECI, numChars = 0, seg_data = buf, bitLength = n\<rparr> }"

definition numCharCountBits :: "qrcodegen_Mode \<Rightarrow> int \<Rightarrow> nat option" where
  "numCharCountBits m version = do {
     guard (qrcodegen_VERSION_MIN \<le> version \<and> version \<le> qrcodegen_VERSION_MAX);
     let i = nat ((version + 7) div 17);
     Some (case m of
        Mode_NUMERIC \<Rightarrow> [10, 12, 14] ! i
      | Mode_ALPHANUMERIC \<Rightarrow> [9, 11, 13] ! i
      | Mode_BYTE \<Rightarrow> [8, 16, 16] ! i
      | Mode_KANJI \<Rightarrow> [8, 10, 12] ! i
      | Mode_ECI \<Rightarrow> 0) }"

fun total_bits :: "qrcodegen_Segment list \<Rightarrow> int \<Rightarrow> nat \<Rightarrow> int option" where
  "total_bits [] version result = do {
     guard (result \<le> INT16_MAX);
     Some (int result) }"
| "total_bits (seg # segs) version result = do {
     guard (numChars seg \<le> INT16_MAX);
     guard (bitLength seg \<le> INT16_MAX);
     ccbits \<leftarrow> numCharCountBits (mode seg) version;
     guard (ccbits \<le> 16);
     if 2 ^ ccbits \<le> numChars seg then Some (-1)
     else
       let result = result + (4 + ccbits + bitLength seg)
       in if INT16_MAX < result then Some (-1) else total_bits segs version result }"

definition getTotalBits :: "qrcodegen_Segment list \<Rightarrow> int \<Rightarrow> int option" where
  "getTotalBits segs version = total_bits segs version 0"

section \<open>Sizes of a version\<close>

definition getNumRawDataModules :: "int \<Rightarrow> int option" where
  "getNumRawDataModules ver = do {
     guard (qrcodegen_VERSION_MIN \<le> ver \<and> ver \<le> qrcodegen_VERSION_MAX);
     let result = (16 * ver + 128) * ver + 64;
     let result =
       (if 2 \<le> ver then
          let numAlign = ver div 7 + 2;
              result = result - ((25 * numAlign - 10) * numAlign - 55)
          in if 7 \<le> ver then result - 36 else result
        else result);
     guard (208 \<le> result \<and> result \<le> 29648);
     Some result }"

definition getNumDataCodewords :: "int \<Rightarrow> qrcodegen_Ecc \<Rightarrow> int option" where
  "getNumDataCodewords version ecl = do {
     raw \<leftarrow> getNumRawDataModules version;
     Some (raw div 8 - ecc_per_block ecl version * ecc_blocks ecl version) }"

section \<open>Reed-Solomon codes\<close>

definition rs_step :: "u8 \<Rightarrow> u8 \<Rightarrow> nat \<Rightarrow> u8 \<Rightarrow> u8" where
  "rs_step x y i z =
     (let z = ucast (push_bit 1 (ucast z :: u32) XOR (ucast (drop_bit 7 z) :: u32) * 0x11D) :: u8
      in z XOR (drop_bit i y AND 1) * x)"

definition reedSolomonMultiply :: "u8 \<Rightarrow> u8 \<Rightarrow> u8" where
  "reedSolomonMultiply x y = fold (rs_step x y) [7, 6, 5, 4, 3, 2, 1, 0] 0"

definition divisor_step :: "nat \<Rightarrow> u8 \<Rightarrow> nat \<Rightarrow> bytes \<Rightarrow> bytes" where
  "divisor_step degree root j result =
     (let result = result[j := reedSolomonMultiply (result ! j) root]
      in if j + 1 < degree then result[j := result ! j XOR result ! (j + 1)] else result)"

definition divisor_round :: "nat \<Rightarrow> bytes \<times> u8 \<Rightarrow> bytes \<times> u8" where
  "divisor_round degree = (\<lambda>(result, root). (fold (divisor_step degree root) [0..<degree] result, reedSolomonMultiply root 0x02))"

definition reedSolomonComputeDivisor :: "nat \<Rightarrow> bytes option" where
  "reedSolomonComputeDivisor degree = do {
     guard (1 \<le> degree \<and> degree \<le> 30);
     let result = (replicate degree 0)[degree - 1 := 1];
     Some (fst (fold (\<lambda>_. divisor_round degree) [0..<degree] (result, 1))) }"

definition remainder_step :: "bytes \<Rightarrow> nat \<Rightarrow> u8 \<Rightarrow> bytes \<Rightarrow> bytes" where
  "remainder_step generator degree d result =
     (let factor = d XOR result ! 0;
          result = drop 1 result @ [0]
      in fold (\<lambda>j r. r[j := r ! j XOR reedSolomonMultiply (generator ! j) factor]) [0..<degree] result)"

definition reedSolomonComputeRemainder :: "bytes \<Rightarrow> bytes \<Rightarrow> nat \<Rightarrow> bytes option" where
  "reedSolomonComputeRemainder d generator degree = do {
     guard (1 \<le> degree \<and> degree \<le> 30);
     Some (fold (remainder_step generator degree) d (replicate degree 0)) }"

section \<open>Error correction and interleaving\<close>

text \<open>\<open>dat\<close> is the offset of the block in \<open>data\<close>; the code words of a block are computed in the
  bytes of \<open>data\<close> that follow the data and are copied from there.\<close>

definition store_byte :: "nat \<Rightarrow> u8 \<Rightarrow> bytes \<Rightarrow> bytes option" where
  "store_byte k x buf = (if k < length buf then Some (buf[k := x]) else None)"

definition copy_data_step :: "bytes \<Rightarrow> nat \<Rightarrow> int \<Rightarrow> int \<Rightarrow> int \<Rightarrow> nat \<Rightarrow> int \<times> bytes \<Rightarrow> (int \<times> bytes) option" where
  "copy_data_step dbuf dat shortBlockDataLen numShortBlocks numBlocks j = (\<lambda>(k, result). do {
     let k = (if int j = shortBlockDataLen then k - numShortBlocks else k);
     guard (0 \<le> k \<and> dat + j < length dbuf);
     result \<leftarrow> store_byte (nat k) (dbuf ! (dat + j)) result;
     Some (k + numBlocks, result) })"

definition copy_ecc_step :: "bytes \<Rightarrow> nat \<Rightarrow> int \<Rightarrow> nat \<Rightarrow> int \<times> bytes \<Rightarrow> (int \<times> bytes) option" where
  "copy_ecc_step dbuf ecc numBlocks j = (\<lambda>(k, result). do {
     result \<leftarrow> store_byte (nat k) (dbuf ! (ecc + j)) result;
     Some (k + numBlocks, result) })"

definition ecc_block ::
  "bytes \<Rightarrow> int \<Rightarrow> int \<Rightarrow> int \<Rightarrow> int \<Rightarrow> int \<Rightarrow> int \<Rightarrow> bytes \<times> bytes \<times> nat \<Rightarrow> (bytes \<times> bytes \<times> nat) option" where
  "ecc_block rsdiv dataLen numBlocks blockEccLen numShortBlocks shortBlockDataLen i = (\<lambda>(dbuf, result, dat). do {
     let datLen = nat (shortBlockDataLen + (if i < numShortBlocks then 0 else 1));
     ecc \<leftarrow> reedSolomonComputeRemainder (take datLen (drop dat dbuf)) rsdiv (nat blockEccLen);
     guard (dat + datLen \<le> length dbuf \<and> nat dataLen + length ecc \<le> length dbuf);
     let dbuf = memcpy_at dbuf (nat dataLen) ecc;
     (_, result) \<leftarrow> foldM (copy_data_step dbuf dat shortBlockDataLen numShortBlocks numBlocks) [0..<datLen] (i, result);
     (_, result) \<leftarrow> foldM (copy_ecc_step dbuf (nat dataLen) numBlocks) [0..<nat blockEccLen] (dataLen + i, result);
     Some (dbuf, result, dat + datLen) })"

definition addEccAndInterleave :: "bytes \<Rightarrow> int \<Rightarrow> qrcodegen_Ecc \<Rightarrow> bytes \<Rightarrow> (bytes \<times> bytes) option" where
  "addEccAndInterleave dbuf version ecl result = do {
     guard (qrcodegen_VERSION_MIN \<le> version \<and> version \<le> qrcodegen_VERSION_MAX);
     let numBlocks = ecc_blocks ecl version;
     let blockEccLen = ecc_per_block ecl version;
     raw \<leftarrow> getNumRawDataModules version;
     let rawCodewords = raw div 8;
     dataLen \<leftarrow> getNumDataCodewords version ecl;
     let numShortBlocks = numBlocks - rawCodewords mod numBlocks;
     let shortBlockDataLen = rawCodewords div numBlocks - blockEccLen;
     rsdiv \<leftarrow> reedSolomonComputeDivisor (nat blockEccLen);
     (dbuf, result, _) \<leftarrow>
       foldM (ecc_block rsdiv dataLen numBlocks blockEccLen numShortBlocks shortBlockDataLen) [0..numBlocks - 1] (dbuf, result, 0);
     Some (dbuf, result) }"

end
