(* ===== verification/Qr_Field.thy ===== *)
theory Qr_Field
  imports Qr_Bits
begin

text \<open>
  The field of the Reed-Solomon codes. \<open>reedSolomonMultiply\<close> is bilinear for exclusive or, commutative
  and associative; the divisor vanishes at \<open>2\<^sup>0\<close>, ..., \<open>2\<^sup>n\<^sup>-\<^sup>1\<close>, and so does data followed by its
  remainder, which is the property a decoder of the standard relies on.
\<close>

section \<open>Multiplication\<close>

abbreviation gmul :: "u8 \<Rightarrow> u8 \<Rightarrow> u8" where "gmul \<equiv> reedSolomonMultiply"

definition gtimes2 :: "u8 \<Rightarrow> u8" where
  "gtimes2 z = push_bit 1 z XOR (if bit z 7 then 0x1D else 0)"

definition gpart :: "u8 \<Rightarrow> u8 \<Rightarrow> nat \<Rightarrow> u8" where
  "gpart x y i = (if bit y i then x else 0)"

lemma top_bit: "drop_bit 7 z = of_bool (bit z 7)" for z :: u8
proof (rule bit_word_eqI)
  fix n
  have "bit z (7 + n) \<longleftrightarrow> bit z 7 \<and> n = 0" using bit_imp_le_length [of z "7 + n"] by auto
  then show "bit (drop_bit 7 z) n = bit (of_bool (bit z 7) :: u8) n" by (auto simp: bit_simps)
qed

lemma one_bit: "drop_bit i y AND 1 = of_bool (bit y i)" for y :: u8
  by (rule bit_word_eqI) (auto simp: bit_drop_bit_eq bit_simps)

lemma rs_step_gtimes2: "rs_step x y i z = gtimes2 z XOR gpart x y i"
proof -
  have "ucast (push_bit 1 (ucast z :: u32) XOR w) = push_bit 1 z XOR ucast w" for w
    by (rule bit_word_eqI) (simp only: bit_simps, auto)
  moreover have c: "(0x11D :: u8) = 0x1D" by simp
  ultimately show ?thesis by (simp add: rs_step_def gtimes2_def gpart_def top_bit one_bit c)
qed

lemma gtimes2_0 [simp]: "gtimes2 0 = 0"
  by (simp add: gtimes2_def)

lemma gtimes2_xor: "gtimes2 (a XOR b) = gtimes2 a XOR gtimes2 b"
  by (simp add: gtimes2_def push_bit_xor bit_xor_iff ac_simps)

lemma gpart_simps:
  "gpart (a XOR b) y i = gpart a y i XOR gpart b y i" "gpart x (a XOR b) i = gpart x a i XOR gpart x b i"
  "gpart (gtimes2 a) y i = gtimes2 (gpart a y i)" "gpart 0 y i = 0" "gpart x 0 i = 0"
  by (simp_all add: gpart_def bit_xor_iff)

lemmas gmul_parts = reedSolomonMultiply_def rs_step_gtimes2 gtimes2_xor gpart_simps

lemma gmul_0 [simp]: "gmul 0 y = 0" "gmul x 0 = 0"
  by (simp_all add: gmul_parts)

lemma gmul_xor_left: "gmul (a XOR b) y = gmul a y XOR gmul b y"
  by (simp add: gmul_parts ac_simps)

lemma gmul_xor_right: "gmul x (a XOR b) = gmul x a XOR gmul x b"
  by (simp add: gmul_parts ac_simps)

lemma gmul_gtimes2: "gmul (gtimes2 x) y = gtimes2 (gmul x y)"
  by (simp add: gmul_parts)

text \<open>What is linear is determined by the eight powers of two.\<close>

lemma u8_linear_induct:
  fixes w :: u8
  assumes "P 0" and "\<And>i. i < 8 \<Longrightarrow> P (2 ^ i)" and "\<And>a b. P a \<Longrightarrow> P b \<Longrightarrow> P (a XOR b)"
  shows "P w"
proof -
  have "P (take_bit n w)" if "n \<le> 8" for n
    using that
  proof (induction n)
    case (Suc n)
    have "take_bit (Suc n) w = take_bit n w XOR (if bit w n then 2 ^ n else 0)"
      by (rule bit_word_eqI) (auto simp: bit_simps less_Suc_eq)
    then show ?case using Suc assms by simp
  qed (use assms(1) in simp)
  then have "P (take_bit 8 w)" by simp
  moreover have "take_bit 8 w = w" by (rule bit_word_eqI) (simp add: bit_simps)
  ultimately show ?thesis by simp
qed

lemma gpart_power: "i < 8 \<Longrightarrow> gpart x (2 ^ j) i = (if i = j then x else 0)"
  by (simp add: gpart_def bit_exp_iff)

lemma less_8_cases: "j < 8 \<Longrightarrow> j = 0 \<or> j = 1 \<or> j = 2 \<or> j = 3 \<or> j = 4 \<or> j = 5 \<or> j = 6 \<or> j = (7 :: nat)"
  by linarith

lemma gmul_power:
  assumes "j < 8"
  shows "gmul x (2 ^ j) = (gtimes2 ^^ j) x"
  using less_8_cases [OF assms] unfolding reedSolomonMultiply_def rs_step_gtimes2
  by (simp add: rs_step_gtimes2 gpart_power, elim disjE) (simp_all add: eval_nat_numeral)

lemma power_gtimes2: "i < 8 \<Longrightarrow> 2 ^ i = (gtimes2 ^^ i) 1"
proof (induction i)
  case (Suc i)
  then have "(gtimes2 ^^ Suc i) 1 = gtimes2 (2 ^ i)" by simp
  also have "\<dots> = 2 ^ Suc i" using Suc.prems by (simp add: gtimes2_def bit_exp_iff)
  finally show ?case by simp
qed simp

lemma gmul_powers: "i < 8 \<Longrightarrow> j < 8 \<Longrightarrow> gmul (2 ^ i) (2 ^ j) = gmul (2 ^ j) (2 ^ i)"
  by (simp add: gmul_power) (simp add: power_gtimes2 funpow_add [THEN fun_cong, unfolded o_apply, symmetric] add.commute)

lemma gmul_commute: "gmul x y = gmul y x"
proof (induction x rule: u8_linear_induct)
  case (2 i)
  then show ?case by (induction y rule: u8_linear_induct) (simp_all add: gmul_powers gmul_xor_left gmul_xor_right)
qed (simp_all add: gmul_xor_left gmul_xor_right)

lemma gmul_assoc: "gmul (gmul x y) z = gmul x (gmul y z)"
proof -
  have "gmul x (gtimes2 w) = gtimes2 (gmul x w)" for w using gmul_gtimes2 [of w x] by (simp add: gmul_commute)
  moreover have "gpart (gmul x y) z i = gmul x (gpart y z i)" for i by (simp add: gpart_def)
  ultimately show ?thesis
    by (simp add: reedSolomonMultiply_def [of _ z] rs_step_gtimes2 gmul_xor_right)
qed

lemma gmul_1 [simp]: "gmul 1 y = y" "gmul y 1 = y"
proof -
  show "gmul y 1 = y" using gmul_power [of 0 y] by simp
  then show "gmul 1 y = y" by (simp add: gmul_commute)
qed

section \<open>Polynomials\<close>

text \<open>A polynomial is the list of its coefficients, the highest first.\<close>

primrec ppow :: "(u8 \<Rightarrow> u8 \<Rightarrow> u8) \<Rightarrow> u8 \<Rightarrow> nat \<Rightarrow> u8" where
  "ppow mul r 0 = 1"
| "ppow mul r (Suc n) = mul (ppow mul r n) r"

definition peval :: "(u8 \<Rightarrow> u8 \<Rightarrow> u8) \<Rightarrow> u8 \<Rightarrow> bytes \<Rightarrow> u8" where
  "peval mul r ds = fold (\<lambda>d a. mul a r XOR d) ds 0"

text \<open>Addition with a multiple.\<close>

definition padd :: "(u8 \<Rightarrow> u8 \<Rightarrow> u8) \<Rightarrow> bytes \<Rightarrow> u8 \<Rightarrow> bytes \<Rightarrow> bytes" where
  "padd mul xs c ys = map (\<lambda>j. xs ! j XOR mul (ys ! j) c) [0..<length xs]"

lemma length_padd [simp]: "length (padd mul xs c ys) = length xs"
  by (simp add: padd_def)

lemma length_shift: "R \<noteq> [] \<Longrightarrow> length (tl R @ [x]) = length R"
  by (cases R) simp_all

lemma xor_cancel: "(a :: u8) XOR (a XOR b) = b"
  by (simp flip: xor.assoc)

lemma xor_eq_0_iff: "(a :: u8) XOR b = 0 \<longleftrightarrow> a = b"
  by (metis xor_cancel xor.right_neutral xor_self_eq)

lemmas gxor = xor.commute xor.left_commute xor.assoc xor_cancel

text \<open>What the codes rely on in a multiplication of bytes.\<close>

locale byte_ring =
  fixes mul :: "u8 \<Rightarrow> u8 \<Rightarrow> u8"
  assumes mul_commute: "mul x y = mul y x"
    and mul_assoc: "mul (mul x y) z = mul x (mul y z)"
    and mul_xor_right: "mul x (a XOR b) = mul x a XOR mul x b"
    and mul_1: "mul 1 x = x"
begin

lemma mul_xor_left: "mul (a XOR b) x = mul a x XOR mul b x"
  using mul_xor_right [of x a b] by (simp add: mul_commute)

lemma mul_0 [simp]: "mul x 0 = 0" "mul 0 x = 0"
  using mul_xor_right [of x 0 0] mul_commute [of 0 x] by simp_all

lemma mul_1s [simp]: "mul 1 x = x" "mul x 1 = x"
  using mul_1 [of x] by (simp_all add: mul_commute)

lemma peval_Nil [simp]: "peval mul r [] = 0"
  by (simp add: peval_def)

lemma peval_snoc: "peval mul r (xs @ [d]) = mul (peval mul r xs) r XOR d"
  by (simp add: peval_def)

lemma peval_Cons: "peval mul r (x # xs) = mul (ppow mul r (length xs)) x XOR peval mul r xs"
proof (induction xs rule: rev_induct)
  case (snoc d xs)
  have "peval mul r (x # xs @ [d]) = mul (peval mul r (x # xs)) r XOR d" using peval_snoc [of r "x # xs" d] by simp
  also have "\<dots> = mul (mul (ppow mul r (length xs)) x) r XOR peval mul r (xs @ [d])"
    unfolding snoc.IH peval_snoc mul_xor_left by (simp add: xor.assoc)
  also have "mul (mul (ppow mul r (length xs)) x) r = mul (ppow mul r (length (xs @ [d]))) x" by (simp add: mul_assoc mul_commute [of x r])
  finally show ?case by simp
qed (simp add: peval_def)

lemma ppow_add: "ppow mul r (m + n) = mul (ppow mul r n) (ppow mul r m)"
  by (induction m) (simp_all add: mul_assoc)

lemma peval_append: "peval mul r (xs @ ys) = mul (ppow mul r (length ys)) (peval mul r xs) XOR peval mul r ys"
  by (induction xs) (simp_all add: peval_Cons mul_xor_right ppow_add mul_assoc gxor)

lemma peval_zero: "peval mul r (replicate n 0) = 0"
  by (induction n) (simp_all add: peval_Cons)

lemma padd_Cons: "padd mul (x # xs) c (y # ys) = (x XOR mul y c) # padd mul xs c ys"
  by (simp add: padd_def map_upt_Suc del: upt_Suc)

lemma peval_padd: "length xs = length ys \<Longrightarrow> peval mul r (padd mul xs c ys) = peval mul r xs XOR mul (peval mul r ys) c"
proof (induction xs ys rule: list_induct2)
  case (Cons x xs y ys)
  then have "length (padd mul xs c ys) = length xs" by (simp add: padd_def)
  then show ?case using Cons by (simp add: padd_Cons peval_Cons mul_xor_left mul_xor_right mul_assoc gxor)
qed (simp add: padd_def)

lemma peval_shift: "R \<noteq> [] \<Longrightarrow> peval mul r (tl R @ [0]) = mul (peval mul r R) r XOR mul (ppow mul r (length R)) (R ! 0)"
proof -
  assume "R \<noteq> []"
  then have R: "R = R ! 0 # tl R" by (cases R) simp_all
  have "peval mul r (R ! 0 # tl R @ [0]) = mul (ppow mul r (length R)) (R ! 0) XOR peval mul r (tl R @ [0])"
    using R peval_Cons [of r "R ! 0" "tl R @ [0]"] by (metis append_Cons length_append_singleton length_Cons)
  moreover have "peval mul r (R ! 0 # tl R @ [0]) = mul (peval mul r R) r" using R peval_snoc [of r R 0] by (metis append_Cons xor.right_neutral)
  ultimately show ?thesis by (metis xor_cancel xor.commute)
qed

text \<open>A round multiplies by the difference of the variable and the root.\<close>

lemma peval_round:
  assumes "xs \<noteq> []"
  shows "peval mul r (xs ! 0 # padd mul (tl xs @ [0]) c xs) = mul (peval mul r xs) (r XOR c)"
proof -
  have "length (padd mul (tl xs @ [0]) c xs) = length xs" using assms by (simp add: padd_def)
  then show ?thesis
    using assms by (simp add: peval_Cons peval_padd peval_shift mul_xor_right gxor)
qed

text \<open>The invariant of a division: what was read so far, followed by the register, vanishes.\<close>

lemma division_step:
  assumes R: "R \<noteq> []" "length g = length R" and g: "peval mul r (1 # g) = 0" and z: "peval mul r (p @ R) = 0"
  shows "peval mul r ((p @ [x]) @ padd mul (tl R @ [0]) (x XOR R ! 0) g) = 0"
proof -
  let ?n = "length R"
  have lg: "length (tl R @ [0]) = length g" using length_shift [OF R(1)] R(2) by simp
  have gn: "peval mul r g = ppow mul r ?n" using g R(2) by (simp add: peval_Cons xor_eq_0_iff)
  have "peval mul r (padd mul (tl R @ [0]) (x XOR R ! 0) g) = mul (peval mul r R) r XOR mul (ppow mul r ?n) x"
    unfolding peval_padd [OF lg] peval_shift [OF R(1)] gn by (simp add: mul_xor_right gxor)
  moreover have "mul (ppow mul r ?n) (peval mul r p) = peval mul r R" using z by (simp add: peval_append xor_eq_0_iff)
  moreover have "length (padd mul (tl R @ [0]) (x XOR R ! 0) g) = ?n" using lg R(2) by (simp del: length_append)
  ultimately show ?thesis
    unfolding peval_append [of r "p @ [x]"] peval_snoc mul_xor_right by (simp add: mul_assoc [symmetric])
qed

end

interpretation rs: byte_ring reedSolomonMultiply
  by unfold_locales (rule gmul_commute gmul_assoc gmul_xor_right gmul_1(1))+

abbreviation gpow :: "u8 \<Rightarrow> nat \<Rightarrow> u8" where "gpow \<equiv> ppow reedSolomonMultiply"

abbreviation geval :: "u8 \<Rightarrow> bytes \<Rightarrow> u8" where "geval \<equiv> peval reedSolomonMultiply"

abbreviation gadd :: "bytes \<Rightarrow> u8 \<Rightarrow> bytes \<Rightarrow> bytes" where "gadd \<equiv> padd reedSolomonMultiply"

section \<open>The divisor\<close>

lemma fold_update:
  assumes n: "length xs = n" and step: "\<And>j r. j < n \<Longrightarrow> length r = n \<Longrightarrow> (\<And>i. j \<le> i \<Longrightarrow> i < n \<Longrightarrow> r ! i = xs ! i) \<Longrightarrow> h j r = r[j := f j]"
  shows "fold h [0..<n] xs = map f [0..<n]"
proof -
  have "fold h [0..<k] xs = map f [0..<k] @ drop k xs" if "k \<le> n" for k
    using that
  proof (induction k)
    case (Suc k)
    let ?r = "map f [0..<k] @ drop k xs"
    have "h k ?r = ?r[k := f k]" by (rule step) (use n Suc.prems in \<open>simp_all add: nth_append\<close>)
    moreover have "?r[k := f k] = map f [0..<Suc k] @ drop (Suc k) xs"
      using n Suc.prems by (simp add: list_update_append Cons_nth_drop_Suc [symmetric])
    ultimately show ?case using Suc by simp
  qed simp
  then show ?thesis using n by simp
qed

lemma divisor_round_eq: "xs \<noteq> [] \<Longrightarrow> fst (divisor_round (length xs) (xs, root)) = gadd (tl xs @ [0]) root xs"
proof -
  assume ne: "xs \<noteq> []"
  have "fold (divisor_step (length xs) root) [0..<length xs] xs = map (\<lambda>j. (tl xs @ [0]) ! j XOR gmul (xs ! j) root) [0..<length xs]"
    by (rule fold_update) (simp_all add: divisor_step_def Let_def nth_append nth_tl xor.commute less_diff_conv)
  then show ?thesis using ne by (simp add: divisor_round_def padd_def)
qed

lemma remainder_step_eq:
  assumes "R \<noteq> []" and "length g = length R"
  shows "remainder_step g (length R) d R = gadd (tl R @ [0]) (d XOR R ! 0) g"
proof -
  have "fold (\<lambda>j r. r[j := r ! j XOR gmul (g ! j) (d XOR R ! 0)]) [0..<length R] (tl R @ [0]) =
      map (\<lambda>j. (tl R @ [0]) ! j XOR gmul (g ! j) (d XOR R ! 0)) [0..<length R]"
    by (rule fold_update) (use assms(1) in simp_all)
  then show ?thesis using assms by (simp add: remainder_step_def Let_def padd_def drop_Suc)
qed

definition divisor_rounds :: "nat \<Rightarrow> nat \<Rightarrow> bytes \<times> u8" where
  "divisor_rounds n i = fold (\<lambda>_. divisor_round n) [0..<i] ((replicate n 0)[n - 1 := 1], 1)"

lemma divisor_rounds_Suc: "divisor_rounds n (Suc i) = divisor_round n (divisor_rounds n i)"
  by (simp add: divisor_rounds_def)

definition monic_at :: "nat \<Rightarrow> bytes \<Rightarrow> bool" where
  "monic_at k xs = ((\<forall>j < k. xs ! j = 0) \<and> xs ! k = 1)"

lemma rounds_inv:
  assumes "1 \<le> n" and "i < n"
  shows "length (fst (divisor_rounds n i)) = n \<and> snd (divisor_rounds n i) = gpow 2 i \<and> monic_at (n - 1 - i) (fst (divisor_rounds n i)) \<and>
    (\<forall>k < i. geval (gpow 2 k) (fst (divisor_rounds n i)) = 0)"
  using assms(2)
proof (induction i)
  case 0
  then show ?case using assms(1) by (simp add: divisor_rounds_def monic_at_def)
next
  case (Suc i)
  obtain xs root where d: "divisor_rounds n i = (xs, root)" by force
  have xs: "length xs = n" "root = gpow 2 i" "monic_at (n - 1 - i) xs" "\<forall>k < i. geval (gpow 2 k) xs = 0" using Suc d by simp_all
  have ne: "xs \<noteq> []" using xs(1) assms(1) by auto
  let ?ys = "gadd (tl xs @ [0]) root xs"
  have e: "divisor_rounds n (Suc i) = (?ys, gpow 2 (Suc i))"
    using divisor_round_eq [OF ne, of root] xs(1,2) unfolding divisor_rounds_Suc d by (simp add: divisor_round_def)
  have ly: "length ?ys = n" using length_shift [OF ne] xs(1) by (simp del: length_append)
  have "?ys ! j = xs ! Suc j XOR gmul (xs ! j) root" if "Suc j < n" for j
    using that ne xs(1) by (simp add: padd_def nth_append nth_tl less_diff_conv)
  then have "monic_at (n - 1 - Suc i) ?ys" using xs(3) Suc.prems unfolding monic_at_def by (auto simp: Suc_diff_Suc)
  moreover have "geval (gpow 2 k) ?ys = 0" if "k < Suc i" for k
  proof -
    have "xs ! 0 = 0" using xs(3) Suc.prems by (simp add: monic_at_def)
    then have "geval (gpow 2 k) ?ys = gmul (geval (gpow 2 k) xs) (gpow 2 k XOR root)"
      using rs.peval_round [OF ne, of "gpow 2 k" root] by (simp add: rs.peval_Cons)
    then show ?thesis using that xs(2,4) by (auto simp: less_Suc_eq)
  qed
  ultimately show ?case unfolding e using ly by simp
qed

text \<open>The divisor, with its leading coefficient 1 that is not stored, vanishes at the powers of two.\<close>

lemma divisor_roots:
  assumes "reedSolomonComputeDivisor n = Some g"
  shows "length g = n" and "1 \<le> n" and "k < n \<Longrightarrow> geval (gpow 2 k) (1 # g) = 0"
proof -
  show n: "1 \<le> n" using assms by (simp add: reedSolomonComputeDivisor_def split: if_splits)
  then obtain m where m: "n = Suc m" by (cases n) simp_all
  obtain xs root where d: "divisor_rounds n m = (xs, root)" by force
  have xs: "length xs = n" "root = gpow 2 m" "monic_at 0 xs" "\<forall>k < m. geval (gpow 2 k) xs = 0" using rounds_inv [of n m] m d by simp_all
  have ne: "xs \<noteq> []" using xs(1) m by auto
  have "g = fst (divisor_rounds n n)" using assms by (simp add: reedSolomonComputeDivisor_def divisor_rounds_def split: if_splits)
  then have g: "g = gadd (tl xs @ [0]) root xs" using divisor_round_eq [OF ne, of root] xs(1) m divisor_rounds_Suc [of n m] d by simp
  then show "length g = n" using length_shift [OF ne] xs(1) by (simp del: length_append)
  show "k < n \<Longrightarrow> geval (gpow 2 k) (1 # g) = 0"
    using rs.peval_round [OF ne, of "gpow 2 k" root] xs(2-4) m unfolding g monic_at_def by (auto simp: less_Suc_eq)
qed

section \<open>Remainders\<close>

lemma remainder_roots:
  assumes g: "geval r (1 # g) = 0" "length g = n" "1 \<le> n"
  shows "geval r (d @ fold (remainder_step g n) d (replicate n 0)) = 0"
proof -
  have "length R = n \<Longrightarrow> geval r (p @ R) = 0 \<Longrightarrow> geval r (p @ d @ fold (remainder_step g n) d R) = 0" for p R
  proof (induction d arbitrary: p R)
    case (Cons x d)
    then have ne: "R \<noteq> []" and lg: "length g = length R" using g(2,3) by auto
    have R': "remainder_step g n x R = gadd (tl R @ [0]) (x XOR R ! 0) g" using remainder_step_eq [OF ne lg] Cons.prems(1) by simp
    have "length (remainder_step g n x R) = n" unfolding R' using Cons.prems(1) length_shift [OF ne] by (simp del: length_append)
    from Cons.IH [OF this rs.division_step [OF ne lg g(1) Cons.prems(2), of x, folded R']] show ?case by simp
  qed simp
  from this [of "replicate n 0" "[]"] show ?thesis by (simp add: rs.peval_zero)
qed

end
