(* ===== verification/Qr_Galois.thy ===== *)
theory Qr_Galois
  imports Qr_Field
begin

unbundle bit_operations_syntax

text \<open>
  The field of 256 elements, independent of the code: bytes are polynomials over the field of two
  elements, the product is the product of polynomials reduced modulo
  \<open>x\<^sup>8 + x\<^sup>4 + x\<^sup>3 + x\<^sup>2 + 1\<close>, the polynomial of the QR code standard. \<open>reedSolomonMultiply\<close> is that
  product, every byte other than 0 is a power of 2, and so the code words of a Reed-Solomon code
  with \<open>n\<close> words for error correction differ from each other in more than \<open>n\<close> places.
\<close>

section \<open>Polynomials over two elements\<close>

text \<open>Bit \<open>i\<close> of a word is the coefficient of \<open>x\<^sup>i\<close>; the product of two bytes has degree 14 at most.\<close>

definition poly_prod :: "u8 \<Rightarrow> u8 \<Rightarrow> u16" where
  "poly_prod x y = fold (\<lambda>i z. z XOR (if bit y i then push_bit i (ucast x) else 0)) [0..<8] 0"

text \<open>Division with remainder: the multiples of the modulus that cancel the bits 14 to 8.\<close>

definition poly_rem :: "u16 \<Rightarrow> u16" where
  "poly_rem z = fold (\<lambda>k z. z XOR (if bit z (8 + k) then push_bit k 0x11D else 0)) [6, 5, 4, 3, 2, 1, 0] z"

definition gf_mul :: "u8 \<Rightarrow> u8 \<Rightarrow> u8" where
  "gf_mul x y = ucast (poly_rem (poly_prod x y))"

lemma fold_linear:
  "(\<And>k a b. s k (a XOR b) = s k a XOR s k b) \<Longrightarrow> fold s ks (a XOR b) = fold s ks a XOR fold s ks b" for a b :: "'a :: len word"
  by (induction ks arbitrary: a b) simp_all

lemma poly_rem_xor: "poly_rem (a XOR b) = poly_rem a XOR poly_rem b"
  unfolding poly_rem_def
proof (rule fold_linear)
  fix k and a b :: u16
  show "(a XOR b) XOR (if bit (a XOR b) (8 + k) then push_bit k 0x11D else 0) =
      (a XOR (if bit a (8 + k) then push_bit k 0x11D else 0)) XOR (b XOR (if bit b (8 + k) then push_bit k 0x11D else 0))"
    by (cases "bit a (8 + k)"; cases "bit b (8 + k)") (simp_all add: bit_xor_iff ac_simps)
qed

lemma poly_prod_xor: "poly_prod (a XOR b) y = poly_prod a y XOR poly_prod b y" "poly_prod x (a XOR b) = poly_prod x a XOR poly_prod x b"
proof -
  define h where "h = (\<lambda>(x :: u8) (y :: u8) i. if bit y i then push_bit i (ucast x) else (0 :: u16))"
  have h: "h (a XOR b) y i = h a y i XOR h b y i" "h x (a XOR b) i = h x a i XOR h x b i" for a b x y :: u8 and i
  proof -
    have "ucast (a XOR b) = (ucast a XOR ucast b :: u16)" by (rule bit_word_eqI) (simp add: bit_simps)
    then show "h (a XOR b) y i = h a y i XOR h b y i" by (simp add: h_def push_bit_xor)
  qed (auto simp: h_def bit_xor_iff)
  have "fold (\<lambda>i z. z XOR (p i XOR q i)) is' (u XOR v) = fold (\<lambda>i z. z XOR p i) is' u XOR fold (\<lambda>i z. z XOR q i) is' v"
    for p q :: "nat \<Rightarrow> u16" and is' u v
  proof (induction is' arbitrary: u v)
    case (Cons i is')
    have "(u XOR v) XOR (p i XOR q i) = (u XOR p i) XOR (v XOR q i)" by (simp add: ac_simps)
    then show ?case using Cons by simp
  qed simp
  from this [where u = 0 and v = 0]
  have sum: "fold (\<lambda>i z. z XOR (p i XOR q i)) is' 0 = fold (\<lambda>i z. z XOR p i) is' 0 XOR fold (\<lambda>i z. z XOR q i) is' 0"
    for p q :: "nat \<Rightarrow> u16" and is' by simp
  have pp: "poly_prod x y = fold (\<lambda>i z. z XOR h x y i) [0..<8] 0" for x y by (simp only: poly_prod_def h_def)
  show "poly_prod (a XOR b) y = poly_prod a y XOR poly_prod b y" "poly_prod x (a XOR b) = poly_prod x a XOR poly_prod x b"
    unfolding pp h by (rule sum)+
qed

lemma gf_mul_xor: "gf_mul (a XOR b) y = gf_mul a y XOR gf_mul b y" "gf_mul x (a XOR b) = gf_mul x a XOR gf_mul x b"
proof -
  have "ucast (u XOR v) = (ucast u XOR ucast v :: u8)" for u v :: u16 by (rule bit_word_eqI) (simp add: bit_simps)
  then show "gf_mul (a XOR b) y = gf_mul a y XOR gf_mul b y" "gf_mul x (a XOR b) = gf_mul x a XOR gf_mul x b"
    by (simp_all add: gf_mul_def poly_prod_xor poly_rem_xor)
qed

lemma funpow_step: "(f ^^ numeral k) z = (f ^^ pred_numeral k) (f z)"
  by (simp only: numeral_eq_Suc funpow_Suc_right o_apply)

lemma less_15_cases:
  "m < 15 \<Longrightarrow> m = 0 \<or> m = 1 \<or> m = 2 \<or> m = 3 \<or> m = 4 \<or> m = 5 \<or> m = 6 \<or> m = 7 \<or> m = 8 \<or> m = 9 \<or> m = 10 \<or> m = 11 \<or>
   m = 12 \<or> m = 13 \<or> m = (14 :: nat)"
  by presburger

text \<open>The powers of \<open>x\<close> in the field, by shifts and by division.\<close>

lemma rem_power: "m < 15 \<Longrightarrow> ucast (poly_rem (2 ^ m)) = (gtimes2 ^^ m) 1"
  by (drule less_15_cases, elim disjE) (simp_all add: poly_rem_def gtimes2_def funpow_step)

lemma prod_power:
  assumes "i < 8" and "j < 8"
  shows "poly_prod (2 ^ i) (2 ^ j) = 2 ^ (i + j)"
proof -
  have "[0..<8] = [0, 1, 2, 3, 4, 5, 6, 7 :: nat]" by (simp add: upt_rec)
  moreover have "push_bit j (ucast (2 ^ i :: u8)) = (2 ^ (i + j) :: u16)"
    using assms by (intro bit_word_eqI) (auto simp: bit_simps)
  ultimately show ?thesis using less_8_cases [OF assms(2)] by (auto simp: poly_prod_def bit_exp_iff)
qed

lemma gf_mul_powers: "i < 8 \<Longrightarrow> j < 8 \<Longrightarrow> gmul (2 ^ i) (2 ^ j) = gf_mul (2 ^ i) (2 ^ j)"
  by (simp add: gf_mul_def prod_power rem_power gmul_power)
    (simp add: power_gtimes2 funpow_add [THEN fun_cong, unfolded o_apply, symmetric] add.commute)

text \<open>The code multiplies in the field: both products are determined by the products of powers of two.\<close>

lemma gmul_gf_mul: "gmul x y = gf_mul x y"
proof -
  have z: "gf_mul 0 y = 0" "gf_mul x 0 = 0" for x y using gf_mul_xor(1) [of x x y] gf_mul_xor(2) [of x y y] by simp_all
  show ?thesis
  proof (induction x rule: u8_linear_induct)
    case (2 i)
    then show ?case by (induction y rule: u8_linear_induct) (simp_all add: z gf_mul_powers gf_mul_xor gmul_xor_right)
  qed (simp_all add: z gf_mul_xor gmul_xor_left)
qed

lemma gmul_is_gf_mul: "reedSolomonMultiply = gf_mul"
  by (intro ext) (rule gmul_gf_mul)

section \<open>Powers of two\<close>

lemma ppow_2: "ppow reedSolomonMultiply 2 k = (gtimes2 ^^ k) 1"
proof (induction k)
  case (Suc k)
  have "gmul z 2 = gtimes2 z" for z using gmul_power [of 1 z] by simp
  then show ?case using Suc by simp
qed simp

lemma gtimes2_eq_0: "gtimes2 z = 0 \<longleftrightarrow> z = 0"
proof
  assume z: "gtimes2 z = 0"
  have "bit (gtimes2 z) 0 = bit z 7" unfolding gtimes2_def bit_xor_iff bit_push_bit_iff by (simp add: bit_0)
  then have "push_bit 1 z = 0" "\<not> bit z 7" using z by (simp_all add: gtimes2_def)
  then have "bit z n = False" for n
    using bit_push_bit_iff [of 1 z "Suc n"] bit_imp_le_length [of z n] by (cases "n = 7") (auto simp: bit_simps)
  then show "z = 0" by (intro bit_word_eqI) simp
qed simp

lemma gtimes2_inj: "gtimes2 a = gtimes2 b \<Longrightarrow> a = b"
  using gtimes2_eq_0 [of "a XOR b"] by (simp add: gtimes2_xor xor_eq_0_iff)

lemma gtimes2_pow_inj: "(gtimes2 ^^ k) a = (gtimes2 ^^ k) b \<Longrightarrow> a = b"
  by (induction k) (auto dest: gtimes2_inj)

lemma gtimes2_pow_nz: "(gtimes2 ^^ k) z = 0 \<longleftrightarrow> z = 0"
  by (induction k) (simp_all add: gtimes2_eq_0)

lemma gtimes2_pow_mult: "(gtimes2 ^^ d) 1 = 1 \<Longrightarrow> (gtimes2 ^^ (d * k)) 1 = 1"
  by (induction k) (simp_all add: funpow_add)

text \<open>2 has order 255: a smaller order would divide 85, 51 or 15.\<close>

lemma gtimes2_order:
  assumes "0 < d" and "d < 255"
  shows "(gtimes2 ^^ d) 1 \<noteq> 1"
proof
  assume d: "(gtimes2 ^^ d) 1 = 1"
  have vals: "(gtimes2 ^^ 15) 1 = 38" "(gtimes2 ^^ 51) 1 = 10" "(gtimes2 ^^ 85) 1 = 214" "(gtimes2 ^^ 255) 1 = 1"
    by (simp_all add: gtimes2_def funpow_step)
  let ?g = "gcd d 255"
  obtain x y where "d * x = 255 * y + ?g" using bezout_nat [of d 255] assms(1) by auto
  then have "(gtimes2 ^^ (?g + 255 * y)) 1 = 1" using gtimes2_pow_mult [OF d, of x] by (simp add: add.commute)
  then have g: "(gtimes2 ^^ ?g) 1 = 1" using gtimes2_pow_mult [OF vals(4), of y] by (simp add: funpow_add)
  have "\<forall>g < 255. g dvd 255 \<longrightarrow> g dvd 85 \<or> g dvd 51 \<or> g dvd (15 :: nat)" by code_simp
  moreover have "?g < 255" using assms gcd_le1_nat [of d 255] by linarith
  ultimately have "?g dvd 85 \<or> ?g dvd 51 \<or> ?g dvd 15" by simp
  then have "(gtimes2 ^^ 85) 1 = 1 \<or> (gtimes2 ^^ 51) 1 = 1 \<or> (gtimes2 ^^ 15) 1 = 1"
    using gtimes2_pow_mult [OF g] unfolding dvd_def by metis
  then show False by (simp add: vals)
qed

lemma powers_distinct: "inj_on (\<lambda>k. (gtimes2 ^^ k) 1) {..<255}"
proof (rule linorder_inj_onI)
  fix i j :: nat
  assume ij: "i < j" "i \<in> {..<255}" "j \<in> {..<255}"
  have "(gtimes2 ^^ j) 1 = (gtimes2 ^^ i) ((gtimes2 ^^ (j - i)) 1)"
    using ij(1) funpow_add [of i "j - i" gtimes2] by simp
  then show "(gtimes2 ^^ i) 1 \<noteq> (gtimes2 ^^ j) 1"
    using gtimes2_pow_inj [of i 1 "(gtimes2 ^^ (j - i)) 1"] gtimes2_order [of "j - i"] ij by auto
qed auto

lemma gpow_inj: "inj_on (ppow reedSolomonMultiply 2) {..<255}"
  using powers_distinct unfolding inj_on_def ppow_2 .

text \<open>Every byte other than 0 is a power of 2.\<close>

lemma powers_all:
  assumes "z \<noteq> 0"
  shows "\<exists>k < 255. z = (gtimes2 ^^ k) 1"
proof -
  let ?p = "(\<lambda>k. (gtimes2 ^^ k) 1) ` {..<255}"
  have "card (UNIV - {0 :: u8}) = 255" by (subst card_Diff_singleton) (simp_all add: card_word)
  moreover have "card ?p = 255" using card_image [OF powers_distinct] by simp
  moreover have "?p \<subseteq> UNIV - {0}" by (auto simp: gtimes2_pow_nz)
  ultimately have "?p = UNIV - {0}" by (intro card_subset_eq) simp_all
  then show ?thesis using assms by blast
qed

lemma gmul_power_left: "gmul ((gtimes2 ^^ k) 1) y = (gtimes2 ^^ k) y"
  by (induction k) (simp_all add: gmul_gtimes2)

lemma gmul_eq_0: "gmul x y = 0 \<Longrightarrow> x = 0 \<or> y = 0"
proof (rule disjCI)
  assume xy: "gmul x y = 0" and "y \<noteq> 0"
  then show "x = 0" using powers_all [of x] gtimes2_pow_nz [of _ y] by (metis gmul_power_left)
qed

section \<open>Distance\<close>

text \<open>A multiplication without divisors of zero.\<close>

locale byte_field = byte_ring +
  assumes mul_eq_0: "mul x y = 0 \<Longrightarrow> x = 0 \<or> y = 0"
begin

lemma mul_inverse:
  assumes "x \<noteq> 0"
  shows "\<exists>y. mul x y = 1"
proof -
  have "inj (mul x)"
  proof (rule injI)
    fix a b
    assume "mul x a = mul x b"
    then have "mul x (a XOR b) = 0" by (simp add: mul_xor_right)
    then show "a = b" using mul_eq_0 [of x "a XOR b"] assms by (simp add: xor_eq_0_iff)
  qed
  then have "surj (mul x)" by (rule finite_UNIV_inj_surj [OF finite])
  then show ?thesis by (metis surjD)
qed

text \<open>The sum of the coefficients \<open>e\<close>, each times a power of its locator \<open>X\<close>.\<close>

primrec syndrome :: "(u8 \<times> u8) list \<Rightarrow> nat \<Rightarrow> u8" where
  "syndrome [] k = 0"
| "syndrome (p # ps) k = mul (fst p) (ppow mul (snd p) k) XOR syndrome ps k"

lemma syndrome_combine:
  "syndrome (map (\<lambda>(e, Y). (mul e (Y XOR X), Y)) ps) k = syndrome ps (Suc k) XOR mul (syndrome ps k) X"
proof (induction ps)
  case (Cons p ps)
  obtain e Y where p: "p = (e, Y)" by force
  have "mul (mul e (Y XOR X)) z = mul e (mul z Y) XOR mul (mul e z) X" for z
  proof -
    have "mul (mul e (Y XOR X)) z = mul (mul e Y) z XOR mul (mul e X) z" by (simp add: mul_xor_left mul_xor_right)
    then show ?thesis by (metis mul_assoc mul_commute)
  qed
  then show ?case using Cons by (simp add: p mul_xor_left gxor)
qed simp

text \<open>With no more locators than equations only the zero coefficients solve them.\<close>

lemma syndrome_zero:
  "distinct (map snd ps) \<Longrightarrow> length ps \<le> n \<Longrightarrow> (\<And>k. k < n \<Longrightarrow> syndrome ps k = 0) \<Longrightarrow> p \<in> set ps \<Longrightarrow> fst p = 0"
proof (induction n arbitrary: ps p)
  case (Suc n)
  obtain q qs where ps: "ps = q # qs" using Suc.prems(4) by (cases ps) simp_all
  obtain e X where q: "q = (e, X)" by force
  let ?scale = "\<lambda>(e, Y). (mul e (Y XOR X), Y)"
  have "snd \<circ> ?scale = snd" by auto
  then have dist: "distinct (map snd (map ?scale qs))" using Suc.prems(1) unfolding map_map by (simp add: ps)
  have syn: "syndrome (map ?scale qs) k = 0" if "k < n" for k
  proof -
    have "syndrome (map ?scale ps) k = 0"
      unfolding syndrome_combine using Suc.prems(3) [of k] Suc.prems(3) [of "Suc k"] that by simp
    then show ?thesis by (simp add: ps q)
  qed
  have zero: "fst p' = 0" if p': "p' \<in> set qs" for p'
  proof -
    have "mul (fst p') (snd p' XOR X) = 0"
      using Suc.IH [OF dist _ syn, of "?scale p'"] Suc.prems(2) p' by (simp add: ps split_beta)
    moreover have "snd p' \<noteq> X" using Suc.prems(1) p' by (auto simp: ps q)
    ultimately show ?thesis using mul_eq_0 [of "fst p'" "snd p' XOR X"] by (simp add: xor_eq_0_iff)
  qed
  then have "syndrome qs 0 = 0" by (induction qs) simp_all
  then have "fst q = 0" using Suc.prems(3) [of 0] by (simp add: ps)
  then show ?case using zero [of p] Suc.prems(4) by (cases "p = q") (simp_all add: ps)
qed simp

lemma ppow_ppow: "ppow mul (ppow mul a k) m = ppow mul (ppow mul a m) k"
proof -
  have "ppow mul (ppow mul a k) m = ppow mul a (k * m)" for k m
    by (induction m) (simp_all add: ppow_add [of a k] add.commute mul_commute)
  then show ?thesis by (simp add: mult.commute)
qed

text \<open>The places of a word and their locators, the powers of \<open>a\<close>.\<close>

definition located :: "u8 \<Rightarrow> bytes \<Rightarrow> (u8 \<times> u8) list" where
  "located a w = map (\<lambda>j. (w ! j, ppow mul a (length w - 1 - j))) [0..<length w]"

lemma peval_syndrome: "peval mul (ppow mul a k) w = syndrome (located a w) k"
proof (induction w)
  case (Cons x w)
  have "located a (x # w) = (x, ppow mul a (length w)) # located a w"
    by (simp add: located_def map_upt_Suc del: upt_Suc)
  then show ?case using Cons by (simp add: peval_Cons ppow_ppow [of a k] mul_commute)
qed (simp add: located_def)

lemma syndrome_filter: "syndrome (filter (\<lambda>p. fst p \<noteq> 0) ps) k = syndrome ps k"
  by (induction ps) simp_all

lemma word_weight:
  assumes inj: "inj_on (ppow mul a) {..<N}" and l: "length w \<le> N"
    and z: "\<And>k. k < n \<Longrightarrow> peval mul (ppow mul a k) w = 0" and j: "j < length w" "w ! j \<noteq> 0"
  shows "n < card {i. i < length w \<and> w ! i \<noteq> 0}"
proof (rule ccontr)
  let ?js = "filter (\<lambda>i. w ! i \<noteq> 0) [0..<length w]" and ?ps = "filter (\<lambda>p. fst p \<noteq> 0) (located a w)"
  assume "\<not> ?thesis"
  moreover have "card {i. i < length w \<and> w ! i \<noteq> 0} = length ?js"
    using distinct_card [of ?js] by (simp add: conj_commute)
  moreover have ps: "?ps = map (\<lambda>j. (w ! j, ppow mul a (length w - 1 - j))) ?js"
    by (simp add: located_def filter_map comp_def)
  ultimately have len: "length ?ps \<le> n" by simp
  have "inj_on (\<lambda>j. ppow mul a (length w - 1 - j)) (set ?js)"
    using l by (auto intro!: inj_onI dest!: inj_onD [OF inj])
  then have dist: "distinct (map snd ?ps)" unfolding ps by (simp add: comp_def distinct_map)
  have syn: "syndrome ?ps k = 0" if "k < n" for k using z [OF that] by (simp add: syndrome_filter peval_syndrome)
  have "(w ! j, ppow mul a (length w - 1 - j)) \<in> set ?ps" unfolding ps using j by simp
  from syndrome_zero [OF dist len syn this] j(2) show False by simp
qed

text \<open>Two words that vanish at the same points differ in more places than there are points.\<close>

lemma word_distance:
  assumes inj: "inj_on (ppow mul a) {..<N}" and l: "length v \<le> N" "length w = length v"
    and z: "\<And>k. k < n \<Longrightarrow> peval mul (ppow mul a k) v = 0" "\<And>k. k < n \<Longrightarrow> peval mul (ppow mul a k) w = 0" and ne: "v \<noteq> w"
  shows "n < card {i. i < length v \<and> v ! i \<noteq> w ! i}"
proof -
  have u: "padd mul v 1 w = map (\<lambda>j. v ! j XOR w ! j) [0..<length v]" by (simp add: padd_def)
  obtain j where j: "j < length v" "v ! j \<noteq> w ! j" using ne l(2) by (metis nth_equalityI)
  have "n < card {i. i < length (padd mul v 1 w) \<and> padd mul v 1 w ! i \<noteq> 0}"
    by (rule word_weight [OF inj, where j = j])
      (use l z j in \<open>simp_all add: peval_padd, simp_all add: u xor_eq_0_iff\<close>)
  moreover have "{i. i < length (padd mul v 1 w) \<and> padd mul v 1 w ! i \<noteq> 0} = {i. i < length v \<and> v ! i \<noteq> w ! i}"
    by (auto simp: u xor_eq_0_iff)
  ultimately show ?thesis by simp
qed

end

interpretation rsf: byte_field reedSolomonMultiply
  by unfold_locales (rule gmul_eq_0)

end
