(* ===== verification/Qr_Draw.thy ===== *)
theory Qr_Draw
  imports Qr_Bits
begin

text \<open>
  \<^verbatim>\<open>qrcodegen.c\<close>, second part: modules, function patterns, codewords, masks and the penalty score. A QR
  code is a byte array: its side length, then the modules row by row, eight to a byte.
\<close>

section \<open>Modules\<close>

definition getBit :: "int \<Rightarrow> nat \<Rightarrow> bool" where
  "getBit x i = (drop_bit i x AND 1 \<noteq> 0)"

definition qrcodegen_getSize :: "bytes \<Rightarrow> int option" where
  "qrcodegen_getSize qrcode = do {
     let result = uint (qrcode ! 0);
     guard (qrcodegen_VERSION_MIN * 4 + 17 \<le> result \<and> result \<le> qrcodegen_VERSION_MAX * 4 + 17);
     Some result }"

definition module_index :: "bytes \<Rightarrow> int \<Rightarrow> int \<Rightarrow> nat option" where
  "module_index qrcode x y = do {
     let qrsize = uint (qrcode ! 0);
     guard (21 \<le> qrsize \<and> qrsize \<le> 177 \<and> 0 \<le> x \<and> x < qrsize \<and> 0 \<le> y \<and> y < qrsize);
     let index = nat (y * qrsize + x);
     guard (index div 8 + 1 < length qrcode);
     Some index }"

definition getModule :: "bytes \<Rightarrow> int \<Rightarrow> int \<Rightarrow> bool option" where
  "getModule qrcode x y = do {
     index \<leftarrow> module_index qrcode x y;
     Some (getBit (uint (qrcode ! (index div 8 + 1))) (index mod 8)) }"

definition setModule :: "int \<Rightarrow> int \<Rightarrow> bool \<Rightarrow> bytes \<Rightarrow> bytes option" where
  "setModule x y isBlack qrcode = do {
     index \<leftarrow> module_index qrcode x y;
     let bitIndex = index mod 8;
     let byteIndex = index div 8 + 1;
     Some (if isBlack then qrcode[byteIndex := qrcode ! byteIndex OR push_bit bitIndex 1]
           else qrcode[byteIndex := qrcode ! byteIndex AND (push_bit bitIndex 1 XOR 0xFF)]) }"

definition setModuleBounded :: "int \<Rightarrow> int \<Rightarrow> bool \<Rightarrow> bytes \<Rightarrow> bytes option" where
  "setModuleBounded x y isBlack qrcode =
     (let qrsize = uint (qrcode ! 0)
      in if 0 \<le> x \<and> x < qrsize \<and> 0 \<le> y \<and> y < qrsize then setModule x y isBlack qrcode else Some qrcode)"

definition qrcodegen_getModule :: "bytes \<Rightarrow> int \<Rightarrow> int \<Rightarrow> bool option" where
  "qrcodegen_getModule qrcode x y =
     (let qrsize = uint (qrcode ! 0)
      in if 0 \<le> x \<and> x < qrsize \<and> 0 \<le> y \<and> y < qrsize then getModule qrcode x y else Some False)"

section \<open>Function patterns\<close>

definition fillRectangle :: "int \<Rightarrow> int \<Rightarrow> int \<Rightarrow> int \<Rightarrow> bytes \<Rightarrow> bytes option" where
  "fillRectangle left topY width height =
     foldM (\<lambda>dy. foldM (\<lambda>dx. setModule (left + dx) (topY + dy) True) [0..width - 1]) [0..height - 1]"

text \<open>The positions from the last one down, as the loop stores them; the first is always 6.\<close>

definition getAlignmentPatternPositions :: "int \<Rightarrow> int list" where
  "getAlignmentPatternPositions version =
     (if version = 1 then []
      else
        let numAlign = version div 7 + 2;
            step = (if version = 32 then 26 else (version * 4 + numAlign * 2 + 1) div (numAlign * 2 - 2) * 2)
        in 6 # map (\<lambda>i. uint (word_of_int (version * 4 + 10 - (numAlign - 1 - i) * step) :: u8)) [1..numAlign - 1])"

definition on_finder :: "int \<Rightarrow> int \<Rightarrow> int \<Rightarrow> bool" where
  "on_finder numAlign i j = ((i = 0 \<and> j = 0) \<or> (i = 0 \<and> j = numAlign - 1) \<or> (i = numAlign - 1 \<and> j = 0))"

definition fill_alignment :: "int \<Rightarrow> bytes \<Rightarrow> bytes option" where
  "fill_alignment version qrcode =
     (let alignPatPos = getAlignmentPatternPositions version;
          numAlign = int (length alignPatPos)
      in foldM (\<lambda>i. foldM (\<lambda>j q.
           if \<not> on_finder numAlign i j
           then fillRectangle (alignPatPos ! nat i - 2) (alignPatPos ! nat j - 2) 5 5 q else Some q)
           [0..numAlign - 1]) [0..numAlign - 1] qrcode)"

definition initializeFunctionModules :: "int \<Rightarrow> bytes \<Rightarrow> bytes option" where
  "initializeFunctionModules version qrcode = do {
     let qrsize = version * 4 + 17;
     q \<leftarrow> memset0 qrcode (nat ((qrsize * qrsize + 7) div 8 + 1));
     let q = q[0 := word_of_int qrsize];
     q \<leftarrow> fillRectangle 6 0 1 qrsize q;
     q \<leftarrow> fillRectangle 0 6 qrsize 1 q;
     q \<leftarrow> fillRectangle 0 0 9 9 q;
     q \<leftarrow> fillRectangle (qrsize - 8) 0 8 9 q;
     q \<leftarrow> fillRectangle 0 (qrsize - 8) 9 8 q;
     q \<leftarrow> fill_alignment version q;
     if 7 \<le> version then do {
       q \<leftarrow> fillRectangle (qrsize - 11) 0 3 6 q;
       fillRectangle 0 (qrsize - 11) 6 3 q }
     else Some q }"

definition timing_step :: "int \<Rightarrow> bytes \<Rightarrow> bytes option" where
  "timing_step i q = do {
     q \<leftarrow> setModule 6 i False q;
     setModule i 6 False q }"

definition finder_step :: "int \<Rightarrow> int \<Rightarrow> int \<Rightarrow> bytes \<Rightarrow> bytes option" where
  "finder_step qrsize dy dx q =
     (let dist = (if \<bar>dx\<bar> < \<bar>dy\<bar> then \<bar>dy\<bar> else \<bar>dx\<bar>)
      in if dist = 2 \<or> dist = 4 then do {
           q \<leftarrow> setModuleBounded (3 + dx) (3 + dy) False q;
           q \<leftarrow> setModuleBounded (qrsize - 4 + dx) (3 + dy) False q;
           setModuleBounded (3 + dx) (qrsize - 4 + dy) False q }
         else Some q)"

definition draw_alignment :: "int \<Rightarrow> bytes \<Rightarrow> bytes option" where
  "draw_alignment version qrcode =
     (let alignPatPos = getAlignmentPatternPositions version;
          numAlign = int (length alignPatPos)
      in foldM (\<lambda>i. foldM (\<lambda>j q.
           if on_finder numAlign i j then Some q
           else foldM (\<lambda>dy. foldM (\<lambda>dx. setModule (alignPatPos ! nat i + dx) (alignPatPos ! nat j + dy) (dx = 0 \<and> dy = 0)) [-1..1]) [-1..1] q)
           [0..numAlign - 1]) [0..numAlign - 1] qrcode)"

definition version_rem :: "int \<Rightarrow> int" where
  "version_rem version = ((\<lambda>rem. push_bit 1 rem XOR drop_bit 11 rem * 0x1F25) ^^ 12) version"

definition version_step :: "int \<Rightarrow> int \<Rightarrow> int \<Rightarrow> bytes \<times> int \<Rightarrow> (bytes \<times> int) option" where
  "version_step qrsize i j = (\<lambda>(q, bits). do {
     let k = qrsize - 11 + j;
     q \<leftarrow> setModule k i (bits AND 1 \<noteq> 0) q;
     q \<leftarrow> setModule i k (bits AND 1 \<noteq> 0) q;
     Some (q, drop_bit 1 bits) })"

definition drawWhiteFunctionModules :: "bytes \<Rightarrow> int \<Rightarrow> bytes option" where
  "drawWhiteFunctionModules qrcode version = do {
     qrsize \<leftarrow> qrcodegen_getSize qrcode;
     q \<leftarrow> foldM timing_step (filter (\<lambda>i. i mod 2 = 1) [7..qrsize - 8]) qrcode;
     q \<leftarrow> foldM (\<lambda>dy. foldM (finder_step qrsize dy) [-4..4]) [-4..4] q;
     q \<leftarrow> draw_alignment version q;
     if 7 \<le> version then do {
       let bits = push_bit 12 version OR version_rem version;
       guard (drop_bit 18 bits = 0);
       (q, _) \<leftarrow> foldM (\<lambda>i. foldM (version_step qrsize i) [0..2]) [0..5] (q, bits);
       Some q }
     else Some q }"

definition format_table :: "qrcodegen_Ecc \<Rightarrow> int" where
  "format_table ecl = [1, 0, 3, 2] ! ecc_index ecl"

definition format_bits :: "qrcodegen_Ecc \<Rightarrow> int \<Rightarrow> int" where
  "format_bits ecl msk =
     (let d = push_bit 3 (format_table ecl) OR msk;
          rem = ((\<lambda>rem. push_bit 1 rem XOR drop_bit 9 rem * 0x537) ^^ 10) d
      in (push_bit 10 d OR rem) XOR 0x5412)"

definition drawFormatBits :: "qrcodegen_Ecc \<Rightarrow> int \<Rightarrow> bytes \<Rightarrow> bytes option" where
  "drawFormatBits ecl msk qrcode = do {
     guard (0 \<le> msk \<and> msk \<le> 7);
     let bits = format_bits ecl msk;
     guard (drop_bit 15 bits = 0);
     q \<leftarrow> foldM (\<lambda>i. setModule 8 i (getBit bits (nat i))) [0..5] qrcode;
     q \<leftarrow> setModule 8 7 (getBit bits 6) q;
     q \<leftarrow> setModule 8 8 (getBit bits 7) q;
     q \<leftarrow> setModule 7 8 (getBit bits 8) q;
     q \<leftarrow> foldM (\<lambda>i. setModule (14 - i) 8 (getBit bits (nat i))) [9..14] q;
     qrsize \<leftarrow> qrcodegen_getSize q;
     q \<leftarrow> foldM (\<lambda>i. setModule (qrsize - 1 - i) 8 (getBit bits (nat i))) [0..7] q;
     q \<leftarrow> foldM (\<lambda>i. setModule 8 (qrsize - 15 + i) (getBit bits (nat i))) [8..14] q;
     setModule 8 (qrsize - 8) True q }"

section \<open>Codewords and masks\<close>

text \<open>The right columns of the pairs, in the order of the scan: column 6 is skipped.\<close>

function right_columns :: "int \<Rightarrow> int list" where
  "right_columns right =
     (if right < 1 then []
      else let right = (if right = 6 then 5 else right) in right # right_columns (right - 2))"
  by pat_completeness auto
termination by (relation "measure nat") (auto split: if_splits)

declare right_columns.simps [simp del]

definition codeword_step :: "bytes \<Rightarrow> nat \<Rightarrow> int \<Rightarrow> int \<Rightarrow> int \<Rightarrow> int \<Rightarrow> bytes \<times> nat \<Rightarrow> (bytes \<times> nat) option" where
  "codeword_step d dataLen qrsize right vert j = (\<lambda>(q, i). do {
     let x = right - j;
     let upward = ((right + 1) AND 2 = 0);
     let y = (if upward then qrsize - 1 - vert else vert);
     m \<leftarrow> getModule q x y;
     if \<not> m \<and> i < dataLen * 8 then do {
       guard (i div 8 < length d);
       q \<leftarrow> setModule x y (getBit (uint (d ! (i div 8))) (7 - i mod 8)) q;
       Some (q, i + 1) }
     else Some (q, i) })"

definition drawCodewords :: "bytes \<Rightarrow> nat \<Rightarrow> bytes \<Rightarrow> bytes option" where
  "drawCodewords d dataLen qrcode = do {
     qrsize \<leftarrow> qrcodegen_getSize qrcode;
     (q, i) \<leftarrow> foldM (\<lambda>right. foldM (\<lambda>vert. foldM (codeword_step d dataLen qrsize right vert) [0..1]) [0..qrsize - 1])
       (right_columns (qrsize - 1)) (qrcode, 0);
     guard (i = dataLen * 8);
     Some q }"

definition mask_invert :: "int \<Rightarrow> int \<Rightarrow> int \<Rightarrow> bool" where
  "mask_invert msk x y =
     (if msk = 0 then (x + y) mod 2 = 0
      else if msk = 1 then y mod 2 = 0
      else if msk = 2 then x mod 3 = 0
      else if msk = 3 then (x + y) mod 3 = 0
      else if msk = 4 then (x div 3 + y div 2) mod 2 = 0
      else if msk = 5 then x * y mod 2 + x * y mod 3 = 0
      else if msk = 6 then (x * y mod 2 + x * y mod 3) mod 2 = 0
      else ((x + y) mod 2 + x * y mod 3) mod 2 = 0)"

definition mask_step :: "bytes \<Rightarrow> int \<Rightarrow> int \<Rightarrow> int \<Rightarrow> bytes \<Rightarrow> bytes option" where
  "mask_step functionModules msk y x q = do {
     isf \<leftarrow> getModule functionModules x y;
     if isf then Some q
     else do {
       val \<leftarrow> getModule q x y;
       setModule x y (val \<noteq> mask_invert msk x y) q } }"

definition applyMask :: "bytes \<Rightarrow> int \<Rightarrow> bytes \<Rightarrow> bytes option" where
  "applyMask functionModules msk qrcode = do {
     guard (0 \<le> msk \<and> msk \<le> 7);
     qrsize \<leftarrow> qrcodegen_getSize qrcode;
     foldM (\<lambda>y. foldM (mask_step functionModules msk y) [0..qrsize - 1]) [0..qrsize - 1] qrcode }"

section \<open>Penalty score\<close>

definition PENALTY_N1 :: int where "PENALTY_N1 = 3"
definition PENALTY_N2 :: int where "PENALTY_N2 = 3"
definition PENALTY_N3 :: int where "PENALTY_N3 = 40"
definition PENALTY_N4 :: int where "PENALTY_N4 = 10"

definition finderPenaltyCountPatterns :: "int list \<Rightarrow> int \<Rightarrow> int option" where
  "finderPenaltyCountPatterns runHistory qrsize = do {
     let n = runHistory ! 1;
     guard (n \<le> qrsize * 3);
     let core = (0 < n \<and> runHistory ! 2 = n \<and> runHistory ! 3 = n * 3 \<and> runHistory ! 4 = n \<and> runHistory ! 5 = n);
     Some ((if core \<and> n * 4 \<le> runHistory ! 0 \<and> n \<le> runHistory ! 6 then 1 else 0) +
           (if core \<and> n * 4 \<le> runHistory ! 6 \<and> n \<le> runHistory ! 0 then 1 else 0)) }"

definition finderPenaltyAddHistory :: "int \<Rightarrow> int list \<Rightarrow> int list" where
  "finderPenaltyAddHistory currentRunLength runHistory = currentRunLength # take 6 runHistory"

definition finderPenaltyTerminateAndCount :: "bool \<Rightarrow> int \<Rightarrow> int list \<Rightarrow> int \<Rightarrow> int option" where
  "finderPenaltyTerminateAndCount currentRunColor currentRunLength runHistory qrsize =
     (let (currentRunLength, runHistory) =
            (if currentRunColor then (0, finderPenaltyAddHistory currentRunLength runHistory) else (currentRunLength, runHistory));
          currentRunLength = currentRunLength + qrsize;
          runHistory = finderPenaltyAddHistory currentRunLength runHistory
      in finderPenaltyCountPatterns runHistory qrsize)"

text \<open>One line, a row or a column: \<open>get\<close> reads its modules.\<close>

record penalty_line =
  runColor :: bool
  runLen :: int
  runHistory :: "int list"
  padRun :: int
  score :: int

definition line_step :: "(int \<Rightarrow> bool option) \<Rightarrow> int \<Rightarrow> int \<Rightarrow> penalty_line \<Rightarrow> penalty_line option" where
  "line_step get qrsize x s = do {
     m \<leftarrow> get x;
     if m = runColor s then
       let s = s\<lparr>runLen := runLen s + 1\<rparr>
       in Some (if runLen s = 5 then s\<lparr>score := score s + PENALTY_N1\<rparr>
                else if 5 < runLen s then s\<lparr>score := score s + 1\<rparr> else s)
     else do {
       let s = s\<lparr>runHistory := finderPenaltyAddHistory (runLen s + padRun s) (runHistory s), padRun := 0\<rparr>;
       s \<leftarrow> (if \<not> runColor s then do {
                n \<leftarrow> finderPenaltyCountPatterns (runHistory s) qrsize;
                Some (s\<lparr>score := score s + n * PENALTY_N3\<rparr>) }
              else Some s);
       Some (s\<lparr>runColor := m, runLen := 1\<rparr>) } }"

definition line_penalty :: "(int \<Rightarrow> bool option) \<Rightarrow> int \<Rightarrow> int \<Rightarrow> int option" where
  "line_penalty get qrsize result = do {
     s \<leftarrow> foldM (line_step get qrsize) [0..qrsize - 1]
       \<lparr>runColor = False, runLen = 0, runHistory = replicate 7 0, padRun = qrsize, score = result\<rparr>;
     n \<leftarrow> finderPenaltyTerminateAndCount (runColor s) (runLen s + padRun s) (runHistory s) qrsize;
     Some (score s + n * PENALTY_N3) }"

text \<open>The comparisons of a 2 by 2 block stop at the first difference.\<close>

definition block_step :: "bytes \<Rightarrow> int \<Rightarrow> int \<Rightarrow> int \<Rightarrow> int option" where
  "block_step qrcode y x result = do {
     color \<leftarrow> getModule qrcode x y;
     m1 \<leftarrow> getModule qrcode (x + 1) y;
     if color \<noteq> m1 then Some result
     else do {
       m2 \<leftarrow> getModule qrcode x (y + 1);
       if color \<noteq> m2 then Some result
       else do {
         m3 \<leftarrow> getModule qrcode (x + 1) (y + 1);
         Some (if color = m3 then result + PENALTY_N2 else result) } } }"

definition black_step :: "bytes \<Rightarrow> int \<Rightarrow> int \<Rightarrow> int \<Rightarrow> int option" where
  "black_step qrcode y x black = do {
     m \<leftarrow> getModule qrcode x y;
     Some (if m then black + 1 else black) }"

definition getPenaltyScore :: "bytes \<Rightarrow> int option" where
  "getPenaltyScore qrcode = do {
     qrsize \<leftarrow> qrcodegen_getSize qrcode;
     result \<leftarrow> foldM (\<lambda>y. line_penalty (\<lambda>x. getModule qrcode x y) qrsize) [0..qrsize - 1] 0;
     result \<leftarrow> foldM (\<lambda>x. line_penalty (\<lambda>y. getModule qrcode x y) qrsize) [0..qrsize - 1] result;
     result \<leftarrow> foldM (\<lambda>y. foldM (block_step qrcode y) [0..qrsize - 2]) [0..qrsize - 2] result;
     black \<leftarrow> foldM (\<lambda>y. foldM (black_step qrcode y) [0..qrsize - 1]) [0..qrsize - 1] 0;
     let modules = qrsize * qrsize;
     let k = (\<bar>black * 20 - modules * 10\<bar> + modules - 1) div modules - 1;
     Some (result + k * PENALTY_N4) }"

end
