(* ===== verification/Qr_Code.thy ===== *)
theory Qr_Code
  imports Qr_Draw
begin

text \<open>
  \<^verbatim>\<open>qrcodegen.c\<close>, the encoder, and \<^verbatim>\<open>qrcode/qrcode.c\<close>, the MicroPython module. The encoder works on two
  buffers of the caller, \<^verbatim>\<open>tempBuffer\<close> and \<^verbatim>\<open>qrcode\<close>. The data of a segment lies in \<^verbatim>\<open>tempBuffer\<close>; it is
  read before that buffer is written again, so a segment carries its data as a value.
\<close>

section \<open>The encoder\<close>

text \<open>The smallest version that fits: \<open>None\<close> inside is that none does.\<close>

function find_version :: "qrcodegen_Segment list \<Rightarrow> qrcodegen_Ecc \<Rightarrow> int \<Rightarrow> int \<Rightarrow> (int \<times> nat) option option" where
  "find_version segs ecl version maxVersion = do {
     dataWords \<leftarrow> getNumDataCodewords version ecl;
     dataUsedBits \<leftarrow> getTotalBits segs version;
     if dataUsedBits \<noteq> -1 \<and> dataUsedBits \<le> dataWords * 8 then Some (Some (version, nat dataUsedBits))
     else if maxVersion \<le> version then Some None
     else find_version segs ecl (version + 1) maxVersion }"
  by pat_completeness auto
termination by (relation "measure (\<lambda>(segs, ecl, version, maxVersion). nat (maxVersion - version))") auto

declare find_version.simps [simp del]

definition boost_step :: "bool \<Rightarrow> int \<Rightarrow> nat \<Rightarrow> qrcodegen_Ecc \<Rightarrow> qrcodegen_Ecc \<Rightarrow> qrcodegen_Ecc option" where
  "boost_step boostEcl version dataUsedBits i ecl =
     (if boostEcl then do {
        dataWords \<leftarrow> getNumDataCodewords version i;
        Some (if int dataUsedBits \<le> dataWords * 8 then i else ecl) }
      else Some ecl)"

definition data_bit_step :: "bytes \<Rightarrow> nat \<Rightarrow> bitbuf \<Rightarrow> bitbuf option" where
  "data_bit_step d j b = do {
     guard (j div 8 < length d);
     appendBitsToBuffer (ucast (drop_bit (7 - j mod 8) (d ! (j div 8)) AND 1)) 1 b }"

definition segment_step :: "int \<Rightarrow> qrcodegen_Segment \<Rightarrow> bitbuf \<Rightarrow> bitbuf option" where
  "segment_step version seg b = do {
     b \<leftarrow> appendBitsToBuffer (mode_bits (mode seg)) 4 b;
     ccbits \<leftarrow> numCharCountBits (mode seg) version;
     b \<leftarrow> appendBitsToBuffer (of_nat (numChars seg)) ccbits b;
     foldM (data_bit_step (seg_data seg)) [0..<bitLength seg] b }"

lemma foldM_append_bit_len: "foldM (append_bit val) is b = Some b' \<Longrightarrow> snd b' = snd b + length is"
  by (induction "is" arbitrary: b) (auto simp: append_bit_def split: option.splits if_splits)

lemma appendBits_len: "appendBitsToBuffer val n b = Some b' \<Longrightarrow> snd b' = snd b + n"
  by (auto simp: appendBitsToBuffer_def guard_def split: if_splits dest: foldM_append_bit_len)

function pad_loop :: "nat \<Rightarrow> u8 \<Rightarrow> bitbuf \<Rightarrow> bitbuf option" where
  "pad_loop dataCapacityBits padByte b =
     (if snd b < dataCapacityBits then
        (case appendBitsToBuffer (ucast padByte) 8 b of
           None \<Rightarrow> None
         | Some b' \<Rightarrow> pad_loop dataCapacityBits (padByte XOR (0xEC XOR 0x11)) b')
      else Some b)"
  by pat_completeness auto
termination by (relation "measure (\<lambda>(cap, p, b). cap - snd b)") (auto dest: appendBits_len)

declare pad_loop.simps [simp del]

text \<open>The data codewords: segments, terminator, padding.\<close>

definition data_codewords :: "qrcodegen_Segment list \<Rightarrow> int \<Rightarrow> nat \<Rightarrow> nat \<Rightarrow> bytes \<Rightarrow> bytes option" where
  "data_codewords segs version dataUsedBits dataCapacityBits qrcode = do {
     q \<leftarrow> memset0 qrcode (qrcodegen_BUFFER_LEN_FOR_VERSION version);
     (q, bitLen) \<leftarrow> foldM (segment_step version) segs (q, 0);
     guard (bitLen = dataUsedBits);
     guard (bitLen \<le> dataCapacityBits);
     let terminatorBits = (if 4 < dataCapacityBits - bitLen then 4 else dataCapacityBits - bitLen);
     (q, bitLen) \<leftarrow> appendBitsToBuffer 0 terminatorBits (q, bitLen);
     (q, bitLen) \<leftarrow> appendBitsToBuffer 0 ((8 - bitLen mod 8) mod 8) (q, bitLen);
     guard (bitLen mod 8 = 0);
     (q, _) \<leftarrow> pad_loop dataCapacityBits 0xEC (q, bitLen);
     Some q }"

text \<open>\<open>LONG_MAX\<close> of the 64-bit target is the first bound of the mask search.\<close>

definition mask_search_step :: "bytes \<Rightarrow> qrcodegen_Ecc \<Rightarrow> int \<Rightarrow> bytes \<times> int \<times> int \<Rightarrow> (bytes \<times> int \<times> int) option" where
  "mask_search_step tempBuffer ecl msk = (\<lambda>(q, best, minPenalty). do {
     q \<leftarrow> applyMask tempBuffer msk q;
     q \<leftarrow> drawFormatBits ecl msk q;
     penalty \<leftarrow> getPenaltyScore q;
     let (best, minPenalty) = (if penalty < minPenalty then (msk, penalty) else (best, minPenalty));
     q \<leftarrow> applyMask tempBuffer msk q;
     Some (q, best, minPenalty) })"

definition choose_mask :: "bytes \<Rightarrow> qrcodegen_Ecc \<Rightarrow> int \<Rightarrow> bytes \<Rightarrow> (bytes \<times> int) option" where
  "choose_mask tempBuffer ecl msk q =
     (if msk = -1 then do {
        (q, msk, _) \<leftarrow> foldM (mask_search_step tempBuffer ecl) [0..7] (q, msk, 2 ^ 63 - 1);
        Some (q, msk) }
      else Some (q, msk))"

definition draw_code :: "bytes \<Rightarrow> int \<Rightarrow> qrcodegen_Ecc \<Rightarrow> int \<Rightarrow> bytes \<Rightarrow> (bytes \<times> bytes) option" where
  "draw_code tempBuffer version ecl msk q = do {
     (q, tempBuffer) \<leftarrow> addEccAndInterleave q version ecl tempBuffer;
     q \<leftarrow> initializeFunctionModules version q;
     raw \<leftarrow> getNumRawDataModules version;
     q \<leftarrow> drawCodewords tempBuffer (nat (raw div 8)) q;
     q \<leftarrow> drawWhiteFunctionModules q version;
     tempBuffer \<leftarrow> initializeFunctionModules version tempBuffer;
     (q, msk) \<leftarrow> choose_mask tempBuffer ecl msk q;
     guard (0 \<le> msk \<and> msk \<le> 7);
     q \<leftarrow> applyMask tempBuffer msk q;
     q \<leftarrow> drawFormatBits ecl msk q;
     Some (tempBuffer, q) }"

text \<open>The result is the value returned and the two buffers.\<close>

definition qrcodegen_encodeSegmentsAdvanced ::
  "qrcodegen_Segment list \<Rightarrow> qrcodegen_Ecc \<Rightarrow> int \<Rightarrow> int \<Rightarrow> int \<Rightarrow> bool \<Rightarrow> bytes \<Rightarrow> bytes \<Rightarrow> (bool \<times> bytes \<times> bytes) option" where
  "qrcodegen_encodeSegmentsAdvanced segs ecl minVersion maxVersion msk boostEcl tempBuffer qrcode = do {
     guard (qrcodegen_VERSION_MIN \<le> minVersion \<and> minVersion \<le> maxVersion \<and> maxVersion \<le> qrcodegen_VERSION_MAX);
     guard (-1 \<le> msk \<and> msk \<le> 7);
     found \<leftarrow> find_version segs ecl minVersion maxVersion;
     (case found of
        None \<Rightarrow> Some (False, tempBuffer, qrcode[0 := 0])
      | Some (version, dataUsedBits) \<Rightarrow> do {
          ecl \<leftarrow> foldM (boost_step boostEcl version dataUsedBits) [Ecc_MEDIUM, Ecc_QUARTILE, Ecc_HIGH] ecl;
          dataWords \<leftarrow> getNumDataCodewords version ecl;
          q \<leftarrow> data_codewords segs version dataUsedBits (nat (dataWords * 8)) qrcode;
          (tempBuffer, q) \<leftarrow> draw_code tempBuffer version ecl msk q;
          Some (True, tempBuffer, q) }) }"

definition qrcodegen_encodeSegments ::
  "qrcodegen_Segment list \<Rightarrow> qrcodegen_Ecc \<Rightarrow> bytes \<Rightarrow> bytes \<Rightarrow> (bool \<times> bytes \<times> bytes) option" where
  "qrcodegen_encodeSegments segs ecl tempBuffer qrcode =
     qrcodegen_encodeSegmentsAdvanced segs ecl qrcodegen_VERSION_MIN qrcodegen_VERSION_MAX (-1) True tempBuffer qrcode"

text \<open>The segment for a text, in \<open>tempBuffer\<close>; \<open>Some None\<close> is the jump to \<^verbatim>\<open>fail\<close>.\<close>

definition text_segment :: "bytes \<Rightarrow> nat \<Rightarrow> bytes \<Rightarrow> qrcodegen_Segment option option" where
  "text_segment str bufLen tempBuffer =
     (if qrcodegen_isNumeric str then do {
        n \<leftarrow> qrcodegen_calcSegmentBufferSize Mode_NUMERIC (length str);
        if bufLen < n then Some None else map_option Some (qrcodegen_makeNumeric str tempBuffer) }
      else if qrcodegen_isAlphanumeric str then do {
        n \<leftarrow> qrcodegen_calcSegmentBufferSize Mode_ALPHANUMERIC (length str);
        if bufLen < n then Some None else map_option Some (qrcodegen_makeAlphanumeric str tempBuffer) }
      else if bufLen < length str then Some None
      else do {
        guard (length str \<le> length tempBuffer);
        n \<leftarrow> calcSegmentBitLength Mode_BYTE (length str);
        if n = -1 then Some None
        else Some (Some \<lparr>mode = Mode_BYTE, numChars = length str, seg_data = memcpy_at tempBuffer 0 str, bitLength = nat n\<rparr>) })"

definition qrcodegen_encodeText ::
  "bytes \<Rightarrow> bytes \<Rightarrow> bytes \<Rightarrow> qrcodegen_Ecc \<Rightarrow> int \<Rightarrow> int \<Rightarrow> int \<Rightarrow> bool \<Rightarrow> (bool \<times> bytes \<times> bytes) option" where
  "qrcodegen_encodeText str tempBuffer qrcode ecl minVersion maxVersion msk boostEcl =
     (if length str = 0 then qrcodegen_encodeSegmentsAdvanced [] ecl minVersion maxVersion msk boostEcl tempBuffer qrcode
      else do {
        seg \<leftarrow> text_segment str (qrcodegen_BUFFER_LEN_FOR_VERSION maxVersion) tempBuffer;
        (case seg of
           None \<Rightarrow> Some (False, tempBuffer, qrcode[0 := 0])
         | Some seg \<Rightarrow> qrcodegen_encodeSegmentsAdvanced [seg] ecl minVersion maxVersion msk boostEcl (seg_data seg) qrcode) })"

definition qrcodegen_encodeBinary ::
  "bytes \<Rightarrow> nat \<Rightarrow> bytes \<Rightarrow> qrcodegen_Ecc \<Rightarrow> int \<Rightarrow> int \<Rightarrow> int \<Rightarrow> bool \<Rightarrow> (bool \<times> bytes \<times> bytes) option" where
  "qrcodegen_encodeBinary dataAndTemp dataLen qrcode ecl minVersion maxVersion msk boostEcl = do {
     n \<leftarrow> calcSegmentBitLength Mode_BYTE dataLen;
     if n = -1 then Some (False, dataAndTemp, qrcode[0 := 0])
     else qrcodegen_encodeSegmentsAdvanced [\<lparr>mode = Mode_BYTE, numChars = dataLen, seg_data = dataAndTemp, bitLength = nat n\<rparr>]
            ecl minVersion maxVersion msk boostEcl dataAndTemp qrcode }"

section \<open>The Python module\<close>

text \<open>Both functions start the same way. \<open>tempBuffer\<close> and \<open>qrcode\<close> are the uninitialised arrays on the
  stack; copying more bytes than the array holds is \<open>Heap_overrun\<close>.\<close>

definition encode_buffer :: "bytes \<Rightarrow> bytes \<Rightarrow> mp_obj \<Rightarrow> mp_error + bytes" where
  "encode_buffer tempBuffer qrcode arg =
     (case mp_get_buffer_raise arg of
        Inl e \<Rightarrow> Inl e
      | Inr buf \<Rightarrow>
          if length tempBuffer < length buf then Inl Heap_overrun
          else
            let tempBuffer = memcpy_at tempBuffer 0 buf;
                is_bytes = list_ex (\<lambda>b. b = 0) (take (length buf) tempBuffer)
            in (case (if is_bytes
                      then qrcodegen_encodeBinary tempBuffer (length buf) qrcode Ecc_LOW qrcodegen_VERSION_MIN qrcodegen_VERSION_MAX (-1) True
                      else qrcodegen_encodeText (takeWhile (\<lambda>b. b \<noteq> 0) buf) tempBuffer qrcode Ecc_LOW qrcodegen_VERSION_MIN qrcodegen_VERSION_MAX (-1) True) of
                  None \<Rightarrow> Inl Assert_failed
                | Some (ok, _, qrcode) \<Rightarrow> if ok then Inr qrcode else Inl (ValueError ''Failed to encode'')))"

text \<open>The result of \<open>encode\<close> is filled except for its last byte.\<close>

definition qrcode_encode :: "mp_env \<Rightarrow> bytes \<Rightarrow> bytes \<Rightarrow> mp_obj \<Rightarrow> mp_error + bytes" where
  "qrcode_encode env tempBuffer qrcode arg =
     (case encode_buffer tempBuffer qrcode arg of
        Inl e \<Rightarrow> Inl e
      | Inr q \<Rightarrow>
          (case qrcodegen_getSize q of
             None \<Rightarrow> Inl Assert_failed
           | Some sz \<Rightarrow>
               let bufsize = nat ((sz * sz + 7) div 8) in
               (case vstr_init_len env (of_nat bufsize) of
                  Inl e \<Rightarrow> Inl e
                | Inr vstr \<Rightarrow>
                    if length vstr < bufsize then Inl Heap_overrun
                    else Inr (take bufsize (memcpy_at vstr 0 (take (bufsize - 1) (drop 1 q)))))))"

definition string_cell :: "bytes \<Rightarrow> int \<Rightarrow> int \<Rightarrow> int \<Rightarrow> bytes \<Rightarrow> bytes option" where
  "string_cell q sz y x vstr = do {
     m \<leftarrow> qrcodegen_getModule q x y;
     if m then store_byte (nat (y * (sz + 1) + x)) 49 vstr else Some vstr }"

definition string_row :: "bytes \<Rightarrow> int \<Rightarrow> int \<Rightarrow> bytes \<Rightarrow> bytes option" where
  "string_row q sz y vstr = do {
     vstr \<leftarrow> foldM (string_cell q sz y) [0..sz - 1] vstr;
     store_byte (nat (y * (sz + 1) + sz)) 10 vstr }"

definition qrcode_encode_to_string :: "mp_env \<Rightarrow> bytes \<Rightarrow> bytes \<Rightarrow> mp_obj \<Rightarrow> mp_error + bytes" where
  "qrcode_encode_to_string env tempBuffer qrcode arg =
     (case encode_buffer tempBuffer qrcode arg of
        Inl e \<Rightarrow> Inl e
      | Inr q \<Rightarrow>
          (case qrcodegen_getSize q of
             None \<Rightarrow> Inl Assert_failed
           | Some sz \<Rightarrow>
               let bufsize = nat ((sz + 1) * sz) in
               (case vstr_init_len env (of_nat bufsize) of
                  Inl e \<Rightarrow> Inl e
                | Inr vstr \<Rightarrow>
                    if length vstr < bufsize then Inl Heap_overrun
                    else
                      (case foldM (string_row q sz) [0..sz - 1] (replicate bufsize 48 @ drop bufsize vstr) of
                         None \<Rightarrow> Inl Heap_overrun
                       | Some vstr \<Rightarrow> Inr (take bufsize vstr)))))"

end
