(* ===== verification/Qr_Grid.thy ===== *)
theory Qr_Grid
  imports Qr_Draw
begin

text \<open>
  The modules as a grid: \<open>pix\<close> reads a module of a well-formed code (\<open>qr_wf\<close>), and an operation that
  \<open>paints\<close> a set of modules completes, keeps the code well formed and changes these modules only.
\<close>

definition qr_wf :: "int \<Rightarrow> bytes \<Rightarrow> bool" where
  "qr_wf sz q = (21 \<le> sz \<and> sz \<le> 177 \<and> uint (q ! 0) = sz \<and> nat ((sz * sz + 7) div 8 + 1) \<le> length q)"

definition in_code :: "int \<Rightarrow> int \<Rightarrow> int \<Rightarrow> bool" where
  "in_code sz x y = (0 \<le> x \<and> x < sz \<and> 0 \<le> y \<and> y < sz)"

definition cell :: "int \<Rightarrow> int \<Rightarrow> int \<Rightarrow> nat" where
  "cell sz x y = nat (y * sz + x)"

definition pix :: "bytes \<Rightarrow> int \<Rightarrow> int \<Rightarrow> bool" where
  "pix q x y = bit (q ! (cell (uint (q ! 0)) x y div 8 + 1)) (cell (uint (q ! 0)) x y mod 8)"

lemma getBit_bit: "getBit x i = bit x i"
  by (simp add: getBit_def bit_iff_odd_drop_bit and_one_eq odd_iff_mod_2_eq_one)

lemma cell_bound:
  assumes "in_code sz x y"
  shows "int (cell sz x y) < sz * sz"
proof -
  have "y * sz \<le> (sz - 1) * sz" using assms by (intro mult_right_mono) (simp_all add: in_code_def)
  then show ?thesis using assms by (simp add: in_code_def cell_def left_diff_distrib)
qed

lemma cell_inj:
  assumes "in_code sz x y" and "in_code sz x' y'" and "cell sz x y = cell sz x' y'"
  shows "x = x' \<and> y = y'"
proof -
  have "y * sz + x = y' * sz + x'" using assms by (simp add: in_code_def cell_def nat_eq_iff)
  moreover have "(y * sz + x) div sz = y" "(y' * sz + x') div sz = y'" "(y * sz + x) mod sz = x" "(y' * sz + x') mod sz = x'"
    using assms by (simp_all add: in_code_def)
  ultimately show ?thesis by metis
qed

lemma cell_byte:
  assumes "qr_wf sz q" and "in_code sz x y"
  shows "cell sz x y div 8 + 1 < length q"
proof -
  have "int (cell sz x y) < sz * sz" by (rule cell_bound [OF assms(2)])
  then have "int (cell sz x y) div 8 < (sz * sz + 7) div 8" by linarith
  moreover have "int (cell sz x y div 8) = int (cell sz x y) div 8" by (simp add: zdiv_int)
  ultimately show ?thesis using assms(1) unfolding qr_wf_def nat_le_iff by linarith
qed

lemma module_index_eq:
  assumes "qr_wf sz q" and "in_code sz x y"
  shows "module_index q x y = Some (cell sz x y)"
  using assms cell_byte [OF assms] by (simp add: module_index_def qr_wf_def in_code_def cell_def)

lemma getModule_ok:
  assumes "qr_wf sz q" and "in_code sz x y"
  shows "getModule q x y = Some (pix q x y)"
  unfolding getModule_def module_index_eq [OF assms] using assms(1) by (simp add: getBit_bit pix_def qr_wf_def bit_uint_iff)

lemma getSize_ok: "qr_wf sz q \<Longrightarrow> qrcodegen_getSize q = Some sz"
  by (simp add: qrcodegen_getSize_def qr_wf_def qrcodegen_VERSION_MIN_def qrcodegen_VERSION_MAX_def)

lemma bit_set_module:
  fixes w :: u8
  assumes "k < 8" and "j < 8"
  shows "bit (w OR push_bit k 1) j \<longleftrightarrow> (if j = k then True else bit w j)"
    and "bit (w AND (push_bit k 1 XOR 0xFF)) j \<longleftrightarrow> (if j = k then False else bit w j)"
proof -
  have p: "bit (push_bit k 1 :: u8) j \<longleftrightarrow> j = k" using assms bit_exp_iff [of k j, where 'a = "8 word"] by auto
  have "bit (mask 8 :: u8) j" using assms by (simp only: bit_mask_iff) simp
  then have f: "bit (0xFF :: u8) j" by (simp add: mask_eq_exp_minus_1)
  show "bit (w OR push_bit k 1) j \<longleftrightarrow> (if j = k then True else bit w j)" using p by (simp only: bit_or_iff) auto
  show "bit (w AND (push_bit k 1 XOR 0xFF)) j \<longleftrightarrow> (if j = k then False else bit w j)" using p f by (simp only: bit_and_iff bit_xor_iff) auto
qed

lemma setModule_ok:
  assumes "qr_wf sz q" and "in_code sz x y"
  shows "runs (setModule x y b q) (\<lambda>q'. qr_wf sz q' \<and> length q' = length q \<and>
    (\<forall>x' y'. in_code sz x' y' \<longrightarrow> pix q' x' y' = (if x' = x \<and> y' = y then b else pix q x' y')))"
proof -
  let ?i = "cell sz x y"
  define w where "w = (if b then q ! (?i div 8 + 1) OR push_bit (?i mod 8) 1 else q ! (?i div 8 + 1) AND (push_bit (?i mod 8) 1 XOR 0xFF))"
  define q' where "q' = q[?i div 8 + 1 := w]"
  have s: "setModule x y b q = Some q'" using assms by (simp add: setModule_def module_index_eq q'_def w_def)
  have l: "length q' = length q" by (simp add: q'_def)
  have z: "q' ! 0 = q ! 0" by (simp add: q'_def)
  have wf: "qr_wf sz q'" using assms(1) z l by (simp add: qr_wf_def)
  have "pix q' x' y' = (if x' = x \<and> y' = y then b else pix q x' y')" if i': "in_code sz x' y'" for x' y'
  proof -
    let ?k = "cell sz x' y'"
    have e: "?k = ?i \<longleftrightarrow> x' = x \<and> y' = y" using cell_inj [OF i' assms(2)] by auto
    have n: "?i div 8 + 1 < length q" by (rule cell_byte [OF assms])
    have u: "uint (q ! 0) = sz" using assms(1) by (simp add: qr_wf_def)
    show ?thesis
    proof (cases "?k div 8 = ?i div 8")
      case True
      then have "?k mod 8 = ?i mod 8 \<longleftrightarrow> ?k = ?i" by (metis div_mult_mod_eq)
      then have "bit w (?k mod 8) = (if ?k = ?i then b else bit (q ! (?i div 8 + 1)) (?k mod 8))"
        unfolding w_def using bit_set_module [of "?i mod 8" "?k mod 8" "q ! (?i div 8 + 1)"] by (cases b) simp_all
      moreover have "pix q' x' y' = bit w (?k mod 8)" "pix q x' y' = bit (q ! (?i div 8 + 1)) (?k mod 8)"
        unfolding pix_def z u True using n by (simp_all add: q'_def)
      ultimately show ?thesis using e by simp
    next
      case False
      then have "?k \<noteq> ?i" by auto
      moreover have "pix q' x' y' = pix q x' y'" unfolding pix_def z u using False by (simp add: q'_def)
      ultimately show ?thesis using e by auto
    qed
  qed
  then show ?thesis using s wf l by simp
qed

section \<open>Painting\<close>

definition paints :: "int \<Rightarrow> (bytes \<Rightarrow> bytes option) \<Rightarrow> (int \<times> int) set \<Rightarrow> (int \<Rightarrow> int \<Rightarrow> bool) \<Rightarrow> bool" where
  "paints sz h A v = (\<forall>q. qr_wf sz q \<longrightarrow> runs (h q) (\<lambda>q'. qr_wf sz q' \<and> length q' = length q \<and>
     (\<forall>x y. in_code sz x y \<longrightarrow> pix q' x y = (if (x, y) \<in> A then v x y else pix q x y))))"

lemma paintsD:
  "paints sz h A v \<Longrightarrow> qr_wf sz q \<Longrightarrow> runs (h q) (\<lambda>q'. qr_wf sz q' \<and> length q' = length q \<and>
     (\<forall>x y. in_code sz x y \<longrightarrow> pix q' x y = (if (x, y) \<in> A then v x y else pix q x y)))"
  by (simp add: paints_def)

lemma paints_set: "in_code sz x y \<Longrightarrow> paints sz (setModule x y b) {(x, y)} (\<lambda>_ _. b)"
  using setModule_ok by (auto simp: paints_def elim!: runs_mono)

lemma paints_skip: "paints sz Some {} v"
  by (simp add: paints_def)

lemma paints_bind:
  assumes "paints sz h A v" and "paints sz k B w"
  shows "paints sz (\<lambda>q. h q \<bind> k) (A \<union> B) (\<lambda>x y. if (x, y) \<in> B then w x y else v x y)"
  unfolding paints_def
proof (intro allI impI)
  fix q
  assume "qr_wf sz q"
  from paintsD [OF assms(1) this] show "runs (h q \<bind> k) (\<lambda>q'. qr_wf sz q' \<and> length q' = length q \<and>
     (\<forall>x y. in_code sz x y \<longrightarrow> pix q' x y = (if (x, y) \<in> A \<union> B then if (x, y) \<in> B then w x y else v x y else pix q x y)))"
  proof (rule runs_bind)
    fix q1
    assume q1: "qr_wf sz q1 \<and> length q1 = length q \<and> (\<forall>x y. in_code sz x y \<longrightarrow> pix q1 x y = (if (x, y) \<in> A then v x y else pix q x y))"
    then show "runs (k q1) (\<lambda>q'. qr_wf sz q' \<and> length q' = length q \<and>
     (\<forall>x y. in_code sz x y \<longrightarrow> pix q' x y = (if (x, y) \<in> A \<union> B then if (x, y) \<in> B then w x y else v x y else pix q x y)))"
      using paintsD [OF assms(2), of q1] by (auto elim!: runs_mono)
  qed
qed

text \<open>Painting with one colour, in sequence and in a loop.\<close>

lemma paints_then: "paints sz h A (\<lambda>_ _. b) \<Longrightarrow> paints sz k B (\<lambda>_ _. b) \<Longrightarrow> paints sz (\<lambda>q. h q \<bind> k) (A \<union> B) (\<lambda>_ _. b)"
  using paints_bind [of sz h A "\<lambda>_ _. b" k B "\<lambda>_ _. b"] by simp

lemma paints_loop:
  "(\<And>x. x \<in> set xs \<Longrightarrow> paints sz (h x) (A x) (\<lambda>_ _. b)) \<Longrightarrow> paints sz (foldM h xs) (\<Union>x \<in> set xs. A x) (\<lambda>_ _. b)"
proof (induction xs)
  case Nil
  then show ?case using paints_skip [of sz "\<lambda>_ _. b"] by (simp add: paints_def)
next
  case (Cons x xs)
  have "foldM h (x # xs) = (\<lambda>q. h x q \<bind> foldM h xs)" by (rule ext) (simp split: option.split)
  then show ?case using paints_then [OF Cons.prems [of x] Cons.IH] Cons.prems by simp
qed

text \<open>Only where an operation paints, not what.\<close>

definition touches :: "int \<Rightarrow> (bytes \<Rightarrow> bytes option) \<Rightarrow> (int \<times> int) set \<Rightarrow> bool" where
  "touches sz h A = (\<forall>q. qr_wf sz q \<longrightarrow> runs (h q) (\<lambda>q'. qr_wf sz q' \<and> length q' = length q \<and>
     (\<forall>x y. in_code sz x y \<longrightarrow> (x, y) \<notin> A \<longrightarrow> pix q' x y = pix q x y)))"

lemma touchesD:
  "touches sz h A \<Longrightarrow> qr_wf sz q \<Longrightarrow> runs (h q) (\<lambda>q'. qr_wf sz q' \<and> length q' = length q \<and>
     (\<forall>x y. in_code sz x y \<longrightarrow> (x, y) \<notin> A \<longrightarrow> pix q' x y = pix q x y))"
  by (simp add: touches_def)

lemma touches_paints: "paints sz h A v \<Longrightarrow> touches sz h A"
  by (auto simp: touches_def paints_def elim!: runs_mono)

lemma touches_mono: "touches sz h A \<Longrightarrow> A \<subseteq> B \<Longrightarrow> touches sz h B"
  unfolding touches_def by (blast intro: runs_mono)

lemma touches_set: "in_code sz x y \<Longrightarrow> (x, y) \<in> A \<Longrightarrow> touches sz (setModule x y b) A"
  by (rule touches_mono [OF touches_paints [OF paints_set]]) auto

lemma touches_skip [simp]: "touches sz Some A"
  by (simp add: touches_def)

lemma touches_bind: "touches sz h A \<Longrightarrow> touches sz k A \<Longrightarrow> touches sz (\<lambda>q. h q \<bind> k) A"
  unfolding touches_def by (fastforce simp: runs_def)

lemma touches_loop: "(\<And>x. x \<in> set xs \<Longrightarrow> touches sz (h x) A) \<Longrightarrow> touches sz (foldM h xs) A"
proof (induction xs)
  case Nil
  have "foldM h [] = Some" by (rule ext) simp
  then show ?case by simp
next
  case (Cons x xs)
  have "foldM h (x # xs) = (\<lambda>q. h x q \<bind> foldM h xs)" by (rule ext) (simp split: option.split)
  then show ?case using touches_bind [OF Cons.prems [of x] Cons.IH] Cons.prems by simp
qed

section \<open>Bits of codewords\<close>

text \<open>Bit \<open>n\<close> of a sequence of bytes, most significant first.\<close>

definition codeword_bit :: "bytes \<Rightarrow> nat \<Rightarrow> bool" where
  "codeword_bit d n = bit (d ! (n div 8)) (7 - n mod 8)"

lemma getBit_codeword: "getBit (uint (d ! (i div 8))) (7 - i mod 8) = codeword_bit d i"
  for d :: bytes
proof -
  have "7 - i mod 8 < (8 :: nat)" by (rule le_less_trans [OF diff_le_self]) simp
  then show ?thesis by (simp add: getBit_bit codeword_bit_def bit_uint_iff)
qed

end
