(* ===== verification/Qr_Data.thy ===== *)
theory Qr_Data
  imports Qr_Code Qr_Grid Bit_Stream
begin

text \<open>
  The data of a code: the bit buffer, the segments and the data codewords. A buffer \<open>holds\<close> a bit
  string in its first bytes when the string is followed by zeros there; appending bits appends to
  the string.
\<close>

section \<open>The bit buffer\<close>

definition holds :: "nat \<Rightarrow> nat \<Rightarrow> bool list \<Rightarrow> bitbuf \<Rightarrow> bool" where
  "holds L M bs = (\<lambda>(buf, n). length buf = L \<and> M \<le> L \<and> n = length bs \<and> n \<le> 8 * M \<and>
     (\<forall>k < 8 * M. codeword_bit buf k = (k < n \<and> bs ! k)))"

lemma bit_or_push:
  assumes "\<And>k. bit (x :: u8) k \<longleftrightarrow> k = 0 \<and> b" and "j < 8"
  shows "bit (w OR push_bit m x) j \<longleftrightarrow> bit w j \<or> j = m \<and> b"
  using assms(2) by (auto simp: bit_or_iff bit_push_bit_iff assms(1))

lemma append_bit_holds:
  assumes h: "holds L M bs b" and "length bs < 8 * M"
  shows "runs (append_bit val i b) (holds L M (bs @ [bit val i]))"
proof -
  obtain buf n where b: "b = (buf, n)" by force
  have B: "length buf = L" "M \<le> L" "n = length bs" "\<And>k. k < 8 * M \<Longrightarrow> codeword_bit buf k = (k < n \<and> bs ! k)"
    using h by (simp_all add: holds_def b)
  define w where "w = (buf ! (n div 8)) OR push_bit (7 - n mod 8) (ucast (drop_bit i val AND 1))"
  have n: "n div 8 < length buf" using assms(2) B by linarith
  have one: "bit (ucast (drop_bit i val AND 1) :: u8) k \<longleftrightarrow> k = 0 \<and> bit val i" for k
    by (auto simp: bit_ucast_iff bit_and_iff bit_drop_bit_eq bit_1_iff)
  have "codeword_bit (buf[n div 8 := w]) k = (k < Suc n \<and> (bs @ [bit val i]) ! k)" if k: "k < 8 * M" for k
  proof (cases "k div 8 = n div 8")
    case True
    have pos: "7 - k mod 8 = 7 - n mod 8 \<longleftrightarrow> k = n"
    proof
      assume "7 - k mod 8 = 7 - n mod 8"
      moreover have "k mod 8 \<le> 7" "n mod 8 \<le> 7" by (simp_all add: less_Suc_eq_le [symmetric])
      ultimately have "k mod 8 = n mod 8" by linarith
      then show "k = n" using True by (metis div_mult_mod_eq)
    qed simp
    have "7 - k mod 8 < (8 :: nat)" by (rule le_less_trans [OF diff_le_self]) simp
    then have "bit w (7 - k mod 8) = (bit (buf ! (n div 8)) (7 - k mod 8) \<or> k = n \<and> bit val i)"
      unfolding w_def using bit_or_push [OF one] pos by simp
    then show ?thesis
      using True n B(4) [OF k] B(3) by (auto simp: codeword_bit_def nth_append less_Suc_eq)
  next
    case False
    then have "k \<noteq> n" by auto
    then show ?thesis using False B(4) [OF k] B(3) by (auto simp: codeword_bit_def nth_append less_Suc_eq)
  qed
  then have "holds L M (bs @ [bit val i]) (buf[n div 8 := w], n + 1)" using B assms(2) by (simp add: holds_def)
  then show ?thesis using n by (simp add: append_bit_def b w_def)
qed

lemma rev_upt_nbits: "map (bit val) (rev [0..<n]) = nbits n val"
  by (induction n) simp_all

lemma append_bits_holds:
  assumes "holds L M bs b" and "length bs + length is \<le> 8 * M"
  shows "runs (foldM (append_bit val) is b) (holds L M (bs @ map (bit val) is))"
  using assms
proof (induction "is" arbitrary: bs b)
  case (Cons i "is")
  then have "runs (append_bit val i b) (holds L M (bs @ [bit val i]))" by (intro append_bit_holds) simp_all
  then obtain b' where "append_bit val i b = Some b'" "holds L M (bs @ [bit val i]) b'" by (auto simp: runs_def)
  then show ?case using Cons.IH [of "bs @ [bit val i]" b'] Cons.prems(2) by simp
qed simp

lemma drop_bit_small: "unat (val :: u32) < 2 ^ n \<Longrightarrow> drop_bit n val = 0"
  unfolding word_unat_eq_iff unat_drop_bit_eq by (simp add: drop_bit_eq_div)

lemma appendBits_holds:
  assumes "holds L M bs b" and "n \<le> 16" and "unat val < 2 ^ n" and "length bs + n \<le> 8 * M"
  shows "runs (appendBitsToBuffer val n b) (holds L M (bs @ nbits n val))"
  using append_bits_holds [OF assms(1), of "rev [0..<n]" val] assms(2-4)
  by (simp add: appendBitsToBuffer_def drop_bit_small rev_upt_nbits)

lemma memset0_holds: "M \<le> length buf \<Longrightarrow> \<exists>b. memset0 buf M = Some b \<and> holds (length buf) M [] (b, 0)"
  by (auto simp: memset0_def holds_def codeword_bit_def nth_append)

section \<open>Numeric and alphanumeric segments\<close>

definition digit :: "u8 \<Rightarrow> u32" where "digit c = ucast (c - 48)"

fun numeric_bits :: "bytes \<Rightarrow> bool list" where
  "numeric_bits (a # b # c # ds) = nbits 10 ((digit a * 10 + digit b) * 10 + digit c) @ numeric_bits ds"
| "numeric_bits [a, b] = nbits 7 (digit a * 10 + digit b)"
| "numeric_bits [a] = nbits 4 (digit a)"
| "numeric_bits [] = []"

lemma length_numeric_bits: "length (numeric_bits ds) = (length ds * 10 + 2) div 3"
  by (induction ds rule: numeric_bits.induct) simp_all

lemma digit_bound: "48 \<le> c \<Longrightarrow> c \<le> 57 \<Longrightarrow> unat (digit c) \<le> 9"
proof -
  assume "48 \<le> c" "c \<le> 57"
  then have "unat (c - 48) = unat c - 48" "unat c \<le> 57" by (simp_all add: unat_sub word_le_nat_alt)
  then show ?thesis by (simp add: digit_def unsigned_ucast_eq take_bit_nat_eq_self)
qed

lemma unat_accum:
  fixes x y :: u32
  assumes "unat x \<le> a" and "unat y \<le> b" and "a * k + b < 2 ^ 32" and "k < 2 ^ 32"
  shows "unat (x * of_nat k + y) = unat x * k + unat y"
proof -
  have k: "unat (of_nat k :: u32) = k" using assms(4) by (intro unat_of_nat_small) simp
  have "unat x * k \<le> a * k" using assms(1) by simp
  then have s: "unat x * k + unat y < 2 ^ 32" using assms(2,3) by linarith
  then have "unat (x * of_nat k) = unat x * k" unfolding unat_word_ariths(2) k by (intro mod_less) simp
  then show ?thesis using s unfolding unat_word_ariths(1) by simp
qed

definition numeric_end :: "u32 \<times> nat \<times> bitbuf \<Rightarrow> bitbuf option" where
  "numeric_end = (\<lambda>(acc, cnt, b). if 0 < cnt then appendBitsToBuffer acc (cnt * 3 + 1) b else Some b)"

abbreviation is_digit :: "u8 \<Rightarrow> bool" where
  "is_digit c \<equiv> 48 \<le> c \<and> c \<le> 57"

lemma two_digits: "is_digit a \<Longrightarrow> is_digit b \<Longrightarrow> unat (digit a * 10 + digit b) \<le> 99"
  using unat_accum [of "digit a" 9 "digit b" 9 10] digit_bound [of a] digit_bound [of b] by simp

lemma three_digits: "is_digit a \<Longrightarrow> is_digit b \<Longrightarrow> is_digit c \<Longrightarrow> unat ((digit a * 10 + digit b) * 10 + digit c) \<le> 999"
  using unat_accum [of "digit a * 10 + digit b" 99 "digit c" 9 10] two_digits [of a b] digit_bound [of c] by simp

lemma numeric_holds:
  assumes "list_all is_digit ds" and "holds L M bs b" and "length bs + length (numeric_bits ds) \<le> 8 * M"
  shows "runs (numeric_loop ds 0 0 b \<bind> numeric_end) (holds L M (bs @ numeric_bits ds))"
  using assms
proof (induction ds arbitrary: bs b rule: numeric_bits.induct)
  case (1 x y z ds)
  let ?v = "(digit x * 10 + digit y) * 10 + digit z"
  have v: "unat ?v < 2 ^ 10" using three_digits [of x y z] 1(2) by simp
  have "runs (appendBitsToBuffer ?v 10 b) (holds L M (bs @ nbits 10 ?v))" using 1 v by (intro appendBits_holds) simp_all
  then obtain b' where b': "appendBitsToBuffer ?v 10 b = Some b'" "holds L M (bs @ nbits 10 ?v) b'" by (auto simp: runs_def)
  have "numeric_loop (x # y # z # ds) 0 0 b = numeric_loop ds 0 0 b'"
    using 1(2) b'(1) by (simp add: Let_def digit_def [symmetric])
  then show ?case using 1(1) [OF _ b'(2)] 1(2,4) by simp
next
  case (2 x y)
  have "unat (digit x * 10 + digit y) < 2 ^ 7" using two_digits [of x y] 2(1) by simp
  then have "runs (appendBitsToBuffer (digit x * 10 + digit y) 7 b) (holds L M (bs @ nbits 7 (digit x * 10 + digit y)))"
    using 2 by (intro appendBits_holds) simp_all
  then show ?case using 2(1) by (simp add: Let_def digit_def [symmetric] numeric_end_def)
next
  case (3 x)
  have "unat (digit x) < 2 ^ 4" using digit_bound [of x] 3(1) by simp
  then have "runs (appendBitsToBuffer (digit x) 4 b) (holds L M (bs @ nbits 4 (digit x)))" using 3 by (intro appendBits_holds) simp_all
  then show ?case using 3(1) by (simp add: Let_def digit_def [symmetric] numeric_end_def)
qed (simp add: numeric_end_def)

definition alnum :: "u8 \<Rightarrow> u32" where "alnum c = of_nat (char_pos ALPHANUMERIC_CHARSET c)"

fun alphanumeric_bits :: "bytes \<Rightarrow> bool list" where
  "alphanumeric_bits (a # b # cs) = nbits 11 (alnum a * 45 + alnum b) @ alphanumeric_bits cs"
| "alphanumeric_bits [a] = nbits 6 (alnum a)"
| "alphanumeric_bits [] = []"

lemma length_alphanumeric_bits: "length (alphanumeric_bits ds) = (length ds * 11 + 1) div 2"
  by (induction ds rule: alphanumeric_bits.induct) simp_all

definition alphanumeric_end :: "u32 \<times> nat \<times> bitbuf \<Rightarrow> bitbuf option" where
  "alphanumeric_end = (\<lambda>(acc, cnt, b). if 0 < cnt then appendBitsToBuffer acc 6 b else Some b)"

lemma alnum_bound: "c \<in> set ALPHANUMERIC_CHARSET \<Longrightarrow> unat (alnum c) \<le> 44"
proof -
  assume "c \<in> set ALPHANUMERIC_CHARSET"
  then have "char_pos ALPHANUMERIC_CHARSET c < length ALPHANUMERIC_CHARSET"
    by (rule char_pos_less)
  moreover have "length ALPHANUMERIC_CHARSET = 45" by (simp add: ALPHANUMERIC_CHARSET_def)
  ultimately show ?thesis unfolding alnum_def by (simp add: unat_of_nat_small)
qed

lemma two_alnum: "a \<in> set ALPHANUMERIC_CHARSET \<Longrightarrow> b \<in> set ALPHANUMERIC_CHARSET \<Longrightarrow> unat (alnum a * 45 + alnum b) \<le> 2024"
  using unat_accum [of "alnum a" 44 "alnum b" 44 45] alnum_bound [of a] alnum_bound [of b] by simp

lemma alphanumeric_holds:
  assumes "list_all (\<lambda>c. c \<in> set ALPHANUMERIC_CHARSET) cs" and "holds L M bs b" and "length bs + length (alphanumeric_bits cs) \<le> 8 * M"
  shows "runs (alphanumeric_loop cs 0 0 b \<bind> alphanumeric_end) (holds L M (bs @ alphanumeric_bits cs))"
  using assms
proof (induction cs arbitrary: bs b rule: alphanumeric_bits.induct)
  case (1 x y cs)
  let ?v = "alnum x * 45 + alnum y"
  have v: "unat ?v < 2 ^ 11" using two_alnum [of x y] 1(2) by simp
  have "runs (appendBitsToBuffer ?v 11 b) (holds L M (bs @ nbits 11 ?v))" using 1 v by (intro appendBits_holds) simp_all
  then obtain b' where b': "appendBitsToBuffer ?v 11 b = Some b'" "holds L M (bs @ nbits 11 ?v) b'" by (auto simp: runs_def)
  have "alphanumeric_loop (x # y # cs) 0 0 b = alphanumeric_loop cs 0 0 b'"
    using 1(2) b'(1) by (simp add: Let_def alnum_def [symmetric])
  then show ?case using 1(1) [OF _ b'(2)] 1(2,4) by simp
next
  case (2 x)
  have "unat (alnum x) < 2 ^ 6" using alnum_bound [of x] 2(1) by simp
  then have "runs (appendBitsToBuffer (alnum x) 6 b) (holds L M (bs @ nbits 6 (alnum x)))" using 2 by (intro appendBits_holds) simp_all
  then show ?case using 2(1) by (simp add: Let_def alnum_def [symmetric] alphanumeric_end_def)
qed (simp add: alphanumeric_end_def)

section \<open>Segments\<close>

definition seg_stream :: "qrcodegen_Segment \<Rightarrow> bool list" where
  "seg_stream seg = map (codeword_bit (seg_data seg)) [0..<bitLength seg]"

definition seg_is :: "qrcodegen_Mode \<Rightarrow> nat \<Rightarrow> bool list \<Rightarrow> nat \<Rightarrow> qrcodegen_Segment \<Rightarrow> bool" where
  "seg_is m n bs L seg = (mode seg = m \<and> numChars seg = n \<and> bitLength seg = length bs \<and> length (seg_data seg) = L \<and> seg_stream seg = bs)"

lemma holds_stream: "holds L M bs (buf, n) \<Longrightarrow> map (codeword_bit buf) [0..<n] = bs"
  by (rule nth_equalityI) (auto simp: holds_def)

lemma round_up: "n \<le> 8 * ((n + 7) div 8)" for n :: nat
  by linarith

lemma makeNumeric_ok:
  assumes "list_all is_digit ds" and "length (numeric_bits ds) \<le> INT16_MAX" and "(length (numeric_bits ds) + 7) div 8 \<le> length buf"
    and "length ds \<le> INT16_MAX"
  shows "runs (qrcodegen_makeNumeric ds buf) (seg_is Mode_NUMERIC (length ds) (numeric_bits ds) (length buf))"
proof -
  let ?n = "length (numeric_bits ds)"
  let ?M = "(?n + 7) div 8"
  have c: "calcSegmentBitLength Mode_NUMERIC (length ds) = Some (int ?n)"
    using assms(2,4) by (simp add: calcSegmentBitLength_def length_numeric_bits)
  obtain buf' where b: "(if 0 < ?n then memset0 buf ?M else Some buf) = Some buf'" "holds (length buf) ?M [] (buf', 0)"
    using memset0_holds [OF assms(3)] by (cases "0 < ?n") (auto simp: holds_def)
  obtain r where r: "numeric_loop ds 0 0 (buf', 0) \<bind> numeric_end = Some r" "holds (length buf) ?M (numeric_bits ds) r"
    using numeric_holds [OF assms(1) b(2)] round_up [of ?n] by (auto simp: runs_def)
  obtain q n where rn: "r = (q, n)" by force
  have n: "n = ?n" "length q = length buf" using r(2) by (simp_all add: holds_def rn)
  obtain acc cnt b' where l: "numeric_loop ds 0 0 (buf', 0) = Some (acc, cnt, b')" "numeric_end (acc, cnt, b') = Some r"
    using r(1) by (auto simp: bind_eq_Some_conv)
  have "qrcodegen_makeNumeric ds buf = Some \<lparr>mode = Mode_NUMERIC, numChars = length ds, seg_data = q, bitLength = n\<rparr>"
    unfolding qrcodegen_makeNumeric_def c using b(1) l(1) l(2) [unfolded numeric_end_def] n
    by (cases "numeric_bits ds = []"; cases "0 < cnt"; simp add: rn)
  then show ?thesis using r(2) n holds_stream by (auto simp: seg_is_def seg_stream_def rn)
qed

lemma makeAlphanumeric_ok:
  assumes "list_all (\<lambda>c. c \<in> set ALPHANUMERIC_CHARSET) cs" and "length (alphanumeric_bits cs) \<le> INT16_MAX"
    and "(length (alphanumeric_bits cs) + 7) div 8 \<le> length buf" and "length cs \<le> INT16_MAX"
  shows "runs (qrcodegen_makeAlphanumeric cs buf) (seg_is Mode_ALPHANUMERIC (length cs) (alphanumeric_bits cs) (length buf))"
proof -
  let ?n = "length (alphanumeric_bits cs)"
  let ?M = "(?n + 7) div 8"
  have c: "calcSegmentBitLength Mode_ALPHANUMERIC (length cs) = Some (int ?n)"
    using assms(2,4) by (simp add: calcSegmentBitLength_def length_alphanumeric_bits)
  obtain buf' where b: "(if 0 < ?n then memset0 buf ?M else Some buf) = Some buf'" "holds (length buf) ?M [] (buf', 0)"
    using memset0_holds [OF assms(3)] by (cases "0 < ?n") (auto simp: holds_def)
  obtain r where r: "alphanumeric_loop cs 0 0 (buf', 0) \<bind> alphanumeric_end = Some r" "holds (length buf) ?M (alphanumeric_bits cs) r"
    using alphanumeric_holds [OF assms(1) b(2)] round_up [of ?n] by (auto simp: runs_def)
  obtain q n where rn: "r = (q, n)" by force
  have n: "n = ?n" "length q = length buf" using r(2) by (simp_all add: holds_def rn)
  obtain acc cnt b' where l: "alphanumeric_loop cs 0 0 (buf', 0) = Some (acc, cnt, b')" "alphanumeric_end (acc, cnt, b') = Some r"
    using r(1) by (auto simp: bind_eq_Some_conv)
  have "qrcodegen_makeAlphanumeric cs buf = Some \<lparr>mode = Mode_ALPHANUMERIC, numChars = length cs, seg_data = q, bitLength = n\<rparr>"
    unfolding qrcodegen_makeAlphanumeric_def c using b(1) l(1) l(2) [unfolded alphanumeric_end_def] n
    by (cases "alphanumeric_bits cs = []"; cases "0 < cnt"; simp add: rn)
  then show ?thesis using r(2) n holds_stream by (auto simp: seg_is_def seg_stream_def rn)
qed

lemma byte_stream: "map (codeword_bit d) [0..<8 * length d] = bits_of 8 d"
proof (induction d rule: rev_induct)
  case (snoc x d)
  have "map (codeword_bit (d @ [x])) [0..<8 * length d] = map (codeword_bit d) [0..<8 * length d]"
    by (rule map_cong) (auto simp: codeword_bit_def nth_append)
  moreover have "map (codeword_bit (d @ [x])) [8 * length d..<8 * length d + 8] = nbits 8 x"
    by (rule nth_equalityI) (auto simp: codeword_bit_def nth_append nth_nbits)
  moreover have "[0..<8 * length (d @ [x])] = [0..<8 * length d] @ [8 * length d..<8 * length d + 8]"
    using upt_add_eq_append [of 0 "8 * length d" 8] by (simp add: add.commute)
  ultimately show ?case using snoc by (simp add: bits_of_def)
qed (simp add: bits_of_def)

lemma byte_segment:
  assumes "length d \<le> length buf"
  shows "seg_is Mode_BYTE (length d) (bits_of 8 d) (length buf) \<lparr>mode = Mode_BYTE, numChars = length d, seg_data = memcpy_at buf 0 d, bitLength = 8 * length d\<rparr>"
proof -
  have "map (codeword_bit (d @ drop (length d) buf)) [0..<8 * length d] = map (codeword_bit d) [0..<8 * length d]"
    by (rule map_cong) (auto simp: codeword_bit_def nth_append)
  moreover have "length (bits_of 8 d) = 8 * length d" using byte_stream [of d, symmetric] by simp
  ultimately show ?thesis using assms byte_stream by (simp add: seg_is_def seg_stream_def)
qed

text \<open>The mode and the bits a text is given; what does not fit the buffer is refused.\<close>

definition text_mode :: "bytes \<Rightarrow> qrcodegen_Mode" where
  "text_mode str = (if qrcodegen_isNumeric str then Mode_NUMERIC else if qrcodegen_isAlphanumeric str then Mode_ALPHANUMERIC else Mode_BYTE)"

definition text_bits :: "bytes \<Rightarrow> bool list" where
  "text_bits str =
     (case text_mode str of Mode_NUMERIC \<Rightarrow> numeric_bits str | Mode_ALPHANUMERIC \<Rightarrow> alphanumeric_bits str | _ \<Rightarrow> bits_of 8 str)"

lemma numeric_digits: "qrcodegen_isNumeric str \<longleftrightarrow> list_all is_digit str"
  by (simp add: qrcodegen_isNumeric_def not_less)

lemma calc_numeric:
  assumes "length str \<le> 4000"
  shows "qrcodegen_calcSegmentBufferSize Mode_NUMERIC (length str) = Some ((length (numeric_bits str) + 7) div 8)"
    and "length (numeric_bits str) \<le> INT16_MAX" and "(length (numeric_bits str) + 7) div 8 \<le> length str"
proof -
  have "(length str * 10 + 2) div 3 \<le> 32767" "((length str * 10 + 2) div 3 + 7) div 8 \<le> length str" using assms by linarith+
  then show "qrcodegen_calcSegmentBufferSize Mode_NUMERIC (length str) = Some ((length (numeric_bits str) + 7) div 8)"
    "length (numeric_bits str) \<le> INT16_MAX" "(length (numeric_bits str) + 7) div 8 \<le> length str"
    using assms by (simp_all add: qrcodegen_calcSegmentBufferSize_def calcSegmentBitLength_def length_numeric_bits INT16_MAX_def)
qed

lemma calc_alphanumeric:
  assumes "length str \<le> 4000"
  shows "qrcodegen_calcSegmentBufferSize Mode_ALPHANUMERIC (length str) = Some ((length (alphanumeric_bits str) + 7) div 8)"
    and "length (alphanumeric_bits str) \<le> INT16_MAX" and "(length (alphanumeric_bits str) + 7) div 8 \<le> length str"
proof -
  have "(length str * 11 + 1) div 2 \<le> 32767" "((length str * 11 + 1) div 2 + 7) div 8 \<le> length str" using assms by linarith+
  then show "qrcodegen_calcSegmentBufferSize Mode_ALPHANUMERIC (length str) = Some ((length (alphanumeric_bits str) + 7) div 8)"
    "length (alphanumeric_bits str) \<le> INT16_MAX" "(length (alphanumeric_bits str) + 7) div 8 \<le> length str"
    using assms by (simp_all add: qrcodegen_calcSegmentBufferSize_def calcSegmentBitLength_def length_alphanumeric_bits INT16_MAX_def)
qed

lemma text_segment_ok:
  assumes "length str \<le> L" and "length buf = L" and "L \<le> 4000"
  shows "\<exists>seg. text_segment str L buf = Some (Some seg) \<and> seg_is (text_mode str) (length str) (text_bits str) L seg"
proof -
  have n: "length str \<le> 4000" "length str \<le> INT16_MAX" using assms by (simp_all add: INT16_MAX_def)
  consider "qrcodegen_isNumeric str" | "\<not> qrcodegen_isNumeric str" "qrcodegen_isAlphanumeric str"
    | "\<not> qrcodegen_isNumeric str" "\<not> qrcodegen_isAlphanumeric str" by blast
  then show ?thesis
  proof cases
    case 1
    note c = calc_numeric [OF n(1)]
    have "runs (qrcodegen_makeNumeric str buf) (seg_is Mode_NUMERIC (length str) (numeric_bits str) (length buf))"
      using 1 c assms n by (intro makeNumeric_ok) (simp_all add: numeric_digits)
    then show ?thesis using 1 c assms by (auto simp: text_segment_def text_mode_def text_bits_def runs_def)
  next
    case 2
    note c = calc_alphanumeric [OF n(1)]
    have "runs (qrcodegen_makeAlphanumeric str buf) (seg_is Mode_ALPHANUMERIC (length str) (alphanumeric_bits str) (length buf))"
      using 2 c assms n by (intro makeAlphanumeric_ok) (simp_all add: qrcodegen_isAlphanumeric_def)
    then show ?thesis using 2 c assms by (auto simp: text_segment_def text_mode_def text_bits_def runs_def)
  next
    case 3
    have "calcSegmentBitLength Mode_BYTE (length str) = Some (int (8 * length str))"
      using n by (simp add: calcSegmentBitLength_def INT16_MAX_def)
    then show ?thesis using 3 assms byte_segment [of str buf] by (simp add: text_segment_def text_mode_def text_bits_def nat_mult_distrib)
  qed
qed

end
