(* ===== verification/Qr_Fill.thy ===== *)
theory Qr_Fill
  imports Qr_Data
begin

text \<open>
  From segments to data codewords: the version chosen, the bit string of the segments, terminator and
  padding. \<open>data_stream\<close> is what the standard prescribes for the data part of a code.
\<close>

section \<open>Lengths\<close>

definition count_bits :: "qrcodegen_Mode \<Rightarrow> int \<Rightarrow> nat" where
  "count_bits m v = the (numCharCountBits m v)"

definition seg_ok :: "qrcodegen_Segment \<Rightarrow> bool" where
  "seg_ok seg = (numChars seg \<le> INT16_MAX \<and> bitLength seg \<le> INT16_MAX \<and> bitLength seg \<le> 8 * length (seg_data seg))"

definition seg_code :: "int \<Rightarrow> qrcodegen_Segment \<Rightarrow> bool list" where
  "seg_code v seg = nbits 4 (mode_bits (mode seg)) @ nbits (count_bits (mode seg) v) (of_nat (numChars seg) :: u32) @ seg_stream seg"

definition segs_code :: "int \<Rightarrow> qrcodegen_Segment list \<Rightarrow> bool list" where
  "segs_code v segs = concat (map (seg_code v) segs)"

lemma length_seg_code: "length (seg_code v seg) = 4 + count_bits (mode seg) v + bitLength seg"
  by (simp add: seg_code_def seg_stream_def)

lemma count_bits_ok:
  assumes "1 \<le> v" and "v \<le> 40"
  shows "numCharCountBits m v = Some (count_bits m v)" and "count_bits m v \<le> 16"
proof -
  have "nat ((v + 7) div 17) < 3" using assms by linarith
  then have "nat ((v + 7) div 17) \<in> {0, 1, 2}" by auto
  then show "numCharCountBits m v = Some (count_bits m v)" "count_bits m v \<le> 16"
    using assms by (cases m; auto simp: count_bits_def numCharCountBits_def qrcodegen_VERSION_MIN_def qrcodegen_VERSION_MAX_def Let_def)+
qed

lemma total_bits_ok:
  assumes v: "1 \<le> v" "v \<le> 40"
  shows "\<forall>seg \<in> set segs. seg_ok seg \<Longrightarrow> acc \<le> INT16_MAX \<Longrightarrow>
    \<exists>t. total_bits segs v acc = Some t \<and>
      (if (\<forall>seg \<in> set segs. numChars seg < 2 ^ count_bits (mode seg) v) \<and> acc + length (segs_code v segs) \<le> INT16_MAX
       then t = int (acc + length (segs_code v segs)) else t = -1)"
proof (induction segs arbitrary: acc)
  case Nil
  then show ?case by (simp add: segs_code_def)
next
  case (Cons seg segs)
  let ?r = "acc + (4 + count_bits (mode seg) v + bitLength seg)"
  have ok: "seg_ok seg" using Cons.prems by simp
  note c = count_bits_ok [OF v, of "mode seg"]
  have len: "length (segs_code v (seg # segs)) = 4 + count_bits (mode seg) v + bitLength seg + length (segs_code v segs)"
    by (simp add: segs_code_def length_seg_code)
  show ?case
  proof (cases "2 ^ count_bits (mode seg) v \<le> numChars seg \<or> INT16_MAX < ?r")
    case True
    then have "total_bits (seg # segs) v acc = Some (-1)" using ok c by (auto simp: seg_ok_def Let_def)
    then show ?thesis using True len by auto
  next
    case False
    then have "total_bits (seg # segs) v acc = total_bits segs v ?r" using ok c by (simp add: seg_ok_def Let_def)
    moreover obtain t where "total_bits segs v ?r = Some t"
      "if (\<forall>seg \<in> set segs. numChars seg < 2 ^ count_bits (mode seg) v) \<and> ?r + length (segs_code v segs) \<le> INT16_MAX
       then t = int (?r + length (segs_code v segs)) else t = -1"
      using Cons.IH [of ?r] Cons.prems(1) False by force
    ultimately show ?thesis using False len by (auto simp del: total_bits.simps)
  qed
qed

lemma getTotalBits_ok:
  assumes "1 \<le> v" and "v \<le> 40" and "\<forall>seg \<in> set segs. seg_ok seg"
  obtains t where "getTotalBits segs v = Some t"
    "t = (if (\<forall>seg \<in> set segs. numChars seg < 2 ^ count_bits (mode seg) v) \<and> length (segs_code v segs) \<le> INT16_MAX
       then int (length (segs_code v segs)) else -1)"
  using total_bits_ok [OF assms(1,2), of segs 0] assms(3) by (force simp: getTotalBits_def simp del: total_bits.simps)

section \<open>The tables\<close>

text \<open>What the tables give for each version and level: \<open>raw\<close> codewords, \<open>words\<close> of them for data, in
  blocks with \<open>el\<close> codewords for error correction each.\<close>

definition raw_words :: "int \<Rightarrow> int" where "raw_words v = the (getNumRawDataModules v) div 8"

definition table_ok :: "qrcodegen_Ecc \<Rightarrow> int \<Rightarrow> bool" where
  "table_ok ecl v = (getNumDataCodewords v ecl = Some (raw_words v - ecc_per_block ecl v * ecc_blocks ecl v) \<and>
     1 \<le> ecc_blocks ecl v \<and> 1 \<le> ecc_per_block ecl v \<and> ecc_per_block ecl v \<le> 30 \<and>
     ecc_per_block ecl v + 1 \<le> raw_words v div ecc_blocks ecl v \<and>
     raw_words v + 1 \<le> int (qrcodegen_BUFFER_LEN_FOR_VERSION v))"

lemma tables:
  assumes "1 \<le> v" and "v \<le> 40"
  shows "table_ok ecl v"
proof -
  have "list_all (\<lambda>ecl. list_all (table_ok ecl) [1..40]) [Ecc_LOW, Ecc_MEDIUM, Ecc_QUARTILE, Ecc_HIGH]"
    by code_simp
  then have "list_all (table_ok ecl) [1..40]" by (cases ecl) simp_all
  then show ?thesis unfolding list_all_iff set_upto using assms by simp
qed

definition data_words :: "int \<Rightarrow> qrcodegen_Ecc \<Rightarrow> int" where
  "data_words v ecl = raw_words v - ecc_per_block ecl v * ecc_blocks ecl v"

lemma getNumDataCodewords_ok:
  assumes "1 \<le> v" and "v \<le> 40"
  shows "getNumDataCodewords v ecl = Some (data_words v ecl)" and "1 \<le> data_words v ecl" and "data_words v ecl \<le> raw_words v"
proof -
  note t = tables [OF assms, of ecl, unfolded table_ok_def]
  let ?b = "ecc_blocks ecl v" and ?e = "ecc_per_block ecl v"
  show "getNumDataCodewords v ecl = Some (data_words v ecl)" using t by (simp add: data_words_def)
  have "(?e + 1) * ?b \<le> raw_words v div ?b * ?b" using t by (intro mult_right_mono) simp_all
  also have "\<dots> \<le> raw_words v" using t div_mult_mod_eq [of "raw_words v" ?b] pos_mod_sign [of ?b "raw_words v"] by linarith
  finally show "1 \<le> data_words v ecl" using t by (simp add: data_words_def distrib_right)
  have "0 \<le> ?e * ?b" using t by simp
  then show "data_words v ecl \<le> raw_words v" by (simp add: data_words_def)
qed

section \<open>Choice of the version and the level\<close>

definition fits_version :: "qrcodegen_Segment list \<Rightarrow> qrcodegen_Ecc \<Rightarrow> int \<Rightarrow> bool" where
  "fits_version segs ecl v = ((\<forall>seg \<in> set segs. numChars seg < 2 ^ count_bits (mode seg) v) \<and>
     int (length (segs_code v segs)) \<le> 8 * data_words v ecl)"

definition found_ok :: "qrcodegen_Segment list \<Rightarrow> qrcodegen_Ecc \<Rightarrow> int \<Rightarrow> int \<Rightarrow> (int \<times> nat) option \<Rightarrow> bool" where
  "found_ok segs ecl lo hi r =
     (case r of None \<Rightarrow> \<forall>u. lo \<le> u \<and> u \<le> hi \<longrightarrow> \<not> fits_version segs ecl u
      | Some (v, n) \<Rightarrow> lo \<le> v \<and> v \<le> hi \<and> fits_version segs ecl v \<and> n = length (segs_code v segs) \<and>
          (\<forall>u. lo \<le> u \<and> u < v \<longrightarrow> \<not> fits_version segs ecl u))"

lemma capacity_bound:
  assumes v: "1 \<le> v" "v \<le> 40"
  shows "8 * data_words v ecl \<le> int INT16_MAX"
proof -
  have "getNumDataCodewords v ecl \<noteq> None" using getNumDataCodewords_ok(1) [OF v] by simp
  then obtain raw where "getNumRawDataModules v = Some raw" by (cases "getNumRawDataModules v") (simp_all add: getNumDataCodewords_def)
  moreover from this have "raw \<le> 29648" by (auto simp: getNumRawDataModules_def Let_def split: if_splits)
  ultimately have "raw_words v \<le> 3706" unfolding raw_words_def by simp
  then show ?thesis using getNumDataCodewords_ok(3) [OF v, of ecl] by (simp add: INT16_MAX_def)
qed

lemma find_version_ok:
  assumes "1 \<le> lo" and "lo \<le> hi" and "hi \<le> 40" and "\<forall>seg \<in> set segs. seg_ok seg"
  shows "runs (find_version segs ecl lo hi) (found_ok segs ecl lo hi)"
  using assms
proof (induction segs ecl lo hi rule: find_version.induct)
  case (1 segs ecl lo hi)
  then have v: "1 \<le> lo" "lo \<le> 40" by simp_all
  note w = getNumDataCodewords_ok [OF v, of ecl]
  obtain t where t: "getTotalBits segs lo = Some t"
    "t = (if (\<forall>seg \<in> set segs. numChars seg < 2 ^ count_bits (mode seg) lo) \<and> length (segs_code lo segs) \<le> INT16_MAX
       then int (length (segs_code lo segs)) else -1)"
    using getTotalBits_ok [OF v 1(5)] by metis
  have fit: "t \<noteq> -1 \<and> t \<le> data_words lo ecl * 8 \<longleftrightarrow> fits_version segs ecl lo"
    using capacity_bound [OF v, of ecl] unfolding t(2) fits_version_def by auto
  show ?case
  proof (cases "fits_version segs ecl lo")
    case True
    then have "find_version segs ecl lo hi = Some (Some (lo, nat t))" using w(1) t(1) fit by (subst find_version.simps) simp
    moreover have "nat t = length (segs_code lo segs)" using True fit t(2) by (auto split: if_splits)
    ultimately show ?thesis using True 1(3) by (auto simp: found_ok_def)
  next
    case False
    then have u: "\<not> fits_version segs ecl u" if "lo \<le> u" "u \<le> hi" "hi \<le> lo \<or> u < lo + 1" for u using that by (cases "u = lo") auto
    show ?thesis
    proof (cases "hi \<le> lo")
      case True
      then have "find_version segs ecl lo hi = Some None" using w(1) t(1) False fit by (subst find_version.simps) simp
      then show ?thesis using u True by (simp add: found_ok_def)
    next
      case hi: False
      then have "find_version segs ecl lo hi = find_version segs ecl (lo + 1) hi" using w(1) t(1) False fit by (subst find_version.simps) auto
      moreover have "runs (find_version segs ecl (lo + 1) hi) (found_ok segs ecl (lo + 1) hi)"
        using 1(1) [OF w(1) t(1)] False fit hi 1(2-5) by simp
      moreover have "found_ok segs ecl (lo + 1) hi r \<Longrightarrow> found_ok segs ecl lo hi r" for r
        using False by (cases r) (auto simp: found_ok_def, metis order_le_less zless_imp_add1_zle, metis order_le_less zless_imp_add1_zle)
      ultimately show ?thesis by (auto elim!: runs_mono)
    qed
  qed
qed

lemma boost_ok:
  assumes v: "1 \<le> v" "v \<le> 40" and "fits_version segs ecl v" and n: "n = length (segs_code v segs)"
  shows "runs (foldM (boost_step b v n) es ecl) (\<lambda>ecl. fits_version segs ecl v)"
proof (rule runs_foldM)
  fix i ecl
  assume "fits_version segs ecl v"
  then show "runs (boost_step b v n i ecl) (\<lambda>ecl. fits_version segs ecl v)"
    using getNumDataCodewords_ok(1) [OF v, of i] n by (simp add: boost_step_def fits_version_def mult.commute)
qed (rule assms(3))

section \<open>Data codewords\<close>

lemma of_nat_count: "n < 2 ^ c \<Longrightarrow> c \<le> 16 \<Longrightarrow> unat (of_nat n :: u32) < 2 ^ c"
proof -
  assume n: "n < 2 ^ c" and "c \<le> 16"
  then have "(2 :: nat) ^ c \<le> 2 ^ 16" by (intro power_increasing) simp_all
  then have "unat (of_nat n :: u32) = n" using n by (intro unat_of_nat_small) simp
  then show ?thesis using n by simp
qed

lemma data_bit: "bit (ucast (drop_bit k w AND 1 :: u8) :: u32) 0 = bit w k" "unat (ucast (drop_bit k w AND 1 :: u8) :: u32) < 2 ^ 1"
proof -
  show "bit (ucast (drop_bit k w AND 1 :: u8) :: u32) 0 = bit w k" by (simp add: bit_ucast_iff bit_and_iff bit_drop_bit_eq)
  have "low_bits 1 (ucast (drop_bit k w AND 1 :: u8) :: u32)" by (auto simp: low_bits_def bit_ucast_iff bit_and_iff bit_1_iff)
  then show "unat (ucast (drop_bit k w AND 1 :: u8) :: u32) < 2 ^ 1" unfolding low_bits_unat .
qed

lemma data_bits_hold:
  assumes "holds L M bs b" and "n \<le> 8 * length d" and "length bs + n \<le> 8 * M"
  shows "runs (foldM (data_bit_step d) [0..<n] b) (holds L M (bs @ map (codeword_bit d) [0..<n]))"
proof (rule runs_foldM_done [where I = "\<lambda>ds. holds L M (bs @ map (codeword_bit d) ds)"])
  fix ds j es s
  assume z: "[0..<n] = ds @ j # es" and I: "holds L M (bs @ map (codeword_bit d) ds) s"
  have "j \<in> set [0..<n]" "length ds < length [0..<n]" unfolding z by simp_all
  then have j: "j div 8 < length d" "length ds < n" using assms(2) by auto
  let ?v = "ucast (drop_bit (7 - j mod 8) (d ! (j div 8)) AND 1) :: u32"
  have "runs (appendBitsToBuffer ?v 1 s) (holds L M ((bs @ map (codeword_bit d) ds) @ nbits 1 ?v))"
    using I data_bit(2) j(2) assms(3) by (intro appendBits_holds) simp_all
  moreover have "nbits 1 ?v = [codeword_bit d j]" using data_bit(1) by (simp add: codeword_bit_def)
  ultimately show "runs (data_bit_step d j s) (holds L M (bs @ map (codeword_bit d) (ds @ [j])))" using j(1) by (simp add: data_bit_step_def)
qed (use assms(1) in simp)

lemma mode_bound: "unat (mode_bits m) < 2 ^ 4"
  by (cases m) simp_all

lemma segment_holds:
  assumes v: "1 \<le> v" "v \<le> 40" and ok: "seg_ok seg" and fit: "numChars seg < 2 ^ count_bits (mode seg) v"
    and b: "holds L M bs b" and len: "length bs + length (seg_code v seg) \<le> 8 * M"
  shows "runs (segment_step v seg b) (holds L M (bs @ seg_code v seg))"
proof -
  note c = count_bits_ok [OF v, of "mode seg"]
  note len' = len [unfolded length_seg_code]
  let ?m = "nbits 4 (mode_bits (mode seg))" and ?n = "nbits (count_bits (mode seg) v) (of_nat (numChars seg) :: u32)"
  show ?thesis
    unfolding segment_step_def c(1) Option.bind.simps
  proof (rule runs_bind [OF appendBits_holds [OF b _ mode_bound]])
    fix b1
    assume b1: "holds L M (bs @ ?m) b1"
    show "runs (appendBitsToBuffer (of_nat (numChars seg)) (count_bits (mode seg) v) b1 \<bind>
        foldM (data_bit_step (seg_data seg)) [0..<bitLength seg]) (holds L M (bs @ seg_code v seg))"
    proof (rule runs_bind [OF appendBits_holds [OF b1 c(2) of_nat_count [OF fit c(2)]]])
      fix b2
      assume b2: "holds L M ((bs @ ?m) @ ?n) b2"
      show "runs (foldM (data_bit_step (seg_data seg)) [0..<bitLength seg] b2) (holds L M (bs @ seg_code v seg))"
        using data_bits_hold [OF b2, of "bitLength seg" "seg_data seg"] ok len' by (simp add: seg_ok_def seg_code_def seg_stream_def)
    qed (use len' in simp)
  qed (use len' in simp_all)
qed

lemma segments_hold:
  assumes v: "1 \<le> v" "v \<le> 40"
  shows "\<forall>seg \<in> set segs. seg_ok seg \<and> numChars seg < 2 ^ count_bits (mode seg) v \<Longrightarrow> holds L M bs b \<Longrightarrow>
    length bs + length (segs_code v segs) \<le> 8 * M \<Longrightarrow> runs (foldM (segment_step v) segs b) (holds L M (bs @ segs_code v segs))"
proof (induction segs arbitrary: bs b)
  case Nil
  then show ?case by (simp add: segs_code_def)
next
  case (Cons seg segs)
  have "runs (segment_step v seg b) (holds L M (bs @ seg_code v seg))"
    using Cons.prems by (intro segment_holds [OF v]) (simp_all add: segs_code_def)
  then obtain b' where "segment_step v seg b = Some b'" "holds L M (bs @ seg_code v seg) b'" by (auto simp: runs_def)
  then show ?case using Cons.IH [of "bs @ seg_code v seg" b'] Cons.prems by (simp add: segs_code_def)
qed

primrec pad_bits :: "nat \<Rightarrow> u8 \<Rightarrow> bool list" where
  "pad_bits 0 p = []"
| "pad_bits (Suc n) p = nbits 8 p @ pad_bits n (p XOR (0xEC XOR 0x11))"

lemma pad_holds:
  assumes "holds L M bs b" and "cap \<le> 8 * M" and "length bs + 8 * n = cap"
  shows "runs (pad_loop cap p b) (holds L M (bs @ pad_bits n p))"
  using assms
proof (induction n arbitrary: bs b p)
  case 0
  then have "snd b = cap" by (auto simp: holds_def)
  then show ?case using 0 by (simp add: pad_loop.simps)
next
  case (Suc n)
  have "unat (ucast p :: u32) < 2 ^ 8" using low_bits_ucast [of p, where 'b = 32] unfolding low_bits_unat by simp
  then have "runs (appendBitsToBuffer (ucast p) 8 b) (holds L M (bs @ nbits 8 (ucast p :: u32)))"
    using Suc.prems by (intro appendBits_holds) simp_all
  then obtain b' where b': "appendBitsToBuffer (ucast p) 8 b = Some b'" "holds L M (bs @ nbits 8 p) b'" by (auto simp: runs_def nbits_ucast)
  have "snd b < cap" using Suc.prems by (auto simp: holds_def)
  then have "pad_loop cap p b = pad_loop cap (p XOR (0xEC XOR 0x11)) b'" using b'(1) by (subst pad_loop.simps) simp
  then show ?case using Suc.IH [OF b'(2), of "p XOR (0xEC XOR 0x11)"] Suc.prems by simp
qed

text \<open>The bit string the standard prescribes: segments, up to four zeros, zeros up to a byte, padding bytes.\<close>

definition terminated :: "nat \<Rightarrow> bool list \<Rightarrow> bool list" where
  "terminated cap s = (let s = s @ replicate (min 4 (cap - length s)) False in s @ replicate ((8 - length s mod 8) mod 8) False)"

definition data_stream :: "nat \<Rightarrow> bool list \<Rightarrow> bool list" where
  "data_stream cap s = terminated cap s @ pad_bits ((cap - length (terminated cap s)) div 8) 0xEC"

lemma nbits_0: "nbits n 0 = replicate n False"
  by (induction n) simp_all

lemma zeros_hold:
  "holds L M bs b \<Longrightarrow> n \<le> 16 \<Longrightarrow> length bs + n \<le> 8 * M \<Longrightarrow> runs (appendBitsToBuffer 0 n b) (holds L M (bs @ replicate n False))"
  using appendBits_holds [of L M bs b n 0] by (simp add: nbits_0)

lemma round8_eq:
  assumes "b < (8 :: nat)"
  shows "8 * a + b + (8 - (8 * a + b) mod 8) mod 8 = (if b = 0 then 8 * a else 8 * Suc a)"
  using assms by (cases "b = 0") simp_all

lemma round8: "((n :: nat) + (8 - n mod 8) mod 8) mod 8 = 0"
  using round8_eq [of "n mod 8" "n div 8"] by (simp split: if_splits)

lemma round8_le:
  assumes "n \<le> c" and "c mod 8 = (0 :: nat)"
  shows "n + (8 - n mod 8) mod 8 \<le> c"
proof -
  obtain k where k: "c = 8 * k" using assms(2) by auto
  have "n div 8 < k" if "n mod 8 \<noteq> 0"
    using assms(1) k that mult_div_mod_eq [of 8 n] by linarith
  then show ?thesis using round8_eq [of "n mod 8" "n div 8"] assms(1) k by (auto split: if_splits)
qed

lemma length_terminated:
  assumes "length s \<le> cap" and "cap mod 8 = 0"
  shows "length (terminated cap s) mod 8 = 0" and "length (terminated cap s) \<le> cap"
proof -
  let ?s = "length s + min 4 (cap - length s)"
  have l: "length (terminated cap s) = ?s + (8 - ?s mod 8) mod 8" by (simp add: terminated_def Let_def)
  show "length (terminated cap s) mod 8 = 0" unfolding l by (rule round8)
  have "?s \<le> cap" using assms(1) by simp
  then show "length (terminated cap s) \<le> cap" unfolding l using assms(2) by (rule round8_le)
qed

lemma length_pad_bits [simp]: "length (pad_bits n p) = 8 * n"
  by (induction n arbitrary: p) simp_all

lemma length_data_stream: "length s \<le> cap \<Longrightarrow> cap mod 8 = 0 \<Longrightarrow> length (data_stream cap s) = cap"
  using length_terminated [of s cap] mod_eq_dvd_iff_nat [of "length (terminated cap s)" cap 8]
  by (simp add: data_stream_def mod_eq_0_iff_dvd)

lemma data_codewords_ok:
  assumes v: "1 \<le> v" "v \<le> 40" and segs: "\<forall>seg \<in> set segs. seg_ok seg" and fit: "fits_version segs ecl v"
    and q: "qrcodegen_BUFFER_LEN_FOR_VERSION v \<le> length q" and cap: "cap = nat (data_words v ecl * 8)"
  shows "runs (data_codewords segs v (length (segs_code v segs)) cap q)
    (\<lambda>q'. length q' = length q \<and> map (codeword_bit q') [0..<cap] = data_stream cap (segs_code v segs))"
proof -
  let ?M = "qrcodegen_BUFFER_LEN_FOR_VERSION v" and ?L = "length q" and ?s = "segs_code v segs"
  have "data_words v ecl \<le> int ?M" using getNumDataCodewords_ok(3) [OF v, of ecl] tables [OF v, of ecl, unfolded table_ok_def] by linarith
  then have M: "cap \<le> 8 * ?M" unfolding cap nat_le_iff by simp
  have c8: "cap mod 8 = 0" using cap getNumDataCodewords_ok(2) [OF v, of ecl] by (simp add: nat_mult_distrib)
  have len: "length ?s \<le> cap" using fit unfolding cap fits_version_def by linarith
  note t = length_terminated [OF len c8]
  obtain q0 where q0: "memset0 q ?M = Some q0" "holds ?L ?M [] (q0, 0)" using memset0_holds [OF q] by blast
  have a: "runs (foldM (segment_step v) segs (q0, 0)) (holds ?L ?M ?s)"
    using segments_hold [OF v, of segs ?L ?M "[]" "(q0, 0)"] segs fit q0(2) len M by (simp add: fits_version_def)
  have final: "length q' = ?L \<and> map (codeword_bit q') [0..<cap] = data_stream cap ?s" if "holds ?L ?M (data_stream cap ?s) (q', n')" for q' n'
  proof -
    have "n' = cap" using that length_data_stream [OF len c8] by (simp add: holds_def)
    then show ?thesis using holds_stream [OF that] that by (simp add: holds_def)
  qed
  let ?n1 = "if 4 < cap - length ?s then 4 else cap - length ?s"
  let ?s1 = "?s @ replicate ?n1 False"
  let ?n2 = "(8 - length ?s1 mod 8) mod 8"
  have n1: "?n1 = min 4 (cap - length ?s)" by simp
  have s2: "?s1 @ replicate ?n2 False = terminated cap ?s" unfolding terminated_def Let_def n1 by simp
  have l2: "length ?s1 + ?n2 \<le> cap" using t(2) unfolding s2 [symmetric] by simp
  have n2: "?n2 \<le> 16" by (rule le_trans [OF less_imp_le [OF mod_less_divisor]]) simp_all
  show ?thesis
    unfolding data_codewords_def q0(1) Option.bind.simps
  proof (rule runs_bind [OF a], clarify, goal_cases)
    case (1 qa na)
    then have na: "na = length ?s" by (simp add: holds_def)
    have b: "runs (appendBitsToBuffer 0 ?n1 (qa, na)) (holds ?L ?M ?s1)" using 1 l2 M by (intro zeros_hold) simp_all
    show ?case
      unfolding na guard_bind Let_def using len
    proof (simp only: refl if_True, intro runs_bind [OF b [unfolded na]], clarify, goal_cases)
      case (1 qb nb)
      then have nb: "nb = length ?s1" by (simp add: holds_def)
      have c: "runs (appendBitsToBuffer 0 ?n2 (qb, nb)) (holds ?L ?M (?s1 @ replicate ?n2 False))" using 1 n2 l2 M by (intro zeros_hold) simp_all
      show ?case
        unfolding nb
      proof (rule runs_bind [OF c [unfolded nb]], clarify, goal_cases)
        case (1 qc nc)
        then have h: "holds ?L ?M (terminated cap ?s) (qc, nc)" unfolding s2 .
        then have nc: "nc = length (terminated cap ?s)" by (simp add: holds_def)
        let ?p = "(cap - length (terminated cap ?s)) div 8"
        have "length (terminated cap ?s) + 8 * ?p = cap" using t c8 mod_eq_dvd_iff_nat [OF t(2), of 8] by (simp add: mod_eq_0_iff_dvd)
        then have "runs (pad_loop cap 0xEC (qc, nc)) (holds ?L ?M (data_stream cap ?s))"
          using pad_holds [OF h M, of _ "0xEC"] by (simp add: data_stream_def)
        then show ?case using t(1) nc final by (auto intro: runs_bind)
      qed
    qed
  qed
qed

end
