(* ===== verification/Qr_Ecc.thy ===== *)
theory Qr_Ecc
  imports Qr_Fill
begin

text \<open>
  Error correction and interleaving: the data is cut into blocks of two lengths, each block gets its
  Reed-Solomon remainder, and the bytes of all blocks are dealt out column by column. \<open>dpos\<close> and
  \<open>epos\<close> are the places of byte \<open>j\<close> of block \<open>i\<close> and of its remainder; they are all different.
\<close>

lemma foldM_range_inv:
  assumes "\<And>j s. j < n \<Longrightarrow> I j s \<Longrightarrow> runs (h j s) (I (Suc j))" and "I 0 s"
  shows "runs (foldM h [0..<n] s) (I n)"
proof -
  have "runs (foldM h [0..<n] s) ((\<lambda>ds. I (length ds)) [0..<n])"
  proof (rule runs_foldM_done [where I = "\<lambda>ds. I (length ds)"])
    fix ds x es t
    assume z: "[0..<n] = ds @ x # es" and I: "I (length ds) t"
    have l: "length ds < length [0..<n]" unfolding z by simp
    have "x = [0..<n] ! length ds" unfolding z by simp
    then have "x = length ds" using l by simp
    then show "runs (h x t) (I (length (ds @ [x])))" using assms(1) [OF _ I] l by simp
  qed (use assms(2) in simp)
  then show ?thesis by simp
qed

section \<open>Remainders\<close>

lemma length_remainder_step: "length r = n \<Longrightarrow> 1 \<le> n \<Longrightarrow> length (remainder_step g n d r) = n"
proof -
  have "length (fold (\<lambda>j r. r[j := h j r]) js r) = length r" for js :: "nat list" and h and r :: bytes
    by (induction js arbitrary: r) simp_all
  then show "length r = n \<Longrightarrow> 1 \<le> n \<Longrightarrow> ?thesis" unfolding remainder_step_def Let_def by simp
qed

definition rs_rem :: "bytes \<Rightarrow> nat \<Rightarrow> bytes \<Rightarrow> bytes" where
  "rs_rem g n d = fold (remainder_step g n) d (replicate n 0)"

lemma length_rs_rem: "1 \<le> n \<Longrightarrow> length (rs_rem g n d) = n"
proof -
  assume "1 \<le> n"
  then have "length r = n \<Longrightarrow> length (fold (remainder_step g n) d r) = n" for r
    by (induction d arbitrary: r) (simp_all add: length_remainder_step)
  then show ?thesis by (simp add: rs_rem_def)
qed

lemma remainder_ok: "1 \<le> n \<Longrightarrow> n \<le> 30 \<Longrightarrow> reedSolomonComputeRemainder d g n = Some (rs_rem g n d)"
  by (simp add: reedSolomonComputeRemainder_def rs_rem_def)

section \<open>Places\<close>

text \<open>\<open>nb\<close> blocks, of which \<open>ns\<close> have \<open>sh\<close> bytes of data and the others one more.\<close>

definition blen_of :: "nat \<Rightarrow> nat \<Rightarrow> nat \<Rightarrow> nat" where
  "blen_of ns sh i = sh + (if i < ns then 0 else 1)"

definition boff :: "nat \<Rightarrow> nat \<Rightarrow> nat \<Rightarrow> nat" where
  "boff ns sh i = i * sh + (i - ns)"

definition dpos :: "nat \<Rightarrow> nat \<Rightarrow> nat \<Rightarrow> nat \<Rightarrow> nat \<Rightarrow> nat" where
  "dpos nb ns sh i j = (if j = sh then sh * nb + (i - ns) else j * nb + i)"

definition epos :: "nat \<Rightarrow> nat \<Rightarrow> nat \<Rightarrow> nat \<Rightarrow> nat" where
  "epos nb dl i j = dl + j * nb + i"

lemma boff_step: "boff ns sh i + blen_of ns sh i = boff ns sh (Suc i)"
  by (simp add: boff_def blen_of_def Suc_diff_le)

lemma boff_mono: "i \<le> k \<Longrightarrow> boff ns sh i \<le> boff ns sh k"
  by (simp add: boff_def add_mono)

lemma row_bound: "j < k \<Longrightarrow> i < nb \<Longrightarrow> j * nb + i < k * (nb :: nat)"
proof -
  assume "j < k" "i < nb"
  then have "Suc j * nb \<le> k * nb" by (intro mult_le_mono1) simp
  then show ?thesis using \<open>i < nb\<close> by simp
qed

lemma row_inj: "i < nb \<Longrightarrow> i' < nb \<Longrightarrow> j * nb + i = j' * nb + i' \<Longrightarrow> i = i' \<and> j = (j' :: nat)"
proof -
  have d: "(a * nb + b) div nb = a" "(a * nb + b) mod nb = b" if "b < nb" for a b using that by simp_all
  assume "i < nb" "i' < nb" and e: "j * nb + i = j' * nb + i'"
  then show ?thesis using d [of i j] d [of i' j'] by metis
qed

lemma dpos_bound: "i < nb \<Longrightarrow> ns \<le> nb \<Longrightarrow> j < blen_of ns sh i \<Longrightarrow> dpos nb ns sh i j < sh * nb + (nb - ns)"
  using row_bound [of j sh i nb] by (auto simp: dpos_def blen_of_def split: if_splits)

lemma dpos_inj:
  assumes "i < nb" and "i' < nb" and "ns \<le> nb" and "j < blen_of ns sh i" and "j' < blen_of ns sh i'" and "dpos nb ns sh i j = dpos nb ns sh i' j'"
  shows "i = i' \<and> j = j'"
proof -
  have "j < sh \<Longrightarrow> j * nb + i < sh * nb" "j' < sh \<Longrightarrow> j' * nb + i' < sh * nb" using row_bound assms by simp_all
  then show ?thesis using assms row_inj [OF assms(1,2), of j j'] by (auto simp: dpos_def blen_of_def split: if_splits)
qed

lemma epos_inj: "i < nb \<Longrightarrow> i' < nb \<Longrightarrow> epos nb dl i j = epos nb dl i' j' \<Longrightarrow> i = i' \<and> j = j'"
  using row_inj [of i nb i' j j'] by (simp add: epos_def)

lemma epos_bound: "i < nb \<Longrightarrow> j < el \<Longrightarrow> epos nb dl i j < dl + el * nb"
  using row_bound [of j el i nb] by (simp add: epos_def)

section \<open>The copy loops\<close>

text \<open>\<open>places f n src old new\<close>: the first \<open>n\<close> bytes of \<open>src\<close> have been copied to the places \<open>f\<close> of \<open>old\<close>.\<close>

definition places :: "(nat \<Rightarrow> nat) \<Rightarrow> nat \<Rightarrow> (nat \<Rightarrow> u8) \<Rightarrow> bytes \<Rightarrow> bytes \<Rightarrow> bool" where
  "places f n src old new = (length new = length old \<and> (\<forall>j < n. new ! f j = src j) \<and> (\<forall>p. (\<forall>j < n. p \<noteq> f j) \<longrightarrow> new ! p = old ! p))"

lemma places_step:
  assumes "places f n src old new" and "f n < length old" and "\<forall>j < n. f j \<noteq> f n"
  shows "store_byte (f n) (src n) new = Some (new[f n := src n]) \<and> places f (Suc n) src old (new[f n := src n])"
  using assms by (auto simp: places_def store_byte_def less_Suc_eq nth_list_update)

lemma copy_data_ok:
  assumes i: "i < nb" "ns \<le> nb" and len: "sh * nb + (nb - ns) \<le> length result" and src: "dat + blen_of ns sh i \<le> length dbuf"
  shows "runs (foldM (copy_data_step dbuf dat (int sh) (int ns) (int nb)) [0..<blen_of ns sh i] (int i, result))
    (\<lambda>(_, r). places (dpos nb ns sh i) (blen_of ns sh i) (\<lambda>j. dbuf ! (dat + j)) result r)"
proof -
  let ?I = "\<lambda>j (k, r). places (dpos nb ns sh i) j (\<lambda>j. dbuf ! (dat + j)) result r \<and> (j \<le> sh \<longrightarrow> k = int (j * nb + i))"
  have "runs (foldM (copy_data_step dbuf dat (int sh) (int ns) (int nb)) [0..<blen_of ns sh i] (int i, result)) (?I (blen_of ns sh i))"
  proof (rule foldM_range_inv [where I = ?I])
    fix j and s :: "int \<times> bytes"
    assume j: "j < blen_of ns sh i" and "?I j s"
    then obtain k r where s: "s = (k, r)" "places (dpos nb ns sh i) j (\<lambda>j. dbuf ! (dat + j)) result r" "j \<le> sh \<Longrightarrow> k = int (j * nb + i)" by auto
    have jsh: "j \<le> sh" "j = sh \<Longrightarrow> ns \<le> i" using j by (auto simp: blen_of_def split: if_splits)
    have k: "(if int j = int sh then k - int ns else k) = int (dpos nb ns sh i j)"
      using s(3) [OF jsh(1)] jsh(2) by (auto simp: dpos_def of_nat_diff)
    have "dpos nb ns sh i j < length result" using dpos_bound [OF i j] len by simp
    moreover have "\<forall>j' < j. dpos nb ns sh i j' \<noteq> dpos nb ns sh i j" 
    proof (intro allI impI notI)
      fix j'
      assume "j' < j" "dpos nb ns sh i j' = dpos nb ns sh i j"
      then show False using dpos_inj [OF i(1,1,2), of j' sh j] j by simp
    qed
    ultimately have p: "store_byte (dpos nb ns sh i j) (dbuf ! (dat + j)) r = Some (r[dpos nb ns sh i j := dbuf ! (dat + j)])"
      "places (dpos nb ns sh i) (Suc j) (\<lambda>j. dbuf ! (dat + j)) result (r[dpos nb ns sh i j := dbuf ! (dat + j)])"
      using places_step [OF s(2)] by auto
    have n: "Suc j \<le> sh \<Longrightarrow> int (dpos nb ns sh i j) + int nb = int (Suc j * nb + i)" by (simp add: dpos_def)
    show "runs (copy_data_step dbuf dat (int sh) (int ns) (int nb) j s) (?I (Suc j))"
      unfolding copy_data_step_def s(1) prod.case Let_def k using j src p n by (simp add: algebra_simps)
  qed (simp add: places_def)
  then show ?thesis by (rule runs_mono) auto
qed

lemma copy_ecc_ok:
  assumes i: "i < nb" and len: "dl + el * nb \<le> length result"
  shows "runs (foldM (copy_ecc_step dbuf dl (int nb)) [0..<el] (int dl + int i, result))
    (\<lambda>(_, r). places (epos nb dl i) el (\<lambda>j. dbuf ! (dl + j)) result r)"
proof -
  let ?I = "\<lambda>j (k, r). places (epos nb dl i) j (\<lambda>j. dbuf ! (dl + j)) result r \<and> k = int (epos nb dl i j)"
  have "runs (foldM (copy_ecc_step dbuf dl (int nb)) [0..<el] (int dl + int i, result)) (?I el)"
  proof (rule foldM_range_inv [where I = ?I])
    fix j and s :: "int \<times> bytes"
    assume j: "j < el" and "?I j s"
    then obtain r where s: "s = (int (epos nb dl i j), r)" "places (epos nb dl i) j (\<lambda>j. dbuf ! (dl + j)) result r" by auto
    have "epos nb dl i j < length result" using epos_bound [OF i j, of dl] len by simp
    moreover have "\<forall>j' < j. epos nb dl i j' \<noteq> epos nb dl i j" using epos_inj [OF i i] by blast
    ultimately have "store_byte (epos nb dl i j) (dbuf ! (dl + j)) r = Some (r[epos nb dl i j := dbuf ! (dl + j)])"
      "places (epos nb dl i) (Suc j) (\<lambda>j. dbuf ! (dl + j)) result (r[epos nb dl i j := dbuf ! (dl + j)])"
      using places_step [OF s(2)] by auto
    moreover have "int (epos nb dl i j) + int nb = int (epos nb dl i (Suc j))" by (simp add: epos_def)
    ultimately show "runs (copy_ecc_step dbuf dl (int nb) j s) (?I (Suc j))" unfolding copy_ecc_step_def s(1) by simp
  qed (simp add: places_def epos_def)
  then show ?thesis by (rule runs_mono) auto
qed

section \<open>Blocks\<close>

record layout =
  nb :: nat
  ns :: nat
  sh :: nat
  el :: nat

definition dlen :: "layout \<Rightarrow> nat" where "dlen c = sh c * nb c + (nb c - ns c)"

definition block_data :: "layout \<Rightarrow> bytes \<Rightarrow> nat \<Rightarrow> bytes" where
  "block_data c d i = take (blen_of (ns c) (sh c) i) (drop (boff (ns c) (sh c) i) d)"

definition dealt :: "layout \<Rightarrow> bytes \<Rightarrow> bytes \<Rightarrow> nat \<Rightarrow> bytes \<Rightarrow> bool" where
  "dealt c g d i r = ((\<forall>j < blen_of (ns c) (sh c) i. r ! dpos (nb c) (ns c) (sh c) i j = block_data c d i ! j) \<and>
     (\<forall>j < el c. r ! epos (nb c) (dlen c) i j = rs_rem g (el c) (block_data c d i) ! j))"

lemma dealt_keep:
  assumes d: "dealt c g d i r" and i: "i < nb c" "i' < nb c" "i \<noteq> i'" "ns c \<le> nb c"
    and p: "places (dpos (nb c) (ns c) (sh c) i') (blen_of (ns c) (sh c) i') x r r1" "places (epos (nb c) (dlen c) i') (el c) y r1 r2"
  shows "dealt c g d i r2"
proof -
  have "r2 ! dpos (nb c) (ns c) (sh c) i j = r ! dpos (nb c) (ns c) (sh c) i j" if j: "j < blen_of (ns c) (sh c) i" for j
  proof -
    have "\<forall>j' < blen_of (ns c) (sh c) i'. dpos (nb c) (ns c) (sh c) i j \<noteq> dpos (nb c) (ns c) (sh c) i' j'"
      using dpos_inj [OF i(1,2,4) j] i(3) by blast
    moreover have "\<forall>j' < el c. dpos (nb c) (ns c) (sh c) i j \<noteq> epos (nb c) (dlen c) i' j'"
      using dpos_bound [OF i(1,4) j] by (auto simp: epos_def dlen_def)
    ultimately show ?thesis using p by (simp add: places_def)
  qed
  moreover have "r2 ! epos (nb c) (dlen c) i j = r ! epos (nb c) (dlen c) i j" for j
  proof -
    have "\<forall>j' < blen_of (ns c) (sh c) i'. epos (nb c) (dlen c) i j \<noteq> dpos (nb c) (ns c) (sh c) i' j'"
      using dpos_bound [OF i(2,4), of _ "sh c"] by (fastforce simp: epos_def dlen_def)
    moreover have "\<forall>j' < el c. epos (nb c) (dlen c) i j \<noteq> epos (nb c) (dlen c) i' j'" using epos_inj [OF i(1,2)] i(3) by blast
    ultimately show ?thesis using p by (simp add: places_def)
  qed
  ultimately show ?thesis using d by (simp add: dealt_def)
qed

definition block_inv :: "layout \<Rightarrow> bytes \<Rightarrow> bytes \<Rightarrow> nat \<Rightarrow> nat \<Rightarrow> nat \<Rightarrow> bytes \<times> bytes \<times> nat \<Rightarrow> bool" where
  "block_inv c g d L R i = (\<lambda>(dbuf, r, dat). dat = boff (ns c) (sh c) i \<and> length dbuf = L \<and> take (dlen c) dbuf = take (dlen c) d \<and>
     length r = R \<and> (\<forall>i' < i. dealt c g d i' r))"

lemma ecc_block_ok:
  assumes c: "1 \<le> el c" "el c \<le> 30" "ns c \<le> nb c" and i: "i < nb c" and I: "block_inv c g d L R i s"
    and L: "dlen c + el c \<le> L" and R: "dlen c + el c * nb c \<le> R"
  shows "runs (ecc_block g (int (dlen c)) (int (nb c)) (int (el c)) (int (ns c)) (int (sh c)) (int i) s) (block_inv c g d L R (Suc i))"
proof -
  obtain dbuf r where s: "s = (dbuf, r, boff (ns c) (sh c) i)" and S: "length dbuf = L" "take (dlen c) dbuf = take (dlen c) d" "length r = R"
    "\<forall>i' < i. dealt c g d i' r" using I by (auto simp: block_inv_def)
  let ?n = "blen_of (ns c) (sh c) i" and ?o = "boff (ns c) (sh c) i"
  have n: "nat (int (sh c) + (if int i < int (ns c) then 0 else 1)) = ?n" by (simp add: blen_of_def nat_add_distrib)
  have "boff (ns c) (sh c) (Suc i) \<le> boff (ns c) (sh c) (nb c)" using i by (intro boff_mono) simp
  then have o: "?o + ?n \<le> dlen c" unfolding boff_step by (simp add: boff_def dlen_def mult.commute)
  have same: "take ?n (drop ?o x) = take ?n (drop ?o (take (dlen c) x))" for x :: bytes using o by (simp add: take_drop min_def)
  have blk: "take ?n (drop ?o dbuf) = block_data c d i" unfolding block_data_def same [of dbuf] same [of d] S(2) ..
  let ?e = "rs_rem g (el c) (block_data c d i)"
  have le: "length ?e = el c" using c by (simp add: length_rs_rem)
  define dbuf' where "dbuf' = memcpy_at dbuf (dlen c) ?e"
  have "take (dlen c) dbuf' = take (dlen c) dbuf" using S(1) L by (simp add: dbuf'_def memcpy_at_def)
  then have D: "length dbuf' = L" "take (dlen c) dbuf' = take (dlen c) d" using S(1,2) L le by (simp_all add: dbuf'_def)
  have data: "dbuf' ! (?o + j) = block_data c d i ! j" if "j < ?n" for j
  proof -
    have "dbuf' ! (?o + j) = take (dlen c) dbuf' ! (?o + j)" using that o by simp
    also have "\<dots> = d ! (?o + j)" unfolding D(2) using that o by simp
    also have "\<dots> = block_data c d i ! j"
    proof -
      have "length (take (dlen c) d) = dlen c" using D(1,2) L by (metis add_leD1 length_take min.absorb2)
      then show ?thesis using that o by (simp add: block_data_def)
    qed
    finally show ?thesis .
  qed
  have ecc: "dbuf' ! (dlen c + j) = ?e ! j" if "j < el c" for j using that le L S(1) by (simp add: dbuf'_def memcpy_at_def nth_append)
  have a: "runs (foldM (copy_data_step dbuf' ?o (int (sh c)) (int (ns c)) (int (nb c))) [0..<?n] (int i, r))
    (\<lambda>(_, r1). places (dpos (nb c) (ns c) (sh c) i) ?n (\<lambda>j. dbuf' ! (?o + j)) r r1)"
    using o L R S D by (intro copy_data_ok [OF i c(3)]) (simp_all add: dlen_def)
  show ?thesis
    unfolding ecc_block_def s prod.case Let_def n nat_int blk remainder_ok [OF c(1,2)] Option.bind.simps
  proof (rule runs_guard)
    show "?o + ?n \<le> length dbuf \<and> dlen c + length ?e \<le> length dbuf" using o L S le by simp
    show "runs (foldM (copy_data_step (memcpy_at dbuf (dlen c) ?e) ?o (int (sh c)) (int (ns c)) (int (nb c))) [0..<?n] (int i, r) \<bind>
       (\<lambda>(_, result). foldM (copy_ecc_step (memcpy_at dbuf (dlen c) ?e) (dlen c) (int (nb c))) [0..<el c] (int (dlen c) + int i, result) \<bind>
       (\<lambda>(_, result). Some (memcpy_at dbuf (dlen c) ?e, result, ?o + ?n)))) (block_inv c g d L R (Suc i))"
      unfolding dbuf'_def [symmetric]
    proof (rule runs_bind [OF a], clarify)
      fix k1 r1
      assume r1: "places (dpos (nb c) (ns c) (sh c) i) ?n (\<lambda>j. dbuf' ! (?o + j)) r r1"
      have b: "runs (foldM (copy_ecc_step dbuf' (dlen c) (int (nb c))) [0..<el c] (int (dlen c) + int i, r1))
        (\<lambda>(_, r2). places (epos (nb c) (dlen c) i) (el c) (\<lambda>j. dbuf' ! (dlen c + j)) r1 r2)"
        using r1 R S(3) by (intro copy_ecc_ok [OF i]) (simp add: places_def)
      show "runs (foldM (copy_ecc_step dbuf' (dlen c) (int (nb c))) [0..<el c] (int (dlen c) + int i, r1) \<bind>
        (\<lambda>(_, result). Some (dbuf', result, ?o + ?n))) (block_inv c g d L R (Suc i))"
      proof (rule runs_bind [OF b], clarify)
        fix k2 r2
        assume r2: "places (epos (nb c) (dlen c) i) (el c) (\<lambda>j. dbuf' ! (dlen c + j)) r1 r2"
        have old: "\<forall>i' < i. dealt c g d i' r2" using S(4) dealt_keep [OF _ _ i _ c(3) r1 r2] i by auto
        have "r2 ! dpos (nb c) (ns c) (sh c) i j = r1 ! dpos (nb c) (ns c) (sh c) i j" if "j < ?n" for j
          using r2 dpos_bound [OF i c(3) that] by (auto simp: places_def epos_def dlen_def)
        then have "dealt c g d i r2" using r1 r2 data ecc by (simp add: dealt_def places_def)
        then show "runs (Some (dbuf', r2, ?o + ?n)) (block_inv c g d L R (Suc i))"
          using old D r1 r2 S(3) boff_step by (auto simp: block_inv_def places_def less_Suc_eq)
      qed
    qed
  qed
qed

section \<open>All blocks\<close>

definition layout_of :: "qrcodegen_Ecc \<Rightarrow> int \<Rightarrow> layout" where
  "layout_of ecl v = \<lparr>nb = nat (ecc_blocks ecl v), ns = nat (ecc_blocks ecl v - raw_words v mod ecc_blocks ecl v),
     sh = nat (raw_words v div ecc_blocks ecl v - ecc_per_block ecl v), el = nat (ecc_per_block ecl v)\<rparr>"

lemma layout_facts:
  assumes v: "1 \<le> v" "v \<le> 40" and c: "c = layout_of ecl v"
  shows "int (nb c) = ecc_blocks ecl v" and "int (el c) = ecc_per_block ecl v" and "int (ns c) = ecc_blocks ecl v - raw_words v mod ecc_blocks ecl v"
    and "int (sh c) = raw_words v div ecc_blocks ecl v - ecc_per_block ecl v" and "1 \<le> nb c" and "1 \<le> el c" and "el c \<le> 30" and "ns c \<le> nb c"
    and "int (dlen c) = data_words v ecl" and "int (dlen c + el c * nb c) = raw_words v"
proof -
  note t = tables [OF v, of ecl, unfolded table_ok_def]
  let ?b = "ecc_blocks ecl v" and ?e = "ecc_per_block ecl v" and ?r = "raw_words v"
  have m: "0 \<le> ?r mod ?b" "?r mod ?b < ?b" using t by simp_all
  show nb: "int (nb c) = ?b" and el: "int (el c) = ?e" and ns: "int (ns c) = ?b - ?r mod ?b" and sh: "int (sh c) = ?r div ?b - ?e"
    using t m by (simp_all add: c layout_of_def)
  show "1 \<le> nb c" "1 \<le> el c" "el c \<le> 30" using t nb el by linarith+
  show le: "ns c \<le> nb c" using nb ns m by linarith
  have "int (dlen c) = int (sh c) * int (nb c) + (int (nb c) - int (ns c))" using le by (simp add: dlen_def of_nat_diff)
  also have "\<dots> = ?r div ?b * ?b + ?r mod ?b - ?e * ?b" unfolding nb ns sh by (simp add: left_diff_distrib)
  also have "\<dots> = ?r - ?e * ?b" using div_mult_mod_eq [of ?r ?b] by linarith
  finally show d: "int (dlen c) = data_words v ecl" by (simp add: data_words_def)
  show "int (dlen c + el c * nb c) = ?r" using d nb el by (simp add: data_words_def)
qed

lemma divisor_ok: "1 \<le> n \<Longrightarrow> n \<le> 30 \<Longrightarrow> \<exists>g. reedSolomonComputeDivisor n = Some g"
  by (simp add: reedSolomonComputeDivisor_def)

lemma foldM_int_range: "foldM h [0..int n - 1] s = foldM (\<lambda>i. h (int i)) [0..<n] s"
proof -
  have "[0..int n - 1] = map int [0..<n]"
    by (rule nth_equalityI) simp_all
  then show ?thesis by (simp add: foldM_map)
qed

lemma addEcc_ok:
  assumes v: "1 \<le> v" "v \<le> 40" and c: "c = layout_of ecl v" and g: "reedSolomonComputeDivisor (el c) = Some g"
    and L: "dlen c + el c \<le> length d" and R: "dlen c + el c * nb c \<le> length r"
  shows "runs (addEccAndInterleave d v ecl r)
    (\<lambda>(d', r'). length d' = length d \<and> length r' = length r \<and> (\<forall>i < nb c. dealt c g d i r'))"
proof -
  note f = layout_facts [OF v c]
  obtain raw where raw: "getNumRawDataModules v = Some raw" using getNumDataCodewords_ok(1) [OF v, of ecl] by (auto simp: getNumDataCodewords_def bind_eq_Some_conv)
  have rw: "raw div 8 = raw_words v" using raw by (simp add: raw_words_def)
  have "runs (foldM (\<lambda>i. ecc_block g (int (dlen c)) (int (nb c)) (int (el c)) (int (ns c)) (int (sh c)) (int i)) [0..<nb c] (d, r, 0))
    (block_inv c g d (length d) (length r) (nb c))"
    by (rule foldM_range_inv) (use ecc_block_ok [OF f(6-8) _ _ L R] in \<open>simp_all add: block_inv_def boff_def\<close>)
  then have "runs (foldM (ecc_block g (int (dlen c)) (int (nb c)) (int (el c)) (int (ns c)) (int (sh c))) [0..int (nb c) - 1] (d, r, 0))
    (block_inv c g d (length d) (length r) (nb c))" unfolding foldM_int_range .
  moreover have "addEccAndInterleave d v ecl r =
    foldM (ecc_block g (int (dlen c)) (int (nb c)) (int (el c)) (int (ns c)) (int (sh c))) [0..int (nb c) - 1] (d, r, 0) \<bind> (\<lambda>(d, r, _). Some (d, r))"
  proof -
    have "nat (ecc_per_block ecl v) = el c" using f(2) by simp
    then show ?thesis
      unfolding addEccAndInterleave_def raw Option.bind.simps getNumDataCodewords_ok(1) [OF v] Let_def rw f(1-4,9)
      using v g by (simp add: qrcodegen_VERSION_MIN_def qrcodegen_VERSION_MAX_def)
  qed
  ultimately show ?thesis by (simp add: runs_bind block_inv_def split: prod.splits)
qed

end
