(* ===== verification/Qr_Pattern.thy ===== *)
theory Qr_Pattern
  imports Qr_Grid
begin

text \<open>
  The function patterns of a version as a set of modules (\<open>function_set\<close>): the code marks exactly
  these, everything drawn later outside the codewords lies within them, and enough modules remain for
  the codewords, which is what the last assertion of \<^verbatim>\<open>drawCodewords\<close> needs.
\<close>

definition rect :: "int \<Rightarrow> int \<Rightarrow> int \<Rightarrow> int \<Rightarrow> (int \<times> int) set" where
  "rect l t w h = {l..<l + w} \<times> {t..<t + h}"

lemma card_rect: "card (rect l t w h) = nat w * nat h"
  by (simp add: rect_def)

lemma finite_rect [simp]: "finite (rect l t w h)"
  by (simp add: rect_def)

lemma in_rect: "(x, y) \<in> rect l t w h \<longleftrightarrow> l \<le> x \<and> x < l + w \<and> t \<le> y \<and> y < t + h"
  by (auto simp: rect_def)

lemma fill_ok:
  assumes "0 \<le> l" and "l + w \<le> sz" and "0 \<le> t" and "t + h \<le> sz"
  shows "paints sz (fillRectangle l t w h) (rect l t w h) (\<lambda>_ _. True)"
proof -
  have row: "paints sz (foldM (\<lambda>dx. setModule (l + dx) (t + dy) True) [0..w - 1]) (\<Union>dx \<in> set [0..w - 1]. {(l + dx, t + dy)}) (\<lambda>_ _. True)"
    if "dy \<in> set [0..h - 1]" for dy
    by (rule paints_loop) (rule paints_set, use that assms in \<open>auto simp: in_code_def\<close>)
  have "paints sz (fillRectangle l t w h) (\<Union>dy \<in> set [0..h - 1]. \<Union>dx \<in> set [0..w - 1]. {(l + dx, t + dy)}) (\<lambda>_ _. True)"
    unfolding fillRectangle_def by (rule paints_loop) (rule row)
  moreover have "(\<Union>dy \<in> set [0..h - 1]. \<Union>dx \<in> set [0..w - 1]. {(l + dx, t + dy)}) = rect l t w h"
  proof (intro set_eqI iffI)
    fix p
    assume "p \<in> rect l t w h"
    then have "fst p - l \<in> set [0..w - 1]" "snd p - t \<in> set [0..h - 1]" "p = (l + (fst p - l), t + (snd p - t))"
      by (auto simp: rect_def)
    then show "p \<in> (\<Union>dy \<in> set [0..h - 1]. \<Union>dx \<in> set [0..w - 1]. {(l + dx, t + dy)})" by blast
  qed (auto simp: rect_def)
  ultimately show ?thesis by simp
qed

section \<open>Alignment patterns\<close>

definition align_ok :: "int \<Rightarrow> bool" where
  "align_ok v = (let ps = getAlignmentPatternPositions v in
     int (length ps) = v div 7 + 2 \<and> ps ! 0 = 6 \<and> (\<forall>p \<in> set ps. 6 \<le> p \<and> p \<le> 4 * v + 10))"

lemma align_table: "\<forall>v \<in> {2..40}. align_ok v"
proof -
  have "list_all align_ok [2..40]"
    by (simp add: upto.simps align_ok_def getAlignmentPatternPositions_def Let_def uint_word_of_int)
  then show ?thesis by (simp only: list_all_iff set_upto)
qed

text \<open>The positions as the standard lists them for each version (annex E), and that the formula gives them.\<close>

definition standard_positions :: "int list list" where
  "standard_positions =
    [[], [], [6, 18], [6, 22], [6, 26], [6, 30], [6, 34], [6, 22, 38], [6, 24, 42], [6, 26, 46], [6, 28, 50],
      [6, 30, 54], [6, 32, 58], [6, 34, 62], [6, 26, 46, 66], [6, 26, 48, 70], [6, 26, 50, 74], [6, 30, 54, 78],
      [6, 30, 56, 82], [6, 30, 58, 86], [6, 34, 62, 90], [6, 28, 50, 72, 94], [6, 26, 50, 74, 98],
      [6, 30, 54, 78, 102], [6, 28, 54, 80, 106], [6, 32, 58, 84, 110], [6, 30, 58, 86, 114], [6, 34, 62, 90, 118],
      [6, 26, 50, 74, 98, 122], [6, 30, 54, 78, 102, 126], [6, 26, 52, 78, 104, 130], [6, 30, 56, 82, 108, 134],
      [6, 34, 60, 86, 112, 138], [6, 30, 58, 86, 114, 142], [6, 34, 62, 90, 118, 146], [6, 30, 54, 78, 102, 126, 150],
      [6, 24, 50, 76, 102, 128, 154], [6, 28, 54, 80, 106, 132, 158], [6, 32, 58, 84, 110, 136, 162],
      [6, 26, 54, 82, 110, 138, 166], [6, 30, 58, 86, 114, 142, 170]]"

lemma positions_standard:
  assumes "1 \<le> v" and "v \<le> 40"
  shows "getAlignmentPatternPositions v = standard_positions ! nat v"
proof -
  have "list_all (\<lambda>v. getAlignmentPatternPositions v = standard_positions ! nat v) [1..40]"
    by (simp add: upto.simps getAlignmentPatternPositions_def standard_positions_def Let_def uint_word_of_int)
  then show ?thesis unfolding list_all_iff set_upto using assms by simp
qed

definition align_set :: "int \<Rightarrow> (int \<times> int) set" where
  "align_set v = (let ps = standard_positions ! nat v; n = int (length ps) in
     \<Union>i \<in> set [0..n - 1]. \<Union>j \<in> set [0..n - 1]. if on_finder n i j then {} else rect (ps ! nat i - 2) (ps ! nat j - 2) 5 5)"

lemma align_set_eq:
  assumes "1 \<le> v" and "v \<le> 40"
  shows "align_set v = (let ps = getAlignmentPatternPositions v; n = int (length ps) in
     \<Union>i \<in> set [0..n - 1]. \<Union>j \<in> set [0..n - 1]. if on_finder n i j then {} else rect (ps ! nat i - 2) (ps ! nat j - 2) 5 5)"
  unfolding align_set_def positions_standard [OF assms] ..

lemma align_pos:
  assumes "2 \<le> v" and "v \<le> 40" and "i \<in> set [0..int (length (getAlignmentPatternPositions v)) - 1]"
  shows "6 \<le> getAlignmentPatternPositions v ! nat i \<and> getAlignmentPatternPositions v ! nat i \<le> 4 * v + 10"
proof -
  have "nat i < length (getAlignmentPatternPositions v)" using assms(3) by auto
  then show ?thesis using align_table assms(1,2) by (auto simp: align_ok_def Let_def)
qed

lemma version_range: "1 \<le> v \<Longrightarrow> v \<le> 40 \<Longrightarrow> v = 1 \<or> 2 \<le> (v :: int) \<and> v \<le> 40"
  by auto

lemma fill_alignment_ok:
  assumes "1 \<le> v" and "v \<le> 40"
  shows "paints (4 * v + 17) (fill_alignment v) (align_set v) (\<lambda>_ _. True)"
proof (cases "v = 1")
  case True
  have "fill_alignment v = Some" by (rule ext) (simp add: fill_alignment_def True getAlignmentPatternPositions_def Let_def)
  moreover have "align_set v = {}" by (simp add: align_set_eq True getAlignmentPatternPositions_def)
  ultimately show ?thesis using paints_skip by simp
next
  case False
  then have v: "2 \<le> v" using assms by simp
  show ?thesis
    unfolding fill_alignment_def align_set_eq [OF assms] Let_def
  proof (intro paints_loop)
    fix i j
    assume "i \<in> set [0..int (length (getAlignmentPatternPositions v)) - 1]" "j \<in> set [0..int (length (getAlignmentPatternPositions v)) - 1]"
    note p = align_pos [OF v assms(2) this(1)] align_pos [OF v assms(2) this(2)]
    show "paints (4 * v + 17) (\<lambda>q. if \<not> on_finder (int (length (getAlignmentPatternPositions v))) i j
          then fillRectangle (getAlignmentPatternPositions v ! nat i - 2) (getAlignmentPatternPositions v ! nat j - 2) 5 5 q else Some q)
        (if on_finder (int (length (getAlignmentPatternPositions v))) i j then {}
         else rect (getAlignmentPatternPositions v ! nat i - 2) (getAlignmentPatternPositions v ! nat j - 2) 5 5) (\<lambda>_ _. True)"
      using p paints_skip [of "4 * v + 17" "\<lambda>_ _. True"] by (simp add: fill_ok)
  qed
qed

section \<open>The set of function modules\<close>

definition function_set :: "int \<Rightarrow> (int \<times> int) set" where
  "function_set v = (let sz = 4 * v + 17 in
     rect 6 0 1 sz \<union> rect 0 6 sz 1 \<union> rect 0 0 9 9 \<union> rect (sz - 8) 0 8 9 \<union> rect 0 (sz - 8) 9 8 \<union> align_set v \<union>
     (if 7 \<le> v then rect (sz - 11) 0 3 6 \<union> rect 0 (sz - 11) 6 3 else {}))"

lemma size_8: "1 \<le> v \<Longrightarrow> v \<le> (40 :: int) \<Longrightarrow> uint (word_of_int (4 * v + 17) :: u8) = 4 * v + 17"
  by (simp only: uint_word_of_int) simp

lemma blank_wf:
  assumes "1 \<le> v" and "v \<le> 40" and "nat ((sz * sz + 7) div 8 + 1) \<le> length q" and "sz = 4 * v + 17"
  shows "\<exists>q0. memset0 q (nat ((sz * sz + 7) div 8 + 1)) = Some q0 \<and> qr_wf sz (q0[0 := word_of_int sz]) \<and> length q0 = length q \<and>
    (\<forall>x y. in_code sz x y \<longrightarrow> \<not> pix (q0[0 := word_of_int sz]) x y)"
proof -
  let ?n = "nat ((sz * sz + 7) div 8 + 1)"
  let ?q = "(replicate ?n 0 @ drop ?n q)[0 := word_of_int sz]"
  have "0 \<le> (sz * sz + 7) div 8" by (intro pos_imp_zdiv_nonneg_iff [THEN iffD2]) simp_all
  then have "0 < ?n" by simp
  then have z: "uint (?q ! 0) = sz" using size_8 [OF assms(1,2), folded assms(4)] by (simp only: nth_list_update_eq length_append length_replicate)
  then have wf: "qr_wf sz ?q" using assms by (simp add: qr_wf_def)
  have "\<not> pix ?q x y" if "in_code sz x y" for x y
  proof -
    have "int (cell sz x y) < sz * sz" by (rule cell_bound [OF that])
    then have "int (cell sz x y) div 8 + 1 < (sz * sz + 7) div 8 + 1" by linarith
    then have "cell sz x y div 8 + 1 < ?n" by (simp add: zless_nat_eq_int_zless zdiv_int)
    then show ?thesis unfolding pix_def z by (simp add: nth_append)
  qed
  then show ?thesis using wf assms(3) by (simp add: memset0_def)
qed

lemma initialize_ok:
  assumes v: "1 \<le> v" "v \<le> 40" and sz: "sz = 4 * v + 17" and len: "nat ((sz * sz + 7) div 8 + 1) \<le> length q"
  shows "runs (initializeFunctionModules v q) (\<lambda>q'. qr_wf sz q' \<and> length q' = length q \<and>
    (\<forall>x y. in_code sz x y \<longrightarrow> pix q' x y = ((x, y) \<in> function_set v)))"
proof -
  obtain q0 where q0: "memset0 q (nat ((sz * sz + 7) div 8 + 1)) = Some q0" "qr_wf sz (q0[0 := word_of_int sz])" "length q0 = length q"
    "\<And>x y. in_code sz x y \<Longrightarrow> \<not> pix (q0[0 := word_of_int sz]) x y"
    using blank_wf [OF v len sz] by blast
  define last_two where "last_two = (\<lambda>q. if 7 \<le> v then fillRectangle (sz - 11) 0 3 6 q \<bind> fillRectangle 0 (sz - 11) 6 3 else Some q)"
  define draw where "draw = (\<lambda>q. (((((fillRectangle 6 0 1 sz q \<bind> fillRectangle 0 6 sz 1) \<bind> fillRectangle 0 0 9 9) \<bind> fillRectangle (sz - 8) 0 8 9) \<bind>
    fillRectangle 0 (sz - 8) 9 8) \<bind> fill_alignment v) \<bind> last_two)"
  have e: "initializeFunctionModules v q = draw (q0[0 := word_of_int sz])"
    unfolding initializeFunctionModules_def Let_def draw_def last_two_def mult.commute [of v 4] sz [symmetric] q0(1) by simp
  have l: "paints sz last_two (if 7 \<le> v then rect (sz - 11) 0 3 6 \<union> rect 0 (sz - 11) 6 3 else {}) (\<lambda>_ _. True)"
    unfolding last_two_def
    by (cases "7 \<le> v") (use v sz in \<open>simp_all add: paints_then fill_ok paints_skip\<close>)
  have "paints sz draw (function_set v) (\<lambda>_ _. True)"
    unfolding draw_def function_set_def Let_def sz [symmetric]
    by (intro paints_then fill_ok l fill_alignment_ok [OF v, folded sz]) (use v sz in simp_all)
  from paintsD [OF this q0(2)] show ?thesis unfolding e using q0(3,4) by (auto elim!: runs_mono split: if_splits)
qed

section \<open>Counting\<close>

lemma card_UN_bound: "finite I \<Longrightarrow> (\<And>i. i \<in> I \<Longrightarrow> card (A i) \<le> n) \<Longrightarrow> card (\<Union>i \<in> I. A i) \<le> card I * n"
  using card_UN_le [of I A] sum_bounded_above [of I "\<lambda>i. card (A i)" n] by fastforce

text \<open>Alignment patterns on a timing pattern have twenty modules outside it, the others 25.\<close>

definition align_cover :: "int \<Rightarrow> (int \<times> int) set" where
  "align_cover v = (let ps = getAlignmentPatternPositions v; n = int (length ps) in
     (\<Union>j \<in> {1..n - 2}. rect 4 (ps ! nat j - 2) 2 5 \<union> rect 7 (ps ! nat j - 2) 2 5) \<union>
     (\<Union>i \<in> {1..n - 2}. rect (ps ! nat i - 2) 4 5 2 \<union> rect (ps ! nat i - 2) 7 5 2) \<union>
     (\<Union>i \<in> {1..n - 1}. \<Union>j \<in> {1..n - 1}. rect (ps ! nat i - 2) (ps ! nat j - 2) 5 5))"

lemma align_set_cover:
  assumes "2 \<le> v" and "v \<le> 40"
  shows "align_set v \<subseteq> align_cover v \<union> rect 6 0 1 (4 * v + 17) \<union> rect 0 6 (4 * v + 17) 1"
proof
  define ps where "ps = getAlignmentPatternPositions v"
  define n where "n = int (length ps)"
  fix p
  assume "p \<in> align_set v"
  then obtain i j x y where ij: "0 \<le> i" "i < n" "0 \<le> j" "j < n" "\<not> on_finder n i j" "p = (x, y)" "(x, y) \<in> rect (ps ! nat i - 2) (ps ! nat j - 2) 5 5"
    using align_set_eq [of v] assms unfolding Let_def ps_def [symmetric] n_def [symmetric] by (cases p) (force split: if_splits)
  have six: "ps ! 0 = 6" using align_table assms by (auto simp: align_ok_def Let_def ps_def)
  have "6 \<le> ps ! nat i" "ps ! nat i \<le> 4 * v + 10" "6 \<le> ps ! nat j" "ps ! nat j \<le> 4 * v + 10"
    using align_pos [OF assms, of i] align_pos [OF assms, of j] ij by (simp_all add: ps_def n_def)
  then have xy: "0 \<le> x" "x < 4 * v + 17" "0 \<le> y" "y < 4 * v + 17" using ij(7) by (auto simp: in_rect)
  show "p \<in> align_cover v \<union> rect 6 0 1 (4 * v + 17) \<union> rect 0 6 (4 * v + 17) 1"
  proof (cases "i = 0 \<or> j = 0")
    case True
    then show ?thesis
    proof
      assume "i = 0"
      then have j: "j \<in> {1..n - 2}" and "(x, y) \<in> rect 4 (ps ! nat j - 2) 5 5" using ij six by (auto simp: on_finder_def)
      then have "(x, y) \<in> rect 4 (ps ! nat j - 2) 2 5 \<union> rect 7 (ps ! nat j - 2) 2 5 \<or> x = 6" by (auto simp: in_rect)
      then show ?thesis using j ij(6) xy unfolding align_cover_def Let_def ps_def [symmetric] n_def [symmetric] by (auto simp: in_rect)
    next
      assume "j = 0"
      then have i: "i \<in> {1..n - 2}" and "(x, y) \<in> rect (ps ! nat i - 2) 4 5 5" using ij six by (auto simp: on_finder_def)
      then have "(x, y) \<in> rect (ps ! nat i - 2) 4 5 2 \<union> rect (ps ! nat i - 2) 7 5 2 \<or> y = 6" by (auto simp: in_rect)
      then show ?thesis using i ij(6) xy unfolding align_cover_def Let_def ps_def [symmetric] n_def [symmetric] by (auto simp: in_rect)
    qed
  next
    case False
    then have "i \<in> {1..n - 1}" "j \<in> {1..n - 1}" using ij by auto
    then show ?thesis using ij(6,7) unfolding align_cover_def Let_def ps_def [symmetric] n_def [symmetric] by auto
  qed
qed

lemma card_align_cover:
  assumes "2 \<le> v" and "v \<le> 40" and n: "n = v div 7 + 2"
  shows "int (card (align_cover v)) \<le> 20 * (n - 2) + 20 * (n - 2) + 25 * ((n - 1) * (n - 1))"
proof -
  define ps where "ps = getAlignmentPatternPositions v"
  have len: "int (length ps) = n" using align_table assms by (auto simp: align_ok_def Let_def ps_def)
  have n2: "2 \<le> n" using assms by simp
  let ?A = "\<Union>j \<in> {1..n - 2}. rect 4 (ps ! nat j - 2) 2 5 \<union> rect 7 (ps ! nat j - 2) 2 5"
  let ?B = "\<Union>i \<in> {1..n - 2}. rect (ps ! nat i - 2) 4 5 2 \<union> rect (ps ! nat i - 2) 7 5 2"
  let ?C = "\<Union>i \<in> {1..n - 1}. \<Union>j \<in> {1..n - 1}. rect (ps ! nat i - 2) (ps ! nat j - 2) 5 5"
  have two: "card (rect a b c d \<union> rect a' b' c d) \<le> nat c * nat d + nat c * nat d" for a b c d a' b'
    using card_Un_le [of "rect a b c d" "rect a' b' c d"] by (simp add: card_rect)
  have A: "card ?A \<le> card {1..n - 2} * 20" by (rule card_UN_bound) (use two [of 4 _ 2 5 7] in simp_all)
  have B: "card ?B \<le> card {1..n - 2} * 20" by (rule card_UN_bound) (use two [of _ 4 5 2 _ 7] in simp_all)
  have row: "card (\<Union>j \<in> {1..n - 1}. rect (ps ! nat i - 2) (ps ! nat j - 2) 5 5) \<le> card {1..n - 1} * 25" for i
    by (rule card_UN_bound) (simp_all add: card_rect)
  have C: "card ?C \<le> card {1..n - 1} * (card {1..n - 1} * 25)" by (rule card_UN_bound) (use row in simp_all)
  have "card (?A \<union> ?B \<union> ?C) \<le> card ?A + card ?B + card ?C" using card_Un_le [of "?A \<union> ?B" ?C] card_Un_le [of ?A ?B] by linarith
  then have "card (?A \<union> ?B \<union> ?C) \<le> card {1..n - 2} * 20 + card {1..n - 2} * 20 + card {1..n - 1} * (card {1..n - 1} * 25)" using A B C by linarith
  then have "int (card (?A \<union> ?B \<union> ?C)) \<le> int (card {1..n - 2} * 20 + card {1..n - 2} * 20 + card {1..n - 1} * (card {1..n - 1} * 25))"
    by (rule of_nat_mono)
  moreover have "int (card {1..n - 2}) = n - 2" "int (card {1..n - 1}) = n - 1" using n2 by simp_all
  ultimately have "int (card (?A \<union> ?B \<union> ?C)) \<le> (n - 2) * 20 + (n - 2) * 20 + (n - 1) * ((n - 1) * 25)"
    by (simp only: of_nat_add of_nat_mult of_nat_numeral)
  moreover have "align_cover v = ?A \<union> ?B \<union> ?C" unfolding align_cover_def Let_def ps_def [symmetric] len by simp
  ultimately show ?thesis by (simp add: algebra_simps)
qed

text \<open>What covers the function modules, and its size.\<close>

definition function_cover :: "int \<Rightarrow> (int \<times> int) set" where
  "function_cover v = (let sz = 4 * v + 17 in
     (rect 0 0 9 9 \<union> rect (sz - 8) 0 8 9 \<union> rect 0 (sz - 8) 9 8) \<union> (rect 6 9 1 (sz - 17) \<union> rect 9 6 (sz - 17) 1) \<union>
     (if v = 1 then {} else align_cover v) \<union> (if 7 \<le> v then rect (sz - 11) 0 3 6 \<union> rect 0 (sz - 11) 6 3 else {}))"

lemma function_cover_finite [simp]: "finite (function_cover v)"
  by (simp add: function_cover_def Let_def align_cover_def)

lemma function_set_cover:
  assumes "1 \<le> v" and "v \<le> 40"
  shows "function_set v \<subseteq> function_cover v"
proof -
  have t: "rect 6 0 1 (4 * v + 17) \<union> rect 0 6 (4 * v + 17) 1 \<subseteq> function_cover v"
    using assms by (auto simp: function_cover_def Let_def rect_def)
  have "align_set v \<subseteq> function_cover v"
  proof (cases "v = 1")
    case True
    then show ?thesis by (simp add: align_set_eq getAlignmentPatternPositions_def)
  next
    case False
    then have "align_cover v \<subseteq> function_cover v" by (auto simp: function_cover_def Let_def)
    then show ?thesis using align_set_cover [of v] False assms t by auto
  qed
  then show ?thesis using t by (auto simp: function_set_def function_cover_def Let_def)
qed

lemma raw_modules:
  assumes "1 \<le> v" and "v \<le> 40"
  shows "\<exists>r. getNumRawDataModules v = Some r \<and> 208 \<le> r \<and> r \<le> 29648 \<and>
    r = (16 * v + 128) * v + 64 - (if 2 \<le> v then (25 * (v div 7 + 2) - 10) * (v div 7 + 2) - 55 else 0) - (if 7 \<le> v then 36 else 0)"
proof -
  have "list_all (\<lambda>v. \<exists>r. getNumRawDataModules v = Some r \<and> 208 \<le> r \<and> r \<le> 29648 \<and>
    r = (16 * v + 128) * v + 64 - (if 2 \<le> v then (25 * (v div 7 + 2) - 10) * (v div 7 + 2) - 55 else 0) - (if 7 \<le> v then 36 else 0)) [1..40]"
    by (simp add: upto.simps getNumRawDataModules_def qrcodegen_VERSION_MIN_def qrcodegen_VERSION_MAX_def Let_def)
  then show ?thesis unfolding list_all_iff set_upto using assms by simp
qed

lemma card_Un4: "int (card (A \<union> B \<union> C \<union> D)) \<le> int (card A) + int (card B) + int (card C) + int (card D)"
  using card_Un_le [of "A \<union> B \<union> C" D] card_Un_le [of "A \<union> B" C] card_Un_le [of A B] by linarith

lemma card_function_cover:
  assumes v: "1 \<le> v" "v \<le> 40" and r: "getNumRawDataModules v = Some r"
  shows "int (card (function_cover v)) \<le> (4 * v + 17) * (4 * v + 17) - r"
proof -
  let ?sz = "4 * v + 17" and ?n = "v div 7 + 2"
  let ?F = "rect 0 0 9 9 \<union> rect (?sz - 8) 0 8 9 \<union> rect 0 (?sz - 8) 9 8" and ?T = "rect 6 9 1 (?sz - 17) \<union> rect 9 6 (?sz - 17) 1"
  let ?A = "if v = 1 then {} else align_cover v" and ?V = "if 7 \<le> v then rect (?sz - 11) 0 3 6 \<union> rect 0 (?sz - 11) 6 3 else {}"
  have F: "int (card ?F) \<le> 225"
    using card_Un_le [of "rect 0 0 9 9 \<union> rect (?sz - 8) 0 8 9" "rect 0 (?sz - 8) 9 8"] card_Un_le [of "rect 0 0 9 9" "rect (?sz - 8) 0 8 9"]
    by (simp add: card_rect)
  have T: "int (card ?T) \<le> 8 * v" using card_Un_le [of "rect 6 9 1 (?sz - 17)" "rect 9 6 (?sz - 17) 1"] v by (simp add: card_rect)
  have A: "int (card ?A) \<le> (if v = 1 then 0 else 20 * (?n - 2) + 20 * (?n - 2) + 25 * ((?n - 1) * (?n - 1)))"
    using card_align_cover [of v ?n] v by simp
  have V: "int (card ?V) \<le> (if 7 \<le> v then 36 else 0)" using card_Un_le [of "rect (?sz - 11) 0 3 6" "rect 0 (?sz - 11) 6 3"] by (simp add: card_rect)
  have "function_cover v = ((?F \<union> ?T) \<union> ?A) \<union> ?V" by (simp add: function_cover_def Let_def)
  then have "int (card (function_cover v)) \<le> int (card ?F) + int (card ?T) + int (card ?A) + int (card ?V)"
    using card_Un4 [of ?F ?T ?A ?V] by (simp only:)
  also have "\<dots> \<le> 225 + 8 * v + (if v = 1 then 0 else 20 * (?n - 2) + 20 * (?n - 2) + 25 * ((?n - 1) * (?n - 1))) + (if 7 \<le> v then 36 else 0)"
    using F T A V by linarith
  also have "\<dots> = ?sz * ?sz - r"
  proof -
    obtain r' where "getNumRawDataModules v = Some r'"
      "r' = (16 * v + 128) * v + 64 - (if 2 \<le> v then (25 * ?n - 10) * ?n - 55 else 0) - (if 7 \<le> v then 36 else 0)"
      using raw_modules [OF v] by blast
    then have "r = (16 * v + 128) * v + 64 - (if 2 \<le> v then (25 * ?n - 10) * ?n - 55 else 0) - (if 7 \<le> v then 36 else 0)" using r by simp
    then show ?thesis using v by (cases "v = 1") (simp_all add: algebra_simps)
  qed
  finally show ?thesis .
qed

end
