(* ===== verification/Qr_White.thy ===== *)
theory Qr_White
  imports Qr_Pattern
begin

text \<open>
  The drawing of function patterns and format bits completes and stays within the function modules.
\<close>

section \<open>Changing function modules only\<close>

definition off :: "int \<Rightarrow> (int \<times> int) set \<Rightarrow> bytes \<Rightarrow> bytes \<Rightarrow> bool" where
  "off sz A q0 q = (qr_wf sz q \<and> length q = length q0 \<and> (\<forall>x y. in_code sz x y \<longrightarrow> (x, y) \<notin> A \<longrightarrow> pix q x y = pix q0 x y))"

lemma off_refl: "qr_wf sz q \<Longrightarrow> off sz A q q"
  by (simp add: off_def)

lemma touches_off: "touches sz h A \<Longrightarrow> off sz A q0 q \<Longrightarrow> runs (h q) (off sz A q0)"
proof -
  assume "touches sz h A" and q: "off sz A q0 q"
  then have "runs (h q) (\<lambda>q'. qr_wf sz q' \<and> length q' = length q \<and>
     (\<forall>x y. in_code sz x y \<longrightarrow> (x, y) \<notin> A \<longrightarrow> pix q' x y = pix q x y))" by (intro touchesD) (simp_all add: off_def)
  then show ?thesis by (rule runs_mono) (use q in \<open>simp add: off_def\<close>)
qed

lemma touchesI: "(\<And>q0. qr_wf sz q0 \<Longrightarrow> runs (h q0) (off sz A q0)) \<Longrightarrow> touches sz h A"
  unfolding touches_def off_def by blast

lemma off_set: "off sz A q0 q \<Longrightarrow> in_code sz x y \<Longrightarrow> (x, y) \<in> A \<Longrightarrow> runs (setModule x y b q) (off sz A q0)"
  by (rule touches_off [OF touches_set])

lemma touches_bounded: "(in_code sz x y \<Longrightarrow> (x, y) \<in> A) \<Longrightarrow> touches sz (setModuleBounded x y b) A"
proof (rule touchesI)
  fix q0
  assume "in_code sz x y \<Longrightarrow> (x, y) \<in> A" and wf: "qr_wf sz q0"
  then show "runs (setModuleBounded x y b q0) (off sz A q0)"
    using off_set [OF off_refl [OF wf], of x y A b] off_refl [OF wf, of A] by (auto simp: setModuleBounded_def Let_def in_code_def qr_wf_def)
qed

section \<open>White modules\<close>

lemma in_function:
  assumes "sz = 4 * v + 17"
  shows "0 \<le> i \<Longrightarrow> i < sz \<Longrightarrow> (6, i) \<in> function_set v" "0 \<le> i \<Longrightarrow> i < sz \<Longrightarrow> (i, 6) \<in> function_set v"
    and "(x, y) \<in> rect 0 0 9 9 \<Longrightarrow> (x, y) \<in> function_set v" "(x, y) \<in> rect (sz - 8) 0 8 9 \<Longrightarrow> (x, y) \<in> function_set v"
    and "(x, y) \<in> rect 0 (sz - 8) 9 8 \<Longrightarrow> (x, y) \<in> function_set v"
    and "7 \<le> v \<Longrightarrow> (x, y) \<in> rect (sz - 11) 0 3 6 \<Longrightarrow> (x, y) \<in> function_set v"
    and "7 \<le> v \<Longrightarrow> (x, y) \<in> rect 0 (sz - 11) 6 3 \<Longrightarrow> (x, y) \<in> function_set v"
  using assms by (auto simp: function_set_def Let_def in_rect)

lemma timing_touches:
  assumes "sz = 4 * v + 17" and "7 \<le> i" and "i < sz"
  shows "touches sz (timing_step i) (function_set v)"
  unfolding timing_step_def by (intro touches_bind touches_set) (use assms in_function(1,2) [OF assms(1)] in \<open>simp_all add: in_code_def\<close>)

lemma finder_touches:
  assumes sz: "sz = 4 * v + 17" and "1 \<le> v" and "dx \<in> {-4..4}" and "dy \<in> {-4..4}"
  shows "touches sz (finder_step sz dy dx) (function_set v)"
proof -
  have a: "in_code sz (3 + dx) (3 + dy) \<Longrightarrow> (3 + dx, 3 + dy) \<in> function_set v"
    using assms by (intro in_function(3) [OF sz]) (auto simp: in_rect in_code_def)
  have b: "in_code sz (sz - 4 + dx) (3 + dy) \<Longrightarrow> (sz - 4 + dx, 3 + dy) \<in> function_set v"
    using assms by (intro in_function(4) [OF sz]) (auto simp: in_rect in_code_def)
  have c: "in_code sz (3 + dx) (sz - 4 + dy) \<Longrightarrow> (3 + dx, sz - 4 + dy) \<in> function_set v"
    using assms by (intro in_function(5) [OF sz]) (auto simp: in_rect in_code_def)
  have "touches sz (\<lambda>q. setModuleBounded (3 + dx) (3 + dy) False q \<bind> (\<lambda>q. setModuleBounded (sz - 4 + dx) (3 + dy) False q \<bind>
      setModuleBounded (3 + dx) (sz - 4 + dy) False)) (function_set v)"
    by (intro touches_bind touches_bounded) (use a b c in blast)+
  then show ?thesis unfolding finder_step_def Let_def by (cases "(if \<bar>dx\<bar> < \<bar>dy\<bar> then \<bar>dy\<bar> else \<bar>dx\<bar>) = 2 \<or> (if \<bar>dx\<bar> < \<bar>dy\<bar> then \<bar>dy\<bar> else \<bar>dx\<bar>) = 4") simp_all
qed

lemma alignment_touches:
  assumes v: "1 \<le> v" "v \<le> 40"
  shows "touches (4 * v + 17) (draw_alignment v) (function_set v)"
proof (cases "v = 1")
  case True
  have "draw_alignment v = Some" by (rule ext) (simp add: draw_alignment_def True getAlignmentPatternPositions_def Let_def)
  then show ?thesis by simp
next
  case False
  then have v2: "2 \<le> v" using v by simp
  let ?ps = "getAlignmentPatternPositions v"
  let ?n = "int (length ?ps)"
  show ?thesis
    unfolding draw_alignment_def Let_def
  proof (intro touches_loop)
    fix i j
    assume i: "i \<in> set [0..?n - 1]" and j: "j \<in> set [0..?n - 1]"
    note p = align_pos [OF v2 v(2) i] align_pos [OF v2 v(2) j]
    have "touches (4 * v + 17) (setModule (?ps ! nat i + dx) (?ps ! nat j + dy) (dx = 0 \<and> dy = 0)) (function_set v)"
      if nf: "\<not> on_finder ?n i j" and d: "dx \<in> set [-1..1]" "dy \<in> set [-1..1]" for dx dy
    proof (rule touches_set)
      have "(?ps ! nat i + dx, ?ps ! nat j + dy) \<in> rect (?ps ! nat i - 2) (?ps ! nat j - 2) 5 5" using d by (auto simp: in_rect)
      then have "(?ps ! nat i + dx, ?ps ! nat j + dy) \<in> align_set v" unfolding align_set_eq [OF assms] Let_def using nf by (intro UN_I [OF i] UN_I [OF j]) simp
      then show "(?ps ! nat i + dx, ?ps ! nat j + dy) \<in> function_set v" by (simp add: function_set_def Let_def)
      show "in_code (4 * v + 17) (?ps ! nat i + dx) (?ps ! nat j + dy)" using p d by (auto simp: in_code_def)
    qed
    then show "touches (4 * v + 17) (\<lambda>q. if on_finder ?n i j then Some q
        else foldM (\<lambda>dy. foldM (\<lambda>dx. setModule (?ps ! nat i + dx) (?ps ! nat j + dy) (dx = 0 \<and> dy = 0)) [-1..1]) [-1..1] q) (function_set v)"
      by (cases "on_finder ?n i j") (simp_all only: if_True if_False touches_skip, intro touches_loop, blast)
  qed
qed

lemma version_bits_table: "\<forall>v \<in> {7..40 :: int}. drop_bit 18 (push_bit 12 v OR version_rem v) = 0"
proof -
  have "list_all (\<lambda>v. drop_bit 18 (push_bit 12 v OR version_rem v) = 0) [7..40]" by code_simp
  then show ?thesis by (simp only: list_all_iff set_upto)
qed

lemma version_step_ok:
  assumes "7 \<le> v" and sz: "sz = 4 * v + 17" and "off sz (function_set v) q0 (fst s)" and "i \<in> set [0..5]" and "j \<in> set [0..2]"
  shows "runs (version_step sz i j s) (\<lambda>s'. off sz (function_set v) q0 (fst s'))"
proof -
  have k: "in_code sz (sz - 11 + j) i" "(sz - 11 + j, i) \<in> function_set v" "in_code sz i (sz - 11 + j)" "(i, sz - 11 + j) \<in> function_set v"
    using assms in_function(6,7) [OF sz assms(1)] by (auto simp: in_code_def in_rect)
  show ?thesis
    unfolding version_step_def case_prod_beta Let_def
    by (rule runs_bind [OF off_set [OF assms(3) k(1,2)]], rule runs_bind [OF off_set [OF _ k(3,4)]]) simp_all
qed

lemma drawWhite_touches:
  assumes v: "1 \<le> v" "v \<le> 40" and sz: "sz = 4 * v + 17"
  shows "touches sz (\<lambda>q. drawWhiteFunctionModules q v) (function_set v)"
proof (rule touchesI)
  fix q0
  assume wf: "qr_wf sz q0"
  let ?O = "off sz (function_set v) q0"
  have version_loop: "runs (foldM (\<lambda>i. foldM (version_step sz i) [0..2]) [0..5] (q, bits)) (\<lambda>s. ?O (fst s))"
    if "?O q" "7 \<le> v" for q bits
    by (rule runs_foldM, rule runs_foldM) (use that version_step_ok [OF _ sz] in \<open>simp_all del: set_upto\<close>)
  have "runs (drawWhiteFunctionModules q0 v) ?O"
    unfolding drawWhiteFunctionModules_def getSize_ok [OF wf] Option.bind.simps
  proof (rule runs_bind)
    show "runs (foldM timing_step (filter (\<lambda>i. i mod 2 = 1) [7..sz - 8]) q0) ?O"
      by (rule touches_off [OF touches_loop off_refl [OF wf]]) (use timing_touches [OF sz] in auto)
  next
    fix q1
    assume q1: "?O q1"
    show "runs (foldM (\<lambda>dy. foldM (finder_step sz dy) [-4..4]) [-4..4] q1 \<bind> (\<lambda>q. draw_alignment v q \<bind> (\<lambda>q.
        if 7 \<le> v then let bits = push_bit 12 v OR version_rem v in guard (drop_bit 18 bits = 0) \<bind> (\<lambda>_.
          foldM (\<lambda>i. foldM (version_step sz i) [0..2]) [0..5] (q, bits) \<bind> (\<lambda>(q, _). Some q)) else Some q))) ?O"
    proof (rule runs_bind)
      show "runs (foldM (\<lambda>dy. foldM (finder_step sz dy) [-4..4]) [-4..4] q1) ?O"
        by (rule touches_off [OF touches_loop q1], rule touches_loop) (rule finder_touches [OF sz v(1)]; simp only: set_upto)
    next
      fix q2
      assume q2: "?O q2"
      show "runs (draw_alignment v q2 \<bind> (\<lambda>q.
        if 7 \<le> v then let bits = push_bit 12 v OR version_rem v in guard (drop_bit 18 bits = 0) \<bind> (\<lambda>_.
          foldM (\<lambda>i. foldM (version_step sz i) [0..2]) [0..5] (q, bits) \<bind> (\<lambda>(q, _). Some q)) else Some q)) ?O"
        by (rule runs_bind [OF touches_off [OF alignment_touches [OF v, folded sz] q2]], cases "7 \<le> v")
          (use v version_bits_table in \<open>auto simp: Let_def intro!: runs_bind [OF version_loop]\<close>)
    qed
  qed
  then show "runs (drawWhiteFunctionModules q0 v) ?O" .
qed

section \<open>Format bits\<close>

lemma format_bits_table: "\<forall>msk \<in> {0..7}. drop_bit 15 (format_bits ecl msk) = 0"
proof -
  have "list_all (\<lambda>ecl. list_all (\<lambda>msk. drop_bit 15 (format_bits ecl msk) = 0) [0..7]) [Ecc_LOW, Ecc_MEDIUM, Ecc_QUARTILE, Ecc_HIGH]"
    by code_simp
  then have "list_all (\<lambda>msk. drop_bit 15 (format_bits ecl msk) = 0) [0..7]" by (cases ecl) simp_all
  then show ?thesis by (simp only: list_all_iff set_upto)
qed

lemma drawFormat_touches:
  assumes v: "1 \<le> v" and sz: "sz = 4 * v + 17" and m: "0 \<le> msk" "msk \<le> 7"
  shows "touches sz (drawFormatBits ecl msk) (function_set v)"
proof (rule touchesI)
  fix q0
  assume wf: "qr_wf sz q0"
  let ?O = "off sz (function_set v) q0" and ?b = "format_bits ecl msk"
  have a: "touches sz (setModule x y b) (function_set v)" if "(x, y) \<in> rect 0 0 9 9" for x y b
    by (rule touches_set) (use that in_function(3) [OF sz that] v sz in \<open>auto simp: in_code_def in_rect\<close>)
  have c: "touches sz (setModule x y b) (function_set v)" if "(x, y) \<in> rect (sz - 8) 0 8 9" for x y b
    by (rule touches_set) (use that in_function(4) [OF sz that] v sz in \<open>auto simp: in_code_def in_rect\<close>)
  have d: "touches sz (setModule x y b) (function_set v)" if "(x, y) \<in> rect 0 (sz - 8) 9 8" for x y b
    by (rule touches_set) (use that in_function(5) [OF sz that] v sz in \<open>auto simp: in_code_def in_rect\<close>)
  have first: "touches sz (\<lambda>q. foldM (\<lambda>i. setModule 8 i (getBit ?b (nat i))) [0..5] q \<bind> (\<lambda>q. setModule 8 7 (getBit ?b 6) q \<bind>
      (\<lambda>q. setModule 8 8 (getBit ?b 7) q \<bind> (\<lambda>q. setModule 7 8 (getBit ?b 8) q \<bind>
      foldM (\<lambda>i. setModule (14 - i) 8 (getBit ?b (nat i))) [9..14])))) (function_set v)"
    by (intro touches_bind touches_loop a) (auto simp: in_rect)
  have second: "touches sz (\<lambda>q. foldM (\<lambda>i. setModule (sz - 1 - i) 8 (getBit ?b (nat i))) [0..7] q \<bind>
      (\<lambda>q. foldM (\<lambda>i. setModule 8 (sz - 15 + i) (getBit ?b (nat i))) [8..14] q \<bind> setModule 8 (sz - 8) True)) (function_set v)"
    by (rule touches_bind [OF touches_loop [OF c] touches_bind [OF touches_loop [OF d] d]]) (auto simp: in_rect)
  have e: "drawFormatBits ecl msk q0 =
     (foldM (\<lambda>i. setModule 8 i (getBit ?b (nat i))) [0..5] q0 \<bind> (\<lambda>q. setModule 8 7 (getBit ?b 6) q \<bind>
      (\<lambda>q. setModule 8 8 (getBit ?b 7) q \<bind> (\<lambda>q. setModule 7 8 (getBit ?b 8) q \<bind>
      foldM (\<lambda>i. setModule (14 - i) 8 (getBit ?b (nat i))) [9..14])))) \<bind> (\<lambda>q. qrcodegen_getSize q \<bind> (\<lambda>qrsize.
      foldM (\<lambda>i. setModule (qrsize - 1 - i) 8 (getBit ?b (nat i))) [0..7] q \<bind>
      (\<lambda>q. foldM (\<lambda>i. setModule 8 (qrsize - 15 + i) (getBit ?b (nat i))) [8..14] q \<bind> setModule 8 (qrsize - 8) True)))"
    unfolding drawFormatBits_def Let_def using m format_bits_table [of ecl] by simp
  show "runs (drawFormatBits ecl msk q0) ?O"
    unfolding e
  proof (rule runs_bind [OF touches_off [OF first off_refl [OF wf]]])
    fix q
    assume q: "?O q"
    then have "qrcodegen_getSize q = Some sz" by (simp add: off_def getSize_ok)
    then show "runs (qrcodegen_getSize q \<bind> (\<lambda>qrsize.
      foldM (\<lambda>i. setModule (qrsize - 1 - i) 8 (getBit ?b (nat i))) [0..7] q \<bind>
      (\<lambda>q. foldM (\<lambda>i. setModule 8 (qrsize - 15 + i) (getBit ?b (nat i))) [8..14] q \<bind> setModule 8 (qrsize - 8) True))) ?O"
      using touches_off [OF second q] by simp
  qed
qed

end
