(* ===== verification/Qr_Scan.thy ===== *)
theory Qr_Scan
  imports Qr_White
begin

text \<open>
  Drawing the codewords, masking and scoring. The zigzag scan visits every module outside column 6
  once; the modules it finds white get the bits of the codewords in order, and there are enough of
  them. Applying a mask inverts its modules outside the function patterns.
\<close>

section \<open>The zigzag scan\<close>

definition scan_cell :: "int \<Rightarrow> int \<times> int \<times> int \<Rightarrow> int \<times> int" where
  "scan_cell sz = (\<lambda>(right, vert, j). (right - j, if (right + 1) AND 2 = 0 then sz - 1 - vert else vert))"

definition zigzag :: "int \<Rightarrow> (int \<times> int) list" where
  "zigzag sz = map (scan_cell sz)
     (concat (map (\<lambda>right. map (Pair right) (concat (map (\<lambda>vert. map (Pair vert) [0..1]) [0..sz - 1]))) (right_columns (sz - 1))))"

definition cell_step :: "bytes \<Rightarrow> nat \<Rightarrow> int \<times> int \<Rightarrow> bytes \<times> nat \<Rightarrow> (bytes \<times> nat) option" where
  "cell_step d dataLen = (\<lambda>(x, y) (q, i). do {
     m \<leftarrow> getModule q x y;
     if \<not> m \<and> i < dataLen * 8 then do {
       guard (i div 8 < length d);
       q \<leftarrow> setModule x y (getBit (uint (d ! (i div 8))) (7 - i mod 8)) q;
       Some (q, i + 1) }
     else Some (q, i) })"

lemma codeword_step_cell: "codeword_step d n sz right vert j = cell_step d n (scan_cell sz (right, vert, j))"
  by (rule ext) (simp add: codeword_step_def cell_step_def scan_cell_def Let_def split: prod.split)

lemma scan_loop:
  "foldM (\<lambda>right. foldM (\<lambda>vert. foldM (codeword_step d n sz right vert) [0..1]) [0..sz - 1]) (right_columns (sz - 1)) s =
   foldM (cell_step d n) (zigzag sz) s"
proof -
  have "(\<lambda>right. foldM (\<lambda>vert. foldM (codeword_step d n sz right vert) [0..1]) [0..sz - 1]) =
    (\<lambda>right. foldM (\<lambda>(vert, j). codeword_step d n sz right vert j) (concat (map (\<lambda>vert. map (Pair vert) [0..1]) [0..sz - 1])))"
    by (rule ext)+ (rule foldM_nested)
  then show ?thesis unfolding zigzag_def foldM_map
    by (simp only: foldM_nested) (simp add: codeword_step_cell case_prod_unfold)
qed

lemma columns_step: "right_columns (2 * int (Suc k) + 6) = (2 * int k + 8) # right_columns (2 * int k + 6)"
  by (subst right_columns.simps) (simp add: Let_def algebra_simps)

lemma columns_last: "right_columns 6 = [5, 3, 1]"
  by (simp add: right_columns.simps Let_def)

lemma columns_set:
  "length (right_columns (2 * int k + 6)) = k + 3 \<and>
   {x. \<exists>r \<in> set (right_columns (2 * int k + 6)). x = r \<or> x = r - 1} = {0..2 * int k + 6} - {6}"
proof (induction k)
  case 0
  then show ?case by (auto simp: columns_last)
next
  case (Suc k)
  have "{x. \<exists>r \<in> set (right_columns (2 * int (Suc k) + 6)). x = r \<or> x = r - 1} =
      {2 * int k + 8, 2 * int k + 7} \<union> {x. \<exists>r \<in> set (right_columns (2 * int k + 6)). x = r \<or> x = r - 1}"
    unfolding columns_step by auto
  also have "\<dots> = {2 * int k + 8, 2 * int k + 7} \<union> ({0..2 * int k + 6} - {6})" using Suc.IH by simp
  also have "\<dots> = {0..2 * int (Suc k) + 6} - {6}" by auto
  finally show ?case using Suc.IH columns_step by simp
qed

lemma columns_size:
  assumes "1 \<le> v" and "sz = 4 * v + 17"
  shows "int (length (right_columns (sz - 1))) * 2 = sz - 1" and "(\<exists>r \<in> set (right_columns (sz - 1)). x = r \<or> x = r - 1) \<longleftrightarrow> 0 \<le> x \<and> x < sz \<and> x \<noteq> 6"
proof -
  have e: "sz - 1 = 2 * int (nat (2 * v + 5)) + 6" using assms by simp
  show "int (length (right_columns (sz - 1))) * 2 = sz - 1"
    unfolding e using columns_set [of "nat (2 * v + 5)"] by simp
  have "(\<exists>r \<in> set (right_columns (sz - 1)). x = r \<or> x = r - 1) \<longleftrightarrow> x \<in> {0..sz - 1} - {6}"
    unfolding e using columns_set [of "nat (2 * v + 5)"] by blast
  then show "(\<exists>r \<in> set (right_columns (sz - 1)). x = r \<or> x = r - 1) \<longleftrightarrow> 0 \<le> x \<and> x < sz \<and> x \<noteq> 6" by auto
qed

lemma mem_scan:
  "(r, w, j) \<in> set (concat (map (\<lambda>r. map (Pair r) (concat (map (\<lambda>w. map (Pair w) js) ws))) rs)) \<longleftrightarrow> r \<in> set rs \<and> w \<in> set ws \<and> j \<in> set js"
  by auto

lemma set_zigzag:
  assumes "1 \<le> v" and "sz = 4 * v + 17"
  shows "set (zigzag sz) = {(x, y). in_code sz x y \<and> x \<noteq> 6}"
proof (intro set_eqI iffI)
  fix p
  assume "p \<in> set (zigzag sz)"
  then obtain r w j where "r \<in> set (right_columns (sz - 1))" "w \<in> set [0..sz - 1]" "j \<in> set [0..1]" "p = scan_cell sz (r, w, j)"
    unfolding zigzag_def by auto
  moreover from this have "r - j = r \<or> r - j = r - 1" by auto
  ultimately show "p \<in> {(x, y). in_code sz x y \<and> x \<noteq> 6}"
    using columns_size(2) [OF assms, of "r - j"] by (auto simp: scan_cell_def in_code_def)
next
  fix p
  assume "p \<in> {(x, y). in_code sz x y \<and> x \<noteq> 6}"
  then obtain x y where p: "p = (x, y)" "in_code sz x y" "x \<noteq> 6" by auto
  then obtain r where r: "r \<in> set (right_columns (sz - 1))" "x = r \<or> x = r - 1" using columns_size(2) [OF assms, of x] by (auto simp: in_code_def)
  let ?w = "if (r + 1) AND 2 = 0 then sz - 1 - y else y"
  have j: "r - x \<in> set [0..1]" using r(2) by (auto simp only: set_upto atLeastAtMost_iff)
  have w: "?w \<in> set [0..sz - 1]"
    using p(2) unfolding set_upto atLeastAtMost_iff in_code_def by presburger
  have "p = scan_cell sz (r, ?w, r - x)" unfolding p(1) scan_cell_def by simp
  then show "p \<in> set (zigzag sz)"
    unfolding zigzag_def using r(1) j w by (auto simp only: set_map mem_scan intro!: image_eqI [of _ _ "(r, ?w, r - x)"])
qed

lemma card_code: "0 \<le> sz \<Longrightarrow> card {(x, y). in_code sz x y} = nat sz * nat sz" "finite {(x, y). in_code sz x y}"
proof -
  have "{(x, y). in_code sz x y} = {0..<sz} \<times> {0..<sz}" by (auto simp: in_code_def)
  then show "card {(x, y). in_code sz x y} = nat sz * nat sz" "finite {(x, y). in_code sz x y}" by simp_all
qed

lemma length_zigzag:
  assumes "1 \<le> v" and "sz = 4 * v + 17"
  shows "int (length (zigzag sz)) = (sz - 1) * sz"
proof -
  let ?c = "right_columns (sz - 1)"
  have "length (zigzag sz) = length ?c * (length [0..sz - 1] * 2)" by (simp add: zigzag_def length_concat comp_def sum_list_triv upto.simps)
  then have "int (length (zigzag sz)) = int (length ?c) * 2 * sz" using assms by simp
  then show ?thesis using columns_size(1) [OF assms] by simp
qed

lemma distinct_zigzag:
  assumes "1 \<le> v" and "sz = 4 * v + 17"
  shows "distinct (zigzag sz)"
proof (rule card_distinct)
  have "set (zigzag sz) = ({0..<sz} - {6}) \<times> {0..<sz}" unfolding set_zigzag [OF assms] by (auto simp: in_code_def)
  moreover have "card ({0..<sz} - {6}) = nat (sz - 1)" using assms by (simp add: card_Diff_singleton_if)
  ultimately have "int (card (set (zigzag sz))) = (sz - 1) * sz" using assms by (simp add: card_cartesian_product)
  then show "card (set (zigzag sz)) = length (zigzag sz)" using length_zigzag [OF assms] by simp
qed

section \<open>Drawing the codewords\<close>

definition whites :: "bytes \<Rightarrow> (int \<times> int) list \<Rightarrow> (int \<times> int) list" where
  "whites q0 ds = filter (\<lambda>(x, y). \<not> pix q0 x y) ds"

definition drawn :: "int \<Rightarrow> bytes \<Rightarrow> nat \<Rightarrow> bytes \<Rightarrow> (int \<times> int) list \<Rightarrow> bytes \<times> nat \<Rightarrow> bool" where
  "drawn sz d dl q0 ds = (\<lambda>(q, i). qr_wf sz q \<and> length q = length q0 \<and> i = min (dl * 8) (length (whites q0 ds)) \<and>
     (\<forall>x y. in_code sz x y \<longrightarrow> (x, y) \<notin> set (whites q0 ds) \<longrightarrow> pix q x y = pix q0 x y) \<and>
     (\<forall>n < length (whites q0 ds). pix q (fst (whites q0 ds ! n)) (snd (whites q0 ds ! n)) = (n < dl * 8 \<and> codeword_bit d n)))"

lemma cell_step_drawn:
  assumes I: "drawn sz d dl q0 ds s" and len: "dl \<le> length d" and p: "in_code sz x y" and ds: "\<forall>(x, y) \<in> set ds. in_code sz x y" "(x, y) \<notin> set ds"
  shows "runs (cell_step d dl (x, y) s) (drawn sz d dl q0 (ds @ [(x, y)]))"
proof -
  obtain q i where s: "s = (q, i)" by force
  let ?w = "whites q0 ds"
  have q: "qr_wf sz q" "length q = length q0" "i = min (dl * 8) (length ?w)"
    "\<And>x y. in_code sz x y \<Longrightarrow> (x, y) \<notin> set ?w \<Longrightarrow> pix q x y = pix q0 x y"
    "\<And>n. n < length ?w \<Longrightarrow> pix q (fst (?w ! n)) (snd (?w ! n)) = (n < dl * 8 \<and> codeword_bit d n)"
    using I by (simp_all add: drawn_def s)
  have new: "(x, y) \<notin> set ?w" using ds(2) by (auto simp: whites_def)
  have m: "getModule q x y = Some (pix q0 x y)" using getModule_ok [OF q(1) p] q(4) [OF p new] by simp
  show ?thesis
  proof (cases "pix q0 x y")
    case True
    then have "whites q0 (ds @ [(x, y)]) = ?w" by (simp add: whites_def)
    then show ?thesis using I m True by (simp add: cell_step_def s drawn_def)
  next
    case False
    then have w: "whites q0 (ds @ [(x, y)]) = ?w @ [(x, y)]" by (simp add: whites_def)
    show ?thesis
    proof (cases "i < dl * 8")
      case True
      then have i: "i = length ?w" "i div 8 < length d" using q(3) len by simp_all
      have inside: "in_code sz (fst (?w ! n)) (snd (?w ! n)) \<and> ?w ! n \<noteq> (x, y)" if "n < length ?w" for n
        using nth_mem [OF that] ds(1) new by (auto simp: whites_def case_prod_unfold)
      have "runs (setModule x y (codeword_bit d i) q) (\<lambda>q'. drawn sz d dl q0 (ds @ [(x, y)]) (q', i + 1))"
        using setModule_ok [OF q(1) p, of "codeword_bit d i"]
      proof (rule runs_mono)
        fix q'
        assume q': "qr_wf sz q' \<and> length q' = length q \<and>
          (\<forall>x' y'. in_code sz x' y' \<longrightarrow> pix q' x' y' = (if x' = x \<and> y' = y then codeword_bit d i else pix q x' y'))"
        have old: "pix q' (fst (?w ! n)) (snd (?w ! n)) = (n < dl * 8 \<and> codeword_bit d n)" if n: "n < length ?w" for n
        proof -
          have "\<not> (fst (?w ! n) = x \<and> snd (?w ! n) = y)" using inside [OF n] by (metis prod.collapse)
          then show ?thesis using q' inside [OF n] q(5) [OF n] by auto
        qed
        have "pix q' x y = codeword_bit d i" using q' p by simp
        then have "\<forall>n < length (?w @ [(x, y)]). pix q' (fst ((?w @ [(x, y)]) ! n)) (snd ((?w @ [(x, y)]) ! n)) = (n < dl * 8 \<and> codeword_bit d n)"
          using old True i by (auto simp: nth_append less_Suc_eq)
        then show "drawn sz d dl q0 (ds @ [(x, y)]) (q', i + 1)"
          unfolding drawn_def w using q' q True i by auto
      qed
      then show ?thesis using m False True i(2) by (auto simp: cell_step_def s getBit_codeword intro!: runs_bind)
    next
      case False
      then have "i = dl * 8" "dl * 8 \<le> length ?w" using q(3) by simp_all
      moreover have "\<not> pix q x y" using q(4) [OF p new] \<open>\<not> pix q0 x y\<close> by simp
      ultimately have "drawn sz d dl q0 (ds @ [(x, y)]) (q, i)"
        unfolding drawn_def w using q by (auto simp: nth_append less_Suc_eq)
      then show ?thesis using m \<open>\<not> pix q0 x y\<close> False by (simp add: cell_step_def s)
    qed
  qed
qed

lemma zigzag_drawn:
  assumes v: "1 \<le> v" "sz = 4 * v + 17" and wf: "qr_wf sz q0" and len: "dl \<le> length d"
  shows "runs (foldM (cell_step d dl) (zigzag sz) (q0, 0)) (drawn sz d dl q0 (zigzag sz))"
proof (rule runs_foldM_done [where I = "drawn sz d dl q0"])
  fix ds p es s
  assume z: "zigzag sz = ds @ p # es" and s: "drawn sz d dl q0 ds s"
  obtain x y where p: "p = (x, y)" by force
  have all: "\<forall>(x, y) \<in> set (zigzag sz). in_code sz x y" using set_zigzag [OF v] by auto
  have "p \<notin> set ds" using distinct_zigzag [OF v] unfolding z by simp
  then show "runs (cell_step d dl p s) (drawn sz d dl q0 (ds @ [p]))"
    unfolding p by (intro cell_step_drawn [OF s len]) (use all in \<open>auto simp: z p\<close>)
next
  show "drawn sz d dl q0 [] (q0, 0)" using wf by (simp add: drawn_def whites_def)
qed

lemma set_whites:
  assumes "1 \<le> v" and "sz = 4 * v + 17" and "\<And>x y. in_code sz x y \<Longrightarrow> pix q0 x y = ((x, y) \<in> function_set v)"
  shows "set (whites q0 (zigzag sz)) = {(x, y). in_code sz x y} - function_set v"
proof -
  have "(6, y) \<in> function_set v" if "in_code sz 6 y" for y using in_function(1) [OF assms(2)] that by (simp add: in_code_def)
  then show ?thesis unfolding whites_def set_filter set_zigzag [OF assms(1,2)] using assms(3) by auto
qed

lemma enough_whites:
  assumes v: "1 \<le> v" "v \<le> 40" "sz = 4 * v + 17" and q0: "\<And>x y. in_code sz x y \<Longrightarrow> pix q0 x y = ((x, y) \<in> function_set v)"
    and r: "getNumRawDataModules v = Some r"
  shows "nat (r div 8) * 8 \<le> length (whites q0 (zigzag sz))"
proof -
  let ?C = "{(x, y). in_code sz x y}" and ?F = "function_cover v"
  have "distinct (whites q0 (zigzag sz))" using distinct_zigzag [OF v(1,3)] by (simp add: whites_def)
  then have l: "length (whites q0 (zigzag sz)) = card (?C - function_set v)"
    using set_whites [OF v(1,3) q0] distinct_card by fastforce
  have "card (?C - ?F) \<le> card (?C - function_set v)" using function_set_cover [OF v(1,2)] card_code(2) by (intro card_mono) auto
  moreover have "card ?C \<le> card (?C - ?F) + card ?F"
    using card_Un_le [of "?C - ?F" "?F"] card_mono [of "(?C - ?F) \<union> ?F" ?C] card_code(2) function_cover_finite by fastforce
  moreover have "int (card ?C) = sz * sz" using card_code(1) [of sz] v by simp
  moreover have "int (card ?F) \<le> sz * sz - r" using card_function_cover [OF v(1,2) r] v(3) by simp
  ultimately have "r \<le> int (length (whites q0 (zigzag sz)))" using l by linarith
  then show ?thesis by linarith
qed

lemma drawCodewords_ok:
  assumes v: "1 \<le> v" "v \<le> 40" "sz = 4 * v + 17" and wf: "qr_wf sz q0"
    and q0: "\<And>x y. in_code sz x y \<Longrightarrow> pix q0 x y = ((x, y) \<in> function_set v)"
    and r: "getNumRawDataModules v = Some r" and len: "nat (r div 8) \<le> length d"
  shows "runs (drawCodewords d (nat (r div 8)) q0) (\<lambda>q. drawn sz d (nat (r div 8)) q0 (zigzag sz) (q, nat (r div 8) * 8))"
  unfolding drawCodewords_def getSize_ok [OF wf] Option.bind.simps scan_loop
  by (rule runs_bind [OF zigzag_drawn [OF v(1,3) wf len]])
    (use enough_whites [OF v q0 r] in \<open>auto simp: drawn_def\<close>)

section \<open>The scan of the standard\<close>

text \<open>The order the standard prescribes: pairs of columns from the right, without column 6, alternately upwards
  and downwards, in each row the right module first.\<close>

definition pair_cells :: "int \<Rightarrow> bool \<Rightarrow> int \<Rightarrow> (int \<times> int) list" where
  "pair_cells sz up right = concat (map (\<lambda>y. [(right, y), (right - 1, y)]) (if up then rev [0..sz - 1] else [0..sz - 1]))"

definition standard_scan :: "int \<Rightarrow> (int \<times> int) list" where
  "standard_scan sz = concat (map (\<lambda>k. pair_cells sz (even k) (if 2 * int k < sz - 7 then sz - 1 - 2 * int k else sz - 2 - 2 * int k))
     [0..<nat ((sz - 1) div 2)])"

lemma rev_upto: "rev [0..sz - 1] = map (\<lambda>i. sz - 1 - i) [0..sz - 1]" for sz :: int
proof (rule nth_equalityI)
  fix i
  assume "i < length (rev [0..sz - 1])"
  then have i: "i < nat sz" by simp
  then have "[0..sz - 1] ! (nat sz - Suc i) = 0 + int (nat sz - Suc i)" by (intro nth_upto) linarith
  then show "rev [0..sz - 1] ! i = map (\<lambda>i. sz - 1 - i) [0..sz - 1] ! i" using i by (simp add: rev_nth of_nat_diff)
qed simp

lemma column_pair: "map (scan_cell sz) (map (Pair right) (concat (map (\<lambda>vert. map (Pair vert) [0..1]) [0..sz - 1]))) =
    pair_cells sz ((right + 1) AND 2 = 0) right"
proof -
  have "[0..1] = [0, 1 :: int]" by (simp add: upto.simps)
  then show ?thesis
    by (cases "(right + 1) AND 2 = 0") (simp_all add: pair_cells_def rev_upto map_concat o_def scan_cell_def)
qed

lemma right_columns_eq: "right_columns (8 + 2 * int n) = map (\<lambda>k. 8 + 2 * int n - 2 * int k) [0..<Suc n] @ [5, 3, 1]"
proof (induction n)
  case 0
  show ?case by (simp add: right_columns.simps)
next
  case (Suc n)
  have "right_columns (8 + 2 * int (Suc n)) = (8 + 2 * int (Suc n)) # right_columns (8 + 2 * int n)"
    by (subst right_columns.simps) (simp add: Let_def)
  then show ?case unfolding Suc.IH map_upt_Suc [of _ "Suc n"] by simp
qed

lemma upward_bit: "((4 * w + 1 - 2 * int k) AND 2 = 0) = even k"
proof -
  have "((4 * w + 1 - 2 * int k) AND 2 = 0) = (\<not> bit (4 * w + 1 - 2 * int k) 1)"
    by (simp add: and_exp_eq_0_iff_not_bit [of _ 1, simplified])
  also have "\<dots> = even k" by (simp add: bit_iff_odd) presburger
  finally show ?thesis .
qed

lemma zigzag_standard:
  assumes "1 \<le> v" and "sz = 4 * v + 17"
  shows "zigzag sz = standard_scan sz"
proof -
  define n where "n = nat (2 * v + 4)"
  have n: "sz - 1 = 8 + 2 * int n" "nat ((sz - 1) div 2) = n + 4" using assms unfolding n_def by simp_all
  have z: "zigzag sz = concat (map (\<lambda>right. pair_cells sz ((right + 1) AND 2 = 0) right) (right_columns (sz - 1)))"
    unfolding zigzag_def map_concat [of "scan_cell sz"] map_map o_def [of "map (scan_cell sz)"]
    by (simp only: column_pair [unfolded map_map])
  have a: "pair_cells sz ((8 + 2 * int n - 2 * int k + 1) AND 2 = 0) (8 + 2 * int n - 2 * int k) =
      pair_cells sz (even k) (if 2 * int k < sz - 7 then sz - 1 - 2 * int k else sz - 2 - 2 * int k)" if "k < Suc n" for k
  proof -
    have e: "8 + 2 * int n - 2 * int k + 1 = 4 * (v + 4) + 1 - 2 * int k" using n(1) assms(2) by simp
    have "2 * int k < sz - 7" using that n(1) by simp
    then show ?thesis unfolding e upward_bit using n(1) by simp
  qed
  have ev: "odd (Suc n)" using assms unfolding n_def by (simp add: even_nat_iff)
  have b: "[0..<n + 4] = [0..<Suc n] @ [Suc n, Suc (Suc n), Suc (Suc (Suc n))]" by (simp add: numeral_eq_Suc)
  have s: "sz - 2 - 2 * int (Suc n) = 5" "sz - 2 - 2 * int (Suc (Suc n)) = 3" "sz - 2 - 2 * int (Suc (Suc (Suc n))) = 1" using n(1) by simp_all
  have g: "\<not> 2 * int (Suc n) < sz - 7" "\<not> 2 * int (Suc (Suc n)) < sz - 7" "\<not> 2 * int (Suc (Suc (Suc n))) < sz - 7" using n(1) by simp_all
  have r: "right_columns (sz - 1) = map (\<lambda>k. 8 + 2 * int n - 2 * int k) [0..<Suc n] @ [5, 3, 1]" unfolding n(1) by (rule right_columns_eq)
  have h: "map (\<lambda>right. pair_cells sz ((right + 1) AND 2 = 0) right) (map (\<lambda>k. 8 + 2 * int n - 2 * int k) [0..<Suc n]) =
      map (\<lambda>k. pair_cells sz (even k) (if 2 * int k < sz - 7 then sz - 1 - 2 * int k else sz - 2 - 2 * int k)) [0..<Suc n]"
    unfolding map_map o_def by (rule map_cong [OF refl], rule a) (simp only: set_upt atLeastLessThan_iff)
  show ?thesis
    unfolding z r standard_scan_def n(2) b map_append concat_append h
    using ev by (simp add: s g del: of_nat_Suc)
qed

end
