(* ===== verification/Qr_Mask.thy ===== *)
theory Qr_Mask
  imports Qr_Scan
begin

text \<open>
  Masks and the penalty score. A mask inverts its modules outside the function patterns, so that
  applying it twice changes nothing; the score can always be computed.
\<close>

section \<open>Masks\<close>

definition masked :: "int \<Rightarrow> bytes \<Rightarrow> int \<Rightarrow> bytes \<Rightarrow> bytes \<Rightarrow> bool" where
  "masked sz fm msk q0 q = (qr_wf sz q \<and> length q = length q0 \<and>
     (\<forall>x y. in_code sz x y \<longrightarrow> pix q x y = (if pix fm x y then pix q0 x y else pix q0 x y \<noteq> mask_invert msk x y)))"

definition masked_part :: "int \<Rightarrow> bytes \<Rightarrow> int \<Rightarrow> bytes \<Rightarrow> (int \<times> int) list \<Rightarrow> bytes \<Rightarrow> bool" where
  "masked_part sz fm msk q0 ds q = (qr_wf sz q \<and> length q = length q0 \<and>
     (\<forall>x y. in_code sz x y \<longrightarrow> pix q x y = (if (y, x) \<in> set ds \<and> \<not> pix fm x y then pix q0 x y \<noteq> mask_invert msk x y else pix q0 x y)))"

lemma mask_step_part:
  assumes I: "masked_part sz fm msk q0 ds q" and fm: "qr_wf sz fm" and p: "in_code sz x y" "(y, x) \<notin> set ds"
  shows "runs (mask_step fm msk y x q) (masked_part sz fm msk q0 (ds @ [(y, x)]))"
proof -
  have q: "qr_wf sz q" "pix q x y = pix q0 x y" using I p by (simp_all add: masked_part_def)
  show ?thesis
  proof (cases "pix fm x y")
    case True
    then have "masked_part sz fm msk q0 (ds @ [(y, x)]) q" using I by (auto simp: masked_part_def)
    then show ?thesis using True getModule_ok [OF fm p(1)] by (simp add: mask_step_def)
  next
    case False
    have "runs (setModule x y (pix q0 x y \<noteq> mask_invert msk x y) q) (masked_part sz fm msk q0 (ds @ [(y, x)]))"
      using setModule_ok [OF q(1) p(1), of "pix q0 x y \<noteq> mask_invert msk x y"] I False
      by (elim runs_mono) (auto simp: masked_part_def)
    then show ?thesis using False getModule_ok [OF fm p(1)] getModule_ok [OF q(1) p(1)] q(2) by (simp add: mask_step_def)
  qed
qed

lemma distinct_pairs: "distinct xs \<Longrightarrow> distinct ys \<Longrightarrow> distinct (concat (map (\<lambda>x. map (Pair x) ys) xs))"
  by (induction xs) (auto simp: distinct_map inj_on_def)

lemma set_pairs: "set (concat (map (\<lambda>x. map (Pair x) ys) xs)) = set xs \<times> set ys"
  by auto

lemma applyMask_ok:
  assumes "0 \<le> msk" and "msk \<le> 7" and fm: "qr_wf sz fm" and q0: "qr_wf sz q0"
  shows "runs (applyMask fm msk q0) (masked sz fm msk q0)"
proof -
  define ps where "ps = concat (map (\<lambda>y. map (Pair y) [0..sz - 1]) [0..sz - 1])"
  have d: "distinct ps" unfolding ps_def by (rule distinct_pairs) simp_all
  have s: "set ps = {0..sz - 1} \<times> {0..sz - 1}" unfolding ps_def set_pairs by simp
  have "runs (foldM (\<lambda>(y, x). mask_step fm msk y x) ps q0) (masked_part sz fm msk q0 ps)"
  proof (rule runs_foldM_done [where I = "masked_part sz fm msk q0"])
    fix ds p es q
    assume z: "ps = ds @ p # es" and I: "masked_part sz fm msk q0 ds q"
    obtain y x where p: "p = (y, x)" by force
    have "p \<in> set ps" "p \<notin> set ds" using d unfolding z by simp_all
    then have "in_code sz x y" "(y, x) \<notin> set ds" unfolding s p by (auto simp: in_code_def)
    then show "runs ((case p of (y, x) \<Rightarrow> mask_step fm msk y x) q) (masked_part sz fm msk q0 (ds @ [p]))"
      unfolding p using mask_step_part [OF I fm] by simp
  qed (use q0 in \<open>simp add: masked_part_def\<close>)
  moreover have "applyMask fm msk q0 = foldM (\<lambda>(y, x). mask_step fm msk y x) ps q0"
    using assms(1,2) by (simp add: applyMask_def getSize_ok [OF q0] foldM_nested ps_def)
  moreover have "masked_part sz fm msk q0 ps q \<Longrightarrow> masked sz fm msk q0 q" for q
    unfolding masked_part_def masked_def s by (auto simp: in_code_def)
  ultimately show ?thesis by (auto elim!: runs_mono)
qed

lemma masked_twice: "masked sz fm msk q0 q1 \<Longrightarrow> masked sz fm msk q1 q2 \<Longrightarrow> in_code sz x y \<Longrightarrow> pix q2 x y = pix q0 x y"
  by (auto simp: masked_def)

section \<open>Penalty score\<close>

text \<open>Every step of the loops adds a bounded amount, so the score is far below \<^verbatim>\<open>LONG_MAX\<close>.\<close>

definition adds :: "int option \<Rightarrow> int \<Rightarrow> int \<Rightarrow> bool" where
  "adds c s n = runs c (\<lambda>s'. s \<le> s' \<and> s' \<le> s + n)"

lemma adds_loop:
  assumes "\<And>x s. x \<in> set xs \<Longrightarrow> adds (h x s) s n"
  shows "adds (foldM h xs s) s (n * int (length xs))"
proof -
  have "runs (foldM h xs s) ((\<lambda>ds s'. s \<le> s' \<and> s' \<le> s + n * int (length ds)) xs)"
  proof (rule runs_foldM_done [where I = "\<lambda>ds s'. s \<le> s' \<and> s' \<le> s + n * int (length ds)"])
    fix ds x es t
    assume "xs = ds @ x # es" and t: "s \<le> t \<and> t \<le> s + n * int (length ds)"
    then have "adds (h x t) t n" using assms by simp
    then show "runs (h x t) (\<lambda>s'. s \<le> s' \<and> s' \<le> s + n * int (length (ds @ [x])))"
      using t by (auto simp: adds_def distrib_left elim!: runs_mono)
  qed simp
  then show ?thesis by (simp add: adds_def)
qed

lemma adds_bind: "adds c s m \<Longrightarrow> (\<And>t. s \<le> t \<Longrightarrow> t \<le> s + m \<Longrightarrow> adds (h t) t n) \<Longrightarrow> adds (c \<bind> h) s (m + n)"
  unfolding adds_def by (rule runs_bind, assumption) (force elim!: runs_mono)

definition line_ok :: "int \<Rightarrow> int \<Rightarrow> int list \<Rightarrow> penalty_line \<Rightarrow> bool" where
  "line_ok sz r ds s = (0 \<le> runLen s \<and> runLen s \<le> int (length ds) \<and> 0 \<le> padRun s \<and> padRun s \<le> sz \<and>
     length (runHistory s) = 7 \<and> (\<forall>h \<in> set (runHistory s). h \<le> 2 * sz) \<and> r \<le> score s \<and> score s \<le> r + 80 * int (length ds))"

lemma history_ok:
  assumes "length hs = 7" and "\<forall>h \<in> set hs. h \<le> 2 * sz" and "n \<le> 2 * sz"
  shows "length (finderPenaltyAddHistory n hs) = 7" and "\<forall>h \<in> set (finderPenaltyAddHistory n hs). h \<le> 2 * sz"
  using assms by (auto simp: finderPenaltyAddHistory_def dest: in_set_takeD)

lemma count_ok:
  assumes "length hs = 7" and "0 \<le> sz" and "hs ! 1 \<le> 2 * sz"
  shows "runs (finderPenaltyCountPatterns hs sz) (\<lambda>n. 0 \<le> n \<and> n \<le> 2)"
  using assms by (simp add: finderPenaltyCountPatterns_def Let_def)

lemma line_step_ok:
  assumes I: "line_ok sz r ds s" and "int (length ds) \<le> sz" and "get x = Some m" and "0 \<le> sz"
  shows "runs (line_step get sz x s) (line_ok sz r (ds @ [x]))"
proof (cases "m = runColor s")
  case True
  then show ?thesis using assms by (simp add: line_step_def line_ok_def Let_def PENALTY_N1_def)
next
  case False
  let ?h = "finderPenaltyAddHistory (runLen s + padRun s) (runHistory s)"
  have pre: "length (runHistory s) = 7" "\<forall>h \<in> set (runHistory s). h \<le> 2 * sz" "runLen s + padRun s \<le> 2 * sz"
    using I assms(2) by (simp_all add: line_ok_def)
  note h = history_ok [OF pre]
  then have "?h ! 1 \<le> 2 * sz" by simp
  then obtain n where "finderPenaltyCountPatterns ?h sz = Some n" "0 \<le> n" "n \<le> 2" using count_ok [OF h(1) assms(4)] by (auto simp: runs_def)
  then show ?thesis using False assms h by (cases "runColor s") (simp_all add: line_step_def line_ok_def Let_def PENALTY_N3_def)
qed

lemma terminate_ok:
  assumes "length hs = 7" and "\<forall>h \<in> set hs. h \<le> 2 * sz" and "n \<le> 2 * sz" and "0 \<le> sz"
  shows "runs (finderPenaltyTerminateAndCount c n hs sz) (\<lambda>n. 0 \<le> n \<and> n \<le> 2)"
proof -
  let ?hs = "if c then finderPenaltyAddHistory n hs else hs" and ?n = "(if c then 0 else n) + sz"
  have h: "length ?hs = 7" "\<forall>h \<in> set ?hs. h \<le> 2 * sz" using history_ok [OF assms(1-3)] assms by auto
  then have "length (finderPenaltyAddHistory ?n ?hs) = 7" "finderPenaltyAddHistory ?n ?hs ! 1 \<le> 2 * sz"
    by (simp_all add: finderPenaltyAddHistory_def)
  from count_ok [OF this(1) assms(4) this(2)] show ?thesis
    by (cases c) (simp_all add: finderPenaltyTerminateAndCount_def Let_def)
qed

lemma line_penalty_ok:
  assumes "\<And>x. 0 \<le> x \<Longrightarrow> x < sz \<Longrightarrow> \<exists>m. get x = Some m" and "0 \<le> sz"
  shows "adds (line_penalty get sz r) r (80 * sz + 80)"
proof -
  have "runs (foldM (line_step get sz) [0..sz - 1] \<lparr>runColor = False, runLen = 0, runHistory = replicate 7 0, padRun = sz, score = r\<rparr>)
    (line_ok sz r [0..sz - 1])"
  proof (rule runs_foldM_done [where I = "line_ok sz r"])
    fix ds x es s
    assume z: "[0..sz - 1] = ds @ x # es" and I: "line_ok sz r ds s"
    have "x \<in> set [0..sz - 1]" unfolding z by simp
    then obtain m where m: "get x = Some m" using assms(1) by auto
    have "length ds < length [0..sz - 1]" unfolding z by simp
    then show "runs (line_step get sz x s) (line_ok sz r (ds @ [x]))"
      using assms(2) line_step_ok [OF I, where get = get and x = x and m = m] m by simp
  qed (use assms(2) in \<open>simp add: line_ok_def\<close>)
  then show ?thesis
    unfolding line_penalty_def adds_def
  proof (rule runs_bind)
    fix s
    assume s: "line_ok sz r [0..sz - 1] s"
    then have "runLen s + padRun s \<le> 2 * sz" using assms(2) by (simp add: line_ok_def)
    from terminate_ok [OF _ _ this assms(2), of "runHistory s" "runColor s"] s
    have "runs (finderPenaltyTerminateAndCount (runColor s) (runLen s + padRun s) (runHistory s) sz) (\<lambda>n. 0 \<le> n \<and> n \<le> 2)" by (simp add: line_ok_def)
    then show "runs (finderPenaltyTerminateAndCount (runColor s) (runLen s + padRun s) (runHistory s) sz \<bind> (\<lambda>n. Some (score s + n * PENALTY_N3)))
        (\<lambda>s'. r \<le> s' \<and> s' \<le> r + (80 * sz + 80))"
      by (rule runs_bind) (use s assms(2) in \<open>simp add: line_ok_def PENALTY_N3_def\<close>)
  qed
qed

lemma div_less_bound: "0 < m \<Longrightarrow> x < n * m \<Longrightarrow> x div m < (n :: int)"
proof (rule ccontr)
  assume m: "0 < m" and "x < n * m" and "\<not> x div m < n"
  then have "n * m \<le> x div m * m" by (intro mult_right_mono) simp_all
  also have "\<dots> \<le> x" using div_mult_mod_eq [of x m] pos_mod_sign [OF m, of x] by linarith
  finally show False using \<open>x < n * m\<close> by simp
qed

lemma penalty_ok:
  assumes wf: "qr_wf sz q"
  shows "runs (getPenaltyScore q) (\<lambda>p. p < 2 ^ 63 - 1)"
proof -
  have get: "\<exists>m. getModule q x y = Some m" if "0 \<le> x" "x < sz" "0 \<le> y" "y < sz" for x y
    using getModule_ok [OF wf, of x y] that by (simp add: in_code_def)
  have sz: "0 \<le> sz" "0 < sz" "sz \<le> 177" using wf by (simp_all add: qr_wf_def)
  have rows: "adds (foldM (\<lambda>y. line_penalty (\<lambda>x. getModule q x y) sz) [0..sz - 1] r) r ((80 * sz + 80) * int (length [0..sz - 1]))" for r
    by (rule adds_loop, rule line_penalty_ok [OF get sz(1)]) auto
  have columns: "adds (foldM (\<lambda>x. line_penalty (\<lambda>y. getModule q x y) sz) [0..sz - 1] r) r ((80 * sz + 80) * int (length [0..sz - 1]))" for r
    by (rule adds_loop, rule line_penalty_ok [OF get sz(1)]) auto
  have block: "adds (block_step q y x r) r 3" if "0 \<le> x" "x < sz - 1" "0 \<le> y" "y < sz - 1" for x y r
    using getModule_ok [OF wf, of x y] getModule_ok [OF wf, of "x + 1" y] getModule_ok [OF wf, of x "y + 1"]
      getModule_ok [OF wf, of "x + 1" "y + 1"] that by (simp add: block_step_def in_code_def adds_def PENALTY_N2_def)
  have blocks: "adds (foldM (\<lambda>y. foldM (block_step q y) [0..sz - 2]) [0..sz - 2] r) r (3 * int (length [0..sz - 2]) * int (length [0..sz - 2]))" for r
    by (rule adds_loop, rule adds_loop, rule block) auto
  have black: "adds (black_step q y x r) r 1" if "0 \<le> x" "x < sz" "0 \<le> y" "y < sz" for x y r
    using get [OF that] by (auto simp: black_step_def adds_def)
  have blacks: "adds (foldM (\<lambda>y. foldM (black_step q y) [0..sz - 1]) [0..sz - 1] r) r (1 * int (length [0..sz - 1]) * int (length [0..sz - 1]))" for r
    by (rule adds_loop, rule adds_loop, rule black) auto
  let ?A = "(80 * sz + 80) * sz" and ?B = "3 * (sz - 1) * (sz - 1)" and ?m = "sz * sz"
  have "a + a + b + 100 < (2 :: int) ^ 63 - 1" if "a \<le> (80 * 177 + 80) * 177" "b \<le> 3 * 176 * 176" for a b using that by simp
  moreover have "?A \<le> (80 * 177 + 80) * 177" using sz by (intro mult_mono) simp_all
  moreover have "?B \<le> 3 * 176 * 176" using sz by (intro mult_mono) simp_all
  ultimately have AB: "?A + ?A + ?B + 100 < 2 ^ 63 - 1" by blast
  have k: "(\<bar>b * 20 - ?m * 10\<bar> + ?m - 1) div ?m - 1 \<le> 10" if "0 \<le> b" "b \<le> ?m" for b
  proof -
    have m: "0 < ?m" using sz by simp
    have "\<bar>b * 20 - ?m * 10\<bar> \<le> ?m * 10" using that by linarith
    then have "\<bar>b * 20 - ?m * 10\<bar> + ?m - 1 < 11 * ?m" by linarith
    then have "(\<bar>b * 20 - ?m * 10\<bar> + ?m - 1) div ?m < 11" using div_less_bound [OF m] by blast
    then show ?thesis by simp
  qed
  have l: "int (length [0..sz - 1]) = sz" "int (length [0..sz - 2]) = sz - 1" using sz by simp_all
  show ?thesis
    unfolding getPenaltyScore_def getSize_ok [OF wf] Option.bind.simps Let_def
  proof (rule runs_bind [OF rows [unfolded adds_def l]], rule runs_bind [OF columns [unfolded adds_def l]],
      rule runs_bind [OF blocks [unfolded adds_def l]], rule runs_bind [OF blacks [unfolded adds_def l]], goal_cases)
    case (1 a b d e)
    then have "(\<bar>e * 20 - ?m * 10\<bar> + ?m - 1) div ?m - 1 \<le> 10" by (intro k) simp_all
    moreover have "a \<le> ?A" "b \<le> a + ?A" "d \<le> b + ?B" using 1 by simp_all
    moreover have "d' + k * 10 < 2 ^ 63 - 1" if "a' \<le> A" "b' \<le> a' + A" "d' \<le> b' + B" "k \<le> 10" "A + A + B + 100 < 2 ^ 63 - 1" for a' b' d' k A B :: int
      using that by linarith
    ultimately show ?case unfolding runs_Some PENALTY_N4_def using AB by blast
  qed
qed

end
