(* ===== verification/Qr_Format.thy ===== *)
theory Qr_Format
  imports Qr_White
begin

text \<open>
  The format bits: a reader finds the level and the mask of a code in row 8, where the encoder drew them.
\<close>

definition format_shown :: "qrcodegen_Ecc \<Rightarrow> int \<Rightarrow> bytes \<Rightarrow> bool" where
  "format_shown ecl msk q = (\<forall>x. 0 \<le> x \<and> x \<le> 5 \<longrightarrow> pix q x 8 = getBit (format_bits ecl msk) (nat (14 - x)))"

definition read_format :: "bytes \<Rightarrow> nat" where
  "read_format q = horner_sum of_bool 2 (map (\<lambda>k. pix q (4 - int k) 8 \<noteq> (even k)) [0..<5])"

definition read_mask :: "bytes \<Rightarrow> int" where
  "read_mask q = int (read_format q mod 8)"

definition read_ecl :: "bytes \<Rightarrow> qrcodegen_Ecc" where
  "read_ecl q = [Ecc_MEDIUM, Ecc_LOW, Ecc_HIGH, Ecc_QUARTILE] ! (read_format q div 8)"

text \<open>Above the ten check bits stand the level and the mask, under the fixed pattern.\<close>

definition format_word_ok :: "qrcodegen_Ecc \<Rightarrow> int \<Rightarrow> bool" where
  "format_word_ok ecl msk = (let w = (8 * format_table ecl + msk) XOR 21 in drop_bit 10 (format_bits ecl msk) = w \<and>
     horner_sum of_bool 2 (map (\<lambda>k. getBit w k \<noteq> even k) [0..<5]) = 8 * nat (format_table ecl) + nat msk)"

lemma format_words: "0 \<le> msk \<Longrightarrow> msk \<le> 7 \<Longrightarrow> format_word_ok ecl msk"
proof -
  have "list_all (\<lambda>ecl. list_all (format_word_ok ecl) [0..7]) [Ecc_LOW, Ecc_MEDIUM, Ecc_QUARTILE, Ecc_HIGH]"
    by code_simp
  then have "list_all (format_word_ok ecl) [0..7]" by (cases ecl) simp_all
  then show "0 \<le> msk \<Longrightarrow> msk \<le> 7 \<Longrightarrow> ?thesis" by (simp only: list_all_iff set_upto) simp
qed

lemma format_bit:
  assumes "0 \<le> msk" "msk \<le> 7"
  shows "getBit (format_bits ecl msk) (10 + k) = getBit ((8 * format_table ecl + msk) XOR 21) k"
proof -
  have "drop_bit 10 (format_bits ecl msk) = (8 * format_table ecl + msk) XOR 21"
    using format_words [OF assms, of ecl] by (simp only: format_word_ok_def Let_def)
  then show ?thesis unfolding getBit_def by (metis drop_bit_drop_bit add.commute)
qed

lemma read_format_ok:
  assumes m: "0 \<le> msk" "msk \<le> 7" and s: "format_shown ecl msk q"
  shows "read_mask q = msk" and "read_ecl q = ecl"
proof -
  have "pix q (4 - int k) 8 = getBit ((8 * format_table ecl + msk) XOR 21) k" if "k < 5" for k
  proof -
    have "nat (14 - (4 - int k)) = 10 + k" by simp
    moreover have "pix q (4 - int k) 8 = getBit (format_bits ecl msk) (nat (14 - (4 - int k)))" using s that unfolding format_shown_def by simp
    ultimately show ?thesis by (simp only: format_bit [OF m])
  qed
  then have "map (\<lambda>k. pix q (4 - int k) 8 \<noteq> even k) [0..<5] = map (\<lambda>k. getBit ((8 * format_table ecl + msk) XOR 21) k \<noteq> even k) [0..<5]"
    by (intro map_cong) simp_all
  then have "read_format q = 8 * nat (format_table ecl) + nat msk"
    using format_words [OF m, of ecl] unfolding read_format_def format_word_ok_def Let_def by (simp only:)
  moreover have "nat msk < 8" using m by simp
  then have "(8 * t + nat msk) mod 8 = nat msk" "(8 * t + nat msk) div 8 = t" for t by simp_all
  ultimately have r: "read_format q mod 8 = nat msk" "read_format q div 8 = nat (format_table ecl)" by (simp_all only:)
  show "read_mask q = msk" unfolding read_mask_def r using m(1) by simp
  show "read_ecl q = ecl" unfolding read_ecl_def r by (cases ecl) (simp_all add: format_table_def)
qed

section \<open>Drawing\<close>

lemma format_row:
  assumes "qr_wf sz q"
  shows "runs (foldM (\<lambda>i. setModule (14 - i) 8 (h i)) [9..14] q) (\<lambda>q'. qr_wf sz q' \<and> (\<forall>x. 0 \<le> x \<and> x \<le> 5 \<longrightarrow> pix q' x 8 = h (14 - x)))"
proof -
  have sz: "21 \<le> sz" using assms by (simp add: qr_wf_def)
  have "runs (foldM (\<lambda>i. setModule (14 - i) 8 (h i)) [9..14] q)
    ((\<lambda>ds q'. qr_wf sz q' \<and> (\<forall>i \<in> set ds. pix q' (14 - i) 8 = h i)) [9..14])"
  proof (rule runs_foldM_done, goal_cases)
    case (1 ds i es q1)
    have sub: "j \<in> set (ds @ [i]) \<Longrightarrow> 9 \<le> j \<and> j \<le> 14" for j
      using arg_cong [OF 1(1), of set] by (simp only: set_upto set_append set_simps) auto
    then have c: "in_code sz (14 - j) 8" if "j \<in> set (ds @ [i])" for j using that sz by (fastforce simp: in_code_def)
    show ?case using 1(2) c by (intro runs_mono [OF setModule_ok [of sz q1]]) auto
  qed (use assms in simp)
  then show ?thesis by (rule runs_mono) (simp only: set_upto, force)
qed

lemma drawFormat_shows:
  assumes v: "1 \<le> v" and sz: "sz = 4 * v + 17" and m: "0 \<le> msk" "msk \<le> 7" and wf: "qr_wf sz q0"
  shows "runs (drawFormatBits ecl msk q0) (format_shown ecl msk)"
proof -
  let ?b = "format_bits ecl msk"
  have a: "touches sz (setModule x y b) A" if "0 \<le> x" "x < sz" "0 \<le> y" "y < sz" "(x, y) \<in> A" for x y b A
    by (rule touches_set) (use that in \<open>simp_all add: in_code_def\<close>)
  let ?A = "{p. 8 \<le> fst p}"
  have first: "touches sz (\<lambda>q. foldM (\<lambda>i. setModule 8 i (getBit ?b (nat i))) [0..5] q \<bind> (\<lambda>q. setModule 8 7 (getBit ?b 6) q \<bind>
      (\<lambda>q. setModule 8 8 (getBit ?b 7) q \<bind> setModule 7 8 (getBit ?b 8)))) UNIV"
    by (intro touches_bind touches_loop a) (use v sz in auto)
  have second: "touches sz (\<lambda>q. foldM (\<lambda>i. setModule (sz - 1 - i) 8 (getBit ?b (nat i))) [0..7] q \<bind>
      (\<lambda>q. foldM (\<lambda>i. setModule 8 (sz - 15 + i) (getBit ?b (nat i))) [8..14] q \<bind> setModule 8 (sz - 8) True)) ?A"
    by (intro touches_bind touches_loop a) (use v sz in auto)
  have e: "drawFormatBits ecl msk q0 =
     (foldM (\<lambda>i. setModule 8 i (getBit ?b (nat i))) [0..5] q0 \<bind> (\<lambda>q. setModule 8 7 (getBit ?b 6) q \<bind>
      (\<lambda>q. setModule 8 8 (getBit ?b 7) q \<bind> setModule 7 8 (getBit ?b 8)))) \<bind> (\<lambda>q.
      foldM (\<lambda>i. setModule (14 - i) 8 (getBit ?b (nat i))) [9..14] q \<bind> (\<lambda>q. qrcodegen_getSize q \<bind> (\<lambda>qrsize.
      foldM (\<lambda>i. setModule (qrsize - 1 - i) 8 (getBit ?b (nat i))) [0..7] q \<bind>
      (\<lambda>q. foldM (\<lambda>i. setModule 8 (qrsize - 15 + i) (getBit ?b (nat i))) [8..14] q \<bind> setModule 8 (qrsize - 8) True))))"
    unfolding drawFormatBits_def Let_def using m format_bits_table [of ecl] by simp
  show ?thesis
    unfolding e
  proof (rule runs_bind [OF touches_off [OF first off_refl [OF wf]]], goal_cases)
    case (1 q1)
    then have "qr_wf sz q1" by (simp add: off_def)
    show ?case
    proof (rule runs_bind [OF format_row [OF \<open>qr_wf sz q1\<close>]], elim conjE, goal_cases)
      case (1 q2)
      have c: "in_code sz x 8" if "0 \<le> x" "x \<le> 5" for x using that v sz by (simp add: in_code_def)
      show ?case
        unfolding getSize_ok [OF \<open>qr_wf sz q2\<close>] Option.bind.simps
        by (rule runs_mono [OF touches_off [OF second off_refl [OF \<open>qr_wf sz q2\<close>]]]) (use 1 c in \<open>auto simp: off_def format_shown_def\<close>)
    qed
  qed
qed

end
