(* ===== verification/Qr_Safe.thy ===== *)
theory Qr_Safe
  imports Qr_Ecc Qr_Mask Qr_Format
begin

text \<open>
  The encoder completes: no assertion of \<^verbatim>\<open>qrcodegen.c\<close> fails and no access leaves the buffers. What it
  draws is described by \<open>encoded\<close>: the codewords with error correction lie in the modules outside the
  function patterns, in the order of the zigzag scan, under one of the eight masks.
\<close>

section \<open>Mask search\<close>

lemma search_step_ok:
  assumes v: "1 \<le> v" "sz = 4 * v + 17" and fm: "qr_wf sz fm" "\<And>x y. in_code sz x y \<Longrightarrow> pix fm x y = ((x, y) \<in> function_set v)"
    and m: "0 \<le> msk" "msk \<le> 7" and q: "off sz (function_set v) q0 q" and best: "best = -1 \<and> mp = 2 ^ 63 - 1 \<or> 0 \<le> best \<and> best \<le> 7"
  shows "runs (mask_search_step fm ecl msk (q, best, mp)) (\<lambda>(q', best', _). off sz (function_set v) q0 q' \<and> 0 \<le> best' \<and> best' \<le> 7)"
proof -
  have wf: "qr_wf sz q" using q by (simp add: off_def)
  let ?P = "\<lambda>(q', best', _ :: int). off sz (function_set v) q0 q' \<and> 0 \<le> best' \<and> best' \<le> 7"
  show ?thesis
    unfolding mask_search_step_def prod.case
  proof (rule runs_bind [OF applyMask_ok [OF m fm(1) wf]])
    fix q1
    assume q1: "masked sz fm msk q q1"
    then have wf1: "qr_wf sz q1" by (simp add: masked_def)
    show "runs (drawFormatBits ecl msk q1 \<bind> (\<lambda>q. getPenaltyScore q \<bind> (\<lambda>penalty.
        let (best, minPenalty) = if penalty < mp then (msk, penalty) else (best, mp) in applyMask fm msk q \<bind> (\<lambda>q. Some (q, best, minPenalty))))) ?P"
    proof (rule runs_bind [OF touches_off [OF drawFormat_touches [OF v m] off_refl [OF wf1]]])
      fix q2
      assume q2: "off sz (function_set v) q1 q2"
      then have wf2: "qr_wf sz q2" by (simp add: off_def)
      show "runs (getPenaltyScore q2 \<bind> (\<lambda>penalty.
        let (best, minPenalty) = if penalty < mp then (msk, penalty) else (best, mp) in applyMask fm msk q2 \<bind> (\<lambda>q. Some (q, best, minPenalty)))) ?P"
      proof (rule runs_bind [OF penalty_ok [OF wf2]])
        fix p :: int
        assume p: "p < 2 ^ 63 - 1"
        obtain b' p' where b': "(if p < mp then (msk, p) else (best, mp)) = (b', p')" by force
        then have "0 \<le> b' \<and> b' \<le> 7" using best m p by (auto split: if_splits)
        moreover have "masked sz fm msk q2 q3 \<Longrightarrow> off sz (function_set v) q0 q3" for q3
          using q q1 q2 fm(2) by (auto simp: masked_def off_def)
        ultimately show "runs (let (best, minPenalty) = if p < mp then (msk, p) else (best, mp)
            in applyMask fm msk q2 \<bind> (\<lambda>q. Some (q, best, minPenalty))) ?P"
          unfolding b' Let_def prod.case by (intro runs_bind [OF applyMask_ok [OF m fm(1) wf2]]) simp
      qed
    qed
  qed
qed

lemma choose_mask_ok:
  assumes v: "1 \<le> v" "sz = 4 * v + 17" and fm: "qr_wf sz fm" "\<forall>x y. in_code sz x y \<longrightarrow> pix fm x y = ((x, y) \<in> function_set v)"
    and q: "qr_wf sz q" and m: "-1 \<le> msk" "msk \<le> 7"
  shows "runs (choose_mask fm ecl msk q) (\<lambda>(q', msk'). off sz (function_set v) q q' \<and> 0 \<le> msk' \<and> msk' \<le> 7)"
proof (cases "msk = -1")
  case True
  have z: "[0..7] = (0 :: int) # [1..7]" by (simp add: upto_rec1)
  have first: "runs (mask_search_step fm ecl 0 (q, -1, 2 ^ 63 - 1)) (\<lambda>(q', b, _). off sz (function_set v) q q' \<and> 0 \<le> b \<and> b \<le> 7)"
    by (rule search_step_ok [OF v fm(1) fm(2) [rule_format] _ _ off_refl [OF q]]) simp_all
  have rest: "runs (foldM (mask_search_step fm ecl) [1..7] s) (\<lambda>(q', b, _). off sz (function_set v) q q' \<and> 0 \<le> b \<and> b \<le> 7)"
    if "case s of (q', b, _) \<Rightarrow> off sz (function_set v) q q' \<and> 0 \<le> b \<and> b \<le> 7" for s
    by (rule runs_foldM, clarify, rule search_step_ok [OF v fm(1) fm(2) [rule_format]]) (use that in auto)
  have "foldM (mask_search_step fm ecl) [0..7] (q, -1, 2 ^ 63 - 1) = mask_search_step fm ecl 0 (q, -1, 2 ^ 63 - 1) \<bind> foldM (mask_search_step fm ecl) [1..7]"
    unfolding z by (simp split: option.split)
  then have "runs (foldM (mask_search_step fm ecl) [0..7] (q, -1, 2 ^ 63 - 1)) (\<lambda>(q', b, _). off sz (function_set v) q q' \<and> 0 \<le> b \<and> b \<le> 7)"
    using runs_bind [OF first rest] by simp
  then show ?thesis unfolding choose_mask_def using True by (auto intro!: runs_bind)
next
  case False
  then show ?thesis using m off_refl [OF q] by (simp add: choose_mask_def)
qed

section \<open>Drawing a code\<close>

text \<open>The modules outside the function patterns in the order of the scan, and what is drawn there.\<close>

definition data_cells :: "int \<Rightarrow> (int \<times> int) list" where
  "data_cells v = filter (\<lambda>p. p \<notin> function_set v) (standard_scan (4 * v + 17))"

definition shows_codewords :: "int \<Rightarrow> int \<Rightarrow> bytes \<Rightarrow> bytes \<Rightarrow> bool" where
  "shows_codewords v msk cw q = (\<forall>n < length (data_cells v). let (x, y) = data_cells v ! n in
     pix q x y = ((n < nat (raw_words v) * 8 \<and> codeword_bit cw n) \<noteq> mask_invert msk x y))"

lemma data_cell:
  assumes "1 \<le> v" and "sz = 4 * v + 17" and "n < length (data_cells v)"
  shows "in_code sz (fst (data_cells v ! n)) (snd (data_cells v ! n))" and "(fst (data_cells v ! n), snd (data_cells v ! n)) \<notin> function_set v"
proof -
  have "data_cells v ! n \<in> set (data_cells v)" using assms(3) by simp
  then show "in_code sz (fst (data_cells v ! n)) (snd (data_cells v ! n))" "(fst (data_cells v ! n), snd (data_cells v ! n)) \<notin> function_set v"
    using set_zigzag [OF assms(1,2)] zigzag_standard [OF assms(1,2)] assms(2) by (auto simp: data_cells_def)
qed

lemma whites_cells:
  assumes "1 \<le> v" and "sz = 4 * v + 17" and "\<And>x y. in_code sz x y \<Longrightarrow> pix q0 x y = ((x, y) \<in> function_set v)"
  shows "whites q0 (zigzag sz) = data_cells v"
  unfolding whites_def data_cells_def assms(2) [symmetric] zigzag_standard [OF assms(1,2), symmetric]
  by (rule filter_cong) (use set_zigzag [OF assms(1,2)] assms(3) in auto)

lemma draw_cells_ok:
  assumes v: "1 \<le> v" "v \<le> 40" "sz = 4 * v + 17" and wf: "qr_wf sz q0"
    and q0: "\<forall>x y. in_code sz x y \<longrightarrow> pix q0 x y = ((x, y) \<in> function_set v)"
    and r: "getNumRawDataModules v = Some r" and len: "nat (r div 8) \<le> length d"
  shows "runs (drawCodewords d (nat (r div 8)) q0) (\<lambda>q. qr_wf sz q \<and> length q = length q0 \<and>
    (\<forall>n < length (data_cells v). pix q (fst (data_cells v ! n)) (snd (data_cells v ! n)) = (n < nat (raw_words v) * 8 \<and> codeword_bit d n)))"
proof -
  have "r div 8 = raw_words v" using r by (simp add: raw_words_def)
  then show ?thesis
    using drawCodewords_ok [OF v wf _ r len] whites_cells [OF v(1,3), of q0] q0
    by (auto simp: drawn_def elim!: runs_mono)
qed

text \<open>The last steps: choose a mask, apply it and draw the format bits.\<close>

definition under_mask :: "int \<Rightarrow> int \<Rightarrow> bytes \<Rightarrow> bytes \<Rightarrow> bool" where
  "under_mask v msk q q' = (0 \<le> msk \<and> msk \<le> 7 \<and>
     (\<forall>x y. in_code (4 * v + 17) x y \<longrightarrow> (x, y) \<notin> function_set v \<longrightarrow> pix q' x y = (pix q x y \<noteq> mask_invert msk x y)))"

lemma mask_end_ok:
  assumes v: "1 \<le> v" "sz = 4 * v + 17" and fm: "qr_wf sz fm" "\<forall>x y. in_code sz x y \<longrightarrow> pix fm x y = ((x, y) \<in> function_set v)"
    and q: "qr_wf sz q" and m: "-1 \<le> msk" "msk \<le> 7"
  shows "runs (choose_mask fm ecl msk q \<bind> (\<lambda>(q, msk). guard (0 \<le> msk \<and> msk \<le> 7) \<bind> (\<lambda>_. applyMask fm msk q \<bind> (\<lambda>q.
      drawFormatBits ecl msk q \<bind> (\<lambda>q. Some (fm, q))))))
    (\<lambda>(fm', q'). fm' = fm \<and> length q' = length q \<and> qr_wf sz q' \<and> (\<exists>msk'. under_mask v msk' q q' \<and> format_shown ecl msk' q'))"
proof (rule runs_bind [OF choose_mask_ok [OF v fm q m]], clarify, goal_cases)
  case (1 q5 msk')
  then have mk: "0 \<le> msk'" "msk' \<le> 7" and wf5: "qr_wf sz q5" by (simp_all add: off_def)
  show ?case
  proof (rule runs_guard, goal_cases)
    case 2
    show ?case
    proof (rule runs_bind [OF applyMask_ok [OF mk fm(1) wf5]], goal_cases)
      case (1 q6)
      then have wf6: "qr_wf sz q6" by (simp add: masked_def)
      show ?case
      proof (rule runs_bind [OF runs_conj [OF touches_off [OF drawFormat_touches [OF v mk] off_refl [OF wf6]] drawFormat_shows [OF v mk wf6]]], goal_cases)
        case (1 q7)
        then have "length q7 = length q" "qr_wf sz q7" using \<open>masked sz fm msk' q5 q6\<close> \<open>off sz (function_set v) q q5\<close>
          by (simp_all add: off_def masked_def)
        moreover have "under_mask v msk' q q7" using 1 mk \<open>masked sz fm msk' q5 q6\<close> \<open>off sz (function_set v) q q5\<close> fm(2) v(2)
          by (simp add: under_mask_def off_def masked_def)
        ultimately show ?case using 1 by auto
      qed
    qed
  qed (use mk in simp)
qed

lemma shows_masked:
  assumes v: "1 \<le> v" "sz = 4 * v + 17" and m: "under_mask v msk q4 q7" and q4: "off sz (function_set v) q3 q4"
    and q3: "\<forall>n < length (data_cells v). pix q3 (fst (data_cells v ! n)) (snd (data_cells v ! n)) = (n < nat (raw_words v) * 8 \<and> codeword_bit cw n)"
  shows "shows_codewords v msk cw q7"
  unfolding shows_codewords_def Let_def case_prod_unfold
proof (intro allI impI)
  fix n
  let ?x = "fst (data_cells v ! n)" and ?y = "snd (data_cells v ! n)"
  assume n: "n < length (data_cells v)"
  note d = data_cell [OF v n]
  have "pix q7 ?x ?y = (pix q4 ?x ?y \<noteq> mask_invert msk ?x ?y)" using m d v(2) unfolding under_mask_def by blast
  moreover have "pix q4 ?x ?y = pix q3 ?x ?y" using q4 d unfolding off_def by blast
  ultimately show "pix q7 ?x ?y = ((n < nat (raw_words v) * 8 \<and> codeword_bit cw n) \<noteq> mask_invert msk ?x ?y)" using q3 n by blast
qed

definition buffer_sizes :: "int \<Rightarrow> bytes \<Rightarrow> bytes \<Rightarrow> bool" where
  "buffer_sizes v tmp q = (qrcodegen_BUFFER_LEN_FOR_VERSION v \<le> length tmp \<and> qrcodegen_BUFFER_LEN_FOR_VERSION v \<le> length q)"

lemma draw_code_ok:
  assumes v: "1 \<le> v" "v \<le> 40" "sz = 4 * v + 17" and c: "c = layout_of ecl v" and g: "reedSolomonComputeDivisor (el c) = Some g"
    and B: "buffer_sizes v tmp q" and m: "-1 \<le> msk" "msk \<le> 7"
  shows "runs (draw_code tmp v ecl msk q) (\<lambda>(tmp', q'). length tmp' = length tmp \<and> length q' = length q \<and> qr_wf sz q' \<and>
    (\<exists>cw msk'. 0 \<le> msk' \<and> msk' \<le> 7 \<and> (\<forall>i < nb c. dealt c g q i cw) \<and> shows_codewords v msk' cw q' \<and> format_shown ecl msk' q'))"
proof -
  note f = layout_facts [OF v(1,2) c] and t = tables [OF v(1,2), of ecl, unfolded table_ok_def]
  obtain raw where raw: "getNumRawDataModules v = Some raw" using raw_modules [OF v(1,2)] by blast
  have rw: "raw div 8 = raw_words v" using raw by (simp add: raw_words_def)
  let ?n = "nat ((sz * sz + 7) div 8 + 1)"
  have bl: "qrcodegen_BUFFER_LEN_FOR_VERSION v = ?n" by (simp add: qrcodegen_BUFFER_LEN_FOR_VERSION_def v(3) mult.commute)
  have w: "dlen c + el c * nb c = nat (raw_words v)" "nat (raw_words v) \<le> qrcodegen_BUFFER_LEN_FOR_VERSION v" using f(10) t by linarith+
  have "el c * 1 \<le> el c * nb c" using f(5) by (intro mult_le_mono2)
  then have L: "dlen c + el c \<le> length q" "dlen c + el c * nb c \<le> length tmp" "nat (raw div 8) \<le> length tmp"
    using w B unfolding buffer_sizes_def rw by linarith+
  let ?P = "\<lambda>(tmp', q'). length tmp' = length tmp \<and> length q' = length q \<and> qr_wf sz q' \<and>
    (\<exists>cw msk'. 0 \<le> msk' \<and> msk' \<le> 7 \<and> (\<forall>i < nb c. dealt c g q i cw) \<and> shows_codewords v msk' cw q' \<and> format_shown ecl msk' q')"
  show ?thesis
    unfolding draw_code_def raw Option.bind.simps
  proof (rule runs_bind [OF addEcc_ok [OF v(1,2) c g L(1,2)]], clarify, goal_cases)
    case (1 q1 cw)
    then have l1: "?n \<le> length q1" "?n \<le> length cw" "nat (raw div 8) \<le> length cw" using B bl L(3) by (simp_all add: buffer_sizes_def)
    show ?case
    proof (rule runs_bind [OF initialize_ok [OF v l1(1)]], elim conjE, goal_cases)
      case (1 q2)
      then have p2: "\<forall>x y. in_code sz x y \<longrightarrow> pix q2 x y = ((x, y) \<in> function_set v)" by blast
      show ?case
      proof (rule runs_bind [OF draw_cells_ok [OF v \<open>qr_wf sz q2\<close> p2 raw l1(3)]], elim conjE, goal_cases)
        case (1 q3)
        note q3 = 1
        show ?case
        proof (rule runs_bind [OF touches_off [OF drawWhite_touches [OF v] off_refl [OF \<open>qr_wf sz q3\<close>]]], goal_cases)
          case (1 q4)
          note q4 = 1
          show ?case
          proof (rule runs_bind [OF initialize_ok [OF v l1(2)]], elim conjE, goal_cases)
            case (1 fm)
            then have pf: "\<forall>x y. in_code sz x y \<longrightarrow> pix fm x y = ((x, y) \<in> function_set v)" by blast
            have wf4: "qr_wf sz q4" using q4 by (simp add: off_def)
            have lf: "length fm = length cw" using 1 by simp
            show ?case
            proof (rule runs_mono [OF mask_end_ok [OF v(1,3) \<open>qr_wf sz fm\<close> pf wf4 m]], clarify, goal_cases)
              case (1 _ q7 msk')
              have "shows_codewords v msk' cw q7" using shows_masked [OF v(1,3) 1(3) q4] q3 by blast
              moreover have "0 \<le> msk'" "msk' \<le> 7" using 1(3) by (simp_all add: under_mask_def)
              moreover have "length q7 = length q"
                using 1(1) q4 q3 \<open>length q1 = length q\<close> \<open>length q2 = length q1\<close> by (simp add: off_def)
              ultimately show ?case
                using 1(2,4) lf \<open>\<forall>i < nb c. dealt c g q i cw\<close> \<open>length cw = length tmp\<close> by auto
            qed
          qed
        qed
      qed
    qed
  qed
qed

end
