(* ===== verification/Qr_Read.thy ===== *)
theory Qr_Read
  imports Qr_Safe Qr_Field
begin

text \<open>
  A code seen by a reader: the words under a mask in the order of the scan, the blocks they belong to,
  and the checks of each block. \<open>reads_as\<close> says that a code carries a bit string. A code drawn by the
  encoder reads as the bits of its data words.
\<close>

section \<open>The reader\<close>

text \<open>The masks of the standard for row \<open>i\<close> and column \<open>j\<close>.\<close>

definition standard_mask :: "nat \<Rightarrow> int \<Rightarrow> int \<Rightarrow> bool" where
  "standard_mask m i j = ([(i + j) mod 2, i mod 2, j mod 3, (i + j) mod 3, (i div 2 + j div 3) mod 2,
     (i * j) mod 2 + (i * j) mod 3, ((i * j) mod 2 + (i * j) mod 3) mod 2, ((i + j) mod 2 + (i * j) mod 3) mod 2] ! m = 0)"

lemma mask_standard:
  assumes "0 \<le> msk" and "msk \<le> 7"
  shows "mask_invert msk x y = standard_mask (nat msk) y x"
proof -
  consider "msk = 0" | "msk = 1" | "msk = 2" | "msk = 3" | "msk = 4" | "msk = 5" | "msk = 6" | "msk = 7" using assms by linarith
  then show ?thesis by cases (simp_all add: mask_invert_def standard_mask_def add.commute mult.commute)
qed

definition read_bit :: "int \<Rightarrow> int \<Rightarrow> bytes \<Rightarrow> nat \<Rightarrow> bool" where
  "read_bit v msk q n = (let (x, y) = data_cells v ! n in pix q x y \<noteq> standard_mask (nat msk) y x)"

definition read_word :: "int \<Rightarrow> int \<Rightarrow> bytes \<Rightarrow> nat \<Rightarrow> u8" where
  "read_word v msk q k = bits_word (map (read_bit v msk q) [8 * k..<8 * k + 8])"

definition read_block :: "layout \<Rightarrow> (nat \<Rightarrow> u8) \<Rightarrow> nat \<Rightarrow> bytes" where
  "read_block c w i = map (\<lambda>j. w (dpos (nb c) (ns c) (sh c) i j)) [0..<blen_of (ns c) (sh c) i]"

definition read_check :: "layout \<Rightarrow> (nat \<Rightarrow> u8) \<Rightarrow> nat \<Rightarrow> bytes" where
  "read_check c w i = map (\<lambda>j. w (epos (nb c) (dlen c) i j)) [0..<el c]"

definition reads_as :: "qrcodegen_Ecc \<Rightarrow> int \<Rightarrow> int \<Rightarrow> bytes \<Rightarrow> bool list \<Rightarrow> bool" where
  "reads_as ecl v msk q bs = (let c = layout_of ecl v; w = read_word v msk q in
     bits_of 8 (concat (map (read_block c w) [0..<nb c])) = bs \<and>
     (\<forall>i < nb c. \<forall>k < el c. geval (gpow 2 k) (read_block c w i @ read_check c w i) = 0))"

section \<open>What the encoder draws\<close>

lemma codeword_word: "bits_word (map (codeword_bit cw) [8 * k..<8 * k + 8]) = cw ! k"
proof (rule bit_word_eqI)
  fix n
  assume n: "n < LENGTH(8)"
  then have e: "8 * k + 7 - n = 8 * k + (7 - n)" "7 - n < 8" "7 - (7 - n) = n" by simp_all
  have "(8 * k + m) div 8 = k" "(8 * k + m) mod 8 = m" if "m < 8" for m using that by simp_all
  from this [OF e(2)] have "(8 * k + 7 - n) div 8 = k" "7 - (8 * k + 7 - n) mod 8 = n" unfolding e(1) using e(3) by presburger+
  then show "bit (bits_word (map (codeword_bit cw) [8 * k..<8 * k + 8]) :: u8) n = bit (cw ! k) n"
    using n by (simp add: bit_bits_word codeword_bit_def)
qed

lemma read_word_drawn:
  assumes m: "0 \<le> msk" "msk \<le> 7" and s: "shows_codewords v msk cw q" and k: "k < nat (raw_words v)" and len: "8 * nat (raw_words v) \<le> length (data_cells v)"
  shows "read_word v msk q k = cw ! k"
proof -
  have "read_bit v msk q n = codeword_bit cw n" if "n < 8 * k + 8" for n
    using s that k len unfolding shows_codewords_def read_bit_def Let_def case_prod_unfold mask_standard [OF m] by auto
  then have "map (read_bit v msk q) [8 * k..<8 * k + 8] = map (codeword_bit cw) [8 * k..<8 * k + 8]" by simp
  then show ?thesis unfolding read_word_def by (simp only: codeword_word)
qed

lemma concat_blocks: "n \<le> nb c \<Longrightarrow> boff (ns c) (sh c) n \<le> length d \<Longrightarrow> concat (map (block_data c d) [0..<n]) = take (boff (ns c) (sh c) n) d"
proof (induction n)
  case (Suc n)
  have le: "boff (ns c) (sh c) n \<le> boff (ns c) (sh c) (Suc n)" by (rule boff_mono) simp
  then show ?case
    using Suc by (simp add: block_data_def take_add [symmetric] boff_step)
qed (simp add: boff_def)

lemma boff_all: "ns c \<le> nb c \<Longrightarrow> boff (ns c) (sh c) (nb c) = dlen c"
  by (simp add: boff_def dlen_def mult.commute)

lemma reads_drawn:
  assumes v: "1 \<le> v" "v \<le> 40" and c: "c = layout_of ecl v" and g: "reedSolomonComputeDivisor (el c) = Some g"
    and d: "dlen c \<le> length d" "\<forall>i < nb c. dealt c g d i cw" and m: "0 \<le> msk" "msk \<le> 7" and s: "shows_codewords v msk cw q"
    and cells: "8 * nat (raw_words v) \<le> length (data_cells v)"
  shows "reads_as ecl v msk q (bits_of 8 (take (dlen c) d))"
proof -
  note f = layout_facts [OF v c]
  let ?w = "read_word v msk q"
  have w: "?w k = cw ! k" if "k < dlen c + el c * nb c" for k using that f(10) by (intro read_word_drawn [OF m s _ cells]) linarith
  have blk: "read_block c ?w i = block_data c d i" if i: "i < nb c" for i
  proof (rule nth_equalityI)
    have "boff (ns c) (sh c) (Suc i) \<le> length d" using boff_mono [of "Suc i" "nb c" "ns c" "sh c"] boff_all [OF f(8)] i d(1) by simp
    then show l: "length (read_block c ?w i) = length (block_data c d i)" using boff_step [of "ns c" "sh c" i] by (simp add: read_block_def block_data_def)
    fix j
    assume "j < length (read_block c ?w i)"
    then have j: "j < blen_of (ns c) (sh c) i" by (simp add: read_block_def)
    have "dpos (nb c) (ns c) (sh c) i j < dlen c + el c * nb c" using dpos_bound [OF i f(8) j] by (simp add: dlen_def)
    then show "read_block c ?w i ! j = block_data c d i ! j" using w j d(2) i by (simp add: read_block_def dealt_def)
  qed
  have chk: "read_check c ?w i = rs_rem g (el c) (block_data c d i)" if i: "i < nb c" for i
    by (rule nth_equalityI) (use w epos_bound [OF i] d(2) i length_rs_rem [OF f(6)] in \<open>auto simp: read_check_def dealt_def\<close>)
  have "concat (map (read_block c ?w) [0..<nb c]) = concat (map (block_data c d) [0..<nb c])"
    by (intro arg_cong [where f = concat] map_cong) (simp_all add: blk)
  also have "\<dots> = take (dlen c) d" using concat_blocks [of "nb c" c d] boff_all [OF f(8)] d(1) by simp
  finally have "bits_of 8 (concat (map (read_block c ?w) [0..<nb c])) = bits_of 8 (take (dlen c) d)" by simp
  moreover have "geval (gpow 2 k) (read_block c ?w i @ read_check c ?w i) = 0" if "i < nb c" "k < el c" for i k
    unfolding blk [OF that(1)] chk [OF that(1)] rs_rem_def using divisor_roots [OF g] that by (intro remainder_roots) simp_all
  ultimately show ?thesis unfolding reads_as_def Let_def c [symmetric] by blast
qed

end
