(* ===== verification/Qr_Encode.thy ===== *)
theory Qr_Encode
  imports Qr_Read
begin

text \<open>
  The encoder as a whole. \<open>is_code\<close> says what a code for a list of segments is; every entry point gives
  such a code in the caller's buffer, or reports that nothing fits, and no assertion fails on the way.
\<close>

section \<open>Encoding segments\<close>

definition is_code :: "qrcodegen_Segment list \<Rightarrow> int \<Rightarrow> bytes \<Rightarrow> bool" where
  "is_code segs v q = (\<exists>ecl msk. 0 \<le> msk \<and> msk \<le> 7 \<and> qr_wf (4 * v + 17) q \<and> fits_version segs ecl v \<and> format_shown ecl msk q \<and>
     reads_as ecl v msk q (data_stream (8 * nat (data_words v ecl)) (segs_code v segs)))"

lemma enough_cells:
  assumes v: "1 \<le> v" "v \<le> 40"
  shows "8 * nat (raw_words v) \<le> length (data_cells v)"
proof -
  obtain raw where raw: "getNumRawDataModules v = Some raw" using raw_modules [OF v] by blast
  obtain q where q: "\<And>x y. in_code (4 * v + 17) x y \<Longrightarrow> pix q x y = ((x, y) \<in> function_set v)"
    using initialize_ok [OF v refl, of "replicate (nat (((4 * v + 17) * (4 * v + 17) + 7) div 8 + 1)) 0"] by (auto simp: runs_def)
  show ?thesis using enough_whites [OF v refl q raw] whites_cells [OF v(1) refl q] raw by (simp add: raw_words_def mult.commute)
qed

lemma take_bits: "n \<le> length d \<Longrightarrow> bits_of 8 (take n d) = map (codeword_bit d) [0..<8 * n]"
proof -
  assume "n \<le> length d"
  then have "map (codeword_bit d) [0..<8 * n] = map (codeword_bit (take n d)) [0..<8 * length (take n d)]" by (auto simp: codeword_bit_def)
  then show ?thesis using byte_stream [of "take n d"] by simp
qed

lemma buffer_len_mono: "1 \<le> v \<Longrightarrow> v \<le> w \<Longrightarrow> qrcodegen_BUFFER_LEN_FOR_VERSION v \<le> qrcodegen_BUFFER_LEN_FOR_VERSION w"
proof -
  assume "1 \<le> v" "v \<le> w"
  then have "(v * 4 + 17) * (v * 4 + 17) \<le> (w * 4 + 17) * (w * 4 + 17)" by (intro mult_mono) simp_all
  then have "((v * 4 + 17) * (v * 4 + 17) + 7) div 8 + 1 \<le> ((w * 4 + 17) * (w * 4 + 17) + 7) div 8 + 1" by (intro add_right_mono zdiv_mono1) simp_all
  then show ?thesis unfolding qrcodegen_BUFFER_LEN_FOR_VERSION_def by (rule nat_mono)
qed

definition encode_result :: "qrcodegen_Segment list \<Rightarrow> qrcodegen_Ecc \<Rightarrow> int \<Rightarrow> int \<Rightarrow> nat \<Rightarrow> bool \<times> bytes \<times> bytes \<Rightarrow> bool" where
  "encode_result segs ecl lo hi n = (\<lambda>(ok, _, q). length q = n \<and>
     (if ok then \<exists>v. lo \<le> v \<and> v \<le> hi \<and> (\<forall>u. lo \<le> u \<and> u < v \<longrightarrow> \<not> fits_version segs ecl u) \<and> fits_version segs ecl v \<and> is_code segs v q
      else q ! 0 = 0 \<and> (\<forall>u. lo \<le> u \<and> u \<le> hi \<longrightarrow> \<not> fits_version segs ecl u)))"

lemma encode_found:
  assumes v: "1 \<le> v" "v \<le> 40" and segs: "\<forall>seg \<in> set segs. seg_ok seg" and fit: "fits_version segs ecl v"
    and B: "buffer_sizes v tmp q" and m: "-1 \<le> msk" "msk \<le> 7"
  shows "runs (foldM (boost_step boost v (length (segs_code v segs))) [Ecc_MEDIUM, Ecc_QUARTILE, Ecc_HIGH] ecl \<bind> (\<lambda>ecl.
      getNumDataCodewords v ecl \<bind> (\<lambda>dataWords. data_codewords segs v (length (segs_code v segs)) (nat (dataWords * 8)) q \<bind> (\<lambda>q.
      draw_code tmp v ecl msk q \<bind> (\<lambda>(tmp, q). Some (True, tmp, q))))))
    (\<lambda>(ok, _, q'). ok \<and> length q' = length q \<and> is_code segs v q')"
proof (rule runs_bind [OF boost_ok [OF v fit refl]], goal_cases)
  case (1 ecl)
  let ?c = "layout_of ecl v"
  note f = layout_facts [OF v refl, of ecl]
  obtain g where g: "reedSolomonComputeDivisor (el ?c) = Some g" using divisor_ok [OF f(6,7)] by blast
  have cap: "nat (data_words v ecl * 8) = 8 * dlen ?c" "nat (data_words v ecl) = dlen ?c" using f(9) by linarith+
  have "dlen ?c + el ?c * nb ?c \<le> length q" using f(10) tables [OF v, of ecl] B unfolding table_ok_def buffer_sizes_def by linarith
  then have dl: "dlen ?c \<le> length q" by linarith
  have qlen: "qrcodegen_BUFFER_LEN_FOR_VERSION v \<le> length q" using B by (simp add: buffer_sizes_def)
  note dc = data_codewords_ok [OF v segs 1 qlen refl]
  show ?case
    unfolding getNumDataCodewords_ok(1) [OF v] Option.bind.simps
  proof (rule runs_bind [OF dc], elim conjE, goal_cases)
    case (1 d)
    then have B': "buffer_sizes v tmp d" using B by (simp add: buffer_sizes_def)
    show ?case
    proof (rule runs_bind [OF draw_code_ok [OF v refl refl g B' m]], goal_cases)
      case (1 r)
      then obtain tmp' q' cw msk' where r: "r = (tmp', q')" "length q' = length d" "qr_wf (4 * v + 17) q'" "0 \<le> msk'" "msk' \<le> 7"
        "\<forall>i < nb ?c. dealt ?c g d i cw" "shows_codewords v msk' cw q'" "format_shown ecl msk' q'" by auto
      have "reads_as ecl v msk' q' (bits_of 8 (take (dlen ?c) d))"
        by (rule reads_drawn [OF v refl g _ r(6,4,5,7) enough_cells [OF v]]) (simp add: dl \<open>length d = length q\<close>)
      then have "reads_as ecl v msk' q' (data_stream (8 * dlen ?c) (segs_code v segs))"
        using take_bits [of "dlen ?c" d] dl \<open>length d = length q\<close>
          \<open>map (codeword_bit d) [0..<nat (data_words v ecl * 8)] = data_stream (nat (data_words v ecl * 8)) (segs_code v segs)\<close> cap by simp
      then have "is_code segs v q'" unfolding is_code_def cap(2) [symmetric] using r(3-5,8) \<open>fits_version segs ecl v\<close> by blast
      then show ?case using r(1,2) \<open>length d = length q\<close> by simp
    qed
  qed
qed

lemma encodeSegmentsAdvanced_ok:
  assumes "1 \<le> lo" "lo \<le> hi" "hi \<le> 40" and segs: "\<forall>seg \<in> set segs. seg_ok seg" and B: "buffer_sizes hi tmp q" and m: "-1 \<le> msk" "msk \<le> 7"
  shows "runs (qrcodegen_encodeSegmentsAdvanced segs ecl lo hi msk boost tmp q) (encode_result segs ecl lo hi (length q))"
proof -
  have "q \<noteq> []" using B buffer_len_mono [of 1 hi] assms(1,2) by (auto simp: buffer_sizes_def qrcodegen_BUFFER_LEN_FOR_VERSION_def)
  then have fail: "q[0 := 0] ! 0 = 0" by (cases q) simp_all
  have mk: "(-1 \<le> msk \<and> msk \<le> 7) = True" and lh: "(qrcodegen_VERSION_MIN \<le> lo \<and> lo \<le> hi \<and> hi \<le> qrcodegen_VERSION_MAX) = True"
    using assms by (simp_all add: qrcodegen_VERSION_MIN_def qrcodegen_VERSION_MAX_def)
  show ?thesis
    unfolding qrcodegen_encodeSegmentsAdvanced_def guard_bind mk lh if_True
  proof (rule runs_bind [OF find_version_ok [OF assms(1-4)]])
    fix found
    assume found: "found_ok segs ecl lo hi found"
    show "runs (case found of None \<Rightarrow> Some (False, tmp, q[0 := 0])
      | Some (version, dataUsedBits) \<Rightarrow> foldM (boost_step boost version dataUsedBits) [Ecc_MEDIUM, Ecc_QUARTILE, Ecc_HIGH] ecl \<bind> (\<lambda>ecl.
          getNumDataCodewords version ecl \<bind> (\<lambda>dataWords. data_codewords segs version dataUsedBits (nat (dataWords * 8)) q \<bind> (\<lambda>q.
          draw_code tmp version ecl msk q \<bind> (\<lambda>(tmp, q). Some (True, tmp, q)))))) (encode_result segs ecl lo hi (length q))"
    proof (cases found)
      case None
      then show ?thesis using fail found by (simp add: encode_result_def found_ok_def)
    next
      case (Some vn)
      then obtain v n where r: "found = Some (v, n)" by (cases vn) auto
      then have v: "lo \<le> v" "v \<le> hi" "fits_version segs ecl v" "n = length (segs_code v segs)"
        "\<forall>u. lo \<le> u \<and> u < v \<longrightarrow> \<not> fits_version segs ecl u" using found by (simp_all add: found_ok_def)
      have "buffer_sizes v tmp q" using B buffer_len_mono [of v hi] v(1,2) assms(1) unfolding buffer_sizes_def by linarith
      then show ?thesis
        unfolding r option.case prod.case v(4)
        using assms v by (intro runs_mono [OF encode_found [OF _ _ segs v(3) _ m]]) (auto simp: encode_result_def)
    qed
  qed
qed

section \<open>Entry points\<close>

text \<open>What a code for a byte string has to hold, by the mode chosen for it: the mode and the bits.\<close>

definition content_mode :: "bytes \<Rightarrow> qrcodegen_Mode" where
  "content_mode buf = (if 0 \<in> set buf then Mode_BYTE else text_mode buf)"

definition content_bits :: "bytes \<Rightarrow> bool list" where
  "content_bits buf = (if 0 \<in> set buf then bits_of 8 buf else text_bits buf)"

definition content_code :: "bytes \<Rightarrow> int \<Rightarrow> bool list" where
  "content_code buf v = (if buf = [] then [] else
     nbits 4 (mode_bits (content_mode buf)) @ nbits (count_bits (content_mode buf) v) (of_nat (length buf) :: u32) @ content_bits buf)"

definition content_fits :: "bytes \<Rightarrow> qrcodegen_Ecc \<Rightarrow> int \<Rightarrow> bool" where
  "content_fits buf ecl v = ((buf = [] \<or> length buf < 2 ^ count_bits (content_mode buf) v) \<and>
     int (length (content_code buf v)) \<le> 8 * data_words v ecl)"

definition code_of :: "bytes \<Rightarrow> int \<Rightarrow> bytes \<Rightarrow> bool" where
  "code_of buf v q = (\<exists>ecl msk. 0 \<le> msk \<and> msk \<le> 7 \<and> qr_wf (4 * v + 17) q \<and> content_fits buf ecl v \<and> format_shown ecl msk q \<and>
     reads_as ecl v msk q (data_stream (8 * nat (data_words v ecl)) (content_code buf v)))"

definition segs_for :: "bytes \<Rightarrow> qrcodegen_Segment list \<Rightarrow> bool" where
  "segs_for buf segs = (if buf = [] then segs = [] else
     \<exists>L seg. segs = [seg] \<and> seg_is (content_mode buf) (length buf) (content_bits buf) L seg)"

lemma segs_for_code:
  assumes "segs_for buf segs"
  shows "segs_code v segs = content_code buf v" and "fits_version segs ecl v = content_fits buf ecl v" and "is_code segs v q = code_of buf v q"
proof -
  show c: "segs_code v segs = content_code buf v"
    using assms by (auto simp: segs_for_def segs_code_def content_code_def seg_code_def seg_is_def split: if_splits)
  show f: "fits_version segs ecl v = content_fits buf ecl v" for ecl
    using assms c by (auto simp: segs_for_def content_fits_def fits_version_def seg_is_def split: if_splits)
  show "is_code segs v q = code_of buf v q" unfolding is_code_def code_of_def c f ..
qed

definition encodes :: "bytes \<Rightarrow> bool \<times> bytes \<times> bytes \<Rightarrow> bool" where
  "encodes buf = (\<lambda>(ok, _, q).
     if ok then \<exists>v. 1 \<le> v \<and> v \<le> 40 \<and> (\<forall>u. 1 \<le> u \<and> u < v \<longrightarrow> \<not> content_fits buf Ecc_LOW u) \<and> content_fits buf Ecc_LOW v \<and> code_of buf v q
     else \<forall>u. 1 \<le> u \<and> u \<le> 40 \<longrightarrow> \<not> content_fits buf Ecc_LOW u)"

lemma encode_segs_for:
  assumes "segs_for buf segs" and "\<forall>seg \<in> set segs. seg_ok seg" and "length tmp = 3918" and "length q = 3918"
  shows "runs (qrcodegen_encodeSegmentsAdvanced segs Ecc_LOW 1 40 (-1) True tmp q) (encodes buf)"
proof -
  have "qrcodegen_BUFFER_LEN_FOR_VERSION 40 = 3918" by (simp add: qrcodegen_BUFFER_LEN_FOR_VERSION_def)
  then have "buffer_sizes 40 tmp q" using assms(3,4) by (simp add: buffer_sizes_def)
  then have "runs (qrcodegen_encodeSegmentsAdvanced segs Ecc_LOW 1 40 (-1) True tmp q) (encode_result segs Ecc_LOW 1 40 (length q))"
    using assms(2) by (intro encodeSegmentsAdvanced_ok) simp_all
  then show ?thesis
    by (rule runs_mono) (auto simp: encode_result_def encodes_def segs_for_code [OF assms(1)] split: if_splits)
qed

lemma seg_is_ok: "seg_is m n bs L seg \<Longrightarrow> n \<le> INT16_MAX \<Longrightarrow> length bs \<le> INT16_MAX \<Longrightarrow> length bs \<le> 8 * L \<Longrightarrow> seg_ok seg"
  by (simp add: seg_is_def seg_ok_def)

lemma length_text_bits: "length (text_bits str) \<le> 8 * length str"
proof -
  have "(n * 10 + 2) div 3 \<le> 8 * n" "(n * 11 + 1) div 2 \<le> 8 * n" for n :: nat by linarith+
  then show ?thesis by (simp add: text_bits_def length_numeric_bits length_alphanumeric_bits split: qrcodegen_Mode.split)
qed

lemma encodeText_ok:
  assumes "0 \<notin> set str" and "length str \<le> 3918" and "length tmp = 3918" and "length q = 3918"
  shows "runs (qrcodegen_encodeText str tmp q Ecc_LOW 1 40 (-1) True) (encodes str)"
proof (cases "str = []")
  case True
  then show ?thesis using assms(3,4) by (simp add: qrcodegen_encodeText_def encode_segs_for segs_for_def)
next
  case False
  obtain seg where seg: "text_segment str 3918 tmp = Some (Some seg)" "seg_is (text_mode str) (length str) (text_bits str) 3918 seg"
    using text_segment_ok [OF assms(2,3)] by auto
  have b: "qrcodegen_BUFFER_LEN_FOR_VERSION 40 = 3918" by (simp add: qrcodegen_BUFFER_LEN_FOR_VERSION_def)
  have "segs_for str [seg]" using seg(2) False assms(1) by (auto simp: segs_for_def content_mode_def content_bits_def)
  moreover have "seg_ok seg" using seg_is_ok [OF seg(2)] length_text_bits [of str] assms(2) by (simp add: INT16_MAX_def)
  moreover have "length (seg_data seg) = 3918" using seg(2) by (simp add: seg_is_def)
  ultimately show ?thesis using False seg(1) b assms(4) by (simp add: qrcodegen_encodeText_def encode_segs_for)
qed

lemma encodeBinary_ok:
  assumes "0 \<in> set buf" and "length buf \<le> 3918" and "length tmp = 3918" and "length q = 3918"
  shows "runs (qrcodegen_encodeBinary (memcpy_at tmp 0 buf) (length buf) q Ecc_LOW 1 40 (-1) True) (encodes buf)"
proof -
  let ?seg = "\<lparr>mode = Mode_BYTE, numChars = length buf, seg_data = memcpy_at tmp 0 buf, bitLength = 8 * length buf\<rparr>"
  have s: "seg_is Mode_BYTE (length buf) (bits_of 8 buf) 3918 ?seg" using byte_segment [of buf tmp] assms by simp
  then have "segs_for buf [?seg]" using assms(1) by (auto simp: segs_for_def content_mode_def content_bits_def)
  moreover have "seg_ok ?seg" using seg_is_ok [OF s] assms(2) by (simp add: INT16_MAX_def)
  moreover have "calcSegmentBitLength Mode_BYTE (length buf) = Some (int (8 * length buf))" using assms(2) by (simp add: calcSegmentBitLength_def INT16_MAX_def)
  moreover have "length (memcpy_at tmp 0 buf) = 3918" using s by (simp add: seg_is_def)
  ultimately show ?thesis using assms(4) by (simp add: qrcodegen_encodeBinary_def nat_mult_distrib encode_segs_for)
qed

end
