(* ===== verification/Qr_Text.thy ===== *)
theory Qr_Text
  imports Qr_Encode
begin

text \<open>
  The text of a code, as a reader of the standard takes it from the data bits: the mode, the number of
  characters and the characters. It gives back every byte string that the encoder put in.
\<close>

section \<open>Reading characters\<close>

definition bits_num :: "bool list \<Rightarrow> nat" where
  "bits_num bs = unat (bits_word bs :: u32)"

fun read_numeric :: "nat \<Rightarrow> bool list \<Rightarrow> bytes" where
  "read_numeric 0 bs = []"
| "read_numeric (Suc 0) bs = [of_nat (bits_num (take 4 bs)) + 48]"
| "read_numeric (Suc (Suc 0)) bs = (let x = bits_num (take 7 bs) in [of_nat (x div 10) + 48, of_nat (x mod 10) + 48])"
| "read_numeric (Suc (Suc (Suc n))) bs = (let x = bits_num (take 10 bs) in
     (of_nat (x div 100) + 48) # (of_nat (x div 10 mod 10) + 48) # (of_nat (x mod 10) + 48) # read_numeric n (drop 10 bs))"

fun read_alphanumeric :: "nat \<Rightarrow> bool list \<Rightarrow> bytes" where
  "read_alphanumeric 0 bs = []"
| "read_alphanumeric (Suc 0) bs = [ALPHANUMERIC_CHARSET ! bits_num (take 6 bs)]"
| "read_alphanumeric (Suc (Suc n)) bs = (let x = bits_num (take 11 bs) in
     ALPHANUMERIC_CHARSET ! (x div 45) # ALPHANUMERIC_CHARSET ! (x mod 45) # read_alphanumeric n (drop 11 bs))"

definition read_bytes :: "nat \<Rightarrow> bool list \<Rightarrow> bytes" where
  "read_bytes n bs = unpack 8 (take (8 * n) bs)"

text \<open>The width of the count by version, as the standard lists it.\<close>

definition standard_count :: "int \<Rightarrow> int \<Rightarrow> nat" where
  "standard_count m v = (if m = 1 then (if v \<le> 9 then 10 else if v \<le> 26 then 12 else 14)
     else if m = 2 then (if v \<le> 9 then 9 else if v \<le> 26 then 11 else 13)
     else (if v \<le> 9 then 8 else 16))"

definition read_content :: "int \<Rightarrow> bool list \<Rightarrow> bytes option" where
  "read_content v bs = (let m = bits_num (take 4 bs);
       chars = (\<lambda>rd. let c = standard_count (int m) v in Some (rd (bits_num (take c (drop 4 bs))) (drop (4 + c) bs)))
     in if m = 0 then Some [] else if m = 1 then chars read_numeric else if m = 2 then chars read_alphanumeric
     else if m = 4 then chars read_bytes else None)"

section \<open>Round trip\<close>

lemma bits_num_nbits: "unat (w :: u32) < 2 ^ k \<Longrightarrow> k \<le> 32 \<Longrightarrow> bits_num (nbits k w) = unat w"
  by (simp add: bits_num_def bits_word_nbits low_bits_unat)

lemma digit_char: "ucast (digit c) + 48 = c"
proof -
  have "ucast (ucast (c - 48) :: u32) = c - 48" by (rule bit_word_eqI) (simp add: bit_simps)
  then show ?thesis by (simp add: digit_def)
qed

lemma two_places: "b < k \<Longrightarrow> (a * k + b) div k = a \<and> (a * k + b) mod k = (b :: nat)"
  by (cases "k = 0") simp_all

lemma three_places:
  assumes "a \<le> 9" "b \<le> 9" "c \<le> (9 :: nat)"
  shows "((a * 10 + b) * 10 + c) div 100 = a" and "((a * 10 + b) * 10 + c) div 10 mod 10 = b" and "((a * 10 + b) * 10 + c) mod 10 = c"
proof -
  have "(a * 10 + b) * 10 + c = a * 100 + (b * 10 + c)" by simp
  then show "((a * 10 + b) * 10 + c) div 100 = a" using two_places [of "b * 10 + c" 100 a] assms by simp
  show "((a * 10 + b) * 10 + c) div 10 mod 10 = b" "((a * 10 + b) * 10 + c) mod 10 = c"
    using two_places [of c 10 "a * 10 + b"] two_places [of b 10 a] assms by simp_all
qed

lemma read_numeric_bits: "list_all is_digit ds \<Longrightarrow> read_numeric (length ds) (numeric_bits ds @ r) = ds"
proof (induction ds arbitrary: r rule: numeric_bits.induct)
  case (1 a b c ds)
  let ?v = "(digit a * 10 + digit b) * 10 + digit c"
  have d: "unat (digit a) \<le> 9" "unat (digit b) \<le> 9" "unat (digit c) \<le> 9" using 1(2) digit_bound by auto
  have two: "unat (digit a * 10 + digit b) = unat (digit a) * 10 + unat (digit b)" using unat_accum [of "digit a" 9 "digit b" 9 10] d by simp
  have v: "unat ?v = (unat (digit a) * 10 + unat (digit b)) * 10 + unat (digit c)"
    using unat_accum [of "digit a * 10 + digit b" 99 "digit c" 9 10] two_digits [of a b] 1(2) d two by simp
  have "bits_num (nbits 10 ?v) = unat ?v" using three_digits [of a b c] 1(2) by (intro bits_num_nbits) simp_all
  moreover have "unat ?v div 100 = unat (digit a)" "unat ?v div 10 mod 10 = unat (digit b)" "unat ?v mod 10 = unat (digit c)"
    unfolding v by (rule three_places [OF d])+
  ultimately show ?case using 1 by (simp add: Let_def digit_char)
next
  case (2 a b)
  let ?v = "digit a * 10 + digit b"
  have d: "unat (digit a) \<le> 9" "unat (digit b) \<le> 9" using 2 digit_bound by auto
  have v: "unat ?v = unat (digit a) * 10 + unat (digit b)" using unat_accum [of "digit a" 9 "digit b" 9 10] d by simp
  have "bits_num (nbits 7 ?v) = unat ?v" using two_digits [of a b] 2 by (intro bits_num_nbits) simp_all
  moreover have "unat ?v div 10 = unat (digit a)" "unat ?v mod 10 = unat (digit b)" unfolding v using d two_places [of "unat (digit b)" 10] by simp_all
  ultimately show ?case using 2 by (simp add: Let_def digit_char)
next
  case (3 a)
  then have "bits_num (nbits 4 (digit a)) = unat (digit a)" using digit_bound [of a] by (intro bits_num_nbits) simp_all
  then show ?case using 3 by (simp add: digit_char)
qed simp

lemma alnum_pos: "c \<in> set ALPHANUMERIC_CHARSET \<Longrightarrow> ALPHANUMERIC_CHARSET ! unat (alnum c) = c"
proof -
  assume c: "c \<in> set ALPHANUMERIC_CHARSET"
  have "length ALPHANUMERIC_CHARSET = 45" by (simp add: ALPHANUMERIC_CHARSET_def)
  then have "unat (alnum c) = char_pos ALPHANUMERIC_CHARSET c" unfolding alnum_def using char_pos_less [OF c] by (intro unat_of_nat_small) simp
  then show ?thesis using nth_char_pos [OF c] by simp
qed

lemma read_alphanumeric_bits:
  "list_all (\<lambda>c. c \<in> set ALPHANUMERIC_CHARSET) cs \<Longrightarrow> read_alphanumeric (length cs) (alphanumeric_bits cs @ r) = cs"
proof (induction cs arbitrary: r rule: alphanumeric_bits.induct)
  case (1 a b cs)
  let ?v = "alnum a * 45 + alnum b"
  have d: "unat (alnum a) \<le> 44" "unat (alnum b) \<le> 44" using 1(2) alnum_bound by auto
  have v: "unat ?v = unat (alnum a) * 45 + unat (alnum b)" using unat_accum [of "alnum a" 44 "alnum b" 44 45] d by simp
  have "bits_num (nbits 11 ?v) = unat ?v" using two_alnum [of a b] 1(2) by (intro bits_num_nbits) simp_all
  moreover have "unat ?v div 45 = unat (alnum a)" "unat ?v mod 45 = unat (alnum b)" unfolding v using d two_places [of "unat (alnum b)" 45] by simp_all
  ultimately show ?case using 1 by (simp add: Let_def alnum_pos)
next
  case (2 a)
  then have "bits_num (nbits 6 (alnum a)) = unat (alnum a)" using alnum_bound [of a] by (intro bits_num_nbits) simp_all
  then show ?case using 2 by (simp add: alnum_pos)
qed simp

lemma read_bytes_bits: "read_bytes (length d) (bits_of 8 d @ r) = d"
proof -
  have "low_bits 8 x" for x :: u8 using bit_imp_le_length [of x] by (auto simp: low_bits_def)
  then have "unpack 8 (bits_of 8 d @ []) = d" by (intro unpack_bits) simp_all
  then show ?thesis by (simp add: read_bytes_def)
qed

lemma count_num:
  assumes v: "1 \<le> v" "v \<le> 40" and "n < 2 ^ count_bits m v"
  shows "bits_num (nbits (count_bits m v) (of_nat n :: u32)) = n"
proof -
  note c = count_bits_ok(2) [OF v, of m]
  have "(2 :: nat) ^ count_bits m v \<le> 2 ^ 16" using c by (intro power_increasing) simp_all
  then have "unat (of_nat n :: u32) = n" using assms(3) by (intro unat_of_nat_small) simp
  then show ?thesis using assms(3) c bits_num_nbits [of "of_nat n" "count_bits m v"] by simp
qed

lemma count_standard:
  assumes "1 \<le> v" and "v \<le> 40" and "m = Mode_NUMERIC \<or> m = Mode_ALPHANUMERIC \<or> m = Mode_BYTE"
  shows "standard_count (int (unat (mode_bits m))) v = count_bits m v"
proof -
  consider "v \<le> 9" "(v + 7) div 17 = 0" | "9 < v" "v \<le> 26" "(v + 7) div 17 = 1" | "26 < v" "(v + 7) div 17 = 2" using assms(1,2) by linarith
  then show ?thesis
    using assms by cases (auto simp: standard_count_def count_bits_def numCharCountBits_def qrcodegen_VERSION_MIN_def qrcodegen_VERSION_MAX_def Let_def)
qed

lemma mode_num: "bits_num (nbits 4 (mode_bits m)) = unat (mode_bits m)"
  using mode_bound [of m] by (rule bits_num_nbits) simp

lemma read_content_ok:
  assumes v: "1 \<le> v" "v \<le> 40" and f: "content_fits buf ecl v"
  shows "read_content v (data_stream (8 * nat (data_words v ecl)) (content_code buf v)) = Some buf"
proof -
  let ?cap = "8 * nat (data_words v ecl)"
  have cap: "8 \<le> ?cap" using getNumDataCodewords_ok(2) [OF v, of ecl] by simp
  obtain r where r: "data_stream ?cap (content_code buf v) = content_code buf v @ replicate (min 4 (?cap - length (content_code buf v))) False @ r"
    by (simp add: data_stream_def terminated_def Let_def)
  show ?thesis
  proof (cases "buf = []")
    case True
    have "min 4 (?cap - length (content_code buf v)) = 4" using True cap by (simp add: content_code_def)
    then have "take 4 (data_stream ?cap (content_code buf v)) = nbits 4 (0 :: u32)"
      unfolding r using True by (simp add: content_code_def nbits_0)
    then show ?thesis using True bits_num_nbits [of 0 4] by (simp add: read_content_def Let_def)
  next
    case False
    let ?m = "content_mode buf"
    let ?t = "replicate (min 4 (?cap - length (content_code buf v))) False @ r"
    have n: "length buf < 2 ^ count_bits ?m v" using f False by (simp add: content_fits_def)
    have s: "data_stream ?cap (content_code buf v) = nbits 4 (mode_bits ?m) @ nbits (count_bits ?m v) (of_nat (length buf) :: u32) @ content_bits buf @ ?t"
      unfolding r using False by (simp add: content_code_def)
    consider "?m = Mode_NUMERIC" "content_bits buf = numeric_bits buf" "list_all is_digit buf"
      | "?m = Mode_ALPHANUMERIC" "content_bits buf = alphanumeric_bits buf" "list_all (\<lambda>c. c \<in> set ALPHANUMERIC_CHARSET) buf"
      | "?m = Mode_BYTE" "content_bits buf = bits_of 8 buf"
      by (cases "0 \<in> set buf"; cases "qrcodegen_isNumeric buf"; cases "qrcodegen_isAlphanumeric buf")
        (auto simp: content_mode_def content_bits_def text_mode_def text_bits_def numeric_digits qrcodegen_isAlphanumeric_def)
    then show ?thesis
      using mode_num [of ?m] count_num [OF v n] count_standard [OF v, of ?m] unfolding read_content_def s Let_def
      by cases (simp_all add: read_numeric_bits read_alphanumeric_bits read_bytes_bits)
  qed
qed

section \<open>Reading a code\<close>

text \<open>The reader of the standard for a code without errors: the version from the size, the level and the
  mask from the format bits, the data words from the modules, with every check word satisfied.\<close>

definition qr_decode :: "bytes \<Rightarrow> bytes option" where
  "qr_decode q = (let v = (uint (q ! 0) - 17) div 4; c = layout_of (read_ecl q) v; w = read_word v (read_mask q) q in
     if \<forall>i < nb c. \<forall>k < el c. geval (gpow 2 k) (read_block c w i @ read_check c w i) = 0
     then read_content v (bits_of 8 (concat (map (read_block c w) [0..<nb c]))) else None)"

lemma qr_decode_code:
  assumes v: "1 \<le> v" "v \<le> 40" and c: "code_of buf v q"
  shows "qr_decode q = Some buf"
proof -
  obtain ecl msk where q: "0 \<le> msk" "msk \<le> 7" "qr_wf (4 * v + 17) q" "content_fits buf ecl v" "format_shown ecl msk q"
    "reads_as ecl v msk q (data_stream (8 * nat (data_words v ecl)) (content_code buf v))" using c by (auto simp: code_of_def)
  note f = read_format_ok [OF q(1,2,5)]
  have "(uint (q ! 0) - 17) div 4 = v" using q(3) by (simp add: qr_wf_def)
  then show ?thesis
    using q(6) read_content_ok [OF v q(4)] unfolding qr_decode_def reads_as_def Let_def f by simp
qed

end
