(* ===== verification/Qr_Props.thy ===== *)
theory Qr_Props
  imports Qr_Galois Qr_Text
begin

text \<open>
  The Python module \<^verbatim>\<open>qrcode\<close>: what its functions return for every byte string that fits their buffers,
  and the two places where they do not do what they mean to.
\<close>

section \<open>The code for a buffer\<close>

lemma buffer_len_max: "qrcodegen_BUFFER_LEN_MAX = 3918"
  by (simp add: qrcodegen_BUFFER_LEN_MAX_def qrcodegen_BUFFER_LEN_FOR_VERSION_def qrcodegen_VERSION_MAX_def)

lemma encode_buffer_ok:
  assumes l: "length tempBuffer = qrcodegen_BUFFER_LEN_MAX" "length qrcode = qrcodegen_BUFFER_LEN_MAX" "length buf \<le> qrcodegen_BUFFER_LEN_MAX"
  shows "\<exists>r. encodes buf r \<and> encode_buffer tempBuffer qrcode (Mp_buffer buf) = (case r of (ok, _, q) \<Rightarrow> if ok then Inr q else Inl (ValueError ''Failed to encode''))"
proof -
  note mx = buffer_len_max
  note l = l [unfolded mx]
  have zero: "list_ex (\<lambda>b. b = 0) xs \<longleftrightarrow> 0 \<in> set xs" for xs :: bytes by (auto simp: list_ex_iff)
  have vs: "qrcodegen_VERSION_MIN = 1" "qrcodegen_VERSION_MAX = 40" by (simp_all add: qrcodegen_VERSION_MIN_def qrcodegen_VERSION_MAX_def)
  show ?thesis
  proof (cases "0 \<in> set buf")
    case True
    obtain r where "qrcodegen_encodeBinary (memcpy_at tempBuffer 0 buf) (length buf) qrcode Ecc_LOW 1 40 (-1) True = Some r" "encodes buf r"
      using encodeBinary_ok [OF True l(3,1,2)] by (auto simp: runs_def)
    then show ?thesis using True l(1,3) unfolding encode_buffer_def vs Let_def
      by (intro exI [of _ r]) (simp add: mp_get_buffer_raise_def zero split: prod.split)
  next
    case False
    then have t: "takeWhile (\<lambda>b. b \<noteq> 0) buf = buf" by (simp add: takeWhile_eq_all_conv) metis
    have lt: "length (memcpy_at tempBuffer 0 buf) = 3918" using l by (simp add: memcpy_at_def)
    obtain r where "qrcodegen_encodeText buf (memcpy_at tempBuffer 0 buf) qrcode Ecc_LOW 1 40 (-1) True = Some r" "encodes buf r"
      using encodeText_ok [OF False l(3) lt l(2)] unfolding runs_def by blast
    then show ?thesis using False l(1,3) unfolding encode_buffer_def vs Let_def
      by (intro exI [of _ r]) (simp add: mp_get_buffer_raise_def zero t split: prod.split)
  qed
qed

lemma encode_buffer_cases:
  assumes "length tempBuffer = qrcodegen_BUFFER_LEN_MAX" "length qrcode = qrcodegen_BUFFER_LEN_MAX" "length buf \<le> qrcodegen_BUFFER_LEN_MAX"
  obtains (code) q v where "encode_buffer tempBuffer qrcode (Mp_buffer buf) = Inr q" "1 \<le> v" "v \<le> 40" "code_of buf v q"
      "content_fits buf Ecc_LOW v" "\<forall>u. 1 \<le> u \<and> u < v \<longrightarrow> \<not> content_fits buf Ecc_LOW u"
    | (too_long) "encode_buffer tempBuffer qrcode (Mp_buffer buf) = Inl (ValueError ''Failed to encode'')"
      "\<forall>u. 1 \<le> u \<and> u \<le> 40 \<longrightarrow> \<not> content_fits buf Ecc_LOW u"
  using encode_buffer_ok [OF assms] by (auto simp: encodes_def split: if_splits)

section \<open>The code as a string\<close>

text \<open>The characters of the string: a row of digits for each row of modules, and a line feed.\<close>

definition code_char :: "bytes \<Rightarrow> int \<Rightarrow> int \<Rightarrow> u8" where
  "code_char q x y = (if pix q x y then 49 else 48)"

definition code_row :: "bytes \<Rightarrow> int \<Rightarrow> int \<Rightarrow> bytes" where
  "code_row q sz y = map (\<lambda>x. code_char q x y) [0..sz - 1] @ [10]"

definition code_string :: "bytes \<Rightarrow> int \<Rightarrow> bytes" where
  "code_string q sz = concat (map (code_row q sz) [0..sz - 1])"

lemma length_code_row: "0 \<le> sz \<Longrightarrow> length (code_row q sz y) = nat (sz + 1)"
  by (simp add: code_row_def)

text \<open>Writing a row at the end of what is written leaves the zeros after it.\<close>

lemma string_cells:
  assumes wf: "qr_wf sz q" and y: "0 \<le> y" "y < sz" and p: "length p = nat (y * (sz + 1))"
  shows "runs (foldM (string_cell q sz y) [0..sz - 1] (p @ replicate (nat sz) 48 @ r))
    (\<lambda>vs. vs = p @ map (\<lambda>x. code_char q x y) [0..sz - 1] @ r)"
proof -
  have sz: "21 \<le> sz" "uint (q ! 0) = sz" using wf by (simp_all add: qr_wf_def)
  have "runs (foldM (string_cell q sz y) [0..sz - 1] (p @ replicate (nat sz) 48 @ r))
    ((\<lambda>ds vs. vs = p @ map (\<lambda>x. code_char q x y) ds @ replicate (nat sz - length ds) 48 @ r) [0..sz - 1])"
  proof (rule runs_foldM_done, goal_cases)
    case (1 ds x es vs)
    have "length [0..sz - 1] = length (ds @ x # es)" using 1(1) by simp
    then have l: "length ds < nat sz" using sz by simp
    have "x = [0..sz - 1] ! length ds" unfolding 1(1) by simp
    then have x: "x = int (length ds)" using l sz by simp
    have c: "in_code sz x y" using x l y by (simp add: in_code_def)
    have m: "qrcodegen_getModule q x y = Some (pix q x y)"
      using getModule_ok [OF wf c] c sz(2) by (simp add: qrcodegen_getModule_def Let_def in_code_def)
    have k: "nat (y * (sz + 1) + x) = length (p @ map (\<lambda>x. code_char q x y) ds)" using p x y sz by (simp add: nat_add_distrib)
    obtain n where n: "nat sz - length ds = Suc n" using l by (metis Suc_diff_Suc)
    then have n': "nat sz - length (ds @ [x]) = n" by simp
    show ?case
      unfolding string_cell_def m k Option.bind.simps 1(2) n n'
      by (simp add: store_byte_def code_char_def list_update_append)
  qed simp
  then show ?thesis using sz by simp
qed

lemma string_row_ok:
  assumes wf: "qr_wf sz q" and y: "0 \<le> y" "y < sz" and p: "length p = nat (y * (sz + 1))"
  shows "runs (string_row q sz y (p @ replicate (nat (sz + 1)) 48 @ r)) (\<lambda>vs. vs = p @ code_row q sz y @ r)"
proof -
  have sz: "21 \<le> sz" using wf by (simp add: qr_wf_def)
  then have "replicate (nat (sz + 1)) (48 :: u8) = replicate (nat sz) 48 @ [48]" by (simp add: nat_add_distrib replicate_append_same)
  moreover have k: "nat (y * (sz + 1) + sz) = length (p @ map (\<lambda>x. code_char q x y) [0..sz - 1])" using p y sz by (simp add: nat_add_distrib)
  ultimately show ?thesis
    unfolding string_row_def
    by (simp only: append.assoc, intro runs_bind [OF string_cells [OF wf y p]])
      (simp only: k, simp add: store_byte_def code_row_def list_update_append)
qed

lemma string_rows:
  assumes wf: "qr_wf sz q"
  shows "foldM (string_row q sz) [0..sz - 1] (replicate (nat ((sz + 1) * sz)) 48 @ r) = Some (code_string q sz @ r)"
proof -
  have sz: "21 \<le> sz" using wf by (simp add: qr_wf_def)
  let ?I = "\<lambda>ds vs. vs = concat (map (code_row q sz) ds) @ replicate ((nat sz - length ds) * nat (sz + 1)) 48 @ r"
  have "runs (foldM (string_row q sz) [0..sz - 1] (replicate (nat ((sz + 1) * sz)) 48 @ r)) (?I [0..sz - 1])"
  proof (rule runs_foldM_done, goal_cases)
    case (1 ds y es vs)
    have "length [0..sz - 1] = length (ds @ y # es)" using 1(1) by simp
    then have l: "length ds < nat sz" using sz by simp
    have "y = [0..sz - 1] ! length ds" unfolding 1(1) by simp
    then have y: "y = int (length ds)" using l sz by simp
    obtain n where n: "nat sz - length ds = Suc n" using l by (metis Suc_diff_Suc)
    then have n': "nat sz - length (ds @ [y]) = n" by simp
    have ys: "0 \<le> y" "y < sz" using y l by linarith+
    have "length (concat (map (code_row q sz) ds)) = length ds * nat (sz + 1)"
      using sz by (induction ds) (simp_all add: length_code_row)
    then have "length (concat (map (code_row q sz) ds)) = nat (y * (sz + 1))" unfolding y by (simp add: nat_mult_distrib)
    from string_row_ok [OF wf ys this, of "replicate (n * nat (sz + 1)) 48 @ r"] show ?case
      unfolding 1(2) n n' by (simp add: replicate_add)
  qed (use sz in \<open>simp add: nat_mult_distrib mult.commute\<close>)
  then show ?thesis using sz by (simp add: runs_def code_string_def)
qed

section \<open>The packed code\<close>

lemma odd_square: "sz = 4 * v + 17 \<Longrightarrow> (sz * sz + 7) div 8 * 8 = sz * sz + (7 :: int)"
proof -
  assume sz: "sz = 4 * v + 17"
  have "even (v * v + v)" by simp
  then obtain k where "v * v + v = 2 * k" by (elim evenE)
  then have "sz * sz + 7 = 8 * (4 * k + 15 * v + 37)" unfolding sz by (simp add: algebra_simps)
  then show ?thesis by simp
qed

lemma last_cell:
  assumes v: "1 \<le> v" and sz: "sz = 4 * v + 17" and wf: "qr_wf sz q"
  shows "pix q (sz - 1) (sz - 1) = bit (q ! nat ((sz * sz + 7) div 8)) 0"
proof -
  define n where "n = (sz * sz + 7) div 8"
  have n: "8 * n = sz * sz + 7" using odd_square [OF sz] unfolding n_def by simp
  have s: "0 \<le> sz * sz" by simp
  then have "1 \<le> n" using n by linarith
  have "(sz - 1) * sz + (sz - 1) = sz * sz - 1" by (simp add: algebra_simps)
  also have "\<dots> = 8 * (n - 1)" using n by simp
  finally have "cell sz (sz - 1) (sz - 1) = 8 * nat (n - 1)" using \<open>1 \<le> n\<close> by (simp add: cell_def)
  moreover have "uint (q ! 0) = sz" using wf by (simp add: qr_wf_def)
  moreover have "nat (n - 1) + 1 = nat n" using \<open>1 \<le> n\<close> by linarith
  ultimately show ?thesis unfolding pix_def n_def [symmetric] by simp
qed

lemma packed_size: "1 \<le> (v :: int) \<Longrightarrow> v \<le> 40 \<Longrightarrow> sz = 4 * v + 17 \<Longrightarrow> 56 \<le> (sz * sz + 7) div 8 \<and> (sz * sz + 7) div 8 \<le> 3917"
proof -
  assume v: "1 \<le> v" "v \<le> 40" "sz = 4 * v + 17"
  then have "21 * 21 \<le> sz * sz" "sz * sz \<le> 177 * 177" by (intro mult_mono; simp)+
  then show ?thesis by linarith
qed

lemma encode_packed:
  assumes e: "encode_buffer tempBuffer qrcode arg = Inr q" and v: "1 \<le> v" "v \<le> 40" and sz: "sz = 4 * v + 17" and wf: "qr_wf sz q"
    and env: "fresh_ok env" "4000 \<le> heap_limit env"
  shows "qrcode_encode env tempBuffer qrcode arg = Inr (take (nat ((sz * sz + 7) div 8) - 1) (drop 1 q) @
    [fresh_bytes env (nat ((sz * sz + 7) div 8) + 1) ! (nat ((sz * sz + 7) div 8) - 1)])"
proof -
  define n where "n = nat ((sz * sz + 7) div 8)"
  have n: "56 \<le> n" "n \<le> 3917" using packed_size [OF v sz] unfolding n_def by linarith+
  have fr: "length (fresh_bytes env (Suc n)) = Suc n" using env(1) by (simp add: fresh_ok_def)
  have vs: "vstr_init_len env (of_nat n) = Inr (fresh_bytes env (Suc n))" using vstr_ok [OF env(1), of n] env(2) n by simp
  have lq: "n + 1 \<le> length q" using wf n unfolding qr_wf_def n_def by linarith
  let ?w = "take (n - 1) (drop 1 q)"
  have w: "length ?w = n - 1" using lq n by simp
  obtain m where m: "n = Suc m" using n by (cases n) simp_all
  have t: "take n (memcpy_at (fresh_bytes env (Suc n)) 0 ?w) = ?w @ [fresh_bytes env (Suc n) ! (n - 1)]"
    using w fr m by (simp add: take_Suc_conv_app_nth)
  have nl: "(length (fresh_bytes env (Suc n)) < n) = False" using fr by simp
  show ?thesis
    unfolding qrcode_encode_def e getSize_ok [OF wf] sum.case option.case Let_def n_def [symmetric] vs nl if_False t by simp
qed

lemma encode_string:
  assumes e: "encode_buffer tempBuffer qrcode arg = Inr q" and v: "1 \<le> v" "v \<le> 40" and sz: "sz = 4 * v + 17" and wf: "qr_wf sz q"
    and env: "fresh_ok env" "2 ^ 15 \<le> heap_limit env"
  shows "qrcode_encode_to_string env tempBuffer qrcode arg = Inr (code_string q sz)"
proof -
  define n where "n = nat ((sz + 1) * sz)"
  have "(sz + 1) * sz \<le> 178 * 177" using v sz by (intro mult_mono) simp_all
  then have n: "n \<le> 31506" unfolding n_def by simp
  have fr: "length (fresh_bytes env (Suc n)) = Suc n" using env(1) by (simp add: fresh_ok_def)
  have vs: "vstr_init_len env (of_nat n) = Inr (fresh_bytes env (Suc n))" using vstr_ok [OF env(1), of n] env(2) n by simp
  have nl: "(length (fresh_bytes env (Suc n)) < n) = False" using fr by simp
  have row: "length (concat (map (code_row q sz) ys)) = length ys * nat (sz + 1)" for ys
    using v sz by (induction ys) (simp_all add: length_code_row)
  have "length (code_string q sz) = n" using row [of "[0..sz - 1]"] v sz unfolding code_string_def n_def by (simp add: nat_mult_distrib mult.commute)
  then show ?thesis
    unfolding qrcode_encode_to_string_def e getSize_ok [OF wf] sum.case option.case Let_def n_def [symmetric] vs nl if_False
    using string_rows [OF wf] by (simp add: n_def [symmetric])
qed

lemma sample_code:
  assumes "content_fits buf Ecc_LOW 1" and "length buf \<le> 3918"
  shows "\<exists>q. encode_buffer (replicate qrcodegen_BUFFER_LEN_MAX 0) (replicate qrcodegen_BUFFER_LEN_MAX 0) (Mp_buffer buf) = Inr q \<and> qr_wf 21 q"
proof -
  note mx = buffer_len_max
  show ?thesis
  proof (rule encode_buffer_cases [of "replicate qrcodegen_BUFFER_LEN_MAX 0" "replicate qrcodegen_BUFFER_LEN_MAX 0" buf], goal_cases)
    case (4 q v)
    then have "v = 1" using assms(1) by force
    then show ?case using 4 by (auto simp: code_of_def)
  qed (use assms mx in auto)
qed

lemma hi_fits: "content_fits [72, 105] Ecc_LOW 1"
  by code_simp

section \<open>Results\<close>

text \<open>C8: For a byte string of at most 3918 bytes the encoder of \<^verbatim>\<open>qrcode.c\<close> completes without a failed
  assertion and without an access outside its arrays. Either it gives a well-formed code of the smallest
  version that holds the string at the lowest level of correction, or it raises \<^verbatim>\<open>ValueError\<close>, and then the
  string fits no version.\<close>

theorem qrcode_code_wf:
  assumes "length tempBuffer = qrcodegen_BUFFER_LEN_MAX" and "length qrcode = qrcodegen_BUFFER_LEN_MAX"
    and "length buf \<le> qrcodegen_BUFFER_LEN_MAX"
  shows "case encode_buffer tempBuffer qrcode (Mp_buffer buf) of
      Inl e \<Rightarrow> e = ValueError ''Failed to encode'' \<and> (\<forall>v. 1 \<le> v \<and> v \<le> 40 \<longrightarrow> \<not> content_fits buf Ecc_LOW v)
    | Inr q \<Rightarrow> \<exists>v. 1 \<le> v \<and> v \<le> 40 \<and> qr_wf (4 * v + 17) q \<and> content_fits buf Ecc_LOW v \<and>
        (\<forall>u. 1 \<le> u \<and> u < v \<longrightarrow> \<not> content_fits buf Ecc_LOW u)"
  by (rule encode_buffer_cases [OF assms]) (auto simp: code_of_def)

lemma qrcode_code_wf_witness:
  "\<exists>q. encode_buffer (replicate 3918 0) (replicate 3918 0) (Mp_buffer [72, 105]) = Inr q \<and> qr_wf 21 q"
proof -
  note mx = buffer_len_max
  note w = qrcode_code_wf [of "replicate 3918 0" "replicate 3918 0" "[72, 105]", unfolded mx, simplified]
  show ?thesis
  proof (cases "encode_buffer (replicate 3918 0) (replicate 3918 0) (Mp_buffer [72, 105])")
    case (Inl e)
    then show ?thesis using w hi_fits by auto
  next
    case (Inr q)
    then obtain v where v: "1 \<le> v" "qr_wf (4 * v + 17) q" "\<forall>u. 1 \<le> u \<and> u < v \<longrightarrow> \<not> content_fits [72, 105] Ecc_LOW u" using w by auto
    have "v = 1" using v(1,3) hi_fits by force
    then show ?thesis using Inr v(2) by simp
  qed
qed

text \<open>C5: Whatever byte string the encoder accepts, the code reads back as that string: a reader that takes
  the version from the size, the level and the mask from the format bits and the words from the modules in
  the order of the scan finds every block with its check words at zero and, from mode, count and characters,
  the bytes that were encoded.\<close>

theorem qrcode_decodes:
  assumes "length tempBuffer = qrcodegen_BUFFER_LEN_MAX" and "length qrcode = qrcodegen_BUFFER_LEN_MAX"
    and "length buf \<le> qrcodegen_BUFFER_LEN_MAX" and "encode_buffer tempBuffer qrcode (Mp_buffer buf) = Inr q"
  shows "qr_decode q = Some buf"
  by (rule encode_buffer_cases [OF assms(1-3)]) (use assms(4) in \<open>auto intro: qr_decode_code\<close>)

lemma qrcode_decodes_witness:
  "\<exists>q. encode_buffer (replicate 3918 0) (replicate 3918 0) (Mp_buffer [49, 50, 51, 52]) = Inr q \<and> qr_decode q = Some [49, 50, 51, 52]"
proof -
  note mx = buffer_len_max
  have "content_fits [49, 50, 51, 52] Ecc_LOW 1" by code_simp
  then obtain q where q: "encode_buffer (replicate 3918 0) (replicate 3918 0) (Mp_buffer [49, 50, 51, 52]) = Inr q"
    using sample_code [of "[49, 50, 51, 52]"] unfolding mx by auto
  show ?thesis using qrcode_decodes [OF _ _ _ q] q unfolding mx by simp
qed

lemma code_word_zero:
  assumes "reedSolomonComputeDivisor n = Some g" and "reedSolomonComputeRemainder d g n = Some e"
  shows "length e = n" and "k < n \<Longrightarrow> geval (gpow 2 k) (d @ e) = 0"
proof -
  have n: "1 \<le> n" "n \<le> 30" and e: "e = rs_rem g n d" using assms(2) by (simp_all add: reedSolomonComputeRemainder_def rs_rem_def split: if_splits)
  show "length e = n" using length_rs_rem [OF n(1)] by (simp add: e)
  show "k < n \<Longrightarrow> geval (gpow 2 k) (d @ e) = 0"
    using remainder_roots [OF divisor_roots(3) [OF assms(1)] divisor_roots(1,2) [OF assms(1)], of k d] unfolding e rs_rem_def by simp
qed

lemma reedSolomonComputeRemainder_degree: "reedSolomonComputeRemainder d g n = Some e \<Longrightarrow> n \<le> 30"
  by (simp add: reedSolomonComputeRemainder_def split: if_splits)

lemma powers_of_2_distinct: "n \<le> 30 \<Longrightarrow> distinct (map (ppow reedSolomonMultiply 2) [0..<n])"
  using inj_on_subset [OF gpow_inj, of "{..<n}"] by (simp add: distinct_map atLeast0LessThan)

lemma code_word_distance:
  assumes "reedSolomonComputeDivisor n = Some g" and "reedSolomonComputeRemainder d g n = Some e"
    and "reedSolomonComputeRemainder d' g n = Some e'" and "length d' = length d" and "length d + n \<le> 255" and "d \<noteq> d'"
  shows "n < card {i. i < length d + n \<and> (d @ e) ! i \<noteq> (d' @ e') ! i}"
proof -
  have l: "length e = n" "length e' = n" using code_word_zero [OF assms(1)] assms(2,3) by auto
  from rsf.word_distance [OF gpow_inj, of "d @ e" "d' @ e'" n] show ?thesis
    using code_word_zero(2) [OF assms(1,2)] code_word_zero(2) [OF assms(1,3)] l assms(4-6) by simp
qed

text \<open>C18: The words for error correction of \<^verbatim>\<open>qrcodegen.c\<close> are those of a Reed-Solomon code over the
  field of 256 elements. \<^verbatim>\<open>reedSolomonMultiply\<close> is the product of polynomials over two elements
  modulo \<open>x\<^sup>8 + x\<^sup>4 + x\<^sup>3 + x\<^sup>2 + 1\<close>, in which every byte other than 0 has an inverse; data followed by
  its \<open>n\<close> words, as a polynomial over that field, vanishes at the points \<open>2\<^sup>0\<close>, ..., \<open>2\<^sup>n\<^sup>-\<^sup>1\<close>, which are
  different; and two blocks of at most 255 words with different data of the same length differ in
  more than \<open>n\<close> places, so a reader can correct up to \<open>n / 2\<close> wrong words.\<close>

theorem reed_solomon_code:
  assumes "reedSolomonComputeDivisor n = Some g" and "reedSolomonComputeRemainder d g n = Some e"
  shows "(\<forall>x y. reedSolomonMultiply x y = gf_mul x y) \<and> (\<forall>x. x \<noteq> 0 \<longrightarrow> (\<exists>y. gf_mul x y = 1)) \<and>
    length e = n \<and> distinct (map (ppow gf_mul 2) [0..<n]) \<and> (\<forall>k < n. peval gf_mul (ppow gf_mul 2 k) (d @ e) = 0) \<and>
    (\<forall>d' e'. reedSolomonComputeRemainder d' g n = Some e' \<longrightarrow> length d' = length d \<longrightarrow> length d + n \<le> 255 \<longrightarrow> d \<noteq> d' \<longrightarrow>
       n < card {i. i < length d + n \<and> (d @ e) ! i \<noteq> (d' @ e') ! i})"
  using code_word_zero [OF assms] rsf.mul_inverse powers_of_2_distinct [of n] reedSolomonComputeRemainder_degree [OF assms(2)]
    code_word_distance [OF assms] unfolding gmul_is_gf_mul by simp

lemma reed_solomon_code_witness:
  "\<exists>g e e'. reedSolomonComputeDivisor 7 = Some g \<and> reedSolomonComputeRemainder [32, 91, 11] g 7 = Some e \<and>
     reedSolomonComputeRemainder [32, 91, 12] g 7 = Some e' \<and>
     peval gf_mul (ppow gf_mul 2 6) ([32, 91, 11] @ e) = 0 \<and> reedSolomonMultiply 3 0xFF = gf_mul 3 0xFF \<and>
     7 < card {i. i < 10 \<and> ([32, 91, 11] @ e) ! i \<noteq> ([32, 91, 12] @ e') ! i}"
proof -
  obtain g where g: "reedSolomonComputeDivisor 7 = Some g" using divisor_ok [of 7] by auto
  have r: "reedSolomonComputeRemainder d g 7 = Some (rs_rem g 7 d)" for d by (rule remainder_ok) simp_all
  note code = reed_solomon_code [OF g r [of "[32, 91, 11]"]]
  have "7 < card {i. i < 10 \<and> ([32, 91, 11] @ rs_rem g 7 [32, 91, 11]) ! i \<noteq> ([32, 91, 12] @ rs_rem g 7 [32, 91, 12]) ! i}"
    using code [THEN conjunct2, THEN conjunct2, THEN conjunct2, THEN conjunct2, THEN conjunct2] r [of "[32, 91, 12]"]
    by (elim allE [where x = "[32, 91, 12]"] allE [where x = "rs_rem g 7 [32, 91, 12]"]) simp
  then show ?thesis using code g r by auto
qed

text \<open>C34: The string of \<^verbatim>\<open>qrcode.encode_to_string\<close> is the code, row by row: a digit 1 for each black module, 0
  for each white one, and a line feed after each row.\<close>

theorem qrcode_string_rows:
  assumes "length tempBuffer = qrcodegen_BUFFER_LEN_MAX" and "length qrcode = qrcodegen_BUFFER_LEN_MAX"
    and "length buf \<le> qrcodegen_BUFFER_LEN_MAX" and "encode_buffer tempBuffer qrcode (Mp_buffer buf) = Inr q"
    and "fresh_ok env" and "2 ^ 15 \<le> heap_limit env"
  shows "qrcode_encode_to_string env tempBuffer qrcode (Mp_buffer buf) =
    Inr (concat (map (\<lambda>y. map (\<lambda>x. if pix q x y then 49 else 48) [0..uint (q ! 0) - 1] @ [10]) [0..uint (q ! 0) - 1]))"
proof (rule encode_buffer_cases [OF assms(1-3)], goal_cases)
  case (1 q' v)
  then have wf: "qr_wf (4 * v + 17) q" using assms(4) by (auto simp: code_of_def)
  then have "uint (q ! 0) = 4 * v + 17" by (simp add: qr_wf_def)
  then show ?case
    using encode_string [OF assms(4) 1(2,3) refl wf assms(5,6)] unfolding code_string_def code_row_def code_char_def by simp
qed (use assms(4) in simp)

lemma qrcode_string_rows_witness:
  "\<exists>q. qrcode_encode_to_string ample_env (replicate 3918 0) (replicate 3918 0) (Mp_buffer [72, 105]) =
    Inr (concat (map (\<lambda>y. map (\<lambda>x. if pix q x y then 49 else 48) [0..20] @ [10]) [0..20]))"
proof -
  note mx = buffer_len_max
  obtain q where q: "encode_buffer (replicate 3918 0) (replicate 3918 0) (Mp_buffer [72, 105]) = Inr q" "qr_wf 21 q"
    using sample_code [OF hi_fits] unfolding mx by auto
  have "uint (q ! 0) = 21" using q(2) by (simp add: qr_wf_def)
  then show ?thesis using qrcode_string_rows [OF _ _ _ q(1), of ample_env] ample_env_ok unfolding mx by (auto simp del: upto.simps)
qed

text \<open>C35: The bytes of \<^verbatim>\<open>qrcode.encode\<close> are the modules of the code, eight to a byte, except for the last byte:
  the loop stops one short, so that byte is what the allocator left in the memory, although the lowest bit
  of that byte of the code is the last module of the last row.\<close>

theorem qrcode_encode_last_byte:
  assumes "length tempBuffer = qrcodegen_BUFFER_LEN_MAX" and "length qrcode = qrcodegen_BUFFER_LEN_MAX"
    and "length buf \<le> qrcodegen_BUFFER_LEN_MAX" and "encode_buffer tempBuffer qrcode (Mp_buffer buf) = Inr q"
    and "fresh_ok env" and "4000 \<le> heap_limit env" and "sz = uint (q ! 0)" and "n = nat ((sz * sz + 7) div 8)"
  shows "qrcode_encode env tempBuffer qrcode (Mp_buffer buf) = Inr (take (n - 1) (drop 1 q) @ [fresh_bytes env (n + 1) ! (n - 1)]) \<and>
    pix q (sz - 1) (sz - 1) = bit (drop 1 q ! (n - 1)) 0"
proof (rule encode_buffer_cases [OF assms(1-3)], goal_cases)
  case (1 q' v)
  then have wf: "qr_wf (4 * v + 17) q" using assms(4) by (auto simp: code_of_def)
  then have sz: "sz = 4 * v + 17" using assms(7) by (simp add: qr_wf_def)
  note wf = wf [folded sz]
  have "1 \<le> n" "n + 1 \<le> length q" using packed_size [OF 1(2,3) sz] wf assms(8) unfolding qr_wf_def by linarith+
  then have "drop 1 q ! (n - 1) = q ! n" by simp
  then show ?case using encode_packed [OF assms(4) 1(2,3) sz wf assms(5,6)] last_cell [OF 1(2) sz wf] assms(8) by simp
qed (use assms(4) in simp)

lemma qrcode_encode_last_byte_witness:
  "\<exists>w. qrcode_encode ample_env (replicate 3918 0) (replicate 3918 0) (Mp_buffer [72, 105]) = Inr (w @ [0xA5])"
proof -
  note mx = buffer_len_max
  obtain q where q: "encode_buffer (replicate 3918 0) (replicate 3918 0) (Mp_buffer [72, 105]) = Inr q" "qr_wf 21 q"
    using sample_code [OF hi_fits] unfolding mx by auto
  have "21 = uint (q ! 0)" using q(2) by (simp add: qr_wf_def)
  then show ?thesis using qrcode_encode_last_byte [OF _ _ _ q(1), of ample_env 21 56] ample_env_ok unfolding mx by (auto simp: ample_env_def)
qed

end
