(* ===== verification/Aes_Driver.thy ===== *)
theory Aes_Driver
  imports Mp_Obj
begin

unbundle bit_operations_syntax

text \<open>
  \<^verbatim>\<open>kendryte-standalone-sdk/lib/drivers/aes.c\<close>: the driver of the AES unit of the K210, the functions
  that move data with the processor (those that use DMA have no caller). The code works on
  pointers that may alias, so memory is explicit: a pointer is a block and an offset, and a load
  or store outside the block is the error \<open>Heap_overrun\<close>. Blocks are the buffers of Python objects, the IV
  inside a cipher object, a string under construction and the arrays on the stack of the callers.
  Word accesses are little-endian and go to aligned addresses.

  The unit is not software: it is a parameter \<open>bus\<close>, a function from an access to a register and a
  state of the unit to the value read and the next state. A computation gives \<open>None\<close> when a wait for a
  flag does not end.
\<close>

section \<open>Memory, registers, computations\<close>

datatype blk = Null | Obj nat | Iv nat | Vstr | Counter_block | Encrypted_counter | Gcm_tag

type_synonym ptr = "blk \<times> nat"

datatype aes_reg =
    Aes_key nat | Encrypt_sel | Mode_ctl | Aes_iv nat | Aes_endian | Aes_finish | Dma_sel | Gb_aad_num | Gb_pc_num
  | Aes_text_data | Aes_aad_data | Tag_chk | Data_in_flag | Gcm_in_tag nat | Aes_out_data | Gb_aes_en
  | Data_out_flag | Tag_in_flag | Tag_clear | Gcm_out_tag nat | Aes_key_ext nat

datatype aes_access = Clock_enable | Unit_reset | Rd aes_reg | Wr aes_reg u32

type_synonym 'd aes_bus = "aes_access \<Rightarrow> 'd \<Rightarrow> u32 \<times> 'd"

record 'd aes_sys =
  blocks :: "blk \<Rightarrow> bytes"
  unit_state :: 'd

type_synonym ('d, 'a) code = "'d aes_sys \<Rightarrow> (mp_error + 'a \<times> 'd aes_sys) option"

definition ret :: "'a \<Rightarrow> ('d, 'a) code" where
  "ret x s = Some (Inr (x, s))"

definition raise :: "mp_error \<Rightarrow> ('d, 'a) code" where
  "raise e s = Some (Inl e)"

definition seq :: "('d, 'a) code \<Rightarrow> ('a \<Rightarrow> ('d, 'b) code) \<Rightarrow> ('d, 'b) code" where
  "seq m k s = (case m s of None \<Rightarrow> None | Some (Inl e) \<Rightarrow> Some (Inl e) | Some (Inr (x, s)) \<Rightarrow> k x s)"

definition also_do :: "('d, unit) code \<Rightarrow> ('d, 'b) code \<Rightarrow> ('d, 'b) code" where
  "also_do m m' = seq m (\<lambda>_. m')"

primrec loop :: "('i \<Rightarrow> ('d, unit) code) \<Rightarrow> 'i list \<Rightarrow> ('d, unit) code" where
  "loop body [] = ret ()"
| "loop body (i # is) = also_do (body i) (loop body is)"

primrec steps :: "('d, unit) code list \<Rightarrow> ('d, unit) code" where
  "steps [] = ret ()"
| "steps (m # ms) = also_do m (steps ms)"

definition in_block :: "'d aes_sys \<Rightarrow> ptr \<Rightarrow> nat \<Rightarrow> bool" where
  "in_block s p n = (fst p \<noteq> Null \<and> snd p + n \<le> length (blocks s (fst p)))"

definition ptr_add :: "ptr \<Rightarrow> nat \<Rightarrow> ptr" where
  "ptr_add p n = (fst p, snd p + n)"

definition load :: "ptr \<Rightarrow> nat \<Rightarrow> ('d, bytes) code" where
  "load p n s = (if in_block s p n then Some (Inr (take n (drop (snd p) (blocks s (fst p))), s)) else Some (Inl Heap_overrun))"

definition store :: "ptr \<Rightarrow> bytes \<Rightarrow> ('d, unit) code" where
  "store p bs s =
     (if in_block s p (length bs)
      then Some (Inr ((), s\<lparr>blocks := (blocks s)(fst p := memcpy_at (blocks s (fst p)) (snd p) bs)\<rparr>))
      else Some (Inl Heap_overrun))"

definition load8 :: "ptr \<Rightarrow> ('d, u8) code" where
  "load8 p = seq (load p 1) (\<lambda>bs. ret (hd bs))"

definition load32 :: "ptr \<Rightarrow> ('d, u32) code" where
  "load32 p = seq (load p 4) (\<lambda>bs. ret (word_le bs))"

definition store8 :: "ptr \<Rightarrow> u8 \<Rightarrow> ('d, unit) code" where
  "store8 p b = store p [b]"

definition store32 :: "ptr \<Rightarrow> u32 \<Rightarrow> ('d, unit) code" where
  "store32 p w = store p (bytes_le 4 w)"

definition access :: "'d aes_bus \<Rightarrow> aes_access \<Rightarrow> ('d, u32) code" where
  "access bus a s = (case bus a (unit_state s) of (v, d) \<Rightarrow> Some (Inr (v, s\<lparr>unit_state := d\<rparr>)))"

definition rd :: "'d aes_bus \<Rightarrow> aes_reg \<Rightarrow> ('d, u32) code" where
  "rd bus r = access bus (Rd r)"

definition wr :: "'d aes_bus \<Rightarrow> aes_reg \<Rightarrow> u32 \<Rightarrow> ('d, unit) code" where
  "wr bus r v = seq (access bus (Wr r v)) (\<lambda>_. ret ())"

text \<open>The loops \<^verbatim>\<open>while (!flag()) ;\<close>.\<close>

partial_function (option) poll :: "'d aes_bus \<Rightarrow> aes_reg \<Rightarrow> 'd \<Rightarrow> 'd option" where
  "poll bus r d = (case bus (Rd r) d of (v, d) \<Rightarrow> if v \<noteq> 0 then Some d else poll bus r d)"

definition wait_flag :: "'d aes_bus \<Rightarrow> aes_reg \<Rightarrow> ('d, unit) code" where
  "wait_flag bus r s = map_option (\<lambda>d. Inr ((), s\<lparr>unit_state := d\<rparr>)) (poll bus r (unit_state s))"

section \<open>The driver\<close>

datatype aes_cipher_mode_t = AES_ECB | AES_CBC | AES_GCM

primrec cipher_code :: "aes_cipher_mode_t \<Rightarrow> u32" where
  "cipher_code AES_ECB = 0" | "cipher_code AES_CBC = 1" | "cipher_code AES_GCM = 2"

datatype aes_encrypt_sel_t = AES_HARD_ENCRYPTION | AES_HARD_DECRYPTION

primrec sel_code :: "aes_encrypt_sel_t \<Rightarrow> u32" where
  "sel_code AES_HARD_ENCRYPTION = 0" | "sel_code AES_HARD_DECRYPTION = 1"

definition AES_128 :: nat where "AES_128 = 16"
definition AES_192 :: nat where "AES_192 = 24"
definition AES_256 :: nat where "AES_256 = 32"
definition IV_LEN_96 :: nat where "IV_LEN_96 = 12"
definition IV_LEN_128 :: nat where "IV_LEN_128 = 16"

record gcm_context =
  gcm_input_key :: ptr
  gcm_iv :: ptr
  gcm_aad :: ptr
  gcm_aad_len :: nat

record cbc_context =
  cbc_input_key :: ptr
  cbc_iv :: ptr

definition aes_clk_init :: "'d aes_bus \<Rightarrow> ('d, unit) code" where
  "aes_clk_init bus = seq (access bus Clock_enable) (\<lambda>_. seq (access bus Unit_reset) (\<lambda>_. ret ()))"

definition gcm_write_tag :: "'d aes_bus \<Rightarrow> ptr \<Rightarrow> ('d, unit) code" where
  "gcm_write_tag bus tag = steps
     [seq (load32 (ptr_add tag 12)) (wr bus (Gcm_in_tag 0)),
      seq (load32 (ptr_add tag 8)) (wr bus (Gcm_in_tag 1)),
      seq (load32 (ptr_add tag 4)) (wr bus (Gcm_in_tag 2)),
      seq (load32 (ptr_add tag 0)) (wr bus (Gcm_in_tag 3))]"

definition gcm_check_tag :: "'d aes_bus \<Rightarrow> ptr \<Rightarrow> ('d, u32) code" where
  "gcm_check_tag bus tag =
     also_do (wait_flag bus Tag_in_flag)
       (also_do (gcm_write_tag bus tag)
         (also_do (wait_flag bus Tag_chk)
           (seq (rd bus Tag_chk) (\<lambda>chk.
              if chk = 2 then also_do (wr bus Tag_clear 0) (ret 1)
              else also_do (wr bus Tag_clear 0) (ret 0)))))"

text \<open>Four bytes of the tag, the high byte of the register first.\<close>

definition store_tag_word :: "ptr \<Rightarrow> u32 \<Rightarrow> ('d, unit) code" where
  "store_tag_word p w = steps
     [store8 (ptr_add p 0) (ucast (drop_bit 24 w AND 0xff)), store8 (ptr_add p 1) (ucast (drop_bit 16 w AND 0xff)),
      store8 (ptr_add p 2) (ucast (drop_bit 8 w AND 0xff)), store8 (ptr_add p 3) (ucast (w AND 0xff))]"

definition gcm_get_tag :: "'d aes_bus \<Rightarrow> ptr \<Rightarrow> ('d, unit) code" where
  "gcm_get_tag bus tag = steps
     [seq (rd bus (Gcm_out_tag 3)) (store_tag_word (ptr_add tag 0)),
      seq (rd bus (Gcm_out_tag 2)) (store_tag_word (ptr_add tag 4)),
      seq (rd bus (Gcm_out_tag 1)) (store_tag_word (ptr_add tag 8)),
      seq (rd bus (Gcm_out_tag 0)) (store_tag_word (ptr_add tag 12)),
      seq (gcm_check_tag bus tag) (\<lambda>_. ret ())]"

text \<open>The \<^verbatim>\<open>switch (remainder)\<close> that collects the last bytes into \<^verbatim>\<open>uint8_data\<close>, which is zero before.\<close>

definition rest_word :: "ptr \<Rightarrow> nat \<Rightarrow> ('d, u32) code" where
  "rest_word p remainder =
     (if remainder = 1 then
        seq (load8 p) (\<lambda>a. ret (word_le [a, 0, 0, 0]))
      else if remainder = 2 then
        seq (load8 p) (\<lambda>a. seq (load8 (ptr_add p 1)) (\<lambda>b. ret (word_le [a, b, 0, 0])))
      else if remainder = 3 then
        seq (load8 p) (\<lambda>a. seq (load8 (ptr_add p 1)) (\<lambda>b. seq (load8 (ptr_add p 2)) (\<lambda>c. ret (word_le [a, b, c, 0]))))
      else ret (word_le [0, 0, 0, 0]))"

text \<open>The code that passes \<open>n\<close> bytes in words to a data register, waiting for the flag before each; \<^verbatim>\<open>aes_init\<close> has it for the
  additional data and \<^verbatim>\<open>process_less_80_bytes\<close> for the text.\<close>

definition input_words :: "'d aes_bus \<Rightarrow> aes_reg \<Rightarrow> ptr \<Rightarrow> nat \<Rightarrow> ('d, unit) code" where
  "input_words bus r p n =
     also_do (loop (\<lambda>i. seq (load32 (ptr_add p (i * 4))) (\<lambda>w. also_do (wait_flag bus Data_in_flag) (wr bus r w))) [0..<n div 4])
       (if n mod 4 \<noteq> 0 then
          seq (rest_word (ptr_add p (4 * (n div 4))) (n mod 4)) (\<lambda>w. also_do (wait_flag bus Data_in_flag) (wr bus r w))
        else ret ())"

definition padded16 :: "nat \<Rightarrow> nat" where
  "padded16 n = (n + 15) div 16 * 16"

text \<open>The two fields of the mode register.\<close>

definition write_kmode :: "'d aes_bus \<Rightarrow> u32 \<Rightarrow> ('d, unit) code" where
  "write_kmode bus k = seq (rd bus Mode_ctl) (\<lambda>v. wr bus Mode_ctl ((v AND NOT 0x18) OR (push_bit 3 k AND 0x18)))"

definition write_cipher_mode :: "'d aes_bus \<Rightarrow> u32 \<Rightarrow> ('d, unit) code" where
  "write_cipher_mode bus m = seq (rd bus Mode_ctl) (\<lambda>v. wr bus Mode_ctl ((v AND NOT 7) OR (m AND 7)))"

definition aes_init :: "'d aes_bus \<Rightarrow> ptr \<Rightarrow> nat \<Rightarrow> ptr \<Rightarrow> nat \<Rightarrow> ptr \<Rightarrow> aes_cipher_mode_t \<Rightarrow> aes_encrypt_sel_t \<Rightarrow> nat \<Rightarrow> nat \<Rightarrow> ('d, unit) code" where
  "aes_init bus input_key input_key_len iv iv_len aad cipher_mode encrypt_sel aad_len input_data_len =
     (let padding_len = (if cipher_mode = AES_ECB \<or> cipher_mode = AES_CBC then padded16 input_data_len else input_data_len)
      in steps
       [aes_clk_init bus,
        seq (rd bus Aes_endian) (\<lambda>v. wr bus Aes_endian (v OR 1)),
        loop (\<lambda>i. seq (load32 (ptr_add input_key (input_key_len - 4 * i - 4)))
                    (wr bus (if i < 4 then Aes_key i else Aes_key_ext (i - 4)))) [0..<input_key_len div 4],
        loop (\<lambda>i. seq (load32 (ptr_add iv (iv_len - 4 * i - 4))) (wr bus (Aes_iv i))) [0..<iv_len div 4],
        write_kmode bus (of_nat (input_key_len div 8 - 2)),
        write_cipher_mode bus (cipher_code cipher_mode),
        wr bus Encrypt_sel (sel_code encrypt_sel),
        wr bus Gb_aad_num (of_nat aad_len - 1),
        wr bus Gb_pc_num (of_nat padding_len - 1),
        seq (rd bus Gb_aes_en) (\<lambda>v. wr bus Gb_aes_en (v OR 1)),
        (if cipher_mode = AES_GCM then input_words bus Aes_aad_data aad aad_len else ret ())])"

definition process_less_80_bytes :: "'d aes_bus \<Rightarrow> ptr \<Rightarrow> ptr \<Rightarrow> nat \<Rightarrow> aes_cipher_mode_t \<Rightarrow> ('d, unit) code" where
  "process_less_80_bytes bus input_data output_data input_data_len cipher_mode =
     (let padding_len = padded16 input_data_len;
          remainder = input_data_len mod 4;
          uint32_num = (if cipher_mode = AES_ECB \<or> cipher_mode = AES_CBC then padding_len div 4 else input_data_len div 4)
      in steps
       [input_words bus Aes_text_data input_data input_data_len,
        (if cipher_mode = AES_ECB \<or> cipher_mode = AES_CBC then
           loop (\<lambda>i. also_do (wait_flag bus Data_in_flag) (wr bus Aes_text_data 0)) [0..<(padding_len - input_data_len) div 4]
         else ret ()),
        loop (\<lambda>i. also_do (wait_flag bus Data_out_flag) (seq (rd bus Aes_out_data) (store32 (ptr_add output_data (i * 4)))))
          [0..<uint32_num],
        (if cipher_mode = AES_GCM \<and> remainder \<noteq> 0 then
           also_do (wait_flag bus Data_out_flag)
             (seq (rd bus Aes_out_data) (\<lambda>w.
                loop (\<lambda>k. store8 (ptr_add output_data (uint32_num * 4 + k)) (bytes_le 4 w ! k)) [0..<remainder]))
         else ret ())])"

definition aes_process :: "'d aes_bus \<Rightarrow> ptr \<Rightarrow> ptr \<Rightarrow> nat \<Rightarrow> aes_cipher_mode_t \<Rightarrow> ('d, unit) code" where
  "aes_process bus input_data output_data input_data_len cipher_mode =
     (let n = input_data_len div 80; temp_len = input_data_len mod 80 in
      also_do (loop (\<lambda>i. process_less_80_bytes bus (ptr_add input_data (i * 80)) (ptr_add output_data (i * 80)) 80 cipher_mode) [0..<n])
        (if temp_len \<noteq> 0 then
           process_less_80_bytes bus (ptr_add input_data (n * 80)) (ptr_add output_data (n * 80)) temp_len cipher_mode
         else ret ()))"

definition aes_ecb128_hard_decrypt :: "'d aes_bus \<Rightarrow> ptr \<Rightarrow> ptr \<Rightarrow> nat \<Rightarrow> ptr \<Rightarrow> ('d, unit) code" where
  "aes_ecb128_hard_decrypt bus input_key input_data input_len output_data =
     (let padding_len = padded16 input_len in
      also_do (aes_init bus input_key AES_128 (Null, 0) 0 (Null, 0) AES_ECB AES_HARD_DECRYPTION 0 input_len)
        (aes_process bus input_data output_data padding_len AES_ECB))"

definition aes_ecb128_hard_encrypt :: "'d aes_bus \<Rightarrow> ptr \<Rightarrow> ptr \<Rightarrow> nat \<Rightarrow> ptr \<Rightarrow> ('d, unit) code" where
  "aes_ecb128_hard_encrypt bus input_key input_data input_len output_data =
     also_do (aes_init bus input_key AES_128 (Null, 0) 0 (Null, 0) AES_ECB AES_HARD_ENCRYPTION 0 input_len)
       (aes_process bus input_data output_data input_len AES_ECB)"

definition aes_ecb192_hard_decrypt :: "'d aes_bus \<Rightarrow> ptr \<Rightarrow> ptr \<Rightarrow> nat \<Rightarrow> ptr \<Rightarrow> ('d, unit) code" where
  "aes_ecb192_hard_decrypt bus input_key input_data input_len output_data =
     (let padding_len = padded16 input_len in
      also_do (aes_init bus input_key AES_192 (Null, 0) 0 (Null, 0) AES_ECB AES_HARD_DECRYPTION 0 input_len)
        (aes_process bus input_data output_data padding_len AES_ECB))"

definition aes_ecb192_hard_encrypt :: "'d aes_bus \<Rightarrow> ptr \<Rightarrow> ptr \<Rightarrow> nat \<Rightarrow> ptr \<Rightarrow> ('d, unit) code" where
  "aes_ecb192_hard_encrypt bus input_key input_data input_len output_data =
     also_do (aes_init bus input_key AES_192 (Null, 0) 0 (Null, 0) AES_ECB AES_HARD_ENCRYPTION 0 input_len)
       (aes_process bus input_data output_data input_len AES_ECB)"

definition aes_ecb256_hard_decrypt :: "'d aes_bus \<Rightarrow> ptr \<Rightarrow> ptr \<Rightarrow> nat \<Rightarrow> ptr \<Rightarrow> ('d, unit) code" where
  "aes_ecb256_hard_decrypt bus input_key input_data input_len output_data =
     (let padding_len = padded16 input_len in
      also_do (aes_init bus input_key AES_256 (Null, 0) 0 (Null, 0) AES_ECB AES_HARD_DECRYPTION 0 input_len)
        (aes_process bus input_data output_data padding_len AES_ECB))"

definition aes_ecb256_hard_encrypt :: "'d aes_bus \<Rightarrow> ptr \<Rightarrow> ptr \<Rightarrow> nat \<Rightarrow> ptr \<Rightarrow> ('d, unit) code" where
  "aes_ecb256_hard_encrypt bus input_key input_data input_len output_data =
     also_do (aes_init bus input_key AES_256 (Null, 0) 0 (Null, 0) AES_ECB AES_HARD_ENCRYPTION 0 input_len)
       (aes_process bus input_data output_data input_len AES_ECB)"

definition aes_cbc128_hard_decrypt :: "'d aes_bus \<Rightarrow> cbc_context \<Rightarrow> ptr \<Rightarrow> nat \<Rightarrow> ptr \<Rightarrow> ('d, unit) code" where
  "aes_cbc128_hard_decrypt bus context input_data input_len output_data =
     (let padding_len = padded16 input_len in
      also_do (aes_init bus (cbc_input_key context) AES_128 (cbc_iv context) IV_LEN_128 (Null, 0) AES_CBC AES_HARD_DECRYPTION 0 input_len)
        (aes_process bus input_data output_data padding_len AES_CBC))"

definition aes_cbc128_hard_encrypt :: "'d aes_bus \<Rightarrow> cbc_context \<Rightarrow> ptr \<Rightarrow> nat \<Rightarrow> ptr \<Rightarrow> ('d, unit) code" where
  "aes_cbc128_hard_encrypt bus context input_data input_len output_data =
     also_do (aes_init bus (cbc_input_key context) AES_128 (cbc_iv context) IV_LEN_128 (Null, 0) AES_CBC AES_HARD_ENCRYPTION 0 input_len)
       (aes_process bus input_data output_data input_len AES_CBC)"

definition aes_cbc192_hard_decrypt :: "'d aes_bus \<Rightarrow> cbc_context \<Rightarrow> ptr \<Rightarrow> nat \<Rightarrow> ptr \<Rightarrow> ('d, unit) code" where
  "aes_cbc192_hard_decrypt bus context input_data input_len output_data =
     (let padding_len = padded16 input_len in
      also_do (aes_init bus (cbc_input_key context) AES_192 (cbc_iv context) IV_LEN_128 (Null, 0) AES_CBC AES_HARD_DECRYPTION 0 input_len)
        (aes_process bus input_data output_data padding_len AES_CBC))"

definition aes_cbc192_hard_encrypt :: "'d aes_bus \<Rightarrow> cbc_context \<Rightarrow> ptr \<Rightarrow> nat \<Rightarrow> ptr \<Rightarrow> ('d, unit) code" where
  "aes_cbc192_hard_encrypt bus context input_data input_len output_data =
     also_do (aes_init bus (cbc_input_key context) AES_192 (cbc_iv context) IV_LEN_128 (Null, 0) AES_CBC AES_HARD_ENCRYPTION 0 input_len)
       (aes_process bus input_data output_data input_len AES_CBC)"

definition aes_cbc256_hard_decrypt :: "'d aes_bus \<Rightarrow> cbc_context \<Rightarrow> ptr \<Rightarrow> nat \<Rightarrow> ptr \<Rightarrow> ('d, unit) code" where
  "aes_cbc256_hard_decrypt bus context input_data input_len output_data =
     (let padding_len = padded16 input_len in
      also_do (aes_init bus (cbc_input_key context) AES_256 (cbc_iv context) IV_LEN_128 (Null, 0) AES_CBC AES_HARD_DECRYPTION 0 input_len)
        (aes_process bus input_data output_data padding_len AES_CBC))"

definition aes_cbc256_hard_encrypt :: "'d aes_bus \<Rightarrow> cbc_context \<Rightarrow> ptr \<Rightarrow> nat \<Rightarrow> ptr \<Rightarrow> ('d, unit) code" where
  "aes_cbc256_hard_encrypt bus context input_data input_len output_data =
     also_do (aes_init bus (cbc_input_key context) AES_256 (cbc_iv context) IV_LEN_128 (Null, 0) AES_CBC AES_HARD_ENCRYPTION 0 input_len)
       (aes_process bus input_data output_data input_len AES_CBC)"

definition aes_gcm128_hard_decrypt :: "'d aes_bus \<Rightarrow> gcm_context \<Rightarrow> ptr \<Rightarrow> nat \<Rightarrow> ptr \<Rightarrow> ptr \<Rightarrow> ('d, unit) code" where
  "aes_gcm128_hard_decrypt bus context input_data input_len output_data gcm_tag =
     also_do (aes_init bus (gcm_input_key context) AES_128 (gcm_iv context) IV_LEN_96 (gcm_aad context) AES_GCM AES_HARD_DECRYPTION (gcm_aad_len context) input_len)
       (also_do (aes_process bus input_data output_data input_len AES_GCM) (gcm_get_tag bus gcm_tag))"

definition aes_gcm128_hard_encrypt :: "'d aes_bus \<Rightarrow> gcm_context \<Rightarrow> ptr \<Rightarrow> nat \<Rightarrow> ptr \<Rightarrow> ptr \<Rightarrow> ('d, unit) code" where
  "aes_gcm128_hard_encrypt bus context input_data input_len output_data gcm_tag =
     also_do (aes_init bus (gcm_input_key context) AES_128 (gcm_iv context) IV_LEN_96 (gcm_aad context) AES_GCM AES_HARD_ENCRYPTION (gcm_aad_len context) input_len)
       (also_do (aes_process bus input_data output_data input_len AES_GCM) (gcm_get_tag bus gcm_tag))"

definition aes_gcm192_hard_decrypt :: "'d aes_bus \<Rightarrow> gcm_context \<Rightarrow> ptr \<Rightarrow> nat \<Rightarrow> ptr \<Rightarrow> ptr \<Rightarrow> ('d, unit) code" where
  "aes_gcm192_hard_decrypt bus context input_data input_len output_data gcm_tag =
     also_do (aes_init bus (gcm_input_key context) AES_192 (gcm_iv context) IV_LEN_96 (gcm_aad context) AES_GCM AES_HARD_DECRYPTION (gcm_aad_len context) input_len)
       (also_do (aes_process bus input_data output_data input_len AES_GCM) (gcm_get_tag bus gcm_tag))"

definition aes_gcm192_hard_encrypt :: "'d aes_bus \<Rightarrow> gcm_context \<Rightarrow> ptr \<Rightarrow> nat \<Rightarrow> ptr \<Rightarrow> ptr \<Rightarrow> ('d, unit) code" where
  "aes_gcm192_hard_encrypt bus context input_data input_len output_data gcm_tag =
     also_do (aes_init bus (gcm_input_key context) AES_192 (gcm_iv context) IV_LEN_96 (gcm_aad context) AES_GCM AES_HARD_ENCRYPTION (gcm_aad_len context) input_len)
       (also_do (aes_process bus input_data output_data input_len AES_GCM) (gcm_get_tag bus gcm_tag))"

definition aes_gcm256_hard_decrypt :: "'d aes_bus \<Rightarrow> gcm_context \<Rightarrow> ptr \<Rightarrow> nat \<Rightarrow> ptr \<Rightarrow> ptr \<Rightarrow> ('d, unit) code" where
  "aes_gcm256_hard_decrypt bus context input_data input_len output_data gcm_tag =
     also_do (aes_init bus (gcm_input_key context) AES_256 (gcm_iv context) IV_LEN_96 (gcm_aad context) AES_GCM AES_HARD_DECRYPTION (gcm_aad_len context) input_len)
       (also_do (aes_process bus input_data output_data input_len AES_GCM) (gcm_get_tag bus gcm_tag))"

definition aes_gcm256_hard_encrypt :: "'d aes_bus \<Rightarrow> gcm_context \<Rightarrow> ptr \<Rightarrow> nat \<Rightarrow> ptr \<Rightarrow> ptr \<Rightarrow> ('d, unit) code" where
  "aes_gcm256_hard_encrypt bus context input_data input_len output_data gcm_tag =
     also_do (aes_init bus (gcm_input_key context) AES_256 (gcm_iv context) IV_LEN_96 (gcm_aad context) AES_GCM AES_HARD_ENCRYPTION (gcm_aad_len context) input_len)
       (also_do (aes_process bus input_data output_data input_len AES_GCM) (gcm_get_tag bus gcm_tag))"

end
