(* ===== verification/Ucryptolib.thy ===== *)
theory Ucryptolib
  imports Aes_Driver
begin

unbundle bit_operations_syntax

text \<open>
  \<^verbatim>\<open>moducryptolib_maix.c\<close>: the class \<^verbatim>\<open>aes\<close> of the Python module \<^verbatim>\<open>ucryptolib\<close>. Buffers of Python objects are blocks
  of memory (\<open>Obj n\<close>), because a cipher object keeps a pointer to the key that the caller owns and may write
  over, and because the output may go to the buffer of the input. \<open>Cl_buffer n w\<close> is an object with a
  buffer, writable or not. The keyword arguments are those after parsing, with \<open>Cl_none\<close>, 0 and 4 for \<^verbatim>\<open>iv\<close> and
  \<^verbatim>\<open>nonce\<close>, \<^verbatim>\<open>initial_value\<close> and \<^verbatim>\<open>mac_len\<close> when they are not given.
\<close>

section \<open>Objects\<close>

datatype cl_obj = Cl_buffer nat bool | Cl_int int | Cl_none

datatype cl_ret = Ret_bytes bytes | Ret_obj nat | Ret_none

definition UCRYPTOLIB_MODE_MIN :: u8 where "UCRYPTOLIB_MODE_MIN = 0"
definition UCRYPTOLIB_MODE_GCM :: u8 where "UCRYPTOLIB_MODE_GCM = 1"
definition UCRYPTOLIB_MODE_CBC :: u8 where "UCRYPTOLIB_MODE_CBC = 2"
definition UCRYPTOLIB_MODE_ECB :: u8 where "UCRYPTOLIB_MODE_ECB = 3"
definition UCRYPTOLIB_MODE_CTR :: u8 where "UCRYPTOLIB_MODE_CTR = 4"
definition UCRYPTOLIB_MODE_MAX :: u8 where "UCRYPTOLIB_MODE_MAX = 5"

definition AES_KEYLEN_128 :: u8 where "AES_KEYLEN_128 = 0"
definition AES_KEYLEN_192 :: u8 where "AES_KEYLEN_192 = 1"
definition AES_KEYLEN_256 :: u8 where "AES_KEYLEN_256 = 2"

text \<open>The IV is an array inside the object, at \<open>ctx_iv\<close>; the key is elsewhere.\<close>

record mp_obj_aes_t =
  ctx_input_key :: ptr
  ctx_iv :: ptr
  aes_mode :: u8
  aes_key_len :: u8
  aes_gcm_tag :: bytes

definition get_read_buffer :: "cl_obj \<Rightarrow> ('d, ptr \<times> nat) code" where
  "get_read_buffer arg s =
     (case arg of Cl_buffer n w \<Rightarrow> Some (Inr (((Obj n, 0), length (blocks s (Obj n))), s)) | _ \<Rightarrow> Some (Inl TypeError))"

definition get_write_buffer :: "cl_obj \<Rightarrow> ('d, ptr \<times> nat) code" where
  "get_write_buffer arg s =
     (case arg of Cl_buffer n True \<Rightarrow> Some (Inr (((Obj n, 0), length (blocks s (Obj n))), s)) | _ \<Rightarrow> Some (Inl TypeError))"

text \<open>A block that is new: an array on the stack, allocated memory.\<close>

definition new_block :: "blk \<Rightarrow> bytes \<Rightarrow> ('d, unit) code" where
  "new_block b bs s = Some (Inr ((), s\<lparr>blocks := (blocks s)(b := bs)\<rparr>))"

definition lift_result :: "mp_error + 'a \<Rightarrow> ('d, 'a) code" where
  "lift_result r s = (case r of Inl e \<Rightarrow> Some (Inl e) | Inr x \<Rightarrow> Some (Inr (x, s)))"

definition memcpy :: "ptr \<Rightarrow> ptr \<Rightarrow> nat \<Rightarrow> ('d, unit) code" where
  "memcpy dst src n = seq (load src n) (store dst)"

section \<open>Construction\<close>

definition sizeof_aes :: nat where "sizeof_aes = 40"

definition store_counter :: "ptr \<Rightarrow> u32 \<Rightarrow> ('d, unit) code" where
  "store_counter p counter = steps
     [store8 (ptr_add p 12) (ucast (drop_bit 24 counter AND 0xFF)), store8 (ptr_add p 13) (ucast (drop_bit 16 counter AND 0xFF)),
      store8 (ptr_add p 14) (ucast (drop_bit 8 counter AND 0xFF)), store8 (ptr_add p 15) (ucast (counter AND 0xFF))]"

text \<open>The part \<^verbatim>\<open>Handle IV/nonce\<close> of the constructor, on an IV of zeros.\<close>

definition handle_iv :: "nat \<Rightarrow> u8 \<Rightarrow> cl_obj \<Rightarrow> cl_obj \<Rightarrow> int \<Rightarrow> ('d, unit) code" where
  "handle_iv self mode arg_iv arg_nonce c0 =
     (if mode = UCRYPTOLIB_MODE_CTR then
        if arg_nonce \<noteq> Cl_none then
          seq (get_read_buffer arg_nonce) (\<lambda>(nonce, noncelen).
            if noncelen \<noteq> 12 then raise (ValueError ''nonce must be 12 bytes'')
            else also_do (memcpy (Iv self, 0) nonce 12) (store_counter (Iv self, 0) (of_int c0)))
        else if arg_iv \<noteq> Cl_none then
          seq (get_read_buffer arg_iv) (\<lambda>(ivbuf, ivlen).
            if ivlen \<noteq> 16 then raise (ValueError ''IV must be 16 bytes for CTR'') else memcpy (Iv self, 0) ivbuf 16)
        else raise (ValueError ''CTR requires nonce or IV'')
      else if arg_iv \<noteq> Cl_none then
        seq (get_read_buffer arg_iv) (\<lambda>(ivbuf, ivlen).
          let expected_len = (if mode = UCRYPTOLIB_MODE_GCM then 12 else if mode = UCRYPTOLIB_MODE_CBC then 16 else 0) in
          if ivlen \<noteq> expected_len then raise (ValueError ''wrong IV length for mode'') else memcpy (Iv self, 0) ivbuf ivlen)
      else ret ())"

definition ucryptolib_aes_make_new ::
  "mp_env \<Rightarrow> nat \<Rightarrow> cl_obj \<Rightarrow> int \<Rightarrow> cl_obj \<Rightarrow> cl_obj \<Rightarrow> int \<Rightarrow> int \<Rightarrow> ('d, mp_obj_aes_t) code" where
  "ucryptolib_aes_make_new env self arg_key arg_mode arg_iv arg_nonce arg_initial_value arg_mac_len =
     seq (get_read_buffer arg_key) (\<lambda>(key, keylen).
       if keylen \<noteq> 16 \<and> keylen \<noteq> 24 \<and> keylen \<noteq> 32 then raise (ValueError ''key must be 16/24/32 bytes'')
       else
         let mode = of_int arg_mode :: u8 in
         if mode \<le> UCRYPTOLIB_MODE_MIN \<or> UCRYPTOLIB_MODE_MAX \<le> mode then raise (ValueError ''invalid mode'')
         else if mode = UCRYPTOLIB_MODE_GCM \<and> (of_int arg_mac_len :: u32) \<noteq> 4 then raise (ValueError ''only mac_len=4 is supported'')
         else if mode \<noteq> UCRYPTOLIB_MODE_GCM \<and> arg_mac_len \<noteq> 4 then raise (ValueError ''mac_len is only valid for GCM mode'')
         else
           seq (lift_result (m_malloc env sizeof_aes)) (\<lambda>mem.
             let o' = \<lparr>ctx_input_key = key, ctx_iv = (Iv self, 0), aes_mode = mode,
                       aes_key_len = (if keylen = 32 then AES_KEYLEN_256 else if keylen = 24 then AES_KEYLEN_192 else AES_KEYLEN_128),
                       aes_gcm_tag = fresh_bytes env 4\<rparr>
             in also_do (new_block (Iv self) (replicate 16 0))
                  (also_do (handle_iv self mode arg_iv arg_nonce arg_initial_value) (ret o'))))"

section \<open>Encryption and decryption\<close>

text \<open>The choice of the driver's function by direction and key length.\<close>

definition hard_gcm :: "'d aes_bus \<Rightarrow> bool \<Rightarrow> u8 \<Rightarrow> gcm_context \<Rightarrow> ptr \<Rightarrow> nat \<Rightarrow> ptr \<Rightarrow> ptr \<Rightarrow> ('d, unit) code" where
  "hard_gcm bus encrypt key_len =
     (if \<not> encrypt then
        (if key_len = AES_KEYLEN_256 then aes_gcm256_hard_decrypt bus
         else if key_len = AES_KEYLEN_192 then aes_gcm192_hard_decrypt bus else aes_gcm128_hard_decrypt bus)
      else
        (if key_len = AES_KEYLEN_256 then aes_gcm256_hard_encrypt bus
         else if key_len = AES_KEYLEN_192 then aes_gcm192_hard_encrypt bus else aes_gcm128_hard_encrypt bus))"

definition hard_cbc :: "'d aes_bus \<Rightarrow> bool \<Rightarrow> u8 \<Rightarrow> cbc_context \<Rightarrow> ptr \<Rightarrow> nat \<Rightarrow> ptr \<Rightarrow> ('d, unit) code" where
  "hard_cbc bus encrypt key_len =
     (if \<not> encrypt then
        (if key_len = AES_KEYLEN_256 then aes_cbc256_hard_decrypt bus
         else if key_len = AES_KEYLEN_192 then aes_cbc192_hard_decrypt bus else aes_cbc128_hard_decrypt bus)
      else
        (if key_len = AES_KEYLEN_256 then aes_cbc256_hard_encrypt bus
         else if key_len = AES_KEYLEN_192 then aes_cbc192_hard_encrypt bus else aes_cbc128_hard_encrypt bus))"

definition hard_ecb :: "'d aes_bus \<Rightarrow> bool \<Rightarrow> u8 \<Rightarrow> ptr \<Rightarrow> ptr \<Rightarrow> nat \<Rightarrow> ptr \<Rightarrow> ('d, unit) code" where
  "hard_ecb bus encrypt key_len =
     (if \<not> encrypt then
        (if key_len = AES_KEYLEN_256 then aes_ecb256_hard_decrypt bus
         else if key_len = AES_KEYLEN_192 then aes_ecb192_hard_decrypt bus else aes_ecb128_hard_decrypt bus)
      else
        (if key_len = AES_KEYLEN_256 then aes_ecb256_hard_encrypt bus
         else if key_len = AES_KEYLEN_192 then aes_ecb192_hard_encrypt bus else aes_ecb128_hard_encrypt bus))"

definition run_gcm :: "'d aes_bus \<Rightarrow> mp_env \<Rightarrow> mp_obj_aes_t \<Rightarrow> bool \<Rightarrow> ptr \<Rightarrow> nat \<Rightarrow> ptr \<Rightarrow> ('d, mp_obj_aes_t) code" where
  "run_gcm bus env self encrypt in_buf in_len out_buf =
     also_do (new_block Gcm_tag (fresh_bytes env 4))
       (let ctx = \<lparr>gcm_input_key = ctx_input_key self, gcm_iv = ctx_iv self, gcm_aad = (Null, 0), gcm_aad_len = 0\<rparr> in
        also_do (hard_gcm bus encrypt (aes_key_len self) ctx in_buf in_len out_buf (Gcm_tag, 0))
          (seq (load (Gcm_tag, 0) 4) (\<lambda>tag. ret (self\<lparr>aes_gcm_tag := tag\<rparr>))))"

definition run_cbc :: "'d aes_bus \<Rightarrow> mp_obj_aes_t \<Rightarrow> bool \<Rightarrow> ptr \<Rightarrow> nat \<Rightarrow> ptr \<Rightarrow> ('d, unit) code" where
  "run_cbc bus self encrypt in_buf in_len out_buf =
     hard_cbc bus encrypt (aes_key_len self) \<lparr>cbc_input_key = ctx_input_key self, cbc_iv = ctx_iv self\<rparr> in_buf in_len out_buf"

text \<open>One block of key stream: nonce and counter, encrypted.\<close>

definition counter_stream :: "'d aes_bus \<Rightarrow> mp_obj_aes_t \<Rightarrow> bytes \<Rightarrow> u32 \<Rightarrow> ('d, unit) code" where
  "counter_stream bus self nonce current_counter =
     steps [store (Counter_block, 0) nonce, store_counter (Counter_block, 0) current_counter,
            hard_ecb bus True (aes_key_len self) (ctx_input_key self) (Counter_block, 0) 16 (Encrypted_counter, 0)]"

definition xor64 :: "ptr \<Rightarrow> ptr \<Rightarrow> ptr \<Rightarrow> ('d, unit) code" where
  "xor64 inp enc outp =
     seq (load inp 8) (\<lambda>a. seq (load enc 8) (\<lambda>b. store outp (bytes_le 8 (word_le a XOR word_le b :: u64))))"

definition xor8 :: "ptr \<Rightarrow> ptr \<Rightarrow> ptr \<Rightarrow> ('d, unit) code" where
  "xor8 inp enc outp = seq (load8 inp) (\<lambda>a. seq (load8 enc) (\<lambda>b. store8 outp (a XOR b)))"

definition run_ctr :: "'d aes_bus \<Rightarrow> mp_env \<Rightarrow> mp_obj_aes_t \<Rightarrow> ptr \<Rightarrow> nat \<Rightarrow> ptr \<Rightarrow> ('d, unit) code" where
  "run_ctr bus env self in_buf in_len out_buf =
     seq (load (ctx_iv self) 12) (\<lambda>nonce. seq (load (ptr_add (ctx_iv self) 12) 4) (\<lambda>c4.
       let initial_counter = word_be c4 :: u32;
           total_blocks = in_len div 16;
           remaining = in_len mod 16
       in steps
        [new_block Counter_block (fresh_bytes env 16),
         new_block Encrypted_counter (fresh_bytes env 16),
         loop (\<lambda>i. steps
           [counter_stream bus self nonce (initial_counter + of_nat i),
            xor64 (ptr_add in_buf (i * 16)) (Encrypted_counter, 0) (ptr_add out_buf (i * 16)),
            xor64 (ptr_add in_buf (i * 16 + 8)) (Encrypted_counter, 8) (ptr_add out_buf (i * 16 + 8))]) [0..<total_blocks],
         (if remaining \<noteq> 0 then steps
           [new_block Counter_block (fresh_bytes env 16),
            new_block Encrypted_counter (fresh_bytes env 16),
            counter_stream bus self nonce (initial_counter + of_nat total_blocks),
            loop (\<lambda>j. xor8 (ptr_add in_buf (total_blocks * 16 + j)) (Encrypted_counter, j) (ptr_add out_buf (total_blocks * 16 + j))) [0..<remaining]]
          else ret ())]))"

text \<open>The modes that keep nothing in the object.\<close>

definition run_modes :: "'d aes_bus \<Rightarrow> mp_env \<Rightarrow> mp_obj_aes_t \<Rightarrow> bool \<Rightarrow> ptr \<Rightarrow> nat \<Rightarrow> ptr \<Rightarrow> ('d, unit) code" where
  "run_modes bus env self encrypt in_buf in_len out_buf =
     (if aes_mode self = UCRYPTOLIB_MODE_CBC then run_cbc bus self encrypt in_buf in_len out_buf
      else if aes_mode self = UCRYPTOLIB_MODE_ECB then
        hard_ecb bus encrypt (aes_key_len self) (ctx_input_key self) in_buf in_len out_buf
      else if aes_mode self = UCRYPTOLIB_MODE_CTR then run_ctr bus env self in_buf in_len out_buf
      else ret ())"

definition AES_run :: "'d aes_bus \<Rightarrow> mp_env \<Rightarrow> mp_obj_aes_t \<Rightarrow> cl_obj \<Rightarrow> cl_obj option \<Rightarrow> bool \<Rightarrow> ('d, cl_ret \<times> mp_obj_aes_t) code" where
  "AES_run bus env self in_arg out_arg encrypt =
     seq (get_read_buffer in_arg) (\<lambda>(in_buf, in_len).
       if aes_mode self \<noteq> UCRYPTOLIB_MODE_GCM \<and> aes_mode self \<noteq> UCRYPTOLIB_MODE_CTR \<and> in_len mod 16 \<noteq> 0
       then raise (ValueError ''input length must be multiple of 16'')
       else
         seq (case out_arg of
                Some out_obj \<Rightarrow>
                  seq (get_write_buffer out_obj) (\<lambda>(out_buf, out_len).
                    if out_len < in_len then raise (ValueError ''output too small'') else ret out_buf)
              | None \<Rightarrow>
                  seq (lift_result (vstr_init_len env (of_nat in_len))) (\<lambda>buf. also_do (new_block Vstr buf) (ret (Vstr, 0))))
           (\<lambda>out_buf.
             seq (if aes_mode self = UCRYPTOLIB_MODE_GCM then run_gcm bus env self encrypt in_buf in_len out_buf
                  else also_do (run_modes bus env self encrypt in_buf in_len out_buf) (ret self))
               (\<lambda>self.
                 case out_arg of
                   Some (Cl_buffer n w) \<Rightarrow> ret (Ret_obj n, self)
                 | _ \<Rightarrow> seq (load (Vstr, 0) in_len) (\<lambda>bs. ret (Ret_bytes bs, self)))))"

definition ucryptolib_aes_encrypt :: "'d aes_bus \<Rightarrow> mp_env \<Rightarrow> mp_obj_aes_t \<Rightarrow> cl_obj \<Rightarrow> cl_obj option \<Rightarrow> ('d, cl_ret \<times> mp_obj_aes_t) code" where
  "ucryptolib_aes_encrypt bus env self in_arg out_arg = AES_run bus env self in_arg out_arg True"

definition ucryptolib_aes_decrypt :: "'d aes_bus \<Rightarrow> mp_env \<Rightarrow> mp_obj_aes_t \<Rightarrow> cl_obj \<Rightarrow> cl_obj option \<Rightarrow> ('d, cl_ret \<times> mp_obj_aes_t) code" where
  "ucryptolib_aes_decrypt bus env self in_arg out_arg = AES_run bus env self in_arg out_arg False"

section \<open>Tags\<close>

definition ucryptolib_aes_get_tag :: "mp_obj_aes_t \<Rightarrow> ('d, cl_ret) code" where
  "ucryptolib_aes_get_tag self =
     (if aes_mode self \<noteq> UCRYPTOLIB_MODE_GCM then raise (ValueError ''tag is only available in GCM mode'')
      else ret (Ret_bytes (aes_gcm_tag self)))"

definition ucryptolib_aes_verify_tag :: "mp_obj_aes_t \<Rightarrow> cl_obj \<Rightarrow> ('d, cl_ret) code" where
  "ucryptolib_aes_verify_tag self tag_in =
     (if aes_mode self \<noteq> UCRYPTOLIB_MODE_GCM then raise (ValueError ''tag verification only available in GCM mode'')
      else
        seq (get_read_buffer tag_in) (\<lambda>(tag, taglen).
          if taglen \<noteq> 4 then raise (ValueError ''wrong tag length'')
          else seq (load tag 4) (\<lambda>t.
            if aes_gcm_tag self \<noteq> t then raise (ValueError ''tag verification failed'') else ret Ret_none)))"

end
