(* ===== verification/Aes_Modes.thy ===== *)
theory Aes_Modes
  imports Prelude
begin

unbundle bit_operations_syntax

text \<open>
  The modes of operation of a block cipher, as the standards define them (NIST SP 800-38A for ECB
  and CBC, SP 800-38D for GCM), over any function on blocks of 16 bytes. The counter mode of GCM
  counts in the last four bytes of the block. The locale \<open>chain_mode\<close> is what the driver of the unit relies on:
  a mode maps whole blocks to as many bytes, and what it made of a prefix does not depend on the
  rest, so that data may go through the unit in pieces. The locale \<open>mode_pair\<close> is what a
  user of the modes relies on: decryption inverts encryption.
\<close>

section \<open>Modes\<close>

definition xor_bytes :: "bytes \<Rightarrow> bytes \<Rightarrow> bytes" where
  "xor_bytes a b = map2 (XOR) a b"

definition ecb :: "(bytes \<Rightarrow> bytes) \<Rightarrow> bytes \<Rightarrow> bytes" where
  "ecb e bs = concat (map e (chunks 16 bs))"

primrec cbc_encrypt_blocks :: "(bytes \<Rightarrow> bytes) \<Rightarrow> bytes \<Rightarrow> bytes list \<Rightarrow> bytes list" where
  "cbc_encrypt_blocks e iv [] = []"
| "cbc_encrypt_blocks e iv (x # xs) = (let c = e (xor_bytes x iv) in c # cbc_encrypt_blocks e c xs)"

primrec cbc_decrypt_blocks :: "(bytes \<Rightarrow> bytes) \<Rightarrow> bytes \<Rightarrow> bytes list \<Rightarrow> bytes list" where
  "cbc_decrypt_blocks d iv [] = []"
| "cbc_decrypt_blocks d iv (x # xs) = xor_bytes (d x) iv # cbc_decrypt_blocks d x xs"

definition cbc_encrypt :: "(bytes \<Rightarrow> bytes) \<Rightarrow> bytes \<Rightarrow> bytes \<Rightarrow> bytes" where
  "cbc_encrypt e iv bs = concat (cbc_encrypt_blocks e iv (chunks 16 bs))"

definition cbc_decrypt :: "(bytes \<Rightarrow> bytes) \<Rightarrow> bytes \<Rightarrow> bytes \<Rightarrow> bytes" where
  "cbc_decrypt d iv bs = concat (cbc_decrypt_blocks d iv (chunks 16 bs))"

definition inc32 :: "bytes \<Rightarrow> bytes" where
  "inc32 b = take 12 b @ bytes_be 4 (word_be (drop 12 b) + 1 :: u32)"

primrec ctr_blocks :: "(bytes \<Rightarrow> bytes) \<Rightarrow> bytes \<Rightarrow> bytes list \<Rightarrow> bytes list" where
  "ctr_blocks e cb [] = []"
| "ctr_blocks e cb (x # xs) = xor_bytes x (e cb) # ctr_blocks e (inc32 cb) xs"

definition ctr :: "(bytes \<Rightarrow> bytes) \<Rightarrow> bytes \<Rightarrow> bytes \<Rightarrow> bytes" where
  "ctr e cb bs = concat (ctr_blocks e cb (chunks 16 bs))"

text \<open>GCM: multiplication of field elements whose first bit is the most significant, GHASH, the tag.\<close>

definition ghash_mult :: "128 word \<Rightarrow> 128 word \<Rightarrow> 128 word" where
  "ghash_mult x y =
     fst (fold (\<lambda>i (z, v). (if bit x (127 - i) then z XOR v else z,
                             if bit v 0 then drop_bit 1 v XOR push_bit 120 0xE1 else drop_bit 1 v)) [0..<128] (0, y))"

definition ghash :: "128 word \<Rightarrow> bytes \<Rightarrow> 128 word" where
  "ghash h bs = fold (\<lambda>b y. ghash_mult (y XOR word_be b) h) (chunks 16 bs) 0"

definition zero_pad16 :: "bytes \<Rightarrow> bytes" where
  "zero_pad16 bs = bs @ replicate ((length bs + 15) div 16 * 16 - length bs) 0"

definition gcm_crypt :: "(bytes \<Rightarrow> bytes) \<Rightarrow> bytes \<Rightarrow> bytes \<Rightarrow> bytes" where
  "gcm_crypt e iv bs = ctr e (inc32 (iv @ [0, 0, 0, 1])) bs"

definition gcm_tag_of :: "(bytes \<Rightarrow> bytes) \<Rightarrow> bytes \<Rightarrow> bytes \<Rightarrow> bytes \<Rightarrow> bytes" where
  "gcm_tag_of e iv aad c =
     (let h = word_be (e (replicate 16 0));
          s = ghash h (zero_pad16 aad @ zero_pad16 c @ bytes_be 8 (of_nat (8 * length aad) :: u64) @ bytes_be 8 (of_nat (8 * length c) :: u64))
      in xor_bytes (bytes_be 16 s) (e (iv @ [0, 0, 0, 1])))"

section \<open>Laws\<close>

definition on_blocks :: "(bytes \<Rightarrow> bytes) \<Rightarrow> bool" where
  "on_blocks e = (\<forall>b. length b = 16 \<longrightarrow> length (e b) = 16)"

locale chain_mode =
  fixes m :: "(bytes \<Rightarrow> bytes) \<Rightarrow> bytes \<Rightarrow> bytes \<Rightarrow> bytes"
  assumes mode_length: "on_blocks e \<Longrightarrow> length iv = 16 \<Longrightarrow> 16 dvd length xs \<Longrightarrow> length (m e iv xs) = length xs"
    and mode_prefix: "16 dvd length xs \<Longrightarrow> \<exists>zs. m e iv (xs @ ys) = m e iv xs @ zs"
begin

text \<open>What a mode gives for the first blocks is a prefix of what it gives for all.\<close>

lemma mode_take:
  assumes "on_blocks e" "length iv = 16" "16 dvd length xs"
  shows "take (length xs) (m e iv (xs @ ys)) = m e iv xs"
  using mode_prefix [OF assms(3), of e iv ys] mode_length [OF assms] by auto

lemma mode_Nil: "on_blocks e \<Longrightarrow> length iv = 16 \<Longrightarrow> m e iv [] = []"
  using mode_length [of e iv "[]"] by simp

end

lemma length_xor_bytes [simp]: "length (xor_bytes a b) = min (length a) (length b)"
  by (simp add: xor_bytes_def)

lemma xor_bytes_twice: "length a \<le> length b \<Longrightarrow> xor_bytes (xor_bytes a b) b = a"
  by (auto simp: xor_bytes_def xor.assoc intro!: nth_equalityI)

lemma length_inc32 [simp]: "length b = 16 \<Longrightarrow> length (inc32 b) = 16"
  by (simp add: inc32_def)

lemma concat_length16: "(\<And>b. b \<in> set bs \<Longrightarrow> length b = 16) \<Longrightarrow> length (concat bs) = 16 * length bs"
  by (induction bs) auto

lemma length_blocks16: "16 dvd length xs \<Longrightarrow> 16 * length (chunks 16 xs) = length xs"
  by (simp add: length_chunks)

lemma cbc_encrypt_blocks_append: "\<exists>zs. cbc_encrypt_blocks e iv (xs @ ys) = cbc_encrypt_blocks e iv xs @ zs"
  by (induction xs arbitrary: iv) (auto simp: Let_def)

lemma cbc_decrypt_blocks_append: "\<exists>zs. cbc_decrypt_blocks e iv (xs @ ys) = cbc_decrypt_blocks e iv xs @ zs"
  by (induction xs arbitrary: iv) auto

lemma ctr_blocks_append: "\<exists>zs. ctr_blocks e iv (xs @ ys) = ctr_blocks e iv xs @ zs"
  by (induction xs arbitrary: iv) auto

lemma length_cbc_encrypt_blocks:
  "on_blocks e \<Longrightarrow> \<forall>x\<in>set xs. length x = 16 \<Longrightarrow> length iv = 16 \<Longrightarrow> length (concat (cbc_encrypt_blocks e iv xs)) = 16 * length xs"
  by (induction xs arbitrary: iv) (auto simp: Let_def on_blocks_def)

lemma length_cbc_decrypt_blocks:
  "on_blocks e \<Longrightarrow> \<forall>x\<in>set xs. length x = 16 \<Longrightarrow> length iv = 16 \<Longrightarrow> length (concat (cbc_decrypt_blocks e iv xs)) = 16 * length xs"
  by (induction xs arbitrary: iv) (auto simp: on_blocks_def)

lemma length_ctr_blocks:
  "on_blocks e \<Longrightarrow> \<forall>x\<in>set xs. length x \<le> 16 \<Longrightarrow> length iv = 16 \<Longrightarrow> length (concat (ctr_blocks e iv xs)) = length (concat xs)"
  by (induction xs arbitrary: iv) (auto simp: on_blocks_def)

lemma chunks_le: "b \<in> set (chunks n xs) \<Longrightarrow> length b \<le> n"
proof (induction n xs rule: chunks.induct)
  case (1 n xs)
  show ?case
  proof (cases "n = 0 \<or> xs = []")
    case False
    with "1.prems" have "b = take n xs \<or> b \<in> set (chunks n (drop n xs))" by (subst (asm) chunks.simps) auto
    then show ?thesis using "1.IH" False by auto
  qed (use "1.prems" in auto)
qed

lemma length_ctr: "on_blocks e \<Longrightarrow> length iv = 16 \<Longrightarrow> length (ctr e iv xs) = length xs"
  using length_ctr_blocks [of e "chunks 16 xs" iv] by (simp add: ctr_def chunks_le)

interpretation ecb_mode: chain_mode "\<lambda>e iv. ecb e"
proof (unfold_locales, goal_cases)
  case (1 e iv xs)
  then show ?case
    using concat_length16 [of "map e (chunks 16 xs)"] chunks_all_length [of 16 xs] length_blocks16 [of xs]
    by (auto simp: ecb_def on_blocks_def)
qed (simp add: ecb_def chunks_append)

interpretation cbc_encrypt_mode: chain_mode cbc_encrypt
proof (unfold_locales, goal_cases)
  case (1 e iv xs)
  then show ?case using length_cbc_encrypt_blocks [of e "chunks 16 xs" iv] length_blocks16 [of xs]
    by (simp add: cbc_encrypt_def chunks_all_length)
next
  case (2 xs e iv ys)
  then show ?case using cbc_encrypt_blocks_append [of e iv "chunks 16 xs" "chunks 16 ys"]
    by (auto simp: cbc_encrypt_def chunks_append)
qed

interpretation cbc_decrypt_mode: chain_mode cbc_decrypt
proof (unfold_locales, goal_cases)
  case (1 e iv xs)
  then show ?case using length_cbc_decrypt_blocks [of e "chunks 16 xs" iv] length_blocks16 [of xs]
    by (simp add: cbc_decrypt_def chunks_all_length)
next
  case (2 xs e iv ys)
  then show ?case using cbc_decrypt_blocks_append [of e iv "chunks 16 xs" "chunks 16 ys"]
    by (auto simp: cbc_decrypt_def chunks_append)
qed

interpretation ctr_mode: chain_mode ctr
proof (unfold_locales, goal_cases)
  case (1 e iv xs)
  then show ?case by (simp add: length_ctr)
next
  case (2 xs e iv ys)
  then show ?case using ctr_blocks_append [of e iv "chunks 16 xs" "chunks 16 ys"]
    by (auto simp: ctr_def chunks_append)
qed

section \<open>Decryption inverts encryption\<close>

text \<open>\<open>cipher_ok e d\<close>: \<open>e\<close> and \<open>d\<close> are a block cipher under a fixed key.\<close>

definition cipher_ok :: "(bytes \<Rightarrow> bytes) \<Rightarrow> (bytes \<Rightarrow> bytes) \<Rightarrow> bool" where
  "cipher_ok e d = (on_blocks e \<and> on_blocks d \<and> (\<forall>b. length b = 16 \<longrightarrow> d (e b) = b))"

locale mode_pair =
  fixes enc dec :: "(bytes \<Rightarrow> bytes) \<Rightarrow> (bytes \<Rightarrow> bytes) \<Rightarrow> bytes \<Rightarrow> bytes \<Rightarrow> bytes"
    and fits :: "nat \<Rightarrow> bool"
  assumes pair_length: "cipher_ok e d \<Longrightarrow> length iv = 16 \<Longrightarrow> fits (length xs) \<Longrightarrow> length (enc e d iv xs) = length xs"
    and pair_inverse: "cipher_ok e d \<Longrightarrow> length iv = 16 \<Longrightarrow> fits (length xs) \<Longrightarrow> dec e d iv (enc e d iv xs) = xs"
begin

text \<open>Different plaintexts have different ciphertexts.\<close>

lemma pair_inj:
  assumes "cipher_ok e d" "length iv = 16" "fits (length xs)" "fits (length ys)" "enc e d iv xs = enc e d iv ys"
  shows "xs = ys"
  by (metis assms pair_inverse)

end

lemma ecb_inverse: "cipher_ok e d \<Longrightarrow> 16 dvd length xs \<Longrightarrow> ecb d (ecb e xs) = xs"
proof -
  assume c: "cipher_ok e d" and x: "16 dvd length xs"
  have l: "\<forall>b\<in>set (chunks 16 xs). length b = 16" using x by (simp add: chunks_all_length)
  have "chunks 16 (ecb e xs) = map e (chunks 16 xs)"
    unfolding ecb_def by (rule chunks_concat_map) (use c l in \<open>auto simp: cipher_ok_def on_blocks_def\<close>)
  moreover have "map (d \<circ> e) (chunks 16 xs) = map id (chunks 16 xs)"
    using c l by (intro map_cong) (auto simp: cipher_ok_def)
  ultimately show ?thesis by (simp add: ecb_def [of d])
qed

lemma cbc_blocks_inverse:
  "cipher_ok e d \<Longrightarrow> \<forall>x\<in>set xs. length x = 16 \<Longrightarrow> length iv = 16 \<Longrightarrow>
   chunks 16 (concat (cbc_encrypt_blocks e iv xs)) = cbc_encrypt_blocks e iv xs \<and>
   cbc_decrypt_blocks d iv (cbc_encrypt_blocks e iv xs) = xs"
proof (induction xs arbitrary: iv)
  case (Cons x xs)
  have "length (e (xor_bytes x iv)) = 16" "d (e (xor_bytes x iv)) = xor_bytes x iv"
    using Cons.prems by (auto simp: cipher_ok_def on_blocks_def)
  moreover have "xor_bytes (xor_bytes x iv) iv = x" using Cons.prems by (simp add: xor_bytes_twice)
  moreover have "cipher_ok e d" "\<forall>x\<in>set xs. length x = 16" using Cons.prems by simp_all
  moreover note Cons.IH [of "e (xor_bytes x iv)"]
  ultimately show ?case by (simp add: Let_def chunks_append_block)
qed simp

lemma ctr_blocks_inverse:
  "on_blocks e \<Longrightarrow> \<forall>x\<in>set xs. length x \<le> 16 \<Longrightarrow> length iv = 16 \<Longrightarrow> ctr_blocks e iv (ctr_blocks e iv xs) = xs"
  by (induction xs arbitrary: iv) (auto simp: on_blocks_def intro!: xor_bytes_twice)

lemma chunks_short: "xs \<noteq> [] \<Longrightarrow> length xs \<le> n \<Longrightarrow> chunks n xs = [xs]"
  by (subst chunks.simps) (cases n; simp)

text \<open>The pieces of a list, of which all but the last are whole blocks, are its chunks.\<close>

lemma ctr_inverse: "on_blocks e \<Longrightarrow> length iv = 16 \<Longrightarrow> ctr e iv (ctr e iv xs) = xs"
proof -
  assume e: "on_blocks e" and iv: "length iv = 16"
  have "chunks 16 (concat (ctr_blocks e iv (chunks 16 xs))) = ctr_blocks e iv (chunks 16 xs)"
    using iv
  proof (induction "16 :: nat" xs arbitrary: iv rule: chunks.induct)
    case (1 xs)
    show ?case
    proof (cases "length xs \<le> 16")
      case True
      have "length (e iv) = 16" using e 1(2) by (simp add: on_blocks_def)
      then have "length (xor_bytes xs (e iv)) = length xs" using True by simp
      then have "xs \<noteq> [] \<Longrightarrow> chunks 16 (xor_bytes xs (e iv)) = [xor_bytes xs (e iv)]"
        using True by (intro chunks_short) (auto simp flip: length_greater_0_conv)
      then show ?thesis using True by (cases "xs = []") (simp_all add: chunks_short)
    next
      case False
      have "length (e iv) = 16" using e 1(2) by (simp add: on_blocks_def)
      then have "length (xor_bytes (take 16 xs) (e iv)) = 16" using False by simp
      moreover have "chunks 16 xs = take 16 xs # chunks 16 (drop 16 xs)" using False by (subst chunks.simps) auto
      moreover have "xs \<noteq> []" using False by auto
      ultimately show ?thesis using 1(1) [of "inc32 iv"] 1(2) by (simp add: chunks_append_block)
    qed
  qed
  then show ?thesis using ctr_blocks_inverse [OF e _ iv, of "chunks 16 xs"] by (simp add: ctr_def chunks_le)
qed

interpretation ecb_pair: mode_pair "\<lambda>e d iv. ecb e" "\<lambda>e d iv. ecb d" "\<lambda>n. 16 dvd n"
  by unfold_locales (auto simp: ecb_inverse cipher_ok_def intro: ecb_mode.mode_length)

interpretation cbc_pair: mode_pair "\<lambda>e d. cbc_encrypt e" "\<lambda>e d. cbc_decrypt d" "\<lambda>n. 16 dvd n"
proof (unfold_locales, goal_cases)
  case (2 e d iv xs)
  then show ?case using cbc_blocks_inverse [of e d "chunks 16 xs" iv]
    by (simp add: cbc_encrypt_def cbc_decrypt_def chunks_all_length)
qed (auto simp: cipher_ok_def intro: cbc_encrypt_mode.mode_length)

interpretation ctr_pair: mode_pair "\<lambda>e d. ctr e" "\<lambda>e d. ctr e" "\<lambda>n. True"
  by unfold_locales (auto simp: cipher_ok_def length_ctr ctr_inverse)

end
