(* ===== verification/Aes_Unit.thy ===== *)
theory Aes_Unit
  imports Aes_Driver Aes_Modes
begin

unbundle bit_operations_syntax

text \<open>
  The hypothesis on the AES unit: what its register description says of the accesses the driver makes. A
  state of the unit is seen through \<open>aes_view\<close>: the configuration registers as written, the words of text and
  of additional data written since the reset, how many words of output were read, how many words
  of a tag to compare were written, and how many more reads of a flag may find it low. \<open>E\<close> and \<open>D\<close> are the
  block cipher of the unit. The unit takes up to 20 words (80 bytes) ahead of the output that is read. The
  key, the IV and the tag are held last word first. What the unit does when it is used otherwise is left open.
\<close>

record aes_view =
  v_reg :: "aes_reg \<Rightarrow> u32"
  v_fed :: "u32 list"
  v_aad :: "u32 list"
  v_taken :: nat
  v_tag_in :: nat
  v_polls :: nat

type_synonym block_cipher = "bytes \<Rightarrow> bytes \<Rightarrow> bytes"

definition v_cipher :: "aes_view \<Rightarrow> u32" where
  "v_cipher v = v_reg v Mode_ctl AND 7"

definition v_kmode :: "aes_view \<Rightarrow> nat" where
  "v_kmode v = unat (drop_bit 3 (v_reg v Mode_ctl) AND 3)"

definition key_regs :: "aes_reg list" where
  "key_regs = map Aes_key [0..<4] @ map Aes_key_ext [0..<4]"

definition v_key :: "aes_view \<Rightarrow> bytes" where
  "v_key v = bytes_of_words 4 (rev (map (v_reg v) (take (4 + 2 * v_kmode v) key_regs)))"

definition v_iv :: "nat \<Rightarrow> aes_view \<Rightarrow> bytes" where
  "v_iv n v = bytes_of_words 4 (rev (map (\<lambda>i. v_reg v (Aes_iv i)) [0..<n]))"

definition v_total :: "aes_view \<Rightarrow> nat" where
  "v_total v = unat (v_reg v Gb_pc_num + 1)"

definition v_aad_total :: "aes_view \<Rightarrow> nat" where
  "v_aad_total v = unat (v_reg v Gb_aad_num + 1)"

definition v_mode :: "block_cipher \<Rightarrow> block_cipher \<Rightarrow> aes_view \<Rightarrow> bytes \<Rightarrow> bytes" where
  "v_mode E D v =
     (let key = v_key v; decrypt = v_reg v Encrypt_sel \<noteq> 0 in
      if v_cipher v = 0 then ecb (if decrypt then D key else E key)
      else if v_cipher v = 1 then (if decrypt then cbc_decrypt (D key) (v_iv 4 v) else cbc_encrypt (E key) (v_iv 4 v))
      else gcm_crypt (E key) (v_iv 3 v))"

definition v_input :: "aes_view \<Rightarrow> bytes" where
  "v_input v = take (v_total v) (bytes_of_words 4 (v_fed v))"

definition v_output :: "block_cipher \<Rightarrow> block_cipher \<Rightarrow> aes_view \<Rightarrow> bytes" where
  "v_output E D v = v_mode E D v (if length (v_input v) = v_total v then v_input v else full_part 16 (v_input v))"

definition v_tag :: "block_cipher \<Rightarrow> block_cipher \<Rightarrow> aes_view \<Rightarrow> bytes" where
  "v_tag E D v =
     gcm_tag_of (E (v_key v)) (v_iv 3 v) (take (v_aad_total v) (bytes_of_words 4 (v_aad v)))
       (if v_reg v Encrypt_sel \<noteq> 0 then v_input v else v_output E D v)"

definition started :: "aes_view \<Rightarrow> bool" where
  "started v = (bit (v_reg v Aes_endian) 0 \<and> bit (v_reg v Gb_aes_en) 0 \<and> v_kmode v < 3 \<and> v_cipher v < 3 \<and>
     0 < v_total v \<and> (v_cipher v < 2 \<longrightarrow> 16 dvd v_total v))"

definition aad_done :: "aes_view \<Rightarrow> bool" where
  "aad_done v = (v_cipher v = 2 \<longrightarrow> v_aad_total v \<le> 4 * length (v_aad v))"

definition takes_word :: "aes_view \<Rightarrow> bool" where
  "takes_word v = (\<not> aad_done v \<or> length (v_fed v) < v_taken v + 20)"

definition finished :: "aes_view \<Rightarrow> bool" where
  "finished v = (started v \<and> aad_done v \<and> v_cipher v = 2 \<and> v_total v \<le> 4 * length (v_fed v) \<and> v_total v \<le> 4 * v_taken v)"

definition reset_view :: "nat \<Rightarrow> aes_view" where
  "reset_view p = \<lparr>v_reg = (\<lambda>_. 0), v_fed = [], v_aad = [], v_taken = 0, v_tag_in = 0, v_polls = p\<rparr>"

text \<open>A flag may stay low for some reads, but not for ever once its condition holds.\<close>

definition flag_read :: "bool \<Rightarrow> aes_view \<Rightarrow> u32 \<Rightarrow> aes_view \<Rightarrow> bool" where
  "flag_read c v x v' = (v' = v\<lparr>v_polls := v_polls v - 1\<rparr> \<and> (c \<and> v_polls v = 0 \<longrightarrow> x \<noteq> 0))"

fun read_step :: "block_cipher \<Rightarrow> block_cipher \<Rightarrow> aes_view \<Rightarrow> aes_reg \<Rightarrow> u32 \<Rightarrow> aes_view \<Rightarrow> bool" where
  "read_step E D v Data_in_flag x v' = flag_read (started v \<and> takes_word v) v x v'"
| "read_step E D v Data_out_flag x v' = flag_read (started v \<and> 4 * v_taken v < length (v_output E D v)) v x v'"
| "read_step E D v Tag_in_flag x v' = flag_read (finished v) v x v'"
| "read_step E D v Tag_chk x v' = flag_read (finished v \<and> 4 \<le> v_tag_in v) v x v'"
| "read_step E D v Aes_out_data x v' =
     (started v \<and> 4 * v_taken v < length (v_output E D v) \<longrightarrow>
       (let bs = take 4 (drop (4 * v_taken v) (v_output E D v)) in take (length bs) (bytes_le 4 x) = bs) \<and>
       (\<exists>p. v' = v\<lparr>v_taken := v_taken v + 1, v_polls := p\<rparr>))"
| "read_step E D v (Gcm_out_tag i) x v' =
     (finished v \<and> i < 4 \<longrightarrow> x = word_be (take 4 (drop (4 * (3 - i)) (v_tag E D v))) \<and> v' = v)"
| "read_step E D v r x v' = (x = v_reg v r \<and> v' = v)"

fun write_step :: "aes_view \<Rightarrow> aes_reg \<Rightarrow> u32 \<Rightarrow> aes_view \<Rightarrow> bool" where
  "write_step v Aes_text_data y v' =
     (started v \<and> aad_done v \<and> length (v_fed v) < v_taken v + 20 \<longrightarrow> (\<exists>p. v' = v\<lparr>v_fed := v_fed v @ [y], v_polls := p\<rparr>))"
| "write_step v Aes_aad_data y v' = (started v \<and> \<not> aad_done v \<longrightarrow> (\<exists>p. v' = v\<lparr>v_aad := v_aad v @ [y], v_polls := p\<rparr>))"
| "write_step v (Gcm_in_tag i) y v' = (finished v \<longrightarrow> (\<exists>p. v' = v\<lparr>v_tag_in := v_tag_in v + 1, v_polls := p\<rparr>))"
| "write_step v Tag_clear y v' = (\<exists>p. v' = v\<lparr>v_tag_in := 0, v_polls := p\<rparr>)"
| "write_step v r y v' = (\<exists>p. v' = v\<lparr>v_reg := (v_reg v)(r := y), v_polls := p\<rparr>)"

primrec aes_step :: "block_cipher \<Rightarrow> block_cipher \<Rightarrow> aes_view \<Rightarrow> aes_access \<Rightarrow> u32 \<Rightarrow> aes_view \<Rightarrow> bool" where
  "aes_step E D v Clock_enable x v' = (v' = v)"
| "aes_step E D v Unit_reset x v' = (\<exists>p. v' = reset_view p)"
| "aes_step E D v (Rd r) x v' = read_step E D v r x v'"
| "aes_step E D v (Wr r y) x v' = write_step v r y v'"

definition aes_unit_ok :: "'d aes_bus \<Rightarrow> ('d \<Rightarrow> aes_view) \<Rightarrow> block_cipher \<Rightarrow> block_cipher \<Rightarrow> bool" where
  "aes_unit_ok bus view E D = (\<forall>a d. aes_step E D (view d) a (fst (bus a d)) (view (snd (bus a d))))"

definition block_cipher_ok :: "block_cipher \<Rightarrow> block_cipher \<Rightarrow> bool" where
  "block_cipher_ok E D = (\<forall>key. length key \<in> {16, 24, 32} \<longrightarrow> cipher_ok (E key) (D key))"

lemma block_cipher_okD:
  assumes "block_cipher_ok E D" "length key \<in> {16, 24, 32}"
  shows "cipher_ok (E key) (D key)" "on_blocks (E key)" "on_blocks (D key)"
  using assms unfolding block_cipher_ok_def cipher_ok_def by blast+

section \<open>A unit that behaves so\<close>

text \<open>Its state is the view; every flag is low once before it tells.\<close>

definition sim_read :: "block_cipher \<Rightarrow> block_cipher \<Rightarrow> aes_reg \<Rightarrow> aes_view \<Rightarrow> u32 \<times> aes_view" where
  "sim_read E D r v =
     (case r of
        Data_in_flag \<Rightarrow> (of_bool (v_polls v = 0), v\<lparr>v_polls := v_polls v - 1\<rparr>)
      | Data_out_flag \<Rightarrow> (of_bool (v_polls v = 0), v\<lparr>v_polls := v_polls v - 1\<rparr>)
      | Tag_in_flag \<Rightarrow> (of_bool (v_polls v = 0), v\<lparr>v_polls := v_polls v - 1\<rparr>)
      | Tag_chk \<Rightarrow> (of_bool (v_polls v = 0), v\<lparr>v_polls := v_polls v - 1\<rparr>)
      | Aes_out_data \<Rightarrow> (word_le (take 4 (drop (4 * v_taken v) (v_output E D v))), v\<lparr>v_taken := v_taken v + 1, v_polls := 1\<rparr>)
      | Gcm_out_tag i \<Rightarrow> (word_be (take 4 (drop (4 * (3 - i)) (v_tag E D v))), v)
      | _ \<Rightarrow> (v_reg v r, v))"

definition sim_write :: "aes_reg \<Rightarrow> u32 \<Rightarrow> aes_view \<Rightarrow> aes_view" where
  "sim_write r y v =
     (case r of
        Aes_text_data \<Rightarrow> v\<lparr>v_fed := v_fed v @ [y], v_polls := 1\<rparr>
      | Aes_aad_data \<Rightarrow> v\<lparr>v_aad := v_aad v @ [y], v_polls := 1\<rparr>
      | Gcm_in_tag i \<Rightarrow> v\<lparr>v_tag_in := v_tag_in v + 1, v_polls := 1\<rparr>
      | Tag_clear \<Rightarrow> v\<lparr>v_tag_in := 0, v_polls := 1\<rparr>
      | _ \<Rightarrow> v\<lparr>v_reg := (v_reg v)(r := y), v_polls := 1\<rparr>)"

primrec sim_bus :: "block_cipher \<Rightarrow> block_cipher \<Rightarrow> aes_access \<Rightarrow> aes_view \<Rightarrow> u32 \<times> aes_view" where
  "sim_bus E D Clock_enable v = (0, v)"
| "sim_bus E D Unit_reset v = (0, reset_view 1)"
| "sim_bus E D (Rd r) v = sim_read E D r v"
| "sim_bus E D (Wr r y) v = (0, sim_write r y v)"

lemma prefix_word: "length bs \<le> 4 \<Longrightarrow> take (length bs) (bytes_le 4 (word_le bs :: u32)) = bs"
proof (rule nth_equalityI, goal_cases)
  case (2 i)
  then have "i < length bs" by simp
  then have "bytes_le 4 (word_le bs :: u32) ! i = bs ! i"
    by (intro bit_word_eqI) (use 2 in \<open>auto simp: bytes_le_def bit_simps bit_word_le\<close>)
  then show ?case using \<open>i < length bs\<close> by simp
qed simp

lemma sim_unit_ok: "aes_unit_ok (sim_bus E D) id E D"
proof -
  have "aes_step E D v a (fst (sim_bus E D a v)) (snd (sim_bus E D a v))" for a v
  proof (cases a)
    case (Rd r)
    then show ?thesis using prefix_word [of "take 4 (drop (4 * v_taken v) (v_output E D v))"]
      by (cases r) (auto simp: sim_read_def flag_read_def Let_def)
  next
    case (Wr r y)
    then show ?thesis by (cases r) (auto simp: sim_write_def)
  qed auto
  then show ?thesis by (simp add: aes_unit_ok_def)
qed

text \<open>A cipher for examples: the bytes are rotated and a part of the key is added.\<close>

definition toy_encrypt :: block_cipher where
  "toy_encrypt key b = xor_bytes (rotate1 b) (take 16 key)"

definition toy_decrypt :: block_cipher where
  "toy_decrypt key b = (let c = xor_bytes b (take 16 key) in if c = [] then [] else last c # butlast c)"

lemma toy_ok: "block_cipher_ok toy_encrypt toy_decrypt"
proof -
  have inv: "toy_decrypt key (toy_encrypt key b) = b" if "length b = 16" "16 \<le> length key" for key b
    using that by (cases b) (auto simp: toy_encrypt_def toy_decrypt_def xor_bytes_twice Let_def)
  have len: "length (toy_encrypt key b) = 16" "length (toy_decrypt key b) = 16" if "length b = 16" "16 \<le> length key" for key b
  proof -
    have "length (xor_bytes b (take 16 key)) = 16" using that by simp
    then show "length (toy_encrypt key b) = 16" "length (toy_decrypt key b) = 16"
      using that by (auto simp: toy_encrypt_def toy_decrypt_def Let_def simp flip: length_0_conv)
  qed
  have "16 \<le> length key" if "length key \<in> {16, 24, 32}" for key :: bytes using that by auto
  then show ?thesis by (simp add: block_cipher_ok_def cipher_ok_def on_blocks_def inv len)
qed

end
