(* ===== verification/Aes_Code.thy ===== *)
theory Aes_Code
  imports Aes_Unit
begin

unbundle bit_operations_syntax

text \<open>
  Rules for the computations of the driver: \<open>ends m s P\<close> says that \<open>m\<close> completes from \<open>s\<close> without an error and that \<open>P\<close>
  holds of its result and the state after it. \<open>at_state view B v\<close> describes a state: the memory is \<open>B\<close> and the unit
  is seen as \<open>v\<close>, up to the time its flags take. The rules here are those of the combinators, of memory and
  of single accesses to a unit that behaves as documented.
\<close>

definition ends :: "('d, 'a) code \<Rightarrow> 'd aes_sys \<Rightarrow> ('a \<Rightarrow> 'd aes_sys \<Rightarrow> bool) \<Rightarrow> bool" where
  "ends m s P = (\<exists>x s'. m s = Some (Inr (x, s')) \<and> P x s')"

lemma ends_ret [simp]: "ends (ret x) s P = P x s"
  by (simp add: ends_def ret_def)

lemma ends_seq: "ends m s P \<Longrightarrow> (\<And>x t. P x t \<Longrightarrow> ends (k x) t Q) \<Longrightarrow> ends (seq m k) s Q"
  by (fastforce simp: ends_def seq_def)

lemma ends_also: "ends m s P \<Longrightarrow> (\<And>t. P () t \<Longrightarrow> ends m' t Q) \<Longrightarrow> ends (also_do m m') s Q"
  unfolding also_do_def by (erule ends_seq) simp

lemma ends_mono: "ends m s P \<Longrightarrow> (\<And>x t. P x t \<Longrightarrow> Q x t) \<Longrightarrow> ends m s Q"
  by (auto simp: ends_def)

lemma ends_loop_from:
  assumes "\<And>i s. i < n \<Longrightarrow> I i s \<Longrightarrow> ends (body i) s (\<lambda>_. I (Suc i))"
  shows "j \<le> n \<Longrightarrow> I j s \<Longrightarrow> ends (loop body [j..<n]) s (\<lambda>_. I n)"
proof (induction "n - j" arbitrary: j s)
  case (Suc k)
  then have "[j..<n] = j # [Suc j..<n]" by (simp add: upt_conv_Cons)
  moreover have "ends (body j) s (\<lambda>_. I (Suc j))" using Suc by (intro assms) auto
  moreover have "ends (loop body [Suc j..<n]) t (\<lambda>_. I n)" if "I (Suc j) t" for t using Suc that by auto
  ultimately show ?case by (auto elim: ends_also)
qed simp

lemma ends_loop:
  assumes "I 0 s" and "\<And>i s. i < n \<Longrightarrow> I i s \<Longrightarrow> ends (body i) s (\<lambda>_. I (Suc i))"
  shows "ends (loop body [0..<n]) s (\<lambda>_. I n)"
  using ends_loop_from [of n I body 0 s] assms by blast

lemma also_ret [simp]: "also_do (ret ()) m = m"
  by (simp add: also_do_def seq_def ret_def fun_eq_iff)

lemma also_ret_right [simp]: "also_do m (ret ()) = m"
  by (auto simp: also_do_def seq_def ret_def fun_eq_iff split: option.split sum.split)

lemma also_do_assoc: "also_do (also_do a b) c = also_do a (also_do b c)"
  by (auto simp: also_do_def seq_def fun_eq_iff split: option.split sum.split)

lemma steps_snoc: "steps (ms @ [m]) = also_do (steps ms) (steps [m])"
  by (induction ms) (simp_all add: also_do_assoc)

lemma ends_steps: "ends m s P \<Longrightarrow> (\<And>t. P () t \<Longrightarrow> ends (steps ms) t Q) \<Longrightarrow> ends (steps (m # ms)) s Q"
  unfolding steps.simps by (rule ends_also)

lemma ends_last: "ends m s Q \<Longrightarrow> ends (steps [m]) s Q"
  by simp

text \<open>An error ends the computation.\<close>

lemma fails_also: "ends m s P \<Longrightarrow> (\<And>t. P () t \<Longrightarrow> m' t = Some (Inl e)) \<Longrightarrow> also_do m m' s = Some (Inl e)"
  by (fastforce simp: ends_def also_do_def seq_def)

section \<open>Memory\<close>

definition bytes_at :: "(blk \<Rightarrow> bytes) \<Rightarrow> ptr \<Rightarrow> nat \<Rightarrow> bytes" where
  "bytes_at B p n = take n (drop (snd p) (B (fst p)))"

definition room :: "(blk \<Rightarrow> bytes) \<Rightarrow> ptr \<Rightarrow> nat \<Rightarrow> bool" where
  "room B p n = (fst p \<noteq> Null \<and> snd p + n \<le> length (B (fst p)))"

definition put :: "(blk \<Rightarrow> bytes) \<Rightarrow> ptr \<Rightarrow> bytes \<Rightarrow> blk \<Rightarrow> bytes" where
  "put B p bs = B(fst p := memcpy_at (B (fst p)) (snd p) bs)"

definition at_state :: "('d \<Rightarrow> aes_view) \<Rightarrow> (blk \<Rightarrow> bytes) \<Rightarrow> aes_view \<Rightarrow> 'd aes_sys \<Rightarrow> bool" where
  "at_state view B v s = (blocks s = B \<and> (\<exists>p. view (unit_state s) = v\<lparr>v_polls := p\<rparr>))"

lemma length_bytes_at: "room B p n \<Longrightarrow> length (bytes_at B p n) = n"
  by (auto simp: room_def bytes_at_def)

lemma room_add: "room B p n \<Longrightarrow> k + m \<le> n \<Longrightarrow> room B (ptr_add p k) m"
  by (simp add: room_def ptr_add_def)

lemma bytes_at_add: "k + m \<le> n \<Longrightarrow> bytes_at B (ptr_add p k) m = take m (drop k (bytes_at B p n))"
  by (simp add: bytes_at_def ptr_add_def take_drop add.commute)

lemma bytes_at_split: "bytes_at B p (a + b) = bytes_at B p a @ bytes_at B (ptr_add p a) b"
  by (simp add: bytes_at_def ptr_add_def take_add add.commute)

lemma ptr_add_add [simp]: "ptr_add (ptr_add p a) b = ptr_add p (a + b)"
  by (simp add: ptr_add_def add.assoc)

lemma fst_ptr_add [simp]: "fst (ptr_add p n) = fst p"
  by (simp add: ptr_add_def)

lemma ptr_add_0 [simp]: "ptr_add p 0 = p"
  by (simp add: ptr_add_def)

lemma put_Nil [simp]: "put B p [] = B"
  by (simp add: put_def)

lemma put_put: "room B p (length xs + length ys) \<Longrightarrow> put (put B p xs) (ptr_add p (length xs)) ys = put B p (xs @ ys)"
  by (simp add: put_def ptr_add_def room_def memcpy_at_def fun_eq_iff add_ac)

lemma room_put [simp]: "room B q (length bs) \<Longrightarrow> room (put B q bs) p n = room B p n"
  by (auto simp: room_def put_def)

lemma bytes_at_put_other: "fst p \<noteq> fst q \<Longrightarrow> bytes_at (put B q bs) p n = bytes_at B p n"
  by (simp add: bytes_at_def put_def)

lemma bytes_at_put_same: "room B p (length bs) \<Longrightarrow> bytes_at (put B p bs) p (length bs) = bs"
  by (simp add: bytes_at_def put_def room_def memcpy_at_def)

text \<open>What lies behind the bytes written is as before.\<close>

lemma bytes_at_put_behind:
  assumes "room B p (length bs)" and "length bs \<le> k"
  shows "bytes_at (put B p bs) (ptr_add p k) n = bytes_at B (ptr_add p k) n"
proof -
  have "drop (snd p + k) (memcpy_at (B (fst p)) (snd p) bs) = drop (snd p + k) (B (fst p))"
    using assms by (simp add: memcpy_at_def room_def add.commute)
  then show ?thesis by (simp add: bytes_at_def put_def ptr_add_def)
qed

lemma load_at: "at_state view B v s \<Longrightarrow> room B p n \<Longrightarrow> ends (load p n) s (\<lambda>x t. x = bytes_at B p n \<and> at_state view B v t)"
  by (auto simp: ends_def load_def in_block_def at_state_def room_def bytes_at_def)

lemma store_at: "at_state view B v s \<Longrightarrow> room B p (length bs) \<Longrightarrow> ends (store p bs) s (\<lambda>_. at_state view (put B p bs) v)"
  by (auto simp: ends_def store_def in_block_def at_state_def room_def put_def)

lemma load8_at: "at_state view B v s \<Longrightarrow> room B p 1 \<Longrightarrow> ends (load8 p) s (\<lambda>x t. [x] = bytes_at B p 1 \<and> at_state view B v t)"
  unfolding load8_def
  by (rule ends_seq [OF load_at]) (use length_bytes_at [of B p 1] in \<open>auto simp: length_Suc_conv\<close>)

lemma load32_at: "at_state view B v s \<Longrightarrow> room B p 4 \<Longrightarrow> ends (load32 p) s (\<lambda>x t. x = word_le (bytes_at B p 4) \<and> at_state view B v t)"
  unfolding load32_def by (rule ends_seq [OF load_at]) auto

lemma store8_at: "at_state view B v s \<Longrightarrow> room B p 1 \<Longrightarrow> ends (store8 p b) s (\<lambda>_. at_state view (put B p [b]) v)"
  unfolding store8_def by (rule store_at) auto

lemma store32_at: "at_state view B v s \<Longrightarrow> room B p 4 \<Longrightarrow> ends (store32 p w) s (\<lambda>_. at_state view (put B p (bytes_le 4 w)) v)"
  unfolding store32_def by (rule store_at) auto

text \<open>A loop that stores one piece after another.\<close>

lemma put_pieces:
  assumes "room B p (length bs)" and "k + m \<le> length bs"
  shows "put (put B p (take k bs)) (ptr_add p k) (take m (drop k bs)) = put B p (take (k + m) bs)"
proof -
  have "room B p (length (take k bs) + length (take m (drop k bs)))" using assms by (simp add: room_def)
  from put_put [OF this] show ?thesis using assms by (simp add: take_add)
qed

section \<open>Accesses to the unit\<close>

lemma view_polls [simp]:
  "v_key (v\<lparr>v_polls := p\<rparr>) = v_key v" "v_iv n (v\<lparr>v_polls := p\<rparr>) = v_iv n v" "v_total (v\<lparr>v_polls := p\<rparr>) = v_total v"
  "v_output E D (v\<lparr>v_polls := p\<rparr>) = v_output E D v" "v_tag E D (v\<lparr>v_polls := p\<rparr>) = v_tag E D v"
  "started (v\<lparr>v_polls := p\<rparr>) = started v" "aad_done (v\<lparr>v_polls := p\<rparr>) = aad_done v"
  "takes_word (v\<lparr>v_polls := p\<rparr>) = takes_word v" "finished (v\<lparr>v_polls := p\<rparr>) = finished v"
  by (simp_all add: v_key_def v_kmode_def v_iv_def v_total_def v_output_def v_mode_def v_cipher_def v_input_def v_tag_def
      v_aad_total_def started_def aad_done_def takes_word_def finished_def cong: if_cong)

lemma poll_ends:
  assumes ok: "aes_unit_ok bus view E D"
    and r: "\<And>v x v'. aes_step E D v (Rd r) x v' \<Longrightarrow> flag_read (c v) v x v'"
    and c: "\<And>v p. c (v\<lparr>v_polls := p\<rparr>) = c v"
  shows "c v \<Longrightarrow> view d = v\<lparr>v_polls := p\<rparr> \<Longrightarrow> \<exists>d' p'. poll bus r d = Some d' \<and> view d' = v\<lparr>v_polls := p'\<rparr>"
proof (induction p arbitrary: d)
  case (0 d)
  obtain x d' where b: "bus (Rd r) d = (x, d')" by force
  then have "flag_read (c (view d)) (view d) x (view d')" using ok r unfolding aes_unit_ok_def by (metis fst_conv snd_conv)
  then show ?case using 0 b c by (subst poll.simps) (auto simp: flag_read_def)
next
  case (Suc p d)
  obtain x d' where b: "bus (Rd r) d = (x, d')" by force
  then have "flag_read (c (view d)) (view d) x (view d')" using ok r unfolding aes_unit_ok_def by (metis fst_conv snd_conv)
  then have "view d' = v\<lparr>v_polls := p\<rparr>" using Suc.prems by (simp add: flag_read_def)
  then show ?case using b Suc.IH [OF Suc.prems(1)] by (subst poll.simps) auto
qed

lemma wait_at:
  assumes "aes_unit_ok bus view E D" "at_state view B v s" "c v"
    and "\<And>v x v'. aes_step E D v (Rd r) x v' \<Longrightarrow> flag_read (c v) v x v'" "\<And>v p. c (v\<lparr>v_polls := p\<rparr>) = c v"
  shows "ends (wait_flag bus r) s (\<lambda>_. at_state view B v)"
proof -
  obtain p where "view (unit_state s) = v\<lparr>v_polls := p\<rparr>" "blocks s = B" using assms(2) by (auto simp: at_state_def)
  with poll_ends [OF assms(1,4,5,3)] show ?thesis by (fastforce simp: ends_def wait_flag_def at_state_def)
qed

lemma wait_in: "aes_unit_ok bus view E D \<Longrightarrow> at_state view B v s \<Longrightarrow> started v \<Longrightarrow> takes_word v \<Longrightarrow>
  ends (wait_flag bus Data_in_flag) s (\<lambda>_. at_state view B v)"
  by (rule wait_at [where c = "\<lambda>v. started v \<and> takes_word v"]) auto

lemma wait_out: "aes_unit_ok bus view E D \<Longrightarrow> at_state view B v s \<Longrightarrow> started v \<Longrightarrow> 4 * v_taken v < length (v_output E D v) \<Longrightarrow>
  ends (wait_flag bus Data_out_flag) s (\<lambda>_. at_state view B v)"
  by (rule wait_at [where c = "\<lambda>v. started v \<and> 4 * v_taken v < length (v_output E D v)"]) auto

lemma wait_tag_in: "aes_unit_ok bus view E D \<Longrightarrow> at_state view B v s \<Longrightarrow> finished v \<Longrightarrow>
  ends (wait_flag bus Tag_in_flag) s (\<lambda>_. at_state view B v)"
  by (rule wait_at [where c = finished]) auto

lemma wait_tag_chk: "aes_unit_ok bus view E D \<Longrightarrow> at_state view B v s \<Longrightarrow> finished v \<Longrightarrow> 4 \<le> v_tag_in v \<Longrightarrow>
  ends (wait_flag bus Tag_chk) s (\<lambda>_. at_state view B v)"
  by (rule wait_at [where c = "\<lambda>v. finished v \<and> 4 \<le> v_tag_in v"]) auto

lemma access_at:
  assumes "aes_unit_ok bus view E D" "at_state view B v s"
  shows "ends (access bus a) s (\<lambda>x t. blocks t = B \<and> (\<exists>p. aes_step E D (v\<lparr>v_polls := p\<rparr>) a x (view (unit_state t))))"
proof -
  obtain p where p: "view (unit_state s) = v\<lparr>v_polls := p\<rparr>" "blocks s = B" using assms(2) by (auto simp: at_state_def)
  have "aes_step E D (view (unit_state s)) a (fst (bus a (unit_state s))) (view (snd (bus a (unit_state s))))"
    using assms(1) by (simp add: aes_unit_ok_def)
  then show ?thesis using p by (auto simp: ends_def access_def split: prod.split)
qed

lemma rd_at:
  assumes "aes_unit_ok bus view E D" "at_state view B v s"
    and "\<And>p x v'. aes_step E D (v\<lparr>v_polls := p\<rparr>) (Rd r) x v' \<Longrightarrow> Q x \<and> (\<exists>p. v' = w\<lparr>v_polls := p\<rparr>)"
  shows "ends (rd bus r) s (\<lambda>x t. Q x \<and> at_state view B w t)"
  unfolding rd_def by (rule ends_mono [OF access_at [OF assms(1,2)]]) (use assms(3) in \<open>auto simp: at_state_def\<close>)

lemma wr_at:
  assumes "aes_unit_ok bus view E D" "at_state view B v s"
    and "\<And>p x v'. aes_step E D (v\<lparr>v_polls := p\<rparr>) (Wr r y) x v' \<Longrightarrow> \<exists>p. v' = w\<lparr>v_polls := p\<rparr>"
  shows "ends (wr bus r y) s (\<lambda>_. at_state view B w)"
  unfolding wr_def by (rule ends_seq [OF access_at [OF assms(1,2)]]) (use assms(3) in \<open>auto simp: at_state_def\<close>)

text \<open>The registers that hold the configuration.\<close>

definition config :: "aes_reg \<Rightarrow> bool" where
  "config r = (case r of Aes_key _ \<Rightarrow> True | Aes_key_ext _ \<Rightarrow> True | Aes_iv _ \<Rightarrow> True | Encrypt_sel \<Rightarrow> True | Mode_ctl \<Rightarrow> True
     | Aes_endian \<Rightarrow> True | Gb_aad_num \<Rightarrow> True | Gb_pc_num \<Rightarrow> True | Gb_aes_en \<Rightarrow> True | _ \<Rightarrow> False)"

lemma config_simps [simp]:
  "config (Aes_key i)" "config (Aes_key_ext i)" "config (Aes_iv i)" "config Encrypt_sel" "config Mode_ctl" "config Aes_endian"
  "config Gb_aad_num" "config Gb_pc_num" "config Gb_aes_en"
  by (simp_all add: config_def)

lemma rd_config: "aes_unit_ok bus view E D \<Longrightarrow> at_state view B v s \<Longrightarrow> config r \<Longrightarrow>
  ends (rd bus r) s (\<lambda>x t. x = v_reg v r \<and> at_state view B v t)"
  by (rule rd_at) (auto simp: config_def split: aes_reg.splits)

lemma wr_config: "aes_unit_ok bus view E D \<Longrightarrow> at_state view B v s \<Longrightarrow> config r \<Longrightarrow>
  ends (wr bus r y) s (\<lambda>_. at_state view B (v\<lparr>v_reg := (v_reg v)(r := y)\<rparr>))"
  by (rule wr_at) (auto simp: config_def split: aes_reg.splits)

definition upd_reg :: "aes_reg \<Rightarrow> (u32 \<Rightarrow> u32) \<Rightarrow> (aes_reg \<Rightarrow> u32) \<Rightarrow> aes_reg \<Rightarrow> u32" where
  "upd_reg r h R = R(r := h (R r))"

lemma update_config: "aes_unit_ok bus view E D \<Longrightarrow> at_state view B v s \<Longrightarrow> config r \<Longrightarrow>
  ends (seq (rd bus r) (\<lambda>x. wr bus r (h x))) s (\<lambda>_. at_state view B (v\<lparr>v_reg := upd_reg r h (v_reg v)\<rparr>))"
  unfolding upd_reg_def by (rule ends_seq [OF rd_config]) (auto intro: wr_config)

lemma wr_text: "aes_unit_ok bus view E D \<Longrightarrow> at_state view B v s \<Longrightarrow> started v \<Longrightarrow> aad_done v \<Longrightarrow> length (v_fed v) < v_taken v + 20 \<Longrightarrow>
  ends (wr bus Aes_text_data y) s (\<lambda>_. at_state view B (v\<lparr>v_fed := v_fed v @ [y]\<rparr>))"
  by (rule wr_at) auto

lemma wr_aad: "aes_unit_ok bus view E D \<Longrightarrow> at_state view B v s \<Longrightarrow> started v \<Longrightarrow> \<not> aad_done v \<Longrightarrow>
  ends (wr bus Aes_aad_data y) s (\<lambda>_. at_state view B (v\<lparr>v_aad := v_aad v @ [y]\<rparr>))"
  by (rule wr_at) auto

lemma wr_in_tag: "aes_unit_ok bus view E D \<Longrightarrow> at_state view B v s \<Longrightarrow> finished v \<Longrightarrow>
  ends (wr bus (Gcm_in_tag i) y) s (\<lambda>_. at_state view B (v\<lparr>v_tag_in := v_tag_in v + 1\<rparr>))"
  by (rule wr_at) auto

lemma wr_tag_clear: "aes_unit_ok bus view E D \<Longrightarrow> at_state view B v s \<Longrightarrow>
  ends (wr bus Tag_clear y) s (\<lambda>_. at_state view B (v\<lparr>v_tag_in := 0\<rparr>))"
  by (rule wr_at) auto

lemma rd_out: "aes_unit_ok bus view E D \<Longrightarrow> at_state view B v s \<Longrightarrow> started v \<Longrightarrow> 4 * v_taken v < length (v_output E D v) \<Longrightarrow>
  ends (rd bus Aes_out_data) s
    (\<lambda>x t. take (length (v_output E D v) - 4 * v_taken v) (bytes_le 4 x) = take 4 (drop (4 * v_taken v) (v_output E D v)) \<and>
           at_state view B (v\<lparr>v_taken := v_taken v + 1\<rparr>) t)"
  by (rule rd_at) (auto simp: Let_def min_def split: if_splits)

lemma rd_out_tag: "aes_unit_ok bus view E D \<Longrightarrow> at_state view B v s \<Longrightarrow> finished v \<Longrightarrow> i < 4 \<Longrightarrow>
  ends (rd bus (Gcm_out_tag i)) s (\<lambda>x t. x = word_be (take 4 (drop (4 * (3 - i)) (v_tag E D v))) \<and> at_state view B v t)"
  by (rule rd_at) auto

lemma rd_tag_chk: "aes_unit_ok bus view E D \<Longrightarrow> at_state view B v s \<Longrightarrow> finished v \<Longrightarrow> ends (rd bus Tag_chk) s (\<lambda>x t. True \<and> at_state view B v t)"
  by (rule rd_at) (auto simp: flag_read_def)

lemma reset_at: "aes_unit_ok bus view E D \<Longrightarrow> at_state view B v s \<Longrightarrow> ends (aes_clk_init bus) s (\<lambda>_. at_state view B (reset_view 0))"
  unfolding aes_clk_init_def
  by (rule ends_seq [OF access_at], assumption+, rule ends_seq [OF access_at [where v = v]], assumption)
    (auto simp: at_state_def reset_view_def)

end
