(* ===== verification/Aes_Init.thy ===== *)
theory Aes_Init
  imports Aes_Code
begin

unbundle bit_operations_syntax

text \<open>
  \<^verbatim>\<open>aes_init\<close>: the unit is reset and configured, with the key and the IV in its registers last word
  first, the lengths and the additional data. \<open>configured\<close> is what the registers then say.
\<close>

section \<open>Words of a buffer\<close>

lemma words_slices: "length bs = 4 * m \<Longrightarrow> words_of_bytes 4 bs = map (\<lambda>i. word_le (take 4 (drop (4 * i) bs))) [0..<m]"
  by (rule nth_equalityI) (simp_all add: words_of_bytes_def length_chunks chunks_nth mult.commute)

lemma words_rev:
  assumes "length bs = 4 * m"
  shows "rev (map (\<lambda>i. word_le (take 4 (drop (length bs - 4 * i - 4) bs))) [0..<m]) = (words_of_bytes 4 bs :: u32 list)"
proof (rule nth_equalityI)
  fix i assume "i < length (rev (map (\<lambda>i. word_le (take 4 (drop (length bs - 4 * i - 4) bs))) [0..<m]))"
  then have "i < m" by simp
  moreover from this have "4 * m - 4 * (m - Suc i) - 4 = 4 * i" by simp
  ultimately show "rev (map (\<lambda>i. word_le (take 4 (drop (length bs - 4 * i - 4) bs))) [0..<m]) ! i = words_of_bytes 4 bs ! i"
    using assms by (simp add: rev_nth words_slices)
qed (use assms in \<open>simp add: words_slices\<close>)

section \<open>Registers written in a loop\<close>

definition set_regs :: "(nat \<Rightarrow> aes_reg) \<Rightarrow> (nat \<Rightarrow> u32) \<Rightarrow> nat \<Rightarrow> (aes_reg \<Rightarrow> u32) \<Rightarrow> aes_reg \<Rightarrow> u32" where
  "set_regs k w n R = fold (\<lambda>i R. R(k i := w i)) [0..<n] R"

lemma set_regs_other: "\<forall>i. k i \<noteq> r \<Longrightarrow> set_regs k w n R r = R r"
  by (induction n) (auto simp: set_regs_def)

lemma set_regs_hit: "inj k \<Longrightarrow> i < n \<Longrightarrow> set_regs k w n R (k i) = w i"
  by (induction n) (auto simp: set_regs_def less_Suc_eq inj_eq)

definition key_reg :: "nat \<Rightarrow> aes_reg" where
  "key_reg i = (if i < 4 then Aes_key i else Aes_key_ext (i - 4))"

lemma inj_key_reg: "inj key_reg"
  by (auto simp: inj_def key_reg_def split: if_splits)

lemma key_regs_reg: "m \<le> 8 \<Longrightarrow> take m key_regs = map key_reg [0..<m]"
  by (rule nth_equalityI) (auto simp: key_regs_def key_reg_def nth_append)

lemma load_regs_at:
  assumes ok: "aes_unit_ok bus view E D" and at: "at_state view B v s" and k: "\<And>i. config (k i)" and n: "room B p n \<or> n = 0"
  shows "ends (loop (\<lambda>i. seq (load32 (ptr_add p (n - 4 * i - 4))) (wr bus (k i))) [0..<n div 4]) s
    (\<lambda>_. at_state view B (v\<lparr>v_reg := set_regs k (\<lambda>i. word_le (take 4 (drop (n - 4 * i - 4) (bytes_at B p n)))) (n div 4) (v_reg v)\<rparr>))"
proof (rule ends_loop)
  show "at_state view B (v\<lparr>v_reg := set_regs k (\<lambda>i. word_le (take 4 (drop (n - 4 * i - 4) (bytes_at B p n)))) 0 (v_reg v)\<rparr>) s"
    using at by (simp add: set_regs_def)
next
  fix i t assume i: "i < n div 4"
    and t: "at_state view B (v\<lparr>v_reg := set_regs k (\<lambda>i. word_le (take 4 (drop (n - 4 * i - 4) (bytes_at B p n)))) i (v_reg v)\<rparr>) t"
  have r: "room B (ptr_add p (n - 4 * i - 4)) 4" using n i by (auto intro: room_add)
  have b: "bytes_at B (ptr_add p (n - 4 * i - 4)) 4 = take 4 (drop (n - 4 * i - 4) (bytes_at B p n))"
    using i by (intro bytes_at_add) auto
  show "ends (seq (load32 (ptr_add p (n - 4 * i - 4))) (wr bus (k i))) t
    (\<lambda>_. at_state view B (v\<lparr>v_reg := set_regs k (\<lambda>i. word_le (take 4 (drop (n - 4 * i - 4) (bytes_at B p n)))) (Suc i) (v_reg v)\<rparr>))"
    by (rule ends_seq [OF load32_at [OF t r]])
      (use b in \<open>auto intro!: ends_mono [OF wr_config [OF ok _ k]] simp: set_regs_def\<close>)
qed

section \<open>The configuration\<close>

definition work_len :: "aes_cipher_mode_t \<Rightarrow> nat \<Rightarrow> nat" where
  "work_len m n = (if m = AES_GCM then n else padded16 n)"

definition configured :: "bytes \<Rightarrow> bytes \<Rightarrow> aes_cipher_mode_t \<Rightarrow> aes_encrypt_sel_t \<Rightarrow> nat \<Rightarrow> nat \<Rightarrow> aes_view \<Rightarrow> bool" where
  "configured key iv m sel a n v =
     (bit (v_reg v Aes_endian) 0 \<and> bit (v_reg v Gb_aes_en) 0 \<and> v_kmode v < 3 \<and> v_cipher v = cipher_code m \<and>
      v_reg v Encrypt_sel = sel_code sel \<and> v_key v = key \<and> v_iv (length iv div 4) v = iv \<and>
      v_total v = work_len m n \<and> v_aad_total v = a)"

lemma configured_regs: "v_reg v = v_reg w \<Longrightarrow> configured key iv m sel a n v = configured key iv m sel a n w"
  by (simp add: configured_def v_kmode_def v_cipher_def v_key_def v_iv_def v_total_def v_aad_total_def)

lemma padded16_dvd [simp]: "16 dvd padded16 n"
  by (simp add: padded16_def)

lemma padded16_pos [simp]: "0 < padded16 n \<longleftrightarrow> 0 < n"
  by (auto simp: padded16_def)

lemma padded16_id: "16 dvd n \<Longrightarrow> padded16 n = n"
  by (auto simp: padded16_def dvd_def)

lemma configured_started: "configured key iv m sel a n v \<Longrightarrow> 0 < n \<Longrightarrow> started v"
  by (cases m) (auto simp: configured_def started_def work_len_def)

lemma mode_bits:
  fixes c :: u32
  assumes "c < 3" "k < 3"
  shows "((0 AND NOT 0x18 OR (push_bit 3 k AND 0x18)) AND NOT 7 OR (c AND 7)) AND 7 = (c :: u32)"
    and "drop_bit 3 ((0 AND NOT 0x18 OR (push_bit 3 k AND 0x18)) AND NOT 7 OR (c AND 7)) AND 3 = (k :: u32)"
proof -
  have "c = 0 \<or> c = 1 \<or> c = 2" "k = 0 \<or> k = 1 \<or> k = 2"
    using assms by (auto simp: word_less_nat_alt word_unat_eq_iff)
  then show "((0 AND NOT 0x18 OR (push_bit 3 k AND 0x18)) AND NOT 7 OR (c AND 7)) AND 7 = (c :: u32)"
    and "drop_bit 3 ((0 AND NOT 0x18 OR (push_bit 3 k AND 0x18)) AND NOT 7 OR (c AND 7)) AND 3 = (k :: u32)"
    by auto
qed

section \<open>Feeding data\<close>

definition pad4 :: "bytes \<Rightarrow> bytes" where
  "pad4 bs = bs @ replicate ((4 - length bs mod 4) mod 4) 0"

lemma pad4_dvd [simp]: "4 dvd length (pad4 bs)"
proof -
  have "length bs mod 4 \<in> {0, 1, 2, 3}" by auto
  then have "(length bs mod 4 + (4 - length bs mod 4) mod 4) mod 4 = 0" by auto
  then have "(length bs + (4 - length bs mod 4) mod 4) mod 4 = 0" by (metis mod_add_left_eq)
  then show ?thesis by (simp add: pad4_def mod_eq_0_iff_dvd)
qed

text \<open>The word with the last bytes.\<close>

lemma rest_word_at:
  assumes at: "at_state view B v s" and r: "r \<in> {1, 2, 3}" "room B p r"
  shows "ends (rest_word p r) s (\<lambda>x t. x = word_le (bytes_at B p r @ replicate (4 - r) 0) \<and> at_state view B v t)"
proof -
  have l: "at_state view B v t \<Longrightarrow> i < r \<Longrightarrow> ends (load8 (ptr_add p i)) t (\<lambda>x t. x = bytes_at B p r ! i \<and> at_state view B v t)" for t i
    by (rule ends_mono [OF load8_at]) (use r(2) in \<open>auto simp: bytes_at_add [where n = r] length_bytes_at
        take_Suc_conv_app_nth intro: room_add\<close>)
  have e: "bytes_at B p r = map ((!) (bytes_at B p r)) [0..<r]"
    using r by (simp add: list_eq_iff_nth_eq length_bytes_at)
  consider "r = 1" | "r = 2" | "r = 3" using r by auto
  then show ?thesis
  proof cases
    case 1
    then obtain a where "bytes_at B p r = [a]" using e by simp
    with 1 show ?thesis
      unfolding rest_word_def by (auto intro!: ends_seq [OF l [OF at, of 0, simplified]] simp: numeral_eq_Suc)
  next
    case 2
    then obtain a b where "bytes_at B p r = [a, b]" using e by (simp add: numeral_eq_Suc)
    with 2 show ?thesis
      unfolding rest_word_def by (auto intro!: ends_seq [OF l [OF at, of 0, simplified]] ends_seq [OF l] simp: numeral_eq_Suc)
  next
    case 3
    then obtain a b c where "bytes_at B p r = [a, b, c]" using e by (simp add: numeral_eq_Suc)
    with 3 show ?thesis
      unfolding rest_word_def by (auto intro!: ends_seq [OF l [OF at, of 0, simplified]] ends_seq [OF l] simp: numeral_eq_Suc)
  qed
qed

text \<open>A buffer that goes to the unit in words; \<open>g ws\<close> is the unit after the words \<open>ws\<close>.\<close>

lemma feed_words:
  assumes at: "at_state view B (g []) s" and p: "room B p (4 * n)"
    and one: "\<And>ws w t. length ws < n \<Longrightarrow> at_state view B (g ws) t \<Longrightarrow> ends (put_word w) t (\<lambda>_. at_state view B (g (ws @ [w])))"
  shows "ends (loop (\<lambda>i. seq (load32 (ptr_add p (i * 4))) put_word) [0..<n]) s
    (\<lambda>_. at_state view B (g (words_of_bytes 4 (bytes_at B p (4 * n)))))"
proof -
  define w where "w = (\<lambda>i. word_le (take 4 (drop (4 * i) (bytes_at B p (4 * n)))) :: u32)"
  have "ends (loop (\<lambda>i. seq (load32 (ptr_add p (i * 4))) put_word) [0..<n]) s (\<lambda>_. at_state view B (g (map w [0..<n])))"
  proof (rule ends_loop)
    fix i t assume i: "i < n" and t: "at_state view B (g (map w [0..<i])) t"
    have r: "room B (ptr_add p (i * 4)) 4" using i by (intro room_add [OF p]) simp
    have "bytes_at B (ptr_add p (i * 4)) 4 = take 4 (drop (i * 4) (bytes_at B p (4 * n)))" using i by (intro bytes_at_add) simp
    then have "w i = word_le (bytes_at B (ptr_add p (i * 4)) 4)" by (simp add: w_def mult.commute)
    then show "ends (seq (load32 (ptr_add p (i * 4))) put_word) t (\<lambda>_. at_state view B (g (map w [0..<Suc i])))"
      using one [of "map w [0..<i]"] i by (intro ends_seq [OF load32_at [OF t r]]) auto
  qed (use at in simp)
  moreover have "words_of_bytes 4 (bytes_at B p (4 * n)) = map w [0..<n]"
    using words_slices [of "bytes_at B p (4 * n)" n] length_bytes_at [OF p] by (simp add: w_def)
  ultimately show ?thesis by simp
qed

lemma feed_rest:
  assumes at: "at_state view B (g (words_of_bytes 4 (bytes_at B p (4 * (n div 4))))) s" and p: "room B p n"
    and one: "\<And>ws w t. length ws < (n + 3) div 4 \<Longrightarrow> at_state view B (g ws) t \<Longrightarrow> ends (put_word w) t (\<lambda>_. at_state view B (g (ws @ [w])))"
  shows "ends (if n mod 4 \<noteq> 0 then seq (rest_word (ptr_add p (4 * (n div 4))) (n mod 4)) put_word else ret ()) s
    (\<lambda>_. at_state view B (g (words_of_bytes 4 (pad4 (bytes_at B p n)))))"
proof (cases "n mod 4 = 0")
  case True
  then have "4 * (n div 4) = n" by auto
  then show ?thesis using at p True by (simp add: pad4_def length_bytes_at)
next
  case False
  define q where "q = ptr_add p (4 * (n div 4))"
  define W where "W = (words_of_bytes 4 (bytes_at B p (4 * (n div 4))) :: u32 list)"
  have n: "4 * (n div 4) + n mod 4 = n" by simp
  have p4: "room B p (4 * (n div 4))" using p n unfolding room_def by linarith
  have lW: "length W = n div 4" unfolding W_def using length_bytes_at [OF p4] by (subst length_words_of_bytes) auto
  have "bytes_at B p n = bytes_at B p (4 * (n div 4)) @ bytes_at B q (n mod 4)"
    unfolding q_def by (metis n bytes_at_split)
  then have "pad4 (bytes_at B p n) = bytes_at B p (4 * (n div 4)) @ (bytes_at B q (n mod 4) @ replicate (4 - n mod 4) 0)"
    using False length_bytes_at [OF p] by (simp add: pad4_def)
  moreover have "length (bytes_at B q (n mod 4) @ replicate (4 - n mod 4) 0) = 4"
    using room_add [OF p, of "4 * (n div 4)" "n mod 4"] n by (simp add: length_bytes_at q_def less_imp_le)
  ultimately have e: "words_of_bytes 4 (pad4 (bytes_at B p n)) = W @ [word_le (bytes_at B q (n mod 4) @ replicate (4 - n mod 4) 0)]"
    using length_bytes_at [OF p4] by (simp add: W_def words_of_bytes_def chunks_append chunks_block)
  have r: "n mod 4 \<in> {1, 2, 3}" using False by auto
  have q: "room B q (n mod 4)" unfolding q_def using n by (intro room_add [OF p]) simp
  have lW': "length W < (n + 3) div 4" using lW False by presburger
  have W: "at_state view B (g W) s" using at by (simp add: W_def)
  have "ends (seq (rest_word q (n mod 4)) put_word) s (\<lambda>_. at_state view B (g (words_of_bytes 4 (pad4 (bytes_at B p n)))))"
    unfolding e by (rule ends_seq [OF rest_word_at [OF W r q]]) (use one [OF lW'] in blast)
  then show ?thesis using False by (simp add: q_def)
qed

lemma input_words_at:
  assumes at: "at_state view B (g []) s" and p: "room B p n \<or> n = 0"
    and one: "\<And>ws w t. length ws < (n + 3) div 4 \<Longrightarrow> at_state view B (g ws) t \<Longrightarrow>
      ends (also_do (wait_flag bus Data_in_flag) (wr bus r w)) t (\<lambda>_. at_state view B (g (ws @ [w])))"
  shows "ends (input_words bus r p n) s (\<lambda>_. at_state view B (g (words_of_bytes 4 (pad4 (bytes_at B p n)))))"
proof (cases "n = 0")
  case True
  then show ?thesis using at by (simp add: input_words_def words_of_bytes_def pad4_def bytes_at_def)
next
  case False
  then have "room B p n" using p by simp
  moreover from this have "room B p (4 * (n div 4))" unfolding room_def by linarith
  ultimately show ?thesis
    unfolding input_words_def using at one by (intro ends_also [OF feed_words [where g = g]] feed_rest [where g = g]) auto
qed

lemma put_text:
  assumes "aes_unit_ok bus view E D" "at_state view B v s" "started v" "aad_done v" "length (v_fed v) < v_taken v + 20"
  shows "ends (also_do (wait_flag bus Data_in_flag) (wr bus Aes_text_data w)) s (\<lambda>_. at_state view B (v\<lparr>v_fed := v_fed v @ [w]\<rparr>))"
  by (rule ends_also [OF wait_in]) (use assms in \<open>auto simp: takes_word_def intro: wr_text\<close>)

lemma put_aad:
  assumes "aes_unit_ok bus view E D" "at_state view B v s" "started v" "\<not> aad_done v"
  shows "ends (also_do (wait_flag bus Data_in_flag) (wr bus Aes_aad_data w)) s (\<lambda>_. at_state view B (v\<lparr>v_aad := v_aad v @ [w]\<rparr>))"
  by (rule ends_also [OF wait_in]) (use assms in \<open>auto simp: takes_word_def intro: wr_aad\<close>)

section \<open>Initialisation\<close>

text \<open>The registers after the configuration.\<close>

definition init_regs :: "bytes \<Rightarrow> bytes \<Rightarrow> aes_cipher_mode_t \<Rightarrow> aes_encrypt_sel_t \<Rightarrow> nat \<Rightarrow> nat \<Rightarrow> aes_reg \<Rightarrow> u32" where
  "init_regs key iv m sel a n =
     upd_reg Gb_aes_en (\<lambda>v. v OR 1)
      ((upd_reg Mode_ctl (\<lambda>v. (v AND NOT 7) OR (cipher_code m AND 7))
        (upd_reg Mode_ctl (\<lambda>v. (v AND NOT 0x18) OR (push_bit 3 (of_nat (length key div 8 - 2)) AND 0x18))
          (set_regs Aes_iv (\<lambda>i. word_le (take 4 (drop (length iv - 4 * i - 4) iv))) (length iv div 4)
            (set_regs key_reg (\<lambda>i. word_le (take 4 (drop (length key - 4 * i - 4) key))) (length key div 4)
              (upd_reg Aes_endian (\<lambda>v. v OR 1) (\<lambda>_. 0))))))
       (Encrypt_sel := sel_code sel, Gb_aad_num := of_nat a - 1, Gb_pc_num := of_nat (work_len m n) - 1))"

lemma set_regs_unkeyed [simp]:
  "set_regs key_reg w n R Mode_ctl = R Mode_ctl" "set_regs key_reg w n R Aes_endian = R Aes_endian"
  "set_regs key_reg w n R Gb_aes_en = R Gb_aes_en" "set_regs key_reg w n R (Aes_iv i) = R (Aes_iv i)"
  "set_regs Aes_iv w n R Mode_ctl = R Mode_ctl" "set_regs Aes_iv w n R Aes_endian = R Aes_endian"
  "set_regs Aes_iv w n R Gb_aes_en = R Gb_aes_en" "set_regs Aes_iv w n R (key_reg i) = R (key_reg i)"
  by (simp_all add: set_regs_other key_reg_def)

lemma key_reg_neq [simp]:
  "key_reg i \<noteq> Mode_ctl" "key_reg i \<noteq> Encrypt_sel" "key_reg i \<noteq> Gb_aad_num" "key_reg i \<noteq> Gb_pc_num" "key_reg i \<noteq> Gb_aes_en"
  by (simp_all add: key_reg_def)

lemma configured_init:
  assumes k: "length key \<in> {16, 24, 32}" and i: "4 dvd length iv" and n: "work_len m n < 2 ^ 32" "a < 2 ^ 32" and v: "v_reg v = init_regs key iv m sel a n"
  shows "configured key iv m sel a n v"
proof -
  define kk where "kk = (of_nat (length key div 8 - 2) :: u32)"
  have kk: "kk < 3" "unat kk = length key div 8 - 2" using k by (auto simp: kk_def)
  have c: "cipher_code m < 3" by (cases m) simp_all
  have mc: "v_reg v Mode_ctl = (0 AND NOT 0x18 OR (push_bit 3 kk AND 0x18)) AND NOT 7 OR (cipher_code m AND 7)"
    by (simp add: v init_regs_def upd_reg_def kk_def)
  have kmode: "v_kmode v = length key div 8 - 2" and cipher: "v_cipher v = cipher_code m"
    using mode_bits [OF c kk(1)] kk(2) by (simp_all add: v_kmode_def v_cipher_def mc)
  have nk: "4 + 2 * v_kmode v = length key div 4" "length key = 4 * (length key div 4)" using k kmode by auto
  have "map (v_reg v) (take (length key div 4) key_regs) =
      map (\<lambda>i. word_le (take 4 (drop (length key - 4 * i - 4) key))) [0..<length key div 4]"
    using k by (subst key_regs_reg) (auto simp: v init_regs_def upd_reg_def set_regs_hit inj_key_reg)
  then have key: "v_key v = key"
    using words_rev [OF nk(2)] k unfolding v_key_def nk(1) by (auto simp: bytes_of_words_of_bytes)
  have "map (\<lambda>i. v_reg v (Aes_iv i)) [0..<length iv div 4] = map (\<lambda>i. word_le (take 4 (drop (length iv - 4 * i - 4) iv))) [0..<length iv div 4]"
    by (auto simp: v init_regs_def upd_reg_def set_regs_hit inj_def)
  then have iv: "v_iv (length iv div 4) v = iv"
    using words_rev [of iv "length iv div 4"] i unfolding v_iv_def by (simp only: dvd_mult_div_cancel) (simp add: bytes_of_words_of_bytes)
  show ?thesis
    using kmode cipher key iv k n by (auto simp: configured_def v init_regs_def upd_reg_def bit_simps v_total_def v_aad_total_def unat_of_nat_small)
qed

lemma feed_aad:
  assumes ok: "aes_unit_ok bus view E D" and at: "at_state view B v s" and a: "room B p a \<or> a = 0"
    and v: "started v" "v_cipher v = 2" "v_aad_total v = a" "v_aad v = []"
  shows "ends (input_words bus Aes_aad_data p a) s (\<lambda>_. at_state view B (v\<lparr>v_aad := words_of_bytes 4 (pad4 (bytes_at B p a))\<rparr>))"
proof (rule input_words_at [where g = "\<lambda>ws. v\<lparr>v_aad := ws\<rparr>", OF _ a])
  have reg: "started (v\<lparr>v_aad := ws\<rparr>) = started v" "v_cipher (v\<lparr>v_aad := ws\<rparr>) = v_cipher v" "v_aad_total (v\<lparr>v_aad := ws\<rparr>) = v_aad_total v" for ws
    by (simp_all add: started_def v_cipher_def v_aad_total_def v_kmode_def v_total_def)
  fix ws w t assume "length ws < (a + 3) div 4" "at_state view B (v\<lparr>v_aad := ws\<rparr>) t"
  then show "ends (also_do (wait_flag bus Data_in_flag) (wr bus Aes_aad_data w)) t (\<lambda>_. at_state view B (v\<lparr>v_aad := ws @ [w]\<rparr>))"
    using put_aad [OF ok, of B "v\<lparr>v_aad := ws\<rparr>" t w] v reg by (auto simp: aad_done_def)
next
  show "at_state view B (v\<lparr>v_aad := []\<rparr>) s" using at v(4) by (metis aes_view.surjective aes_view.update_convs(3))
qed

lemma init_config_at:
  assumes ok: "aes_unit_ok bus view E D" and at: "at_state view B v s"
    and k: "room B kp (length key)" "key = bytes_at B kp (length key)"
    and i: "room B ip (length iv) \<or> iv = []" "iv = bytes_at B ip (length iv)"
    and c: "\<And>t. at_state view B ((reset_view 0)\<lparr>v_reg := init_regs key iv m sel a n\<rparr>) t \<Longrightarrow> ends c t Q"
  shows "ends (steps
       [aes_clk_init bus,
        seq (rd bus Aes_endian) (\<lambda>v. wr bus Aes_endian (v OR 1)),
        loop (\<lambda>i. seq (load32 (ptr_add kp (length key - 4 * i - 4))) (wr bus (key_reg i))) [0..<length key div 4],
        loop (\<lambda>i. seq (load32 (ptr_add ip (length iv - 4 * i - 4))) (wr bus (Aes_iv i))) [0..<length iv div 4],
        write_kmode bus (of_nat (length key div 8 - 2)),
        write_cipher_mode bus (cipher_code m),
        wr bus Encrypt_sel (sel_code sel),
        wr bus Gb_aad_num (of_nat a - 1),
        wr bus Gb_pc_num (of_nat (work_len m n) - 1),
        seq (rd bus Gb_aes_en) (\<lambda>v. wr bus Gb_aes_en (v OR 1)), c]) s Q"
proof -
  have kc: "config (key_reg j)" for j by (simp add: key_reg_def)
  have i0: "room B ip (length iv) \<or> length iv = 0" using i(1) by auto
  note keys = load_regs_at [OF ok _ kc disjI1 [OF k(1)], folded k(2)]
  note ivs = load_regs_at [OF ok _ config_simps(3) i0, folded i(2)]
  note upd = update_config [OF ok]
  show ?thesis
    unfolding steps.simps write_kmode_def write_cipher_mode_def
    by (rule ends_also [OF reset_at [OF ok at]], rule ends_also [OF upd], assumption, simp, rule ends_also [OF keys], assumption,
        rule ends_also [OF ivs], assumption, rule ends_also [OF upd], assumption, simp, rule ends_also [OF upd], assumption, simp,
        rule ends_also [OF wr_config [OF ok]], assumption, simp, rule ends_also [OF wr_config [OF ok]], assumption, simp,
        rule ends_also [OF wr_config [OF ok]], assumption, simp, rule ends_also [OF upd], assumption, simp, simp only: also_ret_right, rule c,
        erule back_subst [where P = "\<lambda>w. at_state view B w _"])
      (simp only: init_regs_def reset_view_def aes_view.select_convs aes_view.update_convs)
qed

lemma aes_init_at:
  assumes ok: "aes_unit_ok bus view E D" and at: "at_state view B v s"
    and k: "length key \<in> {16, 24, 32}" "room B kp (length key)" "key = bytes_at B kp (length key)"
    and i: "4 dvd length iv" "room B ip (length iv) \<or> iv = []" "iv = bytes_at B ip (length iv)"
    and a: "room B ap a \<or> a = 0" "a < 2 ^ 32" "m \<noteq> AES_GCM \<longrightarrow> a = 0"
    and n: "work_len m n < 2 ^ 32" "m = AES_GCM \<longrightarrow> 0 < n"
  shows "ends (aes_init bus kp (length key) ip (length iv) ap m sel a n) s
    (\<lambda>_ t. \<exists>w. at_state view B w t \<and> configured key iv m sel a n w \<and> v_fed w = [] \<and> v_taken w = 0 \<and> v_tag_in w = 0 \<and>
       v_aad w = words_of_bytes 4 (pad4 (bytes_at B ap a)) \<and> aad_done w)"
proof -
  define w where "w = (reset_view 0)\<lparr>v_reg := init_regs key iv m sel a n\<rparr>"
  have conf: "configured key iv m sel a n w" using k i n a by (intro configured_init) (auto simp: w_def)
  have w0: "v_fed w = []" "v_taken w = 0" "v_tag_in w = 0" "v_aad w = []" by (simp_all add: w_def reset_view_def)
  define w' where "w' = w\<lparr>v_aad := words_of_bytes 4 (pad4 (bytes_at B ap a))\<rparr>"
  have w': "v_fed w' = []" "v_taken w' = 0" "v_tag_in w' = 0" "v_aad w' = words_of_bytes 4 (pad4 (bytes_at B ap a))"
    using w0 by (simp_all add: w'_def)
  have conf': "configured key iv m sel a n w'" using conf configured_regs [of w' w] by (simp add: w'_def)
  have "a \<le> 4 * length (words_of_bytes 4 (pad4 (bytes_at B ap a)) :: u32 list)"
  proof -
    have "a \<le> length (pad4 (bytes_at B ap a))" using a(1) by (auto simp: pad4_def length_bytes_at)
    then show ?thesis by (simp add: length_words_of_bytes)
  qed
  then have aad: "aad_done w'" using conf' w' by (simp add: aad_done_def configured_def)
  have feed: "ends (if m = AES_GCM then input_words bus Aes_aad_data ap a else ret ()) t (\<lambda>_. at_state view B w')" if "at_state view B w t" for t
  proof (cases "m = AES_GCM")
    case True
    then have "started w" "v_cipher w = 2" "v_aad_total w = a" using conf configured_started [OF conf] n by (auto simp: configured_def)
    then show ?thesis using feed_aad [OF ok that a(1)] w0 True by (simp add: w'_def)
  next
    case False
    then have "w' = w" using a(3) w0(4) by (simp add: w'_def words_of_bytes_def pad4_def bytes_at_def)
    then show ?thesis using that False by simp
  qed
  have last: "ends (if m = AES_GCM then input_words bus Aes_aad_data ap a else ret ()) t
      (\<lambda>_ t. \<exists>w. at_state view B w t \<and> configured key iv m sel a n w \<and> v_fed w = [] \<and> v_taken w = 0 \<and> v_tag_in w = 0 \<and>
       v_aad w = words_of_bytes 4 (pad4 (bytes_at B ap a)) \<and> aad_done w)" if "at_state view B w t" for t
    by (rule ends_mono [OF feed [OF that]]) (use conf' w' aad in blast)
  have "(if m = AES_ECB \<or> m = AES_CBC then padded16 n else n) = work_len m n" by (cases m) (simp_all add: work_len_def)
  then show ?thesis
    unfolding aes_init_def Let_def key_reg_def [symmetric]
    by (simp only:) (rule init_config_at [OF ok at k(2,3) i(2,3) last], simp add: w_def)
qed

end
