(* ===== verification/Aes_Process.thy ===== *)
theory Aes_Process
  imports Aes_Init
begin

unbundle bit_operations_syntax

text \<open>
  \<^verbatim>\<open>process_less_80_bytes\<close> and \<^verbatim>\<open>aes_process\<close>: text of any length goes through the unit in pieces of 80 bytes, and what is
  stored is the mode of operation applied to the whole text, also when input and output are the same
  buffer.
\<close>

section \<open>The output of the unit\<close>

lemma view_progress [simp]:
  "v_mode E D (v\<lparr>v_fed := W\<rparr>) = v_mode E D v" "v_mode E D (v\<lparr>v_taken := k\<rparr>) = v_mode E D v" "v_mode E D (v\<lparr>v_tag_in := k\<rparr>) = v_mode E D v"
  "v_total (v\<lparr>v_fed := W\<rparr>) = v_total v" "v_total (v\<lparr>v_taken := k\<rparr>) = v_total v" "v_total (v\<lparr>v_tag_in := k\<rparr>) = v_total v"
  "v_cipher (v\<lparr>v_fed := W\<rparr>) = v_cipher v" "v_cipher (v\<lparr>v_taken := k\<rparr>) = v_cipher v" "v_cipher (v\<lparr>v_tag_in := k\<rparr>) = v_cipher v"
  "started (v\<lparr>v_fed := W\<rparr>) = started v" "started (v\<lparr>v_taken := k\<rparr>) = started v" "started (v\<lparr>v_tag_in := k\<rparr>) = started v"
  "aad_done (v\<lparr>v_fed := W\<rparr>) = aad_done v" "aad_done (v\<lparr>v_taken := k\<rparr>) = aad_done v" "aad_done (v\<lparr>v_tag_in := k\<rparr>) = aad_done v"
  "v_output E D (v\<lparr>v_taken := k\<rparr>) = v_output E D v" "v_output E D (v\<lparr>v_tag_in := k\<rparr>) = v_output E D v"
  "v_tag E D (v\<lparr>v_tag_in := k\<rparr>) = v_tag E D v" "finished (v\<lparr>v_tag_in := k\<rparr>) = finished v"
  by (simp_all add: v_mode_def v_total_def v_cipher_def started_def aad_done_def v_kmode_def v_key_def v_iv_def v_aad_total_def
      v_output_def v_input_def v_tag_def finished_def fun_eq_iff cong: if_cong)

lemma length_v_key: "started v \<Longrightarrow> length (v_key v) \<in> {16, 24, 32}"
proof -
  assume "started v"
  then have "v_kmode v \<in> {0, 1, 2}" by (auto simp: started_def)
  then show ?thesis by (auto simp: v_key_def key_regs_def)
qed

lemma length_v_iv [simp]: "length (v_iv n v) = 4 * n"
  by (simp add: v_iv_def)

lemma mode_laws:
  assumes "block_cipher_ok E D" "started v" "16 dvd length xs"
  shows v_mode_length: "length (v_mode E D v xs) = length xs"
    and v_mode_prefix: "\<exists>zs. v_mode E D v (xs @ ys) = v_mode E D v xs @ zs"
proof -
  have c: "on_blocks (E (v_key v))" "on_blocks (D (v_key v))"
    using assms(1) length_v_key [OF assms(2)] by (auto simp: block_cipher_ok_def cipher_ok_def)
  show "length (v_mode E D v xs) = length xs"
    using c assms(3) ecb_mode.mode_length [OF c(1), of "replicate 16 0" xs] ecb_mode.mode_length [OF c(2), of "replicate 16 0" xs]
      cbc_encrypt_mode.mode_length [OF c(1), of "v_iv 4 v" xs] cbc_decrypt_mode.mode_length [OF c(2), of "v_iv 4 v" xs]
    by (simp add: v_mode_def Let_def gcm_crypt_def length_ctr)
  show "\<exists>zs. v_mode E D v (xs @ ys) = v_mode E D v xs @ zs"
    unfolding v_mode_def gcm_crypt_def Let_def
    using ecb_mode.mode_prefix [OF assms(3)] cbc_encrypt_mode.mode_prefix [OF assms(3)] cbc_decrypt_mode.mode_prefix [OF assms(3)]
      ctr_mode.mode_prefix [OF assms(3)] by simp
qed

lemma v_mode_take:
  assumes "block_cipher_ok E D" "started v" "16 dvd k" "k \<le> length xs"
  shows "v_mode E D v (take k xs) = take k (v_mode E D v xs)"
proof -
  have d: "16 dvd length (take k xs)" using assms(3,4) by (simp add: min_def)
  obtain zs where "v_mode E D v (take k xs @ drop k xs) = v_mode E D v (take k xs) @ zs"
    using v_mode_prefix [OF assms(1,2) d] by blast
  then show ?thesis using v_mode_length [OF assms(1,2) d] assms(4) by simp
qed

text \<open>GCM keeps the length of any text.\<close>

lemma v_mode_gcm_length:
  assumes "block_cipher_ok E D" "started v" "v_cipher v = 2"
  shows "length (v_mode E D v xs) = length xs"
proof -
  have "on_blocks (E (v_key v))" using assms(1) length_v_key [OF assms(2)] by (auto simp: block_cipher_ok_def cipher_ok_def)
  then show ?thesis using assms(3) by (simp add: v_mode_def Let_def gcm_crypt_def length_ctr)
qed

section \<open>What goes into the unit\<close>

definition work_text :: "aes_cipher_mode_t \<Rightarrow> bytes \<Rightarrow> bytes" where
  "work_text m bs = (if m = AES_GCM then bs else zero_pad16 bs)"

lemma length_zero_pad16 [simp]: "length (zero_pad16 bs) = padded16 (length bs)"
  by (auto simp: zero_pad16_def padded16_def)

lemma length_work_text [simp]: "length (work_text m bs) = work_len m (length bs)"
  by (simp add: work_text_def work_len_def)

lemma pad4_id: "4 dvd length bs \<Longrightarrow> pad4 bs = bs"
  by (auto simp: pad4_def mod_eq_0_iff_dvd [symmetric])

lemma pad4_append: "4 dvd length xs \<Longrightarrow> pad4 (xs @ ys) = xs @ pad4 ys"
proof -
  assume "4 dvd length xs"
  then obtain q where "length xs = 4 * q" by auto
  then show ?thesis by (simp add: pad4_def)
qed

lemma dvd_4_16: "16 dvd n \<Longrightarrow> 4 dvd (n :: nat)"
  by (auto simp: dvd_def)

lemma words_append: "4 dvd length xs \<Longrightarrow> words_of_bytes 4 (xs @ ys) = words_of_bytes 4 xs @ (words_of_bytes 4 ys :: u32 list)"
  by (simp add: words_of_bytes_def chunks_append)

lemma words_zeros: "words_of_bytes 4 (replicate (4 * k) 0) = (replicate k 0 :: u32 list)"
proof (induction k)
  case (Suc k)
  have "replicate (4 * Suc k) (0 :: u8) = replicate 4 0 @ replicate (4 * k) 0" by (simp only: replicate_add [symmetric] mult_Suc_right)
  moreover have "words_of_bytes 4 (replicate 4 0) = [0 :: u32]" by (simp add: words_of_bytes_def chunks_block) (simp add: numeral_eq_Suc)
  ultimately show ?case using Suc words_append [of "replicate 4 0" "replicate (4 * k) 0"] by simp
qed (simp add: words_of_bytes_def)

text \<open>The words of the text with the zero words that fill the last block.\<close>

lemma words_filled: "words_of_bytes 4 (pad4 bs) @ replicate ((padded16 (length bs) - length bs) div 4) 0 = (words_of_bytes 4 (zero_pad16 bs) :: u32 list)"
proof -
  let ?n = "length bs"
  let ?d = "padded16 ?n - ?n"
  have "?n \<le> padded16 ?n" by (simp add: padded16_def)
  then have "(?n + ?d) mod 4 = 0" using dvd_4_16 [OF padded16_dvd, of ?n] by (simp add: mod_eq_0_iff_dvd)
  then have "(?n mod 4 + ?d mod 4) mod 4 = 0" by (simp add: mod_add_eq)
  moreover have "?n mod 4 \<in> {0, 1, 2, 3}" "?d mod 4 \<in> {0, 1, 2, 3}" by auto
  ultimately have "?d mod 4 = (4 - ?n mod 4) mod 4" by (auto dest: dvd_imp_le)
  then have "?d = (4 - ?n mod 4) mod 4 + 4 * (?d div 4)" by (metis mult_div_mod_eq add.commute)
  then have "zero_pad16 bs = pad4 bs @ replicate (4 * ((padded16 ?n - ?n) div 4)) 0"
    by (simp add: zero_pad16_def pad4_def padded16_def flip: replicate_add)
  then show ?thesis by (simp add: words_append words_zeros)
qed

lemma zeros_at:
  assumes ok: "aes_unit_ok bus view E D" and at: "at_state view B v s" and v: "started v" "aad_done v" "length (v_fed v) + n \<le> v_taken v + 20"
  shows "ends (loop (\<lambda>i. also_do (wait_flag bus Data_in_flag) (wr bus Aes_text_data 0)) [0..<n]) s
    (\<lambda>_. at_state view B (v\<lparr>v_fed := v_fed v @ replicate n 0\<rparr>))"
proof (rule ends_loop [where I = "\<lambda>i. at_state view B (v\<lparr>v_fed := v_fed v @ replicate i 0\<rparr>)"])
  fix i t assume "i < n" "at_state view B (v\<lparr>v_fed := v_fed v @ replicate i 0\<rparr>) t"
  then show "ends (also_do (wait_flag bus Data_in_flag) (wr bus Aes_text_data 0)) t (\<lambda>_. at_state view B (v\<lparr>v_fed := v_fed v @ replicate (Suc i) 0\<rparr>))"
    using put_text [OF ok, of B "v\<lparr>v_fed := v_fed v @ replicate i 0\<rparr>" t 0] v by (simp add: replicate_app_Cons_same)
qed (use at in simp)

lemma input_text_at:
  assumes ok: "aes_unit_ok bus view E D" and at: "at_state view B v s" and v: "started v" "aad_done v"
    and p: "room B p n" "n \<le> 80" "length (v_fed v) = v_taken v"
  shows "ends (input_words bus Aes_text_data p n) s (\<lambda>_. at_state view B (v\<lparr>v_fed := v_fed v @ words_of_bytes 4 (pad4 (bytes_at B p n))\<rparr>))"
proof (rule input_words_at [where g = "\<lambda>ws. v\<lparr>v_fed := v_fed v @ ws\<rparr>", OF _ disjI1 [OF p(1)]])
  fix ws w t assume "length ws < (n + 3) div 4" "at_state view B (v\<lparr>v_fed := v_fed v @ ws\<rparr>) t"
  then show "ends (also_do (wait_flag bus Data_in_flag) (wr bus Aes_text_data w)) t (\<lambda>_. at_state view B (v\<lparr>v_fed := v_fed v @ ws @ [w]\<rparr>))"
    using put_text [OF ok, of B "v\<lparr>v_fed := v_fed v @ ws\<rparr>" t w] v p by simp
qed (use at in simp)

section \<open>What comes out\<close>

lemma output_fed:
  assumes c: "block_cipher_ok E D" "started v" "v_cipher v = cipher_code m" and W: "4 dvd length W"
    and tot: "4 * length W + length P \<le> v_total v" "16 dvd length P \<or> 4 * length W + length P = v_total v"
    and fed: "v_fed v = W @ words_of_bytes 4 (pad4 P)"
  shows "v_output E D v = v_mode E D v (bytes_of_words 4 W @ P)"
proof -
  define X where "X = bytes_of_words 4 W"
  have X: "length X = 4 * length W" "16 dvd length X" using W by (auto simp: X_def dvd_def)
  have b: "bytes_of_words 4 (v_fed v) = X @ pad4 P"
    unfolding fed X_def using bytes_of_words_of_bytes [of 4 "pad4 P", where 'a = 32] by (simp add: bytes_of_words_def)
  show ?thesis
  proof (cases "4 * length W + length P = v_total v")
    case True
    then have "v_input v = X @ P" unfolding v_input_def b using X by (simp add: pad4_def)
    then show ?thesis using True X by (simp add: v_output_def X_def)
  next
    case False
    then have d: "16 dvd length P" using tot(2) by blast
    then have "v_input v = X @ P" unfolding v_input_def b using X tot(1) by (simp add: pad4_id dvd_4_16)
    moreover have "full_part 16 (X @ P) = X @ P" using d X(2) by (simp add: full_part_def)
    ultimately show ?thesis by (simp add: v_output_def X_def)
  qed
qed

text \<open>Whole words are read and stored.\<close>

lemma output_words_at:
  assumes ok: "aes_unit_ok bus view E D" and at: "at_state view B (v\<lparr>v_taken := k\<rparr>) s" and v: "started v"
    and Q: "Q = drop (4 * k) (v_output E D v)" "4 * n \<le> length Q" "room B p (length Q)"
  shows "ends (loop (\<lambda>i. also_do (wait_flag bus Data_out_flag) (seq (rd bus Aes_out_data) (store32 (ptr_add p (i * 4))))) [0..<n]) s
    (\<lambda>_. at_state view (put B p (take (4 * n) Q)) (v\<lparr>v_taken := k + n\<rparr>))"
proof (rule ends_loop [where I = "\<lambda>i. at_state view (put B p (take (4 * i) Q)) (v\<lparr>v_taken := k + i\<rparr>)"])
  fix i t assume i: "i < n" and t: "at_state view (put B p (take (4 * i) Q)) (v\<lparr>v_taken := k + i\<rparr>) t"
  have l: "4 * (k + i) + 4 \<le> length (v_output E D v)" using Q i by auto
  have w: "take 4 (drop (4 * (k + i)) (v_output E D v)) = take 4 (drop (4 * i) Q)" using Q(1) by (simp add: add.commute distrib_left)
  have r: "room (put B p (take (4 * i) Q)) (ptr_add p (i * 4)) 4"
    using Q i by (subst room_put) (auto simp: room_def ptr_add_def)
  have p: "put (put B p (take (4 * i) Q)) (ptr_add p (i * 4)) (take 4 (drop (4 * i) Q)) = put B p (take (4 * Suc i) Q)"
    using put_pieces [OF Q(3), of "4 * i" 4] Q(2) i by (simp add: mult.commute add.commute)
  show "ends (also_do (wait_flag bus Data_out_flag) (seq (rd bus Aes_out_data) (store32 (ptr_add p (i * 4))))) t
      (\<lambda>_. at_state view (put B p (take (4 * Suc i) Q)) (v\<lparr>v_taken := k + Suc i\<rparr>))"
  proof (rule ends_also [OF wait_out [OF ok t]])
    fix t' assume t': "at_state view (put B p (take (4 * i) Q)) (v\<lparr>v_taken := k + i\<rparr>) t'"
    show "ends (seq (rd bus Aes_out_data) (store32 (ptr_add p (i * 4)))) t' (\<lambda>_. at_state view (put B p (take (4 * Suc i) Q)) (v\<lparr>v_taken := k + Suc i\<rparr>))"
      by (rule ends_seq [OF rd_out [OF ok t']]) (use l v w p r in \<open>auto intro!: ends_mono [OF store32_at]\<close>)
  qed (use v l in auto)
qed (use at in simp)

text \<open>The bytes of the last word.\<close>

lemma output_rest_at:
  assumes ok: "aes_unit_ok bus view E D" and at: "at_state view (put B p (take (4 * n) Q)) (v\<lparr>v_taken := k + n\<rparr>) s" and v: "started v"
    and Q: "Q = drop (4 * k) (v_output E D v)" "length Q = 4 * n + r" "0 < r" "r < 4" "room B p (length Q)"
  shows "ends (also_do (wait_flag bus Data_out_flag) (seq (rd bus Aes_out_data) (\<lambda>w.
            loop (\<lambda>j. store8 (ptr_add p (n * 4 + j)) (bytes_le 4 w ! j)) [0..<r]))) s
    (\<lambda>_. at_state view (put B p Q) (v\<lparr>v_taken := k + n + 1\<rparr>))"
proof (rule ends_also [OF wait_out [OF ok at]])
  fix t assume t: "at_state view (put B p (take (4 * n) Q)) (v\<lparr>v_taken := k + n\<rparr>) t"
  have l: "length (v_output E D v) - 4 * (k + n) = r" using Q by auto
  have d: "take 4 (drop (4 * (k + n)) (v_output E D v)) = drop (4 * n) Q" using Q by (simp add: add.commute distrib_left)
  have st: "ends (loop (\<lambda>j. store8 (ptr_add p (n * 4 + j)) (b ! j)) [0..<r]) t' (\<lambda>_. at_state view (put B p Q) u)"
    if b: "take r b = drop (4 * n) Q" and t': "at_state view (put B p (take (4 * n) Q)) u t'" for b t' u
  proof -
    have "ends (loop (\<lambda>j. store8 (ptr_add p (n * 4 + j)) (b ! j)) [0..<r]) t' (\<lambda>_. at_state view (put B p (take (4 * n + r) Q)) u)"
    proof (rule ends_loop [where I = "\<lambda>j. at_state view (put B p (take (4 * n + j) Q)) u"])
      fix j x assume j: "j < r" and x: "at_state view (put B p (take (4 * n + j) Q)) u x"
      have "take 1 (drop (4 * n + j) Q) = [b ! j]"
        using Q(2) j arg_cong [OF b, of "\<lambda>xs. xs ! j"] by (simp add: take_Suc_conv_app_nth)
      then have "put (put B p (take (4 * n + j) Q)) (ptr_add p (n * 4 + j)) [b ! j] = put B p (take (4 * n + Suc j) Q)"
        using put_pieces [OF Q(5), of "4 * n + j" 1] Q(2) j by (simp add: mult.commute)
      moreover have "room (put B p (take (4 * n + j) Q)) (ptr_add p (n * 4 + j)) 1"
        using Q j by (subst room_put) (auto simp: room_def ptr_add_def)
      ultimately show "ends (store8 (ptr_add p (n * 4 + j)) (b ! j)) x (\<lambda>_. at_state view (put B p (take (4 * n + Suc j) Q)) u)"
        using store8_at [OF x, of "ptr_add p (n * 4 + j)" "b ! j"] by simp
    qed (use t' in simp)
    then show ?thesis using Q(2) by simp
  qed
  show "ends (seq (rd bus Aes_out_data) (\<lambda>w. loop (\<lambda>j. store8 (ptr_add p (n * 4 + j)) (bytes_le 4 w ! j)) [0..<r])) t
      (\<lambda>_. at_state view (put B p Q) (v\<lparr>v_taken := k + n + 1\<rparr>))"
  proof (rule ends_seq [OF rd_out [OF ok t]])
    fix x t' assume "take (length (v_output E D (v\<lparr>v_taken := k + n\<rparr>)) - 4 * v_taken (v\<lparr>v_taken := k + n\<rparr>)) (bytes_le 4 x) =
        take 4 (drop (4 * v_taken (v\<lparr>v_taken := k + n\<rparr>)) (v_output E D (v\<lparr>v_taken := k + n\<rparr>))) \<and>
      at_state view (put B p (take (4 * n) Q)) (v\<lparr>v_taken := k + n, v_taken := v_taken (v\<lparr>v_taken := k + n\<rparr>) + 1\<rparr>) t'"
    then have "take r (bytes_le 4 x) = drop (4 * n) Q" "at_state view (put B p (take (4 * n) Q)) (v\<lparr>v_taken := k + n + 1\<rparr>) t'"
      using l d by simp_all
    then show "ends (loop (\<lambda>j. store8 (ptr_add p (n * 4 + j)) (bytes_le 4 x ! j)) [0..<r]) t' (\<lambda>_. at_state view (put B p Q) (v\<lparr>v_taken := k + n + 1\<rparr>))"
      by (rule st)
  qed (use v Q in auto)
qed (use v Q in auto)

section \<open>Pieces of 80 bytes\<close>

lemma view_words [simp]: "(v :: aes_view)\<lparr>v_taken := a, v_fed := W\<rparr> = v\<lparr>v_fed := W, v_taken := a\<rparr>"
  by (cases v) simp

lemma length_words_pad4: "length (words_of_bytes 4 (pad4 bs) :: u32 list) = length bs div 4 + (if length bs mod 4 = 0 then 0 else 1)"
proof -
  define q where "q = length bs div 4"
  have "length bs = 4 * q + length bs mod 4" by (simp add: q_def)
  moreover have "length bs mod 4 \<in> {0, 1, 2, 3}" by auto
  ultimately have "length (pad4 bs) = 4 * (length bs div 4 + (if length bs mod 4 = 0 then 0 else 1))"
    unfolding q_def [symmetric] by (auto simp: pad4_def)
  then show ?thesis by (simp add: length_words_of_bytes)
qed

text \<open>The length of what a mode gives.\<close>

lemma length_work:
  assumes "block_cipher_ok E D" "started v" "v_cipher v = cipher_code m" "16 dvd length X" "m \<noteq> AES_GCM \<longrightarrow> 16 dvd length P"
  shows "length (v_mode E D v (X @ P)) = length X + length P"
proof (cases "m = AES_GCM")
  case True
  then show ?thesis using v_mode_gcm_length [OF assms(1,2)] assms(3) by simp
next
  case False
  then have "16 dvd length (X @ P)" using assms by (simp add: dvd_add)
  from v_mode_length [OF assms(1,2) this] show ?thesis by simp
qed

text \<open>The steps of \<^verbatim>\<open>process_less_80_bytes\<close> after the text is in, in GCM and in the block modes.\<close>

lemma output_gcm_at:
  assumes ok: "aes_unit_ok bus view E D" and at: "at_state view B (v\<lparr>v_taken := k\<rparr>) s" and v: "started v"
    and Q: "Q = drop (4 * k) (v_output E D v)" "length Q = n" "room B p n"
  shows "ends (also_do
       (loop (\<lambda>i. also_do (wait_flag bus Data_out_flag) (seq (rd bus Aes_out_data) (store32 (ptr_add p (i * 4))))) [0..<n div 4])
       (if n mod 4 \<noteq> 0 then
          also_do (wait_flag bus Data_out_flag) (seq (rd bus Aes_out_data) (\<lambda>w.
            loop (\<lambda>j. store8 (ptr_add p (n div 4 * 4 + j)) (bytes_le 4 w ! j)) [0..<n mod 4]))
        else ret ())) s
    (\<lambda>_. at_state view (put B p Q) (v\<lparr>v_taken := k + n div 4 + (if n mod 4 = 0 then 0 else 1)\<rparr>))"
proof (rule ends_also [OF output_words_at [OF ok at v Q(1)]])
  fix t assume t: "at_state view (put B p (take (4 * (n div 4)) Q)) (v\<lparr>v_taken := k + n div 4\<rparr>) t"
  show "ends (if n mod 4 \<noteq> 0 then
          also_do (wait_flag bus Data_out_flag) (seq (rd bus Aes_out_data) (\<lambda>w.
            loop (\<lambda>j. store8 (ptr_add p (n div 4 * 4 + j)) (bytes_le 4 w ! j)) [0..<n mod 4]))
        else ret ()) t (\<lambda>_. at_state view (put B p Q) (v\<lparr>v_taken := k + n div 4 + (if n mod 4 = 0 then 0 else 1)\<rparr>))"
  proof (cases "n mod 4 = 0")
    case True
    then have "take (4 * (n div 4)) Q = Q" using Q(2) by auto
    then show ?thesis using t True by simp
  next
    case False
    then show ?thesis using output_rest_at [OF ok t v Q(1), of "n mod 4"] Q by simp
  qed
qed (use Q in auto)

lemma process_at:
  assumes ok: "aes_unit_ok bus view E D" "block_cipher_ok E D"
    and at: "at_state view B (v\<lparr>v_fed := W, v_taken := length W\<rparr>) s"
    and v: "started v" "aad_done v" "v_cipher v = cipher_code m" and W: "4 dvd length W"
    and n: "n \<le> 80" "room B ip n" "room B op (work_len m n)"
    and P: "P = work_text m (bytes_at B ip n)"
    and tot: "4 * length W + work_len m n \<le> v_total v" "16 dvd work_len m n \<or> 4 * length W + work_len m n = v_total v"
    and W': "W' = W @ words_of_bytes 4 (pad4 P)"
  shows "ends (process_less_80_bytes bus ip op n m) s
    (\<lambda>_. at_state view (put B op (drop (4 * length W) (v_mode E D v (bytes_of_words 4 W @ P)))) (v\<lparr>v_fed := W', v_taken := length W'\<rparr>))"
proof -
  define v' where "v' = v\<lparr>v_fed := W'\<rparr>"
  define Q where "Q = drop (4 * length W) (v_output E D v')"
  have lb: "length (bytes_at B ip n) = n" using n(2) by (rule length_bytes_at)
  have lP: "length P = work_len m n" by (simp add: P lb)
  have v': "started v'" "aad_done v'" "v_cipher v' = cipher_code m" "v_total v' = v_total v" "v_mode E D v' = v_mode E D v" "v_fed v' = W @ words_of_bytes 4 (pad4 P)"
    using v by (simp_all add: v'_def W')
  have out: "v_output E D v' = v_mode E D v (bytes_of_words 4 W @ P)"
    using output_fed [OF ok(2) v'(1,3) W, of P] tot v' lP by simp
  have "length (v_mode E D v (bytes_of_words 4 W @ P)) = 4 * length W + work_len m n"
    using length_work [OF ok(2) v(1,3), of "bytes_of_words 4 W" P] W lP by (auto simp: work_len_def)
  then have Q: "length Q = work_len m n" by (simp add: Q_def out)
  have in1: "ends (input_words bus Aes_text_data ip n) s
      (\<lambda>_. at_state view B (v\<lparr>v_fed := W @ words_of_bytes 4 (pad4 (bytes_at B ip n)), v_taken := length W\<rparr>))"
    by (rule ends_mono [OF input_text_at [OF ok(1) at _ _ n(2,1)]]) (use v in simp_all)
  have fin: "k = length W' \<Longrightarrow> v'\<lparr>v_taken := k\<rparr> = v\<lparr>v_fed := W', v_taken := length W'\<rparr>" for k by (simp add: v'_def)
  show ?thesis
  proof (cases "m = AES_GCM")
    case True
    have WP: "v\<lparr>v_fed := W @ words_of_bytes 4 (pad4 (bytes_at B ip n)), v_taken := length W\<rparr> = v'\<lparr>v_taken := length W\<rparr>"
      using True by (simp add: W' P work_text_def v'_def)
    have l: "length W' = length W + n div 4 + (if n mod 4 = 0 then 0 else 1)"
      using length_words_pad4 [of P] lP True by (simp add: W' work_len_def)
    show ?thesis
      unfolding process_less_80_bytes_def Let_def out [symmetric] Q_def [symmetric] fin [OF l [symmetric], symmetric]
      using ends_also [OF in1 [unfolded WP] output_gcm_at [where n = n and p = op and B = B, OF ok(1) _ v'(1) Q_def]] Q n True
      by (cases "n mod 4 = 0") (simp_all add: work_len_def)
  next
    case False
    define z where "z = (padded16 n - n) div 4"
    have m: "m = AES_ECB \<or> m = AES_CBC" using False by (cases m) auto
    have WP: "W @ words_of_bytes 4 (pad4 (bytes_at B ip n)) @ replicate z 0 = W'"
      using words_filled [of "bytes_at B ip n"] lb False pad4_id [of P] lP by (simp add: z_def W' P work_text_def work_len_def dvd_4_16)
    have l: "length W' = length W + padded16 n div 4" using False lP pad4_id [of P] by (simp add: W' length_words_of_bytes work_len_def dvd_4_16)
    have le: "padded16 n \<le> 80" using n(1) by (simp add: padded16_def)
    have zl: "length (W @ words_of_bytes 4 (pad4 (bytes_at B ip n)) :: u32 list) + z \<le> length W + 20" using arg_cong [OF WP, of length] l le by simp
    have z0: "ends (loop (\<lambda>i. also_do (wait_flag bus Data_in_flag) (wr bus Aes_text_data 0)) [0..<z]) t (\<lambda>_. at_state view B (v'\<lparr>v_taken := length W\<rparr>))"
      if "at_state view B (v\<lparr>v_fed := W @ words_of_bytes 4 (pad4 (bytes_at B ip n)), v_taken := length W\<rparr>) t" for t
      by (rule ends_mono [OF zeros_at [OF ok(1) that]]) (use v zl WP in \<open>simp_all add: v'_def\<close>)
    have d: "4 * (padded16 n div 4) = padded16 n" using dvd_4_16 [OF padded16_dvd, of n] by simp
    have o0: "ends (loop (\<lambda>i. also_do (wait_flag bus Data_out_flag) (seq (rd bus Aes_out_data) (store32 (ptr_add op (i * 4))))) [0..<padded16 n div 4]) t
        (\<lambda>_. at_state view (put B op Q) (v\<lparr>v_fed := W', v_taken := length W'\<rparr>))"
      if "at_state view B (v'\<lparr>v_taken := length W\<rparr>) t" for t
      by (rule ends_mono [OF output_words_at [OF ok(1) that v'(1) Q_def]]) (use Q n False d fin [OF l [symmetric]] in \<open>simp_all add: work_len_def\<close>)
    show ?thesis
      unfolding process_less_80_bytes_def Let_def z_def [symmetric] out [symmetric] Q_def [symmetric]
      using m by (auto intro!: ends_also [OF in1] ends_also [OF z0] o0)
  qed
qed

section \<open>Text of any length\<close>

text \<open>The input is another block than the output, or the same buffer.\<close>

definition apart :: "ptr \<Rightarrow> ptr \<Rightarrow> bool" where
  "apart p q = (fst p \<noteq> fst q \<or> p = q)"

lemma bytes_at_ahead:
  assumes "apart ip op" "room B op (length bs)" "length bs \<le> k"
  shows "bytes_at (put B op bs) (ptr_add ip k) n = bytes_at B (ptr_add ip k) n"
  using assms bytes_at_put_behind [OF assms(2,3)] bytes_at_put_other [of "ptr_add ip k" op] by (auto simp: apart_def)

lemma work_take: "16 dvd k \<Longrightarrow> k \<le> length bs \<Longrightarrow> work_text m (take k bs) = take k bs"
  by (simp add: work_text_def zero_pad16_def) (auto simp: dvd_def)

lemma take_work: "k \<le> length bs \<Longrightarrow> take k (work_text m bs) = take k bs"
  by (simp add: work_text_def zero_pad16_def)

lemma work_split:
  assumes "16 dvd k" "k \<le> length bs"
  shows "work_text m bs = take k bs @ work_text m (drop k bs)" and "work_len m (length bs) = k + work_len m (length bs - k)"
proof -
  obtain j where j: "k = 16 * j" using assms(1) by auto
  have "padded16 (length bs) = k + padded16 (length bs - k)"
  proof -
    have "length bs + 15 = (length bs - k + 15) + 16 * j" using assms(2) j by simp
    then have "(length bs + 15) div 16 = (length bs - k + 15) div 16 + j" by (metis div_mult_self2 add.commute zero_neq_numeral)
    then show ?thesis by (simp add: padded16_def j)
  qed
  moreover from this show "work_len m (length bs) = k + work_len m (length bs - k)" using assms by (simp add: work_len_def)
  ultimately show "work_text m bs = take k bs @ work_text m (drop k bs)"
    using assms by (simp add: work_text_def zero_pad16_def padded16_def add.commute)
qed

text \<open>One piece, which is 80 bytes long or the last one.\<close>

lemma piece_at:
  assumes ok: "aes_unit_ok bus view E D" "block_cipher_ok E D"
    and v: "started v" "aad_done v" "v_cipher v = cipher_code m" "v_total v = work_len m n"
    and n: "room B ip n" "room B op (work_len m n)" "apart ip op"
    and T: "data = bytes_at B ip n" "out = v_mode E D v (work_text m data)"
    and k: "16 dvd k" "k + c \<le> n" "c \<le> 80" "c = 80 \<or> k + c = n"
    and Wk: "Wk = words_of_bytes 4 (take k data)" "W = words_of_bytes 4 (pad4 (work_text m (take (k + c) data)))"
    and at: "at_state view (put B op (take k out)) (v\<lparr>v_fed := Wk, v_taken := length Wk\<rparr>) t"
  shows "ends (process_less_80_bytes bus (ptr_add ip k) (ptr_add op k) c m) t
    (\<lambda>_. at_state view (put B op (take (k + work_len m c) out)) (v\<lparr>v_fed := W, v_taken := length W\<rparr>))"
proof -
  let ?B = "put B op (take k out)"
  have ld: "length data = n" using n(1) by (simp add: T length_bytes_at)
  have lo: "length out = work_len m n"
    using length_work [OF ok(2) v(1,3), of "[]" "work_text m data"] ld by (simp add: T work_len_def)
  have wl: "work_len m n = k + work_len m (n - k)" "c \<le> work_len m c" "work_len m c \<le> work_len m (n - k)"
    using work_split(2) [of k data m] k ld by (auto simp: work_len_def padded16_def intro!: div_le_mono mult_le_mono)
  have lk: "length Wk * 4 = k" using k ld by (simp add: Wk length_words_of_bytes dvd_4_16)
  then have W4: "4 dvd length Wk" using k(1) by (auto simp: dvd_def)
  have bW: "bytes_of_words 4 Wk = take k data" using k ld by (simp add: Wk bytes_of_words_of_bytes dvd_4_16)
  have rk: "room B op (length (take k out))" using n(2) wl by (auto simp: room_def lo)
  have "bytes_at ?B (ptr_add ip k) c = bytes_at B (ptr_add ip k) c"
    using n(3) rk by (rule bytes_at_ahead) simp
  then have ch: "bytes_at ?B (ptr_add ip k) c = take c (drop k data)" using bytes_at_add [of k c n B ip] k by (simp add: T)
  have PP: "take k data @ work_text m (take c (drop k data)) = work_text m (take (k + c) data)"
    using work_split(1) [of k "take (k + c) data" m] k ld by (simp add: min_def take_drop add.commute)
  have whole: "c = 80 \<Longrightarrow> work_text m (take (k + c) data) = take (k + c) data" using k ld by (intro work_take) (auto simp: dvd_add)
  have c80: "c = 80 \<Longrightarrow> work_len m c = 80" by (simp add: work_len_def padded16_def)
  have mode: "v_mode E D v (work_text m (take (k + c) data)) = take (k + work_len m c) out"
  proof (cases "k + c = n")
    case True
    then have "work_len m c = work_len m (n - k)" by (metis add_diff_cancel_left')
    then show ?thesis using True ld lo wl by (simp add: T)
  next
    case False
    then have c: "c = 80" using k(4) by simp
    then have "v_mode E D v (take (k + c) (work_text m data)) = take (k + c) out"
      unfolding T(2) using k ld wl by (intro v_mode_take [OF ok(2) v(1)]) (auto simp: dvd_add)
    then show ?thesis using c c80 whole k ld by (simp add: take_work)
  qed
  have r1: "room ?B (ptr_add ip k) c" "room ?B (ptr_add op k) (work_len m c)"
    using n wl k rk by (simp_all add: room_put) (auto intro: room_add)
  have tot: "4 * length Wk + work_len m c \<le> v_total v" "16 dvd work_len m c \<or> 4 * length Wk + work_len m c = v_total v"
  proof -
    show "4 * length Wk + work_len m c \<le> v_total v" using lk wl v(4) by simp
    show "16 dvd work_len m c \<or> 4 * length Wk + work_len m c = v_total v"
      using k(4) c80 lk wl(1) v(4) by auto
  qed
  have pr: "ends (process_less_80_bytes bus (ptr_add ip k) (ptr_add op k) c m) t
      (\<lambda>_. at_state view (put ?B (ptr_add op k) (drop (4 * length Wk) (v_mode E D v (bytes_of_words 4 Wk @ work_text m (take c (drop k data))))))
        (v\<lparr>v_fed := W, v_taken := length W\<rparr>))"
  proof (rule process_at [OF ok at v(1,2,3) W4 k(3) r1 _ tot])
    show "work_text m (take c (drop k data)) = work_text m (bytes_at ?B (ptr_add ip k) c)" by (simp add: ch)
    have "pad4 (work_text m (take (k + c) data)) = take k data @ pad4 (work_text m (take c (drop k data)))"
      unfolding PP [symmetric] using k ld by (intro pad4_append) (simp add: dvd_4_16)
    then show "W = Wk @ words_of_bytes 4 (pad4 (work_text m (take c (drop k data))))"
      using k ld by (simp add: Wk words_append dvd_4_16)
  qed
  have "put ?B (ptr_add op k) (take (work_len m c) (drop k out)) = put B op (take (k + work_len m c) out)"
    using n(2) wl lo by (intro put_pieces) auto
  moreover have "drop (4 * length Wk) (take (k + work_len m c) out) = take (work_len m c) (drop k out)"
    using lk by (simp add: take_drop mult.commute add.commute)
  ultimately show ?thesis using pr unfolding bW PP mode by simp
qed

lemma aes_process_at:
  assumes ok: "aes_unit_ok bus view E D" "block_cipher_ok E D"
    and at: "at_state view B (v\<lparr>v_fed := [], v_taken := 0\<rparr>) s"
    and v: "started v" "aad_done v" "v_cipher v = cipher_code m" "v_total v = work_len m n"
    and n: "room B ip n" "room B op (work_len m n)" "apart ip op"
    and T: "T = work_text m (bytes_at B ip n)" "W = words_of_bytes 4 (pad4 T)"
  shows "ends (aes_process bus ip op n m) s (\<lambda>_. at_state view (put B op (v_mode E D v T)) (v\<lparr>v_fed := W, v_taken := length W\<rparr>))"
proof -
  define data where "data = bytes_at B ip n"
  define out where "out = v_mode E D v (work_text m data)"
  have ld: "length data = n" using n(1) by (simp add: data_def length_bytes_at)
  have lo: "length out = work_len m n"
    using length_work [OF ok(2) v(1,3), of "[]" "work_text m data"] ld by (simp add: out_def work_len_def)
  note piece = piece_at [OF ok v n data_def out_def]
  define I where "I = (\<lambda>i. at_state view (put B op (take (i * 80) out))
    (v\<lparr>v_fed := words_of_bytes 4 (take (i * 80) data), v_taken := length (words_of_bytes 4 (take (i * 80) data) :: u32 list)\<rparr>))"
  have loop: "ends (loop (\<lambda>i. process_less_80_bytes bus (ptr_add ip (i * 80)) (ptr_add op (i * 80)) 80 m) [0..<n div 80]) s (\<lambda>_. I (n div 80))"
  proof (rule ends_loop)
    fix i t assume i: "i < n div 80" and t: "I i t"
    have le: "i * 80 + 80 \<le> n" using i by linarith
    have "work_text m (take (i * 80 + 80) data) = take (i * 80 + 80) data" using le ld by (intro work_take) (auto simp: dvd_add)
    moreover have "pad4 (take (i * 80 + 80) data) = take (i * 80 + 80) data" using le ld by (intro pad4_id) (auto simp: dvd_add)
    moreover have "work_len m 80 = 80" by (simp add: work_len_def padded16_def)
    ultimately show "ends (process_less_80_bytes bus (ptr_add ip (i * 80)) (ptr_add op (i * 80)) 80 m) t (\<lambda>_. I (Suc i))"
      using piece [of "i * 80" 80, OF _ le _ _ refl refl] t by (simp add: I_def add.commute)
  qed (use at in \<open>simp add: I_def words_of_bytes_def\<close>)
  show ?thesis
  proof (cases "n mod 80 = 0")
    case True
    then have n80: "n div 80 * 80 = n" by auto
    have "work_text m data = data" using True ld work_take [of n data m] by (auto simp: mod_eq_0_iff_dvd intro: dvd_trans [of 16 80])
    moreover have "pad4 data = data" using True ld by (intro pad4_id) (auto simp: mod_eq_0_iff_dvd intro: dvd_trans [of 4 80])
    moreover have "work_len m n = n" using True lo calculation(1) ld by (metis length_work_text)
    ultimately show ?thesis
      using loop n80 True ld lo unfolding aes_process_def by (simp add: I_def T data_def [symmetric] out_def)
  next
    case False
    have k: "16 dvd n div 80 * 80" "n div 80 * 80 + n mod 80 \<le> n" "n mod 80 \<le> 80" "n div 80 * 80 + n mod 80 = n"
      by (auto intro: dvd_mult less_imp_le)
    have "work_len m n = n div 80 * 80 + work_len m (n mod 80)"
      using work_split(2) [OF k(1), of data m] ld k(4) by (metis add_diff_cancel_left' k(2) add_leD1)
    then show ?thesis
      using ends_also [OF loop piece [OF k(1,2,3) disjI2 [OF k(4)] refl refl]] False lo ld k(4) unfolding aes_process_def
      by (simp add: I_def T data_def [symmetric] out_def [symmetric] Let_def)
  qed
qed

end
