(* ===== verification/Aes_Correct.thy ===== *)
theory Aes_Correct
  imports Aes_Process
begin

unbundle bit_operations_syntax

text \<open>
  The functions of the driver as a caller sees them: what is stored in the output buffer is ECB, CBC or GCM of the
  standards, and in GCM the 16 bytes of the tag go to the tag buffer, or past its end when the buffer is shorter.
\<close>

definition mode_fun :: "block_cipher \<Rightarrow> block_cipher \<Rightarrow> aes_cipher_mode_t \<Rightarrow> aes_encrypt_sel_t \<Rightarrow> bytes \<Rightarrow> bytes \<Rightarrow> bytes \<Rightarrow> bytes" where
  "mode_fun E D m sel key iv =
     (case m of
        AES_ECB \<Rightarrow> ecb (if sel = AES_HARD_DECRYPTION then D key else E key)
      | AES_CBC \<Rightarrow> (if sel = AES_HARD_DECRYPTION then cbc_decrypt (D key) iv else cbc_encrypt (E key) iv)
      | AES_GCM \<Rightarrow> gcm_crypt (E key) iv)"

definition iv_size :: "aes_cipher_mode_t \<Rightarrow> nat" where
  "iv_size m = (case m of AES_ECB \<Rightarrow> 0 | AES_CBC \<Rightarrow> 16 | AES_GCM \<Rightarrow> 12)"

lemma configured_mode: "configured key iv m sel a n w \<Longrightarrow> length iv = iv_size m \<Longrightarrow> v_mode E D w = mode_fun E D m sel key iv"
  by (cases m; cases sel) (auto simp: configured_def mode_fun_def v_mode_def iv_size_def Let_def)

section \<open>A text through the unit\<close>

definition crypt :: "'d aes_bus \<Rightarrow> ptr \<Rightarrow> nat \<Rightarrow> ptr \<Rightarrow> nat \<Rightarrow> ptr \<Rightarrow> aes_cipher_mode_t \<Rightarrow> aes_encrypt_sel_t \<Rightarrow> nat \<Rightarrow> nat \<Rightarrow> ptr \<Rightarrow> ptr \<Rightarrow> nat \<Rightarrow> ('d, unit) code" where
  "crypt bus kp kl ip il ap m sel a n inp outp n' =
     also_do (aes_init bus kp kl ip il ap m sel a n) (aes_process bus inp outp n' m)"

lemma crypt_at:
  assumes ok: "aes_unit_ok bus view E D" "block_cipher_ok E D" and at: "at_state view B v s"
    and k: "length key \<in> {16, 24, 32}" "room B kp (length key)" "key = bytes_at B kp (length key)"
    and i: "length iv = iv_size m" "room B ip (length iv) \<or> iv = []" "iv = bytes_at B ip (length iv)"
    and a: "room B ap a \<or> a = 0" "a < 2 ^ 32" "m \<noteq> AES_GCM \<longrightarrow> a = 0"
    and n: "0 < n" "work_len m n < 2 ^ 32" "work_len m n' = work_len m n"
    and p: "room B inp n'" "room B outp (work_len m n')" "apart inp outp"
    and T: "T = work_text m (bytes_at B inp n')"
  shows "ends (crypt bus kp (length key) ip (length iv) ap m sel a n inp outp n') s
    (\<lambda>_ t. \<exists>w. at_state view (put B outp (mode_fun E D m sel key iv T)) w t \<and> configured key iv m sel a n w \<and> started w \<and> aad_done w \<and>
       v_tag_in w = 0 \<and> v_aad w = words_of_bytes 4 (pad4 (bytes_at B ap a)) \<and>
       v_fed w = words_of_bytes 4 (pad4 T) \<and> v_taken w = length (v_fed w))"
  unfolding crypt_def
proof (rule ends_also [OF aes_init_at [OF ok(1) at k _ i(2,3) a n(2)]])
  show "4 dvd length iv" using i(1) by (cases m) (simp_all add: iv_size_def)
  show "m = AES_GCM \<longrightarrow> 0 < n" using n by simp
  fix t assume "\<exists>w. at_state view B w t \<and> configured key iv m sel a n w \<and> v_fed w = [] \<and> v_taken w = 0 \<and> v_tag_in w = 0 \<and>
       v_aad w = words_of_bytes 4 (pad4 (bytes_at B ap a)) \<and> aad_done w"
  then obtain w where w: "at_state view B w t" "configured key iv m sel a n w" "v_fed w = []" "v_taken w = 0" "v_tag_in w = 0"
       "v_aad w = words_of_bytes 4 (pad4 (bytes_at B ap a))" "aad_done w" by blast
  have w0: "w\<lparr>v_fed := [], v_taken := 0\<rparr> = w" using w(3,4) by (cases w) simp
  have st: "started w" using configured_started [OF w(2)] n by simp
  have c: "v_cipher w = cipher_code m" "v_total w = work_len m n'" using w(2) n by (simp_all add: configured_def)
  define w' where "w' = w\<lparr>v_fed := words_of_bytes 4 (pad4 T), v_taken := length (words_of_bytes 4 (pad4 T) :: u32 list)\<rparr>"
  have "ends (aes_process bus inp outp n' m) t (\<lambda>_. at_state view (put B outp (v_mode E D w T)) w')"
    unfolding w'_def using w(1) w0 by (intro aes_process_at [OF ok _ st w(7) c p T refl]) simp
  moreover have "configured key iv m sel a n w'" using w(2) configured_regs [of w' w] by (simp add: w'_def)
  ultimately show "ends (aes_process bus inp outp n' m) t
    (\<lambda>_ t. \<exists>w. at_state view (put B outp (mode_fun E D m sel key iv T)) w t \<and> configured key iv m sel a n w \<and> started w \<and> aad_done w \<and>
       v_tag_in w = 0 \<and> v_aad w = words_of_bytes 4 (pad4 (bytes_at B ap a)) \<and>
       v_fed w = words_of_bytes 4 (pad4 T) \<and> v_taken w = length (v_fed w))"
    using w st configured_mode [OF w(2) i(1)] by (auto elim!: ends_mono intro!: exI [of _ w'] simp: w'_def)
qed

text \<open>No text: the unit is configured, and nothing else happens.\<close>

lemma crypt_empty_at:
  assumes ok: "aes_unit_ok bus view E D" and at: "at_state view B v s"
    and k: "length key \<in> {16, 24, 32}" "room B kp (length key)" "key = bytes_at B kp (length key)"
    and i: "length iv = iv_size m" "room B ip (length iv) \<or> iv = []" "iv = bytes_at B ip (length iv)" and m: "m \<noteq> AES_GCM"
  shows "ends (crypt bus kp (length key) ip (length iv) ap m sel 0 0 inp outp 0) s (\<lambda>_ t. \<exists>w. at_state view B w t)"
  unfolding crypt_def
proof (rule ends_also [OF aes_init_at [OF ok at k _ i(2,3)]])
  show "4 dvd length iv" using i(1) by (cases m) (simp_all add: iv_size_def)
  show "work_len m 0 < 2 ^ 32" by (simp add: work_len_def padded16_def)
qed (use m in \<open>auto simp: aes_process_def\<close>)

lemmas hard_defs = aes_ecb128_hard_decrypt_def aes_ecb128_hard_encrypt_def aes_ecb192_hard_decrypt_def aes_ecb192_hard_encrypt_def
  aes_ecb256_hard_decrypt_def aes_ecb256_hard_encrypt_def aes_cbc128_hard_decrypt_def aes_cbc128_hard_encrypt_def
  aes_cbc192_hard_decrypt_def aes_cbc192_hard_encrypt_def aes_cbc256_hard_decrypt_def aes_cbc256_hard_encrypt_def
  aes_gcm128_hard_decrypt_def aes_gcm128_hard_encrypt_def aes_gcm192_hard_decrypt_def aes_gcm192_hard_encrypt_def
  aes_gcm256_hard_decrypt_def aes_gcm256_hard_encrypt_def

section \<open>The tag\<close>

lemma tag_word_bytes: "[ucast (drop_bit 24 w AND 0xff), ucast (drop_bit 16 w AND 0xff), ucast (drop_bit 8 w AND 0xff), ucast (w AND 0xff)] = bytes_be 4 (w :: u32)"
  (is "?l = _")
proof -
  have e: "(ucast (x AND 0xff) :: u8) = ucast x" for x :: u32
  proof (rule bit_word_eqI)
    fix n assume "n < LENGTH(8)"
    then have "n < 8" by simp
    then have "bit (0xff :: u32) n" by (auto simp: bit_numeral_rec numeral_eq_Suc less_Suc_eq)
    then show "bit (ucast (x AND 0xff) :: u8) n = bit (ucast x :: u8) n" by (simp add: bit_simps)
  qed
  show ?thesis unfolding e by (simp add: bytes_be_def bytes_le_def upt_rec)
qed

lemma store_tag_word_at:
  assumes at: "at_state view B v s" and p: "room B p 4"
  shows "ends (store_tag_word p w) s (\<lambda>_. at_state view (put B p (bytes_be 4 w)) v)"
proof -
  have st: "ends (store8 (ptr_add p (length xs)) b) t (\<lambda>_. at_state view (put B p (xs @ [b])) v)"
    if "at_state view (put B p xs) v t" "length xs < 4" for xs b t
  proof -
    have "room B p (length xs + length [b])" using p that(2) by (simp add: room_def)
    from put_put [OF this] have "put (put B p xs) (ptr_add p (length xs)) [b] = put B p (xs @ [b])" .
    moreover have "room (put B p xs) (ptr_add p (length xs)) 1" using p that(2) by (subst room_put) (auto simp: room_def ptr_add_def)
    ultimately show ?thesis using store8_at [OF that(1), of "ptr_add p (length xs)" b] by simp
  qed
  have s1: "at_state view (put B p [x]) v t \<Longrightarrow> ends (store8 (ptr_add p 1) b) t (\<lambda>_. at_state view (put B p [x, b]) v)" for x b t
    using st [of "[x]"] by simp
  have s2: "at_state view (put B p [x, y]) v t \<Longrightarrow> ends (store8 (ptr_add p 2) b) t (\<lambda>_. at_state view (put B p [x, y, b]) v)" for x y b t
    using st [of "[x, y]"] by (simp add: numeral_2_eq_2)
  have s3: "at_state view (put B p [x, y, z]) v t \<Longrightarrow> ends (store8 (ptr_add p 3) b) t (\<lambda>_. at_state view (put B p [x, y, z, b]) v)" for x y z b t
    using st [of "[x, y, z]"] by (simp add: numeral_3_eq_3)
  show ?thesis
    unfolding store_tag_word_def tag_word_bytes [symmetric] steps.simps ptr_add_0
    by (rule ends_also [OF st [of "[]", simplified, OF at]], rule ends_also [OF s1], assumption, rule ends_also [OF s2], assumption,
        rule ends_also [OF s3], assumption) simp
qed

lemma length_v_tag: "block_cipher_ok E D \<Longrightarrow> started v \<Longrightarrow> length (v_tag E D v) = 16"
proof -
  assume "block_cipher_ok E D" "started v"
  then have "on_blocks (E (v_key v))" using length_v_key [of v] by (auto simp: block_cipher_ok_def cipher_ok_def)
  then show ?thesis by (simp add: v_tag_def gcm_tag_of_def Let_def on_blocks_def)
qed

text \<open>Word \<open>3 - j\<close> of the tag is stored at offset \<open>4 j\<close>.\<close>

lemma tag_piece_at:
  assumes ok: "aes_unit_ok bus view E D" "block_cipher_ok E D" and v: "finished v" and T: "T = v_tag E D v"
    and at: "at_state view (put B p (take (4 * j) T)) v s" and p: "room B p (4 * j + 4)" "j < 4"
  shows "ends (seq (rd bus (Gcm_out_tag (3 - j))) (store_tag_word (ptr_add p (4 * j)))) s (\<lambda>_. at_state view (put B p (take (4 * j + 4) T)) v)"
proof (rule ends_seq [OF rd_out_tag [OF ok(1) at v]])
  have lT: "length T = 16" using v by (simp add: T length_v_tag [OF ok(2)] finished_def)
  fix x :: u32 and t assume x: "x = word_be (take 4 (drop (4 * (3 - (3 - j))) (v_tag E D v))) \<and> at_state view (put B p (take (4 * j) T)) v t"
  have r: "room (put B p (take (4 * j) T)) (ptr_add p (4 * j)) 4"
    using p lT by (subst room_put) (auto simp: room_def ptr_add_def)
  have "bytes_be 4 x = take 4 (drop (4 * j) T)" using x p(2) lT by (simp add: T) (rule bytes_be_word_be, simp_all)
  moreover have "put (put B p (take (4 * j) T)) (ptr_add p (4 * j)) (take 4 (drop (4 * j) T)) = put B p (take (4 * j + 4) T)"
  proof -
    have "room B p (length (take (4 * j) T) + length (take 4 (drop (4 * j) T)))" using p lT by (auto simp: room_def)
    from put_put [OF this] show ?thesis using p(2) lT by (simp add: take_add)
  qed
  ultimately show "ends (store_tag_word (ptr_add p (4 * j)) x) t (\<lambda>_. at_state view (put B p (take (4 * j + 4) T)) v)"
    using store_tag_word_at [OF conjunct2 [OF x] r, of x] by simp
qed (use p in simp)

lemma check_tag_at:
  assumes ok: "aes_unit_ok bus view E D" and at: "at_state view B v s" and v: "finished v" "v_tag_in v = 0" and p: "room B p 16"
  shows "ends (gcm_check_tag bus p) s (\<lambda>_. at_state view B v)"
proof -
  have wr1: "ends (seq (load32 (ptr_add p k)) (wr bus (Gcm_in_tag i))) t (\<lambda>_. at_state view B (v\<lparr>v_tag_in := Suc j\<rparr>))"
    if "k + 4 \<le> 16" "at_state view B (v\<lparr>v_tag_in := j\<rparr>) t" for k i j t
    by (rule ends_seq [OF load32_at [OF that(2) room_add [OF p that(1)]]]) (use wr_in_tag [OF ok, of B "v\<lparr>v_tag_in := j\<rparr>"] v in auto)
  have v0: "v\<lparr>v_tag_in := 0\<rparr> = v" using v(2) by (cases v) simp
  have clear: "ends (also_do (wr bus Tag_clear 0) (ret y)) t (\<lambda>_. at_state view B v)" if "at_state view B (v\<lparr>v_tag_in := 4\<rparr>) t" for y t
    by (rule ends_also [OF wr_tag_clear [OF ok that]]) (simp add: v0)
  have "ends (gcm_write_tag bus p) t (\<lambda>_. at_state view B (v\<lparr>v_tag_in := 4\<rparr>))" if "at_state view B v t" for t
    unfolding gcm_write_tag_def steps.simps
    by (rule ends_also [OF wr1 [of _ 0]], simp, simp add: that v0, rule ends_also [OF wr1], simp, assumption, rule ends_also [OF wr1], simp, assumption,
        rule ends_also [OF wr1], simp, assumption) (simp add: numeral_eq_Suc)
  then show ?thesis
    unfolding gcm_check_tag_def
    by (rule ends_also [OF wait_tag_in [OF ok at v(1)], OF ends_also]) (auto intro!: ends_also [OF wait_tag_chk [OF ok]] ends_seq [OF rd_tag_chk [OF ok]] clear simp: v)
qed

lemma gcm_get_tag_at:
  assumes ok: "aes_unit_ok bus view E D" "block_cipher_ok E D" and at: "at_state view B v s" and v: "finished v" "v_tag_in v = 0" and p: "room B p 16"
  shows "ends (gcm_get_tag bus p) s (\<lambda>_. at_state view (put B p (v_tag E D v)) v)"
proof -
  define T where "T = v_tag E D v"
  have lT: "length T = 16" using v by (simp add: T_def length_v_tag [OF ok(2)] finished_def)
  note piece = tag_piece_at [OF ok v(1) T_def]
  have t0: "at_state view (put B p (take (4 * 0) T)) v s" using at by simp
  have r: "j < 4 \<Longrightarrow> room B p (4 * j + 4)" for j using p by (auto simp: room_def)
  have fin: "ends (seq (gcm_check_tag bus p) (\<lambda>_. ret ())) t (\<lambda>_. at_state view (put B p T) v)" if "at_state view (put B p T) v t" for t
    by (rule ends_seq [OF check_tag_at [OF ok(1) that v]]) (use p lT in auto)
  have p0: "ends (seq (rd bus (Gcm_out_tag 3)) (store_tag_word p)) s (\<lambda>_. at_state view (put B p (take 4 T)) v)"
    using piece [OF t0 r] by simp
  have p1: "ends (seq (rd bus (Gcm_out_tag 2)) (store_tag_word (ptr_add p 4))) t (\<lambda>_. at_state view (put B p (take 8 T)) v)"
    if "at_state view (put B p (take 4 T)) v t" for t using piece [of B p 1 t] that r [of 1] by simp
  have p2: "ends (seq (rd bus (Gcm_out_tag 1)) (store_tag_word (ptr_add p 8))) t (\<lambda>_. at_state view (put B p (take 12 T)) v)"
    if "at_state view (put B p (take 8 T)) v t" for t using piece [of B p 2 t] that r [of 2] by simp
  have p3: "ends (seq (rd bus (Gcm_out_tag 0)) (store_tag_word (ptr_add p 12))) t (\<lambda>_. at_state view (put B p T) v)"
    if "at_state view (put B p (take 12 T)) v t" for t using piece [of B p 3 t] that r [of 3] lT by simp
  show ?thesis
    unfolding gcm_get_tag_def steps.simps T_def [symmetric] also_ret_right ptr_add_0
    by (rule ends_also [OF p0 ends_also [OF p1 ends_also [OF p2 ends_also [OF p3 fin]]]])
qed

text \<open>A buffer of four bytes: the second word goes past its end.\<close>

lemma gcm_get_tag_short:
  assumes ok: "aes_unit_ok bus view E D" "block_cipher_ok E D" and at: "at_state view B v s" and v: "finished v"
    and p: "room B p 4" "length (B (fst p)) = snd p + 4"
  shows "gcm_get_tag bus p s = Some (Inl Heap_overrun)"
proof -
  define T where "T = v_tag E D v"
  have lT: "length T = 16" using v by (simp add: T_def length_v_tag [OF ok(2)] finished_def)
  have p0: "ends (seq (rd bus (Gcm_out_tag 3)) (store_tag_word p)) s (\<lambda>_. at_state view (put B p (take 4 T)) v)"
    using tag_piece_at [OF ok v T_def, of B p 0 s] at p by simp
  have "also_do (seq (rd bus (Gcm_out_tag 2)) (store_tag_word (ptr_add p 4))) c t = Some (Inl Heap_overrun)"
    if t: "at_state view (put B p (take 4 T)) v t" for t and c :: "('a, unit) code"
  proof -
    have rd: "ends (rd bus (Gcm_out_tag 2)) t (\<lambda>_. at_state view (put B p (take 4 T)) v)"
      by (rule ends_mono [OF rd_out_tag [OF ok(1) t v]]) auto
    have "store8 (ptr_add p 4) b u = Some (Inl Heap_overrun)" if "at_state view (put B p (take 4 T)) v u" for b u
      using that p lT by (simp add: store8_def store_def in_block_def at_state_def put_def ptr_add_def)
    then show ?thesis
      using rd by (auto simp: ends_def also_do_def seq_def store_tag_word_def)
  qed
  then show ?thesis
    unfolding gcm_get_tag_def steps.simps ptr_add_0 by (intro fails_also [OF p0])
qed

end
