(* ===== verification/Ucryptolib_Correct.thy ===== *)
theory Ucryptolib_Correct
  imports Ucryptolib Aes_Correct
begin

unbundle bit_operations_syntax

text \<open>
  What the class \<^verbatim>\<open>aes\<close> computes on a unit that behaves as documented: ECB and CBC through the driver, and the counter mode that
  the module builds itself from single blocks.
\<close>

section \<open>The driver's functions by key length\<close>

definition key_code :: "nat \<Rightarrow> u8" where
  "key_code n = (if n = 32 then AES_KEYLEN_256 else if n = 24 then AES_KEYLEN_192 else AES_KEYLEN_128)"

lemmas keylen_defs = AES_KEYLEN_128_def AES_KEYLEN_192_def AES_KEYLEN_256_def AES_128_def AES_192_def AES_256_def IV_LEN_96_def IV_LEN_128_def

lemma hard_ecb_crypt:
  "length key \<in> {16, 24, 32} \<Longrightarrow> hard_ecb bus encrypt (key_code (length key)) kp inp n outp =
     crypt bus kp (length key) (Null, 0) 0 (Null, 0) AES_ECB (if encrypt then AES_HARD_ENCRYPTION else AES_HARD_DECRYPTION) 0 n inp outp
       (if encrypt then n else padded16 n)"
  by (cases encrypt) (auto simp: hard_ecb_def key_code_def crypt_def hard_defs keylen_defs)

lemma hard_cbc_crypt:
  "length key \<in> {16, 24, 32} \<Longrightarrow> hard_cbc bus encrypt (key_code (length key)) ctx inp n outp =
     crypt bus (cbc_input_key ctx) (length key) (cbc_iv ctx) 16 (Null, 0) AES_CBC (if encrypt then AES_HARD_ENCRYPTION else AES_HARD_DECRYPTION) 0 n inp outp
       (if encrypt then n else padded16 n)"
  by (cases encrypt) (auto simp: hard_cbc_def key_code_def crypt_def hard_defs keylen_defs)

lemma hard_gcm_crypt:
  "length key \<in> {16, 24, 32} \<Longrightarrow> hard_gcm bus encrypt (key_code (length key)) ctx inp n outp tagp =
     also_do (crypt bus (gcm_input_key ctx) (length key) (gcm_iv ctx) 12 (gcm_aad ctx) AES_GCM
       (if encrypt then AES_HARD_ENCRYPTION else AES_HARD_DECRYPTION) (gcm_aad_len ctx) n inp outp n) (gcm_get_tag bus tagp)"
  by (cases encrypt) (auto simp: hard_gcm_def key_code_def crypt_def hard_defs keylen_defs also_do_assoc)

lemma zero_pad16_id: "16 dvd length bs \<Longrightarrow> zero_pad16 bs = bs"
  using padded16_id [of "length bs"] by (simp add: zero_pad16_def padded16_def)

text \<open>A block mode on whole blocks, none included.\<close>

lemma block_mode_at:
  assumes ok: "aes_unit_ok bus view E D" "block_cipher_ok E D" and at: "at_state view B v s"
    and k: "length key \<in> {16, 24, 32}" "room B kp (length key)" "key = bytes_at B kp (length key)"
    and i: "length iv = iv_size m" "room B ip (length iv) \<or> iv = []" "iv = bytes_at B ip (length iv)" and m: "m \<noteq> AES_GCM"
    and n: "16 dvd n" "n < 2 ^ 32" "room B inp n" "room B outp n" "apart inp outp"
  shows "ends (crypt bus kp (length key) ip (length iv) (Null, 0) m sel 0 n inp outp n) s
    (\<lambda>_ t. \<exists>w. at_state view (put B outp (mode_fun E D m sel key iv (bytes_at B inp n))) w t)"
proof (cases "n = 0")
  case True
  have "mode_fun E D m sel key iv (bytes_at B inp 0) = []"
    using m by (cases m) (auto simp: mode_fun_def bytes_at_def ecb_def cbc_encrypt_def cbc_decrypt_def)
  then show ?thesis using crypt_empty_at [OF ok(1) at k i m, of "(Null, 0)" sel inp outp] True by simp
next
  case False
  have w: "work_len m n = n" using m n(1) by (simp add: work_len_def padded16_id)
  have "work_text m (bytes_at B inp n) = bytes_at B inp n"
    using m n(1) length_bytes_at [OF n(3)] by (simp add: work_text_def zero_pad16_id)
  then show ?thesis
    using crypt_at [where ap = "(Null, 0)" and a = 0 and n = n and sel = sel, OF ok at k i _ _ _ _ _ refl n(3) _ n(5) refl] False n w
    by (auto elim!: ends_mono)
qed

lemma hard_ecb_at:
  assumes ok: "aes_unit_ok bus view E D" "block_cipher_ok E D" and at: "at_state view B v s"
    and k: "length key \<in> {16, 24, 32}" "room B kp (length key)" "key = bytes_at B kp (length key)" "l = key_code (length key)"
    and n: "16 dvd n" "n < 2 ^ 32" "room B inp n" "room B outp n" "apart inp outp"
  shows "ends (hard_ecb bus encrypt l kp inp n outp) s
    (\<lambda>_ t. \<exists>w. at_state view (put B outp (ecb (if encrypt then E key else D key) (bytes_at B inp n))) w t)"
  using block_mode_at [OF ok at k(1,2,3), of "[]" AES_ECB "(Null, 0)" n inp outp "if encrypt then AES_HARD_ENCRYPTION else AES_HARD_DECRYPTION"] n k(4)
  by (cases encrypt) (simp_all add: hard_ecb_crypt [OF k(1)] padded16_id iv_size_def bytes_at_def mode_fun_def)

lemma hard_cbc_at:
  assumes ok: "aes_unit_ok bus view E D" "block_cipher_ok E D" and at: "at_state view B v s"
    and k: "length key \<in> {16, 24, 32}" "room B (cbc_input_key ctx) (length key)" "key = bytes_at B (cbc_input_key ctx) (length key)" "l = key_code (length key)"
    and i: "length iv = 16" "room B (cbc_iv ctx) 16" "iv = bytes_at B (cbc_iv ctx) 16"
    and n: "16 dvd n" "n < 2 ^ 32" "room B inp n" "room B outp n" "apart inp outp"
  shows "ends (hard_cbc bus encrypt l ctx inp n outp) s
    (\<lambda>_ t. \<exists>w. at_state view (put B outp (if encrypt then cbc_encrypt (E key) iv (bytes_at B inp n) else cbc_decrypt (D key) iv (bytes_at B inp n))) w t)"
  using block_mode_at [OF ok at k(1,2,3), of iv AES_CBC "cbc_iv ctx" n inp outp "if encrypt then AES_HARD_ENCRYPTION else AES_HARD_DECRYPTION"] n k(4) i
  by (cases encrypt) (simp_all add: hard_cbc_crypt [OF k(1)] padded16_id iv_size_def mode_fun_def)

section \<open>Counter mode\<close>

lemma xor_words: "length a = 8 \<Longrightarrow> length b = 8 \<Longrightarrow> bytes_le 8 (word_le a XOR word_le b :: u64) = xor_bytes a b"
proof (rule nth_equalityI, goal_cases)
  case (2 j)
  then have j: "j < 8" by simp
  show ?case
    by (rule bit_word_eqI) (use 2 j in \<open>auto simp: bytes_le_def bit_simps bit_word_le xor_bytes_def\<close>)
qed simp

lemma xor64_at:
  assumes at: "at_state view B v s" and r: "room B inp 8" "room B enc 8" "room B outp 8"
  shows "ends (xor64 inp enc outp) s (\<lambda>_. at_state view (put B outp (xor_bytes (bytes_at B inp 8) (bytes_at B enc 8))) v)"
  unfolding xor64_def
proof (rule ends_seq [OF load_at [OF at r(1)]], rule ends_seq, rule load_at [OF conjunct2 r(2)])
  fix a b t t' assume "a = bytes_at B inp 8 \<and> at_state view B v t" "b = bytes_at B enc 8 \<and> at_state view B v t'"
  then show "ends (store outp (bytes_le 8 (word_le a XOR word_le b :: u64))) t' (\<lambda>_. at_state view (put B outp (xor_bytes (bytes_at B inp 8) (bytes_at B enc 8))) v)"
    using store_at [of view B v t' outp "bytes_le 8 (word_le a XOR word_le b :: u64)"] r length_bytes_at [OF r(1)] length_bytes_at [OF r(2)]
    by (simp add: xor_words)
qed auto

lemma xor8_at:
  assumes at: "at_state view B v s" and r: "room B inp 1" "room B enc 1" "room B outp 1"
  shows "ends (xor8 inp enc outp) s (\<lambda>_. at_state view (put B outp (xor_bytes (bytes_at B inp 1) (bytes_at B enc 1))) v)"
  unfolding xor8_def
proof (rule ends_seq [OF load8_at [OF at r(1)]], rule ends_seq, rule load8_at [OF conjunct2 r(2)])
  fix a b t t' assume ab: "[a] = bytes_at B inp 1 \<and> at_state view B v t" "[b] = bytes_at B enc 1 \<and> at_state view B v t'"
  then have "xor_bytes (bytes_at B inp 1) (bytes_at B enc 1) = [a XOR b]" by (metis xor_bytes_def zip_Cons_Cons zip_Nil list.simps(8,9) case_prod_conv)
  then show "ends (store8 outp (a XOR b)) t' (\<lambda>_. at_state view (put B outp (xor_bytes (bytes_at B inp 1) (bytes_at B enc 1))) v)"
    using store8_at [of view B v t' outp "a XOR b"] r(3) ab(2) by simp
qed auto

text \<open>The key stream of the standard: block \<open>i\<close> of the text is masked with the block whose counter is \<open>i\<close> further.\<close>

definition counter_at :: "bytes \<Rightarrow> nat \<Rightarrow> bytes" where
  "counter_at iv i = take 12 iv @ bytes_be 4 (word_be (drop 12 iv) + of_nat i :: u32)"

lemma counter_at_0: "length iv = 16 \<Longrightarrow> counter_at iv 0 = iv"
proof -
  assume "length iv = 16"
  then have "bytes_be 4 (word_be (drop 12 iv) :: u32) = drop 12 iv" by (intro bytes_be_word_be) simp_all
  then show ?thesis by (simp add: counter_at_def)
qed

lemma counter_at_Suc: "length iv = 16 \<Longrightarrow> counter_at (inc32 iv) i = counter_at iv (Suc i)"
  by (simp add: counter_at_def inc32_def word_be_bytes_be add.assoc)

lemma ctr_Cons: "xs \<noteq> [] \<Longrightarrow> ctr e iv xs = xor_bytes (take 16 xs) (e iv) @ ctr e (inc32 iv) (drop 16 xs)"
  by (simp add: ctr_def chunks.simps [of 16 xs])

lemma ctr_piece:
  assumes "on_blocks e" "length iv = 16" "16 * i < length xs"
  shows "take 16 (drop (16 * i) (ctr e iv xs)) = xor_bytes (take 16 (drop (16 * i) xs)) (e (counter_at iv i))"
  using assms(2,3)
proof (induction i arbitrary: iv xs)
  case 0
  have le: "length (e iv) = 16" using assms(1) 0 by (simp add: on_blocks_def)
  show ?case
  proof (cases "length xs \<le> 16")
    case True
    then show ?thesis using 0 ctr_Cons [of xs e iv] le by (simp add: counter_at_0 ctr_def)
  next
    case False
    then show ?thesis using 0 ctr_Cons [of xs e iv] le by (simp add: counter_at_0)
  qed
next
  case (Suc i)
  have le: "length (e iv) = 16" using assms(1) Suc by (simp add: on_blocks_def)
  have "length (xor_bytes (take 16 xs) (e iv)) = 16" using le Suc.prems by simp
  then have "drop (16 * Suc i) (ctr e iv xs) = drop (16 * i) (ctr e (inc32 iv) (drop 16 xs))"
    using ctr_Cons [of xs e iv] Suc.prems by (cases "xs = []") auto
  then show ?case using Suc.IH [of "inc32 iv" "drop 16 xs"] Suc.prems by (simp add: counter_at_Suc add.commute)
qed

text \<open>The two arrays on the stack.\<close>

definition locals :: "(blk \<Rightarrow> bytes) \<Rightarrow> bytes \<Rightarrow> bytes \<Rightarrow> blk \<Rightarrow> bytes" where
  "locals B c e = B(Counter_block := c, Encrypted_counter := e)"

definition no_local :: "ptr \<Rightarrow> bool" where
  "no_local p = (fst p \<noteq> Counter_block \<and> fst p \<noteq> Encrypted_counter)"

lemma locals_simps [simp]:
  "no_local p \<Longrightarrow> bytes_at (locals B c e) p n = bytes_at B p n"
  "no_local p \<Longrightarrow> room (locals B c e) p n = room B p n"
  "no_local p \<Longrightarrow> put (locals B c e) p bs = locals (put B p bs) c e"
  "no_local (ptr_add p k) = no_local p"
  by (auto simp: locals_def no_local_def bytes_at_def room_def put_def)

lemma store_counter_tag: "store_counter p c = store_tag_word (ptr_add p 12) c"
  by (simp add: store_counter_def store_tag_word_def)

lemma counter_stream_at:
  assumes ok: "aes_unit_ok bus view E D" "block_cipher_ok E D" and at: "at_state view (locals B c e) v s" "length c = 16" "length e = 16"
    and k: "length key \<in> {16, 24, 32}" "room B (ctx_input_key o') (length key)" "key = bytes_at B (ctx_input_key o') (length key)"
      "aes_key_len o' = key_code (length key)" "no_local (ctx_input_key o')" and n: "length nonce = 12"
  shows "ends (counter_stream bus o' nonce x) s
    (\<lambda>_ t. \<exists>c w. length c = 16 \<and> at_state view (locals B c (E key (nonce @ bytes_be 4 x))) w t)"
proof -
  have p1: "put (locals B c e) (Counter_block, 0) nonce = locals B (nonce @ drop 12 c) e"
    using n by (simp add: put_def locals_def fun_eq_iff)
  have p2: "put (locals B (nonce @ drop 12 c) e) (ptr_add (Counter_block, 0) 12) (bytes_be 4 x) = locals B (nonce @ bytes_be 4 x) e"
    using n at by (simp add: put_def locals_def ptr_add_def memcpy_at_def fun_eq_iff)
  have len: "length (E key (nonce @ bytes_be 4 x)) = 16"
    using block_cipher_okD(2) [OF ok(2) k(1)] n by (simp add: on_blocks_def)
  have b: "bytes_at (locals B (nonce @ bytes_be 4 x) e) (Counter_block, 0) 16 = nonce @ bytes_be 4 x"
    using n by (simp add: bytes_at_def locals_def)
  have p3: "put (locals B (nonce @ bytes_be 4 x) e) (Encrypted_counter, 0) (ecb (E key) (nonce @ bytes_be 4 x)) =
      locals B (nonce @ bytes_be 4 x) (E key (nonce @ bytes_be 4 x))"
    using n at len by (simp add: put_def locals_def ecb_def chunks_block fun_eq_iff)
  have s1: "ends (store (Counter_block, 0) nonce) s (\<lambda>_. at_state view (locals B (nonce @ drop 12 c) e) v)"
    using store_at [OF at(1), of "(Counter_block, 0)" nonce] n at unfolding p1 by (simp add: room_def locals_def)
  have s2: "ends (store_counter (Counter_block, 0) x) t (\<lambda>_. at_state view (locals B (nonce @ bytes_be 4 x) e) v)"
    if "at_state view (locals B (nonce @ drop 12 c) e) v t" for t
    using store_tag_word_at [OF that, of "ptr_add (Counter_block, 0) 12" x] n at unfolding p2 store_counter_tag
    by (simp add: room_def locals_def ptr_add_def)
  have s3: "ends (hard_ecb bus True (aes_key_len o') (ctx_input_key o') (Counter_block, 0) 16 (Encrypted_counter, 0)) t
      (\<lambda>_ t. \<exists>w. at_state view (locals B (nonce @ bytes_be 4 x) (E key (nonce @ bytes_be 4 x))) w t)"
    if "at_state view (locals B (nonce @ bytes_be 4 x) e) v t" for t
    using hard_ecb_at [where n = 16 and inp = "(Counter_block, 0)" and outp = "(Encrypted_counter, 0)" and encrypt = True,
        OF ok that k(1) _ _ k(4), of "ctx_input_key o'"] k n at p3 b
    by (simp add: room_def [of _ "(Counter_block, 0)"] room_def [of _ "(Encrypted_counter, 0)"] apart_def) (simp add: locals_def)
  show ?thesis
    unfolding counter_stream_def steps.simps also_ret_right
    by (rule ends_also [OF s1 ends_also [OF s2 ends_mono [OF s3]]])
      (use n in \<open>auto intro!: exI [of _ "nonce @ bytes_be 4 x"]\<close>)
qed

text \<open>Part \<open>i\<close> of the text, up to 16 bytes, is read, masked and stored.\<close>

definition ctr_done :: "('d \<Rightarrow> aes_view) \<Rightarrow> (blk \<Rightarrow> bytes) \<Rightarrow> ptr \<Rightarrow> bytes \<Rightarrow> nat \<Rightarrow> 'd aes_sys \<Rightarrow> bool" where
  "ctr_done view B outp out k t =
     (\<exists>c e w. length c = 16 \<and> length e = 16 \<and> at_state view (locals (put B outp (take k out)) c e) w t)"

lemma mask_piece_at:
  assumes at: "at_state view (locals (put B outp (take k out)) c e) w t" "length e = 16"
    and p: "room B inp (length out)" "room B outp (length out)" "apart inp outp" "no_local inp" "no_local outp" "k + m \<le> length out" "j + m \<le> 16"
    and out: "take m (drop k out) = xor_bytes (take m (drop k (bytes_at B inp (length out)))) (take m (drop j e))"
    and run: "\<And>B v s inp enc outp. at_state view B v s \<Longrightarrow> room B inp m \<Longrightarrow> room B enc m \<Longrightarrow> room B outp m \<Longrightarrow>
      ends (masking inp enc outp) s (\<lambda>_. at_state view (put B outp (xor_bytes (bytes_at B inp m) (bytes_at B enc m))) v)"
  shows "ends (masking (ptr_add inp k) (Encrypted_counter, j) (ptr_add outp k)) t (\<lambda>_. at_state view (locals (put B outp (take (k + m) out)) c e) w)"
proof -
  let ?B = "locals (put B outp (take k out)) c e"
  have rk: "room B outp (length (take k out))" using p(2,6) by (auto simp: room_def)
  have enc: "bytes_at ?B (Encrypted_counter, j) m = take m (drop j e)" by (simp add: bytes_at_def locals_def)
  have "bytes_at ?B (ptr_add inp k) m = bytes_at B (ptr_add inp k) m"
    using p(4) bytes_at_ahead [OF p(3) rk, of k m] by simp
  then have inb: "bytes_at ?B (ptr_add inp k) m = take m (drop k (bytes_at B inp (length out)))"
    using bytes_at_add [OF p(6), of B inp] by simp
  have "put (put B outp (take k out)) (ptr_add outp k) (take m (drop k out)) = put B outp (take (k + m) out)"
    using p(2,6) by (rule put_pieces)
  then have pt: "put ?B (ptr_add outp k) (xor_bytes (bytes_at ?B (ptr_add inp k) m) (bytes_at ?B (Encrypted_counter, j) m)) = locals (put B outp (take (k + m) out)) c e"
    using p(5) by (simp add: inb enc out [symmetric])
  have "room ?B (ptr_add inp k) m" "room ?B (ptr_add outp k) m"
    using p rk room_add [OF p(1,6)] room_add [OF p(2,6)] by simp_all
  moreover have "room ?B (Encrypted_counter, j) m" using at(2) p(7) by (simp add: room_def locals_def)
  ultimately show ?thesis using run [OF at(1), of "ptr_add inp k" "(Encrypted_counter, j)" "ptr_add outp k"] unfolding pt by blast
qed

lemma take_split: "a + b \<le> (c :: nat) \<Longrightarrow> take b (drop a (take c xs)) = take b (drop a xs)"
  by (simp add: drop_take)

lemma xor_bytes_part: "take m (drop k (xor_bytes a b)) = xor_bytes (take m (drop k a)) (take m (drop k b))"
  by (simp add: xor_bytes_def drop_map take_map drop_zip take_zip)

lemma drop_piece: "j + m \<le> 16 \<Longrightarrow> take m (drop (16 * i + j) xs) = take m (drop j (take 16 (drop (16 * i) xs)))"
  by (simp add: drop_take add.commute)

lemma ctr_masked:
  assumes "on_blocks e" "length iv = 16" "16 * i < length xs" "j + m \<le> 16"
  shows "take m (drop (16 * i + j) (ctr e iv xs)) = xor_bytes (take m (drop (16 * i + j) xs)) (take m (drop j (e (counter_at iv i))))"
  using ctr_piece [OF assms(1,2,3)] assms(4) by (simp add: drop_piece xor_bytes_part)

lemma new_block_at: "at_state view B v s \<Longrightarrow> ends (new_block b bs) s (\<lambda>_. at_state view (B(b := bs)) v)"
  by (auto simp: ends_def new_block_def at_state_def)

text \<open>The situation of the loop: key, IV and buffers in memory \<open>B\<close>, and \<open>out\<close> the text to be stored.\<close>

definition ctr_ready :: "block_cipher \<Rightarrow> (blk \<Rightarrow> bytes) \<Rightarrow> bytes \<Rightarrow> bytes \<Rightarrow> mp_obj_aes_t \<Rightarrow> ptr \<Rightarrow> nat \<Rightarrow> ptr \<Rightarrow> bytes \<Rightarrow> bool" where
  "ctr_ready E B key iv self inp n outp out \<longleftrightarrow>
     length key \<in> {16, 24, 32} \<and> room B (ctx_input_key self) (length key) \<and> bytes_at B (ctx_input_key self) (length key) = key \<and>
     aes_key_len self = key_code (length key) \<and> no_local (ctx_input_key self) \<and> fst (ctx_input_key self) \<noteq> fst outp \<and>
     length iv = 16 \<and> room B (ctx_iv self) 16 \<and> bytes_at B (ctx_iv self) 16 = iv \<and>
     room B inp n \<and> room B outp n \<and> apart inp outp \<and> no_local inp \<and> no_local outp \<and>
     on_blocks (E key) \<and> out = ctr (E key) iv (bytes_at B inp n)"

lemma ctr_ready_lengths:
  assumes "ctr_ready E B key iv self inp n outp out"
  shows "length out = n" "length (bytes_at B inp n) = n" "length (E key (counter_at iv j)) = 16"
  using assms length_ctr [of "E key" iv "bytes_at B inp n"] length_bytes_at [of B inp n]
  by (auto simp: ctr_ready_def on_blocks_def counter_at_def)

lemma ctr_stream_at:
  assumes ok: "aes_unit_ok bus view E D" "block_cipher_ok E D" and r: "ctr_ready E B key iv self inp n outp out"
    and at: "at_state view (locals (put B outp (take m out)) c e) w t" "length c = 16" "length e = 16"
  shows "ends (counter_stream bus self (take 12 iv) (word_be (drop 12 iv) + of_nat j)) t
      (\<lambda>_ t. \<exists>c w. length c = 16 \<and> at_state view (locals (put B outp (take m out)) c (E key (counter_at iv j))) w t)"
proof -
  have k: "length key \<in> {16, 24, 32}" "aes_key_len self = key_code (length key)" "no_local (ctx_input_key self)" "length (take 12 iv) = 12"
    using r by (simp_all add: ctr_ready_def)
  have "key = bytes_at (put B outp (take m out)) (ctx_input_key self) (length key)"
    using r by (simp add: ctr_ready_def bytes_at_put_other)
  moreover have "room (put B outp (take m out)) (ctx_input_key self) (length key)"
    using r by (simp add: ctr_ready_def room_def put_def)
  ultimately show ?thesis
    using counter_stream_at [OF ok at k(1) _ _ k(2,3,4), of "word_be (drop 12 iv) + of_nat j"] by (simp add: counter_at_def)
qed

lemma ctr_mask_at:
  assumes r: "ctr_ready E B key iv self inp n outp out"
    and at: "at_state view (locals (put B outp (take (16 * j + a) out)) c (E key (counter_at iv j))) w t"
    and m: "16 * j + a + m \<le> n" "0 < m" "a + m \<le> 16"
    and run: "\<And>B v s inp enc outp. at_state view B v s \<Longrightarrow> room B inp m \<Longrightarrow> room B enc m \<Longrightarrow> room B outp m \<Longrightarrow>
        ends (masking inp enc outp) s (\<lambda>_. at_state view (put B outp (xor_bytes (bytes_at B inp m) (bytes_at B enc m))) v)"
  shows "ends (masking (ptr_add inp (16 * j + a)) (Encrypted_counter, a) (ptr_add outp (16 * j + a))) t
      (\<lambda>_. at_state view (locals (put B outp (take (16 * j + a + m) out)) c (E key (counter_at iv j))) w)"
proof -
  note l = ctr_ready_lengths [OF r]
  have "take m (drop (16 * j + a) out) = xor_bytes (take m (drop (16 * j + a) (bytes_at B inp (length out)))) (take m (drop a (E key (counter_at iv j))))"
    using ctr_masked [of "E key" iv j "bytes_at B inp n" a m] r m l by (simp add: ctr_ready_def)
  then show ?thesis using r m l by (intro mask_piece_at [OF at _ _ _ _ _ _ _ _ _ run]) (auto simp: ctr_ready_def)
qed

lemma ctr_block_at:
  assumes ok: "aes_unit_ok bus view E D" "block_cipher_ok E D" and r: "ctr_ready E B key iv self inp n outp out"
    and le: "16 * j + 16 \<le> n" and t: "ctr_done view B outp out (16 * j) t"
  shows "ends (steps [counter_stream bus self (take 12 iv) (word_be (drop 12 iv) + of_nat j),
       xor64 (ptr_add inp (j * 16)) (Encrypted_counter, 0) (ptr_add outp (j * 16)),
       xor64 (ptr_add inp (j * 16 + 8)) (Encrypted_counter, 8) (ptr_add outp (j * 16 + 8))]) t (\<lambda>_. ctr_done view B outp out (16 * Suc j))"
proof -
  obtain c e w where ce: "length c = 16" "length e = 16" "at_state view (locals (put B outp (take (16 * j) out)) c e) w t"
    using t by (auto simp: ctr_done_def)
  show ?thesis
    unfolding steps.simps also_ret_right
  proof (rule ends_also [OF ctr_stream_at [OF ok r ce(3,1,2)]])
    fix u assume "\<exists>c w. length c = 16 \<and> at_state view (locals (put B outp (take (16 * j) out)) c (E key (counter_at iv j))) w u"
    then obtain c w where c: "length c = 16" and u: "at_state view (locals (put B outp (take (16 * j) out)) c (E key (counter_at iv j))) w u" by blast
    have x1: "ends (xor64 (ptr_add inp (j * 16)) (Encrypted_counter, 0) (ptr_add outp (j * 16))) u
        (\<lambda>_. at_state view (locals (put B outp (take (16 * j + 8) out)) c (E key (counter_at iv j))) w)"
      using ctr_mask_at [where a = 0 and m = 8 and masking = xor64 and j = j, OF r _ _ _ _ xor64_at] u le by (simp add: mult.commute)
    have x2: "ends (xor64 (ptr_add inp (j * 16 + 8)) (Encrypted_counter, 8) (ptr_add outp (j * 16 + 8))) u'
        (\<lambda>_. at_state view (locals (put B outp (take (16 * Suc j) out)) c (E key (counter_at iv j))) w)"
      if "at_state view (locals (put B outp (take (16 * j + 8) out)) c (E key (counter_at iv j))) w u'" for u'
      using ctr_mask_at [where a = 8 and m = 8 and masking = xor64 and j = j, OF r that _ _ _ xor64_at] le by (simp add: mult.commute add.commute)
    show "ends (also_do (xor64 (ptr_add inp (j * 16)) (Encrypted_counter, 0) (ptr_add outp (j * 16)))
          (xor64 (ptr_add inp (j * 16 + 8)) (Encrypted_counter, 8) (ptr_add outp (j * 16 + 8)))) u (\<lambda>_. ctr_done view B outp out (16 * Suc j))"
      by (rule ends_also [OF x1 ends_mono [OF x2]]) (use c ctr_ready_lengths [OF r] in \<open>auto simp: ctr_done_def\<close>)
  qed
qed

lemma ctr_bytes_at:
  assumes r: "ctr_ready E B key iv self inp n outp out" and b: "b = n div 16"
    and u: "\<exists>c w. length c = 16 \<and> at_state view (locals (put B outp (take (16 * b) out)) c (E key (counter_at iv b))) w u"
  shows "ends (loop (\<lambda>j. xor8 (ptr_add inp (b * 16 + j)) (Encrypted_counter, j) (ptr_add outp (b * 16 + j))) [0..<n mod 16]) u (\<lambda>_. ctr_done view B outp out n)"
proof -
  have nb: "16 * b + n mod 16 = n" by (simp add: b)
  obtain c w where c: "length c = 16" and u: "at_state view (locals (put B outp (take (16 * b) out)) c (E key (counter_at iv b))) w u" using u by blast
  have "ends (loop (\<lambda>j. xor8 (ptr_add inp (b * 16 + j)) (Encrypted_counter, j) (ptr_add outp (b * 16 + j))) [0..<n mod 16]) u
      (\<lambda>_. at_state view (locals (put B outp (take (16 * b + n mod 16) out)) c (E key (counter_at iv b))) w)"
  proof (rule ends_loop [where I = "\<lambda>j. at_state view (locals (put B outp (take (16 * b + j) out)) c (E key (counter_at iv b))) w"])
    fix j x assume j: "j < n mod 16" and x: "at_state view (locals (put B outp (take (16 * b + j) out)) c (E key (counter_at iv b))) w x"
    have "j + 1 \<le> 16" using j less_trans [OF j, of 16] by simp
    then show "ends (xor8 (ptr_add inp (b * 16 + j)) (Encrypted_counter, j) (ptr_add outp (b * 16 + j))) x
        (\<lambda>_. at_state view (locals (put B outp (take (16 * b + Suc j) out)) c (E key (counter_at iv b))) w)"
      using ctr_mask_at [where a = j and m = 1 and masking = xor8 and j = b, OF r x _ _ _ xor8_at] j nb by (simp add: mult.commute)
  qed (use u in simp)
  then show ?thesis unfolding nb by (rule ends_mono) (use c ctr_ready_lengths [OF r] in \<open>auto simp: ctr_done_def\<close>)
qed

lemma ctr_tail_at:
  assumes ok: "aes_unit_ok bus view E D" "block_cipher_ok E D" and r: "ctr_ready E B key iv self inp n outp out" and b: "b = n div 16"
    and t: "ctr_done view B outp out (16 * b) t" and f: "length f = 16"
  shows "ends (steps [new_block Counter_block f, new_block Encrypted_counter f,
       counter_stream bus self (take 12 iv) (word_be (drop 12 iv) + of_nat b),
       loop (\<lambda>j. xor8 (ptr_add inp (b * 16 + j)) (Encrypted_counter, j) (ptr_add outp (b * 16 + j))) [0..<n mod 16]]) t (\<lambda>_. ctr_done view B outp out n)"
proof -
  obtain c e w where ce: "at_state view (locals (put B outp (take (16 * b) out)) c e) w t" using t by (auto simp: ctr_done_def)
  have n1: "ends (new_block Counter_block f) t (\<lambda>_. at_state view (locals (put B outp (take (16 * b) out)) f e) w)"
    using new_block_at [OF ce, of Counter_block f] by (simp add: locals_def fun_upd_twist)
  have n2: "ends (new_block Encrypted_counter f) u (\<lambda>_. at_state view (locals (put B outp (take (16 * b) out)) f f) w)"
    if "at_state view (locals (put B outp (take (16 * b) out)) f e) w u" for u
    using new_block_at [OF that, of Encrypted_counter f] by (simp add: locals_def)
  show ?thesis
    unfolding steps.simps also_ret_right
    by (rule ends_also [OF n1 ends_also [OF n2 ends_also [OF ctr_stream_at [OF ok r _ f f] ctr_bytes_at [OF r b]]]])
qed

lemma run_ctr_at:
  assumes ok: "aes_unit_ok bus view E D" "block_cipher_ok E D" and r: "ctr_ready E B key iv self inp n outp out"
    and at: "at_state view B v s" and env: "fresh_ok env"
  shows "ends (run_ctr bus env self inp n outp) s (\<lambda>_. ctr_done view B outp out n)"
proof -
  let ?f = "fresh_bytes env 16"
  have f: "length ?f = 16" using env by (simp add: fresh_ok_def)
  have iv: "room B (ctx_iv self) 12" "room B (ptr_add (ctx_iv self) 12) 4" "bytes_at B (ctx_iv self) 12 = take 12 iv"
      "bytes_at B (ptr_add (ctx_iv self) 12) 4 = drop 12 iv"
  proof -
    have i: "length iv = 16" "room B (ctx_iv self) 16" "bytes_at B (ctx_iv self) 16 = iv" using r by (simp_all add: ctr_ready_def)
    show "room B (ctx_iv self) 12" "room B (ptr_add (ctx_iv self) 12) 4"
      using i(2) room_add [OF i(2), of 0 12] room_add [OF i(2), of 12 4] by simp_all
    show "bytes_at B (ctx_iv self) 12 = take 12 iv" "bytes_at B (ptr_add (ctx_iv self) 12) 4 = drop 12 iv"
      using i bytes_at_add [of 0 12 16 B "ctx_iv self"] bytes_at_add [of 12 4 16 B "ctx_iv self"] by simp_all
  qed
  have n0: "ends (new_block Counter_block ?f) t (\<lambda>_. at_state view (B(Counter_block := ?f)) v)" if "at_state view B v t" for t
    by (rule new_block_at [OF that])
  have n1: "ends (new_block Encrypted_counter ?f) t (\<lambda>_. ctr_done view B outp out 0)" if "at_state view (B(Counter_block := ?f)) v t" for t
    by (rule ends_mono [OF new_block_at [OF that]]) (use f in \<open>auto simp: ctr_done_def locals_def\<close>)
  have blocks: "ends (loop (\<lambda>i. steps
           [counter_stream bus self (take 12 iv) (word_be (drop 12 iv) + of_nat i),
            xor64 (ptr_add inp (i * 16)) (Encrypted_counter, 0) (ptr_add outp (i * 16)),
            xor64 (ptr_add inp (i * 16 + 8)) (Encrypted_counter, 8) (ptr_add outp (i * 16 + 8))]) [0..<n div 16]) t
      (\<lambda>_. ctr_done view B outp out (16 * (n div 16)))" if "ctr_done view B outp out 0 t" for t
    by (rule ends_loop [where I = "\<lambda>i. ctr_done view B outp out (16 * i)"], simp add: that, rule ctr_block_at [OF ok r]) linarith
  have fin: "ends (if n mod 16 \<noteq> 0 then steps
           [new_block Counter_block ?f, new_block Encrypted_counter ?f,
            counter_stream bus self (take 12 iv) (word_be (drop 12 iv) + of_nat (n div 16)),
            loop (\<lambda>j. xor8 (ptr_add inp (n div 16 * 16 + j)) (Encrypted_counter, j) (ptr_add outp (n div 16 * 16 + j))) [0..<n mod 16]]
          else ret ()) t (\<lambda>_. ctr_done view B outp out n)" if "ctr_done view B outp out (16 * (n div 16)) t" for t
  proof (cases "n mod 16 = 0")
    case True
    then have "16 * (n div 16) = n" by auto
    then show ?thesis using that True by simp
  next
    case False
    then show ?thesis using ctr_tail_at [OF ok r refl that f] by simp
  qed
  show ?thesis
    unfolding run_ctr_def Let_def
  proof (rule ends_seq [OF load_at [OF at iv(1)]], rule ends_seq, rule load_at [OF conjunct2 iv(2)])
    fix nonce c4 t u assume "nonce = bytes_at B (ctx_iv self) 12 \<and> at_state view B v t" "c4 = bytes_at B (ptr_add (ctx_iv self) 12) 4 \<and> at_state view B v u"
    then have e: "nonce = take 12 iv" "c4 = drop 12 iv" and u: "at_state view B v u" using iv by simp_all
    show "ends (steps
        [new_block Counter_block ?f, new_block Encrypted_counter ?f,
         loop (\<lambda>i. steps
           [counter_stream bus self nonce (word_be c4 + of_nat i),
            xor64 (ptr_add inp (i * 16)) (Encrypted_counter, 0) (ptr_add outp (i * 16)),
            xor64 (ptr_add inp (i * 16 + 8)) (Encrypted_counter, 8) (ptr_add outp (i * 16 + 8))]) [0..<n div 16],
         (if n mod 16 \<noteq> 0 then steps
           [new_block Counter_block ?f, new_block Encrypted_counter ?f,
            counter_stream bus self nonce (word_be c4 + of_nat (n div 16)),
            loop (\<lambda>j. xor8 (ptr_add inp (n div 16 * 16 + j)) (Encrypted_counter, j) (ptr_add outp (n div 16 * 16 + j))) [0..<n mod 16]]
          else ret ())]) u (\<lambda>_. ctr_done view B outp out n)"
      unfolding e by (rule ends_steps [OF n0 [OF u] ends_steps [OF n1 ends_steps [OF blocks ends_last [OF fin]]]])
  qed auto
qed

end
