(* ===== verification/Ucryptolib_Calls.thy ===== *)
theory Ucryptolib_Calls
  imports Ucryptolib_Correct
begin

unbundle bit_operations_syntax

text \<open>
  Calls of the class \<^verbatim>\<open>aes\<close>: what an object is after construction, what encryption and decryption do to the memory of the
  caller, and GCM up to the tag.
\<close>

section \<open>A cipher object in memory\<close>

definition crypt_spec :: "block_cipher \<Rightarrow> block_cipher \<Rightarrow> u8 \<Rightarrow> bool \<Rightarrow> bytes \<Rightarrow> bytes \<Rightarrow> bytes \<Rightarrow> bytes" where
  "crypt_spec E D mode encrypt key iv data =
     (if mode = UCRYPTOLIB_MODE_CBC then (if encrypt then cbc_encrypt (E key) iv data else cbc_decrypt (D key) iv data)
      else if mode = UCRYPTOLIB_MODE_ECB then ecb (if encrypt then E key else D key) data
      else ctr (E key) iv data)"

definition aes_obj_ok :: "(blk \<Rightarrow> bytes) \<Rightarrow> mp_obj_aes_t \<Rightarrow> nat \<Rightarrow> bytes \<Rightarrow> bytes \<Rightarrow> bool" where
  "aes_obj_ok B self k key iv \<longleftrightarrow>
     ctx_input_key self = (Obj k, 0) \<and> B (Obj k) = key \<and> length key \<in> {16, 24, 32} \<and> aes_key_len self = key_code (length key) \<and>
     (\<exists>i. ctx_iv self = (Iv i, 0) \<and> B (Iv i) = iv) \<and> length iv = 16"

lemmas mode_defs = UCRYPTOLIB_MODE_MIN_def UCRYPTOLIB_MODE_GCM_def UCRYPTOLIB_MODE_CBC_def UCRYPTOLIB_MODE_ECB_def
  UCRYPTOLIB_MODE_CTR_def UCRYPTOLIB_MODE_MAX_def

lemma at_state_self: "at_state view (blocks s) (view (unit_state s)) s"
  by (auto simp: at_state_def intro!: exI [of _ "v_polls (view (unit_state s))"])

text \<open>Memory up to the arrays on the stack.\<close>

definition agrees :: "(blk \<Rightarrow> bytes) \<Rightarrow> 'd aes_sys \<Rightarrow> bool" where
  "agrees B t = (\<forall>b. b \<noteq> Counter_block \<and> b \<noteq> Encrypted_counter \<longrightarrow> blocks t b = B b)"

lemma agrees_at: "at_state view B v t \<Longrightarrow> agrees B t"
  by (simp add: agrees_def at_state_def)

lemma agrees_ctr: "ctr_done view B outp out n t \<Longrightarrow> length out = n \<Longrightarrow> agrees (put B outp out) t"
  by (auto simp: agrees_def ctr_done_def at_state_def locals_def)

text \<open>The three modes that the module runs to the end.\<close>

lemma run_modes_at:
  assumes ok: "aes_unit_ok bus view E D" "block_cipher_ok E D" and env: "fresh_ok env" and at: "at_state view B v s"
    and self: "aes_obj_ok B self k key iv" "aes_mode self \<in> {UCRYPTOLIB_MODE_CBC, UCRYPTOLIB_MODE_ECB, UCRYPTOLIB_MODE_CTR}"
    and n: "aes_mode self \<noteq> UCRYPTOLIB_MODE_CTR \<longrightarrow> 16 dvd n" "n < 2 ^ 32" "room B inp n" "room B outp n" "apart inp outp"
    and l: "no_local inp" "no_local outp" "aes_mode self = UCRYPTOLIB_MODE_CTR \<longrightarrow> fst outp \<noteq> Obj k"
  shows "ends (run_modes bus env self encrypt inp n outp) s
    (\<lambda>_. agrees (put B outp (crypt_spec E D (aes_mode self) encrypt key iv (bytes_at B inp n))))"
proof -
  have k: "length key \<in> {16, 24, 32}" "room B (ctx_input_key self) (length key)" "key = bytes_at B (ctx_input_key self) (length key)"
      "aes_key_len self = key_code (length key)" and i: "length iv = 16" "room B (ctx_iv self) 16" "iv = bytes_at B (ctx_iv self) 16"
    using self(1) by (auto simp: aes_obj_ok_def room_def bytes_at_def)
  consider "aes_mode self = UCRYPTOLIB_MODE_CBC" | "aes_mode self = UCRYPTOLIB_MODE_ECB" | "aes_mode self = UCRYPTOLIB_MODE_CTR"
    using self(2) by blast
  then show ?thesis
  proof cases
    case 1
    then have "16 dvd n" using n(1) by (simp add: mode_defs)
    from hard_cbc_at [OF ok at, of key "\<lparr>cbc_input_key = ctx_input_key self, cbc_iv = ctx_iv self\<rparr>" "aes_key_len self" iv n inp outp encrypt] k i n this
    show ?thesis using 1 by (auto simp: run_modes_def run_cbc_def crypt_spec_def elim!: ends_mono dest: agrees_at)
  next
    case 2
    then have "16 dvd n" using n(1) by (simp add: mode_defs)
    from hard_ecb_at [OF ok at k this n(2,3,4,5), of encrypt]
    show ?thesis using 2 by (auto simp: run_modes_def mode_defs crypt_spec_def elim!: ends_mono dest: agrees_at)
  next
    case 3
    have r: "ctr_ready E B key iv self inp n outp (ctr (E key) iv (bytes_at B inp n))"
      using k i n l 3 self(1) block_cipher_okD [OF ok(2) k(1)] by (auto simp: ctr_ready_def aes_obj_ok_def no_local_def)
    show ?thesis using ends_mono [OF run_ctr_at [OF ok r at env] agrees_ctr [OF _ ctr_ready_lengths(1) [OF r]]] 3
      by (simp add: run_modes_def crypt_spec_def mode_defs)
  qed
qed

section \<open>A call\<close>

definition out_block :: "cl_obj option \<Rightarrow> blk" where
  "out_block out_arg = (case out_arg of Some (Cl_buffer m w) \<Rightarrow> Obj m | _ \<Rightarrow> Vstr)"

text \<open>The arguments with which a call runs: whole blocks unless in counter mode, room for the output, and in counter
  mode an output that is not the key.\<close>

definition run_args_ok :: "mp_env \<Rightarrow> (blk \<Rightarrow> bytes) \<Rightarrow> mp_obj_aes_t \<Rightarrow> nat \<Rightarrow> nat \<Rightarrow> cl_obj option \<Rightarrow> bool" where
  "run_args_ok env B self k n out_arg \<longleftrightarrow>
     aes_mode self \<in> {UCRYPTOLIB_MODE_CBC, UCRYPTOLIB_MODE_ECB, UCRYPTOLIB_MODE_CTR} \<and>
     (aes_mode self \<noteq> UCRYPTOLIB_MODE_CTR \<longrightarrow> 16 dvd length (B (Obj n))) \<and> length (B (Obj n)) < 2 ^ 32 \<and>
     (case out_arg of
        None \<Rightarrow> length (B (Obj n)) < heap_limit env
      | Some (Cl_buffer m w) \<Rightarrow> w \<and> length (B (Obj n)) \<le> length (B (Obj m)) \<and> (aes_mode self = UCRYPTOLIB_MODE_CTR \<longrightarrow> m \<noteq> k)
      | _ \<Rightarrow> False)"

text \<open>What the caller gets: a new bytes object, or the output object with its first bytes written.\<close>

definition run_result :: "(blk \<Rightarrow> bytes) \<Rightarrow> cl_obj option \<Rightarrow> bytes \<Rightarrow> cl_ret \<times> (nat \<Rightarrow> bytes)" where
  "run_result B out_arg r =
     (case out_arg of
        Some (Cl_buffer m w) \<Rightarrow> (Ret_obj m, (\<lambda>x. B (Obj x))(m := r @ drop (length r) (B (Obj m))))
      | _ \<Rightarrow> (Ret_bytes r, \<lambda>x. B (Obj x)))"

lemma length_crypt_spec:
  assumes "block_cipher_ok E D" "length key \<in> {16, 24, 32}" "length iv = 16" "mode \<in> {UCRYPTOLIB_MODE_CBC, UCRYPTOLIB_MODE_ECB} \<longrightarrow> 16 dvd length data"
  shows "length (crypt_spec E D mode encrypt key iv data) = length data"
proof -
  note c = block_cipher_okD [OF assms(1,2)]
  show ?thesis
    using assms(3,4) ecb_mode.mode_length [OF c(2), of iv data] ecb_mode.mode_length [OF c(3), of iv data]
      cbc_encrypt_mode.mode_length [OF c(2), of iv data] cbc_decrypt_mode.mode_length [OF c(3), of iv data] length_ctr [OF c(2), of iv data]
    by (auto simp: crypt_spec_def)
qed

lemma ends_buffers [simp]:
  "ends (seq (get_read_buffer (Cl_buffer n w)) h) s Q = ends (h ((Obj n, 0), length (blocks s (Obj n)))) s Q"
  "ends (seq (get_write_buffer (Cl_buffer n True)) h') s Q' = ends (h' ((Obj n, 0), length (blocks s (Obj n)))) s Q'"
  "ends (seq (ret x) h'') s Q'' = ends (h'' x) s Q''"
  by (simp_all add: ends_def seq_def get_read_buffer_def get_write_buffer_def ret_def)

lemma seq_also: "seq (also_do m (ret x)) h = also_do m (h x)"
  by (auto simp: also_do_def seq_def ret_def fun_eq_iff split: option.split sum.split)

lemma seq_lift: "seq (lift_result (Inr x)) h = h x"
  by (simp add: seq_def lift_result_def fun_eq_iff)

lemma seq_assoc: "seq (seq m h) k = seq m (\<lambda>x. seq (h x) k)"
  by (auto simp: seq_def fun_eq_iff split: option.split sum.split)

text \<open>Into an object.\<close>

lemma run_into_at:
  assumes ok: "aes_unit_ok bus view E D" "block_cipher_ok E D" and env: "fresh_ok env"
    and self: "aes_obj_ok (blocks s) self k key iv" and a: "run_args_ok env (blocks s) self k n (Some (Cl_buffer m w))"
    and r: "r = crypt_spec E D (aes_mode self) encrypt key iv (blocks s (Obj n))"
  shows "ends (AES_run bus env self (Cl_buffer n v) (Some (Cl_buffer m w)) encrypt) s
    (\<lambda>(x, self') t. self' = self \<and> x = Ret_obj m \<and> agrees (put (blocks s) (Obj m, 0) r) t)"
proof -
  have m: "aes_mode self \<in> {UCRYPTOLIB_MODE_CBC, UCRYPTOLIB_MODE_ECB, UCRYPTOLIB_MODE_CTR}" "aes_mode self \<noteq> UCRYPTOLIB_MODE_CTR \<longrightarrow> 16 dvd length (blocks s (Obj n))"
    "length (blocks s (Obj n)) < 2 ^ 32" "w" "length (blocks s (Obj n)) \<le> length (blocks s (Obj m))" "aes_mode self = UCRYPTOLIB_MODE_CTR \<longrightarrow> m \<noteq> k"
    using a by (simp_all add: run_args_ok_def)
  have g: "aes_mode self \<noteq> UCRYPTOLIB_MODE_GCM" using m(1) by (auto simp: mode_defs)
  have b: "bytes_at (blocks s) (Obj n, 0) (length (blocks s (Obj n))) = blocks s (Obj n)" by (simp add: bytes_at_def)
  note core = run_modes_at [OF ok env at_state_self self m(1) m(2,3), of "(Obj n, 0)" "(Obj m, 0)" encrypt, unfolded b r [symmetric]]
  have body: "ends (run_modes bus env self encrypt (Obj n, 0) (length (blocks s (Obj n))) (Obj m, 0)) s (\<lambda>_. agrees (put (blocks s) (Obj m, 0) r))"
    using m by (intro core) (auto simp: room_def apart_def no_local_def)
  have e: "ends (AES_run bus env self (Cl_buffer n v) (Some (Cl_buffer m w)) encrypt) s Q =
      ends (also_do (run_modes bus env self encrypt (Obj n, 0) (length (blocks s (Obj n))) (Obj m, 0)) (ret (Ret_obj m, self))) s Q" for Q
    using m g by (auto simp: AES_run_def seq_assoc seq_also mod_eq_0_iff_dvd)
  show ?thesis unfolding e by (rule ends_also [OF body]) auto
qed

text \<open>Into a new bytes object.\<close>

lemma run_new_at:
  assumes ok: "aes_unit_ok bus view E D" "block_cipher_ok E D" and env: "fresh_ok env"
    and self: "aes_obj_ok (blocks s) self k key iv" and a: "run_args_ok env (blocks s) self k n None"
    and r: "r = crypt_spec E D (aes_mode self) encrypt key iv (blocks s (Obj n))"
  shows "ends (AES_run bus env self (Cl_buffer n v) None encrypt) s
    (\<lambda>(x, self') t. self' = self \<and> x = Ret_bytes r \<and> (\<forall>i. blocks t (Obj i) = blocks s (Obj i) \<and> blocks t (Iv i) = blocks s (Iv i)))"
proof -
  let ?n = "length (blocks s (Obj n))"
  have m: "aes_mode self \<in> {UCRYPTOLIB_MODE_CBC, UCRYPTOLIB_MODE_ECB, UCRYPTOLIB_MODE_CTR}" "aes_mode self \<noteq> UCRYPTOLIB_MODE_CTR \<longrightarrow> 16 dvd ?n"
    "?n < 2 ^ 32" "?n < heap_limit env"
    using a by (simp_all add: run_args_ok_def)
  have g: "aes_mode self \<noteq> UCRYPTOLIB_MODE_GCM" using m(1) by (auto simp: mode_defs)
  have f: "length (fresh_bytes env (Suc ?n)) = Suc ?n" using env by (simp add: fresh_ok_def)
  have vs: "vstr_init_len env (of_nat ?n) = Inr (fresh_bytes env (Suc ?n))"
    using vstr_ok [OF env m(4)] m(3) by simp
  define B where "B = (blocks s)(Vstr := fresh_bytes env (Suc ?n))"
  have self': "aes_obj_ok B self k key iv" using self by (auto simp: aes_obj_ok_def B_def)
  have lr: "length r = ?n"
    unfolding r using self m by (intro length_crypt_spec [OF ok(2)]) (auto simp: aes_obj_ok_def mode_defs)
  have b: "bytes_at B (Obj n, 0) ?n = blocks s (Obj n)" by (simp add: bytes_at_def B_def)
  have body: "ends (run_modes bus env self encrypt (Obj n, 0) ?n (Vstr, 0)) t (\<lambda>_. agrees (put B (Vstr, 0) r))"
    if "at_state view B (view (unit_state s)) t" for t
    using run_modes_at [OF ok env that self' m(1) m(2,3), of "(Obj n, 0)" "(Vstr, 0)" encrypt, unfolded b r [symmetric]] f
    by (simp add: room_def apart_def no_local_def B_def)
  have ld: "ends (load (Vstr, 0) ?n) t (\<lambda>bs u. bs = r \<and> u = t)" if "agrees (put B (Vstr, 0) r) t" for t
    using that lr f by (simp add: agrees_def put_def ends_def load_def in_block_def B_def)
  have e: "ends (AES_run bus env self (Cl_buffer n v) None encrypt) s Q =
      ends (also_do (new_block Vstr (fresh_bytes env (Suc ?n))) (also_do (run_modes bus env self encrypt (Obj n, 0) ?n (Vstr, 0))
        (seq (load (Vstr, 0) ?n) (\<lambda>bs. ret (Ret_bytes bs, self))))) s Q" for Q
    using m g vs by (auto simp: AES_run_def seq_assoc seq_also seq_lift mod_eq_0_iff_dvd)
  show ?thesis
    unfolding e
  proof (rule ends_also [OF new_block_at [OF at_state_self, of Vstr "fresh_bytes env (Suc ?n)" s view, folded B_def]])
    fix t assume "at_state view B (view (unit_state s)) t"
    from body [OF this] show "ends (also_do (run_modes bus env self encrypt (Obj n, 0) ?n (Vstr, 0))
        (seq (load (Vstr, 0) ?n) (\<lambda>bs. ret (Ret_bytes bs, self)))) t
      (\<lambda>(x, self') t. self' = self \<and> x = Ret_bytes r \<and> (\<forall>i. blocks t (Obj i) = blocks s (Obj i) \<and> blocks t (Iv i) = blocks s (Iv i)))"
      by (rule ends_also) (auto intro!: ends_seq [OF ld] simp: agrees_def put_def B_def)
  qed
qed

section \<open>Construction\<close>

text \<open>The arguments that make an object, the key object, the mode and the IV it starts with: 12 bytes of nonce and the
  counter, or the given IV, filled with zeros.\<close>

fun new_iv :: "(nat \<Rightarrow> bytes) \<Rightarrow> u8 \<Rightarrow> cl_obj \<Rightarrow> cl_obj \<Rightarrow> int \<Rightarrow> bytes option" where
  "new_iv mem mode iv nonce c0 =
     (if mode = UCRYPTOLIB_MODE_CTR then
        (case (nonce, iv) of
           (Cl_buffer n w, _) \<Rightarrow> if length (mem n) = 12 then Some (mem n @ bytes_be 4 (of_int c0 :: u32)) else None
         | (Cl_none, Cl_buffer n w) \<Rightarrow> if length (mem n) = 16 then Some (mem n) else None
         | _ \<Rightarrow> None)
      else
        (case iv of
           Cl_none \<Rightarrow> Some (replicate 16 0)
         | Cl_buffer n w \<Rightarrow>
             if length (mem n) = (if mode = UCRYPTOLIB_MODE_GCM then 12 else if mode = UCRYPTOLIB_MODE_CBC then 16 else 0)
             then Some (mem n @ replicate (16 - length (mem n)) 0) else None
         | Cl_int _ \<Rightarrow> None))"

definition new_args :: "mp_env \<Rightarrow> (nat \<Rightarrow> bytes) \<Rightarrow> cl_obj \<Rightarrow> int \<Rightarrow> cl_obj \<Rightarrow> cl_obj \<Rightarrow> int \<Rightarrow> int \<Rightarrow> (nat \<times> u8 \<times> bytes) option" where
  "new_args env mem key mode iv nonce c0 mac =
     (case key of
        Cl_buffer k w \<Rightarrow>
          let m = of_int mode :: u8 in
          if length (mem k) \<in> {16, 24, 32} \<and>
             m \<in> {UCRYPTOLIB_MODE_GCM, UCRYPTOLIB_MODE_CBC, UCRYPTOLIB_MODE_ECB, UCRYPTOLIB_MODE_CTR} \<and>
             (if m = UCRYPTOLIB_MODE_GCM then (of_int mac :: u32) = 4 else mac = 4) \<and> 40 \<le> heap_limit env
          then map_option (\<lambda>v. (k, m, v)) (new_iv mem m iv nonce c0) else None
      | _ \<Rightarrow> None)"

lemma store_exact: "room (blocks s) p (length bs) \<Longrightarrow> store p bs s = Some (Inr ((), s\<lparr>blocks := put (blocks s) p bs\<rparr>))"
  by (simp add: store_def in_block_def room_def put_def)

lemma load_exact: "room (blocks s) p n \<Longrightarrow> load p n s = Some (Inr (bytes_at (blocks s) p n, s))"
  by (simp add: load_def in_block_def room_def bytes_at_def)

lemma memcpy_exact:
  "room (blocks s) src n \<Longrightarrow> room (blocks s) dst n \<Longrightarrow> memcpy dst src n s = Some (Inr ((), s\<lparr>blocks := put (blocks s) dst (bytes_at (blocks s) src n)\<rparr>))"
  by (simp add: memcpy_def seq_def load_exact store_exact length_bytes_at)

lemma store_counter_exact:
  assumes "length (blocks s (Iv i)) = 16"
  shows "store_counter (Iv i, 0) c s = Some (Inr ((), s\<lparr>blocks := put (blocks s) (Iv i, 12) (bytes_be 4 c)\<rparr>))"
proof -
  let ?p = "(Iv i, 12) :: ptr"
  have st: "store8 (Iv i, 12 + length xs) b (s\<lparr>blocks := put (blocks s) ?p xs\<rparr>) = Some (Inr ((), s\<lparr>blocks := put (blocks s) ?p (xs @ [b])\<rparr>))"
    if "length xs < 4" for xs b
    using that assms put_put [of "blocks s" ?p xs "[b]"] by (simp add: store8_def store_exact room_def put_def ptr_add_def)
  show ?thesis
    unfolding store_counter_def tag_word_bytes [symmetric]
    using st [of "[]"] st [of "[a]" for a] st [of "[a, b]" for a b] st [of "[a, b, d]" for a b d]
    by (simp add: also_do_def seq_def ret_def ptr_add_def)
qed

lemma mode_cases: "(UCRYPTOLIB_MODE_MIN < m \<and> m < UCRYPTOLIB_MODE_MAX) = (m \<in> {UCRYPTOLIB_MODE_GCM, UCRYPTOLIB_MODE_CBC, UCRYPTOLIB_MODE_ECB, UCRYPTOLIB_MODE_CTR})"
proof -
  have "(0 < m \<and> m < 5) = (m = 1 \<or> m = 2 \<or> m = 3 \<or> m = 4)" for m :: u8
    by (auto simp: word_less_nat_alt word_unat_eq_iff)
  then show ?thesis by (simp add: mode_defs)
qed

lemma handle_iv_exact:
  assumes t_def: "t = s\<lparr>blocks := (blocks s)(Iv p := replicate 16 0)\<rparr>"
  shows "case new_iv (\<lambda>n. blocks s (Obj n)) mode iv nonce c0 of
      None \<Rightarrow> \<exists>e. handle_iv p mode iv nonce c0 t = Some (Inl e) \<and> e \<noteq> Heap_overrun
    | Some v \<Rightarrow> length v = 16 \<and> handle_iv p mode iv nonce c0 t = Some (Inr ((), s\<lparr>blocks := (blocks s)(Iv p := v)\<rparr>))"
proof -
  have cp: "memcpy (Iv p, 0) (Obj n, 0) k t = Some (Inr ((), s\<lparr>blocks := (blocks s)(Iv p := blocks s (Obj n) @ replicate (16 - k) 0)\<rparr>))"
    if "length (blocks s (Obj n)) = k" "k \<le> 16" for n k
    using that by (subst memcpy_exact) (simp_all add: t_def room_def put_def bytes_at_def memcpy_at_def)
  have ct: "store_counter (Iv p, 0) c (s\<lparr>blocks := (blocks s)(Iv p := v @ replicate 4 0)\<rparr>) = Some (Inr ((), s\<lparr>blocks := (blocks s)(Iv p := v @ bytes_be 4 c)\<rparr>))"
    if "length v = 12" for c v
    using that by (subst store_counter_exact) (simp_all add: put_def memcpy_at_def)
  have rd: "get_read_buffer (Cl_buffer n w) t = Some (Inr (((Obj n, 0), length (blocks s (Obj n))), t))" "get_read_buffer (Cl_int i) t = Some (Inl TypeError)" for n w i
    by (simp_all add: get_read_buffer_def t_def)
  note eval = handle_iv_def seq_def also_do_def raise_def ret_def rd cp ct Let_def
  show ?thesis
  proof (cases "mode = UCRYPTOLIB_MODE_CTR")
    case True
    then show ?thesis by (cases nonce; cases iv) (simp_all add: eval)
  next
    case False
    then show ?thesis by (cases iv) (simp_all add: eval, simp add: t_def)
  qed
qed

lemma make_new_stage:
  assumes k: "length (blocks s (Obj k)) \<in> {16, 24, 32}" and m: "m = of_int mode"
    "m \<in> {UCRYPTOLIB_MODE_GCM, UCRYPTOLIB_MODE_CBC, UCRYPTOLIB_MODE_ECB, UCRYPTOLIB_MODE_CTR}"
    and mac: "if m = UCRYPTOLIB_MODE_GCM then (of_int mac :: u32) = 4 else mac = 4" and h: "40 \<le> heap_limit env"
  shows "ucryptolib_aes_make_new env p (Cl_buffer k w) mode iv nonce c0 mac s =
    also_do (handle_iv p m iv nonce c0) (ret \<lparr>ctx_input_key = (Obj k, 0), ctx_iv = (Iv p, 0), aes_mode = m,
      aes_key_len = key_code (length (blocks s (Obj k))), aes_gcm_tag = fresh_bytes env 4\<rparr>) (s\<lparr>blocks := (blocks s)(Iv p := replicate 16 0)\<rparr>)"
proof -
  have c: "\<not> (m \<le> UCRYPTOLIB_MODE_MIN \<or> UCRYPTOLIB_MODE_MAX \<le> m)" using m(2) mode_cases [of m] by (auto simp: not_le)
  have al: "lift_result (m_malloc env sizeof_aes) s = Some (Inr (Some (fresh_bytes env 40), s))"
    using h by (simp add: lift_result_def m_malloc_def sizeof_aes_def)
  have k1: "\<not> (length (blocks s (Obj k)) \<noteq> 16 \<and> length (blocks s (Obj k)) \<noteq> 24 \<and> length (blocks s (Obj k)) \<noteq> 32)" using k by auto
  have mac1: "\<not> (m = UCRYPTOLIB_MODE_GCM \<and> (of_int mac :: u32) \<noteq> 4)" and mac2: "\<not> (m \<noteq> UCRYPTOLIB_MODE_GCM \<and> mac \<noteq> 4)" using mac by (auto split: if_splits)
  show ?thesis
    unfolding ucryptolib_aes_make_new_def Let_def m(1) [symmetric] key_code_def
    using k1 c mac1 mac2 al by (auto simp: seq_def also_do_def get_read_buffer_def new_block_def)
qed

lemma make_new_refused:
  assumes "new_args env (\<lambda>n. blocks s (Obj n)) key mode iv nonce c0 mac = None" and "\<not> (\<exists>k w. key = Cl_buffer k w \<and>
     length (blocks s (Obj k)) \<in> {16, 24, 32} \<and>
     of_int mode \<in> {UCRYPTOLIB_MODE_GCM, UCRYPTOLIB_MODE_CBC, UCRYPTOLIB_MODE_ECB, UCRYPTOLIB_MODE_CTR} \<and>
     (if of_int mode = UCRYPTOLIB_MODE_GCM then (of_int mac :: u32) = 4 else mac = 4) \<and> 40 \<le> heap_limit env)"
  shows "\<exists>e. ucryptolib_aes_make_new env p key mode iv nonce c0 mac s = Some (Inl e) \<and> e \<noteq> Heap_overrun"
proof (cases key)
  case (Cl_buffer k w)
  define m where "m = (of_int mode :: u8)"
  note mode = mode_cases [of m]
  show ?thesis
    unfolding ucryptolib_aes_make_new_def Let_def m_def [symmetric] Cl_buffer
    using assms(2) mode
    by (auto simp: Cl_buffer m_def [symmetric] seq_def raise_def get_read_buffer_def lift_result_def m_malloc_def sizeof_aes_def not_le not_less split: if_splits)
qed (simp_all add: ucryptolib_aes_make_new_def seq_def get_read_buffer_def)

lemma make_new_decided:
  "case new_args env (\<lambda>n. blocks s (Obj n)) key mode iv nonce c0 mac of
     None \<Rightarrow> \<exists>e. ucryptolib_aes_make_new env p key mode iv nonce c0 mac s = Some (Inl e) \<and> e \<noteq> Heap_overrun
   | Some (k, m, v) \<Rightarrow> \<exists>self. ucryptolib_aes_make_new env p key mode iv nonce c0 mac s = Some (Inr (self, s\<lparr>blocks := (blocks s)(Iv p := v)\<rparr>)) \<and>
       aes_obj_ok ((blocks s)(Iv p := v)) self k (blocks s (Obj k)) v \<and> aes_mode self = m"
proof (cases "\<exists>k w. key = Cl_buffer k w \<and> length (blocks s (Obj k)) \<in> {16, 24, 32} \<and>
     of_int mode \<in> {UCRYPTOLIB_MODE_GCM, UCRYPTOLIB_MODE_CBC, UCRYPTOLIB_MODE_ECB, UCRYPTOLIB_MODE_CTR} \<and>
     (if of_int mode = UCRYPTOLIB_MODE_GCM then (of_int mac :: u32) = 4 else mac = 4) \<and> 40 \<le> heap_limit env")
  case True
  then obtain k w where c: "key = Cl_buffer k w" "length (blocks s (Obj k)) \<in> {16, 24, 32}"
     "of_int mode \<in> {UCRYPTOLIB_MODE_GCM, UCRYPTOLIB_MODE_CBC, UCRYPTOLIB_MODE_ECB, UCRYPTOLIB_MODE_CTR}"
     "if of_int mode = UCRYPTOLIB_MODE_GCM then (of_int mac :: u32) = 4 else mac = 4" "40 \<le> heap_limit env" by blast
  have a: "new_args env (\<lambda>n. blocks s (Obj n)) key mode iv nonce c0 mac =
      map_option (\<lambda>v. (k, of_int mode, v)) (new_iv (\<lambda>n. blocks s (Obj n)) (of_int mode) iv nonce c0)"
    using c by (simp add: new_args_def Let_def)
  note h = handle_iv_exact [of _ s p "of_int mode" iv nonce c0, OF refl]
  note st = make_new_stage [OF c(2) refl c(3,4,5), of p w iv nonce c0]
  show ?thesis
  proof (cases "new_iv (\<lambda>n. blocks s (Obj n)) (of_int mode) iv nonce c0")
    case None
    then show ?thesis using h a st c(1) by (auto simp: also_do_def seq_def simp del: new_iv.simps)
  next
    case (Some v)
    then show ?thesis using h a st c(1,2) by (auto simp: also_do_def seq_def ret_def aes_obj_ok_def simp del: new_iv.simps)
  qed
next
  case False
  then have "new_args env (\<lambda>n. blocks s (Obj n)) key mode iv nonce c0 mac = None"
    by (cases key) (auto simp: new_args_def Let_def)
  then show ?thesis using make_new_refused [OF _ False] by simp
qed

text \<open>What a new object is.\<close>

lemma make_new_obj_ok:
  assumes "ucryptolib_aes_make_new env p (Cl_buffer k w) mode iv nonce c0 mac s0 = Some (Inr (self, s))"
  shows "\<exists>v. aes_obj_ok (blocks s) self k (blocks s (Obj k)) v"
    and "aes_mode self \<in> {UCRYPTOLIB_MODE_GCM, UCRYPTOLIB_MODE_CBC, UCRYPTOLIB_MODE_ECB, UCRYPTOLIB_MODE_CTR}"
proof -
  note d = make_new_decided [where env = env and s = s0 and key = "Cl_buffer k w" and mode = mode and iv = iv and nonce = nonce and ?c0.0 = c0 and mac = mac and p = p]
  obtain k' m v where a: "new_args env (\<lambda>n. blocks s0 (Obj n)) (Cl_buffer k w) mode iv nonce c0 mac = Some (k', m, v)"
    using d assms by (auto split: option.splits)
  moreover from this have "k' = k" "m \<in> {UCRYPTOLIB_MODE_GCM, UCRYPTOLIB_MODE_CBC, UCRYPTOLIB_MODE_ECB, UCRYPTOLIB_MODE_CTR}"
    by (auto simp: new_args_def Let_def simp del: new_iv.simps split: if_splits)
  ultimately show "\<exists>v. aes_obj_ok (blocks s) self k (blocks s (Obj k)) v"
    and "aes_mode self \<in> {UCRYPTOLIB_MODE_GCM, UCRYPTOLIB_MODE_CBC, UCRYPTOLIB_MODE_ECB, UCRYPTOLIB_MODE_CTR}"
    using d assms by auto
qed

text \<open>Decryption inverts encryption, by the laws of the three pairs of modes.\<close>

lemma crypt_spec_inverse:
  assumes "block_cipher_ok E D" "length key \<in> {16, 24, 32}" "length iv = 16" "mode \<in> {UCRYPTOLIB_MODE_CBC, UCRYPTOLIB_MODE_ECB, UCRYPTOLIB_MODE_CTR}"
    "mode \<noteq> UCRYPTOLIB_MODE_CTR \<longrightarrow> 16 dvd length data"
  shows "crypt_spec E D mode False key iv (crypt_spec E D mode True key iv data) = data"
  using assms(3,4,5) ecb_pair.pair_inverse [OF block_cipher_okD(1) [OF assms(1,2)] assms(3)] cbc_pair.pair_inverse [OF block_cipher_okD(1) [OF assms(1,2)] assms(3)]
    ctr_pair.pair_inverse [OF block_cipher_okD(1) [OF assms(1,2)] assms(3)]
  by (auto simp: crypt_spec_def mode_defs)

section \<open>GCM\<close>

lemma gcm_finished:
  assumes c: "configured key iv AES_GCM sel a n w" "started w" "aad_done w" and l: "length iv = 12" "length T = n"
    and w: "v_fed w = words_of_bytes 4 (pad4 T)" "v_taken w = length (v_fed w)" "v_aad w = words_of_bytes 4 (pad4 aad)" "length aad = a"
  shows "finished w" and "v_tag E D w = gcm_tag_of (E key) iv aad (if sel = AES_HARD_DECRYPTION then T else gcm_crypt (E key) iv T)"
proof -
  have b: "bytes_of_words 4 (words_of_bytes 4 (pad4 xs) :: u32 list) = pad4 xs" for xs by (rule bytes_of_words_of_bytes) simp_all
  have lp: "4 * length (words_of_bytes 4 (pad4 xs) :: u32 list) = length (pad4 xs)" for xs by (simp add: length_words_of_bytes)
  have tot: "v_total w = n" "v_aad_total w = a" "v_cipher w = 2" using c(1) by (simp_all add: configured_def work_len_def)
  have "n \<le> length (pad4 T)" using l(2) by (simp add: pad4_def)
  then show "finished w" using c tot lp [of T] by (simp add: finished_def w(1,2))
  have "v_input w = T" using tot l(2) by (simp add: v_input_def w b) (simp add: pad4_def)
  moreover from this have "v_output E D w = gcm_crypt (E key) iv T"
    using tot l configured_mode [OF c(1), of E D] by (simp add: v_output_def mode_fun_def iv_size_def)
  moreover have "take a (bytes_of_words 4 (v_aad w)) = aad" using w(4) by (simp add: w(3) b) (simp add: pad4_def)
  moreover have "v_key w = key" "v_iv 3 w = iv" "v_reg w Encrypt_sel = sel_code sel" using c(1) l(1) by (simp_all add: configured_def)
  ultimately show "v_tag E D w = gcm_tag_of (E key) iv aad (if sel = AES_HARD_DECRYPTION then T else gcm_crypt (E key) iv T)"
    using tot by (cases sel) (simp_all add: v_tag_def)
qed

lemma gcm_crypt_at:
  assumes ok: "aes_unit_ok bus view E D" "block_cipher_ok E D" and at: "at_state view B v s"
    and k: "length key \<in> {16, 24, 32}" "room B (gcm_input_key ctx) (length key)" "key = bytes_at B (gcm_input_key ctx) (length key)"
    and i: "room B (gcm_iv ctx) 12" "iv = bytes_at B (gcm_iv ctx) 12"
    and a: "room B (gcm_aad ctx) (gcm_aad_len ctx) \<or> gcm_aad_len ctx = 0" "gcm_aad_len ctx < 2 ^ 32" "aad = bytes_at B (gcm_aad ctx) (gcm_aad_len ctx)"
    and n: "0 < n" "n < 2 ^ 32" "room B inp n" "room B outp n" "apart inp outp" "data = bytes_at B inp n"
  shows "ends (crypt bus (gcm_input_key ctx) (length key) (gcm_iv ctx) 12 (gcm_aad ctx) AES_GCM sel (gcm_aad_len ctx) n inp outp n) s
    (\<lambda>_ t. \<exists>w. at_state view (put B outp (gcm_crypt (E key) iv data)) w t \<and> finished w \<and> v_tag_in w = 0 \<and>
       v_tag E D w = gcm_tag_of (E key) iv aad (if sel = AES_HARD_DECRYPTION then data else gcm_crypt (E key) iv data))"
proof -
  have l: "length iv = 12" "length data = n" "length aad = gcm_aad_len ctx" using i n a by (auto simp: length_bytes_at bytes_at_def room_def)
  have c: "ends (crypt bus (gcm_input_key ctx) (length key) (gcm_iv ctx) (length iv) (gcm_aad ctx) AES_GCM sel (gcm_aad_len ctx) n inp outp n) s
    (\<lambda>_ t. \<exists>w. at_state view (put B outp (mode_fun E D AES_GCM sel key iv data)) w t \<and> configured key iv AES_GCM sel (gcm_aad_len ctx) n w \<and> started w \<and> aad_done w \<and>
       v_tag_in w = 0 \<and> v_aad w = words_of_bytes 4 (pad4 (bytes_at B (gcm_aad ctx) (gcm_aad_len ctx))) \<and>
       v_fed w = words_of_bytes 4 (pad4 data) \<and> v_taken w = length (v_fed w))"
    by (rule crypt_at [OF ok at k]) (use i a n l in \<open>simp_all add: iv_size_def work_len_def work_text_def\<close>)
  show ?thesis
    using c unfolding l(1)
    by (rule ends_mono) (use gcm_finished [OF _ _ _ l(1,2) _ _ _ l(3)] a(3) in \<open>fastforce simp: mode_fun_def\<close>)
qed

text \<open>A tag buffer of four bytes.\<close>

lemma hard_gcm_short:
  assumes ok: "aes_unit_ok bus view E D" "block_cipher_ok E D"
    and k: "length key \<in> {16, 24, 32}" "room (blocks s) (gcm_input_key ctx) (length key)" "key = bytes_at (blocks s) (gcm_input_key ctx) (length key)"
    and i: "room (blocks s) (gcm_iv ctx) 12" and a: "gcm_aad_len ctx = 0"
    and n: "0 < n" "n < 2 ^ 32" "room (blocks s) inp n" "room (blocks s) outp n" "apart inp outp"
    and p: "fst outp \<noteq> Gcm_tag" "length (blocks s Gcm_tag) = 4"
  shows "hard_gcm bus encrypt (key_code (length key)) ctx inp n outp (Gcm_tag, 0) s = Some (Inl Heap_overrun)"
  unfolding hard_gcm_crypt [OF k(1)]
proof (rule fails_also [OF gcm_crypt_at [OF ok at_state_self k i refl _ _ refl n refl]])
  let ?c = "gcm_crypt (E key) (bytes_at (blocks s) (gcm_iv ctx) 12) (bytes_at (blocks s) inp n)"
  fix t assume "\<exists>w. at_state view (put (blocks s) outp ?c) w t \<and> finished w \<and> v_tag_in w = 0 \<and>
     v_tag E D w = gcm_tag_of (E key) (bytes_at (blocks s) (gcm_iv ctx) 12) (bytes_at (blocks s) (gcm_aad ctx) (gcm_aad_len ctx))
       (if (if encrypt then AES_HARD_ENCRYPTION else AES_HARD_DECRYPTION) = AES_HARD_DECRYPTION then bytes_at (blocks s) inp n else ?c)"
  then obtain w where w: "at_state view (put (blocks s) outp ?c) w t" "finished w" by blast
  show "gcm_get_tag bus (Gcm_tag, 0) t = Some (Inl Heap_overrun)"
    by (rule gcm_get_tag_short [OF ok w]) (use p in \<open>auto simp: room_def put_def\<close>)
qed (use a in simp_all)

end
