(* ===== verification/Ucryptolib_Props.thy ===== *)
theory Ucryptolib_Props
  imports Ucryptolib_Calls
begin

unbundle bit_operations_syntax

text \<open>
  The properties of the class \<^verbatim>\<open>aes\<close> and of GCM in the driver, with examples on the simulated unit.
\<close>

section \<open>An example\<close>

text \<open>A key, a text of 20 bytes, an IV, two blocks of text, additional data and a place for a tag.\<close>

definition demo :: "aes_view aes_sys" where
  "demo = \<lparr>blocks = (\<lambda>b. if b = Obj 0 then map of_nat [0..<24] else if b = Obj 1 then map of_nat [100..<120]
     else if b = Obj 2 then replicate 12 7 @ [255, 255, 255, 255] else if b = Obj 3 then map of_nat [32..<64]
     else if b = Obj 4 then [1, 2, 3, 4, 5] else if b = Obj 5 then replicate 16 0 else if b = Obj 6 then replicate 12 9
     else if b = Iv 0 then replicate 12 7 @ [255, 255, 255, 255] else []),
     unit_state = reset_view 0\<rparr>"

definition demo_aes :: "u8 \<Rightarrow> mp_obj_aes_t" where
  "demo_aes mode = \<lparr>ctx_input_key = (Obj 0, 0), ctx_iv = (Iv 0, 0), aes_mode = mode, aes_key_len = AES_KEYLEN_192, aes_gcm_tag = [0, 0, 0, 0]\<rparr>"

abbreviation (input) "toy_bus \<equiv> sim_bus toy_encrypt toy_decrypt"

lemma demo_ok: "aes_obj_ok (blocks demo) (demo_aes mode) 0 (blocks demo (Obj 0)) (blocks demo (Iv 0))"
  by (simp add: aes_obj_ok_def demo_def demo_aes_def key_code_def)

section \<open>Properties\<close>

text \<open>The constructor \<^verbatim>\<open>aes(key, mode, iv, nonce=, initial_value=, mac_len=)\<close> is total and decided by \<open>new_args\<close>: arguments
  that it refuses raise an error (never an access outside a buffer), and for the others the object refers to the key
  and holds the mode, the code of the key length and the IV of \<open>new_iv\<close> (nonce and big-endian counter, or the given IV
  filled with zeros); nothing else in memory changes.\<close>

theorem ucryptolib_new_spec:
  "case new_args env (\<lambda>n. blocks s (Obj n)) key mode iv nonce c0 mac of
     None \<Rightarrow> \<exists>e. ucryptolib_aes_make_new env p key mode iv nonce c0 mac s = Some (Inl e) \<and> e \<noteq> Heap_overrun
   | Some (k, m, v) \<Rightarrow> \<exists>self. ucryptolib_aes_make_new env p key mode iv nonce c0 mac s = Some (Inr (self, s\<lparr>blocks := (blocks s)(Iv p := v)\<rparr>)) \<and>
       aes_obj_ok ((blocks s)(Iv p := v)) self k (blocks s (Obj k)) v \<and> aes_mode self = m"
  by (rule make_new_decided)

text \<open>C9: Encryption and decryption in CBC, ECB and CTR, with keys of 16, 24 and 32 bytes and text of any length that the mode
  allows (none included), on a unit that behaves as documented: the call returns, and what it gives is the mode of the
  standard applied to the whole text, as a new bytes object or in the first bytes of the output object, which may be the
  input object itself; no other object changes, nor does the cipher object.\<close>

theorem ucryptolib_crypt_correct:
  assumes "aes_unit_ok bus view E D" and "block_cipher_ok E D" and "fresh_ok env"
    and "aes_obj_ok (blocks s) self k key iv" and "run_args_ok env (blocks s) self k n out_arg"
    and "r = crypt_spec E D (aes_mode self) encrypt key iv (blocks s (Obj n))"
  shows "\<exists>t. (if encrypt then ucryptolib_aes_encrypt bus env self (Cl_buffer n w) out_arg s
              else ucryptolib_aes_decrypt bus env self (Cl_buffer n w) out_arg s) = Some (Inr ((fst (run_result (blocks s) out_arg r), self), t)) \<and>
    (\<lambda>x. blocks t (Obj x)) = snd (run_result (blocks s) out_arg r) \<and> (\<lambda>i. blocks t (Iv i)) = (\<lambda>i. blocks s (Iv i))"
proof -
  have run: "(if encrypt then ucryptolib_aes_encrypt bus env self (Cl_buffer n w) out_arg s
      else ucryptolib_aes_decrypt bus env self (Cl_buffer n w) out_arg s) = AES_run bus env self (Cl_buffer n w) out_arg encrypt s"
    by (simp add: ucryptolib_aes_encrypt_def ucryptolib_aes_decrypt_def)
  consider "out_arg = None" | m x where "out_arg = Some (Cl_buffer m x)"
    using assms(5) by (auto simp: run_args_ok_def split: option.splits cl_obj.splits)
  then show ?thesis
  proof cases
    case 1
    then show ?thesis using run_new_at [OF assms(1-4) _ assms(6), of w] assms(5) unfolding run
      by (auto simp: ends_def run_result_def)
  next
    case 2
    then show ?thesis using run_into_at [OF assms(1-4) _ assms(6), of m x w] assms(5) unfolding run
      by (auto simp: ends_def run_result_def agrees_def put_def fun_eq_iff)
  qed
qed

theorem ucryptolib_crypt_correct_witness:
  "\<exists>t. ucryptolib_aes_encrypt toy_bus ample_env (demo_aes UCRYPTOLIB_MODE_CTR) (Cl_buffer 1 False) None demo =
     Some (Inr ((Ret_bytes (crypt_spec toy_encrypt toy_decrypt UCRYPTOLIB_MODE_CTR True (map of_nat [0..<24])
       (replicate 12 7 @ [255, 255, 255, 255]) (map of_nat [100..<120])), demo_aes UCRYPTOLIB_MODE_CTR), t)) \<and>
     blocks t (Obj 1) = map of_nat [100..<120]"
proof -
  have a: "run_args_ok ample_env (blocks demo) (demo_aes UCRYPTOLIB_MODE_CTR) 0 1 None"
    by (simp add: run_args_ok_def demo_def demo_aes_def ample_env_def mode_defs)
  show ?thesis
    using ucryptolib_crypt_correct [OF sim_unit_ok toy_ok ample_env_ok(1) demo_ok a refl, of True False]
    by (auto simp: run_result_def fun_eq_iff demo_def demo_aes_def simp del: upt_rec_numeral)
qed

text \<open>A text that an object made by \<^verbatim>\<open>aes()\<close> encrypted in CBC, ECB or CTR has the length of the text, and decrypting it
  (as object number \<open>c\<close>, any but the key) gives the text back.\<close>

theorem ucryptolib_roundtrip:
  assumes "aes_unit_ok bus view E D" and "block_cipher_ok E D" and "fresh_ok env"
    and "ucryptolib_aes_make_new env p (Cl_buffer k w) mode iv nonce c0 mac s0 = Some (Inr (self, s))"
    and "run_args_ok env (blocks s) self k n None" and "c \<noteq> k"
  shows "\<exists>x t u. ucryptolib_aes_encrypt bus env self (Cl_buffer n w') None s = Some (Inr ((Ret_bytes x, self), t)) \<and>
    length x = length (blocks s (Obj n)) \<and>
    ucryptolib_aes_decrypt bus env self (Cl_buffer c w'') None (t\<lparr>blocks := (blocks t)(Obj c := x)\<rparr>) = Some (Inr ((Ret_bytes (blocks s (Obj n)), self), u))"
proof -
  obtain v where self: "aes_obj_ok (blocks s) self k (blocks s (Obj k)) v" using make_new_obj_ok(1) [OF assms(4)] by blast
  define key where "key = blocks s (Obj k)"
  define x where "x = crypt_spec E D (aes_mode self) True key v (blocks s (Obj n))"
  have l: "length key \<in> {16, 24, 32}" "length v = 16" using self by (simp_all add: aes_obj_ok_def key_def)
  have m: "aes_mode self \<in> {UCRYPTOLIB_MODE_CBC, UCRYPTOLIB_MODE_ECB, UCRYPTOLIB_MODE_CTR}"
    "aes_mode self \<noteq> UCRYPTOLIB_MODE_CTR \<longrightarrow> 16 dvd length (blocks s (Obj n))" using assms(5) by (simp_all add: run_args_ok_def)
  have lx: "length x = length (blocks s (Obj n))" unfolding x_def using m by (intro length_crypt_spec [OF assms(2) l]) (auto simp: mode_defs)
  obtain t where t: "AES_run bus env self (Cl_buffer n w') None True s = Some (Inr ((Ret_bytes x, self), t))"
      "\<forall>i. blocks t (Obj i) = blocks s (Obj i) \<and> blocks t (Iv i) = blocks s (Iv i)"
    using run_new_at [OF assms(1-3) self assms(5) x_def [unfolded key_def], of w'] by (auto simp: ends_def)
  define t' where "t' = t\<lparr>blocks := (blocks t)(Obj c := x)\<rparr>"
  have "aes_obj_ok (blocks t') self k key v" using self t(2) assms(6) by (auto simp: t'_def aes_obj_ok_def key_def)
  moreover have "run_args_ok env (blocks t') self k c None" using assms(5) lx by (simp add: run_args_ok_def t'_def)
  moreover have "blocks s (Obj n) = crypt_spec E D (aes_mode self) False key v (blocks t' (Obj c))"
    using crypt_spec_inverse [OF assms(2) l m] by (simp add: t'_def x_def)
  ultimately have "ends (AES_run bus env self (Cl_buffer c w'') None False) t' (\<lambda>(y, self') t. self' = self \<and> y = Ret_bytes (blocks s (Obj n)))"
    by (intro ends_mono [OF run_new_at [OF assms(1-3)]]) auto
  then show ?thesis using t(1) lx by (auto simp: ends_def ucryptolib_aes_encrypt_def ucryptolib_aes_decrypt_def t'_def)
qed



text \<open>C39: The tag buffer of the module is four bytes long and the driver stores sixteen: every encryption or decryption of a
  text in GCM mode writes outside an array on the stack.\<close>

theorem ucryptolib_gcm_overrun:
  assumes "aes_unit_ok bus view E D" and "block_cipher_ok E D" and "fresh_ok env"
    and "aes_obj_ok (blocks s) self k key iv" and "aes_mode self = UCRYPTOLIB_MODE_GCM"
    and "0 < length (blocks s (Obj n))" and "length (blocks s (Obj n)) < 2 ^ 32" and "length (blocks s (Obj n)) < heap_limit env"
  shows "AES_run bus env self (Cl_buffer n w) None encrypt s = Some (Inl Heap_overrun)"
proof -
  let ?n = "length (blocks s (Obj n))"
  define s2 where "s2 = s\<lparr>blocks := (blocks s)(Vstr := fresh_bytes env (Suc ?n), Gcm_tag := fresh_bytes env 4)\<rparr>"
  define ctx where "ctx = \<lparr>gcm_input_key = ctx_input_key self, gcm_iv = ctx_iv self, gcm_aad = (Null, 0), gcm_aad_len = 0\<rparr>"
  have f: "length (fresh_bytes env j) = j" for j using assms(3) by (simp add: fresh_ok_def)
  have vs: "vstr_init_len env (of_nat ?n) = Inr (fresh_bytes env (Suc ?n))" using vstr_ok [OF assms(3,8)] assms(7) by simp
  have key: "length key \<in> {16, 24, 32}" "aes_key_len self = key_code (length key)" using assms(4) by (simp_all add: aes_obj_ok_def)
  have "hard_gcm bus encrypt (key_code (length key)) ctx (Obj n, 0) ?n (Vstr, 0) (Gcm_tag, 0) s2 = Some (Inl Heap_overrun)"
    by (rule hard_gcm_short [OF assms(1,2) key(1)])
      (use assms(4,6,7) f in \<open>auto simp: s2_def ctx_def aes_obj_ok_def room_def bytes_at_def apart_def\<close>)
  then have "run_gcm bus env self encrypt (Obj n, 0) ?n (Vstr, 0) (s\<lparr>blocks := (blocks s)(Vstr := fresh_bytes env (Suc ?n))\<rparr>) = Some (Inl Heap_overrun)"
    by (simp add: run_gcm_def also_do_def seq_def new_block_def key(2) ctx_def s2_def Let_def)
  then show ?thesis
    unfolding AES_run_def using assms(5) vs by (simp add: seq_def also_do_def get_read_buffer_def lift_result_def new_block_def ret_def)
qed

theorem ucryptolib_gcm_overrun_witness:
  "AES_run toy_bus ample_env (demo_aes UCRYPTOLIB_MODE_GCM) (Cl_buffer 1 False) None True demo = Some (Inl Heap_overrun)"
  by (rule ucryptolib_gcm_overrun [OF sim_unit_ok toy_ok ample_env_ok(1) demo_ok])
    (simp_all add: demo_aes_def demo_def ample_env_def del: upt_rec_numeral)

end
