(* ===== verification/Spec2Isabelle.thy ===== *)
theory Spec2Isabelle
  imports Hashlib_Spec Sha2_Consts Kboot_Boot Base32_Correct Base43_Correct Flash_Props Qr_Props Ucryptolib_Props
begin

text \<open>
  Verification of the C code that VaultSeed (a fork of the Krux bitcoin signer for the Kendryte
  K210, RV64) runs below its Python wallet: the two-stage boot loader \<^verbatim>\<open>firmware/Kboot\<close>, and of the
  MicroPython port \<^verbatim>\<open>firmware/MaixPy/components/micropython/port/src\<close> the modules for hashing,
  key derivation, ciphers, text encodings, QR codes and flash access, with the drivers of the serial
  flash (\<^verbatim>\<open>components/drivers/flash\<close>) and of the AES unit (\<^verbatim>\<open>aes.c\<close> of the Kendryte SDK).

  \<^bold>\<open>The program.\<close> At reset both cores run stage 0 of Kboot (\<^verbatim>\<open>bootloader_lo/main.c\<close>), which maps the
  flash into memory, copies stage 1 to high memory and jumps to it. Stage 1
  (\<^verbatim>\<open>bootloader_hi/main.c\<close>) looks up the applications in a configuration sector and its backup,
  checks size, CRC or SHA-256 of the selected one, copies it to the start of memory and jumps.
  The application is MicroPython; its start-up initialises the flash driver, and the wallet calls
  \<^verbatim>\<open>hashlib\<close>, \<^verbatim>\<open>hmac\<close>, \<^verbatim>\<open>base32\<close>, \<^verbatim>\<open>base43\<close>, \<^verbatim>\<open>qrcode\<close>, \<^verbatim>\<open>ucryptolib\<close> and \<^verbatim>\<open>flash\<close>, which are C modules:
  hashes of keys and transactions, PBKDF2 for seeds, encodings of keys and QR payloads, encrypted storage.

  \<^bold>\<open>Conventions.\<close> Machine integers are words of their width, arrays are lists, structures are records
  and a C function is one definition of the same name that returns the state it changes. Loops with
  constant bounds are folds; loops that wait for hardware are \<^verbatim>\<open>partial_function (option)\<close>, and that
  they end is proved. No definition takes fuel. Errors raised to Python are \<open>Inl\<close>; a write outside
  an allocated block is the error \<open>Heap_overrun\<close>, so that its absence is a theorem. Hardware and
  the interpreter are parameters: the SHA unit (\<open>engine\<close> with \<open>sha_engine_ok\<close>), the
  memory-mapped flash (\<open>flash\<close>), the GPIO samples and console input of the boot menu, the allocator and
  uninitialised memory (\<open>mp_env\<close>), the SPI controller with the flash chip (\<open>spi\<close> with \<open>chip_ok\<close>; its
  block-protection bits are not part of it), the AES unit (\<open>bus\<close> with \<open>aes_unit_ok\<close>) and the block cipher it
  computes (\<open>block_cipher_ok\<close>). Each
  hypothesis on them has a concrete instance in a witness.

  \<^bold>\<open>Theories.\<close>

  \<^item> \<open>Prelude\<close>: words, byte order, blocks of lists, copying. \<open>Bit_Stream\<close>: lists of words as bits.
  \<open>Mp_Obj\<close>: MicroPython objects, errors, allocation.

  \<^item> \<open>Hash_Stream\<close>: the locales \<open>md_context\<close>, \<open>streaming_hash\<close> (any cutting of a message into updates gives
  the digest of the whole) and their bounded form. \<open>Sha2\<close>, \<open>Sha2_Bits\<close>, \<open>Sha2_Correct\<close>, \<open>Sha2_Consts\<close> for
  \<^verbatim>\<open>uhashlib/crypto/sha2.c\<close>: all functions, the ring of message words against FIPS 180-4, buffering,
  counters and padding, the constants. \<open>Ripemd160\<close>, \<open>Ripemd160_Correct\<close>, \<open>Ripemd160_Stream\<close> for
  \<^verbatim>\<open>ripemd160.c\<close>. \<open>Hmac\<close> for \<^verbatim>\<open>hmac.c\<close> and \<open>Pbkdf2\<close>, \<open>Pbkdf2_Correct\<close> for \<^verbatim>\<open>pbkdf2.c\<close>: locales
  \<open>hmac_stream\<close> and \<open>pbkdf2_code\<close>, interpreted for SHA-256 and SHA-512.

  \<^item> \<open>Hashlib\<close>, \<open>Hashlib_Spec\<close> for \<^verbatim>\<open>uhashlib/hashlib.c\<close> and \<^verbatim>\<open>uhmac.c\<close>: Python objects on a heap, refined to
  objects that are an algorithm and the bytes fed to it; key derivation with its errors; what a
  negative length does. The programs create objects with \<^verbatim>\<open>hashlib.new\<close> and \<^verbatim>\<open>hmac.new\<close>; the class
  constructors call the same functions. That memory for an object runs out is not modelled.

  \<^item> \<open>Aes_Driver\<close> for \<^verbatim>\<open>aes.c\<close>: explicit memory, register accesses, key and IV set-up, the loops over words, blocks and
  80-byte pieces. \<open>Aes_Modes\<close>: ECB, CBC, CTR and GCM of NIST SP 800-38A and 800-38D over any block cipher (locales
  \<open>chain_mode\<close>, \<open>mode_pair\<close>). \<open>Aes_Unit\<close>: the documented behaviour of the unit, and a simulated unit that has it. \<open>Aes_Code\<close>
  (rules for computations that end), \<open>Aes_Init\<close>, \<open>Aes_Process\<close>, \<open>Aes_Correct\<close>: the driver computes the modes and the GCM tag.
  \<open>Ucryptolib\<close>, \<open>Ucryptolib_Correct\<close>, \<open>Ucryptolib_Calls\<close>, \<open>Ucryptolib_Props\<close> for \<^verbatim>\<open>moducryptolib_maix.c\<close>: the constructor
  with its errors, encryption and decryption of whole texts, in place or not, and the tag of GCM mode, which
  overruns its buffer.

  \<^item> \<open>Text_Codec\<close> (locale \<open>text_codec\<close>), \<open>Base32\<close>, \<open>Base32_Correct\<close>, \<open>Base43\<close>, \<open>Base43_Correct\<close> for
  \<^verbatim>\<open>base32/base32.c\<close> and \<^verbatim>\<open>base43/base43.c\<close>: equivalence with RFC 4648 and with positional notation,
  round trips, buffer bounds, the loss of leading zero bytes in base 43.

  \<^item> \<open>W25qxx\<close> for \<^verbatim>\<open>drivers/flash/src/w25qxx.c\<close>, \<open>Nor_Chip\<close> (the data sheet as hypothesis), \<open>W25qxx_Correct\<close>
  (waits end, reads, erases, whole-sector writes), \<open>Flash_Module\<close> for \<^verbatim>\<open>flash/flash.c\<close>, \<^verbatim>\<open>flash_init\<close> of
  \<^verbatim>\<open>maixpy_main.c\<close> and the block device of \<^verbatim>\<open>uos/vfs_spiffs_io.c\<close>, \<open>Flash_Correct\<close> (quad mode),
  \<open>Nor_Sim\<close> (a chip that satisfies the hypothesis) and \<open>Flash_Props\<close> (locale \<open>byte_store\<close>): start-up, writes change
  exactly the bytes given, round trip, erase, and the write lost after an erase that does not wait.

  \<^item> \<open>Check_Loop\<close> (code with assertions, loops that complete), \<open>Qr_Bits\<close>, \<open>Qr_Draw\<close>, \<open>Qr_Code\<close> for
  \<^verbatim>\<open>qrcode/qrcodegen/qrcodegen.c\<close> and \<^verbatim>\<open>qrcode/qrcode.c\<close>: tables, segments, error correction, drawing, masks,
  penalties, encoder, Python functions. \<open>Qr_Grid\<close>, \<open>Qr_Pattern\<close>, \<open>Qr_White\<close>, \<open>Qr_Format\<close>, \<open>Qr_Scan\<close>, \<open>Qr_Mask\<close>: what
  each drawing function does to the modules, and that the modules left by the patterns are as many as the
  tables say. \<open>Qr_Data\<close>, \<open>Qr_Fill\<close>, \<open>Qr_Ecc\<close>: bit strings of segments, choice of the version, data words, the
  dealing of blocks. \<open>Qr_Field\<close> (locale \<open>byte_ring\<close>): Reed-Solomon codes; \<open>Qr_Galois\<close> (locale \<open>byte_field\<close>): the
  multiplication is that of the field of 256 elements with the modulus of the standard, and the distance of the codes. \<open>Qr_Safe\<close>, \<open>Qr_Read\<close>, \<open>Qr_Encode\<close>,
  \<open>Qr_Text\<close>: the encoder completes, and a reader recovers the bytes; \<open>Qr_Props\<close>: the module. The reader follows the
  standard where the code computes (positions of the patterns, order of the scan, masks, format bits, counts,
  characters, zeros of the checks); it shares the two tables of block numbers with the code.

  \<^item> \<open>Fpioa_Table\<close>, \<open>Fpioa\<close> for \<^verbatim>\<open>bootloader_hi/fpioa.c\<close> and \<^verbatim>\<open>gpiohs.c\<close>: the pads as a map from functions.
  \<open>Kboot_Sha256\<close> for \<^verbatim>\<open>bootloader_hi/sha256.c\<close>: the driver on a unit that behaves as documented.
  \<open>Kboot_Stage1\<close> for \<^verbatim>\<open>bootloader_hi/main.c\<close>; \<open>Kboot_Secure\<close>, \<open>Kboot_Choice\<close>, \<open>Kboot_Props\<close>: what the started
  application is, refinement of a specification over the flash contents, the boot pin and the menu,
  termination, memory bounds and the images that escape them. The model keeps the memory that an application
  is copied to apart from the running boot loader at offset \<open>0x5E0000\<close>; what is said of memory after the
  copy is restricted to applications that end below it. \<open>Kboot_Cores\<close>, \<open>Kboot_Boot\<close>: the two cores as
  an interleaved step relation, for code that reads the shared static \<^verbatim>\<open>i\<close> again before its test (the \<^verbatim>\<open>-O0\<close>
  build of the repository) and for code that does not; stage 0, what is in memory when a core jumps, how
  runs end, and the race on \<^verbatim>\<open>i\<close>.

  \<^bold>\<open>Bounds.\<close> Messages of SHA-1, SHA-256 and RIPEMD-160 are below the lengths their counters hold, those
  of the boot loader's SHA unit below \<open>2^22 - 72\<close> bytes (its 16-bit block counter; beyond, a hash check
  is the answer of the unit to a truncated count); a single update of RIPEMD-160
  is below 4 GiB; PBKDF2 keys are below \<open>2^31\<close> bytes; flash accesses lie within the 16 MiB chip.

  \<^bold>\<open>Not modelled.\<close> The MicroPython core, the Kendryte SDK (register access of the peripherals) apart from the
  AES driver, and of that the functions that use DMA, which nothing calls; OpenMV, LVGL,
  the emulator, speech, audio and video modules, ulab, mbedtls and SPIFFS are libraries taken over
  from other projects, which the wallet uses through Python or not at all; \<^verbatim>\<open>secp256k1-embedded\<close> is a
  submodule whose directory is empty. Board support, the LCD, SD card, sensor and LED drivers are
  register input and output. The image entropy of \<^verbatim>\<open>shannon.c\<close> is floating-point arithmetic. The wallet itself
  is Python. Within the modelled files: log output, delays, clock gating and freeing of memory.
\<close>

end
